(* ===== verification/Prelude.thy ===== *)
theory Prelude
  imports Main "HOL-Library.Word"
begin

text \<open>
  The prelude of the development: the faults a C++ process can end with, the result type the
  fallible operations return, its bind, the array accesses that the sources make
  (\<^verbatim>\<open>std::array::at\<close> checked, \<^verbatim>\<open>operator[]\<close> unchecked), the macros of
  \<^verbatim>\<open>src/common/macros.h\<close>, and the lemmas on lists, options and words the components share.
\<close>

section \<open>Faults and results\<close>

text \<open>
  Every operation of the program either goes on or ends the process. \<open>Assert_failed\<close> and
  \<open>Fatal\<close> are the two macros of \<^verbatim>\<open>macros.h\<close>, which print a message and call
  \<^verbatim>\<open>exit(EXIT_FAILURE)\<close>. \<open>Out_of_range\<close> is the exception of a checked container access:
  the sources raise it below \<^verbatim>\<open>noexcept\<close> functions or at the top of a thread, where the
  runtime ends the process. \<open>Null_deref\<close> and \<open>Bad_index\<close> are undefined behaviour (a null
  pointer followed, an unchecked index out of range), as is \<open>Signed_overflow\<close>, the result of a
  signed operation that its type cannot hold; the model stops there, so that no theorem can rely on
  what comes after. \<open>Inactive_member\<close>, reading a member of a union that is not the one last
  written, is undefined too. \<open>Exit_failure\<close> is a call of \<^verbatim>\<open>exit(EXIT_FAILURE)\<close> outside the
  macros. \<open>Diverges\<close> says that the fuel of a loop has run out.
\<close>

datatype fault =
    Assert_failed string
  | Fatal string
  | Out_of_range
  | Null_deref
  | Bad_index
  | Signed_overflow
  | Inactive_member
  | Exit_failure string
  | Diverges

type_synonym 'a result = "fault + 'a"

text \<open>Sequencing: the first fault ends the computation.\<close>

fun andThen :: "'a result \<Rightarrow> ('a \<Rightarrow> 'b result) \<Rightarrow> 'b result" where
  "andThen (Inl e) k = Inl e"
| "andThen (Inr x) k = k x"

text \<open>
  The macros \<^verbatim>\<open>ASSERT\<close> and \<^verbatim>\<open>FATAL\<close>. The values that the sources append to some of the
  messages are mostly left out: nothing reads a message.
\<close>

definition ASSERT :: "bool \<Rightarrow> string \<Rightarrow> unit result" where
  "ASSERT cond msg = (if \<not> cond then Inl (Assert_failed msg) else Inr ())"

definition FATAL :: "string \<Rightarrow> 'a result" where
  "FATAL msg = Inl (Fatal msg)"

text \<open>
  An array of \<open>n\<close> elements is its contents as a function of the index, the size being known
  from its type. \<open>array_at\<close> is the checked access, \<open>array_get\<close> the unchecked one.
\<close>

definition array_at :: "nat \<Rightarrow> (nat \<Rightarrow> 'a) \<Rightarrow> nat \<Rightarrow> 'a result" where
  "array_at n a i = (if i < n then Inr (a i) else Inl Out_of_range)"

definition array_set_at :: "nat \<Rightarrow> (nat \<Rightarrow> 'a) \<Rightarrow> nat \<Rightarrow> 'a \<Rightarrow> (nat \<Rightarrow> 'a) result" where
  "array_set_at n a i x = (if i < n then Inr (a(i := x)) else Inl Out_of_range)"

definition array_get :: "nat \<Rightarrow> (nat \<Rightarrow> 'a) \<Rightarrow> nat \<Rightarrow> 'a result" where
  "array_get n a i = (if i < n then Inr (a i) else Inl Bad_index)"

definition array_set :: "nat \<Rightarrow> (nat \<Rightarrow> 'a) \<Rightarrow> nat \<Rightarrow> 'a \<Rightarrow> (nat \<Rightarrow> 'a) result" where
  "array_set n a i x = (if i < n then Inr (a(i := x)) else Inl Bad_index)"

text \<open>A pointer is the index of a block of its memory pool, \<open>None\<close> the null pointer.\<close>

type_synonym pointer = "nat option"

definition not_null :: "pointer \<Rightarrow> nat result" where
  "not_null p = (case p of None \<Rightarrow> Inl Null_deref | Some i \<Rightarrow> Inr i)"

text \<open>The value of a signed operation of \<open>w\<close> bits.\<close>

definition signed_value :: "nat \<Rightarrow> int \<Rightarrow> int result" where
  "signed_value w i = (if - (2 ^ (w - 1)) \<le> i \<and> i < 2 ^ (w - 1) then Inr i else Inl Signed_overflow)"

section \<open>Shared lemmas\<close>

named_theorems result_simps \<open>how the primitives of the result type compute\<close>

lemma andThen_eq_Inr [result_simps]:
  "andThen m k = Inr y \<longleftrightarrow> (\<exists>x. m = Inr x \<and> k x = Inr y)"
  by (cases m) auto

lemma andThen_assoc: "andThen (andThen m f) g = andThen m (\<lambda>x. andThen (f x) g)"
  by (cases m) auto

lemma ASSERT_True [simp]: "c \<Longrightarrow> ASSERT c msg = Inr ()"
  by (simp add: ASSERT_def)

lemma ASSERT_False [simp]: "\<not> c \<Longrightarrow> ASSERT c msg = Inl (Assert_failed msg)"
  by (simp add: ASSERT_def)

lemma ASSERT_eq_Inr [result_simps]: "ASSERT c msg = Inr u \<longleftrightarrow> c"
  by (simp add: ASSERT_def)

lemma array_at_less [simp]: "i < n \<Longrightarrow> array_at n a i = Inr (a i)"
  by (simp add: array_at_def)

lemma array_at_eq_Inr [result_simps]: "array_at n a i = Inr x \<longleftrightarrow> i < n \<and> x = a i"
  by (auto simp: array_at_def)

lemma array_set_at_less [simp]: "i < n \<Longrightarrow> array_set_at n a i x = Inr (a(i := x))"
  by (simp add: array_set_at_def)

lemma array_set_at_eq_Inr [result_simps]:
  "array_set_at n a i x = Inr b \<longleftrightarrow> i < n \<and> b = a(i := x)"
  by (auto simp: array_set_at_def)

lemma array_get_less [simp]: "i < n \<Longrightarrow> array_get n a i = Inr (a i)"
  by (simp add: array_get_def)

lemma array_get_eq_Inr [result_simps]: "array_get n a i = Inr x \<longleftrightarrow> i < n \<and> x = a i"
  by (auto simp: array_get_def)

lemma array_set_less [simp]: "i < n \<Longrightarrow> array_set n a i x = Inr (a(i := x))"
  by (simp add: array_set_def)

lemma array_set_eq_Inr [result_simps]:
  "array_set n a i x = Inr b \<longleftrightarrow> i < n \<and> b = a(i := x)"
  by (auto simp: array_set_def)

lemma not_null_Some [simp]: "not_null (Some i) = Inr i"
  by (simp add: not_null_def)

lemma not_null_None [simp]: "not_null None = Inl Null_deref"
  by (simp add: not_null_def)

lemma not_null_eq_Inr [result_simps]: "not_null p = Inr i \<longleftrightarrow> p = Some i"
  by (auto simp: not_null_def split: option.splits)

lemma signed_value_eq_Inr [result_simps]:
  "signed_value w i = Inr j \<longleftrightarrow> j = i \<and> - (2 ^ (w - 1)) \<le> i \<and> i < 2 ^ (w - 1)"
  by (auto simp: signed_value_def)

end
