(* ===== verification/Mem_Pool.thy ===== *)
theory Mem_Pool
  imports Prelude
begin

text \<open>
  The memory pool of \<^verbatim>\<open>src/common/mem_pool.h\<close>: a vector of blocks, each an object and a
  flag, and the index at which the next allocation happens. A pointer into the pool is the index
  of its block. The vector is the function \<open>mp_store\<close> below its length \<open>mp_size\<close>.
\<close>

section \<open>The class\<close>

record 'a ObjectBlock =
  object :: 'a
  is_free :: bool

record 'a MemPool =
  mp_store :: "nat \<Rightarrow> 'a ObjectBlock"
  mp_size :: nat
  mp_next_free_index :: nat

text \<open>The constructor: every block holds a default object and is free.\<close>

definition MemPool_new :: "nat \<Rightarrow> 'a \<Rightarrow> 'a MemPool" where
  "MemPool_new num_elems dflt =
     \<lparr>mp_store = (\<lambda>_. \<lparr>object = dflt, is_free = True\<rparr>), mp_size = num_elems,
      mp_next_free_index = 0\<rparr>"

text \<open>The index after \<open>i\<close>, round the end of the vector.\<close>

definition next_index :: "nat \<Rightarrow> nat \<Rightarrow> nat" where
  "next_index n i = (if i + 1 = n then 0 else i + 1)"

text \<open>
  The loop of \<^verbatim>\<open>updateNextFreeIndex\<close>: step over used blocks, wrap at the end of the vector,
  and give up once the index is back where it started.
\<close>

function updateNextFreeIndex_loop ::
    "(nat \<Rightarrow> 'a ObjectBlock) \<Rightarrow> nat \<Rightarrow> nat \<Rightarrow> nat \<Rightarrow> nat result" where
  "updateNextFreeIndex_loop st n init i =
     (if \<not> (i < n \<and> init < n) then Inl Bad_index
      else if is_free (st i) then Inr i
      else if init = next_index n i then Inl (Assert_failed ''Memory Pool out of space.'')
      else updateNextFreeIndex_loop st n init (next_index n i))"
  by pat_completeness auto
termination
  by (relation "measure (\<lambda>(st, n, init, i). if init \<le> i then n - i + init else init - i)")
     (auto simp: next_index_def split: if_splits)

declare updateNextFreeIndex_loop.simps [simp del]

definition updateNextFreeIndex :: "'a MemPool \<Rightarrow> 'a MemPool result" where
  "updateNextFreeIndex mp =
     andThen (updateNextFreeIndex_loop (mp_store mp) (mp_size mp) (mp_next_free_index mp)
               (mp_next_free_index mp))
       (\<lambda>i. Inr (mp\<lparr>mp_next_free_index := i\<rparr>))"

definition allocate :: "'a MemPool \<Rightarrow> 'a \<Rightarrow> (nat \<times> 'a MemPool) result" where
  "allocate mp x =
     andThen (array_get (mp_size mp) (mp_store mp) (mp_next_free_index mp)) (\<lambda>obj_block.
     andThen (ASSERT (is_free obj_block) ''Expected free ObjectBlock'') (\<lambda>_.
     let ret = mp_next_free_index mp;
         mp1 = mp\<lparr>mp_store := (mp_store mp)(ret := \<lparr>object = x, is_free = False\<rparr>)\<rparr> in
     andThen (updateNextFreeIndex mp1) (\<lambda>mp2. Inr (ret, mp2))))"

definition deallocate :: "'a MemPool \<Rightarrow> nat \<Rightarrow> 'a MemPool result" where
  "deallocate mp elem_index =
     andThen (ASSERT (elem_index < mp_size mp)
               ''Element being deallocated does not belong to this Memory pool.'') (\<lambda>_.
     andThen (ASSERT (\<not> is_free (mp_store mp elem_index)) ''Expected in-use ObjectBlock'') (\<lambda>_.
     Inr (mp\<lparr>mp_store := (mp_store mp)(elem_index :=
            (mp_store mp elem_index)\<lparr>is_free := True\<rparr>)\<rparr>)))"

text \<open>Reading and writing the object behind a pointer.\<close>

definition mp_obj :: "'a MemPool \<Rightarrow> nat \<Rightarrow> 'a" where
  "mp_obj mp p = object (mp_store mp p)"

definition mp_upd :: "'a MemPool \<Rightarrow> nat \<Rightarrow> ('a \<Rightarrow> 'a) \<Rightarrow> 'a MemPool" where
  "mp_upd mp p f =
     mp\<lparr>mp_store := (mp_store mp)(p := (mp_store mp p)\<lparr>object := f (mp_obj mp p)\<rparr>)\<rparr>"

text \<open>The blocks in use, and the invariant: the next free index names a free block.\<close>

definition mp_live :: "'a MemPool \<Rightarrow> nat set" where
  "mp_live mp = {i. i < mp_size mp \<and> \<not> is_free (mp_store mp i)}"

definition mp_inv :: "'a MemPool \<Rightarrow> bool" where
  "mp_inv mp \<longleftrightarrow> mp_next_free_index mp < mp_size mp \<and>
     is_free (mp_store mp (mp_next_free_index mp))"

text \<open>There is room for one more object: two blocks are free, as \<open>allocate\<close> needs.\<close>

definition mp_room :: "'a MemPool \<Rightarrow> bool" where
  "mp_room mp \<longleftrightarrow> card (mp_live mp) + 1 < mp_size mp"

section \<open>The search for a free block\<close>

lemma updateNextFreeIndex_loop_free:
  "i < n \<Longrightarrow> init < n \<Longrightarrow> is_free (st i) \<Longrightarrow>
     updateNextFreeIndex_loop st n init i = Inr i"
  by (subst updateNextFreeIndex_loop.simps) simp

lemma updateNextFreeIndex_loop_full:
  "i < n \<Longrightarrow> init < n \<Longrightarrow> \<not> is_free (st i) \<Longrightarrow> init = next_index n i \<Longrightarrow>
     updateNextFreeIndex_loop st n init i = Inl (Assert_failed ''Memory Pool out of space.'')"
  by (subst updateNextFreeIndex_loop.simps) simp

lemma updateNextFreeIndex_loop_step:
  "i < n \<Longrightarrow> init < n \<Longrightarrow> \<not> is_free (st i) \<Longrightarrow> init \<noteq> next_index n i \<Longrightarrow>
     updateNextFreeIndex_loop st n init i = updateNextFreeIndex_loop st n init (next_index n i)"
  by (subst updateNextFreeIndex_loop.simps) simp

lemma next_index_less: "i < n \<Longrightarrow> next_index n i < n"
  by (auto simp: next_index_def)

text \<open>
  The search visits every block from \<open>i\<close> on, round the end of the vector, up to the initial
  index: it fails only when all of them are in use.
\<close>

definition ahead :: "nat \<Rightarrow> nat \<Rightarrow> nat \<Rightarrow> nat set" where
  "ahead n init i = (if init \<le> i then {i..<n} \<union> {0..<init} else {i..<init})"

lemma ahead_step:
  assumes "i < n" and "init < n" and "init \<noteq> next_index n i"
  shows "ahead n init i = insert i (ahead n init (next_index n i))"
  using assms by (auto simp: ahead_def next_index_def split: if_splits)

lemma ahead_last:
  assumes "i < n" and "init < n" and "init = next_index n i"
  shows "ahead n init i = {i}"
  using assms by (auto simp: ahead_def next_index_def split: if_splits)

lemma ahead_self: "i < n \<Longrightarrow> ahead n i i = {0..<n}"
  by (auto simp: ahead_def)

lemma updateNextFreeIndex_loop_found:
  assumes "i < n" and "init < n" and "j \<in> ahead n init i" and "is_free (st j)"
  shows "\<exists>k<n. updateNextFreeIndex_loop st n init i = Inr k \<and> is_free (st k)"
  using assms
proof (induction st n init i rule: updateNextFreeIndex_loop.induct)
  case (1 st n init i)
  show ?case
  proof (cases "is_free (st i)")
    case True
    with "1.prems" show ?thesis by (auto simp: updateNextFreeIndex_loop_free)
  next
    case used: False
    have go: "init \<noteq> next_index n i"
      using "1.prems" used ahead_last [of i n init] by auto
    moreover have "j \<in> ahead n init (next_index n i)"
      using "1.prems" used ahead_step [OF _ _ go] by auto
    ultimately show ?thesis
      using "1.IH" "1.prems" used
      by (simp add: updateNextFreeIndex_loop_step next_index_less)
  qed
qed

lemma updateNextFreeIndex_loop_none:
  assumes "i < n" and "init < n" and "\<forall>j\<in>ahead n init i. \<not> is_free (st j)"
  shows "updateNextFreeIndex_loop st n init i =
           Inl (Assert_failed ''Memory Pool out of space.'')"
  using assms
proof (induction st n init i rule: updateNextFreeIndex_loop.induct)
  case (1 st n init i)
  have used: "\<not> is_free (st i)"
    using "1.prems" by (auto simp: ahead_def)
  show ?case
  proof (cases "init = next_index n i")
    case True
    with "1.prems" used show ?thesis by (auto intro: updateNextFreeIndex_loop_full)
  next
    case False
    with "1.prems" have "\<forall>j\<in>ahead n init (next_index n i). \<not> is_free (st j)"
      by (simp add: ahead_step)
    with False used "1.prems" "1.IH" show ?thesis
      by (simp add: updateNextFreeIndex_loop_step next_index_less)
  qed
qed

section \<open>The operations\<close>

lemma finite_mp_live [simp]: "finite (mp_live mp)"
  by (simp add: mp_live_def)

lemma mp_room_iff:
  assumes "mp_inv mp"
  shows "mp_room mp \<longleftrightarrow>
           (\<exists>j<mp_size mp. j \<noteq> mp_next_free_index mp \<and> is_free (mp_store mp j))"
    (is "_ \<longleftrightarrow> ?other")
proof -
  let ?n = "mp_size mp" and ?f = "mp_next_free_index mp"
  have sub: "insert ?f (mp_live mp) \<subseteq> {0..<?n}" and new: "?f \<notin> mp_live mp"
    using assms by (auto simp: mp_inv_def mp_live_def)
  have c: "card (insert ?f (mp_live mp)) = card (mp_live mp) + 1"
    using new by simp
  have "insert ?f (mp_live mp) \<noteq> {0..<?n} \<longleftrightarrow> card (insert ?f (mp_live mp)) < ?n"
    using card_mono [OF _ sub] card_subset_eq [OF _ sub] by fastforce
  then have "mp_room mp \<longleftrightarrow> insert ?f (mp_live mp) \<noteq> {0..<?n}"
    unfolding mp_room_def c by blast
  also have "\<dots> \<longleftrightarrow> ?other"
    using sub by (auto simp: mp_live_def set_eq_iff)
  finally show ?thesis .
qed

lemma allocate_unfold:
  assumes "mp_inv mp"
  shows "allocate mp x =
    (let f = mp_next_free_index mp;
         st = (mp_store mp)(f := \<lparr>object = x, is_free = False\<rparr>) in
     andThen (updateNextFreeIndex_loop st (mp_size mp) f f)
       (\<lambda>i. Inr (f, mp\<lparr>mp_store := st, mp_next_free_index := i\<rparr>)))"
  using assms
  by (simp add: allocate_def mp_inv_def updateNextFreeIndex_def Let_def andThen_assoc)

lemma allocate_room:
  assumes "mp_inv mp" and "mp_room mp"
  shows "\<exists>mp'. allocate mp x = Inr (mp_next_free_index mp, mp') \<and> mp_inv mp' \<and>
           mp_size mp' = mp_size mp \<and>
           mp_store mp' = (mp_store mp)(mp_next_free_index mp := \<lparr>object = x, is_free = False\<rparr>)"
proof -
  let ?f = "mp_next_free_index mp" and ?n = "mp_size mp"
  let ?st = "(mp_store mp)(?f := \<lparr>object = x, is_free = False\<rparr>)"
  have f: "?f < ?n" using assms(1) by (simp add: mp_inv_def)
  from assms obtain j where j: "j < ?n" "j \<noteq> ?f" "is_free (mp_store mp j)"
    by (auto simp: mp_room_iff)
  then have "j \<in> ahead ?n ?f ?f" "is_free (?st j)"
    using f by (auto simp: ahead_self)
  from updateNextFreeIndex_loop_found [where st = ?st, OF f f this]
  obtain k where "k < ?n" "updateNextFreeIndex_loop ?st ?n ?f ?f = Inr k" "is_free (?st k)"
    by blast
  then show ?thesis
    by (simp add: allocate_unfold [OF assms(1)] Let_def mp_inv_def)
qed

lemma allocate_no_room:
  assumes "mp_inv mp" and "\<not> mp_room mp"
  shows "allocate mp x = Inl (Assert_failed ''Memory Pool out of space.'')"
proof -
  let ?f = "mp_next_free_index mp" and ?n = "mp_size mp"
  let ?st = "(mp_store mp)(?f := \<lparr>object = x, is_free = False\<rparr>)"
  have f: "?f < ?n" using assms(1) by (simp add: mp_inv_def)
  have "\<forall>j\<in>ahead ?n ?f ?f. \<not> is_free (?st j)"
    using assms f by (auto simp: mp_room_iff ahead_self)
  with f have "updateNextFreeIndex_loop ?st ?n ?f ?f =
      Inl (Assert_failed ''Memory Pool out of space.'')"
    by (intro updateNextFreeIndex_loop_none)
  then show ?thesis
    by (simp add: allocate_unfold [OF assms(1)] Let_def)
qed

lemma deallocate_live:
  assumes "p \<in> mp_live mp"
  shows "deallocate mp p =
    Inr (mp\<lparr>mp_store := (mp_store mp)(p := (mp_store mp p)\<lparr>is_free := True\<rparr>)\<rparr>)"
  using assms by (simp add: deallocate_def mp_live_def)

lemma deallocate_not_live:
  "p \<notin> mp_live mp \<Longrightarrow> \<exists>msg. deallocate mp p = Inl (Assert_failed msg)"
  by (cases "p < mp_size mp") (auto simp: deallocate_def mp_live_def)

section \<open>The interface of an object pool\<close>

text \<open>
  What the order books and the snapshot synthesizer rely on: an allocation returns a pointer that
  is not in use, initialised with the object given and with every other object untouched; a
  deallocation of a pointer in use gives exactly that pointer back.
\<close>

locale object_pool =
  fixes alloc :: "'p \<Rightarrow> 'a \<Rightarrow> (nat \<times> 'p) result"
    and dealloc :: "'p \<Rightarrow> nat \<Rightarrow> 'p result"
    and get :: "'p \<Rightarrow> nat \<Rightarrow> 'a"
    and live :: "'p \<Rightarrow> nat set"
    and room :: "'p \<Rightarrow> bool"
    and inv :: "'p \<Rightarrow> bool"
  assumes alloc_ok: "inv s \<Longrightarrow> room s \<Longrightarrow>
      \<exists>p s'. alloc s x = Inr (p, s') \<and> inv s' \<and> p \<notin> live s \<and> live s' = insert p (live s) \<and>
        get s' = (get s)(p := x)"
    and alloc_full: "inv s \<Longrightarrow> \<not> room s \<Longrightarrow> \<exists>e. alloc s x = Inl e"
    and dealloc_ok: "inv s \<Longrightarrow> p \<in> live s \<Longrightarrow>
      \<exists>s'. dealloc s p = Inr s' \<and> inv s' \<and> live s' = live s - {p} \<and> get s' = get s"
    and dealloc_bad: "p \<notin> live s \<Longrightarrow> \<exists>e. dealloc s p = Inl e"
begin

lemma alloc_Inr:
  assumes "inv s" and "alloc s x = Inr (p, s')"
  shows "inv s' \<and> p \<notin> live s \<and> live s' = insert p (live s) \<and> get s' = (get s)(p := x)"
proof (cases "room s")
  case True
  with alloc_ok [OF assms(1), of x] assms(2) show ?thesis by auto
next
  case False
  with alloc_full [OF assms(1), of x] assms(2) show ?thesis by auto
qed

lemma alloc_preserves:
  assumes "inv s" and "alloc s x = Inr (p, s')" and "q \<in> live s"
  shows "get s' q = get s q \<and> q \<in> live s'"
  using alloc_Inr [OF assms(1,2)] assms(3) by auto

lemma alloc_then_dealloc:
  assumes "inv s" and "alloc s x = Inr (p, s')"
  shows "\<exists>s''. dealloc s' p = Inr s'' \<and> inv s'' \<and> live s'' = live s"
proof -
  from alloc_Inr [OF assms]
  have "inv s'" "p \<notin> live s" "live s' = insert p (live s)" by auto
  with dealloc_ok [of s' p] show ?thesis by auto
qed

lemma dealloc_twice:
  assumes "inv s" and "p \<in> live s" and "dealloc s p = Inr s'"
  shows "\<exists>e. dealloc s' p = Inl e"
  using dealloc_ok [OF assms(1,2)] assms(3) dealloc_bad [of p s'] by auto

end

interpretation pool: object_pool allocate deallocate mp_obj mp_live mp_room mp_inv
proof
  fix s :: "'a MemPool" and x :: 'a
  assume inv: "mp_inv s" and room: "mp_room s"
  from allocate_room [OF inv room, of x] obtain s' where s':
    "allocate s x = Inr (mp_next_free_index s, s')" "mp_inv s'" "mp_size s' = mp_size s"
    "mp_store s' = (mp_store s)(mp_next_free_index s := \<lparr>object = x, is_free = False\<rparr>)"
    by blast
  with inv have "mp_next_free_index s \<notin> mp_live s"
    "mp_live s' = insert (mp_next_free_index s) (mp_live s)"
    by (auto simp: mp_live_def mp_inv_def)
  moreover from s' have "mp_obj s' = (mp_obj s)(mp_next_free_index s := x)"
    by (simp add: mp_obj_def fun_eq_iff)
  ultimately show "\<exists>p s'. allocate s x = Inr (p, s') \<and> mp_inv s' \<and> p \<notin> mp_live s \<and>
      mp_live s' = insert p (mp_live s) \<and> mp_obj s' = (mp_obj s)(p := x)"
    using s' by blast
next
  fix s :: "'a MemPool" and x :: 'a
  assume "mp_inv s" and "\<not> mp_room s"
  then show "\<exists>e. allocate s x = Inl e" by (simp add: allocate_no_room)
next
  fix s :: "'a MemPool" and p
  assume "mp_inv s" and "p \<in> mp_live s"
  then show "\<exists>s'. deallocate s p = Inr s' \<and> mp_inv s' \<and> mp_live s' = mp_live s - {p} \<and>
      mp_obj s' = mp_obj s"
    by (auto simp: deallocate_live mp_inv_def mp_live_def mp_obj_def fun_eq_iff)
next
  fix s :: "'a MemPool" and p
  assume "p \<notin> mp_live s"
  then show "\<exists>e. deallocate s p = Inl e" using deallocate_not_live by blast
qed

section \<open>Writing through a pointer\<close>

lemma mp_obj_upd [simp]: "mp_obj (mp_upd mp p f) = (mp_obj mp)(p := f (mp_obj mp p))"
  by (auto simp: mp_obj_def mp_upd_def)

lemma mp_upd_frame [simp]:
  "mp_size (mp_upd mp p f) = mp_size mp"
  "mp_live (mp_upd mp p f) = mp_live mp"
  "mp_inv (mp_upd mp p f) = mp_inv mp"
  "mp_room (mp_upd mp p f) = mp_room mp"
proof -
  show "mp_size (mp_upd mp p f) = mp_size mp" by (simp add: mp_upd_def)
  show live: "mp_live (mp_upd mp p f) = mp_live mp" by (auto simp: mp_upd_def mp_live_def)
  show "mp_inv (mp_upd mp p f) = mp_inv mp" by (simp add: mp_upd_def mp_inv_def)
  show "mp_room (mp_upd mp p f) = mp_room mp"
    unfolding mp_room_def live by (simp add: mp_upd_def)
qed

lemma mp_upd_id: "f (mp_obj mp p) = mp_obj mp p \<Longrightarrow> mp_upd mp p f = mp"
  by (simp add: mp_upd_def mp_obj_def)

lemma allocate_size: "allocate mp x = Inr (p, mp') \<Longrightarrow> mp_size mp' = mp_size mp"
  by (auto simp: allocate_def updateNextFreeIndex_def Let_def result_simps)

lemma deallocate_size: "deallocate mp p = Inr mp' \<Longrightarrow> mp_size mp' = mp_size mp"
  by (auto simp: deallocate_def result_simps)

lemma mp_new_facts [simp]:
  "mp_live (MemPool_new n d) = {}" "mp_size (MemPool_new n d) = n"
  "mp_inv (MemPool_new n d) = (0 < n)" "mp_room (MemPool_new n d) = (1 < n)"
  by (auto simp: mp_live_def MemPool_new_def mp_inv_def mp_room_def)

section \<open>Properties\<close>

text \<open>A sequence of allocations, as the owner of a pool makes them.\<close>

fun allocs :: "'a MemPool \<Rightarrow> 'a list \<Rightarrow> (nat list \<times> 'a MemPool) result" where
  "allocs mp [] = Inr ([], mp)"
| "allocs mp (x # xs) =
     andThen (allocate mp x) (\<lambda>(p, mp1).
     andThen (allocs mp1 xs) (\<lambda>(ps, mp2). Inr (p # ps, mp2)))"

lemma allocs_ok:
  assumes "mp_inv mp" and "card (mp_live mp) + length xs < mp_size mp"
  shows "\<exists>ps mp'. allocs mp xs = Inr (ps, mp') \<and> mp_inv mp' \<and> length ps = length xs \<and> distinct ps \<and>
    set ps \<inter> mp_live mp = {} \<and> mp_live mp' = mp_live mp \<union> set ps \<and>
    map (mp_obj mp') ps = xs \<and> (\<forall>q. q \<notin> set ps \<longrightarrow> mp_obj mp' q = mp_obj mp q)"
  using assms
proof (induction xs arbitrary: mp)
  case Nil
  then show ?case by simp
next
  case (Cons x xs)
  then have "mp_room mp" by (simp add: mp_room_def)
  with pool.alloc_ok [OF Cons.prems(1), of x] obtain p mp1 where
    p: "allocate mp x = Inr (p, mp1)" "mp_inv mp1" "p \<notin> mp_live mp"
    "mp_live mp1 = insert p (mp_live mp)" "mp_obj mp1 = (mp_obj mp)(p := x)"
    by blast
  with Cons.prems(2) allocate_size [OF p(1)] have "card (mp_live mp1) + length xs < mp_size mp1"
    by simp
  from Cons.IH [OF p(2) this] obtain ps mp2 where
    ps: "allocs mp1 xs = Inr (ps, mp2)" "mp_inv mp2" "length ps = length xs" "distinct ps"
    "set ps \<inter> mp_live mp1 = {}" "mp_live mp2 = mp_live mp1 \<union> set ps"
    "map (mp_obj mp2) ps = xs" "\<forall>q. q \<notin> set ps \<longrightarrow> mp_obj mp2 q = mp_obj mp1 q"
    by blast
  with p show ?case by auto
qed

lemma allocs_full:
  assumes "mp_inv mp" and "mp_size mp \<le> card (mp_live mp) + length xs"
  shows "allocs mp xs = Inl (Assert_failed ''Memory Pool out of space.'')"
  using assms
proof (induction xs arbitrary: mp)
  case Nil
  have "mp_live mp \<subseteq> {..<mp_size mp} - {mp_next_free_index mp}" "mp_next_free_index mp < mp_size mp"
    using Nil(1) by (auto simp: mp_live_def mp_inv_def)
  then have "card (mp_live mp) < mp_size mp"
    using card_mono [of "{..<mp_size mp} - {mp_next_free_index mp}" "mp_live mp"] by simp
  with Nil(2) show ?case by simp
next
  case (Cons x xs)
  show ?case
  proof (cases "mp_room mp")
    case True
    with pool.alloc_ok [OF Cons.prems(1), of x] obtain p mp1 where
      p: "allocate mp x = Inr (p, mp1)" "mp_inv mp1" "p \<notin> mp_live mp"
      "mp_live mp1 = insert p (mp_live mp)"
      by blast
    with Cons.prems(2) allocate_size [OF p(1)] have "mp_size mp1 \<le> card (mp_live mp1) + length xs"
      by simp
    from Cons.IH [OF p(2) this] p show ?thesis by simp
  next
    case False
    then show ?thesis using Cons.prems(1) by (simp add: allocate_no_room)
  qed
qed

text \<open>C36: Allocation. From a pool whose next free index names a free block, \<open>allocate\<close> either
  returns a block that was not in use, with the new object in it, every other object untouched and
  the invariant kept, or, when fewer than two blocks are free, ends the process with the assertion
  of \<^verbatim>\<open>updateNextFreeIndex\<close>: the search for the next free block always terminates.\<close>

theorem allocate_spec:
  assumes "mp_inv mp"
  shows "if mp_room mp
    then \<exists>p mp'. allocate mp x = Inr (p, mp') \<and> mp_inv mp' \<and> p \<notin> mp_live mp \<and>
           mp_live mp' = insert p (mp_live mp) \<and> mp_obj mp' = (mp_obj mp)(p := x)
    else allocate mp x = Inl (Assert_failed ''Memory Pool out of space.'')"
  using pool.alloc_ok [OF assms, of x] allocate_no_room [OF assms] by simp

theorem allocate_spec_witness:
  "\<exists>p mp'. allocate (MemPool_new 2 (0::nat)) 7 = Inr (p, mp') \<and> mp_inv mp' \<and>
     p \<notin> mp_live (MemPool_new 2 0) \<and> mp_live mp' = insert p (mp_live (MemPool_new 2 0)) \<and>
     mp_obj mp' = (mp_obj (MemPool_new 2 0))(p := 7)"
  using allocate_spec [of "MemPool_new 2 (0::nat)" 7] by simp

text \<open>Returning an object. An object that was allocated can be returned, after which exactly the
  blocks in use before the allocation are in use, and returning it a second time ends the process.\<close>

theorem deallocate_spec:
  assumes "mp_inv mp" and "allocate mp x = Inr (p, mp1)"
  shows "\<exists>mp2. deallocate mp1 p = Inr mp2 \<and> mp_inv mp2 \<and> mp_live mp2 = mp_live mp \<and>
    (\<exists>e. deallocate mp2 p = Inl e)"
proof -
  have p: "mp_inv mp1" "p \<in> mp_live mp1" using pool.alloc_Inr [OF assms] by auto
  from pool.alloc_then_dealloc [OF assms] obtain mp2 where
    "deallocate mp1 p = Inr mp2" "mp_inv mp2" "mp_live mp2 = mp_live mp" by blast
  with pool.dealloc_twice [OF p] show ?thesis by blast
qed

theorem deallocate_spec_witness:
  "\<exists>p mp1 mp2. allocate (MemPool_new 2 (0::nat)) 7 = Inr (p, mp1) \<and> deallocate mp1 p = Inr mp2 \<and>
     mp_inv mp2 \<and> mp_live mp2 = {} \<and> (\<exists>e. deallocate mp2 p = Inl e)"
proof -
  have inv: "mp_inv (MemPool_new 2 (0::nat))" by simp
  obtain p mp1 where p: "allocate (MemPool_new 2 (0::nat)) 7 = Inr (p, mp1)"
    using pool.alloc_ok [of "MemPool_new 2 (0::nat)" 7] by auto
  from deallocate_spec [OF inv p] p show ?thesis by auto
qed

text \<open>Capacity. A new pool of \<open>n\<close> blocks serves \<open>n - 1\<close> allocations, at distinct blocks that
  hold the objects given, and ends the process at the \<open>n\<close>-th, although a block is still free when
  it is made.\<close>

theorem pool_capacity:
  assumes "0 < n"
  shows "if length xs < n
    then \<exists>ps mp. allocs (MemPool_new n d) xs = Inr (ps, mp) \<and> distinct ps \<and>
           mp_live mp = set ps \<and> map (mp_obj mp) ps = xs
    else allocs (MemPool_new n d) xs = Inl (Assert_failed ''Memory Pool out of space.'')"
  using allocs_ok [of "MemPool_new n d" xs] allocs_full [of "MemPool_new n d" xs] assms by auto

theorem pool_capacity_witness:
  "allocs (MemPool_new 1 (0::nat)) [7] = Inl (Assert_failed ''Memory Pool out of space.'')"
  using pool_capacity [of 1 "[7]" "0::nat"] by simp

end
