(* ===== verification/Types.thy ===== *)
theory Types
  imports Prelude
begin

text \<open>
  \<^verbatim>\<open>src/common/types.h\<close>: the identifiers, prices and quantities of the ecosystem, their
  invalid values, the enumerations and the conversions. Unsigned integers are words of their
  width. A price is the value of its \<^verbatim>\<open>int64_t\<close>: the books only compare prices and take
  them modulo the number of levels, so no price is ever computed in them.
\<close>

section \<open>Bounds on the containers\<close>

definition ME_MAX_TICKERS :: nat where "ME_MAX_TICKERS = 8"
definition ME_MAX_CLIENT_UPDATES :: nat where "ME_MAX_CLIENT_UPDATES = 256 * 1024"
definition ME_MAX_MARKET_UPDATES :: nat where "ME_MAX_MARKET_UPDATES = 256 * 1024"
definition ME_MAX_NUM_CLIENTS :: nat where "ME_MAX_NUM_CLIENTS = 256"
definition ME_MAX_ORDER_IDS :: nat where "ME_MAX_ORDER_IDS = 1024 * 1024"
definition ME_MAX_PRICE_LEVELS :: nat where "ME_MAX_PRICE_LEVELS = 256"

section \<open>Identifiers, prices, quantities\<close>

type_synonym OrderId = "64 word"
type_synonym TickerId = "32 word"
type_synonym ClientId = "32 word"
type_synonym Price = int
type_synonym Qty = "32 word"
type_synonym Priority = "64 word"
type_synonym SeqNum = "64 word"
type_synonym Nanos = int

definition OrderId_INVALID :: OrderId where "OrderId_INVALID = - 1"
definition TickerId_INVALID :: TickerId where "TickerId_INVALID = - 1"
definition ClientId_INVALID :: ClientId where "ClientId_INVALID = - 1"
definition Price_INVALID :: Price where "Price_INVALID = 2 ^ 63 - 1"
definition Qty_INVALID :: Qty where "Qty_INVALID = - 1"
definition Priority_INVALID :: Priority where "Priority_INVALID = - 1"

definition price_ok :: "Price \<Rightarrow> bool" where
  "price_ok p \<longleftrightarrow> - (2 ^ 63) \<le> p \<and> p < 2 ^ 63"

section \<open>Sides and algorithms\<close>

datatype Side = Side_INVALID | BUY | SELL | Side_MAX

fun sideToValue :: "Side \<Rightarrow> int" where
  "sideToValue Side_INVALID = 0"
| "sideToValue BUY = 1"
| "sideToValue SELL = - 1"
| "sideToValue Side_MAX = 2"

text \<open>
  \<^verbatim>\<open>static_cast<size_t>(side) + 1\<close>: the cast of \<^verbatim>\<open>SELL = -1\<close> is the largest
  \<^verbatim>\<open>size_t\<close>, and adding one wraps to zero.
\<close>

definition sideToIndex :: "Side \<Rightarrow> nat" where
  "sideToIndex side = unat (word_of_int (sideToValue side) + 1 :: 64 word)"

fun sideToString :: "Side \<Rightarrow> string" where
  "sideToString BUY = ''BUY''"
| "sideToString SELL = ''SELL''"
| "sideToString Side_INVALID = ''INVALID''"
| "sideToString Side_MAX = ''MAX''"

datatype AlgoType = Algo_INVALID | RANDOM | MAKER | TAKER | Algo_MAX

fun algoTypeToString :: "AlgoType \<Rightarrow> string" where
  "algoTypeToString RANDOM = ''RANDOM''"
| "algoTypeToString MAKER = ''MAKER''"
| "algoTypeToString TAKER = ''TAKER''"
| "algoTypeToString Algo_INVALID = ''INVALID''"
| "algoTypeToString Algo_MAX = ''MAX''"

text \<open>The loop over the values of the enumeration, in their order.\<close>

fun stringToAlgoType_loop :: "AlgoType list \<Rightarrow> string \<Rightarrow> AlgoType" where
  "stringToAlgoType_loop [] str = Algo_INVALID"
| "stringToAlgoType_loop (t # ts) str =
     (if algoTypeToString t = str then t else stringToAlgoType_loop ts str)"

definition stringToAlgoType :: "string \<Rightarrow> AlgoType" where
  "stringToAlgoType str =
     stringToAlgoType_loop [Algo_INVALID, RANDOM, MAKER, TAKER, Algo_MAX] str"

section \<open>Printing\<close>

text \<open>\<^verbatim>\<open>std::to_string\<close> of an unsigned and of a signed integer.\<close>

fun nat_to_string :: "nat \<Rightarrow> string" where
  "nat_to_string n =
     (if n < 10 then [char_of (n + 48)] else nat_to_string (n div 10) @ [char_of (n mod 10 + 48)])"

declare nat_to_string.simps [simp del]

definition int_to_string :: "int \<Rightarrow> string" where
  "int_to_string i = (if i < 0 then CHR ''-'' # nat_to_string (nat (- i)) else nat_to_string (nat i))"

definition orderIdToString :: "OrderId \<Rightarrow> string" where
  "orderIdToString order_id =
     (if order_id = OrderId_INVALID then ''INVALID'' else nat_to_string (unat order_id))"

definition tickerIdToString :: "TickerId \<Rightarrow> string" where
  "tickerIdToString ticker_id =
     (if ticker_id = TickerId_INVALID then ''INVALID'' else nat_to_string (unat ticker_id))"

definition clientIdToString :: "ClientId \<Rightarrow> string" where
  "clientIdToString client_id =
     (if client_id = ClientId_INVALID then ''INVALID'' else nat_to_string (unat client_id))"

definition priceToString :: "Price \<Rightarrow> string" where
  "priceToString price = (if price = Price_INVALID then ''INVALID'' else int_to_string price)"

definition qtyToString :: "Qty \<Rightarrow> string" where
  "qtyToString qty = (if qty = Qty_INVALID then ''INVALID'' else nat_to_string (unat qty))"

definition priorityToString :: "Priority \<Rightarrow> string" where
  "priorityToString priority =
     (if priority = Priority_INVALID then ''INVALID'' else nat_to_string (unat priority))"

section \<open>Lemmas\<close>

lemma sideToIndex_simps [simp]:
  "sideToIndex SELL = 0" "sideToIndex Side_INVALID = 1" "sideToIndex BUY = 2"
  "sideToIndex Side_MAX = 3"
  by (simp_all add: sideToIndex_def)

lemma sideToIndex_inj: "sideToIndex a = sideToIndex b \<longleftrightarrow> a = b"
  by (cases a; cases b) simp_all

lemma stringToAlgoType_roundtrip: "stringToAlgoType (algoTypeToString t) = t"
  by (cases t) (simp_all add: stringToAlgoType_def)


end
