(* ===== verification/LF_Queue.thy ===== *)
theory LF_Queue
  imports Prelude "HOL-Library.Sublist"
begin

text \<open>
  The queue of \<^verbatim>\<open>src/common/lf_queue.h\<close>: a ring of slots, the index to write to, the
  index to read from and the number of elements. The first part is the class as one thread sees
  it, with the contents of the queue as a list and the interface of a bounded queue. The second
  part interleaves one producer and one consumer at the granularity of the atomic accesses.
\<close>

section \<open>The class\<close>

record 'a LFQueue =
  q_store :: "nat \<Rightarrow> 'a"
  q_capacity :: nat
  next_write_index :: nat
  next_read_index :: nat
  num_elements :: nat

definition LFQueue_new :: "nat \<Rightarrow> 'a \<Rightarrow> 'a LFQueue" where
  "LFQueue_new num_elems dflt =
     \<lparr>q_store = (\<lambda>_. dflt), q_capacity = num_elems, next_write_index = 0,
      next_read_index = 0, num_elements = 0\<rparr>"

text \<open>A pointer into the store is the index of its slot.\<close>

definition getNextToWriteTo :: "'a LFQueue \<Rightarrow> nat" where
  "getNextToWriteTo q = next_write_index q"

text \<open>Assignment through the pointer of \<^verbatim>\<open>getNextToWriteTo\<close>: \<^verbatim>\<open>*next_write = v\<close>.\<close>

definition writeSlot :: "'a LFQueue \<Rightarrow> nat \<Rightarrow> 'a \<Rightarrow> 'a LFQueue" where
  "writeSlot q i v = q\<lparr>q_store := (q_store q)(i := v)\<rparr>"

definition updateWriteIndex :: "'a LFQueue \<Rightarrow> 'a LFQueue" where
  "updateWriteIndex q =
     q\<lparr>next_write_index := (next_write_index q + 1) mod q_capacity q,
       num_elements := num_elements q + 1\<rparr>"

definition q_length :: "'a LFQueue \<Rightarrow> nat" where
  "q_length q = num_elements q"

text \<open>The pointer returned is only read through, so the model returns the element.\<close>

definition getNextToRead :: "'a LFQueue \<Rightarrow> 'a option" where
  "getNextToRead q = (if q_length q \<noteq> 0 then Some (q_store q (next_read_index q)) else None)"

definition updateReadIndex :: "'a LFQueue \<Rightarrow> 'a LFQueue result" where
  "updateReadIndex q =
     (let q1 = q\<lparr>next_read_index := (next_read_index q + 1) mod q_capacity q\<rparr> in
      andThen (ASSERT (num_elements q1 \<noteq> 0) ''Read an invalid element'') (\<lambda>_.
      Inr (q1\<lparr>num_elements := num_elements q1 - 1\<rparr>)))"

text \<open>
  The three calls every writer of the program makes, \<^verbatim>\<open>getNextToWriteTo\<close>, the assignment
  and \<^verbatim>\<open>updateWriteIndex\<close>, and a sequence of them.
\<close>

definition q_push :: "'a LFQueue \<Rightarrow> 'a \<Rightarrow> 'a LFQueue" where
  "q_push q v = updateWriteIndex (writeSlot q (getNextToWriteTo q) v)"

definition q_pushes :: "'a LFQueue \<Rightarrow> 'a list \<Rightarrow> 'a LFQueue" where
  "q_pushes q vs = foldl q_push q vs"

text \<open>The elements waiting to be read, oldest first, and the invariant.\<close>

definition q_contents :: "'a LFQueue \<Rightarrow> 'a list" where
  "q_contents q =
     map (\<lambda>k. q_store q ((next_read_index q + k) mod q_capacity q)) [0..<num_elements q]"

definition q_inv :: "'a LFQueue \<Rightarrow> bool" where
  "q_inv q \<longleftrightarrow> next_read_index q < q_capacity q \<and> num_elements q \<le> q_capacity q \<and>
     next_write_index q = (next_read_index q + num_elements q) mod q_capacity q"

section \<open>The operations on the contents\<close>

lemma q_contents_new [simp]: "q_contents (LFQueue_new n d) = []"
  by (simp add: q_contents_def LFQueue_new_def)

lemma q_new_simps [simp]:
  "q_capacity (LFQueue_new n d) = n" "q_length (LFQueue_new n d) = 0"
  by (simp_all add: LFQueue_new_def q_length_def)

lemma q_inv_new: "0 < n \<Longrightarrow> q_inv (LFQueue_new n d)"
  by (simp add: q_inv_def LFQueue_new_def)

lemma length_q_contents [simp]: "length (q_contents q) = q_length q"
  by (simp add: q_contents_def q_length_def)

lemma ring_slots_distinct:
  fixes n :: nat
  assumes "k < m" and "m \<le> n" and "(r + k) mod n = (r + m) mod n"
  shows "k = 0 \<and> m = n"
proof -
  have "n dvd (r + m) - (r + k)"
    using assms by (metis add_le_cancel_left less_imp_le mod_eq_dvd_iff_nat)
  then have "n dvd m - k" by simp
  with assms show ?thesis
    by (metis diff_le_self dvd_imp_le le_antisym diff_is_0_eq' le_trans
        zero_less_diff diff_diff_cancel diff_self_eq_0 less_imp_le_nat)
qed

lemma q_capacity_push [simp]: "q_capacity (q_push q v) = q_capacity q"
  by (simp add: q_push_def updateWriteIndex_def writeSlot_def)

lemma q_length_push [simp]: "q_length (q_push q v) = q_length q + 1"
  by (simp add: q_push_def updateWriteIndex_def writeSlot_def q_length_def)

lemma q_inv_push:
  assumes "q_inv q" and "q_length q < q_capacity q"
  shows "q_inv (q_push q v)"
  using assms
  by (simp add: q_inv_def q_push_def updateWriteIndex_def writeSlot_def q_length_def mod_Suc_eq)

lemma q_contents_push:
  assumes "q_inv q" and "q_length q < q_capacity q"
  shows "q_contents (q_push q v) = q_contents q @ [v]"
proof -
  have "(next_read_index q + k) mod q_capacity q \<noteq> next_write_index q"
    if "k < num_elements q" for k
    using ring_slots_distinct [of k "num_elements q" "q_capacity q" "next_read_index q"] that assms
    by (auto simp: q_inv_def q_length_def)
  with assms show ?thesis
    by (simp add: q_contents_def q_push_def updateWriteIndex_def writeSlot_def
        getNextToWriteTo_def q_inv_def)
qed

lemma getNextToRead_contents:
  assumes "q_inv q"
  shows "getNextToRead q = (case q_contents q of [] \<Rightarrow> None | v # _ \<Rightarrow> Some v)"
  using assms
  by (auto simp: getNextToRead_def q_contents_def q_inv_def q_length_def upt_conv_Cons)

lemma updateReadIndex_contents:
  assumes "q_inv q" and "q_contents q = v # vs"
  shows "\<exists>q'. updateReadIndex q = Inr q' \<and> q_inv q' \<and> q_contents q' = vs \<and>
           q_capacity q' = q_capacity q"
proof -
  let ?q' = "q\<lparr>next_read_index := (next_read_index q + 1) mod q_capacity q,
               num_elements := num_elements q - 1\<rparr>"
  have n: "num_elements q \<noteq> 0"
    using assms(2) length_q_contents [of q] by (simp add: q_length_def)
  then obtain m where m: "num_elements q = Suc m" by (cases "num_elements q") auto
  have "q_inv ?q'"
    using assms(1) by (simp add: q_inv_def mod_simps m)
  moreover have "q_contents ?q' = tl (q_contents q)"
    by (simp add: q_contents_def mod_simps m upt_conv_Cons map_Suc_upt [symmetric]
        del: map_Suc_upt upt_Suc)
  moreover have "updateReadIndex q = Inr ?q'"
    using n by (simp add: updateReadIndex_def)
  ultimately show ?thesis using assms(2) by simp
qed

lemma updateReadIndex_empty:
  "q_contents q = [] \<Longrightarrow> updateReadIndex q = Inl (Assert_failed ''Read an invalid element'')"
  by (simp add: updateReadIndex_def q_contents_def)

section \<open>The interface of a bounded queue\<close>

locale bounded_queue =
  fixes push :: "'q \<Rightarrow> 'a \<Rightarrow> 'q"
    and peek :: "'q \<Rightarrow> 'a option"
    and drop :: "'q \<Rightarrow> 'q result"
    and contents :: "'q \<Rightarrow> 'a list"
    and capacity :: "'q \<Rightarrow> nat"
    and inv :: "'q \<Rightarrow> bool"
  assumes capacity_push: "capacity (push q v) = capacity q"
    and inv_push: "inv q \<Longrightarrow> length (contents q) < capacity q \<Longrightarrow> inv (push q v)"
    and contents_push: "inv q \<Longrightarrow> length (contents q) < capacity q \<Longrightarrow>
      contents (push q v) = contents q @ [v]"
    and peek_contents: "inv q \<Longrightarrow>
      peek q = (case contents q of [] \<Rightarrow> None | v # _ \<Rightarrow> Some v)"
    and drop_contents: "inv q \<Longrightarrow> contents q = v # vs \<Longrightarrow>
      \<exists>q'. drop q = Inr q' \<and> inv q' \<and> contents q' = vs \<and> capacity q' = capacity q"
    and drop_empty: "contents q = [] \<Longrightarrow> \<exists>e. drop q = Inl e"
begin

lemma pushes:
  assumes "inv q" and "length (contents q) + length vs \<le> capacity q"
  shows "inv (foldl push q vs) \<and> contents (foldl push q vs) = contents q @ vs \<and>
           capacity (foldl push q vs) = capacity q"
  using assms
proof (induction vs arbitrary: q)
  case Nil
  then show ?case by simp
next
  case (Cons v vs)
  then have "length (contents q) < capacity q" by simp
  with Cons show ?case
    by (simp add: inv_push contents_push capacity_push)
qed

end

interpretation lfq: bounded_queue q_push getNextToRead updateReadIndex q_contents q_capacity q_inv
  by unfold_locales
     (auto simp: q_inv_push q_contents_push getNextToRead_contents
       intro: updateReadIndex_contents updateReadIndex_empty)

lemma q_pushes_Nil [simp]: "q_pushes q [] = q"
  by (simp add: q_pushes_def)

lemma q_pushes_Cons: "q_pushes q (v # vs) = q_pushes (q_push q v) vs"
  by (simp add: q_pushes_def)

lemma q_pushes_append: "q_pushes q (vs @ ws) = q_pushes (q_pushes q vs) ws"
  by (simp add: q_pushes_def)

lemma q_pushes_single [simp]: "q_pushes q [v] = q_push q v"
  by (simp add: q_pushes_def)

lemmas q_pushes_contents = lfq.pushes [folded q_pushes_def]

section \<open>One producer and one consumer\<close>

text \<open>
  The queue is shared by two threads. The producer calls \<^verbatim>\<open>getNextToWriteTo\<close>, assigns
  through the pointer, stores the new write index and increments the counter; the consumer calls
  \<^verbatim>\<open>getNextToRead\<close>, uses the element, stores the new read index, tests the counter and
  decrements it. Each line is one step, and the steps of the two threads interleave freely. The
  class has no test for a full queue, and neither has \<open>write_begin\<close>. Three fields only record
  the history: \<open>sp_sent\<close> what was published, \<open>sp_rcvd\<close> what the consumer has seen, and
  \<open>sp_overrun\<close> whether a write was begun although every slot was taken.
\<close>

datatype 'a producer = P_Idle | P_Slot nat 'a | P_Written 'a | P_Indexed 'a

datatype consumer = C_Idle | C_Slot nat | C_Used | C_Indexed

record 'a spsc =
  sp_queue :: "'a LFQueue"
  sp_producer :: "'a producer"
  sp_consumer :: consumer
  sp_sent :: "'a list"
  sp_rcvd :: "'a list"
  sp_overrun :: bool

definition spsc_init :: "nat \<Rightarrow> 'a \<Rightarrow> 'a spsc" where
  "spsc_init n d =
     \<lparr>sp_queue = LFQueue_new n d, sp_producer = P_Idle, sp_consumer = C_Idle,
      sp_sent = [], sp_rcvd = [], sp_overrun = False\<rparr>"

inductive spsc_step :: "'a spsc \<Rightarrow> 'a spsc \<Rightarrow> bool" where
  write_begin: "sp_producer s = P_Idle \<Longrightarrow>
    spsc_step s (s\<lparr>sp_producer := P_Slot (getNextToWriteTo (sp_queue s)) v,
      sp_overrun := (sp_overrun s \<or> q_capacity (sp_queue s) \<le> q_length (sp_queue s))\<rparr>)"
| write_slot: "sp_producer s = P_Slot i v \<Longrightarrow>
    spsc_step s (s\<lparr>sp_queue := writeSlot (sp_queue s) i v, sp_producer := P_Written v\<rparr>)"
| write_index: "sp_producer s = P_Written v \<Longrightarrow>
    spsc_step s (s\<lparr>sp_queue := (sp_queue s)\<lparr>next_write_index :=
        (next_write_index (sp_queue s) + 1) mod q_capacity (sp_queue s)\<rparr>,
      sp_producer := P_Indexed v\<rparr>)"
| write_count: "sp_producer s = P_Indexed v \<Longrightarrow>
    spsc_step s (s\<lparr>sp_queue := (sp_queue s)\<lparr>num_elements := num_elements (sp_queue s) + 1\<rparr>,
      sp_producer := P_Idle, sp_sent := sp_sent s @ [v]\<rparr>)"
| read_null: "sp_consumer s = C_Idle \<Longrightarrow> getNextToRead (sp_queue s) = None \<Longrightarrow> spsc_step s s"
| read_begin: "sp_consumer s = C_Idle \<Longrightarrow> getNextToRead (sp_queue s) = Some v \<Longrightarrow>
    spsc_step s (s\<lparr>sp_consumer := C_Slot (next_read_index (sp_queue s))\<rparr>)"
| read_use: "sp_consumer s = C_Slot i \<Longrightarrow>
    spsc_step s (s\<lparr>sp_consumer := C_Used, sp_rcvd := sp_rcvd s @ [q_store (sp_queue s) i]\<rparr>)"
| read_index: "sp_consumer s = C_Used \<Longrightarrow>
    spsc_step s (s\<lparr>sp_queue := (sp_queue s)\<lparr>next_read_index :=
        (next_read_index (sp_queue s) + 1) mod q_capacity (sp_queue s)\<rparr>,
      sp_consumer := C_Indexed\<rparr>)"
| read_count: "sp_consumer s = C_Indexed \<Longrightarrow> num_elements (sp_queue s) \<noteq> 0 \<Longrightarrow>
    spsc_step s (s\<lparr>sp_queue := (sp_queue s)\<lparr>num_elements := num_elements (sp_queue s) - 1\<rparr>,
      sp_consumer := C_Idle\<rparr>)"

inductive spsc_reachable :: "nat \<Rightarrow> 'a \<Rightarrow> 'a spsc \<Rightarrow> bool" for n d where
  start: "spsc_reachable n d (spsc_init n d)"
| step: "spsc_reachable n d s \<Longrightarrow> spsc_step s t \<Longrightarrow> spsc_reachable n d t"

text \<open>How many elements the consumer has given back, and the invariant of the two threads.\<close>

definition released :: "'a spsc \<Rightarrow> nat" where
  "released s = length (sp_rcvd s) - (if sp_consumer s \<in> {C_Used, C_Indexed} then 1 else 0)"

definition producer_inv :: "'a spsc \<Rightarrow> bool" where
  "producer_inv s \<longleftrightarrow>
     (let n = q_capacity (sp_queue s); k = length (sp_sent s) in
      case sp_producer s of
        P_Idle \<Rightarrow> next_write_index (sp_queue s) = k mod n
      | P_Slot i v \<Rightarrow> next_write_index (sp_queue s) = k mod n \<and> i = k mod n \<and>
          k < released s + n
      | P_Written v \<Rightarrow> next_write_index (sp_queue s) = k mod n \<and> k < released s + n \<and>
          q_store (sp_queue s) (k mod n) = v
      | P_Indexed v \<Rightarrow> next_write_index (sp_queue s) = (k + 1) mod n \<and> k < released s + n \<and>
          q_store (sp_queue s) (k mod n) = v)"

definition consumer_inv :: "'a spsc \<Rightarrow> bool" where
  "consumer_inv s \<longleftrightarrow>
     (let n = q_capacity (sp_queue s); r = released s in
      length (sp_rcvd s) = r + (if sp_consumer s \<in> {C_Used, C_Indexed} then 1 else 0) \<and>
      (case sp_consumer s of
        C_Idle \<Rightarrow> next_read_index (sp_queue s) = r mod n
      | C_Slot i \<Rightarrow> next_read_index (sp_queue s) = r mod n \<and> i = r mod n \<and> r < length (sp_sent s)
      | C_Used \<Rightarrow> next_read_index (sp_queue s) = r mod n \<and> r < length (sp_sent s)
      | C_Indexed \<Rightarrow> next_read_index (sp_queue s) = (r + 1) mod n \<and> r < length (sp_sent s)))"

definition spsc_inv :: "nat \<Rightarrow> 'a spsc \<Rightarrow> bool" where
  "spsc_inv n s \<longleftrightarrow> q_capacity (sp_queue s) = n \<and> released s \<le> length (sp_sent s) \<and>
     length (sp_sent s) \<le> released s + n \<and>
     num_elements (sp_queue s) = length (sp_sent s) - released s \<and>
     (\<forall>k. released s \<le> k \<and> k < length (sp_sent s) \<longrightarrow>
        q_store (sp_queue s) (k mod n) = sp_sent s ! k) \<and>
     prefix (sp_rcvd s) (sp_sent s) \<and> producer_inv s \<and> consumer_inv s"

lemma spsc_inv_init: "0 < n \<Longrightarrow> spsc_inv n (spsc_init n d)"
  by (simp add: spsc_inv_def spsc_init_def LFQueue_new_def released_def producer_inv_def
      consumer_inv_def)

lemma slot_free:
  fixes n :: nat
  assumes "r \<le> k" and "k < m" and "m < r + n"
  shows "k mod n \<noteq> m mod n"
proof
  assume "k mod n = m mod n"
  then have "n dvd m - k" using assms(2) by (metis less_imp_le mod_eq_dvd_iff_nat)
  with assms show False by (auto dest: dvd_imp_le)
qed

lemma prefix_snoc_nth:
  "prefix xs ys \<Longrightarrow> length xs < length ys \<Longrightarrow> prefix (xs @ [ys ! length xs]) ys"
  by (auto simp: prefix_def nth_append neq_Nil_conv)

lemmas spsc_defs = spsc_inv_def producer_inv_def consumer_inv_def released_def Let_def
  getNextToWriteTo_def writeSlot_def getNextToRead_def q_length_def

lemma spsc_overrun_mono: "spsc_step s t \<Longrightarrow> sp_overrun s \<Longrightarrow> sp_overrun t"
  by (induction rule: spsc_step.induct) simp_all

lemma spsc_step_inv:
  "spsc_step s t \<Longrightarrow> spsc_inv n s \<Longrightarrow> 0 < n \<Longrightarrow> \<not> sp_overrun t \<Longrightarrow> spsc_inv n t"
proof (induction rule: spsc_step.induct)
  case (write_begin s v)
  have "released (s\<lparr>sp_producer := P_Slot (getNextToWriteTo (sp_queue s)) v, sp_overrun := r\<rparr>) = released s" for r
    by (simp add: released_def)
  moreover have "length (sp_sent s) < released s + n"
    using write_begin by (auto simp: spsc_inv_def q_length_def)
  ultimately show ?case using write_begin
    by (cases "sp_consumer s")
       (simp_all add: spsc_inv_def producer_inv_def consumer_inv_def getNextToWriteTo_def Let_def)
next
  case (write_slot s i v)
  then have "released s \<le> k \<Longrightarrow> k < length (sp_sent s) \<Longrightarrow> k mod n \<noteq> i" for k
    using slot_free [of "released s" k "length (sp_sent s)" n]
    by (auto simp: spsc_inv_def producer_inv_def Let_def)
  moreover have "released (s\<lparr>sp_queue := writeSlot (sp_queue s) i v, sp_producer := P_Written v\<rparr>)
      = released s"
    by (simp add: released_def)
  ultimately show ?case using write_slot
    by (cases "sp_consumer s")
       (simp_all add: spsc_inv_def producer_inv_def consumer_inv_def writeSlot_def Let_def)
next
  case (write_index s v)
  then show ?case by (auto simp: spsc_defs mod_Suc_eq split: consumer.splits)
next
  case (write_count s v)
  then show ?case by (auto simp: spsc_defs nth_append less_Suc_eq split: consumer.splits)
next
  case (read_null s)
  then show ?case by simp
next
  case (read_begin s v)
  then show ?case by (auto simp: spsc_defs split: producer.splits if_splits)
next
  case (read_use s i)
  then have "q_store (sp_queue s) i = sp_sent s ! length (sp_rcvd s)"
    and "length (sp_rcvd s) < length (sp_sent s)"
    by (auto simp: spsc_inv_def consumer_inv_def released_def Let_def)
  with read_use show ?case
    by (auto simp: spsc_defs prefix_snoc_nth split: producer.splits)
next
  case (read_index s)
  then show ?case by (auto simp: spsc_defs mod_Suc_eq split: producer.splits)
next
  case (read_count s)
  then show ?case by (auto simp: spsc_defs split: producer.splits)
qed

lemma spsc_reachable_inv: "spsc_reachable n d s \<Longrightarrow> 0 < n \<Longrightarrow> \<not> sp_overrun s \<Longrightarrow> spsc_inv n s"
  by (induction rule: spsc_reachable.induct) (auto intro: spsc_inv_init spsc_step_inv dest: spsc_overrun_mono)

text \<open>The steps of one thread alone, from the first to the last, are the calls of the class.\<close>

lemma spsc_write:
  assumes "spsc_reachable n d s" and "sp_producer s = P_Idle"
  shows "spsc_reachable n d (s\<lparr>sp_queue := q_push (sp_queue s) v, sp_sent := sp_sent s @ [v],
    sp_overrun := (sp_overrun s \<or> q_capacity (sp_queue s) \<le> q_length (sp_queue s))\<rparr>)"
proof -
  let ?q = "sp_queue s" and ?o = "sp_overrun s \<or> q_capacity (sp_queue s) \<le> q_length (sp_queue s)"
  let ?s1 = "s\<lparr>sp_producer := P_Slot (getNextToWriteTo ?q) v, sp_overrun := ?o\<rparr>"
  let ?s2 = "?s1\<lparr>sp_queue := writeSlot ?q (getNextToWriteTo ?q) v, sp_producer := P_Written v\<rparr>"
  let ?s3 = "?s2\<lparr>sp_queue := (sp_queue ?s2)\<lparr>next_write_index :=
    (next_write_index (sp_queue ?s2) + 1) mod q_capacity (sp_queue ?s2)\<rparr>, sp_producer := P_Indexed v\<rparr>"
  let ?s4 = "?s3\<lparr>sp_queue := (sp_queue ?s3)\<lparr>num_elements := num_elements (sp_queue ?s3) + 1\<rparr>,
    sp_producer := P_Idle, sp_sent := sp_sent s @ [v]\<rparr>"
  have "spsc_reachable n d ?s1" by (rule spsc_reachable.step [OF assms(1) spsc_step.write_begin [OF assms(2)]])
  then have "spsc_reachable n d ?s2" by (rule spsc_reachable.step) (use spsc_step.write_slot [of ?s1] in simp)
  then have "spsc_reachable n d ?s3" by (rule spsc_reachable.step) (use spsc_step.write_index [of ?s2] in simp)
  then have "spsc_reachable n d ?s4" by (rule spsc_reachable.step) (use spsc_step.write_count [of ?s3] in simp)
  moreover have "?s4 = s\<lparr>sp_queue := q_push ?q v, sp_sent := sp_sent s @ [v], sp_overrun := ?o\<rparr>"
    using assms(2) by (cases s) (simp add: q_push_def updateWriteIndex_def)
  ultimately show ?thesis by simp
qed

lemma spsc_read:
  assumes "spsc_reachable n d s" and "sp_consumer s = C_Idle"
    and "getNextToRead (sp_queue s) = Some v" and "updateReadIndex (sp_queue s) = Inr q"
  shows "spsc_reachable n d (s\<lparr>sp_queue := q, sp_rcvd := sp_rcvd s @ [v]\<rparr>)"
proof -
  let ?q = "sp_queue s"
  let ?s1 = "s\<lparr>sp_consumer := C_Slot (next_read_index ?q)\<rparr>"
  let ?s2 = "?s1\<lparr>sp_consumer := C_Used, sp_rcvd := sp_rcvd s @ [q_store ?q (next_read_index ?q)]\<rparr>"
  let ?s3 = "?s2\<lparr>sp_queue := ?q\<lparr>next_read_index := (next_read_index ?q + 1) mod q_capacity ?q\<rparr>, sp_consumer := C_Indexed\<rparr>"
  let ?s4 = "?s3\<lparr>sp_queue := (sp_queue ?s3)\<lparr>num_elements := num_elements ?q - 1\<rparr>, sp_consumer := C_Idle\<rparr>"
  have v: "v = q_store ?q (next_read_index ?q)" "num_elements ?q \<noteq> 0"
    using assms(3) by (auto simp: getNextToRead_def q_length_def split: if_splits)
  have "spsc_reachable n d ?s1" by (rule spsc_reachable.step [OF assms(1) spsc_step.read_begin [OF assms(2,3)]])
  then have "spsc_reachable n d ?s2" by (rule spsc_reachable.step) (use spsc_step.read_use [of ?s1] in simp)
  then have "spsc_reachable n d ?s3" by (rule spsc_reachable.step) (use spsc_step.read_index [of ?s2] in simp)
  then have "spsc_reachable n d ?s4" by (rule spsc_reachable.step) (use spsc_step.read_count [of ?s3] v in simp)
  moreover have "?s4 = s\<lparr>sp_queue := q, sp_rcvd := sp_rcvd s @ [v]\<rparr>"
    using assms(2,4) v by (cases s) (auto simp: updateReadIndex_def)
  ultimately show ?thesis by simp
qed

section \<open>Properties\<close>

text \<open>
  The reader's loop: as long as there is an element, take it and release its slot. The fuel is the
  number of elements at the start.
\<close>

fun q_drain :: "nat \<Rightarrow> 'a LFQueue \<Rightarrow> ('a list \<times> 'a LFQueue) result" where
  "q_drain 0 q = Inr ([], q)"
| "q_drain (Suc k) q =
     (case getNextToRead q of
        None \<Rightarrow> Inr ([], q)
      | Some v \<Rightarrow> andThen (updateReadIndex q) (\<lambda>q1.
          andThen (q_drain k q1) (\<lambda>(vs, q2). Inr (v # vs, q2))))"

lemma q_drain_contents:
  assumes "q_inv q"
  shows "\<exists>q'. q_drain (q_length q) q = Inr (q_contents q, q') \<and> q_inv q' \<and> q_contents q' = [] \<and>
           q_capacity q' = q_capacity q"
  using assms
proof (induction "q_contents q" arbitrary: q)
  case Nil
  then have "q_length q = 0" by (metis length_q_contents list.size(3))
  with Nil show ?case by simp
next
  case (Cons v vs)
  from updateReadIndex_contents [OF Cons.prems Cons.hyps(2) [symmetric]] obtain q1 where
    q1: "updateReadIndex q = Inr q1" "q_inv q1" "q_contents q1 = vs" "q_capacity q1 = q_capacity q"
    by blast
  have len: "q_length q = Suc (q_length q1)"
    using q1(3) Cons.hyps(2) [symmetric] length_q_contents [of q] length_q_contents [of q1] by simp
  have hd: "getNextToRead q = Some v"
    using getNextToRead_contents [OF Cons.prems] Cons.hyps(2) [symmetric] by simp
  from Cons.hyps(1) [OF q1(3) [symmetric] q1(2)] q1 len hd Cons.hyps(2) [symmetric]
  show ?case by auto
qed

text \<open>First in, first out. What is written to a queue with enough room is read back by the
  reader's loop in the order it was written, after what was waiting already, and leaves the queue
  empty; no read runs into the assertion of \<^verbatim>\<open>updateReadIndex\<close>.\<close>

theorem queue_fifo:
  assumes "q_inv q" and "length (q_contents q) + length vs \<le> q_capacity q"
  shows "\<exists>q'. q_drain (length (q_contents q) + length vs) (q_pushes q vs) = Inr (q_contents q @ vs, q') \<and>
           q_inv q' \<and> q_contents q' = []"
proof -
  have "q_inv (q_pushes q vs)" "q_contents (q_pushes q vs) = q_contents q @ vs"
    using q_pushes_contents [OF assms] by simp_all
  with q_drain_contents [of "q_pushes q vs"] length_q_contents [of "q_pushes q vs"] show ?thesis
    by auto
qed

theorem queue_fifo_witness:
  "\<exists>q'. q_drain 2 (q_pushes (LFQueue_new 2 (0::nat)) [5, 6]) = Inr ([5, 6], q') \<and> q_inv q' \<and>
     q_contents q' = []"
  using queue_fifo [of "LFQueue_new 2 (0::nat)" "[5, 6]"] q_inv_new [of 2 "0::nat"]
  by (simp add: numeral_2_eq_2 LFQueue_new_def [of "Suc (Suc 0)"] q_contents_def)

text \<open>C27: One producer and one consumer, for producers that never run ahead of the consumer by more than
  the capacity. As long as no write was begun while every slot was taken, which the class itself does
  not test, however the steps of the two threads interleave: what the consumer has seen is a prefix
  of what the producer has published, and it is at most the capacity behind; the assertion of
  \<^verbatim>\<open>updateReadIndex\<close> does not fail; the slot being read is not the slot being written, and it
  holds the next element in the order of publication. An idle consumer is given an element exactly
  when there is one it has not seen.\<close>

theorem spsc_safe:
  assumes "spsc_reachable n d s" and "0 < n" and "\<not> sp_overrun s"
  shows "prefix (sp_rcvd s) (sp_sent s) \<and> length (sp_sent s) \<le> length (sp_rcvd s) + n \<and>
    (sp_consumer s = C_Indexed \<longrightarrow> num_elements (sp_queue s) \<noteq> 0) \<and>
    (\<forall>i j v. sp_producer s = P_Slot i v \<longrightarrow> sp_consumer s = C_Slot j \<longrightarrow> i \<noteq> j) \<and>
    (\<forall>j. sp_consumer s = C_Slot j \<longrightarrow> length (sp_rcvd s) < length (sp_sent s) \<and>
       q_store (sp_queue s) j = sp_sent s ! length (sp_rcvd s)) \<and>
    (sp_consumer s = C_Idle \<longrightarrow> (getNextToRead (sp_queue s) = None \<longleftrightarrow> sp_rcvd s = sp_sent s))"
proof -
  have inv: "spsc_inv n s" using assms by (rule spsc_reachable_inv)
  then have n: "q_capacity (sp_queue s) = n" and pr: "producer_inv s" and co: "consumer_inv s"
    and num: "num_elements (sp_queue s) = length (sp_sent s) - released s"
    and pre: "prefix (sp_rcvd s) (sp_sent s)" and len: "length (sp_sent s) \<le> released s + n"
    by (simp_all add: spsc_inv_def)
  have counter: "num_elements (sp_queue s) \<noteq> 0" if "sp_consumer s = C_Indexed"
    using co num that by (simp add: consumer_inv_def Let_def)
  have slots: "i \<noteq> j" if "sp_producer s = P_Slot i v" "sp_consumer s = C_Slot j" for i j v
  proof -
    have "i = length (sp_sent s) mod n" "length (sp_sent s) < released s + n"
      using pr that(1) n by (simp_all add: producer_inv_def Let_def)
    moreover have "j = released s mod n" "released s < length (sp_sent s)"
      using co that(2) n by (simp_all add: consumer_inv_def Let_def)
    ultimately show ?thesis
      using slot_free [of "released s" "released s" "length (sp_sent s)" n] by simp
  qed
  have reading: "length (sp_rcvd s) < length (sp_sent s) \<and> q_store (sp_queue s) j = sp_sent s ! length (sp_rcvd s)"
    if "sp_consumer s = C_Slot j" for j
    using inv that by (auto simp: spsc_inv_def consumer_inv_def released_def Let_def)
  have idle: "getNextToRead (sp_queue s) = None \<longleftrightarrow> sp_rcvd s = sp_sent s" if "sp_consumer s = C_Idle"
  proof -
    have "released s = length (sp_rcvd s)" using that by (simp add: released_def)
    then have "getNextToRead (sp_queue s) = None \<longleftrightarrow> length (sp_sent s) \<le> length (sp_rcvd s)"
      using num by (simp add: getNextToRead_def q_length_def)
    also have "\<dots> \<longleftrightarrow> sp_rcvd s = sp_sent s" using pre by (auto simp: prefix_def)
    finally show ?thesis .
  qed
  have "length (sp_sent s) \<le> length (sp_rcvd s) + n" using len by (simp add: released_def)
  then show ?thesis using pre counter slots reading idle by simp
qed

text \<open>Two slots: 7 is sent and received, 8 is sent and about to be read while 9 is about to be written.\<close>

theorem spsc_safe_witness:
  "\<exists>s. spsc_reachable 2 (0::nat) s \<and> sp_sent s = [7, 8] \<and> sp_rcvd s = [7] \<and> prefix (sp_rcvd s) (sp_sent s) \<and>
     sp_producer s = P_Slot 0 9 \<and> sp_consumer s = C_Slot 1 \<and> q_store (sp_queue s) 1 = 8"
proof -
  note defs = spsc_init_def LFQueue_new_def q_push_def updateWriteIndex_def writeSlot_def getNextToWriteTo_def
    getNextToRead_def q_length_def updateReadIndex_def
  let ?s0 = "spsc_init 2 (0::nat)"
  obtain s1 where s1: "spsc_reachable 2 0 s1" "s1 = ?s0\<lparr>sp_queue := q_push (sp_queue ?s0) 7, sp_sent := [7]\<rparr>"
    using spsc_write [OF spsc_reachable.start, of 2 "0::nat" 7] by (simp add: defs)
  obtain q where q: "updateReadIndex (sp_queue s1) = Inr q" by (simp add: s1(2) defs)
  then have "spsc_reachable 2 0 (s1\<lparr>sp_queue := q, sp_rcvd := [7]\<rparr>)"
    using spsc_read [OF s1(1) _ _ q, of 7] by (simp add: s1(2) defs)
  then obtain s2 where s2: "spsc_reachable 2 0 s2" "s2 = s1\<lparr>sp_queue := q, sp_rcvd := [7]\<rparr>" by blast
  have "spsc_reachable 2 0 (s2\<lparr>sp_queue := q_push (sp_queue s2) 8, sp_sent := [7, 8]\<rparr>)"
    using spsc_write [OF s2(1), of 8] q by (simp add: s1(2) s2(2) defs) (auto simp: defs)
  then obtain s3 where s3: "spsc_reachable 2 0 s3" "s3 = s2\<lparr>sp_queue := q_push (sp_queue s2) 8, sp_sent := [7, 8]\<rparr>" by blast
  let ?s4 = "s3\<lparr>sp_consumer := C_Slot 1\<rparr>"
  have "spsc_step s3 ?s4"
    using spsc_step.read_begin [of s3 8] q by (auto simp: s1(2) s2(2) s3(2) defs)
  then have s4: "spsc_reachable 2 0 ?s4" by (rule spsc_reachable.step [OF s3(1)])
  let ?s5 = "?s4\<lparr>sp_producer := P_Slot 0 9\<rparr>"
  have "spsc_step ?s4 ?s5"
    using spsc_step.write_begin [of ?s4 9] q by (auto simp: s1(2) s2(2) s3(2) defs)
  then have "spsc_reachable 2 0 ?s5" by (rule spsc_reachable.step [OF s4])
  moreover have "\<not> sp_overrun ?s5" "sp_sent ?s5 = [7, 8]" "sp_rcvd ?s5 = [7]"
    by (simp_all add: s1(2) s2(2) s3(2) defs)
  ultimately show ?thesis using spsc_safe [of 2 0 ?s5] by (intro exI [of _ ?s5]) simp
qed

text \<open>The class itself has no test for a full queue: a write to a full queue replaces the oldest
  element that is still waiting, and the counter then exceeds the capacity.\<close>

theorem queue_overwrite:
  assumes "q_inv q" and "q_length q = q_capacity q"
  shows "getNextToRead (q_push q v) = Some v \<and> q_capacity q < q_length (q_push q v) \<and>
    \<not> q_inv (q_push q v)"
  using assms
  by (auto simp: q_inv_def q_length_def getNextToRead_def q_push_def updateWriteIndex_def writeSlot_def
      getNextToWriteTo_def)

theorem queue_overwrite_witness:
  "getNextToRead (q_pushes (LFQueue_new 1 (0::nat)) [5, 6]) = Some 6"
  using queue_overwrite [of "q_push (LFQueue_new 1 (0::nat)) 5" 6]
  by (simp add: q_pushes_Cons q_inv_def q_length_def q_push_def updateWriteIndex_def writeSlot_def
      getNextToWriteTo_def LFQueue_new_def)

end
