(* ===== verification/Messages.thy ===== *)
theory Messages
  imports Types LF_Queue
begin

text \<open>
  The messages: client requests (\<^verbatim>\<open>exchange/order_server/client_request.h\<close>), client
  responses (\<^verbatim>\<open>client_response.h\<close>) and market updates
  (\<^verbatim>\<open>exchange/market_data/market_update.h\<close>), in the form the matching engine uses inside and
  in the form with a sequence number that goes over the network.
\<close>

section \<open>Client requests\<close>

datatype ClientRequestType = Request_INVALID | Request_NEW | Request_CANCEL

record MEClientRequest =
  rq_type :: ClientRequestType
  rq_client_id :: ClientId
  rq_ticker_id :: TickerId
  rq_order_id :: OrderId
  rq_side :: Side
  rq_price :: Price
  rq_qty :: Qty

record OMClientRequest =
  orq_seq_num :: SeqNum
  orq_me_client_request :: MEClientRequest

fun clientRequestTypeToString :: "ClientRequestType \<Rightarrow> string" where
  "clientRequestTypeToString Request_NEW = ''NEW''"
| "clientRequestTypeToString Request_CANCEL = ''CANCEL''"
| "clientRequestTypeToString Request_INVALID = ''INVALID''"

text \<open>The default member values.\<close>

definition MEClientRequest_default :: MEClientRequest where
  "MEClientRequest_default =
     \<lparr>rq_type = Request_INVALID, rq_client_id = ClientId_INVALID, rq_ticker_id = TickerId_INVALID,
      rq_order_id = OrderId_INVALID, rq_side = Side_INVALID, rq_price = Price_INVALID,
      rq_qty = Qty_INVALID\<rparr>"

definition MEClientRequest_toString :: "MEClientRequest \<Rightarrow> string" where
  "MEClientRequest_toString r =
     ''MEClientRequest'' @ '' ['' @ ''type:'' @ clientRequestTypeToString (rq_type r) @
     '' client:'' @ clientIdToString (rq_client_id r) @ '' ticker:'' @ tickerIdToString (rq_ticker_id r) @
     '' oid:'' @ orderIdToString (rq_order_id r) @ '' side:'' @ sideToString (rq_side r) @
     '' qty:'' @ qtyToString (rq_qty r) @ '' price:'' @ priceToString (rq_price r) @ '']''"

definition OMClientRequest_toString :: "OMClientRequest \<Rightarrow> string" where
  "OMClientRequest_toString r =
     ''OMClientRequest'' @ '' ['' @ ''seq:'' @ nat_to_string (unat (orq_seq_num r)) @
     '' '' @ MEClientRequest_toString (orq_me_client_request r) @ '']''"

type_synonym ClientRequestLFQueue = "MEClientRequest LFQueue"

section \<open>Client responses\<close>

datatype ClientResponseType =
    Response_INVALID | ACCEPTED | CANCELED | FILLED | CANCEL_REJECTED

record MEClientResponse =
  cr_type :: ClientResponseType
  cr_client_id :: ClientId
  cr_ticker_id :: TickerId
  cr_client_order_id :: OrderId
  cr_market_order_id :: OrderId
  cr_side :: Side
  cr_price :: Price
  cr_exec_qty :: Qty
  cr_leaves_qty :: Qty

record OMClientResponse =
  ocr_seq_num :: SeqNum
  ocr_me_client_response :: MEClientResponse

fun clientResponseTypeToString :: "ClientResponseType \<Rightarrow> string" where
  "clientResponseTypeToString ACCEPTED = ''ACCEPTED''"
| "clientResponseTypeToString CANCELED = ''CANCELED''"
| "clientResponseTypeToString FILLED = ''FILLED''"
| "clientResponseTypeToString CANCEL_REJECTED = ''CANCEL_REJECTED''"
| "clientResponseTypeToString Response_INVALID = ''INVALID''"

definition MEClientResponse_default :: MEClientResponse where
  "MEClientResponse_default =
     \<lparr>cr_type = Response_INVALID, cr_client_id = ClientId_INVALID,
      cr_ticker_id = TickerId_INVALID, cr_client_order_id = OrderId_INVALID,
      cr_market_order_id = OrderId_INVALID, cr_side = Side_INVALID, cr_price = Price_INVALID,
      cr_exec_qty = Qty_INVALID, cr_leaves_qty = Qty_INVALID\<rparr>"

definition MEClientResponse_toString :: "MEClientResponse \<Rightarrow> string" where
  "MEClientResponse_toString r =
     ''MEClientResponse'' @ '' ['' @ ''type:'' @ clientResponseTypeToString (cr_type r) @
     '' client:'' @ clientIdToString (cr_client_id r) @ '' ticker:'' @ tickerIdToString (cr_ticker_id r) @
     '' coid:'' @ orderIdToString (cr_client_order_id r) @ '' moid:'' @ orderIdToString (cr_market_order_id r) @
     '' side:'' @ sideToString (cr_side r) @ '' exec_qty:'' @ qtyToString (cr_exec_qty r) @
     '' leaves_qty:'' @ qtyToString (cr_leaves_qty r) @ '' price:'' @ priceToString (cr_price r) @ '']''"

definition OMClientResponse_toString :: "OMClientResponse \<Rightarrow> string" where
  "OMClientResponse_toString r =
     ''OMClientResponse'' @ '' ['' @ ''seq:'' @ nat_to_string (unat (ocr_seq_num r)) @
     '' '' @ MEClientResponse_toString (ocr_me_client_response r) @ '']''"

type_synonym ClientResponseLFQueue = "MEClientResponse LFQueue"

section \<open>Market updates\<close>

datatype MarketUpdateType =
    Update_INVALID | CLEAR | ADD | MODIFY | CANCEL | TRADE | SNAPSHOT_START | SNAPSHOT_END

record MEMarketUpdate =
  mu_type :: MarketUpdateType
  mu_order_id :: OrderId
  mu_ticker_id :: TickerId
  mu_side :: Side
  mu_price :: Price
  mu_qty :: Qty
  mu_priority :: Priority

record MDPMarketUpdate =
  mdp_seq_num :: SeqNum
  mdp_me_market_update :: MEMarketUpdate

fun marketUpdateTypeToString :: "MarketUpdateType \<Rightarrow> string" where
  "marketUpdateTypeToString CLEAR = ''CLEAR''"
| "marketUpdateTypeToString ADD = ''ADD''"
| "marketUpdateTypeToString MODIFY = ''MODIFY''"
| "marketUpdateTypeToString CANCEL = ''CANCEL''"
| "marketUpdateTypeToString TRADE = ''TRADE''"
| "marketUpdateTypeToString SNAPSHOT_START = ''SNAPSHOT_START''"
| "marketUpdateTypeToString SNAPSHOT_END = ''SNAPSHOT_END''"
| "marketUpdateTypeToString Update_INVALID = ''INVALID''"

definition MEMarketUpdate_default :: MEMarketUpdate where
  "MEMarketUpdate_default =
     \<lparr>mu_type = Update_INVALID, mu_order_id = OrderId_INVALID, mu_ticker_id = TickerId_INVALID,
      mu_side = Side_INVALID, mu_price = Price_INVALID, mu_qty = Qty_INVALID,
      mu_priority = Priority_INVALID\<rparr>"

definition MEMarketUpdate_toString :: "MEMarketUpdate \<Rightarrow> string" where
  "MEMarketUpdate_toString u =
     ''MEMarketUpdate'' @ '' ['' @ '' type:'' @ marketUpdateTypeToString (mu_type u) @
     '' ticker:'' @ tickerIdToString (mu_ticker_id u) @ '' oid:'' @ orderIdToString (mu_order_id u) @
     '' side:'' @ sideToString (mu_side u) @ '' qty:'' @ qtyToString (mu_qty u) @
     '' price:'' @ priceToString (mu_price u) @ '' priority:'' @ priorityToString (mu_priority u) @ '']''"

definition MDPMarketUpdate_toString :: "MDPMarketUpdate \<Rightarrow> string" where
  "MDPMarketUpdate_toString u =
     ''MDPMarketUpdate'' @ '' ['' @ '' seq:'' @ nat_to_string (unat (mdp_seq_num u)) @
     '' '' @ MEMarketUpdate_toString (mdp_me_market_update u) @ '']''"

type_synonym MEMarketUpdateLFQueue = "MEMarketUpdate LFQueue"
type_synonym MDPMarketUpdateLFQueue = "MDPMarketUpdate LFQueue"

end
