(* ===== verification/Trading_Types.thy ===== *)
theory Trading_Types
  imports Types Complex_Main
begin

text \<open>
  What the trading components share: floating point arithmetic, the configuration structs of
  \<^verbatim>\<open>src/common/types.h\<close> and the best bid and offer of
  \<^verbatim>\<open>src/trading/strategy/market_order.h\<close>. The arithmetic of \<^verbatim>\<open>double\<close> is a parameter: the
  components are defined over a record of its operations, so nothing is assumed on rounding. One
  instance computes exactly on rational numbers with a NaN; the theorems on profit and loss are
  about it, the others hold for every arithmetic.
\<close>

section \<open>Floating point\<close>

record 'f double_ops =
  d_of_int :: "int \<Rightarrow> 'f"
  d_half :: 'f
  d_nan :: 'f
  d_add :: "'f \<Rightarrow> 'f \<Rightarrow> 'f"
  d_sub :: "'f \<Rightarrow> 'f \<Rightarrow> 'f"
  d_mul :: "'f \<Rightarrow> 'f \<Rightarrow> 'f"
  d_div :: "'f \<Rightarrow> 'f \<Rightarrow> 'f"
  d_less :: "'f \<Rightarrow> 'f \<Rightarrow> bool"
  d_le :: "'f \<Rightarrow> 'f \<Rightarrow> bool"
  d_eq :: "'f \<Rightarrow> 'f \<Rightarrow> bool"

datatype exact = NaN | Num rat

fun lift2 :: "(rat \<Rightarrow> rat \<Rightarrow> rat) \<Rightarrow> exact \<Rightarrow> exact \<Rightarrow> exact" where
  "lift2 f (Num a) (Num b) = Num (f a b)"
| "lift2 f _ _ = NaN"

fun lift_rel :: "(rat \<Rightarrow> rat \<Rightarrow> bool) \<Rightarrow> exact \<Rightarrow> exact \<Rightarrow> bool" where
  "lift_rel f (Num a) (Num b) = f a b"
| "lift_rel f _ _ = False"

definition exact_ops :: "exact double_ops" where
  "exact_ops =
     \<lparr>d_of_int = (\<lambda>i. Num (of_int i)), d_half = Num (1 / 2), d_nan = NaN,
      d_add = lift2 (+), d_sub = lift2 (-), d_mul = lift2 (*),
      d_div = (\<lambda>a b. if b = Num 0 then NaN else lift2 (/) a b),
      d_less = lift_rel (<), d_le = lift_rel (\<le>), d_eq = lift_rel (=)\<rparr>"

lemma exact_ops_simps [simp]:
  "d_of_int exact_ops i = Num (of_int i)" "d_half exact_ops = Num (1 / 2)" "d_nan exact_ops = NaN"
  "d_add exact_ops = lift2 (+)" "d_sub exact_ops = lift2 (-)" "d_mul exact_ops = lift2 (*)"
  "d_div exact_ops a b = (if b = Num 0 then NaN else lift2 (/) a b)"
  "d_less exact_ops = lift_rel (<)" "d_le exact_ops = lift_rel (\<le>)" "d_eq exact_ops = lift_rel (=)"
  by (simp_all add: exact_ops_def)

lemma exact_nan: "\<not> d_eq exact_ops x NaN"
  by (cases x) simp_all

section \<open>Configuration\<close>

record 'f RiskCfg =
  max_order_size :: Qty
  max_position :: Qty
  max_loss :: 'f

record 'f TradeEngineCfg =
  clip :: Qty
  threshold :: 'f
  risk_cfg :: "'f RiskCfg"

section \<open>The best bid and offer\<close>

record BBO =
  bid_price :: Price
  ask_price :: Price
  bid_qty :: Qty
  ask_qty :: Qty

definition BBO_default :: BBO where
  "BBO_default = \<lparr>bid_price = Price_INVALID, ask_price = Price_INVALID, bid_qty = Qty_INVALID, ask_qty = Qty_INVALID\<rparr>"

definition BBO_toString :: "BBO \<Rightarrow> string" where
  "BBO_toString bbo = ''BBO{'' @ qtyToString (bid_qty bbo) @ ''@'' @ priceToString (bid_price bbo) @ ''X'' @
     priceToString (ask_price bbo) @ ''@'' @ qtyToString (ask_qty bbo) @ ''}''"

definition both_sides :: "BBO \<Rightarrow> bool" where
  "both_sides bbo \<longleftrightarrow> bid_price bbo \<noteq> Price_INVALID \<and> ask_price bbo \<noteq> Price_INVALID"

end
