(* ===== verification/Market_Order_Book.thy ===== *)
theory Market_Order_Book
  imports Mem_Pool Messages Trading_Types
begin

text \<open>
  The limit order book of a trading client: \<^verbatim>\<open>src/trading/strategy/market_order.h\<close>,
  \<^verbatim>\<open>market_order_book.h\<close> and \<^verbatim>\<open>market_order_book.cpp\<close>. It is rebuilt from the market
  updates; its lists of orders and levels are those of the exchange's book, with a table from the
  market order id to the order and a summary of the best prices. Pointers are indices of the memory
  pools. The trade engine that the book calls back is given by two functions on its state.
\<close>

section \<open>Orders, price levels and the book\<close>

record MarketOrder =
  mo_order_id :: OrderId
  mo_side :: Side
  mo_price :: Price
  mo_qty :: Qty
  mo_priority :: Priority
  mo_prev_order :: pointer
  mo_next_order :: pointer

definition MarketOrder_default :: MarketOrder where
  "MarketOrder_default =
     \<lparr>mo_order_id = OrderId_INVALID, mo_side = Side_INVALID, mo_price = Price_INVALID,
      mo_qty = Qty_INVALID, mo_priority = Priority_INVALID, mo_prev_order = None, mo_next_order = None\<rparr>"

record MarketOrdersAtPrice =
  mop_side :: Side
  mop_price :: Price
  mop_first_mkt_order :: pointer
  mop_prev_entry :: pointer
  mop_next_entry :: pointer

definition MarketOrdersAtPrice_default :: MarketOrdersAtPrice where
  "MarketOrdersAtPrice_default =
     \<lparr>mop_side = Side_INVALID, mop_price = Price_INVALID, mop_first_mkt_order = None,
      mop_prev_entry = None, mop_next_entry = None\<rparr>"

record MarketOrderBook =
  mb_ticker_id :: TickerId
  mb_oid_to_order :: "nat \<Rightarrow> pointer"
  mb_orders_at_price_pool :: "MarketOrdersAtPrice MemPool"
  mb_bids_by_price :: pointer
  mb_asks_by_price :: pointer
  mb_price_orders_at_price :: "nat \<Rightarrow> pointer"
  mb_order_pool :: "MarketOrder MemPool"
  mb_bbo :: BBO

text \<open>As at the exchange, the constructor leaves the two tables as the memory it is given.\<close>

definition MarketOrderBook_new :: "TickerId \<Rightarrow> (nat \<Rightarrow> pointer) \<Rightarrow> (nat \<Rightarrow> pointer) \<Rightarrow> MarketOrderBook" where
  "MarketOrderBook_new ticker_id oid_mem price_mem =
     \<lparr>mb_ticker_id = ticker_id, mb_oid_to_order = oid_mem,
      mb_orders_at_price_pool = MemPool_new ME_MAX_PRICE_LEVELS MarketOrdersAtPrice_default,
      mb_bids_by_price = None, mb_asks_by_price = None, mb_price_orders_at_price = price_mem,
      mb_order_pool = MemPool_new ME_MAX_ORDER_IDS MarketOrder_default, mb_bbo = BBO_default\<rparr>"

text \<open>Assignments to single members behind a pointer, and the head of a side.\<close>

definition mo_set_next :: "MarketOrder MemPool \<Rightarrow> nat \<Rightarrow> pointer \<Rightarrow> MarketOrder MemPool" where
  "mo_set_next op p v = mp_upd op p (\<lambda>n. n\<lparr>mo_next_order := v\<rparr>)"

definition mo_set_prev :: "MarketOrder MemPool \<Rightarrow> nat \<Rightarrow> pointer \<Rightarrow> MarketOrder MemPool" where
  "mo_set_prev op p v = mp_upd op p (\<lambda>n. n\<lparr>mo_prev_order := v\<rparr>)"

definition mop_set_next :: "MarketOrdersAtPrice MemPool \<Rightarrow> nat \<Rightarrow> pointer \<Rightarrow> MarketOrdersAtPrice MemPool" where
  "mop_set_next lp p v = mp_upd lp p (\<lambda>n. n\<lparr>mop_next_entry := v\<rparr>)"

definition mop_set_prev :: "MarketOrdersAtPrice MemPool \<Rightarrow> nat \<Rightarrow> pointer \<Rightarrow> MarketOrdersAtPrice MemPool" where
  "mop_set_prev lp p v = mp_upd lp p (\<lambda>n. n\<lparr>mop_prev_entry := v\<rparr>)"

definition mop_set_first :: "MarketOrdersAtPrice MemPool \<Rightarrow> nat \<Rightarrow> pointer \<Rightarrow> MarketOrdersAtPrice MemPool" where
  "mop_set_first lp p v = mp_upd lp p (\<lambda>n. n\<lparr>mop_first_mkt_order := v\<rparr>)"

definition mb_side_head :: "MarketOrderBook \<Rightarrow> Side \<Rightarrow> pointer" where
  "mb_side_head b side = (if side = BUY then mb_bids_by_price b else mb_asks_by_price b)"

definition mb_set_side_head :: "MarketOrderBook \<Rightarrow> Side \<Rightarrow> pointer \<Rightarrow> MarketOrderBook" where
  "mb_set_side_head b side p =
     (if side = BUY then b\<lparr>mb_bids_by_price := p\<rparr> else b\<lparr>mb_asks_by_price := p\<rparr>)"

section \<open>Price levels\<close>

definition mb_priceToIndex :: "Price \<Rightarrow> nat" where
  "mb_priceToIndex price = nat (price mod 2 ^ 64) mod ME_MAX_PRICE_LEVELS"

definition mb_getOrdersAtPrice :: "MarketOrderBook \<Rightarrow> Price \<Rightarrow> pointer result" where
  "mb_getOrdersAtPrice b price =
     array_at ME_MAX_PRICE_LEVELS (mb_price_orders_at_price b) (mb_priceToIndex price)"

definition mb_goes_after :: "MarketOrdersAtPrice \<Rightarrow> MarketOrdersAtPrice \<Rightarrow> bool" where
  "mb_goes_after new target \<longleftrightarrow>
     (mop_side new = SELL \<and> mop_price new > mop_price target) \<or>
     (mop_side new = BUY \<and> mop_price new < mop_price target)"

definition mb_beats :: "MarketOrdersAtPrice \<Rightarrow> MarketOrdersAtPrice \<Rightarrow> bool" where
  "mb_beats new best \<longleftrightarrow>
     (mop_side new = BUY \<and> mop_price new > mop_price best) \<or>
     (mop_side new = SELL \<and> mop_price new < mop_price best)"

fun mb_addOrdersAtPrice_loop ::
    "nat \<Rightarrow> MarketOrdersAtPrice MemPool \<Rightarrow> nat \<Rightarrow> nat \<Rightarrow> nat \<Rightarrow> bool \<Rightarrow> (nat \<times> bool) result" where
  "mb_addOrdersAtPrice_loop fuel lp new best target add_after =
     (if add_after \<and> target \<noteq> best then
        if fuel = 0 then Inl Diverges
        else if mb_goes_after (mp_obj lp new) (mp_obj lp target) then
          andThen (not_null (mop_next_entry (mp_obj lp target))) (\<lambda>target'.
            mb_addOrdersAtPrice_loop (fuel - 1) lp new best target' True)
        else mb_addOrdersAtPrice_loop (fuel - 1) lp new best target False
      else Inr (target, add_after))"

declare mb_addOrdersAtPrice_loop.simps [simp del]

definition mb_addOrdersAtPrice_target ::
    "MarketOrdersAtPrice MemPool \<Rightarrow> nat \<Rightarrow> nat \<Rightarrow> (nat \<times> bool) result" where
  "mb_addOrdersAtPrice_target lp new best =
     (if mb_goes_after (mp_obj lp new) (mp_obj lp best) then
        andThen (not_null (mop_next_entry (mp_obj lp best))) (\<lambda>target.
          mb_addOrdersAtPrice_loop (mp_size lp) lp new best target
            (mb_goes_after (mp_obj lp new) (mp_obj lp target)))
      else mb_addOrdersAtPrice_loop (mp_size lp) lp new best best False)"

definition mb_addOrdersAtPrice_after :: "MarketOrderBook \<Rightarrow> nat \<Rightarrow> nat \<Rightarrow> nat \<Rightarrow> MarketOrderBook result" where
  "mb_addOrdersAtPrice_after b new best target0 =
     (let lp = mb_orders_at_price_pool b in
      andThen (if target0 = best then not_null (mop_prev_entry (mp_obj lp best)) else Inr target0)
        (\<lambda>target.
      let lp1 = mop_set_prev lp new (Some target) in
      andThen (not_null (mop_next_entry (mp_obj lp1 target))) (\<lambda>target_next.
      let lp2 = mop_set_prev lp1 target_next (Some new);
          lp3 = mop_set_next lp2 new (mop_next_entry (mp_obj lp2 target));
          lp4 = mop_set_next lp3 target (Some new) in
      Inr (b\<lparr>mb_orders_at_price_pool := lp4\<rparr>))))"

definition mb_addOrdersAtPrice_before :: "MarketOrderBook \<Rightarrow> nat \<Rightarrow> nat \<Rightarrow> nat \<Rightarrow> MarketOrderBook result" where
  "mb_addOrdersAtPrice_before b new best target =
     (let lp = mb_orders_at_price_pool b;
          lp1 = mop_set_prev lp new (mop_prev_entry (mp_obj lp target));
          lp2 = mop_set_next lp1 new (Some target) in
      andThen (not_null (mop_prev_entry (mp_obj lp2 target))) (\<lambda>target_prev.
      let lp3 = mop_set_next lp2 target_prev (Some new);
          lp4 = mop_set_prev lp3 target (Some new) in
      if mb_beats (mp_obj lp4 new) (mp_obj lp4 best) then
        let lp5 = mop_set_next lp4 target
              (if mop_next_entry (mp_obj lp4 target) = Some best then Some new
               else mop_next_entry (mp_obj lp4 target)) in
        Inr (mb_set_side_head (b\<lparr>mb_orders_at_price_pool := lp5\<rparr>) (mop_side (mp_obj lp4 new)) (Some new))
      else Inr (b\<lparr>mb_orders_at_price_pool := lp4\<rparr>)))"

definition mb_addOrdersAtPrice :: "MarketOrderBook \<Rightarrow> nat \<Rightarrow> MarketOrderBook result" where
  "mb_addOrdersAtPrice b new =
     (let lp = mb_orders_at_price_pool b; level = mp_obj lp new in
      andThen (array_set_at ME_MAX_PRICE_LEVELS (mb_price_orders_at_price b)
                 (mb_priceToIndex (mop_price level)) (Some new)) (\<lambda>table.
      let b1 = b\<lparr>mb_price_orders_at_price := table\<rparr> in
      case mb_side_head b1 (mop_side level) of
        None \<Rightarrow>
          let b2 = mb_set_side_head b1 (mop_side level) (Some new) in
          Inr (b2\<lparr>mb_orders_at_price_pool :=
                 mop_set_prev (mop_set_next lp new (Some new)) new (Some new)\<rparr>)
      | Some best \<Rightarrow>
          andThen (mb_addOrdersAtPrice_target lp new best) (\<lambda>(target, add_after).
          if add_after then mb_addOrdersAtPrice_after b1 new best target
          else mb_addOrdersAtPrice_before b1 new best target)))"

definition mb_removeOrdersAtPrice_unlink :: "MarketOrderBook \<Rightarrow> Side \<Rightarrow> nat \<Rightarrow> MarketOrderBook result" where
  "mb_removeOrdersAtPrice_unlink b side l =
     (let lp = mb_orders_at_price_pool b in
      andThen (not_null (mop_prev_entry (mp_obj lp l))) (\<lambda>entry_before.
      let lp1 = mop_set_next lp entry_before (mop_next_entry (mp_obj lp l)) in
      andThen (not_null (mop_next_entry (mp_obj lp1 l))) (\<lambda>entry_after.
      let lp2 = mop_set_prev lp1 entry_after (mop_prev_entry (mp_obj lp1 l));
          b1 = (if mb_side_head b side = Some l
                then mb_set_side_head b side (mop_next_entry (mp_obj lp2 l)) else b);
          lp3 = mop_set_prev (mop_set_next lp2 l None) l None in
      Inr (b1\<lparr>mb_orders_at_price_pool := lp3\<rparr>))))"

definition mb_removeOrdersAtPrice :: "MarketOrderBook \<Rightarrow> Side \<Rightarrow> Price \<Rightarrow> MarketOrderBook result" where
  "mb_removeOrdersAtPrice b side price =
     andThen (mb_getOrdersAtPrice b price) (\<lambda>orders_at_price.
     andThen (not_null orders_at_price) (\<lambda>l.
     andThen (if mop_next_entry (mp_obj (mb_orders_at_price_pool b) l) = Some l
              then Inr (mb_set_side_head b side None)
              else mb_removeOrdersAtPrice_unlink b side l) (\<lambda>b1.
     andThen (array_set_at ME_MAX_PRICE_LEVELS (mb_price_orders_at_price b1)
                (mb_priceToIndex price) None) (\<lambda>table.
     andThen (deallocate (mb_orders_at_price_pool b1) l) (\<lambda>lp.
     Inr (b1\<lparr>mb_price_orders_at_price := table, mb_orders_at_price_pool := lp\<rparr>))))))"

section \<open>Orders\<close>

text \<open>\<^verbatim>\<open>oid_to_order_.at(order_id) = p\<close>.\<close>

definition mb_set_oid :: "MarketOrderBook \<Rightarrow> OrderId \<Rightarrow> pointer \<Rightarrow> MarketOrderBook result" where
  "mb_set_oid b order_id p =
     andThen (array_set_at ME_MAX_ORDER_IDS (mb_oid_to_order b) (unat order_id) p) (\<lambda>table.
     Inr (b\<lparr>mb_oid_to_order := table\<rparr>))"

definition mb_removeOrder_unlink :: "MarketOrderBook \<Rightarrow> pointer \<Rightarrow> nat \<Rightarrow> MarketOrderBook result" where
  "mb_removeOrder_unlink b orders_at_price order =
     (let op = mb_order_pool b in
      andThen (not_null (mo_prev_order (mp_obj op order))) (\<lambda>order_before.
      andThen (not_null (mo_next_order (mp_obj op order))) (\<lambda>order_after.
      let op1 = mo_set_next op order_before (Some order_after);
          op2 = mo_set_prev op1 order_after (Some order_before) in
      andThen (not_null orders_at_price) (\<lambda>l.
      let lp = mb_orders_at_price_pool b;
          lp1 = (if mop_first_mkt_order (mp_obj lp l) = Some order
                 then mop_set_first lp l (Some order_after) else lp);
          op3 = mo_set_prev (mo_set_next op2 order None) order None in
      Inr (b\<lparr>mb_order_pool := op3, mb_orders_at_price_pool := lp1\<rparr>)))))"

definition mb_removeOrder :: "MarketOrderBook \<Rightarrow> nat \<Rightarrow> MarketOrderBook result" where
  "mb_removeOrder b order =
     (let ord = mp_obj (mb_order_pool b) order in
      andThen (mb_getOrdersAtPrice b (mo_price ord)) (\<lambda>orders_at_price.
      andThen (if mo_prev_order ord = Some order
               then mb_removeOrdersAtPrice b (mo_side ord) (mo_price ord)
               else mb_removeOrder_unlink b orders_at_price order) (\<lambda>b1.
      andThen (mb_set_oid b1 (mo_order_id ord) None) (\<lambda>b2.
      andThen (deallocate (mb_order_pool b2) order) (\<lambda>op.
      Inr (b2\<lparr>mb_order_pool := op\<rparr>))))))"

definition mb_addOrder_link :: "MarketOrderBook \<Rightarrow> nat \<Rightarrow> nat \<Rightarrow> MarketOrderBook result" where
  "mb_addOrder_link b l order =
     andThen (not_null (mop_first_mkt_order (mp_obj (mb_orders_at_price_pool b) l))) (\<lambda>first_order.
     let op = mb_order_pool b in
     andThen (not_null (mo_prev_order (mp_obj op first_order))) (\<lambda>last_order.
     let op1 = mo_set_next op last_order (Some order);
         op2 = mo_set_prev op1 order (mo_prev_order (mp_obj op1 first_order));
         op3 = mo_set_next op2 order (Some first_order);
         op4 = mo_set_prev op3 first_order (Some order) in
     Inr (b\<lparr>mb_order_pool := op4\<rparr>)))"

definition mb_addOrder :: "MarketOrderBook \<Rightarrow> nat \<Rightarrow> MarketOrderBook result" where
  "mb_addOrder b order =
     (let ord = mp_obj (mb_order_pool b) order in
      andThen (mb_getOrdersAtPrice b (mo_price ord)) (\<lambda>orders_at_price.
      andThen (case orders_at_price of
          None \<Rightarrow>
            let op = mo_set_prev (mo_set_next (mb_order_pool b) order (Some order)) order (Some order) in
            andThen (allocate (mb_orders_at_price_pool b)
                \<lparr>mop_side = mo_side ord, mop_price = mo_price ord, mop_first_mkt_order = Some order,
                 mop_prev_entry = None, mop_next_entry = None\<rparr>) (\<lambda>(new_orders_at_price, lp).
            mb_addOrdersAtPrice (b\<lparr>mb_order_pool := op, mb_orders_at_price_pool := lp\<rparr>) new_orders_at_price)
        | Some l \<Rightarrow> mb_addOrder_link b l order) (\<lambda>b1.
      mb_set_oid b1 (mo_order_id ord) (Some order))))"

section \<open>The best bid and offer\<close>

text \<open>The loop that adds up the quantities of a level, from the order after the first one on.\<close>

fun mb_level_qty :: "nat \<Rightarrow> MarketOrder MemPool \<Rightarrow> nat \<Rightarrow> pointer \<Rightarrow> Qty \<Rightarrow> Qty result" where
  "mb_level_qty fuel op first order qty =
     (if order = Some first then Inr qty
      else if fuel = 0 then Inl Diverges
      else andThen (not_null order) (\<lambda>p.
        mb_level_qty (fuel - 1) op first (mo_next_order (mp_obj op p)) (qty + mo_qty (mp_obj op p))))"

declare mb_level_qty.simps [simp del]

definition mb_best :: "MarketOrderBook \<Rightarrow> pointer \<Rightarrow> (Price \<times> Qty) result" where
  "mb_best b head =
     (case head of
        None \<Rightarrow> Inr (Price_INVALID, Qty_INVALID)
      | Some l \<Rightarrow>
          let level = mp_obj (mb_orders_at_price_pool b) l; op = mb_order_pool b in
          andThen (not_null (mop_first_mkt_order level)) (\<lambda>first.
          andThen (mb_level_qty (mp_size op) op first (mo_next_order (mp_obj op first)) (mo_qty (mp_obj op first))) (\<lambda>qty.
          Inr (mop_price level, qty))))"

definition mb_updateBBO :: "MarketOrderBook \<Rightarrow> bool \<Rightarrow> bool \<Rightarrow> MarketOrderBook result" where
  "mb_updateBBO b update_bid update_ask =
     andThen (if update_bid
              then andThen (mb_best b (mb_bids_by_price b)) (\<lambda>(price, qty).
                Inr (b\<lparr>mb_bbo := (mb_bbo b)\<lparr>bid_price := price, bid_qty := qty\<rparr>\<rparr>))
              else Inr b) (\<lambda>b1.
     if update_ask
     then andThen (mb_best b1 (mb_asks_by_price b1)) (\<lambda>(price, qty).
       Inr (b1\<lparr>mb_bbo := (mb_bbo b1)\<lparr>ask_price := price, ask_qty := qty\<rparr>\<rparr>))
     else Inr b1)"

definition getBBO :: "MarketOrderBook \<Rightarrow> BBO" where
  "getBBO b = mb_bbo b"

section \<open>Market updates\<close>

text \<open>
  The loops of the CLEAR branch: over the table of orders, and over the levels of a side. Freeing a
  block leaves its object as it was, and the second loop reads the link of a level after it has been
  freed.
\<close>

fun mb_clear_orders :: "MarketOrder MemPool \<Rightarrow> pointer list \<Rightarrow> MarketOrder MemPool result" where
  "mb_clear_orders op [] = Inr op"
| "mb_clear_orders op (order # orders) =
     andThen (case order of None \<Rightarrow> Inr op | Some p \<Rightarrow> deallocate op p) (\<lambda>op1. mb_clear_orders op1 orders)"

fun mb_clear_levels :: "nat \<Rightarrow> MarketOrdersAtPrice MemPool \<Rightarrow> nat \<Rightarrow> pointer \<Rightarrow> MarketOrdersAtPrice MemPool result" where
  "mb_clear_levels fuel lp head entry =
     (if entry = Some head then deallocate lp head
      else if fuel = 0 then Inl Diverges
      else andThen (not_null entry) (\<lambda>l.
        andThen (deallocate lp l) (\<lambda>lp1.
        mb_clear_levels (fuel - 1) lp1 head (mop_next_entry (mp_obj lp1 l)))))"

declare mb_clear_levels.simps [simp del]

definition mb_clear_side :: "MarketOrdersAtPrice MemPool \<Rightarrow> pointer \<Rightarrow> MarketOrdersAtPrice MemPool result" where
  "mb_clear_side lp head =
     (case head of
        None \<Rightarrow> Inr lp
      | Some l \<Rightarrow> mb_clear_levels (mp_size lp) lp l (mop_next_entry (mp_obj lp l)))"

definition mb_clear :: "MarketOrderBook \<Rightarrow> MarketOrderBook result" where
  "mb_clear b =
     andThen (mb_clear_orders (mb_order_pool b) (map (mb_oid_to_order b) [0..<ME_MAX_ORDER_IDS])) (\<lambda>op.
     andThen (mb_clear_side (mb_orders_at_price_pool b) (mb_bids_by_price b)) (\<lambda>lp1.
     andThen (mb_clear_side lp1 (mb_asks_by_price b)) (\<lambda>lp2.
     Inr (b\<lparr>mb_order_pool := op, mb_oid_to_order := (\<lambda>_. None), mb_orders_at_price_pool := lp2,
            mb_bids_by_price := None, mb_asks_by_price := None\<rparr>))))"

text \<open>The switch of \<^verbatim>\<open>onMarketUpdate\<close>, without the branch of a trade.\<close>

definition mb_apply :: "MarketOrderBook \<Rightarrow> MEMarketUpdate \<Rightarrow> MarketOrderBook result" where
  "mb_apply b market_update =
     (case mu_type market_update of
        ADD \<Rightarrow>
          andThen (allocate (mb_order_pool b)
            \<lparr>mo_order_id = mu_order_id market_update, mo_side = mu_side market_update,
             mo_price = mu_price market_update, mo_qty = mu_qty market_update,
             mo_priority = mu_priority market_update, mo_prev_order = None, mo_next_order = None\<rparr>) (\<lambda>(order, op).
          mb_addOrder (b\<lparr>mb_order_pool := op\<rparr>) order)
      | MODIFY \<Rightarrow>
          andThen (array_at ME_MAX_ORDER_IDS (mb_oid_to_order b) (unat (mu_order_id market_update))) (\<lambda>order.
          andThen (not_null order) (\<lambda>p.
          Inr (b\<lparr>mb_order_pool := mp_upd (mb_order_pool b) p (\<lambda>n. n\<lparr>mo_qty := mu_qty market_update\<rparr>)\<rparr>)))
      | CANCEL \<Rightarrow>
          andThen (array_at ME_MAX_ORDER_IDS (mb_oid_to_order b) (unat (mu_order_id market_update))) (\<lambda>order.
          andThen (not_null order) (\<lambda>p. mb_removeOrder b p))
      | CLEAR \<Rightarrow> mb_clear b
      | _ \<Rightarrow> Inr b)"

definition bid_updated :: "MarketOrderBook \<Rightarrow> MEMarketUpdate \<Rightarrow> bool" where
  "bid_updated b market_update \<longleftrightarrow>
     (case mb_bids_by_price b of
        None \<Rightarrow> False
      | Some l \<Rightarrow> mu_side market_update = BUY \<and> mu_price market_update \<ge> mop_price (mp_obj (mb_orders_at_price_pool b) l))"

definition ask_updated :: "MarketOrderBook \<Rightarrow> MEMarketUpdate \<Rightarrow> bool" where
  "ask_updated b market_update \<longleftrightarrow>
     (case mb_asks_by_price b of
        None \<Rightarrow> False
      | Some l \<Rightarrow> mu_side market_update = SELL \<and> mu_price market_update \<le> mop_price (mp_obj (mb_orders_at_price_pool b) l))"

record 's book_listener =
  onTradeUpdate :: "MEMarketUpdate \<Rightarrow> MarketOrderBook \<Rightarrow> 's \<Rightarrow> 's result"
  onOrderBookUpdate :: "TickerId \<Rightarrow> Price \<Rightarrow> Side \<Rightarrow> MarketOrderBook \<Rightarrow> 's \<Rightarrow> 's result"

definition onMarketUpdate ::
    "'s book_listener \<Rightarrow> MEMarketUpdate \<Rightarrow> MarketOrderBook \<times> 's \<Rightarrow> (MarketOrderBook \<times> 's) result" where
  "onMarketUpdate te market_update = (\<lambda>(b, s).
     let update_bid = bid_updated b market_update; update_ask = ask_updated b market_update in
     if mu_type market_update = TRADE then
       andThen (onTradeUpdate te market_update b s) (\<lambda>s1. Inr (b, s1))
     else
       andThen (mb_apply b market_update) (\<lambda>b1.
       andThen (mb_updateBBO b1 update_bid update_ask) (\<lambda>b2.
       andThen (onOrderBookUpdate te (mu_ticker_id market_update) (mu_price market_update) (mu_side market_update) b2 s) (\<lambda>s1.
       Inr (b2, s1)))))"

end
