(* ===== verification/ME_Order_Book.thy ===== *)
theory ME_Order_Book
  imports Messages Mem_Pool
begin

text \<open>
  The limit order book of the matching engine: \<^verbatim>\<open>src/exchange/matcher/me_order.h\<close>,
  \<^verbatim>\<open>me_order_book.h\<close> and \<^verbatim>\<open>me_order_book.cpp\<close>. Orders and price levels are the
  objects of two memory pools and point to each other by pool index; an order is a node of the
  circular list of its level, a level a node of the circular list of its side. The members
  \<^verbatim>\<open>client_response_\<close> and \<^verbatim>\<open>market_update_\<close> only stage the message about to be sent
  and are local values here. The two queues of the matching engine that the book writes to are
  the state \<open>MEQueues\<close> threaded through the operations.
\<close>

section \<open>Orders, price levels and the book\<close>

record MEOrder =
  me_ticker_id :: TickerId
  me_client_id :: ClientId
  me_client_order_id :: OrderId
  me_market_order_id :: OrderId
  me_side :: Side
  me_price :: Price
  me_qty :: Qty
  me_priority :: Priority
  me_prev_order :: pointer
  me_next_order :: pointer

definition MEOrder_default :: MEOrder where
  "MEOrder_default =
     \<lparr>me_ticker_id = TickerId_INVALID, me_client_id = ClientId_INVALID,
      me_client_order_id = OrderId_INVALID, me_market_order_id = OrderId_INVALID,
      me_side = Side_INVALID, me_price = Price_INVALID, me_qty = Qty_INVALID,
      me_priority = Priority_INVALID, me_prev_order = None, me_next_order = None\<rparr>"

record MEOrdersAtPrice =
  oap_side :: Side
  oap_price :: Price
  oap_first_me_order :: pointer
  oap_prev_entry :: pointer
  oap_next_entry :: pointer

definition MEOrdersAtPrice_default :: MEOrdersAtPrice where
  "MEOrdersAtPrice_default =
     \<lparr>oap_side = Side_INVALID, oap_price = Price_INVALID, oap_first_me_order = None,
      oap_prev_entry = None, oap_next_entry = None\<rparr>"

record MEOrderBook =
  ob_ticker_id :: TickerId
  ob_cid_oid_to_order :: "nat \<Rightarrow> nat \<Rightarrow> pointer"
  ob_orders_at_price_pool :: "MEOrdersAtPrice MemPool"
  ob_bids_by_price :: pointer
  ob_asks_by_price :: pointer
  ob_price_orders_at_price :: "nat \<Rightarrow> pointer"
  ob_order_pool :: "MEOrder MemPool"
  ob_next_market_order_id :: OrderId

text \<open>
  The constructor leaves the two tables of pointers as the memory it is given: neither has an
  initialiser in the class nor in the constructor. Their contents are parameters.
\<close>

definition MEOrderBook_new ::
    "TickerId \<Rightarrow> (nat \<Rightarrow> nat \<Rightarrow> pointer) \<Rightarrow> (nat \<Rightarrow> pointer) \<Rightarrow> MEOrderBook" where
  "MEOrderBook_new ticker_id cid_oid_mem price_mem =
     \<lparr>ob_ticker_id = ticker_id, ob_cid_oid_to_order = cid_oid_mem,
      ob_orders_at_price_pool = MemPool_new ME_MAX_PRICE_LEVELS MEOrdersAtPrice_default,
      ob_bids_by_price = None, ob_asks_by_price = None, ob_price_orders_at_price = price_mem,
      ob_order_pool = MemPool_new ME_MAX_ORDER_IDS MEOrder_default,
      ob_next_market_order_id = 1\<rparr>"

text \<open>The outgoing queues of the matching engine, and the two functions that write to them.\<close>

record MEQueues =
  mq_ogw_responses :: ClientResponseLFQueue
  mq_md_updates :: MEMarketUpdateLFQueue

definition sendClientResponse :: "MEQueues \<Rightarrow> MEClientResponse \<Rightarrow> MEQueues" where
  "sendClientResponse mq client_response =
     mq\<lparr>mq_ogw_responses := q_push (mq_ogw_responses mq) client_response\<rparr>"

definition sendMarketUpdate :: "MEQueues \<Rightarrow> MEMarketUpdate \<Rightarrow> MEQueues" where
  "sendMarketUpdate mq market_update =
     mq\<lparr>mq_md_updates := q_push (mq_md_updates mq) market_update\<rparr>"

text \<open>Assignments to single members of an order or a level behind a pointer.\<close>

definition me_set_next :: "MEOrder MemPool \<Rightarrow> nat \<Rightarrow> pointer \<Rightarrow> MEOrder MemPool" where
  "me_set_next op p v = mp_upd op p (\<lambda>n. n\<lparr>me_next_order := v\<rparr>)"

definition me_set_prev :: "MEOrder MemPool \<Rightarrow> nat \<Rightarrow> pointer \<Rightarrow> MEOrder MemPool" where
  "me_set_prev op p v = mp_upd op p (\<lambda>n. n\<lparr>me_prev_order := v\<rparr>)"

definition oap_set_next :: "MEOrdersAtPrice MemPool \<Rightarrow> nat \<Rightarrow> pointer \<Rightarrow> MEOrdersAtPrice MemPool" where
  "oap_set_next lp p v = mp_upd lp p (\<lambda>n. n\<lparr>oap_next_entry := v\<rparr>)"

definition oap_set_prev :: "MEOrdersAtPrice MemPool \<Rightarrow> nat \<Rightarrow> pointer \<Rightarrow> MEOrdersAtPrice MemPool" where
  "oap_set_prev lp p v = mp_upd lp p (\<lambda>n. n\<lparr>oap_prev_entry := v\<rparr>)"

definition oap_set_first :: "MEOrdersAtPrice MemPool \<Rightarrow> nat \<Rightarrow> pointer \<Rightarrow> MEOrdersAtPrice MemPool" where
  "oap_set_first lp p v = mp_upd lp p (\<lambda>n. n\<lparr>oap_first_me_order := v\<rparr>)"

text \<open>\<^verbatim>\<open>(side == Side::BUY ? bids_by_price_ : asks_by_price_)\<close>, read and assigned.\<close>

definition side_head :: "MEOrderBook \<Rightarrow> Side \<Rightarrow> pointer" where
  "side_head bk side = (if side = BUY then ob_bids_by_price bk else ob_asks_by_price bk)"

definition set_side_head :: "MEOrderBook \<Rightarrow> Side \<Rightarrow> pointer \<Rightarrow> MEOrderBook" where
  "set_side_head bk side p =
     (if side = BUY then bk\<lparr>ob_bids_by_price := p\<rparr> else bk\<lparr>ob_asks_by_price := p\<rparr>)"

section \<open>Price levels\<close>

definition generateNewMarketOrderId :: "MEOrderBook \<Rightarrow> OrderId \<times> MEOrderBook" where
  "generateNewMarketOrderId bk =
     (ob_next_market_order_id bk, bk\<lparr>ob_next_market_order_id := ob_next_market_order_id bk + 1\<rparr>)"

text \<open>
  \<^verbatim>\<open>price % ME_MAX_PRICE_LEVELS\<close>: the signed price is converted to the unsigned type of
  the constant first.
\<close>

definition priceToIndex :: "Price \<Rightarrow> nat" where
  "priceToIndex price = nat (price mod 2 ^ 64) mod ME_MAX_PRICE_LEVELS"

definition getOrdersAtPrice :: "MEOrderBook \<Rightarrow> Price \<Rightarrow> pointer result" where
  "getOrdersAtPrice bk price =
     array_at ME_MAX_PRICE_LEVELS (ob_price_orders_at_price bk) (priceToIndex price)"

text \<open>
  The condition that \<^verbatim>\<open>addOrdersAtPrice\<close> computes at four places: the new level is less
  aggressive than the target; and its mirror image, more aggressive than the best level.
\<close>

definition goes_after :: "MEOrdersAtPrice \<Rightarrow> MEOrdersAtPrice \<Rightarrow> bool" where
  "goes_after new target \<longleftrightarrow>
     (oap_side new = SELL \<and> oap_price new > oap_price target) \<or>
     (oap_side new = BUY \<and> oap_price new < oap_price target)"

definition beats :: "MEOrdersAtPrice \<Rightarrow> MEOrdersAtPrice \<Rightarrow> bool" where
  "beats new best \<longleftrightarrow>
     (oap_side new = BUY \<and> oap_price new > oap_price best) \<or>
     (oap_side new = SELL \<and> oap_price new < oap_price best)"

text \<open>The \<^verbatim>\<open>while\<close> loop over the levels, with fuel.\<close>

fun addOrdersAtPrice_loop ::
    "nat \<Rightarrow> MEOrdersAtPrice MemPool \<Rightarrow> nat \<Rightarrow> nat \<Rightarrow> nat \<Rightarrow> bool \<Rightarrow> (nat \<times> bool) result" where
  "addOrdersAtPrice_loop fuel lp new best target add_after =
     (if add_after \<and> target \<noteq> best then
        if fuel = 0 then Inl Diverges
        else if goes_after (mp_obj lp new) (mp_obj lp target) then
          andThen (not_null (oap_next_entry (mp_obj lp target))) (\<lambda>target'.
            addOrdersAtPrice_loop (fuel - 1) lp new best target' True)
        else addOrdersAtPrice_loop (fuel - 1) lp new best target False
      else Inr (target, add_after))"

declare addOrdersAtPrice_loop.simps [simp del]

text \<open>Where the new level goes: the statements from \<^verbatim>\<open>auto target\<close> to the end of the loop.\<close>

definition addOrdersAtPrice_target ::
    "MEOrdersAtPrice MemPool \<Rightarrow> nat \<Rightarrow> nat \<Rightarrow> (nat \<times> bool) result" where
  "addOrdersAtPrice_target lp new best =
     (if goes_after (mp_obj lp new) (mp_obj lp best) then
        andThen (not_null (oap_next_entry (mp_obj lp best))) (\<lambda>target.
          addOrdersAtPrice_loop (mp_size lp) lp new best target
            (goes_after (mp_obj lp new) (mp_obj lp target)))
      else addOrdersAtPrice_loop (mp_size lp) lp new best best False)"

text \<open>The two branches that link the new level in.\<close>

definition addOrdersAtPrice_after :: "MEOrderBook \<Rightarrow> nat \<Rightarrow> nat \<Rightarrow> nat \<Rightarrow> MEOrderBook result" where
  "addOrdersAtPrice_after bk new best target0 =
     (let lp = ob_orders_at_price_pool bk in
      andThen (if target0 = best then not_null (oap_prev_entry (mp_obj lp best)) else Inr target0)
        (\<lambda>target.
      let lp1 = oap_set_prev lp new (Some target) in
      andThen (not_null (oap_next_entry (mp_obj lp1 target))) (\<lambda>target_next.
      let lp2 = oap_set_prev lp1 target_next (Some new);
          lp3 = oap_set_next lp2 new (oap_next_entry (mp_obj lp2 target));
          lp4 = oap_set_next lp3 target (Some new) in
      Inr (bk\<lparr>ob_orders_at_price_pool := lp4\<rparr>))))"

definition addOrdersAtPrice_before :: "MEOrderBook \<Rightarrow> nat \<Rightarrow> nat \<Rightarrow> nat \<Rightarrow> MEOrderBook result" where
  "addOrdersAtPrice_before bk new best target =
     (let lp = ob_orders_at_price_pool bk;
          lp1 = oap_set_prev lp new (oap_prev_entry (mp_obj lp target));
          lp2 = oap_set_next lp1 new (Some target) in
      andThen (not_null (oap_prev_entry (mp_obj lp2 target))) (\<lambda>target_prev.
      let lp3 = oap_set_next lp2 target_prev (Some new);
          lp4 = oap_set_prev lp3 target (Some new) in
      if beats (mp_obj lp4 new) (mp_obj lp4 best) then
        let lp5 = oap_set_next lp4 target
              (if oap_next_entry (mp_obj lp4 target) = Some best then Some new
               else oap_next_entry (mp_obj lp4 target)) in
        Inr (set_side_head (bk\<lparr>ob_orders_at_price_pool := lp5\<rparr>) (oap_side (mp_obj lp4 new))
               (Some new))
      else Inr (bk\<lparr>ob_orders_at_price_pool := lp4\<rparr>)))"

definition addOrdersAtPrice :: "MEOrderBook \<Rightarrow> nat \<Rightarrow> MEOrderBook result" where
  "addOrdersAtPrice bk new =
     (let lp = ob_orders_at_price_pool bk; level = mp_obj lp new in
      andThen (array_set_at ME_MAX_PRICE_LEVELS (ob_price_orders_at_price bk)
                 (priceToIndex (oap_price level)) (Some new)) (\<lambda>table.
      let bk1 = bk\<lparr>ob_price_orders_at_price := table\<rparr> in
      case side_head bk1 (oap_side level) of
        None \<Rightarrow>
          let bk2 = set_side_head bk1 (oap_side level) (Some new) in
          Inr (bk2\<lparr>ob_orders_at_price_pool :=
                 oap_set_prev (oap_set_next lp new (Some new)) new (Some new)\<rparr>)
      | Some best \<Rightarrow>
          andThen (addOrdersAtPrice_target lp new best) (\<lambda>(target, add_after).
          if add_after then addOrdersAtPrice_after bk1 new best target
          else addOrdersAtPrice_before bk1 new best target)))"

text \<open>Unlinking a level from its side: the \<^verbatim>\<open>else\<close> branch of \<^verbatim>\<open>removeOrdersAtPrice\<close>.\<close>

definition removeOrdersAtPrice_unlink :: "MEOrderBook \<Rightarrow> Side \<Rightarrow> nat \<Rightarrow> MEOrderBook result" where
  "removeOrdersAtPrice_unlink bk side l =
     (let lp = ob_orders_at_price_pool bk in
      andThen (not_null (oap_prev_entry (mp_obj lp l))) (\<lambda>entry_before.
      let lp1 = oap_set_next lp entry_before (oap_next_entry (mp_obj lp l)) in
      andThen (not_null (oap_next_entry (mp_obj lp1 l))) (\<lambda>entry_after.
      let lp2 = oap_set_prev lp1 entry_after (oap_prev_entry (mp_obj lp1 l));
          bk1 = (if side_head bk side = Some l
                 then set_side_head bk side (oap_next_entry (mp_obj lp2 l)) else bk);
          lp3 = oap_set_prev (oap_set_next lp2 l None) l None in
      Inr (bk1\<lparr>ob_orders_at_price_pool := lp3\<rparr>))))"

definition removeOrdersAtPrice :: "MEOrderBook \<Rightarrow> Side \<Rightarrow> Price \<Rightarrow> MEOrderBook result" where
  "removeOrdersAtPrice bk side price =
     andThen (getOrdersAtPrice bk price) (\<lambda>orders_at_price.
     andThen (not_null orders_at_price) (\<lambda>l.
     andThen (if oap_next_entry (mp_obj (ob_orders_at_price_pool bk) l) = Some l
              then Inr (set_side_head bk side None)
              else removeOrdersAtPrice_unlink bk side l) (\<lambda>bk1.
     andThen (array_set_at ME_MAX_PRICE_LEVELS (ob_price_orders_at_price bk1)
                (priceToIndex price) None) (\<lambda>table.
     andThen (deallocate (ob_orders_at_price_pool bk1) l) (\<lambda>lp.
     Inr (bk1\<lparr>ob_price_orders_at_price := table, ob_orders_at_price_pool := lp\<rparr>))))))"

definition getNextPriority :: "MEOrderBook \<Rightarrow> Price \<Rightarrow> Priority result" where
  "getNextPriority bk price =
     andThen (getOrdersAtPrice bk price) (\<lambda>orders_at_price.
     case orders_at_price of
       None \<Rightarrow> Inr 1
     | Some l \<Rightarrow>
         andThen (not_null (oap_first_me_order (mp_obj (ob_orders_at_price_pool bk) l))) (\<lambda>first.
         andThen (not_null (me_prev_order (mp_obj (ob_order_pool bk) first))) (\<lambda>last_order.
         Inr (me_priority (mp_obj (ob_order_pool bk) last_order) + 1))))"

section \<open>Orders\<close>

text \<open>\<^verbatim>\<open>cid_oid_to_order_.at(cid).at(oid) = p\<close>.\<close>

definition set_cid_oid :: "MEOrderBook \<Rightarrow> ClientId \<Rightarrow> OrderId \<Rightarrow> pointer \<Rightarrow> MEOrderBook result" where
  "set_cid_oid bk cid oid p =
     andThen (array_at ME_MAX_NUM_CLIENTS (ob_cid_oid_to_order bk) (unat cid)) (\<lambda>row.
     andThen (array_set_at ME_MAX_ORDER_IDS row (unat oid) p) (\<lambda>row'.
     Inr (bk\<lparr>ob_cid_oid_to_order := (ob_cid_oid_to_order bk)(unat cid := row')\<rparr>)))"

text \<open>Unlinking an order from a level with other orders.\<close>

definition removeOrder_unlink :: "MEOrderBook \<Rightarrow> pointer \<Rightarrow> nat \<Rightarrow> MEOrderBook result" where
  "removeOrder_unlink bk orders_at_price order =
     (let op = ob_order_pool bk in
      andThen (not_null (me_prev_order (mp_obj op order))) (\<lambda>order_before.
      andThen (not_null (me_next_order (mp_obj op order))) (\<lambda>order_after.
      let op1 = me_set_next op order_before (Some order_after);
          op2 = me_set_prev op1 order_after (Some order_before) in
      andThen (not_null orders_at_price) (\<lambda>l.
      let lp = ob_orders_at_price_pool bk;
          lp1 = (if oap_first_me_order (mp_obj lp l) = Some order
                 then oap_set_first lp l (Some order_after) else lp);
          op3 = me_set_prev (me_set_next op2 order None) order None in
      Inr (bk\<lparr>ob_order_pool := op3, ob_orders_at_price_pool := lp1\<rparr>)))))"

definition removeOrder :: "MEOrderBook \<Rightarrow> nat \<Rightarrow> MEOrderBook result" where
  "removeOrder bk order =
     (let ord = mp_obj (ob_order_pool bk) order in
      andThen (getOrdersAtPrice bk (me_price ord)) (\<lambda>orders_at_price.
      andThen (if me_prev_order ord = Some order
               then removeOrdersAtPrice bk (me_side ord) (me_price ord)
               else removeOrder_unlink bk orders_at_price order) (\<lambda>bk1.
      andThen (set_cid_oid bk1 (me_client_id ord) (me_client_order_id ord) None) (\<lambda>bk2.
      andThen (deallocate (ob_order_pool bk2) order) (\<lambda>op.
      Inr (bk2\<lparr>ob_order_pool := op\<rparr>))))))"

text \<open>Linking an order in at the end of a level that exists.\<close>

definition addOrder_link :: "MEOrderBook \<Rightarrow> nat \<Rightarrow> nat \<Rightarrow> MEOrderBook result" where
  "addOrder_link bk l order =
     andThen (not_null (oap_first_me_order (mp_obj (ob_orders_at_price_pool bk) l))) (\<lambda>first_order.
     let op = ob_order_pool bk in
     andThen (not_null (me_prev_order (mp_obj op first_order))) (\<lambda>last_order.
     let op1 = me_set_next op last_order (Some order);
         op2 = me_set_prev op1 order (me_prev_order (mp_obj op1 first_order));
         op3 = me_set_next op2 order (Some first_order);
         op4 = me_set_prev op3 first_order (Some order) in
     Inr (bk\<lparr>ob_order_pool := op4\<rparr>)))"

definition addOrder :: "MEOrderBook \<Rightarrow> nat \<Rightarrow> MEOrderBook result" where
  "addOrder bk order =
     (let ord = mp_obj (ob_order_pool bk) order in
      andThen (getOrdersAtPrice bk (me_price ord)) (\<lambda>orders_at_price.
      andThen (case orders_at_price of
          None \<Rightarrow>
            let op = me_set_prev (me_set_next (ob_order_pool bk) order (Some order)) order (Some order) in
            andThen (allocate (ob_orders_at_price_pool bk)
                \<lparr>oap_side = me_side ord, oap_price = me_price ord, oap_first_me_order = Some order,
                 oap_prev_entry = None, oap_next_entry = None\<rparr>) (\<lambda>(new_orders_at_price, lp).
            addOrdersAtPrice (bk\<lparr>ob_order_pool := op, ob_orders_at_price_pool := lp\<rparr>)
              new_orders_at_price)
        | Some l \<Rightarrow> addOrder_link bk l order) (\<lambda>bk1.
      set_cid_oid bk1 (me_client_id ord) (me_client_order_id ord) (Some order))))"

section \<open>Matching\<close>

definition match ::
    "MEOrderBook \<Rightarrow> MEQueues \<Rightarrow> TickerId \<Rightarrow> ClientId \<Rightarrow> Side \<Rightarrow> OrderId \<Rightarrow> OrderId \<Rightarrow> nat \<Rightarrow> Qty \<Rightarrow>
     (MEOrderBook \<times> MEQueues \<times> Qty) result" where
  "match bk mq ticker_id client_id side client_order_id new_market_order_id itr leaves_qty0 =
     (let order_qty = me_qty (mp_obj (ob_order_pool bk) itr);
          fill_qty = min leaves_qty0 order_qty;
          leaves_qty = leaves_qty0 - fill_qty;
          bk1 = bk\<lparr>ob_order_pool :=
                  mp_upd (ob_order_pool bk) itr (\<lambda>n. n\<lparr>me_qty := me_qty n - fill_qty\<rparr>)\<rparr>;
          order = mp_obj (ob_order_pool bk1) itr;
          mq1 = sendClientResponse mq
            \<lparr>cr_type = FILLED, cr_client_id = client_id, cr_ticker_id = ticker_id,
             cr_client_order_id = client_order_id, cr_market_order_id = new_market_order_id,
             cr_side = side, cr_price = me_price order, cr_exec_qty = fill_qty,
             cr_leaves_qty = leaves_qty\<rparr>;
          mq2 = sendClientResponse mq1
            \<lparr>cr_type = FILLED, cr_client_id = me_client_id order, cr_ticker_id = ticker_id,
             cr_client_order_id = me_client_order_id order,
             cr_market_order_id = me_market_order_id order, cr_side = me_side order,
             cr_price = me_price order, cr_exec_qty = fill_qty, cr_leaves_qty = me_qty order\<rparr>;
          mq3 = sendMarketUpdate mq2
            \<lparr>mu_type = TRADE, mu_order_id = OrderId_INVALID, mu_ticker_id = ticker_id,
             mu_side = side, mu_price = me_price order, mu_qty = fill_qty,
             mu_priority = Priority_INVALID\<rparr> in
      if me_qty order = 0 then
        let mq4 = sendMarketUpdate mq3
            \<lparr>mu_type = CANCEL, mu_order_id = me_market_order_id order, mu_ticker_id = ticker_id,
             mu_side = me_side order, mu_price = me_price order, mu_qty = order_qty,
             mu_priority = Priority_INVALID\<rparr> in
        andThen (removeOrder bk1 itr) (\<lambda>bk2. Inr (bk2, mq4, leaves_qty))
      else
        let mq4 = sendMarketUpdate mq3
            \<lparr>mu_type = MODIFY, mu_order_id = me_market_order_id order, mu_ticker_id = ticker_id,
             mu_side = me_side order, mu_price = me_price order, mu_qty = me_qty order,
             mu_priority = me_priority order\<rparr> in
        Inr (bk1, mq4, leaves_qty))"

text \<open>
  The two loops of \<^verbatim>\<open>checkForMatch\<close>, one per side: a buy order walks the asks until one is
  dearer than its price, a sell order walks the bids until one is cheaper.
\<close>

fun checkForMatch_loop ::
    "nat \<Rightarrow> MEOrderBook \<Rightarrow> MEQueues \<Rightarrow> ClientId \<Rightarrow> OrderId \<Rightarrow> TickerId \<Rightarrow> Side \<Rightarrow> Price \<Rightarrow> OrderId \<Rightarrow>
     Qty \<Rightarrow> (MEOrderBook \<times> MEQueues \<times> Qty) result" where
  "checkForMatch_loop fuel bk mq client_id client_order_id ticker_id side price
       new_market_order_id leaves_qty =
     (case (if side = BUY then ob_asks_by_price bk else ob_bids_by_price bk) of
        None \<Rightarrow> Inr (bk, mq, leaves_qty)
      | Some l \<Rightarrow>
          if leaves_qty = 0 then Inr (bk, mq, leaves_qty)
          else if fuel = 0 then Inl Diverges
          else
            andThen (not_null (oap_first_me_order (mp_obj (ob_orders_at_price_pool bk) l))) (\<lambda>itr.
            let itr_price = me_price (mp_obj (ob_order_pool bk) itr) in
            if (if side = BUY then price < itr_price else price > itr_price)
            then Inr (bk, mq, leaves_qty)
            else
              andThen (match bk mq ticker_id client_id side client_order_id new_market_order_id
                         itr leaves_qty) (\<lambda>(bk1, mq1, leaves_qty1).
              checkForMatch_loop (fuel - 1) bk1 mq1 client_id client_order_id ticker_id side price
                new_market_order_id leaves_qty1)))"

declare checkForMatch_loop.simps [simp del]

text \<open>The last parameter has the type of a quantity in the source, 32 bits wide.\<close>

definition checkForMatch ::
    "MEOrderBook \<Rightarrow> MEQueues \<Rightarrow> ClientId \<Rightarrow> OrderId \<Rightarrow> TickerId \<Rightarrow> Side \<Rightarrow> Price \<Rightarrow> Qty \<Rightarrow> Qty \<Rightarrow>
     (MEOrderBook \<times> MEQueues \<times> Qty) result" where
  "checkForMatch bk mq client_id client_order_id ticker_id side price qty new_market_order_id =
     (if side = BUY \<or> side = SELL then
        checkForMatch_loop (mp_size (ob_order_pool bk)) bk mq client_id client_order_id ticker_id
          side price (ucast new_market_order_id) qty
      else Inr (bk, mq, qty))"

definition add ::
    "MEOrderBook \<Rightarrow> MEQueues \<Rightarrow> ClientId \<Rightarrow> OrderId \<Rightarrow> TickerId \<Rightarrow> Side \<Rightarrow> Price \<Rightarrow> Qty \<Rightarrow>
     (MEOrderBook \<times> MEQueues) result" where
  "add bk mq client_id client_order_id ticker_id side price qty =
     (let (new_market_order_id, bk1) = generateNewMarketOrderId bk;
          mq1 = sendClientResponse mq
            \<lparr>cr_type = ACCEPTED, cr_client_id = client_id, cr_ticker_id = ticker_id,
             cr_client_order_id = client_order_id, cr_market_order_id = new_market_order_id,
             cr_side = side, cr_price = price, cr_exec_qty = 0, cr_leaves_qty = qty\<rparr> in
      andThen (checkForMatch bk1 mq1 client_id client_order_id ticker_id side price qty
                 (ucast new_market_order_id)) (\<lambda>(bk2, mq2, leaves_qty).
      if leaves_qty \<noteq> 0 then
        andThen (getNextPriority bk2 price) (\<lambda>priority.
        andThen (allocate (ob_order_pool bk2)
            \<lparr>me_ticker_id = ticker_id, me_client_id = client_id,
             me_client_order_id = client_order_id, me_market_order_id = new_market_order_id,
             me_side = side, me_price = price, me_qty = leaves_qty, me_priority = priority,
             me_prev_order = None, me_next_order = None\<rparr>) (\<lambda>(order, op).
        andThen (addOrder (bk2\<lparr>ob_order_pool := op\<rparr>) order) (\<lambda>bk3.
        Inr (bk3, sendMarketUpdate mq2
            \<lparr>mu_type = ADD, mu_order_id = new_market_order_id, mu_ticker_id = ticker_id,
             mu_side = side, mu_price = price, mu_qty = leaves_qty, mu_priority = priority\<rparr>))))
      else Inr (bk2, mq2)))"

section \<open>Cancelling\<close>

definition cancel ::
    "MEOrderBook \<Rightarrow> MEQueues \<Rightarrow> ClientId \<Rightarrow> OrderId \<Rightarrow> TickerId \<Rightarrow> (MEOrderBook \<times> MEQueues) result" where
  "cancel bk mq client_id order_id ticker_id =
     andThen (if unat client_id < ME_MAX_NUM_CLIENTS then
                andThen (array_at ME_MAX_NUM_CLIENTS (ob_cid_oid_to_order bk) (unat client_id)) (\<lambda>co_itr.
                array_at ME_MAX_ORDER_IDS co_itr (unat order_id))
              else Inr None) (\<lambda>exchange_order.
     case exchange_order of
       None \<Rightarrow>
         Inr (bk, sendClientResponse mq
           \<lparr>cr_type = CANCEL_REJECTED, cr_client_id = client_id, cr_ticker_id = ticker_id,
            cr_client_order_id = order_id, cr_market_order_id = OrderId_INVALID,
            cr_side = Side_INVALID, cr_price = Price_INVALID, cr_exec_qty = Qty_INVALID,
            cr_leaves_qty = Qty_INVALID\<rparr>)
     | Some p \<Rightarrow>
         let ord = mp_obj (ob_order_pool bk) p;
             client_response =
               \<lparr>cr_type = CANCELED, cr_client_id = client_id, cr_ticker_id = ticker_id,
                cr_client_order_id = order_id, cr_market_order_id = me_market_order_id ord,
                cr_side = me_side ord, cr_price = me_price ord, cr_exec_qty = Qty_INVALID,
                cr_leaves_qty = me_qty ord\<rparr>;
             market_update =
               \<lparr>mu_type = CANCEL, mu_order_id = me_market_order_id ord, mu_ticker_id = ticker_id,
                mu_side = me_side ord, mu_price = me_price ord, mu_qty = 0,
                mu_priority = me_priority ord\<rparr> in
         andThen (removeOrder bk p) (\<lambda>bk1.
         Inr (bk1, sendClientResponse (sendMarketUpdate mq market_update) client_response)))"

end
