(* ===== verification/Ring.thy ===== *)
theory Ring
  imports Prelude
begin

text \<open>
  Circular doubly linked lists. Both order books keep the price levels of a side and the orders of
  a level in such lists: every node has a pointer to the next and to the previous node, the last
  node points on to the first. The shape is stated over the two pointer fields as functions of the
  node (\<open>nx\<close>, \<open>pv\<close>), so that the lemmas hold for the nodes of any pool.
\<close>

section \<open>Segments and rings\<close>

text \<open>Consecutive nodes of the list are linked in both directions.\<close>

fun linked :: "(nat \<Rightarrow> pointer) \<Rightarrow> (nat \<Rightarrow> pointer) \<Rightarrow> nat list \<Rightarrow> bool" where
  "linked nx pv (a # b # xs) \<longleftrightarrow> nx a = Some b \<and> pv b = Some a \<and> linked nx pv (b # xs)"
| "linked nx pv xs \<longleftrightarrow> True"

text \<open>The nodes of \<open>xs\<close>, from the first one on, form a ring.\<close>

definition ring :: "(nat \<Rightarrow> pointer) \<Rightarrow> (nat \<Rightarrow> pointer) \<Rightarrow> nat list \<Rightarrow> bool" where
  "ring nx pv xs \<longleftrightarrow> xs \<noteq> [] \<and> distinct xs \<and> linked nx pv (xs @ [hd xs])"

named_theorems ring_intros \<open>how the link updates of the sources act on a ring\<close>

lemma linked_append:
  "linked nx pv (xs @ a # ys) \<longleftrightarrow> linked nx pv (xs @ [a]) \<and> linked nx pv (a # ys)"
proof (induction xs)
  case (Cons x xs)
  then show ?case by (cases xs) auto
qed simp

lemma linked_cong:
  assumes "\<And>a. a \<in> set (butlast xs) \<Longrightarrow> nx' a = nx a"
    and "\<And>a. a \<in> set (tl xs) \<Longrightarrow> pv' a = pv a"
  shows "linked nx' pv' xs = linked nx pv xs"
  using assms
proof (induction nx pv xs rule: linked.induct)
  case (1 nx pv a b xs)
  then have "linked nx' pv' (b # xs) = linked nx pv (b # xs)"
    by (intro "1.IH") (auto split: if_splits dest: in_set_butlastD list.set_sel(2))
  with "1.prems"(1) [of a] "1.prems"(2) [of b] show ?case by simp
qed auto

lemma ring_rotate: "ring nx pv (x # xs) \<longleftrightarrow> ring nx pv (xs @ [x])"
proof (cases xs)
  case (Cons y ys)
  then show ?thesis
    using linked_append [of nx pv "y # ys" x "[y]"] by (auto simp: ring_def)
qed simp

lemma ring_append_rotate: "ring nx pv (xs @ ys) \<longleftrightarrow> ring nx pv (ys @ xs)"
proof (induction xs arbitrary: ys)
  case (Cons x xs)
  have "ring nx pv ((x # xs) @ ys) = ring nx pv (xs @ (ys @ [x]))"
    by (simp add: ring_rotate)
  also have "\<dots> = ring nx pv ((ys @ [x]) @ xs)" by (rule Cons.IH)
  finally show ?case by simp
qed simp

lemma ring_distinct: "ring nx pv xs \<Longrightarrow> distinct xs"
  by (simp add: ring_def)

lemma ring_nonempty: "ring nx pv xs \<Longrightarrow> xs \<noteq> []"
  by (simp add: ring_def)

section \<open>Following the pointers\<close>

lemma ring_linked: "ring nx pv (a # xs) \<Longrightarrow> linked nx pv ((a # xs) @ [a])"
  by (simp add: ring_def)

lemma ring_next: "ring nx pv (xs @ a # b # ys) \<Longrightarrow> nx a = Some b"
  and ring_prev: "ring nx pv (xs @ a # b # ys) \<Longrightarrow> pv b = Some a"
proof -
  assume "ring nx pv (xs @ a # b # ys)"
  then have "linked nx pv (a # b # ys @ [hd (xs @ a # b # ys)])"
    using linked_append [of nx pv xs a "b # ys @ [hd (xs @ a # b # ys)]"] by (simp add: ring_def)
  then show "nx a = Some b" "pv b = Some a" by simp_all
qed

lemma ring_hd_prev: "ring nx pv (a # xs) \<Longrightarrow> pv a = Some (last (a # xs))"
  and ring_last_next: "ring nx pv (a # xs) \<Longrightarrow> nx (last (a # xs)) = Some a"
proof -
  assume r: "ring nx pv (a # xs)"
  obtain ys z where yz: "a # xs = ys @ [z]"
    by (metis list.discI rev_exhaust)
  from ring_linked [OF r] have "linked nx pv (ys @ z # [a])" unfolding yz by simp
  then have "linked nx pv [z, a]"
    using linked_append [of nx pv ys z "[a]"] by simp
  then show "pv a = Some (last (a # xs))" "nx (last (a # xs)) = Some a"
    unfolding yz by auto
qed

lemma ring_single: "ring nx pv [a] \<longleftrightarrow> nx a = Some a \<and> pv a = Some a"
  by (auto simp: ring_def)

lemma ring_self_next: "ring nx pv (a # xs) \<Longrightarrow> nx a = Some a \<longleftrightarrow> xs = []"
  by (cases xs) (auto simp: ring_def)

lemma ring_self_prev: "ring nx pv (xs @ a # ys) \<Longrightarrow> pv a = Some a \<longleftrightarrow> xs = [] \<and> ys = []"
proof -
  assume r: "ring nx pv (xs @ a # ys)"
  then have "ring nx pv (a # ys @ xs)" using ring_append_rotate [of nx pv xs "a # ys"] by simp
  from ring_hd_prev [OF this] ring_distinct [OF this] show ?thesis
    by (auto split: if_splits) (metis append_Nil append_is_Nil_conv in_set_conv_decomp_last
        last_in_set set_append UnE)+
qed

section \<open>Updates away from the ring\<close>

lemma ring_cong:
  assumes "\<And>a. a \<in> set xs \<Longrightarrow> nx' a = nx a" and "\<And>a. a \<in> set xs \<Longrightarrow> pv' a = pv a"
  shows "ring nx' pv' xs = ring nx pv xs"
proof (cases "xs = []")
  case False
  then have "linked nx' pv' (xs @ [hd xs]) = linked nx pv (xs @ [hd xs])"
    using assms by (intro linked_cong) (auto simp: butlast_append dest: list.set_sel(2))
  then show ?thesis by (simp add: ring_def)
qed (simp add: ring_def)

lemma ring_upd_next [simp]: "p \<notin> set xs \<Longrightarrow> ring (nx(p := v)) pv xs = ring nx pv xs"
  by (rule ring_cong) auto

lemma ring_upd_prev [simp]: "p \<notin> set xs \<Longrightarrow> ring nx (pv(p := v)) xs = ring nx pv xs"
  by (rule ring_cong) auto

section \<open>Linking and unlinking\<close>

text \<open>
  The four assignments that link \<open>p\<close> in at the end of a ring, that is between its last and its
  first node. Linking in front of any other node is the same up to rotation.
\<close>

lemma ring_snoc:
  assumes "ring nx pv (a # xs)" and "p \<notin> set (a # xs)" and "z = last (a # xs)"
  shows "ring (nx(z := Some p, p := Some a)) (pv(p := Some z, a := Some p)) (a # xs @ [p])"
proof -
  obtain ys where yz: "a # xs = ys @ [z]"
    using assms(3) by (metis append_butlast_last_id list.discI)
  let ?nx = "nx(z := Some p, p := Some a)" and ?pv = "pv(p := Some z, a := Some p)"
  have d: "distinct (ys @ [z])" "p \<notin> set (ys @ [z])"
    using assms(1,2) yz by (auto simp: ring_def)
  from ring_linked [OF assms(1)] have "linked nx pv (ys @ z # [a])" unfolding yz by simp
  then have "linked nx pv (ys @ [z])"
    using linked_append [of nx pv ys z "[a]"] by simp
  moreover have "a \<notin> set (tl (ys @ [z]))" and "p \<notin> set (tl (ys @ [z]))"
    using d yz by (metis distinct.simps(2) list.sel(3), metis list.set_sel(2) snoc_eq_iff_butlast)
  ultimately have "linked ?nx ?pv (ys @ [z])"
    using d by (subst linked_cong [where nx = nx and pv = pv]) auto
  moreover have "linked ?nx ?pv (z # p # [a])"
    using assms(2) d yz by (auto simp: Cons_eq_append_conv)
  ultimately have "linked ?nx ?pv (ys @ z # p # [a])"
    using linked_append [of ?nx ?pv ys z "[p, a]"] by blast
  moreover have "(a # xs @ [p]) @ [hd (a # xs @ [p])] = ys @ z # p # [a]"
    using yz by simp
  moreover have "distinct (a # xs @ [p])"
    using ring_distinct [OF assms(1)] assms(2) by simp
  ultimately show ?thesis
    unfolding ring_def by (metis list.discI)
qed

lemma ring_insert_before [ring_intros]:
  assumes "ring nx pv (xs @ a # ys)" and "p \<notin> set (xs @ a # ys)" and "pv a = Some z"
  shows "ring (nx(z := Some p, p := Some a)) (pv(p := Some z, a := Some p)) (xs @ p # a # ys)"
proof -
  have r: "ring nx pv (a # ys @ xs)"
    using assms(1) ring_append_rotate [of nx pv xs "a # ys"] by simp
  have "z = last (a # ys @ xs)" using ring_hd_prev [OF r] assms(3) by simp
  from ring_snoc [OF r _ this, of p] assms(2)
  have "ring (nx(z := Some p, p := Some a)) (pv(p := Some z, a := Some p)) ((a # ys) @ xs @ [p])"
    by simp
  then show ?thesis
    using ring_append_rotate [of _ _ "a # ys" "xs @ [p]"] by simp
qed

text \<open>The two assignments that take \<open>p\<close> out of a ring that has another node.\<close>

lemma ring_tl:
  assumes "ring nx pv (p # a # xs)" and "z = last (a # xs)"
  shows "ring (nx(z := Some a)) (pv(a := Some z)) (a # xs)"
proof -
  obtain ys where yz: "a # xs = ys @ [z]"
    using assms(2) by (metis append_butlast_last_id list.discI)
  let ?nx = "nx(z := Some a)" and ?pv = "pv(a := Some z)"
  have d: "distinct (ys @ [z])" using assms(1) yz by (auto simp: ring_def)
  have "linked nx pv ((a # xs) @ [p])" using assms(1) by (simp add: ring_def)
  then have "linked nx pv (ys @ [z])"
    unfolding yz using linked_append [of nx pv ys z "[p]"] by simp
  moreover have "a \<notin> set (tl (ys @ [z]))"
    using d yz by (metis distinct.simps(2) list.sel(3))
  ultimately have "linked ?nx ?pv (ys @ [z])"
    using d by (subst linked_cong [where nx = nx and pv = pv]) auto
  then have "linked ?nx ?pv (ys @ z # [a])"
    using linked_append [of ?nx ?pv ys z "[a]"] by simp
  then have "linked ?nx ?pv ((a # xs) @ [hd (a # xs)])"
    by (simp only: yz append_assoc) (metis append_Cons append_Nil list.sel(1) yz)
  then show ?thesis using assms(1) by (simp add: ring_def)
qed

lemma ring_remove [ring_intros]:
  assumes "ring nx pv (xs @ p # ys)" and "xs @ ys \<noteq> []" and "pv p = Some b" and "nx p = Some a"
  shows "ring (nx(b := Some a)) (pv(a := Some b)) (xs @ ys)"
proof -
  have r: "ring nx pv (p # ys @ xs)"
    using assms(1) ring_append_rotate [of nx pv xs "p # ys"] by simp
  obtain c cs where c: "ys @ xs = c # cs" using assms(2) by (cases "ys @ xs") auto
  have "a = c" and "b = last (c # cs)"
    using ring_next [of nx pv "[]" p c cs] ring_hd_prev [OF r] r c assms(3,4) by auto
  with ring_tl [of nx pv p c cs b] r c
  have "ring (nx(b := Some a)) (pv(a := Some b)) (ys @ xs)" by simp
  then show ?thesis using ring_append_rotate by blast
qed

section \<open>Looking for the place of a new node\<close>

text \<open>
  Both books keep the levels of a side sorted, best price first, and find the place of a new level
  by walking the ring from the best one: \<open>wr\<close> says of a node that the new one comes after it.
  The walk ends at the best level again (\<open>True\<close>: link in at the end) or at the first node
  that the new one comes before (\<open>False\<close>).
\<close>

fun walk :: "nat \<Rightarrow> (nat \<Rightarrow> pointer) \<Rightarrow> (nat \<Rightarrow> bool) \<Rightarrow> nat \<Rightarrow> nat \<Rightarrow> bool \<Rightarrow> (nat \<times> bool) result" where
  "walk fuel nx wr best t aa =
     (if aa \<and> t \<noteq> best then
        if fuel = 0 then Inl Diverges
        else if wr t then andThen (not_null (nx t)) (\<lambda>t'. walk (fuel - 1) nx wr best t' True)
        else walk (fuel - 1) nx wr best t False
      else Inr (t, aa))"

declare walk.simps [simp del]

lemma walk_stop [simp]: "walk fuel nx wr best best aa = Inr (best, aa)"
  "walk fuel nx wr best t False = Inr (t, False)"
  by (simp_all add: walk.simps [of fuel nx wr best best] walk.simps [of fuel nx wr best t])

lemma walk_finds:
  assumes "ring nx pv (b # us @ ys @ zs)" and "\<forall>y\<in>set ys. wr y" and "\<forall>z\<in>set zs. \<not> wr z"
    and "length ys < fuel" and "t = hd (ys @ zs @ [b])"
  shows "walk fuel nx wr b t True = Inr (if zs = [] then (b, True) else (hd zs, False))"
  using assms
proof (induction ys arbitrary: us fuel t)
  case Nil
  show ?case
  proof (cases zs)
    case (Cons z zs')
    with Nil have "t = z" "z \<noteq> b" "\<not> wr z" "fuel \<noteq> 0" by (auto simp: ring_def)
    with Cons show ?thesis by (simp add: walk.simps [of fuel nx wr b z True])
  qed (use Nil in simp)
next
  case (Cons y ys)
  have t: "t = y" using Cons.prems by simp
  have "y \<noteq> b" "wr y" "fuel \<noteq> 0" using Cons.prems by (auto simp: ring_def)
  moreover have "nx y = Some (hd (ys @ zs @ [b]))"
  proof (cases "ys @ zs")
    case Nil
    then show ?thesis using ring_last_next [of nx pv b "us @ [y]"] Cons.prems(1) by simp
  next
    case (Cons x xs)
    then have "ring nx pv ((b # us) @ y # x # xs)" using Cons.prems(1) by simp
    from ring_next [OF this] Cons show ?thesis by (metis append_assoc append_Cons list.sel(1))
  qed
  moreover have "walk (fuel - 1) nx wr b (hd (ys @ zs @ [b])) True =
      Inr (if zs = [] then (b, True) else (hd zs, False))"
    using Cons.prems by (intro Cons.IH [of "us @ [y]"]) auto
  ultimately show ?case by (simp add: t walk.simps [of fuel nx wr b y True])
qed

text \<open>The walk from the best node, as both books begin it.\<close>

definition walk_from :: "nat \<Rightarrow> (nat \<Rightarrow> pointer) \<Rightarrow> (nat \<Rightarrow> bool) \<Rightarrow> nat \<Rightarrow> (nat \<times> bool) result" where
  "walk_from fuel nx wr best =
     (if wr best then andThen (not_null (nx best)) (\<lambda>t. walk fuel nx wr best t (wr t))
      else walk fuel nx wr best best False)"

lemma walk_from_finds:
  assumes "ring nx pv (ys @ zs)" and "\<forall>y\<in>set ys. wr y" and "\<forall>z\<in>set zs. \<not> wr z"
    and "length ys \<le> fuel" and "b = hd (ys @ zs)"
  shows "walk_from fuel nx wr b = Inr (if zs = [] then (b, True) else (hd zs, False))"
proof (cases ys)
  case Nil
  then have "zs \<noteq> []" using assms(1) by (auto simp: ring_def)
  with Nil assms(3,5) show ?thesis by (simp add: walk_from_def)
next
  case ys: (Cons y ys')
  with assms have b: "b = y" and wb: "wr b" and ring: "ring nx pv (b # [] @ ys' @ zs)" by auto
  have nb: "nx b = Some (hd (ys' @ zs @ [b]))"
  proof (cases "ys' @ zs")
    case Nil
    then show ?thesis using ring ring_single [of nx pv b] by simp
  next
    case (Cons x xs)
    then show ?thesis
      using ring ring_next [of nx pv "[]" b x xs] by (metis append_Cons append_Nil append_assoc list.sel(1))
  qed
  show ?thesis
  proof (cases "ys' = [] \<and> zs \<noteq> []")
    case True
    with assms(3) have "\<not> wr (hd zs)" by simp
    with True wb nb show ?thesis by (simp add: walk_from_def)
  next
    case False
    then have "wr (hd (ys' @ zs @ [b]))" using assms(2) ys wb by (cases ys') auto
    moreover have "walk fuel nx wr b (hd (ys' @ zs @ [b])) True =
        Inr (if zs = [] then (b, True) else (hd zs, False))"
      using assms ys by (intro walk_finds [OF ring]) auto
    ultimately show ?thesis using wb nb by (simp add: walk_from_def)
  qed
qed

end
