(* ===== verification/ME_Book_Inv.thy ===== *)
theory ME_Book_Inv
  imports ME_Order_Book Ring
begin

text \<open>
  The data structure invariant of the matching engine's book and its preservation. The invariant
  relates the pointers of a book to its shape: for each side the list of its price levels, best
  first, each with the list of its orders, oldest first, all as pool indices.
\<close>

section \<open>The invariant\<close>

type_synonym level = "nat \<times> nat list"
type_synonym shape = "Side \<Rightarrow> level list"

text \<open>On the given side, price \<open>p\<close> is more aggressive than \<open>q\<close>.\<close>

definition better :: "Side \<Rightarrow> Price \<Rightarrow> Price \<Rightarrow> bool" where
  "better s p q \<longleftrightarrow> (if s = BUY then q < p else p < q)"

definition level_ok :: "(nat \<Rightarrow> MEOrdersAtPrice) \<Rightarrow> (nat \<Rightarrow> MEOrder) \<Rightarrow> Side \<Rightarrow> level \<Rightarrow> bool" where
  "level_ok lo oo s lv \<longleftrightarrow>
     oap_side (lo (fst lv)) = s \<and>
     oap_first_me_order (lo (fst lv)) = Some (hd (snd lv)) \<and>
     ring (me_next_order \<circ> oo) (me_prev_order \<circ> oo) (snd lv) \<and>
     (\<forall>p\<in>set (snd lv). me_price (oo p) = oap_price (lo (fst lv)) \<and> me_side (oo p) = s)"

definition levels_linked :: "(nat \<Rightarrow> MEOrdersAtPrice) \<Rightarrow> pointer \<Rightarrow> nat list \<Rightarrow> bool" where
  "levels_linked lo head ls \<longleftrightarrow>
     (if ls = [] then head = None
      else head = Some (hd ls) \<and> ring (oap_next_entry \<circ> lo) (oap_prev_entry \<circ> lo) ls)"

definition levels_sorted :: "(nat \<Rightarrow> MEOrdersAtPrice) \<Rightarrow> Side \<Rightarrow> nat list \<Rightarrow> bool" where
  "levels_sorted lo s ls \<longleftrightarrow>
     sorted_wrt (\<lambda>a b. better s (oap_price (lo a)) (oap_price (lo b))) ls"

definition side_ok :: "(nat \<Rightarrow> MEOrdersAtPrice) \<Rightarrow> (nat \<Rightarrow> MEOrder) \<Rightarrow> pointer \<Rightarrow> Side \<Rightarrow> level list \<Rightarrow> bool" where
  "side_ok lo oo head s L \<longleftrightarrow>
     levels_linked lo head (map fst L) \<and> levels_sorted lo s (map fst L) \<and>
     (\<forall>lv\<in>set L. level_ok lo oo s lv)"

definition level_ptrs :: "shape \<Rightarrow> nat list" where
  "level_ptrs sh = map fst (sh BUY) @ map fst (sh SELL)"

definition side_ptrs :: "level list \<Rightarrow> nat list" where
  "side_ptrs L = concat (map snd L)"

definition order_ptrs :: "shape \<Rightarrow> nat list" where
  "order_ptrs sh = side_ptrs (sh BUY) @ side_ptrs (sh SELL)"

text \<open>The table from price index to level, and the table from client and order to order.\<close>

definition price_table_ok :: "(nat \<Rightarrow> MEOrdersAtPrice) \<Rightarrow> (nat \<Rightarrow> pointer) \<Rightarrow> nat set \<Rightarrow> bool" where
  "price_table_ok lo tbl ls \<longleftrightarrow>
     (\<forall>i l. i < ME_MAX_PRICE_LEVELS \<longrightarrow>
        (tbl i = Some l \<longleftrightarrow> l \<in> ls \<and> priceToIndex (oap_price (lo l)) = i))"

definition order_table_ok ::
    "(nat \<Rightarrow> MEOrder) \<Rightarrow> (nat \<Rightarrow> nat \<Rightarrow> pointer) \<Rightarrow> nat set \<Rightarrow> bool" where
  "order_table_ok oo tbl ps \<longleftrightarrow>
     (\<forall>c i p. c < ME_MAX_NUM_CLIENTS \<longrightarrow> i < ME_MAX_ORDER_IDS \<longrightarrow>
        (tbl c i = Some p \<longleftrightarrow>
           p \<in> ps \<and> unat (me_client_id (oo p)) = c \<and> unat (me_client_order_id (oo p)) = i)) \<and>
     (\<forall>p\<in>ps. unat (me_client_id (oo p)) < ME_MAX_NUM_CLIENTS \<and>
        unat (me_client_order_id (oo p)) < ME_MAX_ORDER_IDS)"

text \<open>
  The pools: the live levels are those of the shape, the live orders those of the shape and the
  set \<open>X\<close> of orders that are allocated but not linked in yet.
\<close>

definition pools_ok :: "nat set \<Rightarrow> MEOrdersAtPrice MemPool \<Rightarrow> MEOrder MemPool \<Rightarrow> shape \<Rightarrow> bool" where
  "pools_ok X lp op sh \<longleftrightarrow>
     mp_inv lp \<and> mp_inv op \<and> distinct (level_ptrs sh) \<and> distinct (order_ptrs sh) \<and>
     mp_live lp = set (level_ptrs sh) \<and> mp_live op = set (order_ptrs sh) \<union> X \<and>
     X \<inter> set (order_ptrs sh) = {}"

definition book_inv :: "nat set \<Rightarrow> MEOrderBook \<Rightarrow> shape \<Rightarrow> bool" where
  "book_inv X bk sh \<longleftrightarrow>
     (let lp = ob_orders_at_price_pool bk; op = ob_order_pool bk in
      pools_ok X lp op sh \<and>
      (\<forall>s\<in>{BUY, SELL}. side_ok (mp_obj lp) (mp_obj op) (side_head bk s) s (sh s)) \<and>
      price_table_ok (mp_obj lp) (ob_price_orders_at_price bk) (set (level_ptrs sh)) \<and>
      order_table_ok (mp_obj op) (ob_cid_oid_to_order bk) (set (order_ptrs sh)))"

text \<open>An object without its link fields: what the link updates leave alone.\<close>

definition me_strip :: "MEOrder \<Rightarrow> MEOrder" where
  "me_strip n = n\<lparr>me_prev_order := None, me_next_order := None\<rparr>"

definition oap_strip :: "MEOrdersAtPrice \<Rightarrow> MEOrdersAtPrice" where
  "oap_strip n = n\<lparr>oap_prev_entry := None, oap_next_entry := None\<rparr>"

section \<open>Basic facts\<close>

lemma comp_upd_triv [simp]: "(g \<circ> f)(p := g (f p)) = g \<circ> f"
  by auto

lemmas me_set_defs = me_set_next_def me_set_prev_def
lemmas oap_set_defs = oap_set_next_def oap_set_prev_def oap_set_first_def

lemma oap_links [simp]:
  "oap_next_entry \<circ> mp_obj (oap_set_next lp p v) = (oap_next_entry \<circ> mp_obj lp)(p := v)"
  "oap_prev_entry \<circ> mp_obj (oap_set_next lp p v) = oap_prev_entry \<circ> mp_obj lp"
  "oap_strip \<circ> mp_obj (oap_set_next lp p v) = oap_strip \<circ> mp_obj lp"
  "oap_next_entry \<circ> mp_obj (oap_set_prev lp p v) = oap_next_entry \<circ> mp_obj lp"
  "oap_prev_entry \<circ> mp_obj (oap_set_prev lp p v) = (oap_prev_entry \<circ> mp_obj lp)(p := v)"
  "oap_strip \<circ> mp_obj (oap_set_prev lp p v) = oap_strip \<circ> mp_obj lp"
  by (auto simp: oap_set_defs oap_strip_def)

lemma oap_frame [simp]:
  "mp_live (oap_set_next lp p v) = mp_live lp" "mp_inv (oap_set_next lp p v) = mp_inv lp"
  "mp_size (oap_set_next lp p v) = mp_size lp"
  "mp_live (oap_set_prev lp p v) = mp_live lp" "mp_inv (oap_set_prev lp p v) = mp_inv lp"
  "mp_size (oap_set_prev lp p v) = mp_size lp"
  by (simp_all add: oap_set_defs)

lemma me_links [simp]:
  "me_next_order \<circ> mp_obj (me_set_next op p v) = (me_next_order \<circ> mp_obj op)(p := v)"
  "me_prev_order \<circ> mp_obj (me_set_next op p v) = me_prev_order \<circ> mp_obj op"
  "me_strip \<circ> mp_obj (me_set_next op p v) = me_strip \<circ> mp_obj op"
  "me_next_order \<circ> mp_obj (me_set_prev op p v) = me_next_order \<circ> mp_obj op"
  "me_prev_order \<circ> mp_obj (me_set_prev op p v) = (me_prev_order \<circ> mp_obj op)(p := v)"
  "me_strip \<circ> mp_obj (me_set_prev op p v) = me_strip \<circ> mp_obj op"
  by (auto simp: me_set_defs me_strip_def)

lemma me_frame [simp]:
  "mp_live (me_set_next op p v) = mp_live op" "mp_inv (me_set_next op p v) = mp_inv op"
  "mp_size (me_set_next op p v) = mp_size op"
  "mp_live (me_set_prev op p v) = mp_live op" "mp_inv (me_set_prev op p v) = mp_inv op"
  "mp_size (me_set_prev op p v) = mp_size op"
  by (simp_all add: me_set_defs)

lemma oap_strip_sel [simp]:
  "oap_side (oap_strip n) = oap_side n" "oap_price (oap_strip n) = oap_price n"
  "oap_first_me_order (oap_strip n) = oap_first_me_order n"
  by (simp_all add: oap_strip_def)

lemma me_strip_sel [simp]:
  "me_ticker_id (me_strip n) = me_ticker_id n" "me_client_id (me_strip n) = me_client_id n"
  "me_client_order_id (me_strip n) = me_client_order_id n"
  "me_market_order_id (me_strip n) = me_market_order_id n" "me_side (me_strip n) = me_side n"
  "me_price (me_strip n) = me_price n" "me_qty (me_strip n) = me_qty n"
  "me_priority (me_strip n) = me_priority n"
  by (simp_all add: me_strip_def)

lemma oap_strip_fields:
  assumes "oap_strip \<circ> lo' = oap_strip \<circ> lo"
  shows "oap_side (lo' l) = oap_side (lo l)" "oap_price (lo' l) = oap_price (lo l)"
    "oap_first_me_order (lo' l) = oap_first_me_order (lo l)"
  by (metis assms comp_apply oap_strip_sel)+

lemma me_strip_fields:
  assumes "me_strip \<circ> oo' = me_strip \<circ> oo"
  shows "me_side (oo' p) = me_side (oo p)" "me_price (oo' p) = me_price (oo p)"
    "me_client_id (oo' p) = me_client_id (oo p)"
    "me_client_order_id (oo' p) = me_client_order_id (oo p)"
    "me_market_order_id (oo' p) = me_market_order_id (oo p)"
    "me_qty (oo' p) = me_qty (oo p)" "me_priority (oo' p) = me_priority (oo p)"
  by (metis assms comp_apply me_strip_sel)+

lemma priceToIndex_less [simp]: "priceToIndex price < ME_MAX_PRICE_LEVELS"
  by (simp add: priceToIndex_def ME_MAX_PRICE_LEVELS_def)

lemma side_head_set [simp]:
  "s \<in> {BUY, SELL} \<Longrightarrow> t \<in> {BUY, SELL} \<Longrightarrow>
     side_head (set_side_head bk s p) t = (if s = t then p else side_head bk t)"
  by (auto simp: side_head_def set_side_head_def)

lemma set_side_head_frame [simp]:
  "ob_orders_at_price_pool (set_side_head bk s p) = ob_orders_at_price_pool bk"
  "ob_order_pool (set_side_head bk s p) = ob_order_pool bk"
  "ob_price_orders_at_price (set_side_head bk s p) = ob_price_orders_at_price bk"
  "ob_cid_oid_to_order (set_side_head bk s p) = ob_cid_oid_to_order bk"
  "ob_next_market_order_id (set_side_head bk s p) = ob_next_market_order_id bk"
  "ob_ticker_id (set_side_head bk s p) = ob_ticker_id bk"
  by (simp_all add: set_side_head_def)

lemma side_head_frame [simp]:
  "side_head (bk\<lparr>ob_orders_at_price_pool := x\<rparr>) s = side_head bk s"
  "side_head (bk\<lparr>ob_order_pool := y\<rparr>) s = side_head bk s"
  "side_head (bk\<lparr>ob_price_orders_at_price := z\<rparr>) s = side_head bk s"
  "side_head (bk\<lparr>ob_cid_oid_to_order := w\<rparr>) s = side_head bk s"
  "side_head (bk\<lparr>ob_next_market_order_id := v\<rparr>) s = side_head bk s"
  by (simp_all add: side_head_def)

section \<open>Linking a new level in\<close>

lemma addOrdersAtPrice_loop_walk:
  "addOrdersAtPrice_loop fuel lp new best t aa =
     walk fuel (oap_next_entry \<circ> mp_obj lp) (\<lambda>t. goes_after (mp_obj lp new) (mp_obj lp t)) best t aa"
proof (induction fuel arbitrary: t aa)
  case 0
  then show ?case by (simp add: addOrdersAtPrice_loop.simps walk.simps)
next
  case (Suc fuel)
  then show ?case
    by (simp add: addOrdersAtPrice_loop.simps [of "Suc fuel"] walk.simps [of "Suc fuel"])
qed

lemma addOrdersAtPrice_target_walk:
  "addOrdersAtPrice_target lp new best =
     walk_from (mp_size lp) (oap_next_entry \<circ> mp_obj lp)
       (\<lambda>t. goes_after (mp_obj lp new) (mp_obj lp t)) best"
  by (simp add: addOrdersAtPrice_target_def walk_from_def addOrdersAtPrice_loop_walk)

lemma goes_after_better:
  "oap_side new = s \<Longrightarrow> s \<in> {BUY, SELL} \<Longrightarrow>
     goes_after new t \<longleftrightarrow> better s (oap_price t) (oap_price new)"
  by (auto simp: goes_after_def better_def)

lemma beats_better:
  "oap_side new = s \<Longrightarrow> s \<in> {BUY, SELL} \<Longrightarrow>
     beats new t \<longleftrightarrow> better s (oap_price new) (oap_price t)"
  by (auto simp: beats_def better_def)

text \<open>
  What linking a level \<open>l\<close> in does to the book: only the level pool, one entry of the price table
  and the head of its side change, and in the pool only link fields.
\<close>

definition level_linked_in :: "MEOrderBook \<Rightarrow> Side \<Rightarrow> nat \<Rightarrow> nat list \<Rightarrow> MEOrderBook \<Rightarrow> bool" where
  "level_linked_in bk s l ls bk' \<longleftrightarrow>
     (let lp = ob_orders_at_price_pool bk; lp' = ob_orders_at_price_pool bk' in
      levels_linked (mp_obj lp') (side_head bk' s) ls \<and>
      oap_strip \<circ> mp_obj lp' = oap_strip \<circ> mp_obj lp \<and>
      (\<forall>q. q \<notin> set ls \<longrightarrow> mp_obj lp' q = mp_obj lp q) \<and>
      mp_live lp' = mp_live lp \<and> mp_inv lp' = mp_inv lp \<and> mp_size lp' = mp_size lp \<and>
      ob_order_pool bk' = ob_order_pool bk \<and>
      ob_cid_oid_to_order bk' = ob_cid_oid_to_order bk \<and>
      ob_next_market_order_id bk' = ob_next_market_order_id bk \<and>
      (\<forall>t\<in>{BUY, SELL}. t \<noteq> s \<longrightarrow> side_head bk' t = side_head bk t) \<and>
      ob_price_orders_at_price bk' =
        (ob_price_orders_at_price bk)(priceToIndex (oap_price (mp_obj lp l)) := Some l))"

lemma addOrdersAtPrice_before_ok:
  assumes s: "s \<in> {BUY, SELL}" and side: "oap_side (mp_obj (ob_orders_at_price_pool bk) new) = s"
    and ring: "ring (oap_next_entry \<circ> mp_obj (ob_orders_at_price_pool bk))
                 (oap_prev_entry \<circ> mp_obj (ob_orders_at_price_pool bk)) (ys @ t # zs)"
    and new: "new \<notin> set (ys @ t # zs)"
    and beats: "better s (oap_price (mp_obj (ob_orders_at_price_pool bk) new))
                  (oap_price (mp_obj (ob_orders_at_price_pool bk) (hd (ys @ t # zs)))) \<longleftrightarrow> ys = []"
    and head: "side_head bk s = Some (hd (ys @ t # zs))"
  shows "\<exists>lp'. addOrdersAtPrice_before bk new (hd (ys @ t # zs)) t =
       Inr ((if ys = [] then set_side_head bk s (Some new) else bk)\<lparr>ob_orders_at_price_pool := lp'\<rparr>) \<and>
     ring (oap_next_entry \<circ> mp_obj lp') (oap_prev_entry \<circ> mp_obj lp') (ys @ new # t # zs) \<and>
     oap_strip \<circ> mp_obj lp' = oap_strip \<circ> mp_obj (ob_orders_at_price_pool bk) \<and>
     (\<forall>q. q \<notin> set (ys @ new # t # zs) \<longrightarrow> mp_obj lp' q = mp_obj (ob_orders_at_price_pool bk) q) \<and>
     mp_live lp' = mp_live (ob_orders_at_price_pool bk) \<and>
     mp_inv lp' = mp_inv (ob_orders_at_price_pool bk) \<and>
     mp_size lp' = mp_size (ob_orders_at_price_pool bk)"
proof -
  let ?lp = "ob_orders_at_price_pool bk" and ?b = "hd (ys @ t # zs)"
  have rot: "ring (oap_next_entry \<circ> mp_obj ?lp) (oap_prev_entry \<circ> mp_obj ?lp) (t # zs @ ys)"
    using ring ring_append_rotate [of _ _ ys "t # zs"] by simp
  define z where "z = last (t # zs @ ys)"
  have z: "oap_prev_entry (mp_obj ?lp t) = Some z"
    using ring_hd_prev [OF rot] by (simp add: z_def)
  have zin: "z \<in> set (ys @ t # zs)"
    using last_in_set [of "t # zs @ ys"] by (auto simp: z_def)
  have "z \<noteq> new" "t \<noteq> new" using new zin by auto
  let ?lp4 = "oap_set_prev (oap_set_next (oap_set_next (oap_set_prev ?lp new (Some z)) new (Some t))
                z (Some new)) t (Some new)"
  have ring4: "ring (oap_next_entry \<circ> mp_obj ?lp4) (oap_prev_entry \<circ> mp_obj ?lp4) (ys @ new # t # zs)"
    using ring_insert_before [OF ring new, of z] z \<open>z \<noteq> new\<close>
    by (simp add: fun_upd_twist)
  have strip4: "oap_strip \<circ> mp_obj ?lp4 = oap_strip \<circ> mp_obj ?lp" by simp
  note flds = oap_strip_fields [OF strip4]
  have out4: "mp_obj ?lp4 q = mp_obj ?lp q" if "q \<notin> set (ys @ new # t # zs)" for q
    using that zin by (auto simp: oap_set_defs)
  have beats4: "beats (mp_obj ?lp4 new) (mp_obj ?lp4 ?b) \<longleftrightarrow> ys = []"
    using beats s side by (subst beats_better [of _ s]) (auto simp: flds)
  have same: "oap_set_next ?lp4 t (if oap_next_entry (mp_obj ?lp4 t) = Some ?b then Some new
      else oap_next_entry (mp_obj ?lp4 t)) = ?lp4" if "ys = []"
  proof -
    have "oap_next_entry (mp_obj ?lp4 t) \<noteq> Some t"
      using ring_self_next [of _ _ t "zs @ [new]"] ring4 that
        ring_rotate [of _ _ new "t # zs"] by (metis append_Cons append_Nil append_is_Nil_conv
          comp_apply not_Cons_self2)
    then show ?thesis
      unfolding oap_set_next_def [of ?lp4] using that by (intro mp_upd_id) simp
  qed
  have eq: "addOrdersAtPrice_before bk new ?b t =
      (if beats (mp_obj ?lp4 new) (mp_obj ?lp4 ?b) then
        Inr (set_side_head (bk\<lparr>ob_orders_at_price_pool := oap_set_next ?lp4 t
              (if oap_next_entry (mp_obj ?lp4 t) = Some ?b then Some new
               else oap_next_entry (mp_obj ?lp4 t))\<rparr>) (oap_side (mp_obj ?lp4 new)) (Some new))
      else Inr (bk\<lparr>ob_orders_at_price_pool := ?lp4\<rparr>))"
  proof -
    have "oap_prev_entry (mp_obj (oap_set_next (oap_set_prev ?lp new (Some z)) new (Some t)) t) = Some z"
      using z \<open>t \<noteq> new\<close> by (simp add: oap_set_defs)
    then show ?thesis by (simp add: addOrdersAtPrice_before_def z Let_def)
  qed
  have "addOrdersAtPrice_before bk new ?b t =
      Inr ((if ys = [] then set_side_head bk s (Some new) else bk)\<lparr>ob_orders_at_price_pool := ?lp4\<rparr>)"
    unfolding eq beats4 using same side flds(1) [of new]
    by (simp add: set_side_head_def)
  with ring4 strip4 out4 show ?thesis by (intro exI [of _ ?lp4]) simp
qed

lemma addOrdersAtPrice_after_ok:
  assumes ring: "ring (oap_next_entry \<circ> mp_obj (ob_orders_at_price_pool bk))
                   (oap_prev_entry \<circ> mp_obj (ob_orders_at_price_pool bk)) (b # xs)"
    and new: "new \<notin> set (b # xs)"
  shows "\<exists>lp'. addOrdersAtPrice_after bk new b b = Inr (bk\<lparr>ob_orders_at_price_pool := lp'\<rparr>) \<and>
     ring (oap_next_entry \<circ> mp_obj lp') (oap_prev_entry \<circ> mp_obj lp') (b # xs @ [new]) \<and>
     oap_strip \<circ> mp_obj lp' = oap_strip \<circ> mp_obj (ob_orders_at_price_pool bk) \<and>
     (\<forall>q. q \<notin> set (b # xs @ [new]) \<longrightarrow> mp_obj lp' q = mp_obj (ob_orders_at_price_pool bk) q) \<and>
     mp_live lp' = mp_live (ob_orders_at_price_pool bk) \<and>
     mp_inv lp' = mp_inv (ob_orders_at_price_pool bk) \<and>
     mp_size lp' = mp_size (ob_orders_at_price_pool bk)"
proof -
  let ?lp = "ob_orders_at_price_pool bk"
  define z where "z = last (b # xs)"
  have z: "oap_prev_entry (mp_obj ?lp b) = Some z" "oap_next_entry (mp_obj ?lp z) = Some b"
    using ring_hd_prev [OF ring] ring_last_next [OF ring] by (simp_all add: z_def)
  have zin: "z \<in> set (b # xs)" using last_in_set [of "b # xs"] by (simp add: z_def)
  then have "z \<noteq> new" "b \<noteq> new" using new by auto
  let ?lp4 = "oap_set_next (oap_set_next (oap_set_prev (oap_set_prev ?lp new (Some z)) b (Some new))
                new (Some b)) z (Some new)"
  have "oap_next_entry (mp_obj (oap_set_prev ?lp new (Some z)) z) = Some b"
    "oap_next_entry (mp_obj (oap_set_prev (oap_set_prev ?lp new (Some z)) b (Some new)) z) = Some b"
    using z \<open>z \<noteq> new\<close> by (auto simp: oap_set_defs)
  then have "addOrdersAtPrice_after bk new b b = Inr (bk\<lparr>ob_orders_at_price_pool := ?lp4\<rparr>)"
    by (simp add: addOrdersAtPrice_after_def z Let_def)
  moreover have "ring (oap_next_entry \<circ> mp_obj ?lp4) (oap_prev_entry \<circ> mp_obj ?lp4) (b # xs @ [new])"
    using ring_snoc [OF ring new z_def] \<open>z \<noteq> new\<close> by (simp add: fun_upd_twist)
  moreover have "mp_obj ?lp4 q = mp_obj ?lp q" if "q \<notin> set (b # xs @ [new])" for q
    using that zin by (auto simp: oap_set_defs)
  ultimately show ?thesis by (intro exI [of _ ?lp4]) simp
qed

lemma addOrdersAtPrice_ok:
  assumes s: "s \<in> {BUY, SELL}"
    and lp: "lp = ob_orders_at_price_pool bk" and side: "oap_side (mp_obj lp new) = s"
    and linked: "levels_linked (mp_obj lp) (side_head bk s) (ys @ zs)"
    and new: "new \<notin> set (ys @ zs)" and fuel: "length (ys @ zs) \<le> mp_size lp"
    and ys: "\<forall>y\<in>set ys. better s (oap_price (mp_obj lp y)) (oap_price (mp_obj lp new))"
    and zs: "\<forall>z\<in>set zs. better s (oap_price (mp_obj lp new)) (oap_price (mp_obj lp z))"
  shows "\<exists>bk'. addOrdersAtPrice bk new = Inr bk' \<and> level_linked_in bk s new (ys @ new # zs) bk'"
proof -
  define bk1 where "bk1 = bk\<lparr>ob_price_orders_at_price :=
    (ob_price_orders_at_price bk)(priceToIndex (oap_price (mp_obj lp new)) := Some new)\<rparr>"
  have lp1: "ob_orders_at_price_pool bk1 = lp" and head1: "side_head bk1 t = side_head bk t" for t
    by (simp_all add: bk1_def lp)
  show ?thesis
  proof (cases "ys @ zs = []")
    case True
    let ?lp' = "oap_set_prev (oap_set_next lp new (Some new)) new (Some new)"
    have "addOrdersAtPrice bk new =
        Inr ((set_side_head bk1 s (Some new))\<lparr>ob_orders_at_price_pool := ?lp'\<rparr>)"
      using True linked side
      by (simp add: addOrdersAtPrice_def bk1_def [symmetric] lp [symmetric] levels_linked_def head1
          Let_def)
    moreover have "mp_obj ?lp' q = mp_obj lp q" if "q \<noteq> new" for q
      using that by (simp add: oap_set_defs)
    ultimately show ?thesis
      using True s by (simp add: level_linked_in_def levels_linked_def ring_single lp1 lp [symmetric])
        (auto simp: bk1_def lp side_head_def set_side_head_def oap_set_defs split: if_splits)
  next
    case False
    define b where "b = hd (ys @ zs)"
    have head: "side_head bk s = Some b"
      and ring: "ring (oap_next_entry \<circ> mp_obj lp) (oap_prev_entry \<circ> mp_obj lp) (ys @ zs)"
      using linked False by (simp_all add: levels_linked_def b_def split: if_splits)
    have "addOrdersAtPrice_target lp new b = Inr (if zs = [] then (b, True) else (hd zs, False))"
      unfolding addOrdersAtPrice_target_walk
    proof (rule walk_from_finds [OF ring])
      show "\<forall>y\<in>set ys. goes_after (mp_obj lp new) (mp_obj lp y)"
        using ys s side by (simp add: goes_after_better)
      show "\<forall>z\<in>set zs. \<not> goes_after (mp_obj lp new) (mp_obj lp z)"
        using zs s side by (auto simp: goes_after_better better_def split: if_splits)
    qed (use fuel b_def in auto)
    then have eq: "addOrdersAtPrice bk new =
        (if zs = [] then addOrdersAtPrice_after bk1 new b b
         else addOrdersAtPrice_before bk1 new b (hd zs))"
      using head side by (simp add: addOrdersAtPrice_def bk1_def [symmetric] lp [symmetric] head1 Let_def)
    show ?thesis
    proof (cases zs)
      case Nil
      then obtain xs where xs: "ys = b # xs" using False b_def by (cases ys) auto
      from addOrdersAtPrice_after_ok [of bk1 b xs new] ring new Nil xs lp1
      obtain lp' where lp': "addOrdersAtPrice_after bk1 new b b = Inr (bk1\<lparr>ob_orders_at_price_pool := lp'\<rparr>)"
        "ring (oap_next_entry \<circ> mp_obj lp') (oap_prev_entry \<circ> mp_obj lp') (b # xs @ [new])"
        "oap_strip \<circ> mp_obj lp' = oap_strip \<circ> mp_obj lp"
        "\<forall>q. q \<notin> set (b # xs @ [new]) \<longrightarrow> mp_obj lp' q = mp_obj lp q"
        "mp_live lp' = mp_live lp" "mp_inv lp' = mp_inv lp \<and> mp_size lp' = mp_size lp"
        by auto
      then show ?thesis
        using Nil xs head eq
        by (simp add: level_linked_in_def levels_linked_def head1 lp [symmetric])
           (simp add: bk1_def)
    next
      case (Cons t zs')
      have "better s (oap_price (mp_obj lp new)) (oap_price (mp_obj lp b)) \<longleftrightarrow> ys = []"
        using ys zs Cons s by (cases ys) (auto simp: b_def better_def split: if_splits)
      with addOrdersAtPrice_before_ok [of s bk1 new ys t zs'] s side ring new head Cons lp1 head1
      obtain lp' where lp': "addOrdersAtPrice_before bk1 new b t =
          Inr ((if ys = [] then set_side_head bk1 s (Some new) else bk1)\<lparr>ob_orders_at_price_pool := lp'\<rparr>)"
        "ring (oap_next_entry \<circ> mp_obj lp') (oap_prev_entry \<circ> mp_obj lp') (ys @ new # t # zs')"
        "oap_strip \<circ> mp_obj lp' = oap_strip \<circ> mp_obj lp"
        "\<forall>q. q \<notin> set (ys @ new # t # zs') \<longrightarrow> mp_obj lp' q = mp_obj lp q"
        "mp_live lp' = mp_live lp" "mp_inv lp' = mp_inv lp \<and> mp_size lp' = mp_size lp"
        by (auto simp: b_def)
      have hd': "side_head ((if ys = [] then set_side_head bk1 s (Some new) else bk1)
          \<lparr>ob_orders_at_price_pool := lp'\<rparr>) s = Some (hd (ys @ new # t # zs'))"
        using s head Cons by (cases ys) (auto simp: head1 b_def)
      show ?thesis
        using Cons eq lp' hd' s
        by (auto simp: level_linked_in_def levels_linked_def lp [symmetric] head1)
           (auto simp: bk1_def)
    qed
  qed
qed

section \<open>Taking a level out\<close>

definition level_taken_out :: "MEOrderBook \<Rightarrow> Side \<Rightarrow> Price \<Rightarrow> nat \<Rightarrow> nat list \<Rightarrow> MEOrderBook \<Rightarrow> bool" where
  "level_taken_out bk s price l ls bk' \<longleftrightarrow>
     (let lp = ob_orders_at_price_pool bk; lp' = ob_orders_at_price_pool bk' in
      levels_linked (mp_obj lp') (side_head bk' s) ls \<and>
      oap_strip \<circ> mp_obj lp' = oap_strip \<circ> mp_obj lp \<and>
      (\<forall>q. q \<notin> set (l # ls) \<longrightarrow> mp_obj lp' q = mp_obj lp q) \<and>
      mp_live lp' = mp_live lp - {l} \<and> mp_inv lp' \<and> mp_size lp' = mp_size lp \<and>
      ob_order_pool bk' = ob_order_pool bk \<and>
      ob_cid_oid_to_order bk' = ob_cid_oid_to_order bk \<and>
      ob_next_market_order_id bk' = ob_next_market_order_id bk \<and>
      (\<forall>t\<in>{BUY, SELL}. t \<noteq> s \<longrightarrow> side_head bk' t = side_head bk t) \<and>
      ob_price_orders_at_price bk' = (ob_price_orders_at_price bk)(priceToIndex price := None))"

lemma removeOrdersAtPrice_unlink_ok:
  assumes s: "s \<in> {BUY, SELL}" and lp: "lp = ob_orders_at_price_pool bk"
    and ring: "ring (oap_next_entry \<circ> mp_obj lp) (oap_prev_entry \<circ> mp_obj lp) (ys @ l # zs)"
    and more: "ys @ zs \<noteq> []" and head: "side_head bk s = Some (hd (ys @ l # zs))"
  shows "\<exists>lp' h. removeOrdersAtPrice_unlink bk s l =
       Inr ((if ys = [] then set_side_head bk s h else bk)\<lparr>ob_orders_at_price_pool := lp'\<rparr>) \<and>
     (ys = [] \<longrightarrow> h = Some (hd zs)) \<and>
     ring (oap_next_entry \<circ> mp_obj lp') (oap_prev_entry \<circ> mp_obj lp') (ys @ zs) \<and>
     oap_strip \<circ> mp_obj lp' = oap_strip \<circ> mp_obj lp \<and>
     (\<forall>q. q \<notin> set (ys @ l # zs) \<longrightarrow> mp_obj lp' q = mp_obj lp q) \<and>
     mp_live lp' = mp_live lp \<and> mp_inv lp' = mp_inv lp \<and> mp_size lp' = mp_size lp"
proof -
  have rot: "ring (oap_next_entry \<circ> mp_obj lp) (oap_prev_entry \<circ> mp_obj lp) (l # zs @ ys)"
    using ring ring_append_rotate [of _ _ ys "l # zs"] by simp
  obtain c cs where c: "zs @ ys = c # cs" using more by (cases "zs @ ys") auto
  define z where "z = last (c # cs)"
  have z: "oap_prev_entry (mp_obj lp l) = Some z" "oap_next_entry (mp_obj lp l) = Some c"
    using ring_hd_prev [OF rot] ring_next [where xs = "[]", simplified, OF rot [unfolded c]] c
    by (simp_all add: z_def)
  have inzs: "z \<in> set (ys @ zs)" "c \<in> set (ys @ zs)"
    using last_in_set [of "c # cs"] arg_cong [OF c, of set] by (simp_all add: z_def Un_commute)
  have d: "distinct (ys @ l # zs)" using ring by (rule ring_distinct)
  then have ne: "z \<noteq> l" "c \<noteq> l" using inzs by auto
  have hl: "hd (ys @ l # zs) = l \<longleftrightarrow> ys = []" using d by (cases ys) auto
  let ?lp2 = "oap_set_prev (oap_set_next lp z (Some c)) c (Some z)"
  let ?lp3 = "oap_set_prev (oap_set_next ?lp2 l None) l None"
  have eqs: "oap_next_entry (mp_obj (oap_set_next lp z (Some c)) l) = Some c"
    "oap_prev_entry (mp_obj (oap_set_next lp z (Some c)) l) = Some z"
    "oap_next_entry (mp_obj ?lp2 l) = Some c"
    using z ne by (simp_all add: oap_set_defs)
  have "removeOrdersAtPrice_unlink bk s l =
      Inr ((if ys = [] then set_side_head bk s (Some c) else bk)\<lparr>ob_orders_at_price_pool := ?lp3\<rparr>)"
    using z eqs head hl by (simp add: removeOrdersAtPrice_unlink_def lp [symmetric] Let_def)
  moreover have "ring (oap_next_entry \<circ> mp_obj ?lp3) (oap_prev_entry \<circ> mp_obj ?lp3) (ys @ zs)"
    using ring_remove [OF ring more, of z c] z ne d by simp
  moreover have "mp_obj ?lp3 q = mp_obj lp q" if "q \<notin> set (ys @ l # zs)" for q
    using that inzs by (auto simp: oap_set_defs)
  moreover have "ys = [] \<longrightarrow> c = hd zs" using c by auto
  ultimately show ?thesis by (intro exI [of _ ?lp3] exI [of _ "Some c"]) simp
qed

lemma removeOrdersAtPrice_ok:
  assumes s: "s \<in> {BUY, SELL}" and lp: "lp = ob_orders_at_price_pool bk"
    and linked: "levels_linked (mp_obj lp) (side_head bk s) (ys @ l # zs)"
    and table: "ob_price_orders_at_price bk (priceToIndex price) = Some l"
    and inv: "mp_inv lp" and live: "l \<in> mp_live lp"
  shows "\<exists>bk'. removeOrdersAtPrice bk s price = Inr bk' \<and>
           level_taken_out bk s price l (ys @ zs) bk'"
proof -
  have head: "side_head bk s = Some (hd (ys @ l # zs))"
    and ring: "ring (oap_next_entry \<circ> mp_obj lp) (oap_prev_entry \<circ> mp_obj lp) (ys @ l # zs)"
    using linked by (simp_all add: levels_linked_def)
  define step where "step = (if oap_next_entry (mp_obj lp l) = Some l
    then Inr (set_side_head bk s None) else removeOrdersAtPrice_unlink bk s l)"
  have rot: "ring (oap_next_entry \<circ> mp_obj lp) (oap_prev_entry \<circ> mp_obj lp) (l # zs @ ys)"
    using ring ring_append_rotate [of _ _ ys "l # zs"] by simp
  have self: "oap_next_entry (mp_obj lp l) = Some l \<longleftrightarrow> ys @ zs = []"
    using ring_self_next [OF rot] by auto
  have "\<exists>lp' h. step = Inr ((if ys = [] then set_side_head bk s h else bk)\<lparr>ob_orders_at_price_pool := lp'\<rparr>) \<and>
     (ys = [] \<longrightarrow> h = (if zs = [] then None else Some (hd zs))) \<and>
     (ys @ zs \<noteq> [] \<longrightarrow>
        ring (oap_next_entry \<circ> mp_obj lp') (oap_prev_entry \<circ> mp_obj lp') (ys @ zs)) \<and>
     oap_strip \<circ> mp_obj lp' = oap_strip \<circ> mp_obj lp \<and>
     (\<forall>q. q \<notin> set (ys @ l # zs) \<longrightarrow> mp_obj lp' q = mp_obj lp q) \<and>
     mp_live lp' = mp_live lp \<and> mp_inv lp' = mp_inv lp \<and> mp_size lp' = mp_size lp"
  proof (cases "ys @ zs = []")
    case True
    then show ?thesis using self
      by (intro exI [of _ lp] exI [of _ None]) (simp add: step_def lp set_side_head_def)
  next
    case False
    with removeOrdersAtPrice_unlink_ok [OF s lp ring False head] self show ?thesis
      by (simp add: step_def) blast
  qed
  then obtain lp1 h where st: "step =
        Inr ((if ys = [] then set_side_head bk s h else bk)\<lparr>ob_orders_at_price_pool := lp1\<rparr>)"
    and h: "ys = [] \<longrightarrow> h = (if zs = [] then None else Some (hd zs))"
    and r1: "ys @ zs \<noteq> [] \<longrightarrow>
        ring (oap_next_entry \<circ> mp_obj lp1) (oap_prev_entry \<circ> mp_obj lp1) (ys @ zs)"
    and strip1: "oap_strip \<circ> mp_obj lp1 = oap_strip \<circ> mp_obj lp"
    and out1: "\<forall>q. q \<notin> set (ys @ l # zs) \<longrightarrow> mp_obj lp1 q = mp_obj lp q"
    and pool1: "mp_live lp1 = mp_live lp" "mp_inv lp1 = mp_inv lp \<and> mp_size lp1 = mp_size lp"
    by blast
  from pool.dealloc_ok [of lp1 l] pool1 inv live obtain lp2 where
    lp2: "deallocate lp1 l = Inr lp2" "mp_inv lp2" "mp_live lp2 = mp_live lp - {l}" "mp_obj lp2 = mp_obj lp1"
    by auto
  have size2: "mp_size lp2 = mp_size lp" using deallocate_size [OF lp2(1)] pool1 by simp
  let ?bk1 = "if ys = [] then set_side_head bk s h else bk"
  let ?bk' = "?bk1\<lparr>ob_price_orders_at_price := (ob_price_orders_at_price bk)(priceToIndex price := None),
                ob_orders_at_price_pool := lp2\<rparr>"
  have "removeOrdersAtPrice bk s price = Inr ?bk'"
    using st lp2(1) table
    by (simp add: removeOrdersAtPrice_def getOrdersAtPrice_def lp [symmetric] step_def [symmetric])
  moreover have "level_taken_out bk s price l (ys @ zs) ?bk'"
    using h r1 strip1 out1 lp2 size2 s head lp
    by (auto simp: level_taken_out_def levels_linked_def hd_append)
  ultimately show ?thesis by blast
qed

section \<open>Orders within a level\<close>

text \<open>Appending an order to a level changes the order pool only, and there only links.\<close>

lemma addOrder_link_ok:
  assumes op: "op = ob_order_pool bk"
    and first: "oap_first_me_order (mp_obj (ob_orders_at_price_pool bk) l) = Some a"
    and ring: "ring (me_next_order \<circ> mp_obj op) (me_prev_order \<circ> mp_obj op) (a # xs)"
    and new: "p \<notin> set (a # xs)"
  shows "\<exists>op'. addOrder_link bk l p = Inr (bk\<lparr>ob_order_pool := op'\<rparr>) \<and>
     ring (me_next_order \<circ> mp_obj op') (me_prev_order \<circ> mp_obj op') (a # xs @ [p]) \<and>
     me_strip \<circ> mp_obj op' = me_strip \<circ> mp_obj op \<and>
     (\<forall>q. q \<notin> set (a # xs @ [p]) \<longrightarrow> mp_obj op' q = mp_obj op q) \<and>
     mp_live op' = mp_live op \<and> mp_inv op' = mp_inv op \<and> mp_size op' = mp_size op"
proof -
  define z where "z = last (a # xs)"
  have z: "me_prev_order (mp_obj op a) = Some z"
    using ring_hd_prev [OF ring] by (simp add: z_def)
  have zin: "z \<in> set (a # xs)" using last_in_set [of "a # xs"] by (simp add: z_def)
  then have ne: "z \<noteq> p" "a \<noteq> p" using new by auto
  let ?op4 = "me_set_prev (me_set_next (me_set_prev (me_set_next op z (Some p)) p (Some z)) p (Some a))
                a (Some p)"
  have "me_prev_order (mp_obj (me_set_next op z (Some p)) a) = Some z"
    using z by (auto simp: me_set_defs)
  then have "addOrder_link bk l p = Inr (bk\<lparr>ob_order_pool := ?op4\<rparr>)"
    using first z by (simp add: addOrder_link_def op [symmetric] Let_def)
  moreover have "ring (me_next_order \<circ> mp_obj ?op4) (me_prev_order \<circ> mp_obj ?op4) (a # xs @ [p])"
    using ring_snoc [OF ring new z_def] by simp
  moreover have "mp_obj ?op4 q = mp_obj op q" if "q \<notin> set (a # xs @ [p])" for q
    using that zin by (auto simp: me_set_defs)
  ultimately show ?thesis by (intro exI [of _ ?op4]) simp
qed

text \<open>
  Unlinking an order from a level with other orders changes the links of the order pool and, when
  it is the first one, the level's pointer to it.
\<close>

lemma removeOrder_unlink_ok:
  assumes op: "op = ob_order_pool bk" and lp: "lp = ob_orders_at_price_pool bk"
    and first: "oap_first_me_order (mp_obj lp l) = Some (hd (xs @ p # ys))"
    and ring: "ring (me_next_order \<circ> mp_obj op) (me_prev_order \<circ> mp_obj op) (xs @ p # ys)"
    and more: "xs @ ys \<noteq> []"
  shows "\<exists>op' lp'. removeOrder_unlink bk (Some l) p =
       Inr (bk\<lparr>ob_order_pool := op', ob_orders_at_price_pool := lp'\<rparr>) \<and>
     ring (me_next_order \<circ> mp_obj op') (me_prev_order \<circ> mp_obj op') (xs @ ys) \<and>
     me_strip \<circ> mp_obj op' = me_strip \<circ> mp_obj op \<and>
     (\<forall>q. q \<notin> set (xs @ p # ys) \<longrightarrow> mp_obj op' q = mp_obj op q) \<and>
     mp_live op' = mp_live op \<and> mp_inv op' = mp_inv op \<and> mp_size op' = mp_size op \<and>
     mp_obj lp' = (mp_obj lp)(l := (mp_obj lp l)\<lparr>oap_first_me_order := Some (hd (xs @ ys))\<rparr>) \<and>
     mp_live lp' = mp_live lp \<and> mp_inv lp' = mp_inv lp \<and> mp_size lp' = mp_size lp"
proof -
  have rot: "ring (me_next_order \<circ> mp_obj op) (me_prev_order \<circ> mp_obj op) (p # ys @ xs)"
    using ring ring_append_rotate [of _ _ xs "p # ys"] by simp
  obtain c cs where c: "ys @ xs = c # cs" using more by (cases "ys @ xs") auto
  define z where "z = last (c # cs)"
  have z: "me_prev_order (mp_obj op p) = Some z" "me_next_order (mp_obj op p) = Some c"
    using ring_hd_prev [OF rot] ring_next [where xs = "[]", simplified, OF rot [unfolded c]] c
    by (simp_all add: z_def)
  have inzs: "z \<in> set (xs @ ys)" "c \<in> set (xs @ ys)"
    using last_in_set [of "c # cs"] arg_cong [OF c, of set] by (simp_all add: z_def Un_commute)
  have d: "distinct (xs @ p # ys)" using ring by (rule ring_distinct)
  then have ne: "z \<noteq> p" "c \<noteq> p" using inzs by auto
  have hp: "hd (xs @ p # ys) = p \<longleftrightarrow> xs = []" using d by (cases xs) auto
  let ?op2 = "me_set_prev (me_set_next op z (Some c)) c (Some z)"
  let ?op3 = "me_set_prev (me_set_next ?op2 p None) p None"
  let ?lp' = "if xs = [] then oap_set_first lp l (Some c) else lp"
  have "removeOrder_unlink bk (Some l) p =
      Inr (bk\<lparr>ob_order_pool := ?op3, ob_orders_at_price_pool := ?lp'\<rparr>)"
    using z first hp by (simp add: removeOrder_unlink_def op [symmetric] lp [symmetric] Let_def)
  moreover have "ring (me_next_order \<circ> mp_obj ?op3) (me_prev_order \<circ> mp_obj ?op3) (xs @ ys)"
    using ring_remove [OF ring more, of z c] z ne d by simp
  moreover have "mp_obj ?op3 q = mp_obj op q" if "q \<notin> set (xs @ p # ys)" for q
    using that inzs by (auto simp: me_set_defs)
  moreover have "mp_obj ?lp' = (mp_obj lp)(l := (mp_obj lp l)\<lparr>oap_first_me_order := Some (hd (xs @ ys))\<rparr>)"
    using first c by (cases xs) (auto simp: oap_set_defs)
  moreover have "mp_live ?lp' = mp_live lp" "mp_inv ?lp' = mp_inv lp \<and> mp_size ?lp' = mp_size lp"
    by (simp_all add: oap_set_defs)
  ultimately show ?thesis by (intro exI [of _ ?op3] exI [of _ ?lp']) simp
qed

end
