(* ===== verification/ME_Book_Ops.thy ===== *)
theory ME_Book_Ops
  imports ME_Book_Inv
begin

text \<open>
  The operations of the matching engine's book keep the invariant of \<open>ME_Book_Inv\<close>: adding an order
  puts it behind every order of its side that is at least as good and before every worse one,
  removing an order takes exactly that one out.
\<close>

section \<open>What the invariant gives\<close>

lemma side_ok_frame:
  assumes "side_ok lo oo h t L" and "\<forall>q\<in>set (map fst L). lo' q = lo q"
    and "\<forall>q\<in>set (side_ptrs L). oo' q = oo q"
  shows "side_ok lo' oo' h t L"
proof -
  have "ring (oap_next_entry \<circ> lo') (oap_prev_entry \<circ> lo') (map fst L) =
      ring (oap_next_entry \<circ> lo) (oap_prev_entry \<circ> lo) (map fst L)"
    by (rule ring_cong) (use assms(2) in auto)
  then have "levels_linked lo' h (map fst L)"
    using assms(1) by (simp add: side_ok_def levels_linked_def)
  moreover have "levels_sorted lo' t (map fst L)"
    using assms(1,2) unfolding side_ok_def levels_sorted_def
    by (metis (mono_tags, lifting) sorted_wrt_mono_rel)
  moreover have "level_ok lo' oo' t lv" if lv: "lv \<in> set L" for lv
  proof -
    have "\<forall>q\<in>set (snd lv). oo' q = oo q" using assms(3) lv by (auto simp: side_ptrs_def)
    moreover have "lo' (fst lv) = lo (fst lv)" using assms(2) lv by auto
    moreover have "level_ok lo oo t lv" using assms(1) lv by (simp add: side_ok_def)
    ultimately show ?thesis
      using ring_cong [of "snd lv" "me_next_order \<circ> oo'" "me_next_order \<circ> oo"
          "me_prev_order \<circ> oo'" "me_prev_order \<circ> oo"]
      by (simp add: level_ok_def)
  qed
  ultimately show ?thesis by (simp add: side_ok_def)
qed

lemma level_ok_frame:
  assumes "level_ok lo oo s lv" and "oap_strip (lo' (fst lv)) = oap_strip (lo (fst lv))"
    and "\<forall>q\<in>set (snd lv). oo' q = oo q"
  shows "level_ok lo' oo' s lv"
proof -
  have "oap_side (lo' (fst lv)) = oap_side (lo (fst lv))"
    "oap_price (lo' (fst lv)) = oap_price (lo (fst lv))"
    "oap_first_me_order (lo' (fst lv)) = oap_first_me_order (lo (fst lv))"
    using assms(2) by (metis oap_strip_sel)+
  then show ?thesis
    using assms(1,3) ring_cong [of "snd lv" "me_next_order \<circ> oo'" "me_next_order \<circ> oo"
        "me_prev_order \<circ> oo'" "me_prev_order \<circ> oo"]
    by (simp add: level_ok_def)
qed

lemma levels_sorted_cong:
  "(\<And>l. oap_price (lo' l) = oap_price (lo l)) \<Longrightarrow> levels_sorted lo' s ls = levels_sorted lo s ls"
  by (simp add: levels_sorted_def)

lemma price_table_remove:
  assumes "price_table_ok lo tbl ls" and "l \<in> ls"
    and "\<And>m. oap_price (lo' m) = oap_price (lo m)" and "i = priceToIndex (oap_price (lo l))"
  shows "price_table_ok lo' (tbl(i := None)) (ls - {l})"
  using assms by (auto simp: price_table_ok_def) (metis option.inject priceToIndex_less)+

lemma price_table_add:
  assumes "price_table_ok lo tbl ls" and "i = priceToIndex (oap_price (lo' l))" and "tbl i = None"
    and "\<And>m. m \<in> ls \<Longrightarrow> oap_price (lo' m) = oap_price (lo m)" and "l \<notin> ls"
  shows "price_table_ok lo' (tbl(i := Some l)) (insert l ls)"
  using assms by (auto simp: price_table_ok_def) (metis option.distinct(1) priceToIndex_less)+

lemma order_table_remove:
  assumes "order_table_ok oo tbl ps" and "p \<in> ps"
    and "\<And>q. me_client_id (oo' q) = me_client_id (oo q)"
    and "\<And>q. me_client_order_id (oo' q) = me_client_order_id (oo q)"
    and "c = unat (me_client_id (oo p))" and "i = unat (me_client_order_id (oo p))"
  shows "order_table_ok oo' (tbl(c := (tbl c)(i := None))) (ps - {p})"
  using assms by (auto simp: order_table_ok_def) (metis option.inject)+

lemma order_table_add:
  assumes "order_table_ok oo tbl ps" and "p \<notin> ps"
    and "\<And>q. q \<in> ps \<Longrightarrow> me_client_id (oo' q) = me_client_id (oo q)"
    and "\<And>q. q \<in> ps \<Longrightarrow> me_client_order_id (oo' q) = me_client_order_id (oo q)"
    and "c = unat (me_client_id (oo' p))" and "i = unat (me_client_order_id (oo' p))"
    and "c < ME_MAX_NUM_CLIENTS" "i < ME_MAX_ORDER_IDS" and "tbl c i = None"
  shows "order_table_ok oo' (tbl(c := (tbl c)(i := Some p))) (insert p ps)"
  using assms by (auto simp: order_table_ok_def) (metis option.distinct(1))+

text \<open>The pointers of the book at a side, read off the invariant.\<close>

lemma book_invD:
  assumes "book_inv X bk sh"
  shows "pools_ok X (ob_orders_at_price_pool bk) (ob_order_pool bk) sh"
    and "s \<in> {BUY, SELL} \<Longrightarrow>
      side_ok (mp_obj (ob_orders_at_price_pool bk)) (mp_obj (ob_order_pool bk)) (side_head bk s) s (sh s)"
    and "price_table_ok (mp_obj (ob_orders_at_price_pool bk)) (ob_price_orders_at_price bk) (set (level_ptrs sh))"
    and "order_table_ok (mp_obj (ob_order_pool bk)) (ob_cid_oid_to_order bk) (set (order_ptrs sh))"
  using assms by (auto simp: book_inv_def Let_def)

lemma level_ptrs_iff: "l \<in> set (level_ptrs sh) \<longleftrightarrow> (\<exists>s\<in>{BUY, SELL}. l \<in> fst ` set (sh s))"
  by (auto simp: level_ptrs_def)

lemma order_ptrs_iff: "p \<in> set (order_ptrs sh) \<longleftrightarrow> (\<exists>s\<in>{BUY, SELL}. p \<in> set (side_ptrs (sh s)))"
  by (auto simp: order_ptrs_def)

lemma side_ptrs_simps [simp]:
  "side_ptrs [] = []" "side_ptrs (lv # L) = snd lv @ side_ptrs L"
  "side_ptrs (L1 @ L2) = side_ptrs L1 @ side_ptrs L2"
  by (simp_all add: side_ptrs_def)

lemma sh_upd_ptrs:
  assumes "s \<in> {BUY, SELL}"
  shows "set (level_ptrs (sh(s := L))) = set (map fst L) \<union> (\<Union>t\<in>{BUY, SELL} - {s}. fst ` set (sh t))"
    and "set (order_ptrs (sh(s := L))) =
      set (side_ptrs L) \<union> (\<Union>t\<in>{BUY, SELL} - {s}. set (side_ptrs (sh t)))"
  using assms by (auto simp: level_ptrs_def order_ptrs_def)

definition opp :: "Side \<Rightarrow> Side" where
  "opp s = (if s = BUY then SELL else BUY)"

lemma opp_simps [simp]:
  "opp BUY = SELL" "opp SELL = BUY" "opp s \<in> {BUY, SELL}"
  by (simp_all add: opp_def)

lemma opp_cases: "s \<in> {BUY, SELL} \<Longrightarrow> t \<in> {BUY, SELL} \<longleftrightarrow> t = s \<or> t = opp s"
  by (auto simp: opp_def)

lemma opp_neq: "s \<in> {BUY, SELL} \<Longrightarrow> opp s \<noteq> s" "s \<in> {BUY, SELL} \<Longrightarrow> opp (opp s) = s"
  by (auto simp: opp_def)

text \<open>The pointers of the two sides are apart.\<close>

lemma ptrs_split:
  assumes "s \<in> {BUY, SELL}"
  shows "distinct (level_ptrs sh) \<longleftrightarrow> distinct (map fst (sh s)) \<and> distinct (map fst (sh (opp s))) \<and>
      fst ` set (sh s) \<inter> fst ` set (sh (opp s)) = {}"
    and "distinct (order_ptrs sh) \<longleftrightarrow> distinct (side_ptrs (sh s)) \<and> distinct (side_ptrs (sh (opp s))) \<and>
      set (side_ptrs (sh s)) \<inter> set (side_ptrs (sh (opp s))) = {}"
    and "set (level_ptrs sh) = fst ` set (sh s) \<union> fst ` set (sh (opp s))"
    and "set (order_ptrs sh) = set (side_ptrs (sh s)) \<union> set (side_ptrs (sh (opp s)))"
  using assms by (auto simp: level_ptrs_def order_ptrs_def opp_def)

lemma book_invI:
  assumes "s \<in> {BUY, SELL}"
    and "pools_ok X (ob_orders_at_price_pool bk) (ob_order_pool bk) sh"
    and "side_ok (mp_obj (ob_orders_at_price_pool bk)) (mp_obj (ob_order_pool bk)) (side_head bk s) s (sh s)"
    and "side_ok (mp_obj (ob_orders_at_price_pool bk)) (mp_obj (ob_order_pool bk))
           (side_head bk (opp s)) (opp s) (sh (opp s))"
    and "price_table_ok (mp_obj (ob_orders_at_price_pool bk)) (ob_price_orders_at_price bk) (set (level_ptrs sh))"
    and "order_table_ok (mp_obj (ob_order_pool bk)) (ob_cid_oid_to_order bk) (set (order_ptrs sh))"
  shows "book_inv X bk sh"
  using assms by (auto simp: book_inv_def Let_def opp_def split: if_splits)

text \<open>Finding an order, and the level of a price, in the shape.\<close>

lemma side_ptrs_split:
  assumes "p \<in> set (side_ptrs L)"
  obtains L1 l xs ys L2 where "L = L1 @ (l, xs @ p # ys) # L2"
proof -
  from assms obtain lv where lv: "lv \<in> set L" "p \<in> set (snd lv)" by (auto simp: side_ptrs_def)
  from split_list [OF lv(1)] split_list [OF lv(2)] obtain L1 L2 xs ys
    where "L = L1 @ lv # L2" "snd lv = xs @ p # ys" by blast
  with that show ?thesis by (metis prod.collapse)
qed

lemma book_level_lookup:
  assumes "book_inv X bk sh" and "s \<in> {BUY, SELL}" and "lv \<in> set (sh s)"
  shows "ob_price_orders_at_price bk
           (priceToIndex (oap_price (mp_obj (ob_orders_at_price_pool bk) (fst lv)))) = Some (fst lv)"
proof -
  have "fst lv \<in> set (level_ptrs sh)" using assms(2,3) by (auto simp: level_ptrs_iff)
  with book_invD(3) [OF assms(1)] show ?thesis by (simp add: price_table_ok_def)
qed

lemma level_taken_outD:
  assumes "level_taken_out bk s price l ls bk'"
  shows "levels_linked (mp_obj (ob_orders_at_price_pool bk')) (side_head bk' s) ls"
    and "oap_strip \<circ> mp_obj (ob_orders_at_price_pool bk') = oap_strip \<circ> mp_obj (ob_orders_at_price_pool bk)"
    and "q \<notin> set (l # ls) \<Longrightarrow>
      mp_obj (ob_orders_at_price_pool bk') q = mp_obj (ob_orders_at_price_pool bk) q"
    and "mp_live (ob_orders_at_price_pool bk') = mp_live (ob_orders_at_price_pool bk) - {l}"
    and "mp_inv (ob_orders_at_price_pool bk')"
    and "mp_size (ob_orders_at_price_pool bk') = mp_size (ob_orders_at_price_pool bk)"
    and "ob_order_pool bk' = ob_order_pool bk" and "ob_cid_oid_to_order bk' = ob_cid_oid_to_order bk"
    and "ob_next_market_order_id bk' = ob_next_market_order_id bk"
    and "s \<in> {BUY, SELL} \<Longrightarrow> side_head bk' (opp s) = side_head bk (opp s)"
    and "ob_price_orders_at_price bk' = (ob_price_orders_at_price bk)(priceToIndex price := None)"
  using assms by (auto simp: level_taken_out_def Let_def opp_def)

section \<open>Removing an order\<close>

text \<open>The statements of \<^verbatim>\<open>removeOrder\<close> after the order has been unlinked.\<close>

lemma removeOrder_finish:
  assumes table: "order_table_ok (mp_obj (ob_order_pool bk)) (ob_cid_oid_to_order bk) ps" "p \<in> ps"
    and ord: "ord = mp_obj (ob_order_pool bk) p"
    and step: "(if me_prev_order ord = Some p then removeOrdersAtPrice bk (me_side ord) (me_price ord)
        else removeOrder_unlink bk (ob_price_orders_at_price bk (priceToIndex (me_price ord))) p) = Inr bk1"
    and tbl1: "ob_cid_oid_to_order bk1 = ob_cid_oid_to_order bk"
    and pool1: "mp_inv (ob_order_pool bk1)" "p \<in> mp_live (ob_order_pool bk1)"
    and c: "c = unat (me_client_id ord)" "i = unat (me_client_order_id ord)"
  shows "\<exists>op. removeOrder bk p = Inr (bk1\<lparr>ob_cid_oid_to_order := (ob_cid_oid_to_order bk)
       (c := (ob_cid_oid_to_order bk c)(i := None)), ob_order_pool := op\<rparr>) \<and>
     mp_inv op \<and> mp_live op = mp_live (ob_order_pool bk1) - {p} \<and>
     mp_obj op = mp_obj (ob_order_pool bk1) \<and> mp_size op = mp_size (ob_order_pool bk1)"
proof -
  have bounds: "c < ME_MAX_NUM_CLIENTS" "i < ME_MAX_ORDER_IDS"
    using table ord c by (auto simp: order_table_ok_def)
  from pool.dealloc_ok [OF pool1] obtain op where op: "deallocate (ob_order_pool bk1) p = Inr op"
    "mp_inv op" "mp_live op = mp_live (ob_order_pool bk1) - {p}" "mp_obj op = mp_obj (ob_order_pool bk1)"
    by blast
  moreover have "mp_size op = mp_size (ob_order_pool bk1)" using op(1) by (rule deallocate_size)
  moreover have "removeOrder bk p = Inr (bk1\<lparr>ob_cid_oid_to_order := (ob_cid_oid_to_order bk)
      (c := (ob_cid_oid_to_order bk c)(i := None)), ob_order_pool := op\<rparr>)"
    using bounds step op(1)
    by (simp add: removeOrder_def ord [symmetric] getOrdersAtPrice_def set_cid_oid_def tbl1 c [symmetric] Let_def)
  ultimately show ?thesis by blast
qed

text \<open>What removing order \<open>p\<close> of side \<open>s\<close> leaves alone.\<close>

definition same_but_links :: "MEOrderBook \<Rightarrow> MEOrderBook \<Rightarrow> bool" where
  "same_but_links bk bk' \<longleftrightarrow>
     me_strip \<circ> mp_obj (ob_order_pool bk') = me_strip \<circ> mp_obj (ob_order_pool bk) \<and>
     mp_size (ob_order_pool bk') = mp_size (ob_order_pool bk) \<and>
     mp_size (ob_orders_at_price_pool bk') = mp_size (ob_orders_at_price_pool bk) \<and>
     ob_next_market_order_id bk' = ob_next_market_order_id bk"

lemma removeOrder_last:
  assumes inv: "book_inv X bk sh" and s: "s \<in> {BUY, SELL}" and sh: "sh s = L1 @ (l, [p]) # L2"
  shows "\<exists>bk'. removeOrder bk p = Inr bk' \<and> book_inv X bk' (sh(s := L1 @ L2)) \<and> same_but_links bk bk'"
proof -
  let ?lp = "ob_orders_at_price_pool bk" and ?op = "ob_order_pool bk"
  define ord where "ord = mp_obj ?op p"
  have so: "side_ok (mp_obj ?lp) (mp_obj ?op) (side_head bk s) s (L1 @ (l, [p]) # L2)"
    using book_invD(2) [OF inv s] sh by simp
  then have lvl: "level_ok (mp_obj ?lp) (mp_obj ?op) s (l, [p])" by (simp add: side_ok_def)
  then have ord_facts: "me_side ord = s" "me_price ord = oap_price (mp_obj ?lp l)"
    "me_prev_order ord = Some p"
    by (simp_all add: level_ok_def ord_def ring_single)
  have pools: "mp_inv ?lp" "mp_inv ?op" "distinct (level_ptrs sh)" "distinct (order_ptrs sh)"
    "mp_live ?lp = set (level_ptrs sh)" "mp_live ?op = set (order_ptrs sh) \<union> X"
    "X \<inter> set (order_ptrs sh) = {}"
    using book_invD(1) [OF inv] by (simp_all add: pools_ok_def)
  note ptrs = ptrs_split [OF s, of sh] ptrs_split [OF s, of "sh(s := L1 @ L2)"]
  have live: "l \<in> mp_live ?lp" "p \<in> set (order_ptrs sh)"
    using pools(5) ptrs(3,4) sh by auto
  from removeOrdersAtPrice_ok [OF s refl, of bk "map fst L1" l "map fst L2" "me_price ord"]
  obtain bk1 where bk1: "removeOrdersAtPrice bk s (me_price ord) = Inr bk1"
    "level_taken_out bk s (me_price ord) l (map fst L1 @ map fst L2) bk1"
    using so pools live book_level_lookup [OF inv s, of "(l, [p])"] sh ord_facts
    by (auto simp: side_ok_def)
  note out = level_taken_outD [OF bk1(2)]
  have "p \<in> mp_live (ob_order_pool bk1)" "mp_inv (ob_order_pool bk1)"
    using out(7) pools live by simp_all
  from removeOrder_finish [OF book_invD(4) [OF inv] live(2) ord_def _ out(8) this(2,1) refl refl] obtain op where
    op: "removeOrder bk p = Inr (bk1\<lparr>ob_cid_oid_to_order := (ob_cid_oid_to_order bk)
      (unat (me_client_id ord) := (ob_cid_oid_to_order bk (unat (me_client_id ord)))
        (unat (me_client_order_id ord) := None)), ob_order_pool := op\<rparr>)"
    "mp_inv op" "mp_live op = mp_live ?op - {p}" "mp_obj op = mp_obj ?op" "mp_size op = mp_size ?op"
    using bk1(1) ord_facts out(7) by auto
  let ?bk' = "bk1\<lparr>ob_cid_oid_to_order := (ob_cid_oid_to_order bk)
      (unat (me_client_id ord) := (ob_cid_oid_to_order bk (unat (me_client_id ord)))
        (unat (me_client_order_id ord) := None)), ob_order_pool := op\<rparr>"
    and ?sh' = "sh(s := L1 @ L2)" and ?lp1 = "ob_orders_at_price_pool bk1"
  note price1 = oap_strip_fields(2) [OF out(2)]
  have notin: "l \<notin> fst ` set (L1 @ L2)" "l \<notin> fst ` set (sh (opp s))"
    "p \<notin> set (side_ptrs (L1 @ L2))" "p \<notin> set (side_ptrs (sh (opp s)))"
    using pools(3,4) ptrs(1,2) sh by auto
  have far: "mp_obj ?lp1 q = mp_obj ?lp q" if "q \<in> fst ` set (sh (opp s))" for q
    by (rule out(3)) (use that pools(3) ptrs(1) sh in auto)
  have sets: "set (level_ptrs ?sh') = set (level_ptrs sh) - {l}"
    "set (order_ptrs ?sh') = set (order_ptrs sh) - {p}"
    using notin ptrs(3,4,7,8) sh opp_neq [OF s] by auto
  have "book_inv X ?bk' ?sh'"
  proof (rule book_invI [OF s])
    show "pools_ok X (ob_orders_at_price_pool ?bk') (ob_order_pool ?bk') ?sh'"
      using pools out(4,5) op(2,3) sets ptrs(1,2,5,6) sh opp_neq [OF s] live
      by (auto simp: pools_ok_def)
    show "side_ok (mp_obj (ob_orders_at_price_pool ?bk')) (mp_obj (ob_order_pool ?bk'))
        (side_head ?bk' s) s (?sh' s)"
    proof -
      have "levels_sorted (mp_obj ?lp) s (map fst (L1 @ (l, [p]) # L2))"
        using so by (simp add: side_ok_def)
      then have "levels_sorted (mp_obj ?lp1) s (map fst (L1 @ L2))"
        by (simp add: levels_sorted_def price1 sorted_wrt_append)
      moreover have "level_ok (mp_obj ?lp1) (mp_obj op) s lv" if "lv \<in> set (L1 @ L2)" for lv
        by (rule level_ok_frame [of "mp_obj ?lp" "mp_obj ?op"])
           (use so that op(4) fun_cong [OF out(2)] in \<open>auto simp: side_ok_def\<close>)
      ultimately show ?thesis using out(1) by (auto simp: side_ok_def)
    qed
    show "side_ok (mp_obj (ob_orders_at_price_pool ?bk')) (mp_obj (ob_order_pool ?bk'))
        (side_head ?bk' (opp s)) (opp s) (?sh' (opp s))"
      using side_ok_frame [OF book_invD(2) [OF inv opp_simps(3)], of s "mp_obj ?lp1" "mp_obj op"]
        far out(10) [OF s] op(4) opp_neq [OF s] by simp
    show "price_table_ok (mp_obj (ob_orders_at_price_pool ?bk')) (ob_price_orders_at_price ?bk')
        (set (level_ptrs ?sh'))"
      using price_table_remove [OF book_invD(3) [OF inv], of l "mp_obj ?lp1"] live pools(5) price1
        out(11) ord_facts sets by simp
    show "order_table_ok (mp_obj (ob_order_pool ?bk')) (ob_cid_oid_to_order ?bk') (set (order_ptrs ?sh'))"
      using order_table_remove [OF book_invD(4) [OF inv] live(2), of "mp_obj op"] op(4) sets ord_def by simp
  qed
  moreover have "same_but_links bk ?bk'"
    using op(4,5) out(6,9) by (simp add: same_but_links_def)
  ultimately show ?thesis using op(1) by blast
qed

lemma removeOrder_more:
  assumes inv: "book_inv X bk sh" and s: "s \<in> {BUY, SELL}"
    and sh: "sh s = L1 @ (l, xs @ p # ys) # L2" and more: "xs @ ys \<noteq> []"
  shows "\<exists>bk'. removeOrder bk p = Inr bk' \<and> book_inv X bk' (sh(s := L1 @ (l, xs @ ys) # L2)) \<and>
           same_but_links bk bk'"
proof -
  let ?lp = "ob_orders_at_price_pool bk" and ?op = "ob_order_pool bk"
    and ?sh' = "sh(s := L1 @ (l, xs @ ys) # L2)"
  define ord where "ord = mp_obj ?op p"
  have so: "side_ok (mp_obj ?lp) (mp_obj ?op) (side_head bk s) s (L1 @ (l, xs @ p # ys) # L2)"
    using book_invD(2) [OF inv s] sh by simp
  then have lvl: "level_ok (mp_obj ?lp) (mp_obj ?op) s (l, xs @ p # ys)" by (simp add: side_ok_def)
  then have ring: "ring (me_next_order \<circ> mp_obj ?op) (me_prev_order \<circ> mp_obj ?op) (xs @ p # ys)"
    and first: "oap_first_me_order (mp_obj ?lp l) = Some (hd (xs @ p # ys))"
    and price: "me_price ord = oap_price (mp_obj ?lp l)"
    by (simp_all add: level_ok_def ord_def)
  have prev: "me_prev_order ord \<noteq> Some p"
    using ring_self_prev [OF ring] more by (simp add: ord_def)
  have pools: "mp_inv ?lp" "mp_inv ?op" "distinct (level_ptrs sh)" "distinct (order_ptrs sh)"
    "mp_live ?lp = set (level_ptrs sh)" "mp_live ?op = set (order_ptrs sh) \<union> X"
    "X \<inter> set (order_ptrs sh) = {}"
    using book_invD(1) [OF inv] by (simp_all add: pools_ok_def)
  note ptrs = ptrs_split [OF s, of sh] ptrs_split [OF s, of ?sh']
  have live: "p \<in> set (order_ptrs sh)" using ptrs(4) sh by auto
  from removeOrder_unlink_ok [OF refl refl first ring more] obtain op1 lp1 where
    bk1: "removeOrder_unlink bk (Some l) p = Inr (bk\<lparr>ob_order_pool := op1, ob_orders_at_price_pool := lp1\<rparr>)"
    and ring1: "ring (me_next_order \<circ> mp_obj op1) (me_prev_order \<circ> mp_obj op1) (xs @ ys)"
    and strip1: "me_strip \<circ> mp_obj op1 = me_strip \<circ> mp_obj ?op"
    and out1: "\<forall>q. q \<notin> set (xs @ p # ys) \<longrightarrow> mp_obj op1 q = mp_obj ?op q"
    and pool1: "mp_live op1 = mp_live ?op" "mp_inv op1 = mp_inv ?op" "mp_size op1 = mp_size ?op"
    and lobj1: "mp_obj lp1 = (mp_obj ?lp)(l := (mp_obj ?lp l)\<lparr>oap_first_me_order := Some (hd (xs @ ys))\<rparr>)"
    and lpool1: "mp_live lp1 = mp_live ?lp" "mp_inv lp1 = mp_inv ?lp" "mp_size lp1 = mp_size ?lp"
    by blast
  let ?bk1 = "bk\<lparr>ob_order_pool := op1, ob_orders_at_price_pool := lp1\<rparr>"
  have "ob_price_orders_at_price bk (priceToIndex (me_price ord)) = Some l"
    using book_level_lookup [OF inv s, of "(l, xs @ p # ys)"] sh price by simp
  with bk1 prev have step: "(if me_prev_order ord = Some p
      then removeOrdersAtPrice bk (me_side ord) (me_price ord)
      else removeOrder_unlink bk (ob_price_orders_at_price bk (priceToIndex (me_price ord))) p) = Inr ?bk1"
    by simp
  have "p \<in> mp_live (ob_order_pool ?bk1)" "mp_inv (ob_order_pool ?bk1)"
    "ob_cid_oid_to_order ?bk1 = ob_cid_oid_to_order bk"
    using pool1 pools live by simp_all
  from removeOrder_finish [OF book_invD(4) [OF inv] live ord_def step this(3,2,1) refl refl] obtain op where
    op: "removeOrder bk p = Inr (?bk1\<lparr>ob_cid_oid_to_order := (ob_cid_oid_to_order bk)
      (unat (me_client_id ord) := (ob_cid_oid_to_order bk (unat (me_client_id ord)))
        (unat (me_client_order_id ord) := None)), ob_order_pool := op\<rparr>)"
    "mp_inv op" "mp_live op = mp_live ?op - {p}" "mp_obj op = mp_obj op1" "mp_size op = mp_size ?op"
    using pool1 by auto
  let ?bk' = "?bk1\<lparr>ob_cid_oid_to_order := (ob_cid_oid_to_order bk)
      (unat (me_client_id ord) := (ob_cid_oid_to_order bk (unat (me_client_id ord)))
        (unat (me_client_order_id ord) := None)), ob_order_pool := op\<rparr>"
  have l1: "oap_next_entry \<circ> mp_obj lp1 = oap_next_entry \<circ> mp_obj ?lp"
    "oap_prev_entry \<circ> mp_obj lp1 = oap_prev_entry \<circ> mp_obj ?lp"
    "oap_price (mp_obj lp1 m) = oap_price (mp_obj ?lp m)"
    "oap_side (mp_obj lp1 m) = oap_side (mp_obj ?lp m)" for m
    by (auto simp: lobj1)
  note flds1 = me_strip_fields [OF strip1]
  have notin: "l \<notin> fst ` set (L1 @ L2)" "l \<notin> fst ` set (sh (opp s))"
    "set (xs @ p # ys) \<inter> set (side_ptrs (L1 @ L2)) = {}"
    "set (xs @ p # ys) \<inter> set (side_ptrs (sh (opp s))) = {}" "p \<notin> set (xs @ ys)"
    using pools(3,4) ptrs(1,2) sh by auto
  have far: "mp_obj op q = mp_obj ?op q"
    if "q \<in> set (side_ptrs (L1 @ L2)) \<union> set (side_ptrs (sh (opp s)))" for q
    using out1 notin(3,4) that op(4) by (metis UnE disjoint_iff)
  have sets: "set (level_ptrs ?sh') = set (level_ptrs sh)"
    "set (order_ptrs ?sh') = set (order_ptrs sh) - {p}"
    using notin ptrs(3,4,7,8) sh opp_neq [OF s] by auto
  have "book_inv X ?bk' ?sh'"
  proof (rule book_invI [OF s])
    show "pools_ok X (ob_orders_at_price_pool ?bk') (ob_order_pool ?bk') ?sh'"
      using pools lpool1 op(2,3) sets ptrs(1,2,5,6) sh opp_neq [OF s] live
      by (auto simp: pools_ok_def)
    show "side_ok (mp_obj (ob_orders_at_price_pool ?bk')) (mp_obj (ob_order_pool ?bk'))
        (side_head ?bk' s) s (?sh' s)"
    proof -
      have "level_ok (mp_obj lp1) (mp_obj op) s (l, xs @ ys)"
        using lvl ring1 flds1 by (auto simp: level_ok_def lobj1 op(4))
      moreover have "level_ok (mp_obj lp1) (mp_obj op) s lv" if "lv \<in> set (L1 @ L2)" for lv
      proof (rule level_ok_frame [of "mp_obj ?lp" "mp_obj ?op"])
        show "level_ok (mp_obj ?lp) (mp_obj ?op) s lv" using so that by (auto simp: side_ok_def)
        show "oap_strip (mp_obj lp1 (fst lv)) = oap_strip (mp_obj ?lp (fst lv))"
          using notin(1) that by (auto simp: lobj1)
        have "q \<in> set (side_ptrs (L1 @ L2))" if "q \<in> set (snd lv)" for q
          using that \<open>lv \<in> set (L1 @ L2)\<close> by (auto simp: side_ptrs_def)
        then show "\<forall>q\<in>set (snd lv). mp_obj op q = mp_obj ?op q" using far by blast
      qed
      moreover have "levels_linked (mp_obj lp1) (side_head bk s) (map fst (L1 @ (l, xs @ ys) # L2))"
        "levels_sorted (mp_obj lp1) s (map fst (L1 @ (l, xs @ ys) # L2))"
        using so by (simp_all add: side_ok_def levels_linked_def levels_sorted_def l1)
      ultimately show ?thesis by (auto simp: side_ok_def)
    qed
    show "side_ok (mp_obj (ob_orders_at_price_pool ?bk')) (mp_obj (ob_order_pool ?bk'))
        (side_head ?bk' (opp s)) (opp s) (?sh' (opp s))"
    proof -
      have "side_ok (mp_obj lp1) (mp_obj op) (side_head bk (opp s)) (opp s) (sh (opp s))"
        by (rule side_ok_frame [OF book_invD(2) [OF inv opp_simps(3)]])
           (use far notin(2) in \<open>auto simp: lobj1\<close>)
      then show ?thesis using opp_neq [OF s] by simp
    qed
    show "price_table_ok (mp_obj (ob_orders_at_price_pool ?bk')) (ob_price_orders_at_price ?bk')
        (set (level_ptrs ?sh'))"
      using book_invD(3) [OF inv] sets by (simp add: price_table_ok_def l1)
    show "order_table_ok (mp_obj (ob_order_pool ?bk')) (ob_cid_oid_to_order ?bk') (set (order_ptrs ?sh'))"
      using order_table_remove [OF book_invD(4) [OF inv] live, of "mp_obj op"] op(4) sets ord_def flds1 by simp
  qed
  moreover have "same_but_links bk ?bk'"
    using op(4,5) strip1 lpool1 by (simp add: same_but_links_def)
  ultimately show ?thesis using op(1) by blast
qed

text \<open>
  Both cases at once: the order disappears from its side, every other order keeps its place, and
  an order whose level becomes empty takes the level with it.
\<close>

lemma removeOrder_ok:
  assumes inv: "book_inv X bk sh" and s: "s \<in> {BUY, SELL}" and p: "side_ptrs (sh s) = us @ p # vs"
  shows "\<exists>bk' L. removeOrder bk p = Inr bk' \<and> book_inv X bk' (sh(s := L)) \<and> side_ptrs L = us @ vs \<and>
           same_but_links bk bk'"
proof -
  have d: "distinct (side_ptrs (sh s))"
    using book_invD(1) [OF inv] ptrs_split(2) [OF s, of sh] by (simp add: pools_ok_def)
  have "p \<in> set (side_ptrs (sh s))" using p by simp
  then obtain L1 l xs ys L2 where sh: "sh s = L1 @ (l, xs @ p # ys) # L2" by (rule side_ptrs_split)
  have "(side_ptrs L1 @ xs) @ p # (ys @ side_ptrs L2) = us @ p # vs" using p sh by simp
  then have uv: "us = side_ptrs L1 @ xs" "vs = ys @ side_ptrs L2"
    using d p append_eq_append_conv2 [of us "p # vs" "side_ptrs L1 @ xs" "p # ys @ side_ptrs L2"]
    by (auto simp: append_eq_Cons_conv Cons_eq_append_conv)
  show ?thesis
  proof (cases "xs @ ys = []")
    case True
    then have "sh s = L1 @ (l, [p]) # L2" using sh by simp
    from removeOrder_last [OF inv s this] True uv show ?thesis by force
  next
    case False
    from removeOrder_more [OF inv s sh False] uv show ?thesis by force
  qed
qed

section \<open>Adding an order\<close>

lemma level_linked_inD:
  assumes "level_linked_in bk s l ls bk'"
  shows "levels_linked (mp_obj (ob_orders_at_price_pool bk')) (side_head bk' s) ls"
    and "oap_strip \<circ> mp_obj (ob_orders_at_price_pool bk') = oap_strip \<circ> mp_obj (ob_orders_at_price_pool bk)"
    and "q \<notin> set ls \<Longrightarrow>
      mp_obj (ob_orders_at_price_pool bk') q = mp_obj (ob_orders_at_price_pool bk) q"
    and "mp_live (ob_orders_at_price_pool bk') = mp_live (ob_orders_at_price_pool bk)"
    and "mp_inv (ob_orders_at_price_pool bk') = mp_inv (ob_orders_at_price_pool bk)"
    and "mp_size (ob_orders_at_price_pool bk') = mp_size (ob_orders_at_price_pool bk)"
    and "ob_order_pool bk' = ob_order_pool bk" and "ob_cid_oid_to_order bk' = ob_cid_oid_to_order bk"
    and "ob_next_market_order_id bk' = ob_next_market_order_id bk"
    and "s \<in> {BUY, SELL} \<Longrightarrow> side_head bk' (opp s) = side_head bk (opp s)"
    and "ob_price_orders_at_price bk' = (ob_price_orders_at_price bk)
      (priceToIndex (oap_price (mp_obj (ob_orders_at_price_pool bk) l)) := Some l)"
  using assms by (auto simp: level_linked_in_def Let_def opp_def)

lemma set_cid_oid_ok:
  assumes "unat cid < ME_MAX_NUM_CLIENTS" and "unat oid < ME_MAX_ORDER_IDS"
  shows "set_cid_oid bk cid oid p = Inr (bk\<lparr>ob_cid_oid_to_order := (ob_cid_oid_to_order bk)
    (unat cid := (ob_cid_oid_to_order bk (unat cid))(unat oid := p))\<rparr>)"
  using assms by (simp add: set_cid_oid_def)

lemma better_trans: "better s a b \<Longrightarrow> better s b c \<Longrightarrow> better s a c"
  by (auto simp: better_def split: if_splits)

lemma better_asym: "better s a b \<Longrightarrow> \<not> better s b a"
  by (auto simp: better_def split: if_splits)

lemma better_total: "a \<noteq> b \<Longrightarrow> better s a b \<or> better s b a"
  by (auto simp: better_def)

lemma better_irrefl [simp]: "\<not> better s a a"
  by (simp add: better_def)

text \<open>Where the level of a price that has none goes.\<close>

lemma sorted_split:
  assumes "levels_sorted lo s ls" and "\<forall>l\<in>set ls. oap_price (lo l) \<noteq> price"
  obtains ys zs where "ls = ys @ zs" "\<forall>y\<in>set ys. better s (oap_price (lo y)) price"
    "\<forall>z\<in>set zs. better s price (oap_price (lo z))"
  using assms
proof (induction ls arbitrary: thesis)
  case Nil
  then show ?case by auto
next
  case (Cons l ls)
  show ?case
  proof (cases "better s (oap_price (lo l)) price")
    case True
    from Cons.prems(2,3) obtain ys zs where "ls = ys @ zs"
      "\<forall>y\<in>set ys. better s (oap_price (lo y)) price" "\<forall>z\<in>set zs. better s price (oap_price (lo z))"
      using Cons.IH by (auto simp: levels_sorted_def)
    with True Cons.prems(1) [of "l # ys" zs] show ?thesis by auto
  next
    case False
    then have "better s price (oap_price (lo l))" using better_total Cons.prems(3) by force
    moreover have "\<forall>m\<in>set ls. better s (oap_price (lo l)) (oap_price (lo m))"
      using Cons.prems(2) by (simp add: levels_sorted_def)
    ultimately show ?thesis using Cons.prems(1) [of "[]" "l # ls"] better_trans by auto
  qed
qed

lemma card_levels:
  assumes "book_inv X bk sh" and "s \<in> {BUY, SELL}"
  shows "length (sh s) \<le> mp_size (ob_orders_at_price_pool bk)"
proof -
  have d: "distinct (map fst (sh s))" and sub: "fst ` set (sh s) \<subseteq> mp_live (ob_orders_at_price_pool bk)"
    using book_invD(1) [OF assms(1)] ptrs_split(1,3) [OF assms(2), of sh] by (auto simp: pools_ok_def)
  have "length (sh s) = card (fst ` set (sh s))" using distinct_card [OF d] by simp
  also have "\<dots> \<le> card {..<mp_size (ob_orders_at_price_pool bk)}"
    by (rule card_mono) (use sub in \<open>auto simp: mp_live_def\<close>)
  finally show ?thesis by simp
qed

lemma levels_sorted_insert:
  assumes "levels_sorted lo s (ys @ zs)" and "l \<notin> set (ys @ zs)"
    and "\<forall>y\<in>set ys. better s (oap_price (lo y)) (oap_price (lo' l))"
    and "\<forall>z\<in>set zs. better s (oap_price (lo' l)) (oap_price (lo z))"
    and "\<And>q. q \<noteq> l \<Longrightarrow> oap_price (lo' q) = oap_price (lo q)"
  shows "levels_sorted lo' s (ys @ l # zs)"
proof -
  have "levels_sorted lo' s us" if "levels_sorted lo s us" "l \<notin> set us" for us
    using that by (induction us) (auto simp: levels_sorted_def assms(5), metis assms(5))
  then have "levels_sorted lo' s (ys @ zs)" using assms(1,2) by blast
  moreover have "\<forall>y\<in>set ys. better s (oap_price (lo' y)) (oap_price (lo' l))"
    "\<forall>z\<in>set zs. better s (oap_price (lo' l)) (oap_price (lo' z))"
    using assms(2-5) by (metis UnCI set_append)+
  ultimately show ?thesis by (simp add: levels_sorted_def sorted_wrt_append)
qed

lemma level_ok_single:
  assumes "oap_strip (lo l) = oap_strip \<lparr>oap_side = s, oap_price = me_price (oo p),
      oap_first_me_order = Some p, oap_prev_entry = None, oap_next_entry = None\<rparr>"
    and "me_side (oo p) = s" "me_next_order (oo p) = Some p" "me_prev_order (oo p) = Some p"
  shows "level_ok lo oo s (l, [p])"
proof -
  have "oap_side (lo l) = s" "oap_price (lo l) = me_price (oo p)" "oap_first_me_order (lo l) = Some p"
    using arg_cong [OF assms(1), of oap_side] arg_cong [OF assms(1), of oap_price]
      arg_cong [OF assms(1), of oap_first_me_order] by simp_all
  then show ?thesis using assms(2-4) by (simp add: level_ok_def ring_single)
qed

text \<open>The order \<open>p\<close> is ready to be linked in at side \<open>s\<close>.\<close>

definition addable :: "MEOrderBook \<Rightarrow> shape \<Rightarrow> Side \<Rightarrow> nat \<Rightarrow> bool" where
  "addable bk sh s p \<longleftrightarrow>
     (let ord = mp_obj (ob_order_pool bk) p in
      s \<in> {BUY, SELL} \<and> me_side ord = s \<and>
      unat (me_client_id ord) < ME_MAX_NUM_CLIENTS \<and>
      unat (me_client_order_id ord) < ME_MAX_ORDER_IDS \<and>
      ob_cid_oid_to_order bk (unat (me_client_id ord)) (unat (me_client_order_id ord)) = None)"

lemma addOrder_new_level:
  assumes inv: "book_inv (insert p X) bk sh" and X: "p \<notin> X" and a: "addable bk sh s p"
    and ord: "ord = mp_obj (ob_order_pool bk) p"
    and none: "ob_price_orders_at_price bk (priceToIndex (me_price ord)) = None"
    and room: "mp_room (ob_orders_at_price_pool bk)"
  shows "\<exists>bk' L1 l L2. addOrder bk p = Inr bk' \<and> book_inv X bk' (sh(s := L1 @ (l, [p]) # L2)) \<and>
    same_but_links bk bk' \<and> sh s = L1 @ L2 \<and>
    (\<forall>q\<in>set (map fst L1). better s (oap_price (mp_obj (ob_orders_at_price_pool bk) q)) (me_price ord)) \<and>
    (\<forall>q\<in>set (map fst L2). better s (me_price ord) (oap_price (mp_obj (ob_orders_at_price_pool bk) q)))"
proof -
  let ?lp = "ob_orders_at_price_pool bk" and ?op = "ob_order_pool bk"
  let ?c = "unat (me_client_id ord)" and ?i = "unat (me_client_order_id ord)"
  have s: "s \<in> {BUY, SELL}" and sd: "me_side ord = s"
    and bounds: "?c < ME_MAX_NUM_CLIENTS" "?i < ME_MAX_ORDER_IDS"
    and free: "ob_cid_oid_to_order bk ?c ?i = None"
    using a ord by (simp_all add: addable_def Let_def)
  have pools: "mp_inv ?lp" "mp_inv ?op" "distinct (level_ptrs sh)" "distinct (order_ptrs sh)"
    "mp_live ?lp = set (level_ptrs sh)" "mp_live ?op = set (order_ptrs sh) \<union> insert p X"
    "insert p X \<inter> set (order_ptrs sh) = {}"
    using book_invD(1) [OF inv] by (simp_all add: pools_ok_def)
  have so: "side_ok (mp_obj ?lp) (mp_obj ?op) (side_head bk s) s (sh s)" using book_invD(2) [OF inv s] .
  have nolevel: "\<forall>l\<in>set (map fst (sh s)). oap_price (mp_obj ?lp l) \<noteq> me_price ord"
    using book_level_lookup [OF inv s] none by fastforce
  from sorted_split [OF _ nolevel] so obtain ys zs where "map fst (sh s) = ys @ zs"
    and better: "\<forall>y\<in>set ys. better s (oap_price (mp_obj ?lp y)) (me_price ord)"
      "\<forall>z\<in>set zs. better s (me_price ord) (oap_price (mp_obj ?lp z))"
    by (auto simp: side_ok_def)
  then obtain L1 L2 where sh: "sh s = L1 @ L2" and yz: "ys = map fst L1" "zs = map fst L2"
    by (auto simp: map_eq_append_conv)
  define opA where "opA = me_set_prev (me_set_next ?op p (Some p)) p (Some p)"
  define new where "new = \<lparr>oap_side = s, oap_price = me_price ord, oap_first_me_order = Some p,
    oap_prev_entry = None, oap_next_entry = None\<rparr>"
  from pool.alloc_ok [OF pools(1) room, of new] obtain l lpA where
    lpA: "allocate ?lp new = Inr (l, lpA)" "mp_inv lpA" "l \<notin> mp_live ?lp"
    "mp_live lpA = insert l (mp_live ?lp)" "mp_obj lpA = (mp_obj ?lp)(l := new)"
    by blast
  note sizeA = allocate_size [OF lpA(1)]
  define bkA where "bkA = bk\<lparr>ob_order_pool := opA, ob_orders_at_price_pool := lpA\<rparr>"
  have lnotin: "l \<notin> set (map fst L1 @ map fst L2)" "l \<notin> fst ` set (sh (opp s))"
    using lpA(3) pools(5) ptrs_split(3) [OF s, of sh] sh by auto
  have linkedA: "levels_linked (mp_obj lpA) (side_head bkA s) (map fst L1 @ map fst L2)"
  proof -
    have "side_ok (mp_obj lpA) (mp_obj ?op) (side_head bk s) s (sh s)"
      by (rule side_ok_frame [OF so]) (use lnotin(1) lpA(5) sh in auto)
    then show ?thesis using sh by (simp add: side_ok_def bkA_def)
  qed
  have "\<exists>bk1. addOrdersAtPrice bkA l = Inr bk1 \<and>
      level_linked_in bkA s l (map fst L1 @ l # map fst L2) bk1"
  proof (rule addOrdersAtPrice_ok [OF s _ _ linkedA])
    show "length (map fst L1 @ map fst L2) \<le> mp_size lpA"
      using card_levels [OF inv s] sizeA sh by simp
  qed (use lpA(5) lnotin(1) better yz in \<open>auto simp: bkA_def new_def\<close>)
  then obtain bk1 where bk1: "addOrdersAtPrice bkA l = Inr bk1"
    "level_linked_in bkA s l (map fst L1 @ l # map fst L2) bk1" by blast
  let ?bk' = "bk1\<lparr>ob_cid_oid_to_order := (ob_cid_oid_to_order bk)(?c := (ob_cid_oid_to_order bk ?c)(?i := Some p))\<rparr>"
  note out = level_linked_inD [OF bk1(2), unfolded bkA_def, simplified, folded bkA_def]
  have res: "addOrder bk p = Inr ?bk'"
    using none lpA(1) bk1(1) bounds sd out(8)
    by (simp add: addOrder_def ord [symmetric] getOrdersAtPrice_def Let_def new_def [symmetric]
        opA_def [symmetric] bkA_def [symmetric] set_cid_oid_ok)
  let ?sh' = "sh(s := L1 @ (l, [p]) # L2)" and ?lp1 = "ob_orders_at_price_pool bk1"
  note ptrs = ptrs_split [OF s, of sh] ptrs_split [OF s, of ?sh']
  have objA: "mp_obj opA q = mp_obj ?op q" if "q \<noteq> p" for q
    using that by (simp add: opA_def me_set_defs)
  have stripA: "me_strip \<circ> mp_obj opA = me_strip \<circ> mp_obj ?op" by (simp add: opA_def)
  note fldsA = me_strip_fields [OF stripA]
  have lobj1: "oap_strip (mp_obj ?lp1 q) = oap_strip (mp_obj ?lp q)" if "q \<noteq> l" for q
    using fun_cong [OF out(2), of q] lpA(5) that by simp
  have lobj1_new: "oap_strip (mp_obj ?lp1 l) = oap_strip new"
    using fun_cong [OF out(2), of l] lpA(5) by simp
  have price1: "oap_price (mp_obj ?lp1 l) = me_price ord"
    "q \<noteq> l \<Longrightarrow> oap_price (mp_obj ?lp1 q) = oap_price (mp_obj ?lp q)" for q
    using arg_cong [OF lobj1_new, of oap_price] arg_cong [OF lobj1 [of q], of oap_price]
    by (simp_all add: new_def)
  have pnotin: "p \<notin> set (order_ptrs sh)" using pools(7) by auto
  have sets: "set (level_ptrs ?sh') = insert l (set (level_ptrs sh))"
    "set (order_ptrs ?sh') = insert p (set (order_ptrs sh))"
    using ptrs(3,4,7,8) sh opp_neq [OF s] by auto
  have "book_inv X ?bk' ?sh'"
  proof (rule book_invI [OF s])
    show "pools_ok X (ob_orders_at_price_pool ?bk') (ob_order_pool ?bk') ?sh'"
      using pools out(4,5,7) lpA(2,4) sets ptrs(1,2,5,6) sh opp_neq [OF s] X lnotin pnotin ptrs(4)
      by (auto simp: pools_ok_def opA_def)
    show "side_ok (mp_obj (ob_orders_at_price_pool ?bk')) (mp_obj (ob_order_pool ?bk'))
        (side_head ?bk' s) s (?sh' s)"
    proof -
      have "levels_sorted (mp_obj ?lp1) s (map fst L1 @ l # map fst L2)"
      proof (rule levels_sorted_insert [of "mp_obj ?lp"])
        show "levels_sorted (mp_obj ?lp) s (map fst L1 @ map fst L2)" using so sh by (simp add: side_ok_def)
      qed (use lnotin(1) better yz price1 in simp_all)
      moreover have "level_ok (mp_obj ?lp1) (mp_obj opA) s (l, [p])"
        by (rule level_ok_single)
           (use lobj1_new fldsA sd ord in \<open>simp_all add: new_def opA_def me_set_defs\<close>)
      moreover have "level_ok (mp_obj ?lp1) (mp_obj opA) s lv" if "lv \<in> set (L1 @ L2)" for lv
      proof (rule level_ok_frame [of "mp_obj ?lp" "mp_obj ?op"])
        show "level_ok (mp_obj ?lp) (mp_obj ?op) s lv" using so that sh by (auto simp: side_ok_def)
        show "oap_strip (mp_obj ?lp1 (fst lv)) = oap_strip (mp_obj ?lp (fst lv))"
          using lnotin(1) that by (intro lobj1) auto
        have "q \<in> set (order_ptrs sh)" if "q \<in> set (snd lv)" for q
          using that \<open>lv \<in> set (L1 @ L2)\<close> ptrs(4) sh by (auto simp: side_ptrs_def)
        then show "\<forall>q\<in>set (snd lv). mp_obj opA q = mp_obj ?op q" using objA pnotin by metis
      qed
      ultimately show ?thesis using out(1,7) by (auto simp: side_ok_def)
    qed
    show "side_ok (mp_obj (ob_orders_at_price_pool ?bk')) (mp_obj (ob_order_pool ?bk'))
        (side_head ?bk' (opp s)) (opp s) (?sh' (opp s))"
    proof -
      have "side_ok (mp_obj ?lp1) (mp_obj opA) (side_head bk (opp s)) (opp s) (sh (opp s))"
      proof (rule side_ok_frame [OF book_invD(2) [OF inv opp_simps(3)]])
        show "\<forall>q\<in>set (map fst (sh (opp s))). mp_obj ?lp1 q = mp_obj ?lp q"
        proof
          fix q
          assume "q \<in> set (map fst (sh (opp s)))"
          then have "q \<notin> set (map fst L1 @ l # map fst L2)"
            using lnotin(2) ptrs(1) pools(3) sh by auto
          with out(3) [of q] show "mp_obj ?lp1 q = mp_obj ?lp q" using lpA(5) by (auto simp: bkA_def)
        qed
        show "\<forall>q\<in>set (side_ptrs (sh (opp s))). mp_obj opA q = mp_obj ?op q"
          using objA pnotin ptrs(4) by (metis UnCI)
      qed
      then show ?thesis using opp_neq [OF s] out(7,10) s by (simp add: bkA_def)
    qed
    show "price_table_ok (mp_obj (ob_orders_at_price_pool ?bk')) (ob_price_orders_at_price ?bk')
        (set (level_ptrs ?sh'))"
    proof -
      have "ob_price_orders_at_price bk1 =
          (ob_price_orders_at_price bk)(priceToIndex (oap_price (mp_obj ?lp1 l)) := Some l)"
        using out(11) lpA(5) price1(1) by (simp add: new_def bkA_def)
      then show ?thesis
        using price_table_add [OF book_invD(3) [OF inv] refl, of "mp_obj ?lp1" l] sets lpA(3) pools(5)
          price1 none by force
    qed
    show "order_table_ok (mp_obj (ob_order_pool ?bk')) (ob_cid_oid_to_order ?bk') (set (order_ptrs ?sh'))"
      using order_table_add [OF book_invD(4) [OF inv] pnotin, of "mp_obj opA"] out(7) sets ord fldsA
        bounds free by simp
  qed
  moreover have "same_but_links bk ?bk'"
    using stripA out(6,7,9) sizeA by (simp add: same_but_links_def opA_def bkA_def)
  ultimately show ?thesis using res sh better yz by blast
qed

lemma addOrder_old_level:
  assumes inv: "book_inv (insert p X) bk sh" and X: "p \<notin> X" and a: "addable bk sh s p"
    and ord: "ord = mp_obj (ob_order_pool bk) p"
    and sh: "sh s = L1 @ (l, ps) # L2"
    and price: "oap_price (mp_obj (ob_orders_at_price_pool bk) l) = me_price ord"
  shows "\<exists>bk'. addOrder bk p = Inr bk' \<and> book_inv X bk' (sh(s := L1 @ (l, ps @ [p]) # L2)) \<and>
    same_but_links bk bk'"
proof -
  let ?lp = "ob_orders_at_price_pool bk" and ?op = "ob_order_pool bk"
    and ?sh' = "sh(s := L1 @ (l, ps @ [p]) # L2)"
  let ?c = "unat (me_client_id ord)" and ?i = "unat (me_client_order_id ord)"
  have s: "s \<in> {BUY, SELL}" and sd: "me_side ord = s"
    and bounds: "?c < ME_MAX_NUM_CLIENTS" "?i < ME_MAX_ORDER_IDS"
    and free: "ob_cid_oid_to_order bk ?c ?i = None"
    using a ord by (simp_all add: addable_def Let_def)
  have pools: "mp_inv ?lp" "mp_inv ?op" "distinct (level_ptrs sh)" "distinct (order_ptrs sh)"
    "mp_live ?lp = set (level_ptrs sh)" "mp_live ?op = set (order_ptrs sh) \<union> insert p X"
    "insert p X \<inter> set (order_ptrs sh) = {}"
    using book_invD(1) [OF inv] by (simp_all add: pools_ok_def)
  note ptrs = ptrs_split [OF s, of sh] ptrs_split [OF s, of ?sh']
  have so: "side_ok (mp_obj ?lp) (mp_obj ?op) (side_head bk s) s (L1 @ (l, ps) # L2)"
    using book_invD(2) [OF inv s] sh by simp
  then have lvl: "level_ok (mp_obj ?lp) (mp_obj ?op) s (l, ps)" by (simp add: side_ok_def)
  then obtain b xs where ps: "ps = b # xs" by (cases ps) (auto simp: level_ok_def ring_def)
  have tbl: "ob_price_orders_at_price bk (priceToIndex (me_price ord)) = Some l"
    using book_level_lookup [OF inv s, of "(l, ps)"] sh price by simp
  have pnotin: "p \<notin> set (order_ptrs sh)" using pools(7) by auto
  then have pps: "p \<notin> set ps" using ptrs(4) sh by auto
  have "oap_first_me_order (mp_obj ?lp l) = Some b"
    "ring (me_next_order \<circ> mp_obj ?op) (me_prev_order \<circ> mp_obj ?op) (b # xs)"
    using lvl ps by (simp_all add: level_ok_def)
  from addOrder_link_ok [OF refl this, of p] pps ps obtain op1 where
    op1: "addOrder_link bk l p = Inr (bk\<lparr>ob_order_pool := op1\<rparr>)"
    and ring1: "ring (me_next_order \<circ> mp_obj op1) (me_prev_order \<circ> mp_obj op1) (ps @ [p])"
    and strip1: "me_strip \<circ> mp_obj op1 = me_strip \<circ> mp_obj ?op"
    and out1: "\<forall>q. q \<notin> set (ps @ [p]) \<longrightarrow> mp_obj op1 q = mp_obj ?op q"
    and pool1: "mp_live op1 = mp_live ?op" "mp_inv op1 = mp_inv ?op" "mp_size op1 = mp_size ?op"
    by auto
  note flds1 = me_strip_fields [OF strip1]
  let ?bk' = "bk\<lparr>ob_order_pool := op1, ob_cid_oid_to_order :=
    (ob_cid_oid_to_order bk)(?c := (ob_cid_oid_to_order bk ?c)(?i := Some p))\<rparr>"
  have res: "addOrder bk p = Inr ?bk'"
    using tbl op1 bounds
    by (simp add: addOrder_def ord [symmetric] getOrdersAtPrice_def Let_def set_cid_oid_ok)
  have far: "mp_obj op1 q = mp_obj ?op q"
    if "q \<in> set (side_ptrs (L1 @ L2)) \<union> set (side_ptrs (sh (opp s)))" for q
  proof -
    have "q \<noteq> p" using that pnotin ptrs(4) sh by auto
    moreover have "q \<notin> set ps" using that pools(4) ptrs(2) sh by auto
    ultimately show ?thesis using out1 by simp
  qed
  have sets: "set (level_ptrs ?sh') = set (level_ptrs sh)"
    "set (order_ptrs ?sh') = insert p (set (order_ptrs sh))"
    using ptrs(3,4,7,8) sh opp_neq [OF s] by auto
  have "book_inv X ?bk' ?sh'"
  proof (rule book_invI [OF s])
    show "pools_ok X (ob_orders_at_price_pool ?bk') (ob_order_pool ?bk') ?sh'"
      using pools pool1 sets ptrs(1,2,4,5,6) sh opp_neq [OF s] X pnotin
      by (auto simp: pools_ok_def)
    show "side_ok (mp_obj (ob_orders_at_price_pool ?bk')) (mp_obj (ob_order_pool ?bk'))
        (side_head ?bk' s) s (?sh' s)"
    proof -
      have "level_ok (mp_obj ?lp) (mp_obj op1) s (l, ps @ [p])"
        using lvl ring1 flds1 price sd ord ps by (auto simp: level_ok_def)
      moreover have "level_ok (mp_obj ?lp) (mp_obj op1) s lv" if lv: "lv \<in> set (L1 @ L2)" for lv
      proof (rule level_ok_frame [of "mp_obj ?lp" "mp_obj ?op"])
        show "level_ok (mp_obj ?lp) (mp_obj ?op) s lv" using so that by (auto simp: side_ok_def)
        have "q \<in> set (side_ptrs (L1 @ L2))" if "q \<in> set (snd lv)" for q
          using that lv by (auto simp: side_ptrs_def)
        then show "\<forall>q\<in>set (snd lv). mp_obj op1 q = mp_obj ?op q" using far by blast
      qed simp
      ultimately show ?thesis using so by (auto simp: side_ok_def)
    qed
    show "side_ok (mp_obj (ob_orders_at_price_pool ?bk')) (mp_obj (ob_order_pool ?bk'))
        (side_head ?bk' (opp s)) (opp s) (?sh' (opp s))"
    proof -
      have "side_ok (mp_obj ?lp) (mp_obj op1) (side_head bk (opp s)) (opp s) (sh (opp s))"
        by (rule side_ok_frame [OF book_invD(2) [OF inv opp_simps(3)]]) (use far in auto)
      then show ?thesis using opp_neq [OF s] by simp
    qed
    show "price_table_ok (mp_obj (ob_orders_at_price_pool ?bk')) (ob_price_orders_at_price ?bk')
        (set (level_ptrs ?sh'))"
      using book_invD(3) [OF inv] sets by simp
    show "order_table_ok (mp_obj (ob_order_pool ?bk')) (ob_cid_oid_to_order ?bk') (set (order_ptrs ?sh'))"
      using order_table_add [OF book_invD(4) [OF inv] pnotin, of "mp_obj op1"] sets ord flds1
        bounds free by simp
  qed
  moreover have "same_but_links bk ?bk'" using strip1 pool1 by (simp add: same_but_links_def)
  ultimately show ?thesis using res by blast
qed

text \<open>The price of an order is the price of its level, so the levels sort the orders of a side.\<close>

lemma side_prices:
  assumes "side_ok lo oo h s L" and "lv \<in> set L" and "q \<in> set (snd lv)"
  shows "me_price (oo q) = oap_price (lo (fst lv))"
  using assms by (auto simp: side_ok_def level_ok_def)

lemma side_prices_all:
  assumes "side_ok lo oo h s L" and "set M \<subseteq> set L"
  shows "(\<forall>l\<in>set (map fst M). P (oap_price (lo l))) \<Longrightarrow> \<forall>q\<in>set (side_ptrs M). P (me_price (oo q))"
  using side_prices [OF assms(1)] assms(2) by (fastforce simp: side_ptrs_def)

text \<open>
  No price that is in the book shares its index with \<open>price\<close>, unless it is the same price on the
  same side: the collisions of the table by price, which the book does not resolve.
\<close>

definition no_collision :: "MEOrderBook \<Rightarrow> shape \<Rightarrow> Side \<Rightarrow> Price \<Rightarrow> bool" where
  "no_collision bk sh s price \<longleftrightarrow>
     (\<forall>t\<in>{BUY, SELL}. \<forall>q\<in>set (side_ptrs (sh t)).
        let p = me_price (mp_obj (ob_order_pool bk) q) in
        priceToIndex p = priceToIndex price \<longrightarrow> p = price \<and> t = s)"

lemma no_collision_lookup:
  assumes inv: "book_inv X bk sh" and nc: "no_collision bk sh s price" and s: "s \<in> {BUY, SELL}"
    and tbl: "ob_price_orders_at_price bk (priceToIndex price) = Some l"
  shows "oap_price (mp_obj (ob_orders_at_price_pool bk) l) = price \<and> l \<in> fst ` set (sh s)"
proof -
  have "l \<in> set (level_ptrs sh)"
    and idx: "priceToIndex (oap_price (mp_obj (ob_orders_at_price_pool bk) l)) = priceToIndex price"
    using book_invD(3) [OF inv] tbl by (auto simp: price_table_ok_def)
  then obtain t ps where t: "t \<in> {BUY, SELL}" "(l, ps) \<in> set (sh t)"
    unfolding level_ptrs_iff by fastforce
  have so: "side_ok (mp_obj (ob_orders_at_price_pool bk)) (mp_obj (ob_order_pool bk)) (side_head bk t) t (sh t)"
    by (rule book_invD(2) [OF inv t(1)])
  then have "ps \<noteq> []" using t(2) by (auto simp: side_ok_def level_ok_def ring_def)
  then obtain q where q: "q \<in> set ps" by (cases ps) auto
  then have "me_price (mp_obj (ob_order_pool bk) q) = oap_price (mp_obj (ob_orders_at_price_pool bk) l)"
    using side_prices [OF so t(2)] by simp
  moreover have "q \<in> set (side_ptrs (sh t))" using q t(2) by (force simp: side_ptrs_def)
  ultimately have "oap_price (mp_obj (ob_orders_at_price_pool bk) l) = price \<and> t = s"
    using nc t(1) idx by (fastforce simp: no_collision_def Let_def)
  then show ?thesis using t(2) by force
qed

lemma addOrder_ok:
  assumes inv: "book_inv (insert p X) bk sh" and X: "p \<notin> X" and a: "addable bk sh s p"
    and ord: "ord = mp_obj (ob_order_pool bk) p"
    and nc: "no_collision bk sh s (me_price ord)"
    and room: "mp_room (ob_orders_at_price_pool bk) \<or>
      ob_price_orders_at_price bk (priceToIndex (me_price ord)) \<noteq> None"
  shows "\<exists>bk' L us vs. addOrder bk p = Inr bk' \<and> book_inv X bk' (sh(s := L)) \<and> same_but_links bk bk' \<and>
    side_ptrs (sh s) = us @ vs \<and> side_ptrs L = us @ p # vs \<and>
    (\<forall>q\<in>set us. \<not> better s (me_price ord) (me_price (mp_obj (ob_order_pool bk) q))) \<and>
    (\<forall>q\<in>set vs. better s (me_price ord) (me_price (mp_obj (ob_order_pool bk) q)))"
proof -
  let ?lp = "ob_orders_at_price_pool bk" and ?op = "ob_order_pool bk"
  have s: "s \<in> {BUY, SELL}" using a by (simp add: addable_def Let_def)
  have so: "side_ok (mp_obj ?lp) (mp_obj ?op) (side_head bk s) s (sh s)" by (rule book_invD(2) [OF inv s])
  show ?thesis
  proof (cases "ob_price_orders_at_price bk (priceToIndex (me_price ord))")
    case None
    with addOrder_new_level [OF inv X a ord] room obtain bk' L1 l L2 where
      r: "addOrder bk p = Inr bk'" "book_inv X bk' (sh(s := L1 @ (l, [p]) # L2))" "same_but_links bk bk'"
      "sh s = L1 @ L2"
      and L1: "\<forall>q\<in>set (map fst L1). better s (oap_price (mp_obj ?lp q)) (me_price ord)"
      and L2: "\<forall>q\<in>set (map fst L2). better s (me_price ord) (oap_price (mp_obj ?lp q))"
      by auto
    have "\<forall>q\<in>set (side_ptrs L1). better s (me_price (mp_obj ?op q)) (me_price ord)"
      by (rule side_prices_all [OF so _ L1]) (simp add: r(4))
    moreover have "\<forall>q\<in>set (side_ptrs L2). better s (me_price ord) (me_price (mp_obj ?op q))"
      by (rule side_prices_all [OF so _ L2]) (simp add: r(4))
    ultimately show ?thesis using r better_asym
      by (intro exI [of _ bk'] exI [of _ "L1 @ (l, [p]) # L2"] exI [of _ "side_ptrs L1"]
          exI [of _ "side_ptrs L2"]) auto
  next
    case (Some l)
    then have l: "oap_price (mp_obj ?lp l) = me_price ord" "l \<in> fst ` set (sh s)"
      using no_collision_lookup [OF inv nc s] by auto
    then obtain ps where "(l, ps) \<in> set (sh s)" by auto
    then obtain L1 L2 where sh: "sh s = L1 @ (l, ps) # L2" by (meson split_list)
    from addOrder_old_level [OF inv X a ord sh l(1)] obtain bk' where
      r: "addOrder bk p = Inr bk'" "book_inv X bk' (sh(s := L1 @ (l, ps @ [p]) # L2))" "same_but_links bk bk'"
      by auto
    have srt: "\<forall>q\<in>set (map fst L1). better s (oap_price (mp_obj ?lp q)) (me_price ord)"
      "\<forall>q\<in>set (map fst L2). better s (me_price ord) (oap_price (mp_obj ?lp q))"
      using so sh l(1) by (auto simp: side_ok_def levels_sorted_def sorted_wrt_append)
    have "\<forall>q\<in>set (side_ptrs L1). better s (me_price (mp_obj ?op q)) (me_price ord)"
      by (rule side_prices_all [OF so _ srt(1)]) (use sh in auto)
    moreover have "\<forall>q\<in>set (side_ptrs L2). better s (me_price ord) (me_price (mp_obj ?op q))"
      by (rule side_prices_all [OF so _ srt(2)]) (use sh in auto)
    moreover have "\<forall>q\<in>set ps. me_price (mp_obj ?op q) = me_price ord"
      using side_prices [OF so, of "(l, ps)"] sh l(1) by simp
    ultimately show ?thesis using r sh better_asym
      by (intro exI [of _ bk'] exI [of _ "L1 @ (l, ps @ [p]) # L2"] exI [of _ "side_ptrs L1 @ ps"]
          exI [of _ "side_ptrs L2"]) auto
  qed
qed

section \<open>The remaining accesses\<close>

text \<open>The priority of a new order: one more than the last order at its price.\<close>

lemma last_filter_level:
  assumes "\<forall>q\<in>set us. \<not> P q" and "\<forall>q\<in>set ps. P q" and "\<forall>q\<in>set vs. \<not> P q"
  shows "filter P (us @ ps @ vs) = ps"
  using assms by (simp add: filter_empty_conv)

lemma getNextPriority_ok:
  assumes inv: "book_inv X bk sh" and nc: "no_collision bk sh s price" and s: "s \<in> {BUY, SELL}"
  shows "getNextPriority bk price = Inr
    (case filter (\<lambda>q. me_price (mp_obj (ob_order_pool bk) q) = price) (side_ptrs (sh s)) of
       [] \<Rightarrow> 1 | q # qs \<Rightarrow> me_priority (mp_obj (ob_order_pool bk) (last (q # qs))) + 1)"
proof -
  let ?lp = "ob_orders_at_price_pool bk" and ?op = "ob_order_pool bk"
  let ?f = "filter (\<lambda>q. me_price (mp_obj ?op q) = price)"
  have so: "side_ok (mp_obj ?lp) (mp_obj ?op) (side_head bk s) s (sh s)" by (rule book_invD(2) [OF inv s])
  show ?thesis
  proof (cases "ob_price_orders_at_price bk (priceToIndex price)")
    case None
    have "me_price (mp_obj ?op q) \<noteq> price" if "q \<in> set (side_ptrs (sh s))" for q
    proof -
      from that obtain lv where lv: "lv \<in> set (sh s)" "q \<in> set (snd lv)" by (auto simp: side_ptrs_def)
      show ?thesis
        using side_prices [OF so lv] book_level_lookup [OF inv s lv(1)] None by auto
    qed
    then have "?f (side_ptrs (sh s)) = []" by (simp add: filter_empty_conv)
    then show ?thesis using None by (simp add: getNextPriority_def getOrdersAtPrice_def)
  next
    case (Some l)
    then have l: "oap_price (mp_obj ?lp l) = price" "l \<in> fst ` set (sh s)"
      using no_collision_lookup [OF inv nc s] by auto
    then obtain ps where "(l, ps) \<in> set (sh s)" by auto
    then obtain L1 L2 where sh: "sh s = L1 @ (l, ps) # L2" by (meson split_list)
    have lvl: "level_ok (mp_obj ?lp) (mp_obj ?op) s (l, ps)" using so sh by (simp add: side_ok_def)
    then obtain b xs where ps: "ps = b # xs" by (cases ps) (auto simp: level_ok_def ring_def)
    have prio: "getNextPriority bk price = Inr (me_priority (mp_obj ?op (last ps)) + 1)"
      using lvl ps Some ring_hd_prev [of "me_next_order \<circ> mp_obj ?op" "me_prev_order \<circ> mp_obj ?op" b xs]
      by (simp add: getNextPriority_def getOrdersAtPrice_def level_ok_def)
    have srt: "\<forall>q\<in>set (map fst L1). oap_price (mp_obj ?lp q) \<noteq> price"
      "\<forall>q\<in>set (map fst L2). oap_price (mp_obj ?lp q) \<noteq> price"
      using so sh l(1) by (auto simp: side_ok_def levels_sorted_def sorted_wrt_append)
    have "\<forall>q\<in>set (side_ptrs L1). me_price (mp_obj ?op q) \<noteq> price"
      by (rule side_prices_all [OF so _ srt(1)]) (use sh in auto)
    moreover have "\<forall>q\<in>set (side_ptrs L2). me_price (mp_obj ?op q) \<noteq> price"
      by (rule side_prices_all [OF so _ srt(2)]) (use sh in auto)
    moreover have "\<forall>q\<in>set ps. me_price (mp_obj ?op q) = price"
      using side_prices [OF so, of "(l, ps)"] sh l(1) by simp
    ultimately have "?f (side_ptrs (sh s)) = ps" using last_filter_level sh by simp
    then show ?thesis using prio ps by simp
  qed
qed

text \<open>The first order of the best level is the first order of the side.\<close>

lemma best_order:
  assumes "book_inv X bk sh" and "s \<in> {BUY, SELL}"
  shows "side_head bk s = None \<longleftrightarrow> side_ptrs (sh s) = []"
    and "side_head bk s = Some l \<Longrightarrow>
      oap_first_me_order (mp_obj (ob_orders_at_price_pool bk) l) = Some (hd (side_ptrs (sh s)))"
proof -
  have so: "side_ok (mp_obj (ob_orders_at_price_pool bk)) (mp_obj (ob_order_pool bk)) (side_head bk s) s (sh s)"
    by (rule book_invD(2) [OF assms])
  have ne: "snd lv \<noteq> []" if "lv \<in> set (sh s)" for lv
    using so that by (auto simp: side_ok_def level_ok_def ring_def)
  show "side_head bk s = None \<longleftrightarrow> side_ptrs (sh s) = []"
    using so ne by (cases "sh s") (auto simp: side_ok_def levels_linked_def)
  show "oap_first_me_order (mp_obj (ob_orders_at_price_pool bk) l) = Some (hd (side_ptrs (sh s)))"
    if "side_head bk s = Some l"
    using so ne that by (cases "sh s") (auto simp: side_ok_def levels_linked_def level_ok_def)
qed

text \<open>Changing the quantity of an order keeps the invariant.\<close>

lemma book_inv_set_qty:
  assumes "book_inv X bk sh"
  shows "book_inv X (bk\<lparr>ob_order_pool := mp_upd (ob_order_pool bk) p (\<lambda>n. n\<lparr>me_qty := f n\<rparr>)\<rparr>) sh"
proof -
  let ?op = "mp_upd (ob_order_pool bk) p (\<lambda>n. n\<lparr>me_qty := f n\<rparr>)"
  have "me_next_order \<circ> mp_obj ?op = me_next_order \<circ> mp_obj (ob_order_pool bk)"
    "me_prev_order \<circ> mp_obj ?op = me_prev_order \<circ> mp_obj (ob_order_pool bk)"
    "me_price (mp_obj ?op q) = me_price (mp_obj (ob_order_pool bk) q)"
    "me_side (mp_obj ?op q) = me_side (mp_obj (ob_order_pool bk) q)"
    "me_client_id (mp_obj ?op q) = me_client_id (mp_obj (ob_order_pool bk) q)"
    "me_client_order_id (mp_obj ?op q) = me_client_order_id (mp_obj (ob_order_pool bk) q)" for q
    by auto
  with assms show ?thesis
    by (simp add: book_inv_def Let_def pools_ok_def side_ok_def level_ok_def order_table_ok_def)
qed

lemma order_table_cong:
  "(\<And>q. q \<in> ps \<Longrightarrow> oo' q = oo q) \<Longrightarrow> order_table_ok oo' tbl ps = order_table_ok oo tbl ps"
  unfolding order_table_ok_def by (simp cong: conj_cong)

text \<open>Allocating an order that is not linked in yet.\<close>

lemma book_inv_alloc:
  assumes inv: "book_inv X bk sh" and room: "mp_room (ob_order_pool bk)"
  shows "\<exists>p op. allocate (ob_order_pool bk) n = Inr (p, op) \<and> p \<notin> X \<and> p \<notin> set (order_ptrs sh) \<and>
    mp_obj op = (mp_obj (ob_order_pool bk))(p := n) \<and> mp_size op = mp_size (ob_order_pool bk) \<and>
    book_inv (insert p X) (bk\<lparr>ob_order_pool := op\<rparr>) sh"
proof -
  have pools: "pools_ok X (ob_orders_at_price_pool bk) (ob_order_pool bk) sh" by (rule book_invD(1) [OF inv])
  then have "mp_inv (ob_order_pool bk)" by (simp add: pools_ok_def)
  from pool.alloc_ok [OF this room, of n] obtain p op where op: "allocate (ob_order_pool bk) n = Inr (p, op)"
    "mp_inv op" "p \<notin> mp_live (ob_order_pool bk)" "mp_live op = insert p (mp_live (ob_order_pool bk))"
    "mp_obj op = (mp_obj (ob_order_pool bk))(p := n)" by blast
  have p: "p \<notin> X" "p \<notin> set (order_ptrs sh)" using op(3) pools by (auto simp: pools_ok_def)
  have sd: "side_ok (mp_obj (ob_orders_at_price_pool bk)) (mp_obj op) (side_head bk s) s (sh s)"
    if s: "s \<in> {BUY, SELL}" for s
    by (rule side_ok_frame [OF book_invD(2) [OF inv s]]) (use p(2) op(5) ptrs_split(4) [OF s, of sh] in auto)
  have "order_table_ok (mp_obj op) (ob_cid_oid_to_order bk) (set (order_ptrs sh))"
    using book_invD(4) [OF inv] by (rule iffD2 [OF order_table_cong, rotated]) (use p(2) op(5) in auto)
  moreover have "pools_ok (insert p X) (ob_orders_at_price_pool bk) op sh"
    using pools op(2,4) p by (auto simp: pools_ok_def)
  ultimately have "book_inv (insert p X) (bk\<lparr>ob_order_pool := op\<rparr>) sh"
    using sd book_invD(3) [OF inv] by (simp add: book_inv_def Let_def)
  then show ?thesis using op(1,5) p allocate_size [OF op(1)]
    by (intro exI [of _ p] exI [of _ op]) simp
qed

text \<open>The book as constructed, when the memory of its two tables happens to be zero.\<close>

lemma book_inv_new:
  "book_inv {} (MEOrderBook_new t (\<lambda>_ _. None) (\<lambda>_. None)) (\<lambda>_. [])"
  by (simp add: book_inv_def Let_def MEOrderBook_new_def pools_ok_def side_ok_def levels_linked_def
      levels_sorted_def price_table_ok_def order_table_ok_def level_ptrs_def order_ptrs_def side_head_def
      ME_MAX_PRICE_LEVELS_def ME_MAX_ORDER_IDS_def)

end
