(* ===== verification/ME_Book_Spec.thy ===== *)
theory ME_Book_Spec
  imports ME_Book_Ops
begin

text \<open>
  What a limit order book promises, without pointers: each side is the list of its orders in
  price-time priority. A new order takes the other side from the front as long as the prices cross,
  what is left of it goes behind every order of its own side that is at least as good, and a cancel
  takes one order out. Every step says which client responses and market updates it sends. Orders
  are the program's \<open>MEOrder\<close> with null links.
\<close>

section \<open>Books\<close>

record abook =
  ab_bids :: "MEOrder list"
  ab_asks :: "MEOrder list"
  ab_next_id :: OrderId

definition ab_side :: "abook \<Rightarrow> Side \<Rightarrow> MEOrder list" where
  "ab_side b s = (if s = BUY then ab_bids b else ab_asks b)"

definition ab_set_side :: "abook \<Rightarrow> Side \<Rightarrow> MEOrder list \<Rightarrow> abook" where
  "ab_set_side b s xs = (if s = BUY then b\<lparr>ab_bids := xs\<rparr> else b\<lparr>ab_asks := xs\<rparr>)"

text \<open>The messages of a step: responses to the clients and updates for the market data.\<close>

type_synonym outputs = "MEClientResponse list \<times> MEMarketUpdate list"

section \<open>Matching\<close>

definition crosses :: "Side \<Rightarrow> Price \<Rightarrow> Price \<Rightarrow> bool" where
  "crosses side price passive \<longleftrightarrow> (if side = BUY then passive \<le> price else price \<le> passive)"

text \<open>The aggressor, as far as its messages go.\<close>

record aggressor =
  ag_ticker :: TickerId
  ag_client :: ClientId
  ag_order :: OrderId
  ag_market :: OrderId
  ag_side :: Side
  ag_price :: Price

definition fill_responses :: "aggressor \<Rightarrow> MEOrder \<Rightarrow> Qty \<Rightarrow> Qty \<Rightarrow> MEClientResponse list" where
  "fill_responses g n fill leaves =
     [\<lparr>cr_type = FILLED, cr_client_id = ag_client g, cr_ticker_id = ag_ticker g,
       cr_client_order_id = ag_order g, cr_market_order_id = ag_market g, cr_side = ag_side g,
       cr_price = me_price n, cr_exec_qty = fill, cr_leaves_qty = leaves\<rparr>,
      \<lparr>cr_type = FILLED, cr_client_id = me_client_id n, cr_ticker_id = ag_ticker g,
       cr_client_order_id = me_client_order_id n, cr_market_order_id = me_market_order_id n,
       cr_side = me_side n, cr_price = me_price n, cr_exec_qty = fill, cr_leaves_qty = me_qty n - fill\<rparr>]"

definition trade_update :: "aggressor \<Rightarrow> MEOrder \<Rightarrow> Qty \<Rightarrow> MEMarketUpdate" where
  "trade_update g n fill =
     \<lparr>mu_type = TRADE, mu_order_id = OrderId_INVALID, mu_ticker_id = ag_ticker g, mu_side = ag_side g,
      mu_price = me_price n, mu_qty = fill, mu_priority = Priority_INVALID\<rparr>"

definition passive_update :: "aggressor \<Rightarrow> MEOrder \<Rightarrow> Qty \<Rightarrow> MEMarketUpdate" where
  "passive_update g n fill =
     (if me_qty n = fill then
        \<lparr>mu_type = CANCEL, mu_order_id = me_market_order_id n, mu_ticker_id = ag_ticker g,
         mu_side = me_side n, mu_price = me_price n, mu_qty = me_qty n, mu_priority = Priority_INVALID\<rparr>
      else
        \<lparr>mu_type = MODIFY, mu_order_id = me_market_order_id n, mu_ticker_id = ag_ticker g,
         mu_side = me_side n, mu_price = me_price n, mu_qty = me_qty n - fill,
         mu_priority = me_priority n\<rparr>)"

fun a_match :: "aggressor \<Rightarrow> Qty \<Rightarrow> MEOrder list \<Rightarrow> MEOrder list \<times> Qty \<times> outputs" where
  "a_match g q [] = ([], q, [], [])"
| "a_match g q (n # ns) =
     (if q = 0 \<or> \<not> crosses (ag_side g) (ag_price g) (me_price n) then (n # ns, q, [], [])
      else if q < me_qty n then
        (n\<lparr>me_qty := me_qty n - q\<rparr> # ns, 0, fill_responses g n q 0,
         [trade_update g n q, passive_update g n q])
      else
        (case a_match g (q - me_qty n) ns of (ns', q', rs, us) \<Rightarrow>
          (ns', q', fill_responses g n (me_qty n) (q - me_qty n) @ rs,
           [trade_update g n (me_qty n), passive_update g n (me_qty n)] @ us)))"

section \<open>Resting orders\<close>

definition a_insert :: "Side \<Rightarrow> MEOrder \<Rightarrow> MEOrder list \<Rightarrow> MEOrder list" where
  "a_insert s n xs =
     takeWhile (\<lambda>x. \<not> better s (me_price n) (me_price x)) xs @
     n # dropWhile (\<lambda>x. \<not> better s (me_price n) (me_price x)) xs"

definition a_priority :: "Price \<Rightarrow> MEOrder list \<Rightarrow> Priority" where
  "a_priority price xs =
     (case filter (\<lambda>x. me_price x = price) xs of [] \<Rightarrow> 1 | y # ys \<Rightarrow> me_priority (last (y # ys)) + 1)"

definition add_update :: "MEOrder \<Rightarrow> MEMarketUpdate" where
  "add_update n =
     \<lparr>mu_type = ADD, mu_order_id = me_market_order_id n, mu_ticker_id = me_ticker_id n,
      mu_side = me_side n, mu_price = me_price n, mu_qty = me_qty n, mu_priority = me_priority n\<rparr>"

text \<open>
  A new order. The identifier that the aggressor's fills report passes through a parameter of 32
  bits on its way.
\<close>

definition a_add ::
    "abook \<Rightarrow> ClientId \<Rightarrow> OrderId \<Rightarrow> TickerId \<Rightarrow> Side \<Rightarrow> Price \<Rightarrow> Qty \<Rightarrow> abook \<times> outputs" where
  "a_add b cid oid tid side price qty =
     (let mid = ab_next_id b;
          accepted = \<lparr>cr_type = ACCEPTED, cr_client_id = cid, cr_ticker_id = tid,
            cr_client_order_id = oid, cr_market_order_id = mid, cr_side = side, cr_price = price,
            cr_exec_qty = 0, cr_leaves_qty = qty\<rparr>;
          g = \<lparr>ag_ticker = tid, ag_client = cid, ag_order = oid,
            ag_market = ucast (ucast mid :: Qty), ag_side = side, ag_price = price\<rparr>;
          (others, leaves, rs, us) = a_match g qty (ab_side b (opp side));
          b1 = (ab_set_side b (opp side) others)\<lparr>ab_next_id := mid + 1\<rparr> in
      if leaves = 0 then (b1, accepted # rs, us)
      else
        let own = ab_side b side;
            n = \<lparr>me_ticker_id = tid, me_client_id = cid, me_client_order_id = oid,
              me_market_order_id = mid, me_side = side, me_price = price, me_qty = leaves,
              me_priority = a_priority price own, me_prev_order = None, me_next_order = None\<rparr> in
        (ab_set_side b1 side (a_insert side n own), accepted # rs, us @ [add_update n]))"

section \<open>Cancelling\<close>

definition is_order :: "ClientId \<Rightarrow> OrderId \<Rightarrow> MEOrder \<Rightarrow> bool" where
  "is_order cid oid n \<longleftrightarrow> me_client_id n = cid \<and> me_client_order_id n = oid"

definition ab_orders :: "abook \<Rightarrow> MEOrder list" where
  "ab_orders b = ab_bids b @ ab_asks b"

definition a_cancel :: "abook \<Rightarrow> ClientId \<Rightarrow> OrderId \<Rightarrow> TickerId \<Rightarrow> abook \<times> outputs" where
  "a_cancel b cid oid tid =
     (case List.find (is_order cid oid) (ab_orders b) of
        None \<Rightarrow>
          (b, [\<lparr>cr_type = CANCEL_REJECTED, cr_client_id = cid, cr_ticker_id = tid,
                cr_client_order_id = oid, cr_market_order_id = OrderId_INVALID,
                cr_side = Side_INVALID, cr_price = Price_INVALID, cr_exec_qty = Qty_INVALID,
                cr_leaves_qty = Qty_INVALID\<rparr>], [])
      | Some n \<Rightarrow>
          (b\<lparr>ab_bids := filter (\<lambda>x. \<not> is_order cid oid x) (ab_bids b),
             ab_asks := filter (\<lambda>x. \<not> is_order cid oid x) (ab_asks b)\<rparr>,
           [\<lparr>cr_type = CANCELED, cr_client_id = cid, cr_ticker_id = tid, cr_client_order_id = oid,
             cr_market_order_id = me_market_order_id n, cr_side = me_side n, cr_price = me_price n,
             cr_exec_qty = Qty_INVALID, cr_leaves_qty = me_qty n\<rparr>],
           [\<lparr>mu_type = CANCEL, mu_order_id = me_market_order_id n, mu_ticker_id = tid,
             mu_side = me_side n, mu_price = me_price n, mu_qty = 0, mu_priority = me_priority n\<rparr>]))"

end
