(* ===== verification/ME_Book_Refine.thy ===== *)
theory ME_Book_Refine
  imports ME_Book_Spec
begin

text \<open>
  The book of the matching engine implements the specification of \<open>ME_Book_Spec\<close>: the functions with
  pointers, pools and tables return what the functions on lists say, send the messages they say,
  and end the process in none of the cases the specification covers.
\<close>

section \<open>The abstraction\<close>

definition abs_orders :: "MEOrderBook \<Rightarrow> shape \<Rightarrow> Side \<Rightarrow> MEOrder list" where
  "abs_orders bk sh s = map (me_strip \<circ> mp_obj (ob_order_pool bk)) (side_ptrs (sh s))"

definition book_abs :: "MEOrderBook \<Rightarrow> shape \<Rightarrow> abook" where
  "book_abs bk sh = \<lparr>ab_bids = abs_orders bk sh BUY, ab_asks = abs_orders bk sh SELL,
     ab_next_id = ob_next_market_order_id bk\<rparr>"

definition book_rep :: "MEOrderBook \<Rightarrow> abook \<Rightarrow> bool" where
  "book_rep bk b \<longleftrightarrow> (\<exists>sh. book_inv {} bk sh \<and> b = book_abs bk sh) \<and>
     mp_size (ob_order_pool bk) = ME_MAX_ORDER_IDS \<and>
     mp_size (ob_orders_at_price_pool bk) = ME_MAX_PRICE_LEVELS"

text \<open>Sending the messages of a step.\<close>

definition send :: "MEQueues \<Rightarrow> outputs \<Rightarrow> MEQueues" where
  "send mq ms = mq\<lparr>mq_ogw_responses := q_pushes (mq_ogw_responses mq) (fst ms),
     mq_md_updates := q_pushes (mq_md_updates mq) (snd ms)\<rparr>"

lemma send_Nil [simp]: "send mq ([], []) = mq"
  by (simp add: send_def)

lemma send_send [simp]: "send (send mq (rs, us)) (rs', us') = send mq (rs @ rs', us @ us')"
  by (simp add: send_def q_pushes_append)

lemma sendClientResponse_send: "sendClientResponse mq r = send mq ([r], [])"
  by (simp add: sendClientResponse_def send_def)

lemma sendMarketUpdate_send: "sendMarketUpdate mq u = send mq ([], [u])"
  by (simp add: sendMarketUpdate_def send_def)

lemmas to_send = sendClientResponse_send sendMarketUpdate_send

text \<open>What every operation keeps.\<close>

definition same_sizes :: "MEOrderBook \<Rightarrow> MEOrderBook \<Rightarrow> bool" where
  "same_sizes bk bk' \<longleftrightarrow>
     mp_size (ob_order_pool bk') = mp_size (ob_order_pool bk) \<and>
     mp_size (ob_orders_at_price_pool bk') = mp_size (ob_orders_at_price_pool bk) \<and>
     ob_next_market_order_id bk' = ob_next_market_order_id bk"

lemma same_sizes_trans: "same_sizes a b \<Longrightarrow> same_sizes b c \<Longrightarrow> same_sizes a c"
  by (simp add: same_sizes_def)

lemma same_but_links_sizes: "same_but_links bk bk' \<Longrightarrow> same_sizes bk bk'"
  by (simp add: same_but_links_def same_sizes_def)

lemma same_but_links_abs:
  "same_but_links bk bk' \<Longrightarrow>
     abs_orders bk' sh s = map (me_strip \<circ> mp_obj (ob_order_pool bk)) (side_ptrs (sh s))"
  by (simp add: same_but_links_def abs_orders_def)

lemma me_strip_qty [simp]: "me_strip (n\<lparr>me_qty := q\<rparr>) = (me_strip n)\<lparr>me_qty := q\<rparr>"
  by (simp add: me_strip_def)

lemma me_strip_default [simp]:
  "me_prev_order n = None \<Longrightarrow> me_next_order n = None \<Longrightarrow> me_strip n = n"
  by (simp add: me_strip_def)

section \<open>Matching\<close>

lemma min_word: "min a (b :: 'a :: len word) = (if a < b then a else b)"
  by (simp add: min_def) (metis leD not_less_iff_gr_or_eq order.order_iff_strict)

text \<open>One fill. The passive order is the first one of side \<open>t\<close>.\<close>

lemma match_partial:
  assumes inv: "book_inv {} bk sh" and t: "t \<in> {BUY, SELL}" and p: "side_ptrs (sh t) = p # ps"
    and n: "n = me_strip (mp_obj (ob_order_pool bk) p)" and q: "q < me_qty n"
    and g: "g = \<lparr>ag_ticker = tid, ag_client = cid, ag_order = oid, ag_market = mid, ag_side = side,
      ag_price = price\<rparr>"
  shows "\<exists>bk'. match bk mq tid cid side oid mid p q =
      Inr (bk', send mq (fill_responses g n q 0, [trade_update g n q, passive_update g n q]), 0) \<and>
    book_inv {} bk' sh \<and> same_sizes bk bk' \<and>
    abs_orders bk' sh t = n\<lparr>me_qty := me_qty n - q\<rparr> # tl (abs_orders bk sh t) \<and>
    abs_orders bk' sh (opp t) = abs_orders bk sh (opp t)"
proof -
  let ?bk' = "bk\<lparr>ob_order_pool := mp_upd (ob_order_pool bk) p (\<lambda>m. m\<lparr>me_qty := me_qty m - q\<rparr>)\<rparr>"
  have d: "distinct (side_ptrs (sh t))" "set (side_ptrs (sh t)) \<inter> set (side_ptrs (sh (opp t))) = {}"
    using book_invD(1) [OF inv] ptrs_split(2) [OF t, of sh] by (auto simp: pools_ok_def)
  have "me_qty n - q \<noteq> 0" using q by auto
  then have "match bk mq tid cid side oid mid p q =
      Inr (?bk', send mq (fill_responses g n q 0, [trade_update g n q, passive_update g n q]), 0)"
    using q n g by (simp add: match_def Let_def min_word to_send fill_responses_def trade_update_def
        passive_update_def)
  moreover have "book_inv {} ?bk' sh" using inv by (rule book_inv_set_qty)
  moreover have "abs_orders ?bk' sh t = n\<lparr>me_qty := me_qty n - q\<rparr> # tl (abs_orders bk sh t)"
    using p d(1) n by (simp add: abs_orders_def)
  moreover have "abs_orders ?bk' sh (opp t) = abs_orders bk sh (opp t)"
    using p d(2) by (auto simp: abs_orders_def)
  ultimately show ?thesis by (auto simp: same_sizes_def)
qed

lemma match_full:
  assumes inv: "book_inv {} bk sh" and t: "t \<in> {BUY, SELL}" and p: "side_ptrs (sh t) = p # ps"
    and n: "n = me_strip (mp_obj (ob_order_pool bk) p)" and q: "\<not> q < me_qty n"
    and g: "g = \<lparr>ag_ticker = tid, ag_client = cid, ag_order = oid, ag_market = mid, ag_side = side,
      ag_price = price\<rparr>"
  shows "\<exists>bk' L. match bk mq tid cid side oid mid p q =
      Inr (bk', send mq (fill_responses g n (me_qty n) (q - me_qty n),
        [trade_update g n (me_qty n), passive_update g n (me_qty n)]), q - me_qty n) \<and>
    book_inv {} bk' (sh(t := L)) \<and> same_sizes bk bk' \<and> side_ptrs L = ps \<and>
    abs_orders bk' (sh(t := L)) t = tl (abs_orders bk sh t) \<and>
    abs_orders bk' (sh(t := L)) (opp t) = abs_orders bk sh (opp t)"
proof -
  let ?bk1 = "bk\<lparr>ob_order_pool := mp_upd (ob_order_pool bk) p (\<lambda>m. m\<lparr>me_qty := me_qty m - me_qty n\<rparr>)\<rparr>"
  have d: "distinct (side_ptrs (sh t))" "set (side_ptrs (sh t)) \<inter> set (side_ptrs (sh (opp t))) = {}"
    using book_invD(1) [OF inv] ptrs_split(2) [OF t, of sh] by (auto simp: pools_ok_def)
  have "book_inv {} ?bk1 sh" using inv by (rule book_inv_set_qty)
  from removeOrder_ok [OF this t, of "[]" p ps] p obtain bk' L where
    bk': "removeOrder ?bk1 p = Inr bk'" "book_inv {} bk' (sh(t := L))" "side_ptrs L = ps"
    "same_but_links ?bk1 bk'" by auto
  have "match bk mq tid cid side oid mid p q =
      Inr (bk', send mq (fill_responses g n (me_qty n) (q - me_qty n),
        [trade_update g n (me_qty n), passive_update g n (me_qty n)]), q - me_qty n)"
    using q n g bk'(1) by (simp add: match_def Let_def min_word to_send fill_responses_def
        trade_update_def passive_update_def)
  moreover have "abs_orders bk' (sh(t := L)) t = tl (abs_orders bk sh t)"
    using same_but_links_abs [OF bk'(4), of "sh(t := L)" t] bk'(3) p d(1)
    by (auto simp: abs_orders_def)
  moreover have "abs_orders bk' (sh(t := L)) (opp t) = abs_orders bk sh (opp t)"
    using same_but_links_abs [OF bk'(4), of "sh(t := L)" "opp t"] p d(2) opp_neq [OF t]
    by (auto simp: abs_orders_def)
  moreover have "same_sizes bk bk'"
    using same_but_links_sizes [OF bk'(4)] by (simp add: same_sizes_def)
  ultimately show ?thesis using bk'(2,3) by blast
qed

lemma opp_head:
  "side \<in> {BUY, SELL} \<Longrightarrow>
     (if side = BUY then ob_asks_by_price bk else ob_bids_by_price bk) = side_head bk (opp side)"
  by (auto simp: side_head_def)

lemma crosses_code:
  "side \<in> {BUY, SELL} \<Longrightarrow>
     (if side = BUY then price < passive else price > passive) \<longleftrightarrow> \<not> crosses side price passive"
  by (auto simp: crosses_def)

text \<open>
  The loop: with fuel for every order of the other side it ends, and returns what \<open>a_match\<close> says.
\<close>

lemma checkForMatch_loop_ok:
  assumes "book_inv {} bk sh" and side: "side \<in> {BUY, SELL}"
    and "length (side_ptrs (sh (opp side))) \<le> fuel"
    and g: "g = \<lparr>ag_ticker = tid, ag_client = cid, ag_order = oid, ag_market = mid, ag_side = side,
      ag_price = price\<rparr>"
    and "a_match g q (abs_orders bk sh (opp side)) = (ns, leaves, rs, us)"
  shows "\<exists>bk' L. checkForMatch_loop fuel bk mq cid oid tid side price mid q =
      Inr (bk', send mq (rs, us), leaves) \<and>
    book_inv {} bk' (sh(opp side := L)) \<and> same_sizes bk bk' \<and>
    abs_orders bk' (sh(opp side := L)) (opp side) = ns \<and>
    abs_orders bk' (sh(opp side := L)) side = abs_orders bk sh side"
  using assms(1,3,5)
proof (induction "side_ptrs (sh (opp side))" arbitrary: bk sh mq q fuel ns leaves rs us)
  case Nil
  then have "abs_orders bk sh (opp side) = []" by (simp add: abs_orders_def)
  moreover have "side_head bk (opp side) = None"
    using best_order(1) [OF Nil(2) opp_simps(3)] Nil(1) by metis
  ultimately show ?case using Nil opp_head [OF side, of bk]
    by (intro exI [of _ bk] exI [of _ "sh (opp side)"])
       (simp add: checkForMatch_loop.simps same_sizes_def)
next
  case (Cons p ps)
  let ?t = "opp side"
  have t: "?t \<in> {BUY, SELL}" by (rule opp_simps(3))
  define n where "n = me_strip (mp_obj (ob_order_pool bk) p)"
  obtain ns0 where abs: "abs_orders bk sh ?t = n # ns0"
    using Cons(2) [symmetric] by (simp add: abs_orders_def n_def)
  obtain l where l: "side_head bk ?t = Some l"
    "oap_first_me_order (mp_obj (ob_orders_at_price_pool bk) l) = Some p"
    using best_order [OF Cons.prems(1) t] Cons(2) [symmetric] by (cases "side_head bk ?t") auto
  obtain fuel' where fuel: "fuel = Suc fuel'" "length ps \<le> fuel'"
    using Cons(2) [symmetric] Cons.prems(2) by (cases fuel) auto
  have head: "(if side = BUY then ob_asks_by_price bk else ob_bids_by_price bk) = Some l"
    using opp_head [OF side] l(1) by simp
  note step = checkForMatch_loop.simps [of fuel bk mq cid oid tid side price mid q,
      unfolded head crosses_code [OF side]]
  have pr: "me_price (mp_obj (ob_order_pool bk) p) = me_price n" by (simp add: n_def)
  show ?case
  proof (cases "q = 0 \<or> \<not> crosses side price (me_price n)")
    case True
    have "checkForMatch_loop fuel bk mq cid oid tid side price mid q = Inr (bk, mq, q)"
      unfolding step using l(2) fuel pr True by auto
    moreover have "(ns, leaves, rs, us) = (abs_orders bk sh ?t, q, [], [])"
      using Cons.prems(3) True g by (simp add: abs)
    ultimately show ?thesis using Cons.prems(1)
      by (intro exI [of _ bk] exI [of _ "sh ?t"]) (simp add: same_sizes_def)
  next
    case go: False
    have loop: "checkForMatch_loop fuel bk mq cid oid tid side price mid q =
        andThen (match bk mq tid cid side oid mid p q) (\<lambda>(bk1, mq1, q1).
          checkForMatch_loop fuel' bk1 mq1 cid oid tid side price mid q1)"
      unfolding step using go l(2) fuel pr by simp
    show ?thesis
    proof (cases "q < me_qty n")
      case True
      from match_partial [OF Cons.prems(1) t Cons(2) [symmetric] n_def True g, of mq] obtain bk1 where
        bk1: "match bk mq tid cid side oid mid p q = Inr (bk1,
            send mq (fill_responses g n q 0, [trade_update g n q, passive_update g n q]), 0)"
        "book_inv {} bk1 sh" "same_sizes bk bk1"
        "abs_orders bk1 sh ?t = n\<lparr>me_qty := me_qty n - q\<rparr> # ns0"
        "abs_orders bk1 sh (opp ?t) = abs_orders bk sh (opp ?t)" by (auto simp: abs)
      have "checkForMatch_loop fuel' bk1 mq' cid oid tid side price mid 0 = Inr (bk1, mq', 0)" for mq'
        by (subst checkForMatch_loop.simps) (simp split: option.splits)
      moreover have "(ns, leaves, rs, us) = (n\<lparr>me_qty := me_qty n - q\<rparr> # ns0, 0,
          fill_responses g n q 0, [trade_update g n q, passive_update g n q])"
        using Cons.prems(3) go True g by (simp add: abs)
      ultimately show ?thesis using bk1 loop opp_neq(2) [OF side]
        by (intro exI [of _ bk1] exI [of _ "sh ?t"]) simp
    next
      case False
      from match_full [OF Cons.prems(1) t Cons(2) [symmetric] n_def False g, of mq] obtain bk1 L where
        bk1: "match bk mq tid cid side oid mid p q = Inr (bk1,
            send mq (fill_responses g n (me_qty n) (q - me_qty n),
              [trade_update g n (me_qty n), passive_update g n (me_qty n)]), q - me_qty n)"
        "book_inv {} bk1 (sh(?t := L))" "same_sizes bk bk1" "side_ptrs L = ps"
        "abs_orders bk1 (sh(?t := L)) ?t = ns0"
        "abs_orders bk1 (sh(?t := L)) (opp ?t) = abs_orders bk sh (opp ?t)" by (auto simp: abs)
      obtain ns' q' rs' us' where rest: "a_match g (q - me_qty n) (ns0) = (ns', q', rs', us')"
        by (metis prod.collapse)
      have eq: "(ns, leaves, rs, us) = (ns', q', fill_responses g n (me_qty n) (q - me_qty n) @ rs',
          [trade_update g n (me_qty n), passive_update g n (me_qty n)] @ us')"
        using Cons.prems(3) go False g rest by (simp add: abs)
      define mq1 where "mq1 = send mq (fill_responses g n (me_qty n) (q - me_qty n),
        [trade_update g n (me_qty n), passive_update g n (me_qty n)])"
      from Cons.hyps(1) [of "sh(?t := L)" bk1 fuel' "q - me_qty n" ns' q' rs' us' mq1] bk1 rest fuel
      obtain bk' L' where "checkForMatch_loop fuel' bk1 mq1 cid oid tid side price mid (q - me_qty n) =
          Inr (bk', send mq1 (rs', us'), q')"
        "book_inv {} bk' (sh(?t := L'))" "same_sizes bk1 bk'" "abs_orders bk' (sh(?t := L')) ?t = ns'"
        "abs_orders bk' (sh(?t := L')) side = abs_orders bk1 (sh(?t := L)) side"
        by auto
      with bk1 loop eq opp_neq(2) [OF side] same_sizes_trans [of bk bk1 bk'] show ?thesis
        by (intro exI [of _ bk'] exI [of _ L']) (simp add: mq1_def)
    qed
  qed
qed

section \<open>The abstract book of a concrete one\<close>

text \<open>The number of price levels of a book.\<close>

definition levels :: "abook \<Rightarrow> nat" where
  "levels b = card (me_price ` set (ab_bids b)) + card (me_price ` set (ab_asks b))"

text \<open>
  The prices of the book do not share an index with \<open>price\<close>, except the same price on the same side.
\<close>

definition price_clear :: "abook \<Rightarrow> Side \<Rightarrow> Price \<Rightarrow> bool" where
  "price_clear b s price \<longleftrightarrow>
     (\<forall>t\<in>{BUY, SELL}. \<forall>x\<in>set (ab_side b t).
        priceToIndex (me_price x) = priceToIndex price \<longrightarrow> me_price x = price \<and> t = s)"

text \<open>
  When an order can be placed: a side, identifiers within the tables, no live order of the same client
  with the same identifier, no collision of prices, a free order and, if the price is new, a free
  level.
\<close>

definition place_ok :: "abook \<Rightarrow> ClientId \<Rightarrow> OrderId \<Rightarrow> Side \<Rightarrow> Price \<Rightarrow> bool" where
  "place_ok b cid oid side price \<longleftrightarrow>
     side \<in> {BUY, SELL} \<and> unat cid < ME_MAX_NUM_CLIENTS \<and> unat oid < ME_MAX_ORDER_IDS \<and>
     (\<forall>x\<in>set (ab_orders b). \<not> is_order cid oid x) \<and> price_clear b side price \<and>
     length (ab_orders b) + 1 < ME_MAX_ORDER_IDS \<and>
     (price \<in> me_price ` set (ab_side b side) \<or> levels b + 1 < ME_MAX_PRICE_LEVELS)"

text \<open>
  When a new order, which is matched first, is within what the book can hold. Orders at its own price
  may rest on either side: those of the other side are traded with before it is placed.
\<close>

definition price_apart :: "abook \<Rightarrow> Price \<Rightarrow> bool" where
  "price_apart b price \<longleftrightarrow>
     (\<forall>x\<in>set (ab_orders b). priceToIndex (me_price x) = priceToIndex price \<longrightarrow> me_price x = price)"

definition add_ok :: "abook \<Rightarrow> ClientId \<Rightarrow> OrderId \<Rightarrow> Side \<Rightarrow> Price \<Rightarrow> bool" where
  "add_ok b cid oid side price \<longleftrightarrow>
     side \<in> {BUY, SELL} \<and> unat cid < ME_MAX_NUM_CLIENTS \<and> unat oid < ME_MAX_ORDER_IDS \<and>
     (\<forall>x\<in>set (ab_orders b). \<not> is_order cid oid x) \<and> price_apart b price \<and>
     length (ab_orders b) + 1 < ME_MAX_ORDER_IDS \<and>
     (price \<in> me_price ` set (ab_side b side) \<or> levels b + 1 < ME_MAX_PRICE_LEVELS)"

lemma ab_side_abs: "s \<in> {BUY, SELL} \<Longrightarrow> ab_side (book_abs bk sh) s = abs_orders bk sh s"
  by (auto simp: ab_side_def book_abs_def)

lemma ab_side_set [simp]:
  "s \<in> {BUY, SELL} \<Longrightarrow> t \<in> {BUY, SELL} \<Longrightarrow>
     ab_side (ab_set_side b s xs) t = (if s = t then xs else ab_side b t)"
  "ab_next_id (ab_set_side b s xs) = ab_next_id b"
  "ab_side (b\<lparr>ab_next_id := m\<rparr>) t = ab_side b t"
  by (auto simp: ab_side_def ab_set_side_def)

lemma abook_eqI:
  assumes "\<And>s. s \<in> {BUY, SELL} \<Longrightarrow> ab_side a s = ab_side b s" and "ab_next_id a = ab_next_id b"
  shows "a = (b :: abook)"
  using assms(1) [of BUY] assms(1) [of SELL] assms(2) by (simp add: ab_side_def)

lemma order_count:
  assumes "book_inv {} bk sh"
  shows "card (mp_live (ob_order_pool bk)) = length (ab_orders (book_abs bk sh))"
proof -
  have "mp_live (ob_order_pool bk) = set (order_ptrs sh)" "distinct (order_ptrs sh)"
    using book_invD(1) [OF assms] by (simp_all add: pools_ok_def)
  then have "card (mp_live (ob_order_pool bk)) = length (order_ptrs sh)" by (metis distinct_card)
  then show ?thesis by (simp add: ab_orders_def book_abs_def abs_orders_def order_ptrs_def)
qed

lemma sorted_wrt_neq_distinct: "sorted_wrt (\<lambda>a b. a \<noteq> b) xs \<Longrightarrow> distinct xs"
  by (induction xs) auto

lemma level_prices:
  assumes inv: "book_inv X bk sh" and s: "s \<in> {BUY, SELL}"
  shows "me_price ` set (abs_orders bk sh s) =
      oap_price ` mp_obj (ob_orders_at_price_pool bk) ` fst ` set (sh s)"
    and "card (me_price ` set (abs_orders bk sh s)) = length (sh s)"
proof -
  let ?lo = "mp_obj (ob_orders_at_price_pool bk)" and ?oo = "mp_obj (ob_order_pool bk)"
  have so: "side_ok ?lo ?oo (side_head bk s) s (sh s)" by (rule book_invD(2) [OF inv s])
  have ne: "snd lv \<noteq> []" if "lv \<in> set (sh s)" for lv
    using so that by (auto simp: side_ok_def level_ok_def ring_def)
  have flat: "me_price ` set (abs_orders bk sh s) = me_price ` ?oo ` set (side_ptrs (sh s))"
    by (simp add: abs_orders_def image_image)
  have "oap_price (?lo (fst lv)) \<in> me_price ` ?oo ` set (side_ptrs (sh s))" if lv: "lv \<in> set (sh s)" for lv
  proof -
    obtain q where q: "q \<in> set (snd lv)" using ne [OF lv] by (cases "snd lv") auto
    then have "q \<in> set (side_ptrs (sh s))" using lv by (auto simp: side_ptrs_def)
    with side_prices [OF so lv q] show ?thesis by (metis imageI)
  qed
  moreover have "me_price (?oo q) \<in> oap_price ` ?lo ` fst ` set (sh s)" if "q \<in> set (side_ptrs (sh s))" for q
    using that side_prices [OF so] by (auto simp: side_ptrs_def image_iff)
  ultimately show eq: "me_price ` set (abs_orders bk sh s) = oap_price ` ?lo ` fst ` set (sh s)"
    using flat by auto
  have "sorted_wrt (\<lambda>a b. a \<noteq> b) (map (oap_price \<circ> ?lo \<circ> fst) (sh s))"
    using so unfolding side_ok_def levels_sorted_def sorted_wrt_map
    by (auto intro: sorted_wrt_mono_rel [rotated])
  then have "distinct (map (oap_price \<circ> ?lo \<circ> fst) (sh s))" by (rule sorted_wrt_neq_distinct)
  from distinct_card [OF this] show "card (me_price ` set (abs_orders bk sh s)) = length (sh s)"
    unfolding eq by (simp add: image_image)
qed

lemma level_count:
  assumes "book_inv {} bk sh"
  shows "card (mp_live (ob_orders_at_price_pool bk)) = levels (book_abs bk sh)"
proof -
  have "mp_live (ob_orders_at_price_pool bk) = set (level_ptrs sh)" "distinct (level_ptrs sh)"
    using book_invD(1) [OF assms] by (simp_all add: pools_ok_def)
  then have "card (mp_live (ob_orders_at_price_pool bk)) = length (level_ptrs sh)" by (metis distinct_card)
  then show ?thesis using level_prices(2) [OF assms, of BUY] level_prices(2) [OF assms, of SELL]
    by (simp add: levels_def book_abs_def level_ptrs_def)
qed

lemma order_lookup:
  assumes inv: "book_inv X bk sh" and c: "unat cid < ME_MAX_NUM_CLIENTS" and i: "unat oid < ME_MAX_ORDER_IDS"
  shows "ob_cid_oid_to_order bk (unat cid) (unat oid) = Some p \<longleftrightarrow>
    p \<in> set (order_ptrs sh) \<and> is_order cid oid (me_strip (mp_obj (ob_order_pool bk) p))"
  using book_invD(4) [OF inv] c i by (simp add: order_table_ok_def is_order_def word_unat_eq_iff)

lemma ab_orders_abs:
  "set (ab_orders (book_abs bk sh)) = (me_strip \<circ> mp_obj (ob_order_pool bk)) ` set (order_ptrs sh)"
  by (auto simp: ab_orders_def book_abs_def abs_orders_def order_ptrs_def)

section \<open>What matching leaves\<close>

lemma a_match_sub:
  assumes "a_match g q xs = (ns, leaves, rs, us)"
  shows "length ns \<le> length xs \<and> (\<forall>y\<in>set ns. \<exists>x\<in>set xs. \<exists>k. y = x\<lparr>me_qty := k\<rparr>)"
  using assms
proof (induction g q xs arbitrary: ns leaves rs us rule: a_match.induct)
  case (1 g q)
  then show ?case by simp
next
  case (2 g q n xs)
  show ?case
  proof (cases "q = 0 \<or> \<not> crosses (ag_side g) (ag_price g) (me_price n) \<or> q < me_qty n")
    case True
    have "x = x\<lparr>me_qty := me_qty x\<rparr>" for x :: MEOrder by simp
    then show ?thesis using "2.prems" True by (auto split: if_splits; blast)
  next
    case False
    obtain ns' q' rs' us' where r: "a_match g (q - me_qty n) xs = (ns', q', rs', us')"
      by (metis prod.collapse)
    then have "ns = ns'" using "2.prems" False by simp
    moreover have "length ns' \<le> length xs \<and> (\<forall>y\<in>set ns'. \<exists>x\<in>set xs. \<exists>k. y = x\<lparr>me_qty := k\<rparr>)"
      using "2.IH" False r by blast
    ultimately show ?thesis by auto
  qed
qed

lemma a_match_keeps:
  assumes "a_match g q xs = (ns, leaves, rs, us)"
  shows "(\<forall>x\<in>set xs. P (me_price x)) \<Longrightarrow> \<forall>y\<in>set ns. P (me_price y)"
    and "(\<forall>x\<in>set xs. \<not> is_order cid oid x) \<Longrightarrow> \<forall>y\<in>set ns. \<not> is_order cid oid y"
    and "length ns \<le> length xs" and "card (me_price ` set ns) \<le> card (me_price ` set xs)"
proof -
  note sub = a_match_sub [OF assms]
  show "(\<forall>x\<in>set xs. P (me_price x)) \<Longrightarrow> \<forall>y\<in>set ns. P (me_price y)"
    and "(\<forall>x\<in>set xs. \<not> is_order cid oid x) \<Longrightarrow> \<forall>y\<in>set ns. \<not> is_order cid oid y"
    using sub by (fastforce simp: is_order_def)+
  show "length ns \<le> length xs" using sub by simp
  have "me_price ` set ns \<subseteq> me_price ` set xs" using sub by fastforce
  then show "card (me_price ` set ns) \<le> card (me_price ` set xs)" by (simp add: card_mono)
qed

text \<open>
  What a match does to the list: the orders at the front are filled, and of the first one left
  some of the quantity may be gone.
\<close>

lemma a_match_split:
  assumes "a_match g q xs = (ns, leaves, rs, us)"
  obtains dn rest where "xs = dn @ rest" and "\<forall>x\<in>set dn. crosses (ag_side g) (ag_price g) (me_price x)"
    and "ns = rest \<or> (\<exists>x rest' k. rest = x # rest' \<and> ns = x\<lparr>me_qty := me_qty x - k\<rparr> # rest' \<and>
           k < me_qty x \<and> crosses (ag_side g) (ag_price g) (me_price x) \<and> leaves = 0)"
    and "leaves \<noteq> 0 \<longrightarrow> rest = [] \<or> \<not> crosses (ag_side g) (ag_price g) (me_price (hd rest))"
  using assms
proof (induction g q xs arbitrary: ns leaves rs us thesis rule: a_match.induct)
  case (1 g q)
  then show ?case by (auto intro: "1.prems"(1) [of "[]" "[]"])
next
  case (2 g q n xs)
  consider (stop) "q = 0 \<or> \<not> crosses (ag_side g) (ag_price g) (me_price n)"
    | (part) "\<not> (q = 0 \<or> \<not> crosses (ag_side g) (ag_price g) (me_price n))" "q < me_qty n"
    | (full) "\<not> (q = 0 \<or> \<not> crosses (ag_side g) (ag_price g) (me_price n))" "\<not> q < me_qty n"
    by blast
  then show ?case
  proof cases
    case stop
    with "2.prems"(2) show ?thesis by (intro "2.prems"(1) [of "[]" "n # xs"]) auto
  next
    case part
    with "2.prems"(2) have "ns = n\<lparr>me_qty := me_qty n - q\<rparr> # xs" "leaves = 0" by auto
    with part show ?thesis by (intro "2.prems"(1) [of "[]" "n # xs"]) auto
  next
    case full
    obtain ns' q' rs' us' where r: "a_match g (q - me_qty n) xs = (ns', q', rs', us')"
      by (metis prod.collapse)
    with "2.prems"(2) full have eq: "ns = ns'" "leaves = q'" by auto
    from "2.IH" [OF full _ r] obtain dn rest where d: "xs = dn @ rest"
      "\<forall>x\<in>set dn. crosses (ag_side g) (ag_price g) (me_price x)"
      "ns' = rest \<or> (\<exists>x rest' k. rest = x # rest' \<and> ns' = x\<lparr>me_qty := me_qty x - k\<rparr> # rest' \<and>
         k < me_qty x \<and> crosses (ag_side g) (ag_price g) (me_price x) \<and> q' = 0)"
      "q' \<noteq> 0 \<longrightarrow> rest = [] \<or> \<not> crosses (ag_side g) (ag_price g) (me_price (hd rest))" by blast
    show ?thesis
      by (rule "2.prems"(1) [of "n # dn" rest]) (use d eq full in auto)
  qed
qed

text \<open>The orders of a side stand best price first; then nothing that crosses is left behind what does not.\<close>

definition best_first :: "Side \<Rightarrow> MEOrder list \<Rightarrow> bool" where
  "best_first s xs \<longleftrightarrow> sorted_wrt (\<lambda>x y. \<not> better s (me_price y) (me_price x)) xs"

lemma a_match_no_cross:
  assumes "a_match g q xs = (ns, leaves, rs, us)" and "leaves \<noteq> 0" and "best_first (opp (ag_side g)) xs"
  shows "\<forall>y\<in>set ns. \<not> crosses (ag_side g) (ag_price g) (me_price y)"
proof -
  obtain dn rest where d: "xs = dn @ rest"
    "ns = rest \<or> (\<exists>x rest' k. rest = x # rest' \<and> ns = x\<lparr>me_qty := me_qty x - k\<rparr> # rest' \<and>
       k < me_qty x \<and> crosses (ag_side g) (ag_price g) (me_price x) \<and> leaves = 0)"
    "leaves \<noteq> 0 \<longrightarrow> rest = [] \<or> \<not> crosses (ag_side g) (ag_price g) (me_price (hd rest))"
    by (rule a_match_split [OF assms(1)])
  have r: "ns = rest" "best_first (opp (ag_side g)) rest"
    using assms(2,3) d(1,2) by (auto simp: best_first_def sorted_wrt_append)
  show ?thesis
  proof (cases rest)
    case (Cons x xs')
    have "\<not> crosses (ag_side g) (ag_price g) (me_price x)" using d(3) assms(2) Cons by simp
    then show ?thesis using r Cons by (force simp: best_first_def better_def crosses_def opp_def split: if_splits)
  qed (use r in simp)
qed

lemma levels_best_first:
  assumes "levels_sorted lo s (map fst L)" and "\<forall>lv\<in>set L. level_ok lo oo s lv"
  shows "sorted_wrt (\<lambda>p q. \<not> better s (me_price (oo q)) (me_price (oo p))) (side_ptrs L)"
  using assms
proof (induction L)
  case (Cons lv L)
  obtain l ps where lv: "lv = (l, ps)" by (cases lv)
  have p: "\<forall>p\<in>set ps. me_price (oo p) = oap_price (lo l)" using Cons.prems(2) lv by (simp add: level_ok_def)
  have q: "better s (oap_price (lo l)) (me_price (oo q))" if "q \<in> set (side_ptrs L)" for q
  proof -
    from that obtain lv' where "lv' \<in> set L" "q \<in> set (snd lv')" by (auto simp: side_ptrs_def)
    then show ?thesis using Cons.prems lv by (auto simp: levels_sorted_def level_ok_def)
  qed
  have "sorted_wrt (\<lambda>p q. \<not> better s (me_price (oo q)) (me_price (oo p))) ps"
    using p by (induction ps) (auto simp: better_def)
  moreover have "sorted_wrt (\<lambda>p q. \<not> better s (me_price (oo q)) (me_price (oo p))) (side_ptrs L)"
    using Cons by (simp add: levels_sorted_def)
  moreover have "\<not> better s (me_price (oo q)) (me_price (oo p))" if "p \<in> set ps" "q \<in> set (side_ptrs L)" for p q
    using p that(1) q [OF that(2)] by (auto simp: better_def split: if_splits)
  ultimately show ?case using lv by (simp add: side_ptrs_def sorted_wrt_append)
qed (simp add: side_ptrs_def)

lemma abs_best_first:
  assumes "book_inv X bk sh" and "s \<in> {BUY, SELL}"
  shows "best_first s (abs_orders bk sh s)"
proof -
  have "side_ok (mp_obj (ob_orders_at_price_pool bk)) (mp_obj (ob_order_pool bk)) (side_head bk s) s (sh s)"
    by (rule book_invD(2) [OF assms])
  from levels_best_first [of "mp_obj (ob_orders_at_price_pool bk)" s "sh s" "mp_obj (ob_order_pool bk)"] this show ?thesis
    by (simp add: side_ok_def best_first_def abs_orders_def sorted_wrt_map me_strip_def)
qed

section \<open>New orders\<close>

lemma book_inv_next_id [simp]:
  "book_inv X (bk\<lparr>ob_next_market_order_id := m\<rparr>) sh = book_inv X bk sh"
  by (simp add: book_inv_def Let_def)

lemma abs_orders_frame [simp]:
  "abs_orders (bk\<lparr>ob_next_market_order_id := m\<rparr>) sh s = abs_orders bk sh s"
  by (simp add: abs_orders_def)

lemma a_insert_append:
  assumes "\<forall>x\<in>set us. \<not> better s (me_price n) (me_price x)"
    and "\<forall>x\<in>set vs. better s (me_price n) (me_price x)"
  shows "a_insert s n (us @ vs) = us @ n # vs"
  using assms by (cases vs) (simp_all add: a_insert_def)

text \<open>A new order goes in behind the orders of its side that are not worse.\<close>

lemma insert_ok:
  assumes inv: "book_inv {} bk sh" and ok: "place_ok (book_abs bk sh) cid oid side price"
    and sizes: "mp_size (ob_order_pool bk) = ME_MAX_ORDER_IDS"
      "mp_size (ob_orders_at_price_pool bk) = ME_MAX_PRICE_LEVELS"
    and n: "me_client_id n = cid" "me_client_order_id n = oid" "me_side n = side" "me_price n = price"
      "me_strip n = n"
  shows "\<exists>p op bk' L. allocate (ob_order_pool bk) n = Inr (p, op) \<and>
      addOrder (bk\<lparr>ob_order_pool := op\<rparr>) p = Inr bk' \<and> book_inv {} bk' (sh(side := L)) \<and>
      same_sizes bk bk' \<and>
      abs_orders bk' (sh(side := L)) side = a_insert side n (abs_orders bk sh side) \<and>
      abs_orders bk' (sh(side := L)) (opp side) = abs_orders bk sh (opp side)"
proof -
  let ?b = "book_abs bk sh" and ?op = "ob_order_pool bk"
  have s: "side \<in> {BUY, SELL}" and c: "unat cid < ME_MAX_NUM_CLIENTS" "unat oid < ME_MAX_ORDER_IDS"
    and fresh: "\<forall>x\<in>set (ab_orders ?b). \<not> is_order cid oid x" and clear: "price_clear ?b side price"
    using ok by (simp_all add: place_ok_def)
  have nc: "no_collision bk sh side price"
    using clear by (auto simp: no_collision_def price_clear_def ab_side_abs abs_orders_def)
  have "mp_room ?op" using ok sizes order_count [OF inv] by (simp add: mp_room_def place_ok_def)
  from book_inv_alloc [OF inv this, of n] obtain p op where
    p: "allocate ?op n = Inr (p, op)" "p \<notin> set (order_ptrs sh)"
    "mp_obj op = (mp_obj ?op)(p := n)" "mp_size op = mp_size ?op"
    "book_inv {p} (bk\<lparr>ob_order_pool := op\<rparr>) sh" by auto
  let ?bk1 = "bk\<lparr>ob_order_pool := op\<rparr>"
  have obj: "mp_obj op q = mp_obj ?op q" if "q \<in> set (order_ptrs sh)" for q
    using that p(2,3) by auto
  have abs1: "map (me_strip \<circ> mp_obj op) (side_ptrs (sh t)) = abs_orders bk sh t" if "t \<in> {BUY, SELL}" for t
    using obj that by (auto simp: abs_orders_def order_ptrs_iff)
  have tbl: "ob_cid_oid_to_order bk (unat cid) (unat oid) = None"
  proof (rule ccontr)
    assume "ob_cid_oid_to_order bk (unat cid) (unat oid) \<noteq> None"
    then obtain q where "q \<in> set (order_ptrs sh)" "is_order cid oid (me_strip (mp_obj ?op q))"
      using order_lookup [OF inv c] by auto
    then show False using fresh by (auto simp: ab_orders_abs)
  qed
  have a: "addable ?bk1 sh side p"
    using s c tbl p(3) n by (simp add: addable_def)
  have nc1: "no_collision ?bk1 sh side (me_price (mp_obj op p))"
    using nc obj p(3) n by (auto simp: no_collision_def order_ptrs_iff)
  have room: "mp_room (ob_orders_at_price_pool ?bk1) \<or>
      ob_price_orders_at_price ?bk1 (priceToIndex (me_price (mp_obj op p))) \<noteq> None"
  proof (cases "price \<in> me_price ` set (abs_orders bk sh side)")
    case True
    then obtain lv where "lv \<in> set (sh side)" "oap_price (mp_obj (ob_orders_at_price_pool bk) (fst lv)) = price"
      using level_prices(1) [OF inv s] by auto
    with book_level_lookup [OF inv s] p(3) n show ?thesis by fastforce
  next
    case False
    then show ?thesis using ok sizes level_count [OF inv] ab_side_abs [OF s, of bk sh]
      by (simp add: mp_room_def place_ok_def)
  qed
  from addOrder_ok [OF p(5) _ a _ nc1 room] obtain bk' L us vs where
    r: "addOrder ?bk1 p = Inr bk'" "book_inv {} bk' (sh(side := L))" "same_but_links ?bk1 bk'"
    "side_ptrs (sh side) = us @ vs" "side_ptrs L = us @ p # vs"
    "\<forall>q\<in>set us. \<not> better side (me_price (mp_obj op p)) (me_price (mp_obj op q))"
    "\<forall>q\<in>set vs. better side (me_price (mp_obj op p)) (me_price (mp_obj op q))"
    by auto
  have own: "abs_orders bk' (sh(side := L)) side = a_insert side n (abs_orders bk sh side)"
  proof -
    have "abs_orders bk' (sh(side := L)) side =
        map (me_strip \<circ> mp_obj op) us @ n # map (me_strip \<circ> mp_obj op) vs"
      using same_but_links_abs [OF r(3), of "sh(side := L)" side] r(5) p(3) n by simp
    also have "\<dots> = a_insert side n (map (me_strip \<circ> mp_obj op) us @ map (me_strip \<circ> mp_obj op) vs)"
      by (rule a_insert_append [symmetric]) (use r(6,7) p(3) n in auto)
    also have "map (me_strip \<circ> mp_obj op) us @ map (me_strip \<circ> mp_obj op) vs = abs_orders bk sh side"
      using abs1 [OF s] r(4) by simp
    finally show ?thesis .
  qed
  moreover have "abs_orders bk' (sh(side := L)) (opp side) = abs_orders bk sh (opp side)"
    using same_but_links_abs [OF r(3), of "sh(side := L)" "opp side"] abs1 [of "opp side"] opp_neq [OF s]
      opp_simps(3) [of side] by simp
  moreover have "same_sizes bk bk'"
    using same_but_links_sizes [OF r(3)] p(4) by (simp add: same_sizes_def)
  ultimately show ?thesis using p(1) r(1,2) by blast
qed

text \<open>The book after matching, with what is left of the order to be put in.\<close>

lemma rest_ok:
  assumes inv: "book_inv {} bk sh" and ok: "place_ok (book_abs bk sh) cid oid side price"
    and sizes: "mp_size (ob_order_pool bk) = ME_MAX_ORDER_IDS"
      "mp_size (ob_orders_at_price_pool bk) = ME_MAX_PRICE_LEVELS"
    and n: "n = \<lparr>me_ticker_id = tid, me_client_id = cid, me_client_order_id = oid,
      me_market_order_id = mid, me_side = side, me_price = price, me_qty = qty,
      me_priority = a_priority price (abs_orders bk sh side), me_prev_order = None, me_next_order = None\<rparr>"
  shows "getNextPriority bk price = Inr (a_priority price (abs_orders bk sh side)) \<and>
    (\<exists>p op bk' L. allocate (ob_order_pool bk) n = Inr (p, op) \<and>
      addOrder (bk\<lparr>ob_order_pool := op\<rparr>) p = Inr bk' \<and> book_inv {} bk' (sh(side := L)) \<and>
      same_sizes bk bk' \<and>
      abs_orders bk' (sh(side := L)) side = a_insert side n (abs_orders bk sh side) \<and>
      abs_orders bk' (sh(side := L)) (opp side) = abs_orders bk sh (opp side))"
proof -
  have s: "side \<in> {BUY, SELL}" and clear: "price_clear (book_abs bk sh) side price"
    using ok by (simp_all add: place_ok_def)
  have nc: "no_collision bk sh side price"
    using clear by (auto simp: no_collision_def price_clear_def ab_side_abs abs_orders_def)
  have prio: "getNextPriority bk price = Inr (a_priority price (abs_orders bk sh side))"
    using getNextPriority_ok [OF inv nc s]
    by (simp add: a_priority_def abs_orders_def filter_map comp_def last_map split: list.splits)
  moreover have "me_strip n = n" by (simp add: n me_strip_def)
  ultimately show ?thesis using insert_ok [OF inv ok sizes, of n] n by simp
qed

lemma ab_by_side:
  assumes "s \<in> {BUY, SELL}"
  shows "set (ab_orders b) = set (ab_side b s) \<union> set (ab_side b (opp s))"
    and "length (ab_orders b) = length (ab_side b s) + length (ab_side b (opp s))"
    and "levels b = card (me_price ` set (ab_side b s)) + card (me_price ` set (ab_side b (opp s)))"
    and "price_clear b s price \<longleftrightarrow>
      (\<forall>x\<in>set (ab_side b s). priceToIndex (me_price x) = priceToIndex price \<longrightarrow> me_price x = price) \<and>
      (\<forall>x\<in>set (ab_side b (opp s)). priceToIndex (me_price x) \<noteq> priceToIndex price)"
  using assms by (auto simp: ab_orders_def ab_side_def levels_def price_clear_def)

lemma place_ok_after_match:
  assumes ok: "add_ok b cid oid side price" and m: "a_match g q (ab_side b (opp side)) = (ns, leaves, rs, us)"
    and g: "ag_side g = side" "ag_price g = price" and left: "leaves \<noteq> 0" and sorted: "best_first (opp side) (ab_side b (opp side))"
    and b1: "ab_side b1 side = ab_side b side" "ab_side b1 (opp side) = ns"
  shows "place_ok b1 cid oid side price"
proof -
  have s: "side \<in> {BUY, SELL}" using ok by (simp add: add_ok_def)
  note keeps = a_match_keeps [OF m]
  have "\<forall>y\<in>set ns. \<not> crosses side price (me_price y)" using a_match_no_cross [OF m left] sorted g by simp
  then have "price \<notin> me_price ` set ns" by (auto simp: crosses_def)
  moreover have "\<forall>x\<in>set (ab_side b side) \<union> set ns. priceToIndex (me_price x) = priceToIndex price \<longrightarrow> me_price x = price"
    using ok keeps(1) [of "\<lambda>p. priceToIndex p = priceToIndex price \<longrightarrow> p = price"]
    unfolding add_ok_def price_apart_def ab_by_side(1) [OF s] by blast
  ultimately have "price_clear b1 side price" unfolding ab_by_side(4) [OF s] b1 by blast
  moreover have "\<forall>x\<in>set (ab_orders b1). \<not> is_order cid oid x"
    using ok keeps(2) [of cid oid] by (auto simp: add_ok_def ab_by_side(1) [OF s] b1)
  moreover have "length (ab_orders b1) \<le> length (ab_orders b)" "levels b1 \<le> levels b"
    using keeps(3,4) by (simp_all add: ab_by_side(2,3) [OF s] b1)
  ultimately show ?thesis using ok b1(1) by (auto simp: add_ok_def place_ok_def)
qed

lemma add_refines:
  assumes rep: "book_rep bk b" and ok: "add_ok b cid oid side price"
  shows "\<exists>bk'. add bk mq cid oid tid side price qty = Inr (bk', send mq (snd (a_add b cid oid tid side price qty))) \<and>
    book_rep bk' (fst (a_add b cid oid tid side price qty))"
proof -
  from rep obtain sh where inv: "book_inv {} bk sh" and b: "b = book_abs bk sh"
    and sizes: "mp_size (ob_order_pool bk) = ME_MAX_ORDER_IDS"
      "mp_size (ob_orders_at_price_pool bk) = ME_MAX_PRICE_LEVELS"
    by (auto simp: book_rep_def)
  have s: "side \<in> {BUY, SELL}" using ok by (simp add: add_ok_def)
  note o = opp_simps(3) [of side] opp_neq [OF s]
  define mid where "mid = ob_next_market_order_id bk"
  define bk1 where "bk1 = bk\<lparr>ob_next_market_order_id := mid + 1\<rparr>"
  define g where "g = \<lparr>ag_ticker = tid, ag_client = cid, ag_order = oid,
    ag_market = ucast (ucast mid :: Qty), ag_side = side, ag_price = price\<rparr>"
  define acc where "acc = \<lparr>cr_type = ACCEPTED, cr_client_id = cid, cr_ticker_id = tid,
    cr_client_order_id = oid, cr_market_order_id = mid, cr_side = side, cr_price = price,
    cr_exec_qty = 0, cr_leaves_qty = qty\<rparr>"
  obtain ns leaves rs us where m: "a_match g qty (abs_orders bk sh (opp side)) = (ns, leaves, rs, us)"
    by (metis prod.collapse)
  have fuel: "length (side_ptrs (sh (opp side))) \<le> mp_size (ob_order_pool bk1)"
    using ok sizes order_count [OF inv] b o
    by (auto simp: add_ok_def bk1_def ab_orders_def book_abs_def abs_orders_def opp_def)
  have "book_inv {} bk1 sh" "abs_orders bk1 sh = abs_orders bk sh"
    using inv by (simp_all add: bk1_def fun_eq_iff)
  from checkForMatch_loop_ok [OF this(1) s fuel g_def, of qty ns leaves rs us "sendClientResponse mq acc"] m this(2)
  obtain bk2 L where bk2: "checkForMatch_loop (mp_size (ob_order_pool bk1)) bk1 (sendClientResponse mq acc)
      cid oid tid side price (ucast (ucast mid :: Qty)) qty = Inr (bk2, send mq (acc # rs, us), leaves)"
    "book_inv {} bk2 (sh(opp side := L))" "same_sizes bk1 bk2"
    "abs_orders bk2 (sh(opp side := L)) (opp side) = ns"
    "abs_orders bk2 (sh(opp side := L)) side = abs_orders bk sh side"
    by (auto simp: to_send)
  let ?sh2 = "sh(opp side := L)"
  have sizes2: "mp_size (ob_order_pool bk2) = ME_MAX_ORDER_IDS"
    "mp_size (ob_orders_at_price_pool bk2) = ME_MAX_PRICE_LEVELS" "ob_next_market_order_id bk2 = mid + 1"
    using bk2(3) sizes by (simp_all add: same_sizes_def bk1_def)
  have code: "add bk mq cid oid tid side price qty = andThen (Inr (bk2, send mq (acc # rs, us), leaves))
    (\<lambda>(bk2, mq2, leaves_qty). if leaves_qty \<noteq> 0 then
        andThen (getNextPriority bk2 price) (\<lambda>priority.
        andThen (allocate (ob_order_pool bk2)
            \<lparr>me_ticker_id = tid, me_client_id = cid, me_client_order_id = oid, me_market_order_id = mid,
             me_side = side, me_price = price, me_qty = leaves_qty, me_priority = priority,
             me_prev_order = None, me_next_order = None\<rparr>) (\<lambda>(order, op).
        andThen (addOrder (bk2\<lparr>ob_order_pool := op\<rparr>) order) (\<lambda>bk3.
        Inr (bk3, sendMarketUpdate mq2
            \<lparr>mu_type = ADD, mu_order_id = mid, mu_ticker_id = tid,
             mu_side = side, mu_price = price, mu_qty = leaves_qty, mu_priority = priority\<rparr>))))
      else Inr (bk2, mq2))"
    unfolding add_def generateNewMarketOrderId_def mid_def [symmetric] bk1_def [symmetric] acc_def [symmetric]
      checkForMatch_def Let_def prod.case bk2(1) using s by simp
  have absb: "ab_side b side = abs_orders bk sh side" "ab_side b (opp side) = abs_orders bk sh (opp side)"
    "ab_next_id b = mid"
    using b ab_side_abs [OF s] ab_side_abs [OF o(1)] by (simp_all add: mid_def book_abs_def)
  define b1 where "b1 = (ab_set_side b (opp side) ns)\<lparr>ab_next_id := mid + 1\<rparr>"
  have side1: "ab_side b1 t = (if t = opp side then ns else ab_side b t)" "ab_next_id b1 = mid + 1"
    if "t \<in> {BUY, SELL}" for t
    using o that by (simp_all add: b1_def)
  have b1: "b1 = book_abs bk2 ?sh2"
  proof (rule abook_eqI)
    show "ab_side b1 t = ab_side (book_abs bk2 ?sh2) t" if t: "t \<in> {BUY, SELL}" for t
      using ab_side_abs [OF t, of bk2 ?sh2] side1(1) [OF t] opp_cases [OF s, of t] t bk2(4,5) absb o(2) by auto
    show "ab_next_id b1 = ab_next_id (book_abs bk2 ?sh2)"
      using sizes2(3) by (simp add: b1_def book_abs_def)
  qed
  show ?thesis
  proof (cases "leaves = 0")
    case True
    have "a_add b cid oid tid side price qty = (b1, acc # rs, us)"
      using m [unfolded g_def] True by (simp add: a_add_def absb Let_def acc_def b1_def)
    moreover have "book_rep bk2 b1" using b1 bk2(2) sizes2 by (auto simp: book_rep_def)
    ultimately show ?thesis using code True by simp
  next
    case False
    define n where "n = \<lparr>me_ticker_id = tid, me_client_id = cid, me_client_order_id = oid,
      me_market_order_id = mid, me_side = side, me_price = price, me_qty = leaves,
      me_priority = a_priority price (abs_orders bk2 ?sh2 side), me_prev_order = None, me_next_order = None\<rparr>"
    have ok2: "place_ok (book_abs bk2 ?sh2) cid oid side price"
      by (rule place_ok_after_match [OF ok, of g qty ns leaves rs us])
         (use m absb b1 side1(1) [OF s] side1(1) [OF o(1)] o False abs_best_first [OF inv o(1)] in \<open>auto simp: g_def\<close>)
    from rest_ok [OF bk2(2) ok2 sizes2(1,2) n_def] obtain p op bk' L' where
      r: "getNextPriority bk2 price = Inr (a_priority price (abs_orders bk2 ?sh2 side))"
      "allocate (ob_order_pool bk2) n = Inr (p, op)" "addOrder (bk2\<lparr>ob_order_pool := op\<rparr>) p = Inr bk'"
      "book_inv {} bk' (?sh2(side := L'))" "same_sizes bk2 bk'"
      "abs_orders bk' (?sh2(side := L')) side = a_insert side n (abs_orders bk2 ?sh2 side)"
      "abs_orders bk' (?sh2(side := L')) (opp side) = abs_orders bk2 ?sh2 (opp side)" by blast
    have "a_add b cid oid tid side price qty =
        (ab_set_side b1 side (a_insert side n (abs_orders bk sh side)), acc # rs, us @ [add_update n])"
      using m [unfolded g_def] False bk2(5) by (simp add: a_add_def absb Let_def acc_def b1_def n_def)
    moreover have "add bk mq cid oid tid side price qty =
        Inr (bk', send mq (acc # rs, us @ [add_update n]))"
      using code False r(1-3) by (simp add: n_def add_update_def to_send)
    moreover have "ab_set_side b1 side (a_insert side n (abs_orders bk sh side)) =
        book_abs bk' (?sh2(side := L'))"
    proof (rule abook_eqI)
      show "ab_side (ab_set_side b1 side (a_insert side n (abs_orders bk sh side))) t =
          ab_side (book_abs bk' (?sh2(side := L'))) t" if t: "t \<in> {BUY, SELL}" for t
        using ab_side_abs [OF t, of bk' "?sh2(side := L')"] ab_side_set(1) [OF s t] side1(1) [OF t]
          opp_cases [OF s, of t] t r(6,7) bk2(4,5) o(2) by auto
      show "ab_next_id (ab_set_side b1 side (a_insert side n (abs_orders bk sh side))) =
          ab_next_id (book_abs bk' (?sh2(side := L')))"
        using r(5) sizes2(3) by (simp add: b1_def book_abs_def same_sizes_def)
    qed
    moreover have "mp_size (ob_order_pool bk') = ME_MAX_ORDER_IDS"
      "mp_size (ob_orders_at_price_pool bk') = ME_MAX_PRICE_LEVELS"
      using r(5) sizes2 by (simp_all add: same_sizes_def)
    ultimately show ?thesis using r(4) unfolding book_rep_def by (metis fst_conv snd_conv)
  qed
qed

section \<open>Cancels\<close>

lemma find_unique:
  assumes "x \<in> set xs" and "P x" and "\<And>y. y \<in> set xs \<Longrightarrow> P y \<Longrightarrow> y = x"
  shows "List.find P xs = Some x"
  using assms(1,3)
proof (induction xs)
  case (Cons y ys)
  show ?case
  proof (cases "P y")
    case True
    then show ?thesis using Cons.prems(2) [of y] by simp
  next
    case False
    then have "x \<in> set ys" using Cons.prems(1) assms(2) by auto
    then show ?thesis using Cons.IH Cons.prems(2) False by simp
  qed
qed simp

lemma find_none: "(\<forall>x\<in>set xs. \<not> P x) \<Longrightarrow> List.find P xs = None"
  by (simp add: find_None_iff)

text \<open>A cancel whose identifiers the tables can be asked for.\<close>

definition cancel_ok :: "ClientId \<Rightarrow> OrderId \<Rightarrow> bool" where
  "cancel_ok cid oid \<longleftrightarrow> unat cid < ME_MAX_NUM_CLIENTS \<longrightarrow> unat oid < ME_MAX_ORDER_IDS"

lemma cancel_unknown:
  assumes inv: "book_inv {} bk sh" and ok: "cancel_ok cid oid"
    and none: "unat cid < ME_MAX_NUM_CLIENTS \<Longrightarrow> ob_cid_oid_to_order bk (unat cid) (unat oid) = None"
  shows "cancel bk mq cid oid tid = Inr (bk, send mq (snd (a_cancel (book_abs bk sh) cid oid tid))) \<and>
    fst (a_cancel (book_abs bk sh) cid oid tid) = book_abs bk sh"
proof -
  have "\<not> is_order cid oid (me_strip (mp_obj (ob_order_pool bk) q))" if q: "q \<in> set (order_ptrs sh)" for q
  proof
    assume io: "is_order cid oid (me_strip (mp_obj (ob_order_pool bk) q))"
    then have c: "unat cid < ME_MAX_NUM_CLIENTS" "unat oid < ME_MAX_ORDER_IDS"
      using book_invD(4) [OF inv] q by (auto simp: order_table_ok_def is_order_def)
    with none order_lookup [OF inv c, of q] q io show False by simp
  qed
  then have f: "List.find (is_order cid oid) (ab_orders (book_abs bk sh)) = None"
    by (intro find_none) (auto simp: ab_orders_abs)
  have "(if unat cid < ME_MAX_NUM_CLIENTS then
          andThen (array_at ME_MAX_NUM_CLIENTS (ob_cid_oid_to_order bk) (unat cid))
            (\<lambda>co_itr. array_at ME_MAX_ORDER_IDS co_itr (unat oid)) else Inr None) = Inr None"
    using ok none by (simp add: cancel_ok_def)
  then show ?thesis unfolding cancel_def a_cancel_def f by (simp add: to_send)
qed

text \<open>Taking an order out leaves the others in their order.\<close>

lemma remove_ok:
  assumes inv: "book_inv {} bk sh" and c: "unat cid < ME_MAX_NUM_CLIENTS" "unat oid < ME_MAX_ORDER_IDS"
    and p: "ob_cid_oid_to_order bk (unat cid) (unat oid) = Some p"
  shows "\<exists>bk' sh'. removeOrder bk p = Inr bk' \<and> book_inv {} bk' sh' \<and> same_but_links bk bk' \<and>
    (\<forall>t\<in>{BUY, SELL}. abs_orders bk' sh' t = filter (\<lambda>x. \<not> is_order cid oid x) (abs_orders bk sh t))"
proof -
  let ?n = "me_strip (mp_obj (ob_order_pool bk) p)" and ?f = "me_strip \<circ> mp_obj (ob_order_pool bk)"
  have look: "q \<in> set (order_ptrs sh) \<Longrightarrow> is_order cid oid (?f q) \<longleftrightarrow> q = p" for q
    using order_lookup [OF inv c, of q] p by auto
  have pin: "p \<in> set (order_ptrs sh)" "is_order cid oid ?n"
    using order_lookup [OF inv c, of p] p by simp_all
  then obtain s where s: "s \<in> {BUY, SELL}" "p \<in> set (side_ptrs (sh s))" by (auto simp: order_ptrs_iff)
  from split_list [OF s(2)] obtain us vs where uv: "side_ptrs (sh s) = us @ p # vs" by blast
  have d: "distinct (side_ptrs (sh s))" using book_invD(1) [OF inv] ptrs_split(2) [OF s(1), of sh]
    by (simp add: pools_ok_def)
  from removeOrder_ok [OF inv s(1) uv] obtain bk' L where r: "removeOrder bk p = Inr bk'"
    "book_inv {} bk' (sh(s := L))" "side_ptrs L = us @ vs" "same_but_links bk bk'" by blast
  have "filter (\<lambda>x. \<not> is_order cid oid x) (abs_orders bk sh t) = abs_orders bk' (sh(s := L)) t"
    if t: "t \<in> {BUY, SELL}" for t
  proof -
    have "filter (\<lambda>x. \<not> is_order cid oid x) (abs_orders bk sh t) = map ?f (filter (\<lambda>q. q \<noteq> p) (side_ptrs (sh t)))"
    proof -
      have "filter (\<lambda>q. \<not> is_order cid oid (?f q)) (side_ptrs (sh t)) = filter (\<lambda>q. q \<noteq> p) (side_ptrs (sh t))"
        by (rule filter_cong) (use look t in \<open>auto simp: order_ptrs_iff\<close>)
      then show ?thesis by (simp add: abs_orders_def filter_map comp_def)
    qed
    moreover have "filter (\<lambda>q. q \<noteq> p) (side_ptrs (sh t)) = side_ptrs ((sh(s := L)) t)"
    proof (cases "t = s")
      case True
      have "filter (\<lambda>q. q \<noteq> p) us = us" "filter (\<lambda>q. q \<noteq> p) vs = vs"
        using d uv by (auto simp: filter_id_conv)
      then show ?thesis using uv r(3) True by simp
    next
      case False
      have "p \<notin> set (side_ptrs (sh t))"
        using book_invD(1) [OF inv] ptrs_split(2) [OF s(1), of sh] s t False opp_cases [OF s(1), of t]
        by (auto simp: pools_ok_def)
      then show ?thesis using False by (auto simp: filter_id_conv)
    qed
    ultimately show ?thesis using same_but_links_abs [OF r(4)] by simp
  qed
  with r(1,2,4) show ?thesis by (intro exI [of _ bk'] exI [of _ "sh(s := L)"]) simp
qed

lemma cancel_known:
  assumes inv: "book_inv {} bk sh" and c: "unat cid < ME_MAX_NUM_CLIENTS" "unat oid < ME_MAX_ORDER_IDS"
    and p: "ob_cid_oid_to_order bk (unat cid) (unat oid) = Some p"
  shows "\<exists>bk' sh'. cancel bk mq cid oid tid = Inr (bk', send mq (snd (a_cancel (book_abs bk sh) cid oid tid))) \<and>
    book_inv {} bk' sh' \<and> same_sizes bk bk' \<and> fst (a_cancel (book_abs bk sh) cid oid tid) = book_abs bk' sh'"
proof -
  let ?n = "me_strip (mp_obj (ob_order_pool bk) p)" and ?f = "me_strip \<circ> mp_obj (ob_order_pool bk)"
  have look: "q \<in> set (order_ptrs sh) \<Longrightarrow> is_order cid oid (?f q) \<longleftrightarrow> q = p" for q
    using order_lookup [OF inv c, of q] p by auto
  have pin: "p \<in> set (order_ptrs sh)" "is_order cid oid ?n"
    using order_lookup [OF inv c, of p] p by simp_all
  from remove_ok [OF inv c p] obtain bk' sh' where r: "removeOrder bk p = Inr bk'"
    "book_inv {} bk' sh'" "same_but_links bk bk'"
    "\<forall>t\<in>{BUY, SELL}. abs_orders bk' sh' t = filter (\<lambda>x. \<not> is_order cid oid x) (abs_orders bk sh t)" by blast
  have "List.find (is_order cid oid) (ab_orders (book_abs bk sh)) = Some ?n"
    by (rule find_unique) (use pin look in \<open>auto simp: ab_orders_abs\<close>)
  then have spec: "a_cancel (book_abs bk sh) cid oid tid =
     ((book_abs bk sh)\<lparr>ab_bids := filter (\<lambda>x. \<not> is_order cid oid x) (abs_orders bk sh BUY),
        ab_asks := filter (\<lambda>x. \<not> is_order cid oid x) (abs_orders bk sh SELL)\<rparr>,
      [\<lparr>cr_type = CANCELED, cr_client_id = cid, cr_ticker_id = tid, cr_client_order_id = oid,
        cr_market_order_id = me_market_order_id ?n, cr_side = me_side ?n, cr_price = me_price ?n,
        cr_exec_qty = Qty_INVALID, cr_leaves_qty = me_qty ?n\<rparr>],
      [\<lparr>mu_type = CANCEL, mu_order_id = me_market_order_id ?n, mu_ticker_id = tid,
        mu_side = me_side ?n, mu_price = me_price ?n, mu_qty = 0, mu_priority = me_priority ?n\<rparr>])"
    by (simp add: a_cancel_def book_abs_def)
  have "cancel bk mq cid oid tid = Inr (bk', send mq (snd (a_cancel (book_abs bk sh) cid oid tid)))"
    unfolding cancel_def spec using c p r(1) by (simp add: Let_def to_send)
  moreover have "fst (a_cancel (book_abs bk sh) cid oid tid) = book_abs bk' sh'"
    using r(3,4) unfolding spec by (simp add: book_abs_def same_but_links_def)
  ultimately show ?thesis using r(2) same_but_links_sizes [OF r(3)] by blast
qed

lemma cancel_refines:
  assumes rep: "book_rep bk b" and ok: "cancel_ok cid oid"
  shows "\<exists>bk'. cancel bk mq cid oid tid = Inr (bk', send mq (snd (a_cancel b cid oid tid))) \<and>
    book_rep bk' (fst (a_cancel b cid oid tid))"
proof -
  from rep obtain sh where inv: "book_inv {} bk sh" and b: "b = book_abs bk sh" by (auto simp: book_rep_def)
  show ?thesis
  proof (cases "unat cid < ME_MAX_NUM_CLIENTS \<and> ob_cid_oid_to_order bk (unat cid) (unat oid) \<noteq> None")
    case True
    then obtain p where "ob_cid_oid_to_order bk (unat cid) (unat oid) = Some p" by auto
    with cancel_known [OF inv _ _ this, of mq tid] True ok b rep show ?thesis
      by (auto simp: cancel_ok_def book_rep_def same_sizes_def)
  next
    case False
    with cancel_unknown [OF inv ok] b rep show ?thesis by auto
  qed
qed

text \<open>An identifier beyond the table of orders ends the process, whatever the book.\<close>

lemma cancel_out_of_range:
  "unat cid < ME_MAX_NUM_CLIENTS \<Longrightarrow> ME_MAX_ORDER_IDS \<le> unat oid \<Longrightarrow>
     cancel bk mq cid oid tid = Inl Out_of_range"
  by (simp add: cancel_def array_at_def)

lemma book_rep_new:
  "book_rep (MEOrderBook_new t (\<lambda>_ _. None) (\<lambda>_. None)) \<lparr>ab_bids = [], ab_asks = [], ab_next_id = 1\<rparr>"
  using book_inv_new [of t]
  by (auto simp: book_rep_def MEOrderBook_new_def book_abs_def abs_orders_def intro!: exI [of _ "\<lambda>_. []"])

end
