(* ===== verification/Market_Book_Refine.thy ===== *)
theory Market_Book_Refine
  imports Market_Order_Book ME_Book_Refine
begin

text \<open>
  The client's book runs the algorithm of the exchange's book. Reading every order as one of client
  0 with its market order id as its client order id turns a client's book into an exchange's book, and
  every operation of the one into the operation of the other. What was proved of the exchange's book
  then holds of the client's.
\<close>

section \<open>Pools of embedded objects\<close>

definition map_pool :: "('a \<Rightarrow> 'b) \<Rightarrow> 'a MemPool \<Rightarrow> 'b MemPool" where
  "map_pool f mp = \<lparr>mp_store = (\<lambda>i. \<lparr>object = f (object (mp_store mp i)), is_free = is_free (mp_store mp i)\<rparr>),
     mp_size = mp_size mp, mp_next_free_index = mp_next_free_index mp\<rparr>"

lemma map_pool_sel [simp]:
  "mp_size (map_pool f mp) = mp_size mp" "mp_obj (map_pool f mp) p = f (mp_obj mp p)"
  "mp_live (map_pool f mp) = mp_live mp" "mp_next_free_index (map_pool f mp) = mp_next_free_index mp"
  by (simp_all add: map_pool_def mp_obj_def mp_live_def)

lemma map_pool_upd:
  assumes "f (u (mp_obj mp p)) = v (f (mp_obj mp p))"
  shows "mp_upd (map_pool f mp) p v = map_pool f (mp_upd mp p u)"
  using assms by (auto simp: map_pool_def mp_upd_def mp_obj_def)

lemma search_map:
  "updateNextFreeIndex_loop (mp_store (map_pool f mp)) n init i = updateNextFreeIndex_loop (mp_store mp) n init i"
proof (induction "mp_store mp" n init i rule: updateNextFreeIndex_loop.induct)
  case (1 n init i)
  have free: "is_free (mp_store (map_pool f mp) i) = is_free (mp_store mp i)" by (simp add: map_pool_def)
  show ?case
  proof (cases "i < n \<and> init < n \<and> \<not> is_free (mp_store mp i) \<and> init \<noteq> next_index n i")
    case True
    with 1 show ?thesis by (simp add: updateNextFreeIndex_loop_step free)
  next
    case False
    then show ?thesis
      by (subst updateNextFreeIndex_loop.simps, subst (2) updateNextFreeIndex_loop.simps) (auto simp: free)
  qed
qed

abbreviation map_result :: "('a \<Rightarrow> 'b) \<Rightarrow> 'a result \<Rightarrow> 'b result" where
  "map_result \<equiv> map_sum id"

lemma map_result_andThen: "map_result g (andThen m k) = andThen m (\<lambda>x. map_result g (k x))"
  by (cases m) simp_all

lemma map_result_if: "map_result g (if c then m else m') = (if c then map_result g m else map_result g m')"
  by simp

lemma andThen_map_result: "andThen (map_result g m) k = andThen m (\<lambda>x. k (g x))"
  by (cases m) simp_all

lemma updateNextFreeIndex_map:
  "updateNextFreeIndex (map_pool f mp) = map_result (map_pool f) (updateNextFreeIndex mp)"
proof -
  have "(map_pool f mp)\<lparr>mp_next_free_index := i\<rparr> = map_pool f (mp\<lparr>mp_next_free_index := i\<rparr>)" for i
    by (simp add: map_pool_def)
  then show ?thesis by (simp add: updateNextFreeIndex_def search_map map_result_andThen)
qed

lemma allocate_map: "allocate (map_pool f mp) (f x) = map_result (map_prod id (map_pool f)) (allocate mp x)"
proof -
  let ?r = "mp_next_free_index mp"
  have store: "(map_pool f mp)\<lparr>mp_store := (mp_store (map_pool f mp))(?r := \<lparr>object = f x, is_free = False\<rparr>)\<rparr> =
      map_pool f (mp\<lparr>mp_store := (mp_store mp)(?r := \<lparr>object = x, is_free = False\<rparr>)\<rparr>)"
    by (auto simp: map_pool_def)
  have free: "is_free (mp_store (map_pool f mp) ?r) = is_free (mp_store mp ?r)" by (simp add: map_pool_def)
  show ?thesis
    by (cases "?r < mp_size mp")
       (simp_all add: allocate_def array_get_def store free Let_def updateNextFreeIndex_map map_result_andThen
          andThen_map_result)
qed

lemma deallocate_map: "deallocate (map_pool f mp) p = map_result (map_pool f) (deallocate mp p)"
proof -
  have "(map_pool f mp)\<lparr>mp_store := (mp_store (map_pool f mp))(p := (mp_store (map_pool f mp) p)\<lparr>is_free := True\<rparr>)\<rparr> =
      map_pool f (mp\<lparr>mp_store := (mp_store mp)(p := (mp_store mp p)\<lparr>is_free := True\<rparr>)\<rparr>)"
    by (auto simp: map_pool_def)
  moreover have "is_free (mp_store (map_pool f mp) p) = is_free (mp_store mp p)" by (simp add: map_pool_def)
  ultimately show ?thesis by (simp add: deallocate_def map_result_andThen)
qed

lemma MemPool_new_map: "MemPool_new n (f d) = map_pool f (MemPool_new n d)"
  by (simp add: MemPool_new_def map_pool_def)

section \<open>The embedding\<close>

definition emb_order :: "TickerId \<Rightarrow> MarketOrder \<Rightarrow> MEOrder" where
  "emb_order t n = \<lparr>me_ticker_id = t, me_client_id = 0, me_client_order_id = mo_order_id n,
     me_market_order_id = mo_order_id n, me_side = mo_side n, me_price = mo_price n, me_qty = mo_qty n,
     me_priority = mo_priority n, me_prev_order = mo_prev_order n, me_next_order = mo_next_order n\<rparr>"

definition emb_level :: "MarketOrdersAtPrice \<Rightarrow> MEOrdersAtPrice" where
  "emb_level l = \<lparr>oap_side = mop_side l, oap_price = mop_price l, oap_first_me_order = mop_first_mkt_order l,
     oap_prev_entry = mop_prev_entry l, oap_next_entry = mop_next_entry l\<rparr>"

definition emb_table :: "(nat \<Rightarrow> pointer) \<Rightarrow> nat \<Rightarrow> nat \<Rightarrow> pointer" where
  "emb_table tbl c = (if c = 0 then tbl else (\<lambda>_. None))"

definition emb :: "MarketOrderBook \<Rightarrow> MEOrderBook" where
  "emb b = \<lparr>ob_ticker_id = mb_ticker_id b, ob_cid_oid_to_order = emb_table (mb_oid_to_order b),
     ob_orders_at_price_pool = map_pool emb_level (mb_orders_at_price_pool b),
     ob_bids_by_price = mb_bids_by_price b, ob_asks_by_price = mb_asks_by_price b,
     ob_price_orders_at_price = mb_price_orders_at_price b,
     ob_order_pool = map_pool (emb_order (mb_ticker_id b)) (mb_order_pool b), ob_next_market_order_id = 1\<rparr>"

lemma emb_order_sel [simp]:
  "me_client_id (emb_order t n) = 0" "me_client_order_id (emb_order t n) = mo_order_id n"
  "me_market_order_id (emb_order t n) = mo_order_id n" "me_side (emb_order t n) = mo_side n"
  "me_price (emb_order t n) = mo_price n" "me_qty (emb_order t n) = mo_qty n"
  "me_prev_order (emb_order t n) = mo_prev_order n" "me_next_order (emb_order t n) = mo_next_order n"
  by (simp_all add: emb_order_def)

lemma emb_level_sel [simp]:
  "oap_side (emb_level l) = mop_side l" "oap_price (emb_level l) = mop_price l"
  "oap_first_me_order (emb_level l) = mop_first_mkt_order l"
  "oap_prev_entry (emb_level l) = mop_prev_entry l" "oap_next_entry (emb_level l) = mop_next_entry l"
  by (simp_all add: emb_level_def)

lemma emb_sel [simp]:
  "ob_cid_oid_to_order (emb b) = emb_table (mb_oid_to_order b)"
  "ob_orders_at_price_pool (emb b) = map_pool emb_level (mb_orders_at_price_pool b)"
  "ob_bids_by_price (emb b) = mb_bids_by_price b" "ob_asks_by_price (emb b) = mb_asks_by_price b"
  "ob_price_orders_at_price (emb b) = mb_price_orders_at_price b"
  "ob_order_pool (emb b) = map_pool (emb_order (mb_ticker_id b)) (mb_order_pool b)"
  by (simp_all add: emb_def)

lemma emb_upd [simp]:
  "(emb b)\<lparr>ob_orders_at_price_pool := map_pool emb_level lp\<rparr> = emb (b\<lparr>mb_orders_at_price_pool := lp\<rparr>)"
  "(emb b)\<lparr>ob_order_pool := map_pool (emb_order (mb_ticker_id b)) op\<rparr> = emb (b\<lparr>mb_order_pool := op\<rparr>)"
  "(emb b)\<lparr>ob_price_orders_at_price := tbl\<rparr> = emb (b\<lparr>mb_price_orders_at_price := tbl\<rparr>)"
  "(emb b)\<lparr>ob_bids_by_price := p\<rparr> = emb (b\<lparr>mb_bids_by_price := p\<rparr>)"
  "(emb b)\<lparr>ob_asks_by_price := p\<rparr> = emb (b\<lparr>mb_asks_by_price := p\<rparr>)"
  "(emb b)\<lparr>ob_cid_oid_to_order := emb_table t\<rparr> = emb (b\<lparr>mb_oid_to_order := t\<rparr>)"
  by (simp_all add: emb_def)

lemma emb_upd2 [simp]:
  "(emb b)\<lparr>ob_order_pool := map_pool (emb_order (mb_ticker_id b)) op, ob_orders_at_price_pool := map_pool emb_level lp\<rparr> =
     emb (b\<lparr>mb_order_pool := op, mb_orders_at_price_pool := lp\<rparr>)"
  "(emb b)\<lparr>ob_price_orders_at_price := tbl, ob_orders_at_price_pool := map_pool emb_level lp\<rparr> =
     emb (b\<lparr>mb_price_orders_at_price := tbl, mb_orders_at_price_pool := lp\<rparr>)"
  by (simp_all add: emb_def)

lemma emb_set [simp]:
  "oap_set_next (map_pool emb_level lp) p v = map_pool emb_level (mop_set_next lp p v)"
  "oap_set_prev (map_pool emb_level lp) p v = map_pool emb_level (mop_set_prev lp p v)"
  "oap_set_first (map_pool emb_level lp) p v = map_pool emb_level (mop_set_first lp p v)"
  "me_set_next (map_pool (emb_order t) op) p v = map_pool (emb_order t) (mo_set_next op p v)"
  "me_set_prev (map_pool (emb_order t) op) p v = map_pool (emb_order t) (mo_set_prev op p v)"
  by (simp_all add: oap_set_defs me_set_defs mop_set_next_def mop_set_prev_def mop_set_first_def
      mo_set_next_def mo_set_prev_def map_pool_upd emb_level_def emb_order_def)

lemma emb_head [simp]:
  "side_head (emb b) s = mb_side_head b s" "set_side_head (emb b) s p = emb (mb_set_side_head b s p)"
  by (simp_all add: side_head_def mb_side_head_def set_side_head_def mb_set_side_head_def)

lemma mb_priceToIndex [simp]: "mb_priceToIndex price = priceToIndex price"
  by (simp add: mb_priceToIndex_def priceToIndex_def)

lemma emb_orders_at_price [simp]: "getOrdersAtPrice (emb b) price = mb_getOrdersAtPrice b price"
  by (simp add: getOrdersAtPrice_def mb_getOrdersAtPrice_def)

lemma emb_rel [simp]:
  "goes_after (emb_level a) (emb_level c) = mb_goes_after a c" "beats (emb_level a) (emb_level c) = mb_beats a c"
  by (simp_all add: goes_after_def mb_goes_after_def beats_def mb_beats_def)

section \<open>The operations correspond\<close>

lemma emb_loop [simp]:
  "addOrdersAtPrice_loop fuel (map_pool emb_level lp) new best target aa = mb_addOrdersAtPrice_loop fuel lp new best target aa"
proof (induction fuel arbitrary: target aa)
  case 0
  show ?case by (subst addOrdersAtPrice_loop.simps, subst mb_addOrdersAtPrice_loop.simps) simp
next
  case (Suc fuel)
  then show ?case by (subst addOrdersAtPrice_loop.simps, subst mb_addOrdersAtPrice_loop.simps) simp
qed

lemma emb_target [simp]: "addOrdersAtPrice_target (map_pool emb_level lp) new best = mb_addOrdersAtPrice_target lp new best"
  by (simp add: addOrdersAtPrice_target_def mb_addOrdersAtPrice_target_def)

lemma emb_after:
  "addOrdersAtPrice_after (emb b) new best target = map_result emb (mb_addOrdersAtPrice_after b new best target)"
  by (simp add: addOrdersAtPrice_after_def mb_addOrdersAtPrice_after_def Let_def map_result_andThen)

lemma emb_before:
  "addOrdersAtPrice_before (emb b) new best target = map_result emb (mb_addOrdersAtPrice_before b new best target)"
  by (simp add: addOrdersAtPrice_before_def mb_addOrdersAtPrice_before_def Let_def map_result_andThen map_result_if
      cong: if_cong)

lemma emb_addOrdersAtPrice:
  "addOrdersAtPrice (emb b) new = map_result emb (mb_addOrdersAtPrice b new)"
proof (cases "mb_side_head b (mop_side (mp_obj (mb_orders_at_price_pool b) new))")
  case None
  moreover have "mb_side_head (b\<lparr>mb_price_orders_at_price := t\<rparr>) s = mb_side_head b s" for t s
    by (simp add: mb_side_head_def)
  moreover have "mb_orders_at_price_pool (mb_set_side_head b s p) = mb_orders_at_price_pool b" for b s p
    by (simp add: mb_set_side_head_def)
  ultimately show ?thesis
    by (simp add: addOrdersAtPrice_def mb_addOrdersAtPrice_def Let_def map_result_andThen)
next
  case (Some best)
  moreover have "mb_side_head (b\<lparr>mb_price_orders_at_price := t\<rparr>) s = mb_side_head b s" for t s
    by (simp add: mb_side_head_def)
  ultimately show ?thesis
    by (simp add: addOrdersAtPrice_def mb_addOrdersAtPrice_def Let_def map_result_andThen map_result_if
        emb_after emb_before split_def cong: if_cong)
qed

lemma emb_level_unlink:
  "removeOrdersAtPrice_unlink (emb b) side l = map_result emb (mb_removeOrdersAtPrice_unlink b side l)"
proof -
  have pull: "(if c then emb b1 else emb b2) = emb (if c then b1 else b2)" for c b1 b2 by simp
  show ?thesis
    by (simp add: removeOrdersAtPrice_unlink_def mb_removeOrdersAtPrice_unlink_def Let_def map_result_andThen pull
        cong: if_cong)
qed

lemma emb_removeOrdersAtPrice:
  "removeOrdersAtPrice (emb b) side price = map_result emb (mb_removeOrdersAtPrice b side price)"
proof -
  have "(if c then Inr (emb b1) else map_result emb m) = map_result emb (if c then Inr b1 else m)" for c b1 m by simp
  then show ?thesis
    by (simp add: removeOrdersAtPrice_def mb_removeOrdersAtPrice_def Let_def map_result_andThen emb_level_unlink
        andThen_map_result deallocate_map cong: if_cong)
qed

lemma emb_set_oid: "set_cid_oid (emb b) 0 oid p = map_result emb (mb_set_oid b oid p)"
proof -
  have "(emb_table t)(0 := t') = emb_table t'" for t t' by (auto simp: emb_table_def)
  moreover have "array_at ME_MAX_NUM_CLIENTS (emb_table t) 0 = Inr t" for t
    by (simp add: ME_MAX_NUM_CLIENTS_def emb_table_def)
  ultimately show ?thesis by (simp add: set_cid_oid_def mb_set_oid_def map_result_andThen)
qed

lemma emb_order_unlink:
  "removeOrder_unlink (emb b) orders_at_price order = map_result emb (mb_removeOrder_unlink b orders_at_price order)"
proof -
  have pull: "(if c then map_pool emb_level a else map_pool emb_level a') = map_pool emb_level (if c then a else a')"
    for c a a' by simp
  show ?thesis
    by (simp add: removeOrder_unlink_def mb_removeOrder_unlink_def Let_def map_result_andThen pull cong: if_cong)
qed

lemma emb_removeOrder: "removeOrder (emb b) order = map_result emb (mb_removeOrder b order)"
proof -
  have pull: "(if c then map_result emb m else map_result emb m') = map_result emb (if c then m else m')" for c m m'
    by simp
  show ?thesis
    by (simp add: removeOrder_def mb_removeOrder_def Let_def emb_removeOrdersAtPrice emb_order_unlink pull emb_set_oid
        map_result_andThen andThen_map_result deallocate_map cong: if_cong)
qed

lemma emb_addOrder_link: "addOrder_link (emb b) l order = map_result emb (mb_addOrder_link b l order)"
  by (simp add: addOrder_link_def mb_addOrder_link_def Let_def map_result_andThen)

lemma emb_addOrder: "addOrder (emb b) order = map_result emb (mb_addOrder b order)"
proof -
  let ?ord = "mp_obj (mb_order_pool b) order"
  have lv: "\<lparr>oap_side = mo_side ?ord, oap_price = mo_price ?ord, oap_first_me_order = Some order,
      oap_prev_entry = None, oap_next_entry = None\<rparr> = emb_level \<lparr>mop_side = mo_side ?ord, mop_price = mo_price ?ord,
      mop_first_mkt_order = Some order, mop_prev_entry = None, mop_next_entry = None\<rparr>"
    by (simp add: emb_level_def)
  show ?thesis
    by (cases "mb_getOrdersAtPrice b (mo_price ?ord)")
       (simp_all add: addOrder_def mb_addOrder_def Let_def lv allocate_map map_result_andThen andThen_map_result
          emb_addOrdersAtPrice emb_set_oid emb_addOrder_link andThen_assoc split_def split: option.split)
qed

section \<open>Single updates\<close>

text \<open>The order that an ADD stands for, in the exchange's terms.\<close>

definition update_order :: "MEMarketUpdate \<Rightarrow> MEOrder" where
  "update_order u = \<lparr>me_ticker_id = mu_ticker_id u, me_client_id = 0, me_client_order_id = mu_order_id u,
     me_market_order_id = mu_order_id u, me_side = mu_side u, me_price = mu_price u, me_qty = mu_qty u,
     me_priority = mu_priority u, me_prev_order = None, me_next_order = None\<rparr>"

definition ab_map :: "(MEOrder list \<Rightarrow> MEOrder list) \<Rightarrow> abook \<Rightarrow> abook" where
  "ab_map f b = b\<lparr>ab_bids := f (ab_bids b), ab_asks := f (ab_asks b)\<rparr>"

lemma ab_side_map [simp]: "ab_side (ab_map f b) s = f (ab_side b s)" "ab_next_id (ab_map f b) = ab_next_id b"
  by (simp_all add: ab_map_def ab_side_def)

lemma mb_set_oid_frame: "mb_set_oid b oid q = Inr b' \<Longrightarrow> mb_ticker_id b' = mb_ticker_id b \<and> mb_bbo b' = mb_bbo b"
  by (auto simp: mb_set_oid_def result_simps)

lemma mb_set_side_head_frame [simp]:
  "mb_ticker_id (mb_set_side_head b s p) = mb_ticker_id b" "mb_bbo (mb_set_side_head b s p) = mb_bbo b"
  by (simp_all add: mb_set_side_head_def)

lemma mb_removeOrder_frame:
  assumes "mb_removeOrder b p = Inr b'"
  shows "mb_ticker_id b' = mb_ticker_id b \<and> mb_bbo b' = mb_bbo b"
  using assms
  by (auto simp: mb_removeOrder_def mb_removeOrdersAtPrice_def mb_removeOrdersAtPrice_unlink_def
      mb_removeOrder_unlink_def Let_def result_simps split: if_splits dest!: mb_set_oid_frame)

lemma mb_addOrdersAtPrice_frame:
  assumes "mb_addOrdersAtPrice b p = Inr b'"
  shows "mb_ticker_id b' = mb_ticker_id b \<and> mb_bbo b' = mb_bbo b"
  using assms
  by (auto simp: mb_addOrdersAtPrice_def mb_addOrdersAtPrice_after_def mb_addOrdersAtPrice_before_def Let_def
      result_simps split: if_splits option.splits prod.splits)

lemma mb_addOrder_frame:
  assumes "mb_addOrder b p = Inr b'"
  shows "mb_ticker_id b' = mb_ticker_id b \<and> mb_bbo b' = mb_bbo b"
  using assms
  by (auto simp: mb_addOrder_def mb_addOrder_link_def Let_def result_simps split: option.splits prod.splits
      dest!: mb_set_oid_frame mb_addOrdersAtPrice_frame)

lemma map_result_Inr: "map_result f m = Inr y \<longleftrightarrow> (\<exists>x. m = Inr x \<and> y = f x)"
  by (cases m) auto

lemma mb_apply_add:
  assumes rep: "book_rep (emb b) ab" and ok: "place_ok ab 0 (mu_order_id u) (mu_side u) (mu_price u)"
    and u: "mu_type u = ADD" "mu_ticker_id u = mb_ticker_id b"
  shows "\<exists>b'. mb_apply b u = Inr b' \<and> mb_ticker_id b' = mb_ticker_id b \<and> mb_bbo b' = mb_bbo b \<and>
    book_rep (emb b') (ab_set_side ab (mu_side u) (a_insert (mu_side u) (update_order u) (ab_side ab (mu_side u))))"
proof -
  let ?s = "mu_side u"
  define x where "x = \<lparr>mo_order_id = mu_order_id u, mo_side = ?s, mo_price = mu_price u, mo_qty = mu_qty u,
    mo_priority = mu_priority u, mo_prev_order = None, mo_next_order = None\<rparr>"
  have n: "update_order u = emb_order (mb_ticker_id b) x" by (simp add: update_order_def emb_order_def x_def u(2))
  from rep obtain sh where inv: "book_inv {} (emb b) sh" and ab: "ab = book_abs (emb b) sh"
    and sizes: "mp_size (ob_order_pool (emb b)) = ME_MAX_ORDER_IDS"
      "mp_size (ob_orders_at_price_pool (emb b)) = ME_MAX_PRICE_LEVELS" unfolding book_rep_def by blast
  have s: "?s \<in> {BUY, SELL}" using ok by (simp add: place_ok_def)
  have "me_strip (update_order u) = update_order u" by (simp add: update_order_def me_strip_def)
  from insert_ok [OF inv ok [unfolded ab] sizes _ _ _ _ this] obtain p op bk' L where
    r: "allocate (ob_order_pool (emb b)) (update_order u) = Inr (p, op)"
      "addOrder ((emb b)\<lparr>ob_order_pool := op\<rparr>) p = Inr bk'" "book_inv {} bk' (sh(?s := L))" "same_sizes (emb b) bk'"
      "abs_orders bk' (sh(?s := L)) ?s = a_insert ?s (update_order u) (abs_orders (emb b) sh ?s)"
      "abs_orders bk' (sh(?s := L)) (opp ?s) = abs_orders (emb b) sh (opp ?s)"
    by (auto simp: update_order_def)
  from r(1) obtain op1 where op1: "allocate (mb_order_pool b) x = Inr (p, op1)"
    and op: "op = map_pool (emb_order (mb_ticker_id b)) op1"
    by (auto simp: n allocate_map map_result_Inr map_prod_def split: prod.splits)
  have "addOrder (emb (b\<lparr>mb_order_pool := op1\<rparr>)) p = Inr bk'" using r(2) op by simp
  then obtain b' where b': "mb_addOrder (b\<lparr>mb_order_pool := op1\<rparr>) p = Inr b'" "bk' = emb b'"
    by (auto simp: emb_addOrder map_result_Inr)
  have "mb_apply b u = Inr b'" using u(1) op1 b'(1) by (simp add: mb_apply_def x_def)
  moreover have "ab_set_side ab ?s (a_insert ?s (update_order u) (ab_side ab ?s)) = book_abs bk' (sh(?s := L))"
  proof (rule abook_eqI)
    fix t assume "t \<in> {BUY, SELL}"
    then show "ab_side (ab_set_side ab ?s (a_insert ?s (update_order u) (ab_side ab ?s))) t =
        ab_side (book_abs bk' (sh(?s := L))) t"
      using r(5,6) s ab_side_abs [OF s, of "emb b" sh] opp_cases [OF s, of t] ab
      by (auto simp: ab_side_abs ab_side_set opp_neq)
  next
    show "ab_next_id (ab_set_side ab ?s (a_insert ?s (update_order u) (ab_side ab ?s))) = ab_next_id (book_abs bk' (sh(?s := L)))"
      using b'(2) by (simp add: ab book_abs_def ab_set_side_def emb_def)
  qed
  ultimately show ?thesis
    using mb_addOrder_frame [OF b'(1)] r(3,4) sizes b'(2) unfolding book_rep_def same_sizes_def by auto
qed

text \<open>The table of orders finds the order that the abstract book lists.\<close>

lemma emb_anonymous: "book_rep (emb b) ab \<Longrightarrow> x \<in> set (ab_orders ab) \<Longrightarrow> me_client_id x = 0"
  by (auto simp: book_rep_def ab_orders_abs)

lemma mb_lookup:
  assumes inv: "book_inv {} (emb b) sh" and oid: "unat oid < ME_MAX_ORDER_IDS"
    and x: "x \<in> set (ab_orders (book_abs (emb b) sh))" "me_client_order_id x = oid"
  obtains p where "mb_oid_to_order b (unat oid) = Some p"
    and "ob_cid_oid_to_order (emb b) (unat (0 :: ClientId)) (unat oid) = Some p"
    and "p \<in> set (order_ptrs sh)"
    and "\<forall>q\<in>set (order_ptrs sh).
      me_client_order_id (me_strip (mp_obj (ob_order_pool (emb b)) q)) = oid \<longleftrightarrow> q = p"
proof -
  have c: "unat (0 :: ClientId) < ME_MAX_NUM_CLIENTS" by (simp add: ME_MAX_NUM_CLIENTS_def)
  note look = order_lookup [OF inv c oid]
  from x(1) obtain p where p: "p \<in> set (order_ptrs sh)" "x = me_strip (mp_obj (ob_order_pool (emb b)) p)"
    by (auto simp: ab_orders_abs)
  have cl: "me_client_id (me_strip (mp_obj (ob_order_pool (emb b)) q)) = 0" for q by simp
  have tbl: "ob_cid_oid_to_order (emb b) (unat (0 :: ClientId)) (unat oid) = Some p"
    using look [of p] p x(2) cl by (simp add: is_order_def)
  then have "mb_oid_to_order b (unat oid) = Some p" by (simp add: emb_table_def)
  moreover have "me_client_order_id (me_strip (mp_obj (ob_order_pool (emb b)) q)) = oid \<longleftrightarrow> q = p"
    if "q \<in> set (order_ptrs sh)" for q
    using look [of q] tbl that cl by (auto simp: is_order_def)
  ultimately show ?thesis using that tbl p(1) by blast
qed

lemma mb_apply_cancel:
  assumes rep: "book_rep (emb b) ab" and u: "mu_type u = CANCEL" "unat (mu_order_id u) < ME_MAX_ORDER_IDS"
    and x: "x \<in> set (ab_orders ab)" "me_client_order_id x = mu_order_id u"
  shows "\<exists>b'. mb_apply b u = Inr b' \<and> mb_ticker_id b' = mb_ticker_id b \<and> mb_bbo b' = mb_bbo b \<and>
    book_rep (emb b') (ab_map (filter (\<lambda>x. me_client_order_id x \<noteq> mu_order_id u)) ab)"
proof -
  from rep obtain sh where inv: "book_inv {} (emb b) sh" and ab: "ab = book_abs (emb b) sh"
    and sizes: "mp_size (ob_order_pool (emb b)) = ME_MAX_ORDER_IDS"
      "mp_size (ob_orders_at_price_pool (emb b)) = ME_MAX_PRICE_LEVELS" unfolding book_rep_def by blast
  from x(1) have x1: "x \<in> set (ab_orders (book_abs (emb b) sh))" by (simp only: ab)
  obtain p where p: "mb_oid_to_order b (unat (mu_order_id u)) = Some p"
    "ob_cid_oid_to_order (emb b) (unat (0 :: ClientId)) (unat (mu_order_id u)) = Some p"
    by (rule mb_lookup [OF inv u(2) x1 x(2)])
  have c: "unat (0 :: ClientId) < ME_MAX_NUM_CLIENTS" by (simp add: ME_MAX_NUM_CLIENTS_def)
  from remove_ok [OF inv c u(2) p(2)] obtain bk' sh' where r: "removeOrder (emb b) p = Inr bk'" "book_inv {} bk' sh'"
    "same_but_links (emb b) bk'"
    "\<forall>t\<in>{BUY, SELL}. abs_orders bk' sh' t = filter (\<lambda>x. \<not> is_order 0 (mu_order_id u) x) (abs_orders (emb b) sh t)"
    by blast
  from r(1) obtain b' where b': "mb_removeOrder b p = Inr b'" "bk' = emb b'" by (auto simp: emb_removeOrder map_result_Inr)
  have "mb_apply b u = Inr b'" using u p(1) b'(1) by (simp add: mb_apply_def)
  moreover have "ab_map (filter (\<lambda>x. me_client_order_id x \<noteq> mu_order_id u)) ab = book_abs bk' sh'"
  proof (rule abook_eqI)
    fix t assume t: "t \<in> {BUY, SELL}"
    have "filter (\<lambda>x. me_client_order_id x \<noteq> mu_order_id u) (abs_orders (emb b) sh t) =
        filter (\<lambda>x. \<not> is_order 0 (mu_order_id u) x) (abs_orders (emb b) sh t)"
      by (rule filter_cong [OF refl]) (auto simp: abs_orders_def is_order_def)
    then show "ab_side (ab_map (filter (\<lambda>x. me_client_order_id x \<noteq> mu_order_id u)) ab) t = ab_side (book_abs bk' sh') t"
      using r(4) t by (auto simp: ab_side_abs ab)
  next
    show "ab_next_id (ab_map (filter (\<lambda>x. me_client_order_id x \<noteq> mu_order_id u)) ab) = ab_next_id (book_abs bk' sh')"
      using b'(2) by (simp add: ab book_abs_def emb_def)
  qed
  ultimately show ?thesis
    using mb_removeOrder_frame [OF b'(1)] r(2) same_but_links_sizes [OF r(3)] sizes b'(2)
    unfolding book_rep_def same_sizes_def by auto
qed

lemma mb_apply_modify:
  assumes rep: "book_rep (emb b) ab" and u: "mu_type u = MODIFY" "unat (mu_order_id u) < ME_MAX_ORDER_IDS"
    and x: "x \<in> set (ab_orders ab)" "me_client_order_id x = mu_order_id u"
  shows "\<exists>b'. mb_apply b u = Inr b' \<and> mb_ticker_id b' = mb_ticker_id b \<and> mb_bbo b' = mb_bbo b \<and>
    book_rep (emb b') (ab_map (map (\<lambda>x. if me_client_order_id x = mu_order_id u then x\<lparr>me_qty := mu_qty u\<rparr> else x)) ab)"
proof -
  let ?f = "\<lambda>x. if me_client_order_id x = mu_order_id u then x\<lparr>me_qty := mu_qty u\<rparr> else x"
  from rep obtain sh where inv: "book_inv {} (emb b) sh" and ab: "ab = book_abs (emb b) sh"
    and sizes: "mp_size (ob_order_pool (emb b)) = ME_MAX_ORDER_IDS"
      "mp_size (ob_orders_at_price_pool (emb b)) = ME_MAX_PRICE_LEVELS" unfolding book_rep_def by blast
  from x(1) have x1: "x \<in> set (ab_orders (book_abs (emb b) sh))" by (simp only: ab)
  obtain p where p: "mb_oid_to_order b (unat (mu_order_id u)) = Some p"
    and look: "\<forall>q\<in>set (order_ptrs sh).
      me_client_order_id (me_strip (mp_obj (ob_order_pool (emb b)) q)) = mu_order_id u \<longleftrightarrow> q = p"
    by (rule mb_lookup [OF inv u(2) x1 x(2)])
  define b' where "b' = b\<lparr>mb_order_pool := mp_upd (mb_order_pool b) p (\<lambda>n. n\<lparr>mo_qty := mu_qty u\<rparr>)\<rparr>"
  have "mp_upd (map_pool (emb_order (mb_ticker_id b)) (mb_order_pool b)) p (\<lambda>n. n\<lparr>me_qty := mu_qty u\<rparr>) =
      map_pool (emb_order (mb_ticker_id b)) (mp_upd (mb_order_pool b) p (\<lambda>n. n\<lparr>mo_qty := mu_qty u\<rparr>))"
    by (rule map_pool_upd) (simp add: emb_order_def)
  then have e: "emb b' = (emb b)\<lparr>ob_order_pool := mp_upd (ob_order_pool (emb b)) p (\<lambda>n. n\<lparr>me_qty := mu_qty u\<rparr>)\<rparr>"
    by (simp add: b'_def)
  have inv': "book_inv {} (emb b') sh" unfolding e by (rule book_inv_set_qty [OF inv])
  have "abs_orders (emb b') sh t = map ?f (abs_orders (emb b) sh t)" if t: "t \<in> {BUY, SELL}" for t
  proof -
    have "me_strip (mp_obj (ob_order_pool (emb b')) q) = ?f (me_strip (mp_obj (ob_order_pool (emb b)) q))"
      if "q \<in> set (side_ptrs (sh t))" for q
    proof -
      have "q \<in> set (order_ptrs sh)" using that t by (auto simp: order_ptrs_iff)
      with look have "me_client_order_id (me_strip (mp_obj (ob_order_pool (emb b)) q)) = mu_order_id u \<longleftrightarrow> q = p" by blast
      then show ?thesis unfolding e by (auto simp del: emb_sel)
    qed
    then show ?thesis by (simp add: abs_orders_def)
  qed
  then have "ab_map (map ?f) ab = book_abs (emb b') sh"
    by (simp add: ab ab_map_def book_abs_def emb_def [of b] emb_def [of b'])
  moreover have "mb_apply b u = Inr b'" using u p by (simp add: mb_apply_def b'_def)
  ultimately show ?thesis
    using inv' sizes unfolding book_rep_def by (intro exI [of _ b']) (auto simp: e b'_def)
qed

section \<open>The best bid and offer\<close>

text \<open>What the summary of a side should say: the price of its first order and the sum of the quantities at it.\<close>

definition best_of :: "MEOrder list \<Rightarrow> Price \<times> Qty" where
  "best_of xs = (case xs of [] \<Rightarrow> (Price_INVALID, Qty_INVALID)
     | x # _ \<Rightarrow> (me_price x, sum_list (map me_qty (filter (\<lambda>y. me_price y = me_price x) xs))))"

lemma level_qty_ring:
  assumes "linked (mo_next_order \<circ> mp_obj op) pv (a # ys @ [f])" and "f \<notin> set (a # ys)" and "length ys < fuel"
  shows "mb_level_qty fuel op f (Some a) q = Inr (q + sum_list (map (mo_qty \<circ> mp_obj op) (a # ys)))"
  using assms
proof (induction ys arbitrary: a q fuel)
  case Nil
  then have n: "mo_next_order (mp_obj op a) = Some f" by simp
  from Nil obtain k where k: "fuel = Suc k" by (cases fuel) auto
  show ?case using Nil n by (subst mb_level_qty.simps, subst mb_level_qty.simps) (simp add: k)
next
  case (Cons y ys)
  then have n: "mo_next_order (mp_obj op a) = Some y" by simp
  from Cons obtain k where k: "fuel = Suc k" "length ys < k" by (cases fuel) auto
  have "mb_level_qty k op f (Some y) (q + mo_qty (mp_obj op a)) =
      Inr (q + mo_qty (mp_obj op a) + sum_list (map (mo_qty \<circ> mp_obj op) (y # ys)))"
    using Cons.prems k by (intro Cons.IH) auto
  then show ?case using Cons n by (subst mb_level_qty.simps) (simp add: k add.assoc)
qed

lemma level_qty_ok:
  assumes "ring (mo_next_order \<circ> mp_obj op) pv (f # ys)" and "length ys \<le> fuel"
  shows "mb_level_qty fuel op f (mo_next_order (mp_obj op f)) (mo_qty (mp_obj op f)) =
    Inr (sum_list (map (mo_qty \<circ> mp_obj op) (f # ys)))"
proof (cases ys)
  case Nil
  then have "mo_next_order (mp_obj op f) = Some f" using assms(1) by (simp add: ring_single)
  then show ?thesis using Nil by (subst mb_level_qty.simps) simp
next
  case (Cons a zs)
  have l: "linked (mo_next_order \<circ> mp_obj op) pv (f # a # zs @ [f])" using ring_linked [OF assms(1)] Cons by simp
  then have n: "mo_next_order (mp_obj op f) = Some a" by simp
  have "mb_level_qty fuel op f (Some a) (mo_qty (mp_obj op f)) =
      Inr (mo_qty (mp_obj op f) + sum_list (map (mo_qty \<circ> mp_obj op) (a # zs)))"
    using l assms ring_distinct [OF assms(1)] Cons by (intro level_qty_ring [where pv = pv]) auto
  then show ?thesis using n Cons by simp
qed

lemma live_length:
  assumes "distinct ps" and "set ps \<subseteq> mp_live op"
  shows "length ps \<le> mp_size op"
proof -
  have "card (set ps) \<le> card {i. i < mp_size op}"
    using assms(2) by (intro card_mono) (auto simp: mp_live_def)
  then show ?thesis using distinct_card [OF assms(1)] by simp
qed

lemma mb_best_ok:
  assumes rep: "book_rep (emb b) ab" and s: "s \<in> {BUY, SELL}"
  shows "mb_best b (mb_side_head b s) = Inr (best_of (ab_side ab s))"
proof -
  from rep obtain sh where inv: "book_inv {} (emb b) sh" and ab: "ab = book_abs (emb b) sh"
    unfolding book_rep_def by blast
  let ?lo = "mp_obj (ob_orders_at_price_pool (emb b))" and ?oo = "mp_obj (ob_order_pool (emb b))"
  have so: "side_ok ?lo ?oo (mb_side_head b s) s (sh s)" using book_invD(2) [OF inv s] by simp
  have side: "ab_side ab s = abs_orders (emb b) sh s" using s ab by (simp add: ab_side_abs)
  show ?thesis
  proof (cases "sh s")
    case Nil
    then show ?thesis using so side by (simp add: mb_best_def best_of_def side_ok_def levels_linked_def abs_orders_def side_ptrs_def)
  next
    case (Cons lv L)
    obtain l ps where lv: "lv = (l, ps)" by (cases lv)
    have hd: "mb_side_head b s = Some l" using so Cons lv by (simp add: side_ok_def levels_linked_def)
    have ok: "level_ok ?lo ?oo s (l, ps)" using so Cons lv by (simp add: side_ok_def)
    then obtain f ys where ps: "ps = f # ys" by (cases ps) (auto simp: level_ok_def ring_def)
    have first: "mop_first_mkt_order (mp_obj (mb_orders_at_price_pool b) l) = Some f" using ok ps by (simp add: level_ok_def)
    have ring: "ring (mo_next_order \<circ> mp_obj (mb_order_pool b)) (mo_prev_order \<circ> mp_obj (mb_order_pool b)) (f # ys)"
      using ok ps by (simp add: level_ok_def comp_def)
    have prices: "me_price (?oo q) = mop_price (mp_obj (mb_orders_at_price_pool b) l)" if "q \<in> set ps" for q
      using ok that by (simp add: level_ok_def)
    have others: "me_price (?oo q) \<noteq> mop_price (mp_obj (mb_orders_at_price_pool b) l)" if "q \<in> set (side_ptrs L)" for q
    proof -
      have "\<forall>k\<in>set (map fst L). better s (oap_price (?lo l)) (oap_price (?lo k))"
        using so Cons lv by (simp add: side_ok_def levels_sorted_def)
      then have "\<forall>q\<in>set (side_ptrs L). better s (oap_price (?lo l)) (me_price (?oo q))"
        using Cons by (intro side_prices_all [OF so]) auto
      then show ?thesis using that by (auto simp: better_def split: if_splits)
    qed
    have "length ps \<le> mp_size (mb_order_pool b)"
    proof (rule live_length)
      show "distinct ps" using ring_distinct [OF ring] ps by simp
      have "set ps \<subseteq> set (order_ptrs sh)" using Cons lv s by (auto simp: order_ptrs_iff)
      then show "set ps \<subseteq> mp_live (mb_order_pool b)"
        using book_invD(1) [OF inv] by (auto simp: pools_ok_def)
    qed
    then have qty: "mb_level_qty (mp_size (mb_order_pool b)) (mb_order_pool b) f (mo_next_order (mp_obj (mb_order_pool b) f))
        (mo_qty (mp_obj (mb_order_pool b) f)) = Inr (sum_list (map (mo_qty \<circ> mp_obj (mb_order_pool b)) ps))"
      using level_qty_ok [OF ring] ps by simp
    define here where "here = (\<lambda>y :: MEOrder. me_price y = mop_price (mp_obj (mb_orders_at_price_pool b) l))"
    have "filter here (abs_orders (emb b) sh s) = map (me_strip \<circ> ?oo) ps"
    proof -
      have "filter (here \<circ> (me_strip \<circ> ?oo)) ps = ps" "filter (here \<circ> (me_strip \<circ> ?oo)) (side_ptrs L) = []"
        using prices others by (auto simp: here_def filter_id_conv filter_empty_conv)
      then show ?thesis using Cons lv by (simp add: abs_orders_def filter_map del: emb_sel)
    qed
    moreover have "abs_orders (emb b) sh s = me_strip (?oo f) # map (me_strip \<circ> ?oo) (ys @ side_ptrs L)"
      using Cons lv ps by (simp add: abs_orders_def)
    moreover have "me_price (me_strip (?oo f)) = mop_price (mp_obj (mb_orders_at_price_pool b) l)" using prices ps by simp
    ultimately have "best_of (abs_orders (emb b) sh s) = (mop_price (mp_obj (mb_orders_at_price_pool b) l),
        sum_list (map me_qty (map (me_strip \<circ> ?oo) ps)))"
      unfolding here_def best_of_def by simp
    moreover have "map me_qty (map (me_strip \<circ> ?oo) ps) = map (mo_qty \<circ> mp_obj (mb_order_pool b)) ps" by simp
    ultimately show ?thesis using hd first qty side by (simp add: mb_best_def comp_def)
  qed
qed

lemma emb_bbo [simp]: "emb (b\<lparr>mb_bbo := x\<rparr>) = emb b"
  by (simp add: emb_def)

definition side_summary :: "BBO \<Rightarrow> Side \<Rightarrow> Price \<times> Qty" where
  "side_summary bbo s = (if s = BUY then (bid_price bbo, bid_qty bbo) else (ask_price bbo, ask_qty bbo))"

lemma mb_updateBBO_ok:
  assumes rep: "book_rep (emb b) ab"
  shows "\<exists>b'. mb_updateBBO b ub ua = Inr b' \<and> emb b' = emb b \<and> mb_ticker_id b' = mb_ticker_id b \<and>
    side_summary (mb_bbo b') BUY = (if ub then best_of (ab_bids ab) else side_summary (mb_bbo b) BUY) \<and>
    side_summary (mb_bbo b') SELL = (if ua then best_of (ab_asks ab) else side_summary (mb_bbo b) SELL)"
proof -
  have bids: "mb_best (b\<lparr>mb_bbo := x\<rparr>) (mb_bids_by_price b) = Inr (best_of (ab_bids ab))" for x
    using mb_best_ok [of "b\<lparr>mb_bbo := x\<rparr>" ab BUY] rep by (simp add: mb_side_head_def ab_side_def)
  have asks: "mb_best (b\<lparr>mb_bbo := x\<rparr>) (mb_asks_by_price b) = Inr (best_of (ab_asks ab))" for x
    using mb_best_ok [of "b\<lparr>mb_bbo := x\<rparr>" ab SELL] rep by (simp add: mb_side_head_def ab_side_def)
  note now = bids [of "mb_bbo b"] asks [of "mb_bbo b"]
  show ?thesis
    using now bids asks
    by (cases ub; cases ua) (auto simp: mb_updateBBO_def side_summary_def split_def)
qed

section \<open>A new book\<close>

lemma mbook_new_rep:
  "book_rep (emb (MarketOrderBook_new t (\<lambda>_. None) (\<lambda>_. None))) \<lparr>ab_bids = [], ab_asks = [], ab_next_id = 1\<rparr>"
proof -
  let ?b = "MarketOrderBook_new t (\<lambda>_. None) (\<lambda>_. None)"
  have "ob_order_pool (emb ?b) = MemPool_new ME_MAX_ORDER_IDS (emb_order t MarketOrder_default)"
    by (simp add: MarketOrderBook_new_def MemPool_new_map)
  moreover have "ob_orders_at_price_pool (emb ?b) = MemPool_new ME_MAX_PRICE_LEVELS (emb_level MarketOrdersAtPrice_default)"
    by (simp add: MarketOrderBook_new_def MemPool_new_map)
  ultimately have "book_inv {} (emb ?b) (\<lambda>_. [])"
    by (simp add: book_inv_def Let_def pools_ok_def side_ok_def levels_linked_def
      levels_sorted_def price_table_ok_def order_table_ok_def level_ptrs_def order_ptrs_def mb_side_head_def
      ME_MAX_PRICE_LEVELS_def ME_MAX_ORDER_IDS_def MarketOrderBook_new_def emb_table_def)
  then show ?thesis
    by (auto simp: book_rep_def MarketOrderBook_new_def book_abs_def abs_orders_def
        MemPool_new_def emb_def intro!: exI [of _ "\<lambda>_. []"])
qed

end
