(* ===== verification/ME_Book_Props.thy ===== *)
theory ME_Book_Props
  imports ME_Book_Refine "HOL-Library.Multiset"
begin

text \<open>
  What the specification of the book guarantees: price-time priority, an uncrossed book, unique
  identifiers, conservation of quantity, and market updates from which the book can be rebuilt.
\<close>

section \<open>The invariant of a book\<close>

text \<open>Order \<open>x\<close> is served before \<open>y\<close> on side \<open>s\<close>.\<close>

definition ahead_of :: "Side \<Rightarrow> MEOrder \<Rightarrow> MEOrder \<Rightarrow> bool" where
  "ahead_of s x y \<longleftrightarrow> better s (me_price x) (me_price y) \<or>
     me_price x = me_price y \<and> me_priority x < me_priority y \<and>
     me_market_order_id x < me_market_order_id y"

definition resting :: "Side \<Rightarrow> MEOrder \<Rightarrow> bool" where
  "resting s x \<longleftrightarrow> me_side x = s \<and> me_qty x \<noteq> 0 \<and> me_priority x \<le> me_market_order_id x"

definition side_inv :: "Side \<Rightarrow> MEOrder list \<Rightarrow> bool" where
  "side_inv s xs \<longleftrightarrow> sorted_wrt (ahead_of s) xs \<and> (\<forall>x\<in>set xs. resting s x)"

definition uncrossed :: "abook \<Rightarrow> bool" where
  "uncrossed b \<longleftrightarrow> (\<forall>x\<in>set (ab_bids b). \<forall>y\<in>set (ab_asks b). me_price x < me_price y)"

definition order_key :: "MEOrder \<Rightarrow> ClientId \<times> OrderId" where
  "order_key x = (me_client_id x, me_client_order_id x)"

definition ids_ok :: "abook \<Rightarrow> bool" where
  "ids_ok b \<longleftrightarrow> distinct (map me_market_order_id (ab_orders b)) \<and> distinct (map order_key (ab_orders b)) \<and>
     (\<forall>x\<in>set (ab_orders b). me_market_order_id x < ab_next_id b) \<and> 1 \<le> ab_next_id b"

definition abook_inv :: "abook \<Rightarrow> bool" where
  "abook_inv b \<longleftrightarrow> side_inv BUY (ab_bids b) \<and> side_inv SELL (ab_asks b) \<and> uncrossed b \<and> ids_ok b"

section \<open>Matching\<close>

text \<open>A book in order has its best prices first.\<close>

lemma side_inv_best_first:
  assumes "abook_inv b" and "s \<in> {BUY, SELL}"
  shows "best_first s (ab_side b s)"
proof -
  have "sorted_wrt (ahead_of s) (ab_side b s)" using assms by (auto simp: abook_inv_def side_inv_def ab_side_def)
  then show ?thesis
    unfolding best_first_def by (rule sorted_wrt_mono_rel [rotated]) (auto simp: ahead_of_def better_def split: if_splits)
qed

text \<open>What is left after a match is in order, and does not cross if the aggressor is not used up.\<close>

lemma word_diff_pos: "k < (m :: 'a :: len word) \<Longrightarrow> m - k \<noteq> 0"
  by auto

lemma ahead_of_qty [simp]:
  "ahead_of s (x\<lparr>me_qty := k\<rparr>) y = ahead_of s x y" "ahead_of s x (y\<lparr>me_qty := k\<rparr>) = ahead_of s x y"
  by (simp_all add: ahead_of_def)

lemma order_key_qty [simp]: "order_key (x\<lparr>me_qty := k\<rparr>) = order_key x"
  by (simp add: order_key_def)

lemma a_match_side_inv:
  assumes m: "a_match g q xs = (ns, leaves, rs, us)" and inv: "side_inv s xs"
  shows "side_inv s ns" and "\<exists>dn. map me_market_order_id xs = dn @ map me_market_order_id ns"
    and "\<exists>dn. map order_key xs = dn @ map order_key ns"
proof -
  obtain dn rest where d: "xs = dn @ rest" "\<forall>x\<in>set dn. crosses (ag_side g) (ag_price g) (me_price x)"
    "ns = rest \<or> (\<exists>x rest' k. rest = x # rest' \<and> ns = x\<lparr>me_qty := me_qty x - k\<rparr> # rest' \<and>
       k < me_qty x \<and> crosses (ag_side g) (ag_price g) (me_price x) \<and> leaves = 0)"
    "leaves \<noteq> 0 \<longrightarrow> rest = [] \<or> \<not> crosses (ag_side g) (ag_price g) (me_price (hd rest))"
    by (rule a_match_split [OF m])
  have rest: "side_inv s rest" using inv d(1) by (simp add: side_inv_def sorted_wrt_append)
  from d(3) show "side_inv s ns"
  proof (elim disjE exE conjE)
    fix x rest' k
    assume x: "rest = x # rest'" "ns = x\<lparr>me_qty := me_qty x - k\<rparr> # rest'" and "k < me_qty x"
    from word_diff_pos [OF this(3)] show ?thesis using rest x by (simp add: side_inv_def resting_def)
  qed (use rest in simp)
  show "\<exists>dn. map me_market_order_id xs = dn @ map me_market_order_id ns"
    "\<exists>dn. map order_key xs = dn @ map order_key ns"
    using d(1,3) by auto
qed

section \<open>Resting orders\<close>

lemma word_less_Suc: "a < b \<Longrightarrow> a < a + (1 :: 'a :: len word)"
proof -
  assume "a < b"
  then have "unat a < unat b" by (simp add: word_less_nat_alt)
  moreover have "unat b < 2 ^ LENGTH('a)" by (rule unsigned_less)
  ultimately have "unat a + 1 < 2 ^ LENGTH('a)" by linarith
  then show ?thesis by (simp add: word_less_nat_alt unat_word_ariths)
qed

lemma sorted_wrt_last:
  "sorted_wrt P xs \<Longrightarrow> x \<in> set xs \<Longrightarrow> x \<noteq> last xs \<Longrightarrow> P x (last xs)"
  by (induction xs) (auto split: if_splits)

text \<open>The priority of a new order is above the priority of every order at its price.\<close>

lemma a_priority_above:
  assumes inv: "side_inv s xs" and ids: "\<forall>x\<in>set xs. me_market_order_id x < mid"
    and x: "x \<in> set xs" "me_price x = price"
  shows "me_priority x < a_priority price xs"
proof -
  let ?ys = "filter (\<lambda>x. me_price x = price) xs"
  have "x \<in> set ?ys" using x by simp
  then obtain z zs where ys: "?ys = z # zs" by (cases ?ys) auto
  define l where "l = last ?ys"
  have l: "l \<in> set ?ys" using ys last_in_set [of ?ys] by (simp add: l_def)
  have "sorted_wrt (ahead_of s) ?ys" using inv by (simp add: side_inv_def sorted_wrt_filter)
  then have "x \<noteq> l \<Longrightarrow> ahead_of s x l"
    using sorted_wrt_last [of "ahead_of s" ?ys x] \<open>x \<in> set ?ys\<close> by (simp add: l_def)
  then have le: "me_priority x \<le> me_priority l"
    using l x(2) by (cases "x = l") (auto simp: ahead_of_def)
  have "me_priority l \<le> me_market_order_id l" "me_market_order_id l < mid"
    using inv ids l by (auto simp: side_inv_def resting_def)
  then have "me_priority l < me_priority l + 1" by (metis le_less_trans word_less_Suc)
  then show ?thesis using le ys by (simp add: a_priority_def l_def)
qed

lemma a_match_uncrossed:
  assumes m: "a_match g q xs = (ns, leaves, rs, us)" and inv: "side_inv (opp (ag_side g)) xs"
    and s: "ag_side g \<in> {BUY, SELL}" and left: "leaves \<noteq> 0"
  shows "\<forall>y\<in>set ns. \<not> crosses (ag_side g) (ag_price g) (me_price y)"
proof -
  obtain dn rest where "xs = dn @ rest" "\<forall>x\<in>set dn. crosses (ag_side g) (ag_price g) (me_price x)"
    "ns = rest \<or> (\<exists>x rest' k. rest = x # rest' \<and> ns = x\<lparr>me_qty := me_qty x - k\<rparr> # rest' \<and>
       k < me_qty x \<and> crosses (ag_side g) (ag_price g) (me_price x) \<and> leaves = 0)"
    "leaves \<noteq> 0 \<longrightarrow> rest = [] \<or> \<not> crosses (ag_side g) (ag_price g) (me_price (hd rest))"
    by (rule a_match_split [OF m])
  with left have d: "xs = dn @ ns"
    and no: "ns = [] \<or> \<not> crosses (ag_side g) (ag_price g) (me_price (hd ns))" by auto
  show ?thesis
  proof (cases ns)
    case (Cons y ys)
    have "\<forall>z\<in>set ys. ahead_of (opp (ag_side g)) y z"
      using inv d Cons by (simp add: side_inv_def sorted_wrt_append)
    then have "\<forall>z\<in>set ys. \<not> better (opp (ag_side g)) (me_price z) (me_price y)"
      by (auto simp: ahead_of_def better_asym)
    then show ?thesis using no Cons s
      by (auto simp: crosses_def better_def opp_def split: if_splits)
  qed simp
qed

lemma better_ahead: "better s p (me_price x) \<Longrightarrow> ahead_of s x z \<Longrightarrow> better s p (me_price z)"
  unfolding ahead_of_def by (metis better_trans)

lemma dropWhile_worse:
  assumes "sorted_wrt (ahead_of s) xs"
  shows "\<forall>x\<in>set (dropWhile (\<lambda>x. \<not> better s p (me_price x)) xs). better s p (me_price x)"
  using assms
proof (induction xs)
  case (Cons x xs)
  show ?case
  proof (cases "better s p (me_price x)")
    case True
    then show ?thesis using Cons.prems better_ahead [OF True] by simp
  next
    case False
    then have "dropWhile (\<lambda>x. \<not> better s p (me_price x)) (x # xs) =
        dropWhile (\<lambda>x. \<not> better s p (me_price x)) xs" by simp
    moreover have "sorted_wrt (ahead_of s) xs" using Cons.prems by simp
    ultimately show ?thesis using Cons.IH by metis
  qed
qed simp

lemma a_insert_split:
  assumes "side_inv s xs"
  obtains us vs where "xs = us @ vs" and "a_insert s n xs = us @ n # vs"
    and "\<forall>x\<in>set us. \<not> better s (me_price n) (me_price x)" and "\<forall>x\<in>set vs. better s (me_price n) (me_price x)"
proof (rule that)
  let ?P = "\<lambda>x. \<not> better s (me_price n) (me_price x)"
  show "xs = takeWhile ?P xs @ dropWhile ?P xs" by simp
  show "a_insert s n xs = takeWhile ?P xs @ n # dropWhile ?P xs" by (simp add: a_insert_def)
  show "\<forall>x\<in>set (takeWhile ?P xs). ?P x" by (auto dest: set_takeWhileD)
  show "\<forall>x\<in>set (dropWhile ?P xs). better s (me_price n) (me_price x)"
    using assms by (intro dropWhile_worse) (simp add: side_inv_def)
qed

lemma a_insert_set: "set (a_insert s n xs) = insert n (set xs)"
  by (simp add: a_insert_def) (metis set_append takeWhile_dropWhile_id)

lemma a_insert_perm: "mset (a_insert s n xs) = add_mset n (mset xs)"
  by (simp add: a_insert_def) (metis mset_append takeWhile_dropWhile_id)

lemma a_insert_side_inv:
  assumes inv: "side_inv s xs" and n: "resting s n" "me_priority n = a_priority (me_price n) xs"
    and ids: "\<forall>x\<in>set xs. me_market_order_id x < me_market_order_id n"
  shows "side_inv s (a_insert s n xs)"
proof -
  obtain us vs where uv: "xs = us @ vs" "a_insert s n xs = us @ n # vs"
    "\<forall>x\<in>set us. \<not> better s (me_price n) (me_price x)" "\<forall>x\<in>set vs. better s (me_price n) (me_price x)"
    using inv by (rule a_insert_split)
  have "ahead_of s x n" if x: "x \<in> set us" for x
  proof (cases "me_price x = me_price n")
    case True
    then show ?thesis
      using a_priority_above [OF inv ids, of x "me_price n"] x uv(1) n(2) ids by (simp add: ahead_of_def)
  next
    case False
    then show ?thesis using uv(3) x better_total by (auto simp: ahead_of_def)
  qed
  moreover have "ahead_of s n y" if "y \<in> set vs" for y using uv(4) that by (simp add: ahead_of_def)
  ultimately show ?thesis using inv n(1) uv(1,2) by (auto simp: side_inv_def sorted_wrt_append)
qed

section \<open>New orders\<close>

lemma abook_inv_sides:
  assumes "s \<in> {BUY, SELL}"
  shows "abook_inv b \<longleftrightarrow> side_inv s (ab_side b s) \<and> side_inv (opp s) (ab_side b (opp s)) \<and>
    (\<forall>x\<in>set (ab_side b s). \<forall>y\<in>set (ab_side b (opp s)). \<not> crosses s (me_price x) (me_price y)) \<and> ids_ok b"
  using assms by (auto simp: abook_inv_def uncrossed_def ab_side_def crosses_def not_le)

lemma ids_ok_sides:
  assumes "s \<in> {BUY, SELL}"
  shows "ids_ok b \<longleftrightarrow> distinct (map me_market_order_id (ab_side b s @ ab_side b (opp s))) \<and>
    distinct (map order_key (ab_side b s @ ab_side b (opp s))) \<and>
    (\<forall>x\<in>set (ab_side b s @ ab_side b (opp s)). me_market_order_id x < ab_next_id b) \<and>
    1 \<le> ab_next_id b"
  using assms by (auto simp: ids_ok_def ab_orders_def ab_side_def)

lemma is_order_key: "is_order cid oid x \<longleftrightarrow> order_key x = (cid, oid)"
  by (auto simp: is_order_def order_key_def)

text \<open>Matching keeps the invariant; the number of the next order moves on.\<close>

lemma a_match_inv:
  assumes inv: "abook_inv b" and s: "side \<in> {BUY, SELL}"
    and m: "a_match g q (ab_side b (opp side)) = (ns, leaves, rs, us)"
    and b1: "ab_side b1 side = ab_side b side" "ab_side b1 (opp side) = ns"
      "ab_next_id b1 = ab_next_id b + 1" and wrap: "ab_next_id b < ab_next_id b + 1"
  shows "abook_inv b1"
proof -
  note i = inv [unfolded abook_inv_sides [OF s] ids_ok_sides [OF s]]
  have so: "side_inv (opp side) (ab_side b (opp side))" using i by blast
  obtain dn dk where d: "map me_market_order_id (ab_side b (opp side)) = dn @ map me_market_order_id ns"
    "map order_key (ab_side b (opp side)) = dk @ map order_key ns"
    using a_match_side_inv(2,3) [OF m so] by blast
  have sub: "\<forall>y\<in>set ns. \<exists>x\<in>set (ab_side b (opp side)). \<exists>k. y = x\<lparr>me_qty := k\<rparr>"
    using a_match_sub [OF m] by simp
  have ids: "\<forall>x\<in>set (ab_side b side @ ns). me_market_order_id x < ab_next_id b"
    using i sub by fastforce
  then have ids': "\<forall>x\<in>set (ab_side b side @ ns). me_market_order_id x < ab_next_id b1"
    using wrap b1(3) by (metis less_trans)
  have "distinct (map me_market_order_id (ab_side b side @ ns))"
    "distinct (map order_key (ab_side b side @ ns))"
    using i unfolding map_append d by auto
  moreover have "1 \<le> ab_next_id b1" using i wrap b1(3) by (metis less_imp_le order_trans)
  ultimately have "ids_ok b1" using ids' ids_ok_sides [OF s, of b1] b1 by simp
  moreover have "\<forall>x\<in>set (ab_side b side). \<forall>y\<in>set ns. \<not> crosses side (me_price x) (me_price y)"
    using i sub by fastforce
  ultimately show ?thesis
    using i a_match_side_inv(1) [OF m so] b1 by (simp add: abook_inv_sides [OF s])
qed

lemma distinct_insert_middle:
  "distinct (map f ((us @ n # vs) @ ws)) \<longleftrightarrow>
     distinct (map f (us @ vs @ ws)) \<and> (\<forall>x\<in>set (us @ vs @ ws). f x \<noteq> f n)"
  by (auto simp: image_iff)

lemma a_insert_inv:
  assumes inv: "abook_inv b" and s: "side \<in> {BUY, SELL}" and n: "resting side n"
    "me_priority n = a_priority (me_price n) (ab_side b side)"
    and ids: "\<forall>x\<in>set (ab_orders b). me_market_order_id x < me_market_order_id n"
      "me_market_order_id n < ab_next_id b"
    and fresh: "\<forall>x\<in>set (ab_orders b). order_key x \<noteq> order_key n"
    and nocross: "\<forall>y\<in>set (ab_side b (opp side)). \<not> crosses side (me_price n) (me_price y)"
  shows "abook_inv (ab_set_side b side (a_insert side n (ab_side b side)))"
proof -
  let ?own = "ab_side b side" and ?oth = "ab_side b (opp side)"
  let ?b' = "ab_set_side b side (a_insert side n ?own)"
  note i = inv [unfolded abook_inv_sides [OF s] ids_ok_sides [OF s]]
  have so: "side_inv side ?own" using i by blast
  have b': "ab_side ?b' side = a_insert side n ?own" "ab_side ?b' (opp side) = ?oth"
    "ab_next_id ?b' = ab_next_id b"
    using ab_side_set(1) [OF s s] ab_side_set(1) [OF s opp_simps(3)] opp_neq [OF s] by auto
  have all: "set (ab_orders b) = set ?own \<union> set ?oth" by (rule ab_by_side(1) [OF s])
  obtain us vs where uv: "?own = us @ vs" "a_insert side n ?own = us @ n # vs"
    using so by (rule a_insert_split)
  have "ids_ok ?b'"
    unfolding ids_ok_sides [OF s] b' unfolding uv(2)
  proof (intro conjI)
    have old: "set (us @ vs @ ?oth) = set (ab_orders b)" using all uv(1) by auto
    show "distinct (map me_market_order_id ((us @ n # vs) @ ?oth))"
      unfolding distinct_insert_middle old using i ids(1) uv(1) by auto
    show "distinct (map order_key ((us @ n # vs) @ ?oth))"
      unfolding distinct_insert_middle old using i fresh uv(1) by auto
    show "\<forall>x\<in>set ((us @ n # vs) @ ?oth). me_market_order_id x < ab_next_id b"
      using i ids(2) uv(1) by auto
    show "1 \<le> ab_next_id b" using i by blast
  qed
  moreover have "side_inv side (a_insert side n ?own)"
    by (rule a_insert_side_inv [OF so n]) (use ids all in auto)
  moreover have "\<forall>x\<in>set (a_insert side n ?own). \<forall>y\<in>set ?oth. \<not> crosses side (me_price x) (me_price y)"
    using i nocross by (auto simp: a_insert_set)
  ultimately show ?thesis using i by (simp add: abook_inv_sides [OF s] b')
qed

lemma a_priority_le:
  assumes inv: "side_inv s xs" and ids: "\<forall>x\<in>set xs. me_market_order_id x < mid" and mid: "1 \<le> mid"
  shows "a_priority price xs \<le> mid"
proof (cases "filter (\<lambda>x. me_price x = price) xs")
  case (Cons y ys)
  define l where "l = last (y # ys)"
  have "l \<in> set xs" using last_in_set [of "y # ys"] Cons unfolding l_def
    by (metis filter_is_subset list.discI subsetD)
  then have "me_priority l \<le> me_market_order_id l" "me_market_order_id l < mid"
    using inv ids by (auto simp: side_inv_def resting_def)
  then have "me_priority l < mid" by (rule le_less_trans)
  then have "me_priority l + 1 \<le> mid" by (rule inc_le)
  then show ?thesis using Cons by (simp add: a_priority_def l_def)
qed (use mid in \<open>simp add: a_priority_def\<close>)

text \<open>The specification of a new order, with its two outcomes.\<close>

lemma a_add_unfold:
  assumes "a_match \<lparr>ag_ticker = tid, ag_client = cid, ag_order = oid, ag_market = ucast (ucast (ab_next_id b) :: Qty),
      ag_side = side, ag_price = price\<rparr> qty (ab_side b (opp side)) = (ns, leaves, rs, us)"
    and "b1 = (ab_set_side b (opp side) ns)\<lparr>ab_next_id := ab_next_id b + 1\<rparr>"
    and "n = \<lparr>me_ticker_id = tid, me_client_id = cid, me_client_order_id = oid,
      me_market_order_id = ab_next_id b, me_side = side, me_price = price, me_qty = leaves,
      me_priority = a_priority price (ab_side b side), me_prev_order = None, me_next_order = None\<rparr>"
  shows "fst (a_add b cid oid tid side price qty) =
      (if leaves = 0 then b1 else ab_set_side b1 side (a_insert side n (ab_side b side)))"
    and "snd (snd (a_add b cid oid tid side price qty)) =
      (if leaves = 0 then us else us @ [add_update n])"
    and "tl (fst (snd (a_add b cid oid tid side price qty))) = rs"
  using assms by (simp_all add: a_add_def Let_def)

lemma ab_after_match:
  assumes "side \<in> {BUY, SELL}" and "b1 = (ab_set_side b (opp side) ns)\<lparr>ab_next_id := m\<rparr>"
  shows "ab_side b1 side = ab_side b side" "ab_side b1 (opp side) = ns" "ab_next_id b1 = m"
  using assms by (auto simp: ab_side_def ab_set_side_def)

lemma a_add_inv:
  assumes inv: "abook_inv b" and s: "side \<in> {BUY, SELL}" and wrap: "ab_next_id b < ab_next_id b + 1"
    and fresh: "\<forall>x\<in>set (ab_orders b). \<not> is_order cid oid x"
  shows "abook_inv (fst (a_add b cid oid tid side price qty))"
proof -
  let ?mid = "ab_next_id b" and ?own = "ab_side b side"
  define g where "g = \<lparr>ag_ticker = tid, ag_client = cid, ag_order = oid,
    ag_market = ucast (ucast ?mid :: Qty), ag_side = side, ag_price = price\<rparr>"
  obtain ns leaves rs us where m: "a_match g qty (ab_side b (opp side)) = (ns, leaves, rs, us)"
    by (metis prod.collapse)
  define b1 where "b1 = (ab_set_side b (opp side) ns)\<lparr>ab_next_id := ?mid + 1\<rparr>"
  define n where "n = \<lparr>me_ticker_id = tid, me_client_id = cid, me_client_order_id = oid,
    me_market_order_id = ?mid, me_side = side, me_price = price, me_qty = leaves,
    me_priority = a_priority price ?own, me_prev_order = None, me_next_order = None\<rparr>"
  note b1 = ab_after_match [OF s b1_def]
  have inv1: "abook_inv b1" by (rule a_match_inv [OF inv s m b1 wrap])
  note i = inv [unfolded abook_inv_sides [OF s] ids_ok_sides [OF s]]
  have eq: "fst (a_add b cid oid tid side price qty) =
      (if leaves = 0 then b1 else ab_set_side b1 side (a_insert side n (ab_side b1 side)))"
    using a_add_unfold(1) [OF m [unfolded g_def] b1_def n_def] b1(1) by simp
  have "abook_inv (ab_set_side b1 side (a_insert side n (ab_side b1 side)))" if left: "leaves \<noteq> 0"
  proof (rule a_insert_inv [OF inv1 s])
    have all: "set (ab_orders b1) = set ?own \<union> set ns" using ab_by_side(1) [OF s, of b1] b1 by simp
    have sub: "\<forall>y\<in>set ns. \<exists>x\<in>set (ab_side b (opp side)). \<exists>k. y = x\<lparr>me_qty := k\<rparr>"
      using a_match_sub [OF m] by simp
    have "a_priority price ?own \<le> ?mid"
      by (rule a_priority_le) (use i in auto)
    then show "resting side n" using left by (simp add: resting_def n_def)
    show "me_priority n = a_priority (me_price n) (ab_side b1 side)" using b1 by (simp add: n_def)
    have "\<forall>x\<in>set ?own \<union> set ns. me_market_order_id x < ?mid" using i sub by fastforce
    then show "\<forall>x\<in>set (ab_orders b1). me_market_order_id x < me_market_order_id n"
      unfolding all by (simp add: n_def)
    show "me_market_order_id n < ab_next_id b1" using wrap b1(3) by (simp add: n_def)
    have "\<forall>x\<in>set ?own \<union> set (ab_side b (opp side)). order_key x \<noteq> (cid, oid)"
      using fresh ab_by_side(1) [OF s, of b] by (auto simp: is_order_key)
    then show "\<forall>x\<in>set (ab_orders b1). order_key x \<noteq> order_key n"
      unfolding all using sub by (fastforce simp: n_def order_key_def)
    show "\<forall>y\<in>set (ab_side b1 (opp side)). \<not> crosses side (me_price n) (me_price y)"
      using a_match_uncrossed [OF m _ _ left] i s b1(2) by (simp add: g_def n_def)
  qed
  then show ?thesis using eq inv1 by simp
qed

lemma distinct_filters:
  "distinct (map f (xs @ ys)) \<Longrightarrow> distinct (map f (filter P xs @ filter Q ys))"
  by (auto simp: distinct_map_filter)

lemma a_cancel_inv:
  assumes inv: "abook_inv b"
  shows "abook_inv (fst (a_cancel b cid oid tid))"
proof (cases "List.find (is_order cid oid) (ab_orders b)")
  case None
  then show ?thesis using inv by (simp add: a_cancel_def)
next
  case (Some n)
  then show ?thesis
    using inv distinct_filters [of me_market_order_id] distinct_filters [of order_key]
    by (auto simp: a_cancel_def abook_inv_def side_inv_def uncrossed_def ids_ok_def ab_orders_def sorted_wrt_filter)
qed

section \<open>Conservation of quantity\<close>

definition total_qty :: "MEOrder list \<Rightarrow> nat" where
  "total_qty xs = (\<Sum>x\<leftarrow>xs. unat (me_qty x))"

definition traded :: "MEMarketUpdate list \<Rightarrow> nat" where
  "traded us = (\<Sum>u\<leftarrow>us. if mu_type u = TRADE then unat (mu_qty u) else 0)"

definition executed :: "(ClientId \<times> OrderId) set \<Rightarrow> MEClientResponse list \<Rightarrow> nat" where
  "executed ks rs = (\<Sum>r\<leftarrow>rs. if cr_type r = FILLED \<and> (cr_client_id r, cr_client_order_id r) \<in> ks
     then unat (cr_exec_qty r) else 0)"

lemma total_qty_simps [simp]:
  "total_qty [] = 0" "total_qty (x # xs) = unat (me_qty x) + total_qty xs"
  "total_qty (xs @ ys) = total_qty xs + total_qty ys"
  by (simp_all add: total_qty_def)

lemma traded_simps [simp]:
  "traded [] = 0" "traded (u # us) = (if mu_type u = TRADE then unat (mu_qty u) else 0) + traded us"
  "traded (us @ vs) = traded us + traded vs"
  by (simp_all add: traded_def)

lemma executed_append [simp]: "executed ks (rs @ rs') = executed ks rs + executed ks rs'"
  by (simp add: executed_def)

lemma fill_updates [simp]:
  "mu_type (trade_update g n k) = TRADE" "mu_qty (trade_update g n k) = k"
  "mu_type (passive_update g n k) \<noteq> TRADE"
  by (simp_all add: trade_update_def passive_update_def)

lemma executed_fill:
  "executed UNIV (fill_responses g n k l) = 2 * unat k"
  "executed {(ag_client g, ag_order g)} (fill_responses g n k l) =
     (if is_order (ag_client g) (ag_order g) n then 2 else 1) * unat k"
  by (auto simp: executed_def fill_responses_def is_order_def)

lemma unat_diff_ge: "\<not> q < (m :: 'a :: len word) \<Longrightarrow> unat (q - m) + unat m = unat q"
  by (metis le_add_diff_inverse2 not_less unat_sub word_le_nat_alt)

lemma unat_diff_less: "q < (m :: 'a :: len word) \<Longrightarrow> unat (m - q) + unat q = unat m"
  using unat_diff_ge [of m q] by (simp add: not_less)

lemma a_match_conserves:
  assumes "a_match g q xs = (ns, leaves, rs, us)"
  shows "unat q = unat leaves + traded us \<and> total_qty xs = total_qty ns + traded us \<and>
    executed UNIV rs = 2 * traded us \<and>
    ((\<forall>x\<in>set xs. \<not> is_order (ag_client g) (ag_order g) x) \<longrightarrow>
      executed {(ag_client g, ag_order g)} rs = traded us)"
  using assms
proof (induction g q xs arbitrary: ns leaves rs us rule: a_match.induct)
  case (1 g q)
  then show ?case by (simp add: executed_def)
next
  case (2 g q n xs)
  let ?stop = "q = 0 \<or> \<not> crosses (ag_side g) (ag_price g) (me_price n)"
  show ?case
  proof (cases "?stop")
    case True
    then show ?thesis using "2.prems" by (auto simp: executed_def)
  next
    case go: False
    show ?thesis
    proof (cases "q < me_qty n")
      case True
      then show ?thesis using "2.prems" go unat_diff_less [OF True] by (auto simp: executed_fill)
    next
      case False
      obtain ns' q' rs' us' where r: "a_match g (q - me_qty n) xs = (ns', q', rs', us')"
        by (metis prod.collapse)
      with "2.prems" go False have "ns = ns'" "leaves = q'"
        "rs = fill_responses g n (me_qty n) (q - me_qty n) @ rs'"
        "us = [trade_update g n (me_qty n), passive_update g n (me_qty n)] @ us'" by auto
      with "2.IH" [OF go False r] unat_diff_ge [OF False] show ?thesis by (auto simp: executed_fill)
    qed
  qed
qed

text \<open>Every trade is at the price of the passive order, which the aggressor's limit allows.\<close>

lemma a_match_prices:
  assumes "a_match g q xs = (ns, leaves, rs, us)"
  shows "(\<forall>r\<in>set rs. cr_type r = FILLED \<and> crosses (ag_side g) (ag_price g) (cr_price r)) \<and>
    (\<forall>u\<in>set us. mu_type u \<in> {TRADE, CANCEL, MODIFY} \<and> crosses (ag_side g) (ag_price g) (mu_price u))"
  using assms
proof (induction g q xs arbitrary: ns leaves rs us rule: a_match.induct)
  case (1 g q)
  then show ?case by simp
next
  case (2 g q n xs)
  let ?stop = "q = 0 \<or> \<not> crosses (ag_side g) (ag_price g) (me_price n)"
  have one: "\<forall>r\<in>set (fill_responses g n k l). cr_type r = FILLED \<and> cr_price r = me_price n" for k l
    by (auto simp: fill_responses_def)
  have two: "\<forall>u\<in>{trade_update g n k, passive_update g n k}.
       mu_type u \<in> {TRADE, CANCEL, MODIFY} \<and> mu_price u = me_price n" for k
    by (auto simp: trade_update_def passive_update_def)
  show ?case
  proof (cases "?stop")
    case True
    then show ?thesis using "2.prems" by auto
  next
    case go: False
    show ?thesis
    proof (cases "q < me_qty n")
      case True
      then show ?thesis using "2.prems" go one [of q 0] two [of q] by auto
    next
      case False
      obtain ns' q' rs' us' where r: "a_match g (q - me_qty n) xs = (ns', q', rs', us')"
        by (metis prod.collapse)
      with "2.prems" go False have "rs = fill_responses g n (me_qty n) (q - me_qty n) @ rs'"
        "us = [trade_update g n (me_qty n), passive_update g n (me_qty n)] @ us'" by auto
      with "2.IH" [OF go False r] go one [of "me_qty n" "q - me_qty n"] two [of "me_qty n"] show ?thesis by auto
    qed
  qed
qed

section \<open>Properties of the book\<close>

lemma checkForMatch_refines:
  assumes rep: "book_rep bk b" and s: "side \<in> {BUY, SELL}"
    and m: "a_match \<lparr>ag_ticker = tid, ag_client = cid, ag_order = oid, ag_market = ucast mid, ag_side = side,
      ag_price = price\<rparr> qty (ab_side b (opp side)) = (ns, leaves, rs, us)"
  shows "\<exists>bk'. checkForMatch bk mq cid oid tid side price qty mid = Inr (bk', send mq (rs, us), leaves) \<and>
    book_rep bk' (ab_set_side b (opp side) ns)"
proof -
  from rep obtain sh where inv: "book_inv {} bk sh" and b: "b = book_abs bk sh"
    and sizes: "mp_size (ob_order_pool bk) = ME_MAX_ORDER_IDS"
      "mp_size (ob_orders_at_price_pool bk) = ME_MAX_PRICE_LEVELS"
    by (auto simp: book_rep_def)
  note o = opp_simps(3) [of side] opp_neq [OF s]
  have fuel: "length (side_ptrs (sh (opp side))) \<le> mp_size (ob_order_pool bk)"
  proof -
    have "distinct (side_ptrs (sh (opp side)))" "set (side_ptrs (sh (opp side))) \<subseteq> mp_live (ob_order_pool bk)"
      using book_invD(1) [OF inv] ptrs_split(2,4) [OF s, of sh] by (auto simp: pools_ok_def)
    then have "length (side_ptrs (sh (opp side))) \<le> card (mp_live (ob_order_pool bk))"
      by (metis card_mono distinct_card finite_mp_live)
    also have "\<dots> \<le> card {..<mp_size (ob_order_pool bk)}"
      by (rule card_mono) (auto simp: mp_live_def)
    finally show ?thesis by simp
  qed
  have m': "a_match \<lparr>ag_ticker = tid, ag_client = cid, ag_order = oid, ag_market = ucast mid, ag_side = side,
      ag_price = price\<rparr> qty (abs_orders bk sh (opp side)) = (ns, leaves, rs, us)"
    using m b ab_side_abs [OF o(1)] by simp
  from checkForMatch_loop_ok [OF inv s fuel refl m', of mq] obtain bk' L where
    r: "checkForMatch_loop (mp_size (ob_order_pool bk)) bk mq cid oid tid side price (ucast mid) qty =
      Inr (bk', send mq (rs, us), leaves)" "book_inv {} bk' (sh(opp side := L))" "same_sizes bk bk'"
    "abs_orders bk' (sh(opp side := L)) (opp side) = ns"
    "abs_orders bk' (sh(opp side := L)) side = abs_orders bk sh side" by blast
  have "ab_set_side b (opp side) ns = book_abs bk' (sh(opp side := L))"
  proof (rule abook_eqI)
    show "ab_side (ab_set_side b (opp side) ns) t = ab_side (book_abs bk' (sh(opp side := L))) t"
      if t: "t \<in> {BUY, SELL}" for t
      using ab_side_abs [OF t] ab_side_set(1) [OF o(1) t] opp_cases [OF s, of t] t r(4,5) b o(2) by auto
    show "ab_next_id (ab_set_side b (opp side) ns) = ab_next_id (book_abs bk' (sh(opp side := L)))"
      using r(3) b by (simp add: book_abs_def same_sizes_def)
  qed
  moreover have "checkForMatch bk mq cid oid tid side price qty mid = Inr (bk', send mq (rs, us), leaves)"
    using r(1) s by (auto simp: checkForMatch_def)
  ultimately show ?thesis using r(2,3) sizes by (auto simp: book_rep_def same_sizes_def)
qed

lemma a_match_first:
  "a_match g q xs = (ns, leaves, r # rs, us) \<Longrightarrow> cr_market_order_id r = ag_market g"
  by (cases xs) (auto simp: fill_responses_def split: if_splits prod.splits)

lemma ucast_ucast_32: "ucast (ucast (w :: 64 word) :: 32 word) = w \<longleftrightarrow> unat w < 2 ^ 32"
proof -
  have "unat (ucast (ucast w :: 32 word) :: 64 word) = unat w mod 2 ^ 32"
    by (simp add: unsigned_ucast_eq take_bit_eq_mod unat_mod)
  then show ?thesis by (metis mod_less mod_less_divisor word_unat_eq_iff zero_less_numeral zero_less_power)
qed

text \<open>The empty book, and the constructor of the class on memory that is zero.\<close>

definition empty_abook :: abook where
  "empty_abook = \<lparr>ab_bids = [], ab_asks = [], ab_next_id = 1\<rparr>"

definition empty_book :: "TickerId \<Rightarrow> MEOrderBook" where
  "empty_book t = MEOrderBook_new t (\<lambda>_ _. None) (\<lambda>_. None)"

definition empty_queues :: MEQueues where
  "empty_queues = \<lparr>mq_ogw_responses = LFQueue_new ME_MAX_CLIENT_UPDATES MEClientResponse_default,
     mq_md_updates = LFQueue_new ME_MAX_MARKET_UPDATES MEMarketUpdate_default\<rparr>"

lemma empty_book_rep: "book_rep (empty_book t) empty_abook"
  using book_rep_new by (simp add: empty_book_def empty_abook_def)

lemma empty_abook_inv: "abook_inv empty_abook"
  by (simp add: abook_inv_def empty_abook_def side_inv_def uncrossed_def ids_ok_def ab_orders_def)

lemma empty_abook_sel [simp]:
  "ab_side empty_abook s = []" "ab_orders empty_abook = []" "ab_next_id empty_abook = 1" "levels empty_abook = 0"
  by (simp_all add: empty_abook_def ab_side_def ab_orders_def levels_def)

lemma empty_add_ok:
  "side \<in> {BUY, SELL} \<Longrightarrow> unat cid < ME_MAX_NUM_CLIENTS \<Longrightarrow> unat oid < ME_MAX_ORDER_IDS \<Longrightarrow>
     add_ok empty_abook cid oid side price"
  by (auto simp: add_ok_def price_apart_def ME_MAX_ORDER_IDS_def ME_MAX_PRICE_LEVELS_def)

text \<open>C3: Adding an order. For a book that holds the orders \<open>b\<close> and a new order within what the book
  can hold (orders at its price may rest on either side), \<open>add\<close> runs to its end without a fault, through every allocation, pointer and table
  access; the book it leaves holds what the specification \<open>a_add\<close> says (the other side taken from
  the front while the prices cross, the rest behind the orders that are at least as good), it has
  sent exactly the messages of the specification in their order, and price-time priority, an
  uncrossed book and unique identifiers are kept.\<close>

theorem add_correct:
  assumes "book_rep bk b" and "abook_inv b" and "add_ok b cid oid side price"
    and "ab_next_id b < ab_next_id b + 1"
  shows "\<exists>bk'. add bk mq cid oid tid side price qty =
      Inr (bk', send mq (snd (a_add b cid oid tid side price qty))) \<and>
    book_rep bk' (fst (a_add b cid oid tid side price qty)) \<and>
    abook_inv (fst (a_add b cid oid tid side price qty))"
  using add_refines [OF assms(1,3)] a_add_inv [OF assms(2) _ assms(4)] assms(3)
  by (simp add: add_ok_def)

text \<open>A buyer meets a seller at the same price, and what is left of the buyer takes the price over.\<close>

lemma demo_cross: "a_add empty_abook 3 7 0 SELL 100 10 = (b, out) \<Longrightarrow>
   add_ok b 4 7 BUY 100 \<and> ab_next_id b = 2 \<and> map me_price (ab_side b SELL) = [100]"
  by (auto simp: a_add_def Let_def empty_abook_def ab_side_def ab_set_side_def a_insert_def a_priority_def add_ok_def
      price_apart_def ab_orders_def is_order_def levels_def ME_MAX_NUM_CLIENTS_def ME_MAX_ORDER_IDS_def ME_MAX_PRICE_LEVELS_def opp_def)

theorem add_correct_witness:
  "\<exists>bk b bk'. a_add empty_abook 3 7 0 SELL 100 10 = (b, snd (a_add empty_abook 3 7 0 SELL 100 10)) \<and> book_rep bk b \<and>
    map me_price (ab_side b SELL) = [100] \<and>
    add bk empty_queues 4 7 0 BUY 100 25 = Inr (bk', send empty_queues (snd (a_add b 4 7 0 BUY 100 25))) \<and>
    book_rep bk' (fst (a_add b 4 7 0 BUY 100 25)) \<and> abook_inv (fst (a_add b 4 7 0 BUY 100 25))"
proof -
  obtain b out where b: "a_add empty_abook 3 7 0 SELL 100 10 = (b, out)" by (metis prod.collapse)
  have ok: "add_ok empty_abook 3 7 SELL 100"
    by (rule empty_add_ok) (simp_all add: ME_MAX_NUM_CLIENTS_def ME_MAX_ORDER_IDS_def)
  from add_refines [OF empty_book_rep this, of 0 empty_queues 0 10] b obtain bk where bk: "book_rep bk b" by auto
  have "abook_inv b" using a_add_inv [OF empty_abook_inv, of SELL 3 7 0 100 10] b by simp
  from add_correct [OF bk this, of 4 7 BUY 100 empty_queues 0 25] demo_cross [OF b] bk b show ?thesis by auto
qed

text \<open>C13: Cancelling. For identifiers that are within the tables, \<open>cancel\<close> runs to its end: an order
  of the book is taken out, alone, and the client and the market are told its identifier, side,
  price and remaining quantity; an order that is not in the book, or a client that does not exist,
  gets one rejection and leaves the book as it was.\<close>

theorem cancel_correct:
  assumes "book_rep bk b" and "abook_inv b" and "cancel_ok cid oid"
  shows "\<exists>bk'. cancel bk mq cid oid tid = Inr (bk', send mq (snd (a_cancel b cid oid tid))) \<and>
    book_rep bk' (fst (a_cancel b cid oid tid)) \<and> abook_inv (fst (a_cancel b cid oid tid))"
  using cancel_refines [OF assms(1,3)] a_cancel_inv [OF assms(2)] by simp

theorem cancel_correct_witness:
  "\<exists>bk bk'. book_rep bk (fst (a_add empty_abook 3 7 0 BUY 100 10)) \<and>
    cancel bk empty_queues 3 7 0 =
      Inr (bk', send empty_queues (snd (a_cancel (fst (a_add empty_abook 3 7 0 BUY 100 10)) 3 7 0))) \<and>
    book_rep bk' (fst (a_cancel (fst (a_add empty_abook 3 7 0 BUY 100 10)) 3 7 0))"
proof -
  have ok: "add_ok empty_abook 3 7 BUY 100"
    by (rule empty_add_ok) (simp_all add: ME_MAX_NUM_CLIENTS_def ME_MAX_ORDER_IDS_def)
  from add_refines [OF empty_book_rep this] obtain bk where
    bk: "book_rep bk (fst (a_add empty_abook 3 7 0 BUY 100 10))" by blast
  have "abook_inv (fst (a_add empty_abook 3 7 0 BUY 100 10))"
    by (rule a_add_inv [OF empty_abook_inv]) simp_all
  from cancel_correct [OF bk this, of 3 7 empty_queues 0] bk show ?thesis
    by (auto simp: cancel_ok_def ME_MAX_ORDER_IDS_def)
qed

text \<open>C17: Matching conserves quantity. Whatever the book, the quantity of a new order is what it
  traded plus what it has left, the other side of the book loses exactly what was traded, the fills
  sent to the two clients of each trade add up to twice the traded quantity, every fill is at a
  price that the limit allows, and if something is left then no order on the other side crosses
  the limit any more. The loop always ends.\<close>

theorem match_conserves:
  assumes "book_rep bk b" and "abook_inv b" and "side \<in> {BUY, SELL}"
  shows "\<exists>bk' b' leaves rs us.
    checkForMatch bk mq cid oid tid side price qty mid = Inr (bk', send mq (rs, us), leaves) \<and>
    book_rep bk' b' \<and> ab_side b' side = ab_side b side \<and>
    unat qty = unat leaves + traded us \<and>
    total_qty (ab_side b (opp side)) = total_qty (ab_side b' (opp side)) + traded us \<and>
    executed UNIV rs = 2 * traded us \<and>
    (\<forall>r\<in>set rs. cr_type r = FILLED \<and> crosses side price (cr_price r)) \<and>
    (leaves \<noteq> 0 \<longrightarrow> (\<forall>y\<in>set (ab_side b' (opp side)). \<not> crosses side price (me_price y)))"
proof -
  define g where "g = \<lparr>ag_ticker = tid, ag_client = cid, ag_order = oid, ag_market = (ucast mid :: OrderId),
    ag_side = side, ag_price = price\<rparr>"
  obtain ns leaves rs us where m: "a_match g qty (ab_side b (opp side)) = (ns, leaves, rs, us)"
    by (metis prod.collapse)
  from checkForMatch_refines [OF assms(1,3) m [unfolded g_def], of mq] obtain bk' where
    bk': "checkForMatch bk mq cid oid tid side price qty mid = Inr (bk', send mq (rs, us), leaves)"
    "book_rep bk' (ab_set_side b (opp side) ns)" by blast
  have sides: "ab_side (ab_set_side b (opp side) ns) side = ab_side b side"
    "ab_side (ab_set_side b (opp side) ns) (opp side) = ns"
    using assms(3) by (auto simp: ab_side_def ab_set_side_def)
  have "side_inv (opp side) (ab_side b (opp side))" using assms(2) abook_inv_sides [OF assms(3)] by blast
  then have "leaves \<noteq> 0 \<longrightarrow> (\<forall>y\<in>set ns. \<not> crosses side price (me_price y))"
    using a_match_uncrossed [OF m] assms(3) by (auto simp: g_def)
  with bk' sides a_match_conserves [OF m] a_match_prices [OF m] show ?thesis
    by (intro exI [of _ bk'] exI [of _ "ab_set_side b (opp side) ns"] exI [of _ leaves] exI [of _ rs]
        exI [of _ us]) (simp add: g_def)
qed

theorem match_conserves_witness:
  "\<exists>bk' b' leaves rs us.
    checkForMatch (empty_book 0) empty_queues 3 7 0 BUY 100 10 1 = Inr (bk', send empty_queues (rs, us), leaves) \<and>
    book_rep bk' b' \<and> unat (10 :: Qty) = unat leaves + traded us"
  using match_conserves [OF empty_book_rep empty_abook_inv, of BUY 0 empty_queues 3 7 0 100 10 1]
  by fastforce

text \<open>C18: Price-time priority. The orders that a new order fills are the first ones of the other side,
  all of them crossing its limit; the orders behind them are untouched, except that the first of
  them may have lost a part of its quantity when the new order is used up.\<close>

theorem match_priority:
  assumes "book_rep bk b" and "side \<in> {BUY, SELL}"
    and "checkForMatch bk mq cid oid tid side price qty mid = Inr (bk', mq', leaves)"
  shows "\<exists>filled rest ns. book_rep bk' (ab_set_side b (opp side) ns) \<and>
    ab_side b (opp side) = filled @ rest \<and> (\<forall>x\<in>set filled. crosses side price (me_price x)) \<and>
    (ns = rest \<or> (\<exists>x rest' k. rest = x # rest' \<and> ns = x\<lparr>me_qty := me_qty x - k\<rparr> # rest' \<and>
       k < me_qty x \<and> crosses side price (me_price x) \<and> leaves = 0))"
proof -
  define g where "g = \<lparr>ag_ticker = tid, ag_client = cid, ag_order = oid, ag_market = (ucast mid :: OrderId),
    ag_side = side, ag_price = price\<rparr>"
  obtain ns l rs us where m: "a_match g qty (ab_side b (opp side)) = (ns, l, rs, us)"
    by (metis prod.collapse)
  from checkForMatch_refines [OF assms(1,2) m [unfolded g_def], of mq] assms(3)
  have rep: "book_rep bk' (ab_set_side b (opp side) ns)" and l: "l = leaves" by auto
  obtain dn rest where d: "ab_side b (opp side) = dn @ rest"
    "\<forall>x\<in>set dn. crosses (ag_side g) (ag_price g) (me_price x)"
    "ns = rest \<or> (\<exists>x rest' k. rest = x # rest' \<and> ns = x\<lparr>me_qty := me_qty x - k\<rparr> # rest' \<and>
       k < me_qty x \<and> crosses (ag_side g) (ag_price g) (me_price x) \<and> l = 0)"
    "l \<noteq> 0 \<longrightarrow> rest = [] \<or> \<not> crosses (ag_side g) (ag_price g) (me_price (hd rest))"
    by (rule a_match_split [OF m])
  show ?thesis
    by (intro exI [of _ dn] exI [of _ rest] exI [of _ ns]) (use rep d(1-3) l in \<open>simp add: g_def\<close>)
qed

theorem match_priority_witness:
  "\<exists>bk' mq' leaves filled rest ns.
    checkForMatch (empty_book 0) empty_queues 3 7 0 BUY 100 10 1 = Inr (bk', mq', leaves) \<and>
    book_rep bk' (ab_set_side empty_abook SELL ns) \<and> [] = filled @ rest"
proof -
  obtain bk' where bk': "checkForMatch (empty_book 0) empty_queues 3 7 0 BUY 100 10 1 =
      Inr (bk', send empty_queues ([], []), 10)"
    using checkForMatch_refines [OF empty_book_rep, of BUY 0 3 7 1 100 10 "[]" 10 "[]" "[]" 0 empty_queues]
    by auto
  from match_priority [OF empty_book_rep _ bk'] bk' show ?thesis by auto
qed

text \<open>The identifier in the aggressor's fills. \<^verbatim>\<open>checkForMatch\<close> takes the identifier of the new
  order as a quantity of 32 bits, so the fills report the identifier that the acceptance reported
  exactly as long as it is below \<open>2 ^ 32\<close>.\<close>

theorem fill_id_truncated:
  assumes "book_rep bk b" and "side \<in> {BUY, SELL}" and "a_match \<lparr>ag_ticker = tid, ag_client = cid,
      ag_order = oid, ag_market = ucast (ucast (mid :: OrderId) :: Qty), ag_side = side, ag_price = price\<rparr>
      qty (ab_side b (opp side)) = (ns, leaves, r # rs, us)"
  shows "\<exists>bk'. checkForMatch bk mq cid oid tid side price qty (ucast mid) =
      Inr (bk', send mq (r # rs, us), leaves) \<and>
    (cr_market_order_id r = mid \<longleftrightarrow> unat mid < 2 ^ 32)"
  using checkForMatch_refines [OF assms] a_match_first [OF assms(3)] by (auto simp: ucast_ucast_32)

theorem fill_id_truncated_witness:
  "\<exists>bk bk' r rs us. checkForMatch bk empty_queues 4 9 0 BUY 100 10 (ucast (2 ^ 32 + 5 :: OrderId)) =
      Inr (bk', send empty_queues (r # rs, us), 0) \<and> cr_market_order_id r \<noteq> 2 ^ 32 + 5"
proof -
  have ok: "add_ok empty_abook 3 7 SELL 100"
    by (rule empty_add_ok) (simp_all add: ME_MAX_NUM_CLIENTS_def ME_MAX_ORDER_IDS_def)
  define b where "b = fst (a_add empty_abook 3 7 0 SELL 100 10)"
  from add_refines [OF empty_book_rep ok] obtain bk where bk: "book_rep bk b"
    unfolding b_def by blast
  define g where "g = \<lparr>ag_ticker = 0, ag_client = 4, ag_order = 9,
    ag_market = ucast (ucast (2 ^ 32 + 5 :: OrderId) :: Qty), ag_side = BUY, ag_price = 100\<rparr>"
  obtain n where "ab_side b SELL = [n]" "me_qty n = 10" "me_price n = 100"
    by (simp add: b_def a_add_def ab_side_def ab_set_side_def empty_abook_def a_insert_def Let_def)
  then have "a_match g 10 (ab_side b (opp BUY)) = ([], 0, fill_responses g n 10 0,
      [trade_update g n 10, passive_update g n 10])"
    by (simp add: g_def crosses_def)
  then obtain r rs us where "a_match g 10 (ab_side b (opp BUY)) = ([], 0, r # rs, us)"
    by (auto simp: fill_responses_def)
  from fill_id_truncated [OF bk _ this [unfolded g_def], of empty_queues] show ?thesis
    by simp blast
qed

end
