(* ===== verification/Matching_Engine.thy ===== *)
theory Matching_Engine
  imports ME_Book_Props
begin

text \<open>
  The matching engine of \<^verbatim>\<open>src/exchange/matcher/matching_engine.h\<close> and
  \<^verbatim>\<open>matching_engine.cpp\<close>: one book per ticker, the queue of requests it reads and the two
  queues it writes. The thread's loop is an iteration of \<open>run_step\<close>.
\<close>

section \<open>The class\<close>

record MatchingEngine =
  ticker_order_book :: "nat \<Rightarrow> MEOrderBook"
  incoming_requests :: ClientRequestLFQueue
  eng_queues :: MEQueues
  eng_run :: bool

text \<open>
  The constructor, with the memory that each \<^verbatim>\<open>new MEOrderBook\<close> is given as a parameter.
\<close>

definition MatchingEngine_new ::
    "(nat \<Rightarrow> nat \<Rightarrow> nat \<Rightarrow> pointer) \<Rightarrow> (nat \<Rightarrow> nat \<Rightarrow> pointer) \<Rightarrow> ClientRequestLFQueue \<Rightarrow> MEQueues \<Rightarrow>
     MatchingEngine" where
  "MatchingEngine_new cid_oid_mem price_mem client_requests queues =
     \<lparr>ticker_order_book = (\<lambda>i. MEOrderBook_new (of_nat i) (cid_oid_mem i) (price_mem i)),
      incoming_requests = client_requests, eng_queues = queues, eng_run = False\<rparr>"

definition start :: "MatchingEngine \<Rightarrow> MatchingEngine" where
  "start eng = eng\<lparr>eng_run := True\<rparr>"

definition stop :: "MatchingEngine \<Rightarrow> MatchingEngine" where
  "stop eng = eng\<lparr>eng_run := False\<rparr>"

text \<open>The switch of \<^verbatim>\<open>processClientRequest\<close>, over the two operations of a book.\<close>

definition book_request ::
    "('b \<Rightarrow> MEQueues \<Rightarrow> ClientId \<Rightarrow> OrderId \<Rightarrow> TickerId \<Rightarrow> Side \<Rightarrow> Price \<Rightarrow> Qty \<Rightarrow> ('b \<times> MEQueues) result) \<Rightarrow>
     ('b \<Rightarrow> MEQueues \<Rightarrow> ClientId \<Rightarrow> OrderId \<Rightarrow> TickerId \<Rightarrow> ('b \<times> MEQueues) result) \<Rightarrow>
     'b \<Rightarrow> MEQueues \<Rightarrow> MEClientRequest \<Rightarrow> ('b \<times> MEQueues) result" where
  "book_request add_op cancel_op order_book mq client_request =
     (case rq_type client_request of
        Request_NEW \<Rightarrow>
          add_op order_book mq (rq_client_id client_request) (rq_order_id client_request)
            (rq_ticker_id client_request) (rq_side client_request) (rq_price client_request)
            (rq_qty client_request)
      | Request_CANCEL \<Rightarrow>
          cancel_op order_book mq (rq_client_id client_request) (rq_order_id client_request)
            (rq_ticker_id client_request)
      | Request_INVALID \<Rightarrow>
          FATAL (''Received invalid client-request-type:'' @
            clientRequestTypeToString (rq_type client_request)))"

definition processClientRequest :: "MatchingEngine \<Rightarrow> MEClientRequest \<Rightarrow> MatchingEngine result" where
  "processClientRequest eng client_request =
     (let t = unat (rq_ticker_id client_request) in
      andThen (array_get ME_MAX_TICKERS (ticker_order_book eng) t) (\<lambda>order_book.
      andThen (book_request add cancel order_book (eng_queues eng) client_request) (\<lambda>(bk, mq).
      Inr (eng\<lparr>ticker_order_book := (ticker_order_book eng)(t := bk), eng_queues := mq\<rparr>))))"

text \<open>One turn of the loop of \<^verbatim>\<open>run\<close>, and \<open>k\<close> turns of it.\<close>

definition run_step :: "MatchingEngine \<Rightarrow> MatchingEngine result" where
  "run_step eng =
     (case getNextToRead (incoming_requests eng) of
        None \<Rightarrow> Inr eng
      | Some me_client_request \<Rightarrow>
          andThen (processClientRequest eng me_client_request) (\<lambda>eng1.
          andThen (updateReadIndex (incoming_requests eng1)) (\<lambda>q.
          Inr (eng1\<lparr>incoming_requests := q\<rparr>))))"

fun run :: "nat \<Rightarrow> MatchingEngine \<Rightarrow> MatchingEngine result" where
  "run 0 eng = Inr eng"
| "run (Suc k) eng = (if eng_run eng then andThen (run_step eng) (run k) else Inr eng)"

section \<open>The interface of a book\<close>

text \<open>The specification of one request to a book, and when a book can take it.\<close>

definition a_request :: "abook \<Rightarrow> MEClientRequest \<Rightarrow> abook \<times> outputs" where
  "a_request b r =
     (if rq_type r = Request_NEW
      then a_add b (rq_client_id r) (rq_order_id r) (rq_ticker_id r) (rq_side r) (rq_price r) (rq_qty r)
      else a_cancel b (rq_client_id r) (rq_order_id r) (rq_ticker_id r))"

definition request_ok :: "abook \<Rightarrow> MEClientRequest \<Rightarrow> bool" where
  "request_ok b r \<longleftrightarrow>
     (case rq_type r of
        Request_NEW \<Rightarrow> add_ok b (rq_client_id r) (rq_order_id r) (rq_side r) (rq_price r) \<and>
          ab_next_id b < ab_next_id b + 1
      | Request_CANCEL \<Rightarrow> cancel_ok (rq_client_id r) (rq_order_id r)
      | Request_INVALID \<Rightarrow> False)"

text \<open>What the engine relies on: a book that implements the specification.\<close>

locale book_provider =
  fixes rep :: "'b \<Rightarrow> abook \<Rightarrow> bool"
    and add_op :: "'b \<Rightarrow> MEQueues \<Rightarrow> ClientId \<Rightarrow> OrderId \<Rightarrow> TickerId \<Rightarrow> Side \<Rightarrow> Price \<Rightarrow> Qty \<Rightarrow>
      ('b \<times> MEQueues) result"
    and cancel_op :: "'b \<Rightarrow> MEQueues \<Rightarrow> ClientId \<Rightarrow> OrderId \<Rightarrow> TickerId \<Rightarrow> ('b \<times> MEQueues) result"
  assumes add_law: "rep bk b \<Longrightarrow> add_ok b cid oid side price \<Longrightarrow>
      \<exists>bk'. add_op bk mq cid oid tid side price qty =
        Inr (bk', send mq (snd (a_add b cid oid tid side price qty))) \<and>
        rep bk' (fst (a_add b cid oid tid side price qty))"
    and cancel_law: "rep bk b \<Longrightarrow> cancel_ok cid oid \<Longrightarrow>
      \<exists>bk'. cancel_op bk mq cid oid tid = Inr (bk', send mq (snd (a_cancel b cid oid tid))) \<and>
        rep bk' (fst (a_cancel b cid oid tid))"
begin

lemma request:
  assumes "rep bk b" and "request_ok b r"
  shows "\<exists>bk'. book_request add_op cancel_op bk mq r = Inr (bk', send mq (snd (a_request b r))) \<and>
    rep bk' (fst (a_request b r))"
proof (cases "rq_type r")
  case Request_INVALID
  then show ?thesis using assms(2) by (simp add: request_ok_def)
next
  case Request_NEW
  with assms show ?thesis
    using add_law [OF assms(1), of "rq_client_id r" "rq_order_id r" "rq_side r" "rq_price r"]
    by (simp add: request_ok_def book_request_def a_request_def)
next
  case Request_CANCEL
  with assms show ?thesis
    using cancel_law [OF assms(1), of "rq_client_id r" "rq_order_id r"]
    by (simp add: request_ok_def book_request_def a_request_def)
qed

end

interpretation me_book: book_provider book_rep add cancel
  by unfold_locales (auto intro: add_refines cancel_refines)

lemma a_request_inv:
  assumes "abook_inv b" and "request_ok b r"
  shows "abook_inv (fst (a_request b r))"
  using assms a_add_inv a_cancel_inv
  by (auto simp: a_request_def request_ok_def add_ok_def split: ClientRequestType.splits)

section \<open>The engine\<close>

type_synonym aengine = "nat \<Rightarrow> abook"

definition ae_request :: "aengine \<Rightarrow> MEClientRequest \<Rightarrow> aengine \<times> outputs" where
  "ae_request e r =
     (let t = unat (rq_ticker_id r) in (e(t := fst (a_request (e t) r)), snd (a_request (e t) r)))"

definition ae_ok :: "aengine \<Rightarrow> MEClientRequest \<Rightarrow> bool" where
  "ae_ok e r \<longleftrightarrow> unat (rq_ticker_id r) < ME_MAX_TICKERS \<and> request_ok (e (unat (rq_ticker_id r))) r"

fun ae_requests :: "aengine \<Rightarrow> MEClientRequest list \<Rightarrow> aengine \<times> outputs" where
  "ae_requests e [] = (e, [], [])"
| "ae_requests e (r # rs) =
     (let (e1, out) = ae_request e r; (e2, outs) = ae_requests e1 rs in
      (e2, fst out @ fst outs, snd out @ snd outs))"

fun ae_oks :: "aengine \<Rightarrow> MEClientRequest list \<Rightarrow> bool" where
  "ae_oks e [] = True"
| "ae_oks e (r # rs) = (ae_ok e r \<and> ae_oks (fst (ae_request e r)) rs)"

definition eng_rep :: "MatchingEngine \<Rightarrow> aengine \<Rightarrow> bool" where
  "eng_rep eng e \<longleftrightarrow> (\<forall>t<ME_MAX_TICKERS. book_rep (ticker_order_book eng t) (e t) \<and> abook_inv (e t))"

lemma processClientRequest_refines:
  assumes "eng_rep eng e" and "ae_ok e r"
  shows "\<exists>eng'. processClientRequest eng r = Inr eng' \<and> eng_rep eng' (fst (ae_request e r)) \<and>
    eng_queues eng' = send (eng_queues eng) (snd (ae_request e r)) \<and>
    incoming_requests eng' = incoming_requests eng \<and> eng_run eng' = eng_run eng"
proof -
  let ?t = "unat (rq_ticker_id r)"
  have t: "?t < ME_MAX_TICKERS" and ok: "request_ok (e ?t) r" using assms(2) by (simp_all add: ae_ok_def)
  then have rep: "book_rep (ticker_order_book eng ?t) (e ?t)" and inv: "abook_inv (e ?t)"
    using assms(1) by (simp_all add: eng_rep_def)
  from me_book.request [OF rep ok, of "eng_queues eng"] obtain bk' where
    "book_request add cancel (ticker_order_book eng ?t) (eng_queues eng) r =
      Inr (bk', send (eng_queues eng) (snd (a_request (e ?t) r)))"
    "book_rep bk' (fst (a_request (e ?t) r))" by blast
  then show ?thesis using t assms(1) a_request_inv [OF inv ok]
    by (simp add: processClientRequest_def ae_request_def Let_def eng_rep_def)
qed

lemma send_append: "send (send mq a) b = send mq (fst a @ fst b, snd a @ snd b)"
  by (metis prod.collapse send_send)

lemma run_refines:
  assumes "eng_rep eng e" and "q_inv (incoming_requests eng)" and "eng_run eng"
    and "q_contents (incoming_requests eng) = rs" and "ae_oks e rs"
  shows "\<exists>eng'. run (length rs) eng = Inr eng' \<and> eng_rep eng' (fst (ae_requests e rs)) \<and>
    eng_queues eng' = send (eng_queues eng) (snd (ae_requests e rs)) \<and>
    q_inv (incoming_requests eng') \<and> q_contents (incoming_requests eng') = [] \<and> eng_run eng'"
  using assms
proof (induction rs arbitrary: eng e)
  case Nil
  then show ?case by simp
next
  case (Cons r rs)
  from processClientRequest_refines [OF Cons.prems(1), of r] Cons.prems(5) obtain eng1 where
    e1: "processClientRequest eng r = Inr eng1" "eng_rep eng1 (fst (ae_request e r))"
    "eng_queues eng1 = send (eng_queues eng) (snd (ae_request e r))"
    "incoming_requests eng1 = incoming_requests eng" "eng_run eng1" using Cons.prems(3) by auto
  from updateReadIndex_contents [OF Cons.prems(2,4)] obtain q where
    q: "updateReadIndex (incoming_requests eng) = Inr q" "q_inv q" "q_contents q = rs" by blast
  let ?eng2 = "eng1\<lparr>incoming_requests := q\<rparr>"
  have "getNextToRead (incoming_requests eng) = Some r"
    using getNextToRead_contents [OF Cons.prems(2)] Cons.prems(4) by simp
  then have "run_step eng = Inr ?eng2" using e1(1,4) q(1) by (simp add: run_step_def)
  moreover have "eng_rep ?eng2 (fst (ae_request e r))" using e1(2) by (simp add: eng_rep_def)
  ultimately show ?case
    using Cons.IH [of ?eng2 "fst (ae_request e r)"] q e1(3,5) Cons.prems(3,5)
    by (auto simp: split_def Let_def send_append)
qed


lemma eng_rep_new:
  "eng_rep (MatchingEngine_new (\<lambda>_ _ _. None) (\<lambda>_ _. None) q mq) (\<lambda>_. empty_abook)"
  using empty_book_rep empty_abook_inv by (simp add: eng_rep_def MatchingEngine_new_def empty_book_def)

section \<open>Properties\<close>

text \<open>C6: The engine's loop. With as many turns as there are requests waiting, each of them one that
  the books can take when its turn comes, the loop of the matching engine empties its queue without
  a fault; the books end as the specification run over the requests in the order of the queue, and
  the two outgoing queues hold, behind what they held, exactly the responses and updates of the
  specification in order, given room for them.\<close>

theorem engine_correct:
  assumes "eng_rep eng e" and "q_inv (incoming_requests eng)" and "eng_run eng"
    and "q_contents (incoming_requests eng) = rs" and "ae_oks e rs"
    and "ae_requests e rs = (e', resps, upds)"
    and "q_inv (mq_ogw_responses (eng_queues eng))" and "q_inv (mq_md_updates (eng_queues eng))"
    and "length (q_contents (mq_ogw_responses (eng_queues eng))) + length resps
      \<le> q_capacity (mq_ogw_responses (eng_queues eng))"
    and "length (q_contents (mq_md_updates (eng_queues eng))) + length upds
      \<le> q_capacity (mq_md_updates (eng_queues eng))"
  shows "\<exists>eng'. run (length rs) eng = Inr eng' \<and> eng_rep eng' e' \<and>
    q_contents (incoming_requests eng') = [] \<and>
    q_contents (mq_ogw_responses (eng_queues eng')) = q_contents (mq_ogw_responses (eng_queues eng)) @ resps \<and>
    q_contents (mq_md_updates (eng_queues eng')) = q_contents (mq_md_updates (eng_queues eng)) @ upds"
proof -
  from run_refines [OF assms(1-5)] assms(6) obtain eng' where
    "run (length rs) eng = Inr eng'" "eng_rep eng' e'" "eng_queues eng' = send (eng_queues eng) (resps, upds)"
    "q_contents (incoming_requests eng') = []" by auto
  with q_pushes_contents [OF assms(7,9)] q_pushes_contents [OF assms(8,10)] show ?thesis
    by (simp add: send_def)
qed

definition demo_request :: "ClientRequestType \<Rightarrow> ClientId \<Rightarrow> OrderId \<Rightarrow> Side \<Rightarrow> Price \<Rightarrow> Qty \<Rightarrow> MEClientRequest" where
  "demo_request ty cid oid side price qty = \<lparr>rq_type = ty, rq_client_id = cid, rq_ticker_id = 1,
     rq_order_id = oid, rq_side = side, rq_price = price, rq_qty = qty\<rparr>"

definition demo_engine :: MatchingEngine where
  "demo_engine = start (MatchingEngine_new (\<lambda>_ _ _. None) (\<lambda>_ _. None)
     (q_push (LFQueue_new ME_MAX_CLIENT_UPDATES MEClientRequest_default) (demo_request Request_CANCEL 3 7 BUY 100 10))
     empty_queues)"

theorem engine_correct_witness:
  "\<exists>eng' r. run 1 demo_engine = Inr eng' \<and> q_contents (incoming_requests eng') = [] \<and>
    q_contents (mq_ogw_responses (eng_queues eng')) = [r] \<and> cr_type r = CANCEL_REJECTED"
proof -
  let ?r = "demo_request Request_CANCEL 3 7 BUY 100 10" and ?e = "\<lambda>_ :: nat. empty_abook"
  let ?q = "LFQueue_new ME_MAX_CLIENT_UPDATES MEClientRequest_default"
  have new: "q_inv (LFQueue_new n d)" "q_contents (LFQueue_new n d) = []" "q_capacity (LFQueue_new n d) = n"
    if "0 < n" for n :: nat and d :: 'a using that q_inv_new by (simp_all add: LFQueue_new_def q_contents_def)
  have rep: "eng_rep demo_engine ?e" using eng_rep_new by (simp add: demo_engine_def start_def eng_rep_def)
  have qi: "q_inv (incoming_requests demo_engine)" "q_contents (incoming_requests demo_engine) = [?r]"
    using q_inv_push [of ?q ?r] q_contents_push [of ?q ?r] new [of ME_MAX_CLIENT_UPDATES MEClientRequest_default]
      length_q_contents [of ?q]
    by (simp_all add: demo_engine_def start_def MatchingEngine_new_def ME_MAX_CLIENT_UPDATES_def)
  have ok: "ae_oks ?e [?r]"
    by (simp add: ae_ok_def request_ok_def demo_request_def cancel_ok_def ME_MAX_TICKERS_def ME_MAX_ORDER_IDS_def)
  obtain e' resps where req: "ae_requests ?e [?r] = (e', resps, [])" and
    resps: "\<exists>r. resps = [r] \<and> cr_type r = CANCEL_REJECTED"
    by (simp add: ae_request_def a_request_def demo_request_def a_cancel_def Let_def)
  have out: "eng_queues demo_engine = empty_queues" "eng_run demo_engine"
    by (simp_all add: demo_engine_def start_def MatchingEngine_new_def)
  from engine_correct [OF rep qi(1) out(2) qi(2) ok req] resps show ?thesis
    by (auto simp: out empty_queues_def new ME_MAX_CLIENT_UPDATES_def ME_MAX_MARKET_UPDATES_def)
qed

text \<open>Requests that the engine does not check. It trusts the request it reads: a ticker beyond the
  array of books is an access outside of it, whose outcome the language leaves undefined and which is
  the fault \<open>Bad_index\<close> here; an invalid type is fatal; and a cancel of a known
  client with an order identifier beyond the table throws where nothing may be thrown, whatever
  the books hold. With \<open>processClientRequest_refines\<close> these are the faults of the engine that do
  not depend on the contents of the books.\<close>

theorem engine_faults:
  "(ME_MAX_TICKERS \<le> unat (rq_ticker_id r) \<longrightarrow> processClientRequest eng r = Inl Bad_index) \<and>
   (unat (rq_ticker_id r) < ME_MAX_TICKERS \<and> rq_type r = Request_INVALID \<longrightarrow>
      processClientRequest eng r = Inl (Fatal ''Received invalid client-request-type:INVALID'')) \<and>
   (unat (rq_ticker_id r) < ME_MAX_TICKERS \<and> rq_type r = Request_CANCEL \<and>
    unat (rq_client_id r) < ME_MAX_NUM_CLIENTS \<and> ME_MAX_ORDER_IDS \<le> unat (rq_order_id r) \<longrightarrow>
      processClientRequest eng r = Inl Out_of_range)"
  by (auto simp: processClientRequest_def array_get_def Let_def book_request_def FATAL_def
      cancel_out_of_range)

theorem engine_faults_witness:
  "processClientRequest demo_engine (demo_request Request_CANCEL 3 1048576 BUY 100 10) = Inl Out_of_range \<and>
   processClientRequest demo_engine (demo_request Request_INVALID 3 7 BUY 100 10) =
     Inl (Fatal ''Received invalid client-request-type:INVALID'')"
  using engine_faults [of "demo_request Request_CANCEL 3 1048576 BUY 100 10" demo_engine]
    engine_faults [of "demo_request Request_INVALID 3 7 BUY 100 10" demo_engine]
  by (simp add: demo_request_def ME_MAX_TICKERS_def ME_MAX_NUM_CLIENTS_def ME_MAX_ORDER_IDS_def)

end
