(* ===== verification/Wire.thy ===== *)
theory Wire
  imports Messages
begin

text \<open>
  The messages as they go over the network: the packed structs of
  \<^verbatim>\<open>client_request.h\<close>, \<^verbatim>\<open>client_response.h\<close> and \<^verbatim>\<open>market_update.h\<close> as
  sequences of bytes, members in their order, integers least significant byte first, and the loop
  with which every receiver cuts its buffer into structs. A byte that is none of an enumeration's
  values is read as the value \<open>INVALID\<close>, which the receivers treat alike; only the printing would
  tell them apart, with \<open>UNKNOWN\<close> for such a byte.
\<close>

section \<open>Integers\<close>

type_synonym byte = "8 word"

definition le_bytes :: "nat \<Rightarrow> nat \<Rightarrow> byte list" where
  "le_bytes k n = map (\<lambda>i. word_of_nat (n div 256 ^ i)) [0..<k]"

fun le_nat :: "byte list \<Rightarrow> nat" where
  "le_nat [] = 0"
| "le_nat (b # bs) = unat b + 256 * le_nat bs"

lemma length_le_bytes [simp]: "length (le_bytes k n) = k"
  by (simp add: le_bytes_def)

lemma le_bytes_Suc: "le_bytes (Suc k) n = word_of_nat n # le_bytes k (n div 256)"
  by (simp add: le_bytes_def upt_conv_Cons map_Suc_upt [symmetric] div_mult2_eq comp_def
      del: upt_Suc map_Suc_upt)

lemma le_nat_bytes: "le_nat (le_bytes k n) = n mod 256 ^ k"
proof (induction k arbitrary: n)
  case 0
  then show ?case by (simp add: le_bytes_def)
next
  case (Suc k)
  have "n mod 256 ^ Suc k = n mod 256 + 256 * (n div 256 mod 256 ^ k)"
    by (simp add: mod_mult2_eq)
  then show ?case by (simp add: le_bytes_Suc Suc unat_of_nat)
qed

text \<open>Unsigned integers and the signed price of 64 bits.\<close>

definition word_bytes :: "nat \<Rightarrow> 'a :: len word \<Rightarrow> byte list" where
  "word_bytes k w = le_bytes k (unat w)"

definition bytes_word :: "byte list \<Rightarrow> 'a :: len word" where
  "bytes_word bs = word_of_nat (le_nat bs)"

definition price_bytes :: "Price \<Rightarrow> byte list" where
  "price_bytes p = le_bytes 8 (nat (p mod 2 ^ 64))"

definition bytes_price :: "byte list \<Rightarrow> Price" where
  "bytes_price bs = (let n = int (le_nat bs) in if n < 2 ^ 63 then n else n - 2 ^ 64)"

lemma length_bytes [simp]: "length (word_bytes k w) = k" "length (price_bytes p) = 8"
  by (simp_all add: word_bytes_def price_bytes_def)

lemma word_roundtrip:
  assumes "LENGTH('a) = 8 * k"
  shows "bytes_word (word_bytes k w) = (w :: 'a :: len word)"
proof -
  have "(256 :: nat) ^ k = 2 ^ LENGTH('a)" using assms by (simp add: power_mult)
  moreover have "unat w < 2 ^ LENGTH('a)" by (rule unsigned_less)
  ultimately have "unat w mod 256 ^ k = unat w" by simp
  then show ?thesis by (simp add: bytes_word_def word_bytes_def le_nat_bytes)
qed

lemma price_roundtrip:
  assumes "price_ok p"
  shows "bytes_price (price_bytes p) = p"
proof -
  have "nat (p mod 2 ^ 64) < 256 ^ 8" by simp
  then have le: "int (le_nat (price_bytes p)) = p mod 2 ^ 64"
    by (simp add: price_bytes_def le_nat_bytes del: power_numeral)
  show ?thesis
  proof (cases "0 \<le> p")
    case True
    then have "p mod 2 ^ 64 = p" "p < 2 ^ 63" using assms by (simp_all add: price_ok_def)
    then show ?thesis using le by (simp add: bytes_price_def Let_def)
  next
    case False
    then have "p mod 2 ^ 64 = p + 2 ^ 64"
      using assms mod_pos_pos_trivial [of "p + 2 ^ 64" "2 ^ 64"] by (simp add: price_ok_def)
    then show ?thesis using le assms by (simp add: bytes_price_def Let_def price_ok_def)
  qed
qed

section \<open>Cutting a stream into messages\<close>

text \<open>
  The loop of every receive callback: \<^verbatim>\<open>for (; i + sizeof(M) <= next_rcv_valid_index_;
  i += sizeof(M))\<close>, and the rest of the buffer, which is moved to its start.
\<close>

function frames :: "nat \<Rightarrow> (byte list \<Rightarrow> 'm) \<Rightarrow> byte list \<Rightarrow> 'm list \<times> byte list" where
  "frames n dec buf =
     (if 0 < n \<and> n \<le> length buf then
        let (ms, rest) = frames n dec (drop n buf) in (dec (take n buf) # ms, rest)
      else ([], buf))"
  by pat_completeness auto
termination
  by (relation "measure (\<lambda>(n, dec, buf). length buf)") auto

declare frames.simps [simp del]

lemma frames_less: "length buf < n \<Longrightarrow> frames n dec buf = ([], buf)"
  by (subst frames.simps) simp

lemma frames_step:
  "0 < n \<Longrightarrow> length bs = n \<Longrightarrow>
     frames n dec (bs @ buf) = (dec bs # fst (frames n dec buf), snd (frames n dec buf))"
  by (subst frames.simps) (simp add: split_def Let_def)

lemma frames_rest: "0 < n \<Longrightarrow> length (snd (frames n dec buf)) < n"
proof (induction n dec buf rule: frames.induct)
  case (1 n dec buf)
  then show ?case by (subst frames.simps) (auto simp: split_def Let_def)
qed

text \<open>How a stream is cut does not depend on the pieces in which it arrives.\<close>

lemma frames_append:
  assumes "0 < n"
  shows "frames n dec (a @ b) =
    (fst (frames n dec a) @ fst (frames n dec (snd (frames n dec a) @ b)),
     snd (frames n dec (snd (frames n dec a) @ b)))"
proof (induction n dec a rule: frames.induct)
  case (1 n dec a)
  show ?case
  proof (cases "0 < n \<and> n \<le> length a")
    case True
    have ab: "a @ b = take n a @ (drop n a @ b)" by (metis append_assoc append_take_drop_id)
    have "frames n dec (a @ b) =
        (dec (take n a) # fst (frames n dec (drop n a @ b)), snd (frames n dec (drop n a @ b)))"
      unfolding ab using True by (intro frames_step) auto
    moreover have "frames n dec (take n a @ drop n a) =
        (dec (take n a) # fst (frames n dec (drop n a)), snd (frames n dec (drop n a)))"
      using True by (intro frames_step) auto
    ultimately show ?thesis using 1 [OF True] by simp
  next
    case False
    then have "frames n dec a = ([], a)" by (subst frames.simps) auto
    then show ?thesis by simp
  qed
qed

text \<open>The interface of a message on the wire: a fixed size, and reading back what was written.\<close>

locale codec =
  fixes enc :: "'m \<Rightarrow> byte list" and dec :: "byte list \<Rightarrow> 'm" and size_of :: nat and ok :: "'m \<Rightarrow> bool"
  assumes size_pos: "0 < size_of" and enc_size: "length (enc m) = size_of"
    and dec_enc: "ok m \<Longrightarrow> dec (enc m) = m"
begin

lemma frames_enc:
  assumes "\<forall>m\<in>set ms. ok m" and "length rest < size_of"
  shows "frames size_of dec (concat (map enc ms) @ rest) = (ms, rest)"
  using assms(1)
proof (induction ms)
  case Nil
  then show ?case using frames_less [OF assms(2)] by simp
next
  case (Cons m ms)
  then show ?case using frames_step [OF size_pos enc_size, of dec m] dec_enc by simp
qed

text \<open>A receiver that is given the bytes of a sequence of messages in any pieces reads them all.\<close>

lemma pieces:
  assumes "\<forall>m\<in>set ms. ok m" and "concat pieces = concat (map enc ms)"
  shows "foldl (\<lambda>(got, buf) piece. (got @ fst (frames size_of dec (buf @ piece)),
    snd (frames size_of dec (buf @ piece)))) ([], []) pieces = (ms, [])"
proof -
  have gen: "foldl (\<lambda>(got, buf) piece. (got @ fst (frames size_of dec (buf @ piece)),
      snd (frames size_of dec (buf @ piece)))) (got, buf) pieces =
    (got @ fst (frames size_of dec (buf @ concat pieces)), snd (frames size_of dec (buf @ concat pieces)))"
    if "length buf < size_of" for got buf
    using that
  proof (induction pieces arbitrary: got buf)
    case Nil
    then show ?case by (simp add: frames_less)
  next
    case (Cons p ps)
    have "length (snd (frames size_of dec (buf @ p))) < size_of" by (rule frames_rest [OF size_pos])
    then show ?case using Cons.IH frames_append [OF size_pos, of dec "buf @ p" "concat ps"] by simp
  qed
  show ?thesis using gen [of "[]" "[]"] size_pos frames_enc [OF assms(1), of "[]"] assms(2) by simp
qed

end


section \<open>The enumerations\<close>

fun requestTypeCode :: "ClientRequestType \<Rightarrow> byte" where
  "requestTypeCode Request_INVALID = 0"
| "requestTypeCode Request_NEW = 1"
| "requestTypeCode Request_CANCEL = 2"

definition codeRequestType :: "byte \<Rightarrow> ClientRequestType" where
  "codeRequestType c = (if c = 1 then Request_NEW else if c = 2 then Request_CANCEL else Request_INVALID)"

fun responseTypeCode :: "ClientResponseType \<Rightarrow> byte" where
  "responseTypeCode Response_INVALID = 0"
| "responseTypeCode ACCEPTED = 1"
| "responseTypeCode CANCELED = 2"
| "responseTypeCode FILLED = 3"
| "responseTypeCode CANCEL_REJECTED = 4"

definition codeResponseType :: "byte \<Rightarrow> ClientResponseType" where
  "codeResponseType c = (if c = 1 then ACCEPTED else if c = 2 then CANCELED else if c = 3 then FILLED
     else if c = 4 then CANCEL_REJECTED else Response_INVALID)"

fun updateTypeCode :: "MarketUpdateType \<Rightarrow> byte" where
  "updateTypeCode Update_INVALID = 0"
| "updateTypeCode CLEAR = 1"
| "updateTypeCode ADD = 2"
| "updateTypeCode MODIFY = 3"
| "updateTypeCode CANCEL = 4"
| "updateTypeCode TRADE = 5"
| "updateTypeCode SNAPSHOT_START = 6"
| "updateTypeCode SNAPSHOT_END = 7"

definition codeUpdateType :: "byte \<Rightarrow> MarketUpdateType" where
  "codeUpdateType c = (if c = 1 then CLEAR else if c = 2 then ADD else if c = 3 then MODIFY
     else if c = 4 then CANCEL else if c = 5 then TRADE else if c = 6 then SNAPSHOT_START
     else if c = 7 then SNAPSHOT_END else Update_INVALID)"

definition sideCode :: "Side \<Rightarrow> byte" where
  "sideCode s = word_of_int (sideToValue s)"

definition codeSide :: "byte \<Rightarrow> Side" where
  "codeSide c = (if c = 1 then BUY else if c = - 1 then SELL else if c = 2 then Side_MAX else Side_INVALID)"

lemma code_roundtrip [simp]:
  "codeRequestType (requestTypeCode rt) = rt" "codeResponseType (responseTypeCode st) = st"
  "codeUpdateType (updateTypeCode ut) = ut" "codeSide (sideCode s) = s"
  subgoal by (cases rt) (simp_all add: codeRequestType_def)
  subgoal by (cases st) (simp_all add: codeResponseType_def)
  subgoal by (cases ut) (simp_all add: codeUpdateType_def)
  subgoal by (cases s) (simp_all add: codeSide_def sideCode_def)
  done

section \<open>The structs\<close>

text \<open>The member of \<open>n\<close> bytes at offset \<open>i\<close>.\<close>

definition member :: "nat \<Rightarrow> nat \<Rightarrow> byte list \<Rightarrow> byte list" where
  "member i n bs = take n (drop i bs)"

definition enc_MEClientRequest :: "MEClientRequest \<Rightarrow> byte list" where
  "enc_MEClientRequest r =
     [requestTypeCode (rq_type r)] @ word_bytes 4 (rq_client_id r) @ word_bytes 4 (rq_ticker_id r) @
     word_bytes 8 (rq_order_id r) @ [sideCode (rq_side r)] @ price_bytes (rq_price r) @
     word_bytes 4 (rq_qty r)"

definition dec_MEClientRequest :: "byte list \<Rightarrow> MEClientRequest" where
  "dec_MEClientRequest bs =
     \<lparr>rq_type = codeRequestType (bs ! 0), rq_client_id = bytes_word (member 1 4 bs),
      rq_ticker_id = bytes_word (member 5 4 bs), rq_order_id = bytes_word (member 9 8 bs),
      rq_side = codeSide (bs ! 17), rq_price = bytes_price (member 18 8 bs),
      rq_qty = bytes_word (member 26 4 bs)\<rparr>"

definition enc_OMClientRequest :: "OMClientRequest \<Rightarrow> byte list" where
  "enc_OMClientRequest r = word_bytes 8 (orq_seq_num r) @ enc_MEClientRequest (orq_me_client_request r)"

definition dec_OMClientRequest :: "byte list \<Rightarrow> OMClientRequest" where
  "dec_OMClientRequest bs =
     \<lparr>orq_seq_num = bytes_word (member 0 8 bs), orq_me_client_request = dec_MEClientRequest (drop 8 bs)\<rparr>"

definition enc_MEClientResponse :: "MEClientResponse \<Rightarrow> byte list" where
  "enc_MEClientResponse r =
     [responseTypeCode (cr_type r)] @ word_bytes 4 (cr_client_id r) @ word_bytes 4 (cr_ticker_id r) @
     word_bytes 8 (cr_client_order_id r) @ word_bytes 8 (cr_market_order_id r) @
     [sideCode (cr_side r)] @ price_bytes (cr_price r) @ word_bytes 4 (cr_exec_qty r) @
     word_bytes 4 (cr_leaves_qty r)"

definition dec_MEClientResponse :: "byte list \<Rightarrow> MEClientResponse" where
  "dec_MEClientResponse bs =
     \<lparr>cr_type = codeResponseType (bs ! 0), cr_client_id = bytes_word (member 1 4 bs),
      cr_ticker_id = bytes_word (member 5 4 bs), cr_client_order_id = bytes_word (member 9 8 bs),
      cr_market_order_id = bytes_word (member 17 8 bs), cr_side = codeSide (bs ! 25),
      cr_price = bytes_price (member 26 8 bs), cr_exec_qty = bytes_word (member 34 4 bs),
      cr_leaves_qty = bytes_word (member 38 4 bs)\<rparr>"

definition enc_OMClientResponse :: "OMClientResponse \<Rightarrow> byte list" where
  "enc_OMClientResponse r = word_bytes 8 (ocr_seq_num r) @ enc_MEClientResponse (ocr_me_client_response r)"

definition dec_OMClientResponse :: "byte list \<Rightarrow> OMClientResponse" where
  "dec_OMClientResponse bs =
     \<lparr>ocr_seq_num = bytes_word (member 0 8 bs), ocr_me_client_response = dec_MEClientResponse (drop 8 bs)\<rparr>"

definition enc_MEMarketUpdate :: "MEMarketUpdate \<Rightarrow> byte list" where
  "enc_MEMarketUpdate u =
     [updateTypeCode (mu_type u)] @ word_bytes 8 (mu_order_id u) @ word_bytes 4 (mu_ticker_id u) @
     [sideCode (mu_side u)] @ price_bytes (mu_price u) @ word_bytes 4 (mu_qty u) @
     word_bytes 8 (mu_priority u)"

definition dec_MEMarketUpdate :: "byte list \<Rightarrow> MEMarketUpdate" where
  "dec_MEMarketUpdate bs =
     \<lparr>mu_type = codeUpdateType (bs ! 0), mu_order_id = bytes_word (member 1 8 bs),
      mu_ticker_id = bytes_word (member 9 4 bs), mu_side = codeSide (bs ! 13),
      mu_price = bytes_price (member 14 8 bs), mu_qty = bytes_word (member 22 4 bs),
      mu_priority = bytes_word (member 26 8 bs)\<rparr>"

definition enc_MDPMarketUpdate :: "MDPMarketUpdate \<Rightarrow> byte list" where
  "enc_MDPMarketUpdate u = word_bytes 8 (mdp_seq_num u) @ enc_MEMarketUpdate (mdp_me_market_update u)"

definition dec_MDPMarketUpdate :: "byte list \<Rightarrow> MDPMarketUpdate" where
  "dec_MDPMarketUpdate bs =
     \<lparr>mdp_seq_num = bytes_word (member 0 8 bs), mdp_me_market_update = dec_MEMarketUpdate (drop 8 bs)\<rparr>"

text \<open>The sizes of the packed structs.\<close>

definition sizeof_OMClientRequest :: nat where "sizeof_OMClientRequest = 38"
definition sizeof_OMClientResponse :: nat where "sizeof_OMClientResponse = 50"
definition sizeof_MDPMarketUpdate :: nat where "sizeof_MDPMarketUpdate = 42"

lemmas enc_defs = enc_MEClientRequest_def enc_MEClientResponse_def enc_MEMarketUpdate_def
  enc_OMClientRequest_def enc_OMClientResponse_def enc_MDPMarketUpdate_def
lemmas dec_defs = dec_MEClientRequest_def dec_MEClientResponse_def dec_MEMarketUpdate_def
  dec_OMClientRequest_def dec_OMClientResponse_def dec_MDPMarketUpdate_def

lemma word_roundtrips [simp]:
  "bytes_word (word_bytes 4 (a :: 32 word)) = a" "bytes_word (word_bytes 8 (b :: 64 word)) = b"
  by (simp_all add: word_roundtrip)

interpretation request_codec: codec enc_OMClientRequest dec_OMClientRequest sizeof_OMClientRequest
  "\<lambda>r. price_ok (rq_price (orq_me_client_request r))"
  by unfold_locales (simp_all add: enc_defs dec_defs member_def sizeof_OMClientRequest_def nth_append price_roundtrip)

interpretation response_codec: codec enc_OMClientResponse dec_OMClientResponse sizeof_OMClientResponse
  "\<lambda>r. price_ok (cr_price (ocr_me_client_response r))"
  by unfold_locales (simp_all add: enc_defs dec_defs member_def sizeof_OMClientResponse_def nth_append price_roundtrip)

interpretation update_codec: codec enc_MDPMarketUpdate dec_MDPMarketUpdate sizeof_MDPMarketUpdate
  "\<lambda>u. price_ok (mu_price (mdp_me_market_update u))"
  by unfold_locales (simp_all add: enc_defs dec_defs member_def sizeof_MDPMarketUpdate_def nth_append price_roundtrip)

section \<open>Properties\<close>

text \<open>C38: The order stream. The bytes of a sequence of client requests, arriving in any pieces, are
  read back as exactly these requests by a receiver that appends each piece to its buffer, takes
  the complete structs from the front and keeps the rest.\<close>

theorem request_stream:
  assumes "\<forall>r\<in>set rs. price_ok (rq_price (orq_me_client_request r))"
    and "concat pieces = concat (map enc_OMClientRequest rs)"
  shows "foldl (\<lambda>(got, buf) piece.
      (got @ fst (frames sizeof_OMClientRequest dec_OMClientRequest (buf @ piece)),
       snd (frames sizeof_OMClientRequest dec_OMClientRequest (buf @ piece)))) ([], []) pieces = (rs, [])"
  using assms by (rule request_codec.pieces)

theorem request_stream_witness:
  "let r = \<lparr>orq_seq_num = 1, orq_me_client_request = \<lparr>rq_type = Request_NEW, rq_client_id = 3,
        rq_ticker_id = 1, rq_order_id = 7, rq_side = SELL, rq_price = - 5, rq_qty = 10\<rparr>\<rparr>;
       bs = enc_OMClientRequest r
   in foldl (\<lambda>(got, buf) piece.
      (got @ fst (frames sizeof_OMClientRequest dec_OMClientRequest (buf @ piece)),
       snd (frames sizeof_OMClientRequest dec_OMClientRequest (buf @ piece))))
      ([], []) [take 11 bs, drop 11 bs] = ([r], [])"
  unfolding Let_def by (rule request_stream) (simp_all add: price_ok_def)

text \<open>A market update on the wire. Writing a market update with its sequence number and reading
  the bytes gives it back, for every price that fits 64 bits; the struct has 42 bytes.\<close>

theorem update_roundtrip:
  assumes "price_ok (mu_price (mdp_me_market_update u))"
  shows "dec_MDPMarketUpdate (enc_MDPMarketUpdate u) = u \<and> length (enc_MDPMarketUpdate u) = 42"
  using update_codec.dec_enc [OF assms] update_codec.enc_size [of u]
  by (simp add: sizeof_MDPMarketUpdate_def)

theorem update_roundtrip_witness:
  "dec_MDPMarketUpdate (enc_MDPMarketUpdate \<lparr>mdp_seq_num = 7, mdp_me_market_update = MEMarketUpdate_default\<rparr>) =
     \<lparr>mdp_seq_num = 7, mdp_me_market_update = MEMarketUpdate_default\<rparr>"
  using update_roundtrip [of "\<lparr>mdp_seq_num = 7, mdp_me_market_update = MEMarketUpdate_default\<rparr>"]
  by (simp add: MEMarketUpdate_default_def Price_INVALID_def price_ok_def)

end
