(* ===== verification/Sockets.thy ===== *)
theory Sockets
  imports Wire
begin

text \<open>
  The sockets of \<^verbatim>\<open>src/common/tcp_socket.h\<close>, \<^verbatim>\<open>tcp_socket.cpp\<close>,
  \<^verbatim>\<open>mcast_socket.h\<close> and \<^verbatim>\<open>mcast_socket.cpp\<close>: two buffers and their valid lengths. A
  buffer is the list of its valid bytes. What the kernel returns (the bytes of a read with their
  time stamp, and how many bytes a send took) is an argument of the operations, and the callback
  that the owner installs is a function on the owner's state.
\<close>

section \<open>TCP\<close>

definition TCPBufferSize :: nat where "TCPBufferSize = 64 * 1024 * 1024"

record TCPSocket =
  tcp_outbound :: "byte list"
  tcp_inbound :: "byte list"

definition TCPSocket_new :: TCPSocket where
  "TCPSocket_new = \<lparr>tcp_outbound = [], tcp_inbound = []\<rparr>"

text \<open>
  \<^verbatim>\<open>send\<close> copies to the buffer without a test of its size: beyond it the model stops.
\<close>

definition tcp_send :: "TCPSocket \<Rightarrow> byte list \<Rightarrow> TCPSocket result" where
  "tcp_send sock data =
     (if length (tcp_outbound sock) + length data \<le> TCPBufferSize
      then Inr (sock\<lparr>tcp_outbound := tcp_outbound sock @ data\<rparr>) else Inl Bad_index)"

text \<open>
  \<^verbatim>\<open>sendAndRecv\<close>: a read appends what fits to the inbound buffer and calls back; then the
  outbound buffer is handed to the kernel, which takes some of it, and is emptied. The result is
  the socket, the state of the owner, whether something was read and the bytes that left.
\<close>

definition tcp_sendAndRecv ::
    "(TCPSocket \<Rightarrow> Nanos \<Rightarrow> 's \<Rightarrow> (TCPSocket \<times> 's) result) \<Rightarrow> (byte list \<times> Nanos) option \<Rightarrow> nat \<Rightarrow>
     TCPSocket \<Rightarrow> 's \<Rightarrow> (TCPSocket \<times> 's \<times> bool \<times> byte list) result" where
  "tcp_sendAndRecv recv_callback read taken sock st =
     andThen (case read of
         None \<Rightarrow> Inr (sock, st, False)
       | Some (data, kernel_time) \<Rightarrow>
           let got = take (TCPBufferSize - length (tcp_inbound sock)) data in
           if got = [] then Inr (sock, st, False)
           else
             andThen (recv_callback (sock\<lparr>tcp_inbound := tcp_inbound sock @ got\<rparr>) kernel_time st)
               (\<lambda>(sock1, st1). Inr (sock1, st1, True)))
       (\<lambda>(sock1, st1, recv).
     Inr (sock1\<lparr>tcp_outbound := []\<rparr>, st1, recv, take taken (tcp_outbound sock1)))"

section \<open>Multicast\<close>

definition McastBufferSize :: nat where "McastBufferSize = 64 * 1024 * 1024"

record McastSocket =
  mc_outbound :: "byte list"
  mc_inbound :: "byte list"

definition McastSocket_new :: McastSocket where
  "McastSocket_new = \<lparr>mc_outbound = [], mc_inbound = []\<rparr>"

text \<open>\<^verbatim>\<open>send\<close> copies first and asserts afterwards that the buffer is not full.\<close>

definition mc_send :: "McastSocket \<Rightarrow> byte list \<Rightarrow> McastSocket result" where
  "mc_send sock data =
     (if length (mc_outbound sock) + length data \<le> McastBufferSize
      then
        andThen (ASSERT (length (mc_outbound sock) + length data < McastBufferSize)
                   ''Mcast socket buffer filled up and sendAndRecv() not called.'') (\<lambda>_.
        Inr (sock\<lparr>mc_outbound := mc_outbound sock @ data\<rparr>))
      else Inl Bad_index)"

definition mc_sendAndRecv ::
    "(McastSocket \<Rightarrow> 's \<Rightarrow> (McastSocket \<times> 's) result) \<Rightarrow> byte list \<Rightarrow> nat \<Rightarrow>
     McastSocket \<Rightarrow> 's \<Rightarrow> (McastSocket \<times> 's \<times> bool \<times> byte list) result" where
  "mc_sendAndRecv recv_callback data taken sock st =
     (let got = take (McastBufferSize - length (mc_inbound sock)) data in
      andThen (if got = [] then Inr (sock, st)
               else recv_callback (sock\<lparr>mc_inbound := mc_inbound sock @ got\<rparr>) st) (\<lambda>(sock1, st1).
      Inr (sock1\<lparr>mc_outbound := []\<rparr>, st1, got \<noteq> [], take taken (mc_outbound sock1))))"

text \<open>A socket that nobody reads from has no callback.\<close>

definition mc_no_callback :: "McastSocket \<Rightarrow> 's \<Rightarrow> (McastSocket \<times> 's) result" where
  "mc_no_callback sock st = Inl Null_deref"

section \<open>Lemmas\<close>

lemma tcp_send_ok:
  "length (tcp_outbound sock) + length data \<le> TCPBufferSize \<Longrightarrow>
     tcp_send sock data = Inr (sock\<lparr>tcp_outbound := tcp_outbound sock @ data\<rparr>)"
  by (simp add: tcp_send_def)

lemma mc_send_ok:
  "length (mc_outbound sock) + length data < McastBufferSize \<Longrightarrow>
     mc_send sock data = Inr (sock\<lparr>mc_outbound := mc_outbound sock @ data\<rparr>)"
  by (simp add: mc_send_def)

lemma mc_publish:
  "mc_sendAndRecv cb [] taken sock st =
     Inr (sock\<lparr>mc_outbound := []\<rparr>, st, False, take taken (mc_outbound sock))"
  by (simp add: mc_sendAndRecv_def)

end
