(* ===== verification/Market_Data_Publisher.thy ===== *)
theory Market_Data_Publisher
  imports Sockets
begin

text \<open>
  The market data publisher of \<^verbatim>\<open>src/exchange/market_data/market_data_publisher.h\<close> and
  \<^verbatim>\<open>market_data_publisher.cpp\<close>: it numbers the updates of the matching engine, writes them
  to the incremental stream and hands them, with their numbers, to the snapshot synthesizer.
\<close>

section \<open>The class\<close>

record MarketDataPublisher =
  next_inc_seq_num :: SeqNum
  outgoing_md_updates :: MEMarketUpdateLFQueue
  snapshot_md_updates :: MDPMarketUpdateLFQueue
  mdp_run :: bool
  incremental_socket :: McastSocket

definition MarketDataPublisher_new :: "MEMarketUpdateLFQueue \<Rightarrow> MarketDataPublisher" where
  "MarketDataPublisher_new market_updates =
     \<lparr>next_inc_seq_num = 1, outgoing_md_updates = market_updates,
      snapshot_md_updates = LFQueue_new ME_MAX_MARKET_UPDATES \<lparr>mdp_seq_num = 0, mdp_me_market_update = MEMarketUpdate_default\<rparr>,
      mdp_run = False, incremental_socket = McastSocket_new\<rparr>"

text \<open>
  The body of the loop over the updates in \<^verbatim>\<open>run\<close>. The update is read through the pointer
  once more after \<^verbatim>\<open>updateReadIndex\<close>; as long as the matching engine has not come round the
  whole queue in between, the slot still holds it.
\<close>

definition publish_update :: "MarketDataPublisher \<Rightarrow> MEMarketUpdate \<Rightarrow> MarketDataPublisher result" where
  "publish_update mdp market_update =
     andThen (mc_send (incremental_socket mdp) (word_bytes 8 (next_inc_seq_num mdp))) (\<lambda>sock1.
     andThen (mc_send sock1 (enc_MEMarketUpdate market_update)) (\<lambda>sock2.
     andThen (updateReadIndex (outgoing_md_updates mdp)) (\<lambda>q.
     Inr (mdp\<lparr>incremental_socket := sock2, outgoing_md_updates := q,
              snapshot_md_updates := q_push (snapshot_md_updates mdp)
                \<lparr>mdp_seq_num = next_inc_seq_num mdp, mdp_me_market_update = market_update\<rparr>,
              next_inc_seq_num := next_inc_seq_num mdp + 1\<rparr>))))"

fun publish_updates :: "nat \<Rightarrow> MarketDataPublisher \<Rightarrow> MarketDataPublisher result" where
  "publish_updates fuel mdp =
     (case getNextToRead (outgoing_md_updates mdp) of
        None \<Rightarrow> Inr mdp
      | Some market_update \<Rightarrow>
          if fuel = 0 then Inl Diverges
          else andThen (publish_update mdp market_update) (publish_updates (fuel - 1)))"

declare publish_updates.simps [simp del]

text \<open>One turn of \<^verbatim>\<open>run\<close>: the number of updates waiting is fuel enough for the inner loop.\<close>

definition mdp_run_step :: "nat \<Rightarrow> MarketDataPublisher \<Rightarrow> (MarketDataPublisher \<times> byte list) result" where
  "mdp_run_step taken mdp =
     andThen (publish_updates (q_length (outgoing_md_updates mdp)) mdp) (\<lambda>mdp1.
     andThen (mc_sendAndRecv mc_no_callback [] taken (incremental_socket mdp1) mdp1) (\<lambda>(sock, mdp2, _, sent).
     Inr (mdp2\<lparr>incremental_socket := sock\<rparr>, sent)))"

section \<open>Numbering\<close>

fun mdp_number :: "SeqNum \<Rightarrow> MEMarketUpdate list \<Rightarrow> MDPMarketUpdate list" where
  "mdp_number n [] = []"
| "mdp_number n (u # us) = \<lparr>mdp_seq_num = n, mdp_me_market_update = u\<rparr> # mdp_number (n + 1) us"

lemma length_mdp_number [simp]: "length (mdp_number n us) = length us"
  by (induction us arbitrary: n) auto

lemma mdp_number_append: "mdp_number n (us @ vs) = mdp_number n us @ mdp_number (n + of_nat (length us)) vs"
  by (induction us arbitrary: n) (auto simp: add.assoc)

lemma mdp_number_updates [simp]: "map mdp_me_market_update (mdp_number n us) = us"
  by (induction us arbitrary: n) auto

lemma enc_update_size [simp]: "length (enc_MDPMarketUpdate u) = 42" "length (enc_MEMarketUpdate m) = 34"
  by (simp_all add: enc_defs)

lemma publish_update_ok:
  assumes "length (mc_outbound (incremental_socket mdp)) + 42 < McastBufferSize"
    and "updateReadIndex (outgoing_md_updates mdp) = Inr q"
  shows "publish_update mdp u = Inr (mdp\<lparr>incremental_socket := (incremental_socket mdp)\<lparr>mc_outbound :=
      mc_outbound (incremental_socket mdp) @ enc_MDPMarketUpdate \<lparr>mdp_seq_num = next_inc_seq_num mdp, mdp_me_market_update = u\<rparr>\<rparr>,
    outgoing_md_updates := q, snapshot_md_updates := q_push (snapshot_md_updates mdp)
      \<lparr>mdp_seq_num = next_inc_seq_num mdp, mdp_me_market_update = u\<rparr>,
    next_inc_seq_num := next_inc_seq_num mdp + 1\<rparr>)"
  using assms by (simp add: publish_update_def mc_send_ok enc_MDPMarketUpdate_def)

lemma publish_updates_ok:
  assumes "q_inv (outgoing_md_updates mdp)" and "q_contents (outgoing_md_updates mdp) = us" and "length us \<le> fuel"
    and "length (mc_outbound (incremental_socket mdp)) + 42 * length us < McastBufferSize"
  shows "\<exists>mdp'. publish_updates fuel mdp = Inr mdp' \<and> q_inv (outgoing_md_updates mdp') \<and>
    q_contents (outgoing_md_updates mdp') = [] \<and> next_inc_seq_num mdp' = next_inc_seq_num mdp + of_nat (length us) \<and>
    snapshot_md_updates mdp' = q_pushes (snapshot_md_updates mdp) (mdp_number (next_inc_seq_num mdp) us) \<and>
    mc_outbound (incremental_socket mdp') = mc_outbound (incremental_socket mdp) @
      concat (map enc_MDPMarketUpdate (mdp_number (next_inc_seq_num mdp) us))"
  using assms
proof (induction us arbitrary: mdp fuel)
  case Nil
  then have "getNextToRead (outgoing_md_updates mdp) = None" by (simp add: getNextToRead_contents)
  then show ?case using Nil by (simp add: publish_updates.simps)
next
  case (Cons u us)
  have head: "getNextToRead (outgoing_md_updates mdp) = Some u"
    using getNextToRead_contents [OF Cons.prems(1)] Cons.prems(2) by simp
  from updateReadIndex_contents [OF Cons.prems(1,2)] obtain q where
    q: "updateReadIndex (outgoing_md_updates mdp) = Inr q" "q_inv q" "q_contents q = us" by blast
  obtain fuel' where fuel: "fuel = Suc fuel'" "length us \<le> fuel'" using Cons.prems(3) by (cases fuel) auto
  obtain mdp1 where m1: "publish_update mdp u = Inr mdp1" "outgoing_md_updates mdp1 = q"
    "next_inc_seq_num mdp1 = next_inc_seq_num mdp + 1"
    "snapshot_md_updates mdp1 = q_push (snapshot_md_updates mdp) \<lparr>mdp_seq_num = next_inc_seq_num mdp, mdp_me_market_update = u\<rparr>"
    "mc_outbound (incremental_socket mdp1) = mc_outbound (incremental_socket mdp) @
      enc_MDPMarketUpdate \<lparr>mdp_seq_num = next_inc_seq_num mdp, mdp_me_market_update = u\<rparr>"
    using publish_update_ok [OF _ q(1), of u] Cons.prems(4) by simp
  have loop: "publish_updates fuel mdp = publish_updates fuel' mdp1"
    using head m1(1) fuel by (subst publish_updates.simps) simp
  have "length (mc_outbound (incremental_socket mdp1)) + 42 * length us < McastBufferSize"
    using Cons.prems(4) m1(5) by simp
  from Cons.IH [OF _ _ fuel(2) this] m1 q loop show ?case by (simp add: q_pushes_Cons add.assoc)
qed

lemma mdp_run_step_ok:
  assumes "q_inv (outgoing_md_updates mdp)" and "q_contents (outgoing_md_updates mdp) = us"
    and "mc_outbound (incremental_socket mdp) = []" and "42 * length us < McastBufferSize"
    and "q_inv (snapshot_md_updates mdp)"
    and "length (q_contents (snapshot_md_updates mdp)) + length us \<le> q_capacity (snapshot_md_updates mdp)"
    and "42 * length us \<le> taken"
  shows "\<exists>mdp'. let ms = mdp_number (next_inc_seq_num mdp) us in
    mdp_run_step taken mdp = Inr (mdp', concat (map enc_MDPMarketUpdate ms)) \<and>
    q_contents (outgoing_md_updates mdp') = [] \<and>
    q_contents (snapshot_md_updates mdp') = q_contents (snapshot_md_updates mdp) @ ms \<and>
    next_inc_seq_num mdp' = next_inc_seq_num mdp + of_nat (length us) \<and>
    mc_outbound (incremental_socket mdp') = [] \<and> q_inv (snapshot_md_updates mdp') \<and> q_inv (outgoing_md_updates mdp')"
proof -
  let ?ms = "mdp_number (next_inc_seq_num mdp) us"
  have len: "length us = q_length (outgoing_md_updates mdp)" using assms(2) length_q_contents by metis
  obtain mdp1 where m1: "publish_updates (q_length (outgoing_md_updates mdp)) mdp = Inr mdp1"
    "q_contents (outgoing_md_updates mdp1) = []" "q_inv (outgoing_md_updates mdp1)" "next_inc_seq_num mdp1 = next_inc_seq_num mdp + of_nat (length us)"
    "snapshot_md_updates mdp1 = q_pushes (snapshot_md_updates mdp) ?ms"
    "mc_outbound (incremental_socket mdp1) = concat (map enc_MDPMarketUpdate ?ms)"
    using publish_updates_ok [OF assms(1,2), of "q_length (outgoing_md_updates mdp)"] assms(3,4) len by auto
  have "length (concat (map enc_MDPMarketUpdate ?ms)) = 42 * length us"
    by (simp add: length_concat o_def sum_list_triv)
  then have "take taken (concat (map enc_MDPMarketUpdate ?ms)) = concat (map enc_MDPMarketUpdate ?ms)"
    using assms(7) by simp
  moreover have "q_contents (snapshot_md_updates mdp1) = q_contents (snapshot_md_updates mdp) @ ?ms"
    "q_inv (snapshot_md_updates mdp1)"
    using q_pushes_contents [OF assms(5), of ?ms] assms(6) m1(5) by simp_all
  ultimately show ?thesis using m1 by (simp add: mdp_run_step_def mc_publish)
qed

section \<open>Properties\<close>

text \<open>Publishing. One turn of the publisher takes every waiting update from the queue of the
  matching engine and numbers them consecutively from the next number; the same numbered updates,
  in the same order, are what leaves on the incremental stream (when the kernel takes the whole
  buffer) and what is added to the queue of the snapshot synthesizer.\<close>

theorem publisher_numbers:
  assumes "q_inv (outgoing_md_updates mdp)" and "q_contents (outgoing_md_updates mdp) = us"
    and "mc_outbound (incremental_socket mdp) = []" and "42 * length us < McastBufferSize"
    and "q_inv (snapshot_md_updates mdp)"
    and "length (q_contents (snapshot_md_updates mdp)) + length us \<le> q_capacity (snapshot_md_updates mdp)"
    and "42 * length us \<le> taken"
  shows "\<exists>mdp'. let ms = mdp_number (next_inc_seq_num mdp) us in
    mdp_run_step taken mdp = Inr (mdp', concat (map enc_MDPMarketUpdate ms)) \<and>
    q_contents (outgoing_md_updates mdp') = [] \<and>
    q_contents (snapshot_md_updates mdp') = q_contents (snapshot_md_updates mdp) @ ms \<and>
    next_inc_seq_num mdp' = next_inc_seq_num mdp + of_nat (length us) \<and>
    mc_outbound (incremental_socket mdp') = []"
  using mdp_run_step_ok [OF assms] by (auto simp: Let_def)

definition demo_publisher :: MarketDataPublisher where
  "demo_publisher = MarketDataPublisher_new (q_push (LFQueue_new 4 MEMarketUpdate_default) (MEMarketUpdate_default\<lparr>mu_type := TRADE\<rparr>))"

theorem publisher_numbers_witness:
  "\<exists>mdp'. mdp_run_step 100 demo_publisher =
      Inr (mdp', enc_MDPMarketUpdate \<lparr>mdp_seq_num = 1, mdp_me_market_update = MEMarketUpdate_default\<lparr>mu_type := TRADE\<rparr>\<rparr>) \<and>
    next_inc_seq_num mdp' = 2"
proof -
  have q: "q_inv (outgoing_md_updates demo_publisher)"
    "q_contents (outgoing_md_updates demo_publisher) = [MEMarketUpdate_default\<lparr>mu_type := TRADE\<rparr>]"
    "q_inv (snapshot_md_updates demo_publisher)"
    using q_inv_push [OF q_inv_new [of 4]] q_contents_push [OF q_inv_new [of 4]] q_inv_new [of ME_MAX_MARKET_UPDATES]
    by (simp_all add: demo_publisher_def MarketDataPublisher_new_def ME_MAX_MARKET_UPDATES_def)
  from publisher_numbers [OF q(1,2) _ _ q(3), of 100] show ?thesis
    by (auto simp: demo_publisher_def MarketDataPublisher_new_def McastSocket_new_def McastBufferSize_def
        ME_MAX_MARKET_UPDATES_def Let_def)
qed

end
