(* ===== verification/Snapshot_Synthesizer.thy ===== *)
theory Snapshot_Synthesizer
  imports Market_Data_Publisher Mem_Pool
begin

text \<open>
  The snapshot synthesizer of \<^verbatim>\<open>src/exchange/market_data/snapshot_synthesizer.h\<close> and
  \<^verbatim>\<open>snapshot_synthesizer.cpp\<close>: it follows the numbered updates, keeps for every ticker the
  table of the live orders and publishes all of them once a minute.
\<close>

section \<open>The class\<close>

record SnapshotSynthesizer =
  ss_md_updates :: MDPMarketUpdateLFQueue
  ss_run :: bool
  snapshot_socket :: McastSocket
  ticker_orders :: "nat \<Rightarrow> nat \<Rightarrow> pointer"
  last_inc_seq_num :: SeqNum
  last_snapshot_time :: Nanos
  ss_order_pool :: "MEMarketUpdate MemPool"

definition SnapshotSynthesizer_new :: "MDPMarketUpdateLFQueue \<Rightarrow> SnapshotSynthesizer" where
  "SnapshotSynthesizer_new market_updates =
     \<lparr>ss_md_updates = market_updates, ss_run = False, snapshot_socket = McastSocket_new,
      ticker_orders = (\<lambda>_ _. None), last_inc_seq_num = 0, last_snapshot_time = 0,
      ss_order_pool = MemPool_new ME_MAX_ORDER_IDS MEMarketUpdate_default\<rparr>"

definition ss_start :: "SnapshotSynthesizer \<Rightarrow> SnapshotSynthesizer" where
  "ss_start ss = ss\<lparr>ss_run := True\<rparr>"

definition ss_stop :: "SnapshotSynthesizer \<Rightarrow> SnapshotSynthesizer" where
  "ss_stop ss = ss\<lparr>ss_run := False\<rparr>"

text \<open>
  The publisher owns the synthesizer, and starts and stops it with itself. The threads that
  \<^verbatim>\<open>start\<close> creates are the results of a \<^verbatim>\<open>new\<close>, never null, so the assertions on them hold.
\<close>

definition mdp_start ::
    "MarketDataPublisher \<times> SnapshotSynthesizer \<Rightarrow> MarketDataPublisher \<times> SnapshotSynthesizer" where
  "mdp_start = (\<lambda>(mdp, ss). (mdp\<lparr>mdp_run := True\<rparr>, ss_start ss))"

definition mdp_stop ::
    "MarketDataPublisher \<times> SnapshotSynthesizer \<Rightarrow> MarketDataPublisher \<times> SnapshotSynthesizer" where
  "mdp_stop = (\<lambda>(mdp, ss). (mdp\<lparr>mdp_run := False\<rparr>, ss_stop ss))"

text \<open>The two checks that a change of an order and its removal begin with.\<close>

definition expect_order :: "SnapshotSynthesizer \<Rightarrow> (nat \<Rightarrow> pointer) \<Rightarrow> MEMarketUpdate \<Rightarrow> nat result" where
  "expect_order ss orders u =
     andThen (array_at ME_MAX_ORDER_IDS orders (unat (mu_order_id u))) (\<lambda>order.
     andThen (ASSERT (order \<noteq> None) ''order does not exist.'') (\<lambda>_.
     andThen (not_null order) (\<lambda>p.
     andThen (ASSERT (mu_order_id (mp_obj (ss_order_pool ss) p) = mu_order_id u)
       ''Expecting existing order to match new one.'') (\<lambda>_.
     andThen (ASSERT (mu_side (mp_obj (ss_order_pool ss) p) = mu_side u)
       ''Expecting existing order to match new one.'') (\<lambda>_.
     Inr p)))))"

definition addToSnapshot :: "SnapshotSynthesizer \<Rightarrow> MDPMarketUpdate \<Rightarrow> SnapshotSynthesizer result" where
  "addToSnapshot ss market_update =
     (let u = mdp_me_market_update market_update;
          t = unat (mu_ticker_id u);
          i = unat (mu_order_id u) in
      andThen (array_at ME_MAX_TICKERS (ticker_orders ss) t) (\<lambda>orders.
      andThen
        (if mu_type u = ADD then
           andThen (array_at ME_MAX_ORDER_IDS orders i) (\<lambda>order.
           andThen (ASSERT (order = None) ''order already exists'') (\<lambda>_.
           andThen (allocate (ss_order_pool ss) u) (\<lambda>(p, pool).
           Inr (ss\<lparr>ss_order_pool := pool,
                   ticker_orders := (ticker_orders ss)(t := orders(i := Some p))\<rparr>))))
         else if mu_type u = MODIFY then
           andThen (expect_order ss orders u) (\<lambda>p.
           Inr (ss\<lparr>ss_order_pool := mp_upd (ss_order_pool ss) p (\<lambda>e. e\<lparr>mu_qty := mu_qty u, mu_price := mu_price u\<rparr>)\<rparr>))
         else if mu_type u = CANCEL then
           andThen (expect_order ss orders u) (\<lambda>p.
           andThen (deallocate (ss_order_pool ss) p) (\<lambda>pool.
           Inr (ss\<lparr>ss_order_pool := pool,
                   ticker_orders := (ticker_orders ss)(t := orders(i := None))\<rparr>)))
         else Inr ss) (\<lambda>ss1.
      andThen (ASSERT (mdp_seq_num market_update = last_inc_seq_num ss1 + 1)
        ''Expected incremental seq_nums to increase.'') (\<lambda>_.
      Inr (ss1\<lparr>last_inc_seq_num := mdp_seq_num market_update\<rparr>)))))"

section \<open>Publishing\<close>

text \<open>
  The state of a cycle: the socket, the number of the next message and what has left so far, one
  entry for each call of \<^verbatim>\<open>sendAndRecv\<close>. \<open>taken n\<close> is what the kernel takes when \<open>n\<close> messages
  are written.
\<close>

type_synonym cycle = "McastSocket \<times> SeqNum \<times> byte list list"

definition snap_message :: "MEMarketUpdate \<Rightarrow> cycle \<Rightarrow> cycle result" where
  "snap_message u = (\<lambda>(sock, snapshot_size, sent).
     andThen (mc_send sock (enc_MDPMarketUpdate \<lparr>mdp_seq_num = snapshot_size, mdp_me_market_update = u\<rparr>)) (\<lambda>sock1.
     Inr (sock1, snapshot_size + 1, sent)))"

definition snap_flush :: "(SeqNum \<Rightarrow> nat) \<Rightarrow> cycle \<Rightarrow> cycle result" where
  "snap_flush taken = (\<lambda>(sock, snapshot_size, sent).
     andThen (mc_sendAndRecv mc_no_callback [] (taken snapshot_size) sock ()) (\<lambda>(sock1, _, _, out).
     Inr (sock1, snapshot_size, sent @ [out])))"

text \<open>The loop over the orders of one ticker.\<close>

fun snap_orders :: "(SeqNum \<Rightarrow> nat) \<Rightarrow> MEMarketUpdate MemPool \<Rightarrow> pointer list \<Rightarrow> cycle \<Rightarrow> cycle result" where
  "snap_orders taken pool [] c = Inr c"
| "snap_orders taken pool (None # ps) c = snap_orders taken pool ps c"
| "snap_orders taken pool (Some p # ps) c =
     andThen (snap_message (mp_obj pool p) c) (\<lambda>c1.
     andThen (snap_flush taken c1) (snap_orders taken pool ps))"

definition clear_update :: "nat \<Rightarrow> MEMarketUpdate" where
  "clear_update t = MEMarketUpdate_default\<lparr>mu_type := CLEAR, mu_ticker_id := of_nat t\<rparr>"

fun snap_tickers :: "(SeqNum \<Rightarrow> nat) \<Rightarrow> SnapshotSynthesizer \<Rightarrow> nat list \<Rightarrow> cycle \<Rightarrow> cycle result" where
  "snap_tickers taken ss [] c = Inr c"
| "snap_tickers taken ss (t # ts) c =
     andThen (snap_message (clear_update t) c) (\<lambda>c1.
     andThen (snap_orders taken (ss_order_pool ss) (map (ticker_orders ss t) [0..<ME_MAX_ORDER_IDS]) c1)
       (snap_tickers taken ss ts))"

definition bound_update :: "MarketUpdateType \<Rightarrow> SeqNum \<Rightarrow> MEMarketUpdate" where
  "bound_update ty seq = MEMarketUpdate_default\<lparr>mu_type := ty, mu_order_id := seq\<rparr>"

definition publishSnapshot :: "(SeqNum \<Rightarrow> nat) \<Rightarrow> SnapshotSynthesizer \<Rightarrow> (SnapshotSynthesizer \<times> byte list list) result" where
  "publishSnapshot taken ss =
     andThen (snap_message (bound_update SNAPSHOT_START (last_inc_seq_num ss)) (snapshot_socket ss, 0, [])) (\<lambda>c1.
     andThen (snap_tickers taken ss [0..<ME_MAX_TICKERS] c1) (\<lambda>c2.
     andThen (snap_message (bound_update SNAPSHOT_END (last_inc_seq_num ss)) c2) (\<lambda>c3.
     andThen (snap_flush taken c3) (\<lambda>(sock, _, sent).
     Inr (ss\<lparr>snapshot_socket := sock\<rparr>, sent)))))"

fun ss_updates :: "nat \<Rightarrow> SnapshotSynthesizer \<Rightarrow> SnapshotSynthesizer result" where
  "ss_updates fuel ss =
     (case getNextToRead (ss_md_updates ss) of
        None \<Rightarrow> Inr ss
      | Some market_update \<Rightarrow>
          if fuel = 0 then Inl Diverges
          else
            andThen (addToSnapshot ss market_update) (\<lambda>ss1.
            andThen (updateReadIndex (ss_md_updates ss1)) (\<lambda>q.
            ss_updates (fuel - 1) (ss1\<lparr>ss_md_updates := q\<rparr>))))"

declare ss_updates.simps [simp del]

definition NANOS_TO_SECS :: Nanos where "NANOS_TO_SECS = 1000 * 1000 * 1000"

text \<open>One turn of \<^verbatim>\<open>run\<close>; \<open>now1\<close> and \<open>now2\<close> are the two readings of the clock.\<close>

definition ss_run_step ::
    "(SeqNum \<Rightarrow> nat) \<Rightarrow> Nanos \<Rightarrow> Nanos \<Rightarrow> SnapshotSynthesizer \<Rightarrow> (SnapshotSynthesizer \<times> byte list list) result" where
  "ss_run_step taken now1 now2 ss =
     andThen (ss_updates (q_length (ss_md_updates ss)) ss) (\<lambda>ss1.
     if now1 - last_snapshot_time ss1 > 60 * NANOS_TO_SECS
     then publishSnapshot taken (ss1\<lparr>last_snapshot_time := now2\<rparr>)
     else Inr (ss1, []))"

section \<open>The contract\<close>

text \<open>
  A view of the market: for every ticker the live orders by their market order identifier, each
  as the update that added it, with the quantity and the price brought up to date.
\<close>

type_synonym view = "nat \<Rightarrow> nat \<Rightarrow> MEMarketUpdate option"

definition view_set :: "view \<Rightarrow> MEMarketUpdate \<Rightarrow> MEMarketUpdate option \<Rightarrow> view" where
  "view_set v u e = v(unat (mu_ticker_id u) := (v (unat (mu_ticker_id u)))(unat (mu_order_id u) := e))"

definition view_get :: "view \<Rightarrow> MEMarketUpdate \<Rightarrow> MEMarketUpdate option" where
  "view_get v u = v (unat (mu_ticker_id u)) (unat (mu_order_id u))"

definition view_apply :: "view \<Rightarrow> MEMarketUpdate \<Rightarrow> view" where
  "view_apply v u =
     (case mu_type u of
        ADD \<Rightarrow> view_set v u (Some u)
      | MODIFY \<Rightarrow> view_set v u (map_option (\<lambda>e. e\<lparr>mu_qty := mu_qty u, mu_price := mu_price u\<rparr>) (view_get v u))
      | CANCEL \<Rightarrow> view_set v u None
      | CLEAR \<Rightarrow> v(unat (mu_ticker_id u) := (\<lambda>_. None))
      | _ \<Rightarrow> v)"

definition view_ok :: "view \<Rightarrow> MEMarketUpdate \<Rightarrow> bool" where
  "view_ok v u \<longleftrightarrow> unat (mu_ticker_id u) < ME_MAX_TICKERS \<and> mu_type u \<noteq> CLEAR \<and>
     (mu_type u = ADD \<longrightarrow> unat (mu_order_id u) < ME_MAX_ORDER_IDS \<and> view_get v u = None) \<and>
     (mu_type u \<in> {MODIFY, CANCEL} \<longrightarrow> unat (mu_order_id u) < ME_MAX_ORDER_IDS \<and>
        (\<exists>e. view_get v u = Some e \<and> mu_side e = mu_side u))"

fun view_oks :: "view \<Rightarrow> MEMarketUpdate list \<Rightarrow> bool" where
  "view_oks v [] = True"
| "view_oks v (u # us) = (view_ok v u \<and> view_oks (view_apply v u) us)"

definition entries :: "view \<Rightarrow> (nat \<times> nat) set" where
  "entries v = {(t, i). v t i \<noteq> None}"

text \<open>An entry of a view is the update that added it: it names its own ticker and order.\<close>

definition view_wf :: "view \<Rightarrow> bool" where
  "view_wf v \<longleftrightarrow> (\<forall>t i e. v t i = Some e \<longrightarrow> t < ME_MAX_TICKERS \<and> i < ME_MAX_ORDER_IDS \<and>
     mu_type e = ADD \<and> unat (mu_ticker_id e) = t \<and> unat (mu_order_id e) = i)"

lemma view_set_apply:
  "view_set v u e t i = (if t = unat (mu_ticker_id u) \<and> i = unat (mu_order_id u) then e else v t i)"
  by (simp add: view_set_def)

lemma view_wf_apply:
  assumes "view_wf v" and "view_ok v u"
  shows "view_wf (view_apply v u)"
  using assms unfolding view_wf_def view_ok_def view_apply_def view_get_def
  by (cases "mu_type u") (auto simp: view_set_apply)

lemma finite_entries: "view_wf v \<Longrightarrow> finite (entries v)"
  by (rule finite_subset [of _ "{..<ME_MAX_TICKERS} \<times> {..<ME_MAX_ORDER_IDS}"])
     (auto simp: entries_def view_wf_def)

lemma card_entries_apply:
  assumes "view_wf v"
  shows "card (entries (view_apply v u)) \<le> card (entries v) + 1"
proof -
  let ?k = "(unat (mu_ticker_id u), unat (mu_order_id u))"
  have "entries (view_apply v u) \<subseteq> insert ?k (entries v)"
    by (cases "mu_type u") (auto simp: entries_def view_apply_def view_set_apply split: if_splits)
  then have "card (entries (view_apply v u)) \<le> card (insert ?k (entries v))"
    using finite_entries [OF assms] by (intro card_mono) auto
  also have "\<dots> \<le> card (entries v) + 1" using finite_entries [OF assms] by (simp add: card_insert_if)
  finally show ?thesis .
qed

section \<open>The table implements the view\<close>

definition ss_view :: "SnapshotSynthesizer \<Rightarrow> view" where
  "ss_view ss t i = map_option (mp_obj (ss_order_pool ss)) (ticker_orders ss t i)"

text \<open>A table of pointers owns a set of blocks: every block has exactly one entry.\<close>

definition owns :: "('k \<Rightarrow> pointer) \<Rightarrow> nat set \<Rightarrow> bool" where
  "owns tab live \<longleftrightarrow> inj_on tab (dom tab) \<and> ran tab = live"

lemma owns_iff:
  "owns tab live \<longleftrightarrow> (\<forall>j k p. tab j = Some p \<longrightarrow> tab k = Some p \<longrightarrow> j = k) \<and> (\<forall>p. p \<in> live \<longleftrightarrow> (\<exists>k. tab k = Some p))"
  by (auto simp: owns_def inj_on_def ran_def dom_def)

lemma owns_insert:
  assumes "owns tab live" and "tab k = None" and "p \<notin> live"
  shows "owns (tab(k := Some p)) (insert p live)"
proof -
  have no: "tab j \<noteq> Some p" for j using assms(1,3) by (simp add: owns_iff)
  have "tab i = Some q \<Longrightarrow> tab j = Some q \<Longrightarrow> i = j" for i j q using assms(1) by (simp add: owns_iff)
  moreover have "q \<in> live \<longleftrightarrow> (\<exists>j. j \<noteq> k \<and> tab j = Some q)" for q
    using assms(1,2) unfolding owns_iff by (metis option.distinct(1))
  ultimately show ?thesis using no unfolding owns_iff by auto
qed

lemma owns_delete:
  assumes "owns tab live" and "tab k = Some p"
  shows "owns (tab(k := None)) (live - {p})"
proof -
  have inj: "tab i = Some q \<Longrightarrow> tab j = Some q \<Longrightarrow> i = j" for i j q using assms(1) by (simp add: owns_iff)
  moreover have "q \<in> live - {p} \<longleftrightarrow> (\<exists>j. j \<noteq> k \<and> tab j = Some q)" for q
    using assms inj [of k p] unfolding owns_iff by (auto; metis option.inject)
  ultimately show ?thesis unfolding owns_iff by auto
qed

lemma owns_card:
  assumes "owns tab live"
  shows "card live = card (dom tab)"
proof -
  have "live = (the \<circ> tab) ` dom tab" using assms unfolding owns_iff by (force simp: image_iff)
  moreover have "inj_on (the \<circ> tab) (dom tab)" using assms unfolding owns_iff inj_on_def by auto
  ultimately show ?thesis by (metis card_image)
qed

text \<open>
  The invariant: entries lie within the tables, the table owns the blocks in use, and an entry holds
  its own identifier.
\<close>

definition ss_inv :: "SnapshotSynthesizer \<Rightarrow> bool" where
  "ss_inv ss \<longleftrightarrow> mp_inv (ss_order_pool ss) \<and> mp_size (ss_order_pool ss) = ME_MAX_ORDER_IDS \<and>
     owns (case_prod (ticker_orders ss)) (mp_live (ss_order_pool ss)) \<and>
     view_wf (ss_view ss)"

lemma case_prod_upd: "case_prod (f(t := (f t)(i := x))) = (case_prod f)((t, i) := x)"
  by (auto simp: fun_eq_iff)

lemma entries_view: "entries (ss_view ss) = {(t, i). ticker_orders ss t i \<noteq> None}"
  by (simp add: entries_def ss_view_def)

lemma entries_live:
  assumes "ss_inv ss"
  shows "card (mp_live (ss_order_pool ss)) = card (entries (ss_view ss))"
proof -
  have "entries (ss_view ss) = dom (case_prod (ticker_orders ss))" by (auto simp: entries_view)
  then show ?thesis using assms owns_card by (auto simp: ss_inv_def)
qed

lemma ss_inv_new: "ss_inv (SnapshotSynthesizer_new q)"
  by (auto simp: ss_inv_def SnapshotSynthesizer_new_def ME_MAX_ORDER_IDS_def owns_def ss_view_def dom_def ran_def view_wf_def)

lemma ss_view_new: "ss_view (SnapshotSynthesizer_new q) = (\<lambda>_ _. None)"
  by (simp add: ss_view_def SnapshotSynthesizer_new_def fun_eq_iff)

text \<open>The three updates that change the table.\<close>

lemma expect_order_ok:
  assumes "ss_inv ss" and "unat (mu_order_id u) < ME_MAX_ORDER_IDS"
    and "view_get (ss_view ss) u = Some e" and "mu_side e = mu_side u"
  shows "\<exists>p. ticker_orders ss (unat (mu_ticker_id u)) (unat (mu_order_id u)) = Some p \<and>
    e = mp_obj (ss_order_pool ss) p \<and> p \<in> mp_live (ss_order_pool ss) \<and>
    expect_order ss (ticker_orders ss (unat (mu_ticker_id u))) u = Inr p"
proof -
  from assms(3) obtain p where p: "ticker_orders ss (unat (mu_ticker_id u)) (unat (mu_order_id u)) = Some p"
    "e = mp_obj (ss_order_pool ss) p" by (auto simp: view_get_def ss_view_def)
  have "case_prod (ticker_orders ss) (unat (mu_ticker_id u), unat (mu_order_id u)) = Some p" using p by simp
  then have "p \<in> mp_live (ss_order_pool ss)" using assms(1) unfolding ss_inv_def owns_def by (metis ranI)
  moreover have "unat (mu_order_id e) = unat (mu_order_id u)"
    using assms(1,3) unfolding ss_inv_def view_wf_def view_get_def by blast
  ultimately show ?thesis using p assms(2,4) by (simp add: expect_order_def word_unat_eq_iff)
qed

lemma ss_live:
  assumes "ss_inv ss" and "ticker_orders ss t i = Some p"
  shows "p \<in> mp_live (ss_order_pool ss)"
    and "ticker_orders ss t' i' = Some p \<Longrightarrow> t' = t \<and> i' = i"
proof -
  have o: "owns (case_prod (ticker_orders ss)) (mp_live (ss_order_pool ss))" using assms(1) by (simp add: ss_inv_def)
  have e: "case_prod (ticker_orders ss) (t, i) = Some p" using assms(2) by simp
  then show "p \<in> mp_live (ss_order_pool ss)" using o unfolding owns_def by (metis ranI)
  show "t' = t \<and> i' = i" if "ticker_orders ss t' i' = Some p"
  proof -
    have "case_prod (ticker_orders ss) (t', i') = Some p" using that by simp
    then have "(t', i') = (t, i)" using o e unfolding owns_def by (metis domI inj_onD)
    then show ?thesis by simp
  qed
qed

lemma ss_add_ok:
  assumes inv: "ss_inv ss" and ty: "mu_type u = ADD" and t: "unat (mu_ticker_id u) < ME_MAX_TICKERS" and i: "unat (mu_order_id u) < ME_MAX_ORDER_IDS"
    and free: "view_get (ss_view ss) u = None" and al: "allocate (ss_order_pool ss) u = Inr (p, pool)"
    and ss': "ss' = ss\<lparr>ss_order_pool := pool, ticker_orders := (ticker_orders ss)
      (unat (mu_ticker_id u) := (ticker_orders ss (unat (mu_ticker_id u)))(unat (mu_order_id u) := Some p))\<rparr>"
  shows "ss_inv ss' \<and> ss_view ss' = view_set (ss_view ss) u (Some u)"
proof -
  note i' = inv [unfolded ss_inv_def]
  have a: "mp_inv pool" "p \<notin> mp_live (ss_order_pool ss)" "mp_live pool = insert p (mp_live (ss_order_pool ss))"
    "mp_obj pool = (mp_obj (ss_order_pool ss))(p := u)" "mp_size pool = mp_size (ss_order_pool ss)"
    using pool.alloc_Inr [OF _ al] allocate_size [OF al] i' by auto
  have far: "q \<noteq> p" if "ticker_orders ss t i = Some q" for t i q using ss_live(1) [OF inv that] a(2) by blast
  have v: "ss_view ss' = view_set (ss_view ss) u (Some u)"
  proof (intro ext)
    show "ss_view ss' t i = view_set (ss_view ss) u (Some u) t i" for t i
      using a(4) far [of t i] by (cases "ticker_orders ss t i") (auto simp: ss' ss_view_def view_set_apply)
  qed
  have "owns (case_prod (ticker_orders ss')) (mp_live (ss_order_pool ss'))"
    using owns_insert [of "case_prod (ticker_orders ss)" _ "(unat (mu_ticker_id u), unat (mu_order_id u))" p] i' a(2,3) free
    by (simp add: ss' case_prod_upd view_get_def ss_view_def)
  moreover have "view_wf (ss_view ss')"
    unfolding v using i' t i ty by (auto simp: view_wf_def view_set_apply)
  ultimately show ?thesis using i' a v unfolding ss_inv_def by (simp add: ss')
qed

lemma ss_modify_ok:
  assumes inv: "ss_inv ss" and p: "ticker_orders ss (unat (mu_ticker_id u)) (unat (mu_order_id u)) = Some p"
    and ss': "ss' = ss\<lparr>ss_order_pool := mp_upd (ss_order_pool ss) p (\<lambda>e. e\<lparr>mu_qty := k, mu_price := pr\<rparr>)\<rparr>"
  shows "ss_inv ss' \<and> ss_view ss' = view_set (ss_view ss) u
    (map_option (\<lambda>e. e\<lparr>mu_qty := k, mu_price := pr\<rparr>) (view_get (ss_view ss) u))"
proof -
  note i' = inv [unfolded ss_inv_def]
  have v: "ss_view ss' = view_set (ss_view ss) u
      (map_option (\<lambda>e. e\<lparr>mu_qty := k, mu_price := pr\<rparr>) (view_get (ss_view ss) u))"
  proof (intro ext)
    show "ss_view ss' t i = view_set (ss_view ss) u
        (map_option (\<lambda>e. e\<lparr>mu_qty := k, mu_price := pr\<rparr>) (view_get (ss_view ss) u)) t i" for t i
      using p ss_live(2) [OF inv p, of t i]
      by (cases "ticker_orders ss t i") (auto simp: ss' ss_view_def view_set_apply view_get_def)
  qed
  have "view_wf (ss_view ss')"
    unfolding v using i' by (auto simp: view_wf_def view_set_apply view_get_def)
  then show ?thesis using i' v unfolding ss_inv_def by (simp add: ss')
qed

lemma ss_cancel_ok:
  assumes inv: "ss_inv ss" and p: "ticker_orders ss (unat (mu_ticker_id u)) (unat (mu_order_id u)) = Some p"
    and de: "deallocate (ss_order_pool ss) p = Inr pool"
    and ss': "ss' = ss\<lparr>ss_order_pool := pool, ticker_orders := (ticker_orders ss)
      (unat (mu_ticker_id u) := (ticker_orders ss (unat (mu_ticker_id u)))(unat (mu_order_id u) := None))\<rparr>"
  shows "ss_inv ss' \<and> ss_view ss' = view_set (ss_view ss) u None"
proof -
  note i' = inv [unfolded ss_inv_def]
  have d: "mp_inv pool" "mp_live pool = mp_live (ss_order_pool ss) - {p}" "mp_obj pool = mp_obj (ss_order_pool ss)"
    "mp_size pool = mp_size (ss_order_pool ss)"
    using pool.dealloc_ok [OF i' [THEN conjunct1] ss_live(1) [OF inv p]] de deallocate_size [OF de] by auto
  have v: "ss_view ss' = view_set (ss_view ss) u None"
    by (intro ext) (simp add: d(3) ss' ss_view_def view_set_apply)
  have "owns (case_prod (ticker_orders ss')) (mp_live (ss_order_pool ss'))"
    using owns_delete [OF i' [THEN conjunct2, THEN conjunct2, THEN conjunct1], of "(unat (mu_ticker_id u), unat (mu_order_id u))" p]
      p by (simp add: ss' case_prod_upd d(2))
  moreover have "view_wf (ss_view ss')"
    unfolding v using i' by (auto simp: view_wf_def view_set_apply)
  moreover have "mp_inv (ss_order_pool ss') \<and> mp_size (ss_order_pool ss') = ME_MAX_ORDER_IDS"
    using i' d(1,4) by (simp add: ss')
  ultimately show ?thesis using v unfolding ss_inv_def by blast
qed

lemma ss_view_frame [simp]:
  "ss_view (ss\<lparr>last_inc_seq_num := n\<rparr>) = ss_view ss" "ss_view (ss\<lparr>ss_md_updates := q\<rparr>) = ss_view ss"
  "ss_view (ss\<lparr>last_snapshot_time := z\<rparr>) = ss_view ss"
  by (simp_all add: ss_view_def fun_eq_iff)

lemma ss_inv_frame [simp]:
  "ss_inv (ss\<lparr>last_inc_seq_num := n\<rparr>) = ss_inv ss" "ss_inv (ss\<lparr>ss_md_updates := q\<rparr>) = ss_inv ss"
  "ss_inv (ss\<lparr>last_snapshot_time := z\<rparr>) = ss_inv ss"
  by (simp_all add: ss_inv_def)

lemma addToSnapshot_refines:
  assumes inv: "ss_inv ss" and ok: "view_ok (ss_view ss) u" and n: "n = last_inc_seq_num ss + 1"
    and room: "card (entries (ss_view ss)) + 1 < ME_MAX_ORDER_IDS"
  shows "\<exists>ss'. addToSnapshot ss \<lparr>mdp_seq_num = n, mdp_me_market_update = u\<rparr> = Inr ss' \<and> ss_inv ss' \<and>
    ss_view ss' = view_apply (ss_view ss) u \<and> last_inc_seq_num ss' = n \<and> ss_md_updates ss' = ss_md_updates ss \<and>
    snapshot_socket ss' = snapshot_socket ss \<and> last_snapshot_time ss' = last_snapshot_time ss"
proof -
  have t: "unat (mu_ticker_id u) < ME_MAX_TICKERS" using ok by (simp add: view_ok_def)
  consider (add) "mu_type u = ADD" | (mod) "mu_type u = MODIFY" | (can) "mu_type u = CANCEL"
    | (other) "mu_type u \<notin> {ADD, MODIFY, CANCEL, CLEAR}" using ok by (auto simp: view_ok_def)
  then show ?thesis
  proof cases
    case add
    have a: "unat (mu_order_id u) < ME_MAX_ORDER_IDS" "view_get (ss_view ss) u = None"
      using ok add by (simp_all add: view_ok_def)
    have "mp_room (ss_order_pool ss)"
      using room inv entries_live [OF inv] by (simp add: mp_room_def ss_inv_def)
    then obtain p pool where al: "allocate (ss_order_pool ss) u = Inr (p, pool)"
      using pool.alloc_ok [of "ss_order_pool ss" u] inv by (auto simp: ss_inv_def)
    have "ticker_orders ss (unat (mu_ticker_id u)) (unat (mu_order_id u)) = None"
      using a(2) by (simp add: view_get_def ss_view_def)
    then show ?thesis using ss_add_ok [OF inv add t a al refl] t a(1) al n add
      by (simp add: addToSnapshot_def view_apply_def Let_def)
  next
    case mod
    then have m: "unat (mu_order_id u) < ME_MAX_ORDER_IDS"
      and "\<exists>e. view_get (ss_view ss) u = Some e \<and> mu_side e = mu_side u" using ok by (simp_all add: view_ok_def)
    then obtain p where "ticker_orders ss (unat (mu_ticker_id u)) (unat (mu_order_id u)) = Some p"
      "expect_order ss (ticker_orders ss (unat (mu_ticker_id u))) u = Inr p"
      using expect_order_ok [OF inv] by blast
    then show ?thesis using ss_modify_ok [OF inv _ refl, of u p "mu_price u" "mu_qty u"] t n mod
      by (simp add: addToSnapshot_def view_apply_def Let_def)
  next
    case can
    then have m: "unat (mu_order_id u) < ME_MAX_ORDER_IDS"
      and "\<exists>e. view_get (ss_view ss) u = Some e \<and> mu_side e = mu_side u" using ok by (simp_all add: view_ok_def)
    then obtain p where p: "ticker_orders ss (unat (mu_ticker_id u)) (unat (mu_order_id u)) = Some p"
      "expect_order ss (ticker_orders ss (unat (mu_ticker_id u))) u = Inr p" "p \<in> mp_live (ss_order_pool ss)"
      using expect_order_ok [OF inv] by blast
    then obtain pool where "deallocate (ss_order_pool ss) p = Inr pool"
      using pool.dealloc_ok [of "ss_order_pool ss" p] inv by (auto simp: ss_inv_def)
    then show ?thesis using ss_cancel_ok [OF inv p(1) _ refl] p t n can
      by (simp add: addToSnapshot_def view_apply_def Let_def)
  next
    case other
    then have "view_apply (ss_view ss) u = ss_view ss" by (auto simp: view_apply_def split: MarketUpdateType.splits)
    then show ?thesis using other t n inv by (simp add: addToSnapshot_def)
  qed
qed

text \<open>Following a queue of consecutively numbered updates.\<close>

lemma ss_updates_ok:
  assumes "ss_inv ss" and "q_inv (ss_md_updates ss)"
    and "q_contents (ss_md_updates ss) = mdp_number (last_inc_seq_num ss + 1) us" and "length us \<le> fuel"
    and "view_oks (ss_view ss) us" and "card (entries (ss_view ss)) + length us < ME_MAX_ORDER_IDS"
  shows "\<exists>ss'. ss_updates fuel ss = Inr ss' \<and> ss_inv ss' \<and> ss_view ss' = foldl view_apply (ss_view ss) us \<and>
    last_inc_seq_num ss' = last_inc_seq_num ss + of_nat (length us) \<and> q_inv (ss_md_updates ss') \<and>
    q_contents (ss_md_updates ss') = [] \<and> snapshot_socket ss' = snapshot_socket ss \<and> last_snapshot_time ss' = last_snapshot_time ss"
  using assms
proof (induction us arbitrary: ss fuel)
  case Nil
  then have "getNextToRead (ss_md_updates ss) = None" by (simp add: getNextToRead_contents)
  then show ?case using Nil by (simp add: ss_updates.simps)
next
  case (Cons u us)
  let ?m = "\<lparr>mdp_seq_num = last_inc_seq_num ss + 1, mdp_me_market_update = u\<rparr>"
  have c: "q_contents (ss_md_updates ss) = ?m # mdp_number (last_inc_seq_num ss + 1 + 1) us"
    using Cons.prems(3) by simp
  have head: "getNextToRead (ss_md_updates ss) = Some ?m"
    using getNextToRead_contents [OF Cons.prems(2)] c by simp
  from updateReadIndex_contents [OF Cons.prems(2) c] obtain q where
    q: "updateReadIndex (ss_md_updates ss) = Inr q" "q_inv q" "q_contents q = mdp_number (last_inc_seq_num ss + 1 + 1) us" by blast
  from addToSnapshot_refines [OF Cons.prems(1) _ refl, of u] Cons.prems(5,6) obtain ss1 where
    s1: "addToSnapshot ss ?m = Inr ss1" "ss_inv ss1" "ss_view ss1 = view_apply (ss_view ss) u"
    "last_inc_seq_num ss1 = last_inc_seq_num ss + 1" "ss_md_updates ss1 = ss_md_updates ss"
    "snapshot_socket ss1 = snapshot_socket ss" "last_snapshot_time ss1 = last_snapshot_time ss" by auto
  obtain fuel' where fuel: "fuel = Suc fuel'" "length us \<le> fuel'" using Cons.prems(4) by (cases fuel) auto
  let ?ss2 = "ss1\<lparr>ss_md_updates := q\<rparr>"
  have loop: "ss_updates fuel ss = ss_updates fuel' ?ss2"
    using head s1(1,5) q(1) fuel by (subst ss_updates.simps) simp
  have "card (entries (ss_view ss1)) \<le> card (entries (ss_view ss)) + 1"
    unfolding s1(3) using Cons.prems(1) by (intro card_entries_apply) (simp add: ss_inv_def)
  then have "card (entries (ss_view ?ss2)) + length us < ME_MAX_ORDER_IDS" using Cons.prems(6) by simp
  with Cons.IH [of ?ss2 fuel'] s1 q fuel Cons.prems(5) loop show ?case by (simp add: add.assoc)
qed

section \<open>The published cycle\<close>

definition live_orders :: "view \<Rightarrow> nat \<Rightarrow> MEMarketUpdate list" where
  "live_orders v t = List.map_filter (v t) [0..<ME_MAX_ORDER_IDS]"

definition snapshot_body :: "view \<Rightarrow> nat list \<Rightarrow> MEMarketUpdate list" where
  "snapshot_body v ts = concat (map (\<lambda>t. clear_update t # live_orders v t) ts)"

definition snapshot_messages :: "view \<Rightarrow> SeqNum \<Rightarrow> MEMarketUpdate list" where
  "snapshot_messages v n =
     bound_update SNAPSHOT_START n # snapshot_body v [0..<ME_MAX_TICKERS] @ [bound_update SNAPSHOT_END n]"

text \<open>What a cycle has written: what has left and what waits in the buffer.\<close>

definition written :: "cycle \<Rightarrow> byte list" where
  "written = (\<lambda>(sock, n, sent). concat sent @ mc_outbound sock)"

definition buffered :: "cycle \<Rightarrow> nat" where
  "buffered = (\<lambda>(sock, n, sent). length (mc_outbound sock))"

definition step_of :: "MEMarketUpdate list \<Rightarrow> nat \<Rightarrow> cycle \<Rightarrow> cycle \<Rightarrow> bool" where
  "step_of us k c c' \<longleftrightarrow> written c' = written c @ concat (map enc_MDPMarketUpdate (mdp_number (fst (snd c)) us)) \<and>
     fst (snd c') = fst (snd c) + of_nat (length us) \<and> buffered c' \<le> buffered c + k \<and>
     mc_inbound (fst c') = mc_inbound (fst c)"

lemma step_of_trans: "step_of us k c c1 \<Longrightarrow> step_of vs l c1 c2 \<Longrightarrow> step_of (us @ vs) (k + l) c c2"
  by (auto simp: step_of_def mdp_number_append add.assoc)

lemma snap_message_ok:
  assumes "buffered c + 42 < McastBufferSize"
  shows "\<exists>c'. snap_message u c = Inr c' \<and> step_of [u] 42 c c'"
  using assms by (cases c) (simp add: snap_message_def buffered_def mc_send_ok step_of_def written_def)

lemma snap_flush_ok:
  assumes "buffered c \<le> taken (fst (snd c))"
  shows "\<exists>c'. snap_flush taken c = Inr c' \<and> step_of [] 0 c c' \<and> buffered c' = 0"
  using assms by (cases c) (simp add: snap_flush_def buffered_def mc_publish step_of_def written_def)

lemma snap_orders_ok:
  assumes "\<forall>n. 420 \<le> taken n" and "buffered c + 42 \<le> 420"
  shows "\<exists>c'. snap_orders taken pool ps c = Inr c' \<and> step_of (List.map_filter (map_option (mp_obj pool)) ps) 0 c c'"
  using assms(2)
proof (induction ps arbitrary: c)
  case Nil
  then show ?case by (simp add: step_of_def)
next
  case (Cons p ps)
  show ?case
  proof (cases p)
    case None
    then show ?thesis using Cons by (simp add: map_filter_simps)
  next
    case (Some a)
    from snap_message_ok [of c "mp_obj pool a"] Cons.prems obtain c1 where
      c1: "snap_message (mp_obj pool a) c = Inr c1" "step_of [mp_obj pool a] 42 c c1"
      by (auto simp: McastBufferSize_def)
    then have "buffered c1 \<le> 420" using Cons.prems by (auto simp: step_of_def)
    then obtain c2 where c2: "snap_flush taken c1 = Inr c2" "step_of [] 0 c1 c2" "buffered c2 = 0"
      using snap_flush_ok [of c1 taken] assms(1) order_trans by blast
    from Cons.IH [of c2] c2(3) obtain c3 where
      c3: "snap_orders taken pool ps c2 = Inr c3" "step_of (List.map_filter (map_option (mp_obj pool)) ps) 0 c2 c3" by auto
    have "buffered c3 = 0" using c3(2) c2(3) by (simp add: step_of_def)
    then have "step_of (mp_obj pool a # List.map_filter (map_option (mp_obj pool)) ps) 0 c c3"
      using step_of_trans [OF step_of_trans [OF c1(2) c2(2)] c3(2)] by (simp add: step_of_def)
    then show ?thesis using Some c1(1) c2(1) c3(1) by (simp add: map_filter_simps)
  qed
qed

lemma live_orders_table:
  "List.map_filter (map_option (mp_obj (ss_order_pool ss))) (map (ticker_orders ss t) [0..<ME_MAX_ORDER_IDS]) =
     live_orders (ss_view ss) t"
  by (simp add: live_orders_def ss_view_def List.map_filter_def comp_def filter_map o_def)

lemma snap_tickers_ok:
  assumes "\<forall>n. 420 \<le> taken n" and "buffered c + 42 * (length ts + 1) \<le> 420"
  shows "\<exists>c'. snap_tickers taken ss ts c = Inr c' \<and> step_of (snapshot_body (ss_view ss) ts) (42 * length ts) c c'"
  using assms(2)
proof (induction ts arbitrary: c)
  case Nil
  then show ?case by (simp add: step_of_def snapshot_body_def)
next
  case (Cons t ts)
  from snap_message_ok [of c "clear_update t"] Cons.prems obtain c1 where
    c1: "snap_message (clear_update t) c = Inr c1" "step_of [clear_update t] 42 c c1" by (auto simp: McastBufferSize_def)
  have "buffered c1 + 42 * (length ts + 1) \<le> 420" using c1(2) Cons.prems by (simp add: step_of_def)
  moreover from snap_orders_ok [OF assms(1), of c1 "ss_order_pool ss" "map (ticker_orders ss t) [0..<ME_MAX_ORDER_IDS]"] this
  obtain c2 where c2: "snap_orders taken (ss_order_pool ss) (map (ticker_orders ss t) [0..<ME_MAX_ORDER_IDS]) c1 = Inr c2"
    "step_of (live_orders (ss_view ss) t) 0 c1 c2" unfolding live_orders_table by auto
  ultimately have "buffered c2 + 42 * (length ts + 1) \<le> 420" by (simp add: step_of_def)
  from Cons.IH [OF this] obtain c3 where
    c3: "snap_tickers taken ss ts c2 = Inr c3" "step_of (snapshot_body (ss_view ss) ts) (42 * length ts) c2 c3" by blast
  have "step_of (snapshot_body (ss_view ss) (t # ts)) (42 * length (t # ts)) c c3"
    using step_of_trans [OF step_of_trans [OF c1(2) c2(2)] c3(2)] by (simp add: snapshot_body_def)
  then show ?case using c1(1) c2(1) c3(1) by simp
qed

lemma publishSnapshot_ok:
  assumes "mc_outbound (snapshot_socket ss) = []" and "\<forall>n. 420 \<le> taken n"
  shows "\<exists>sent. publishSnapshot taken ss = Inr (ss, sent) \<and>
    concat sent = concat (map enc_MDPMarketUpdate (mdp_number 0 (snapshot_messages (ss_view ss) (last_inc_seq_num ss))))"
proof -
  let ?n = "last_inc_seq_num ss" and ?c = "(snapshot_socket ss, 0, []) :: cycle"
  have b: "buffered ?c = 0" using assms(1) by (simp add: buffered_def)
  from snap_message_ok [of ?c "bound_update SNAPSHOT_START ?n"] b obtain c1 where
    c1: "snap_message (bound_update SNAPSHOT_START ?n) ?c = Inr c1" "step_of [bound_update SNAPSHOT_START ?n] 42 ?c c1"
    by (auto simp: McastBufferSize_def)
  have b1: "buffered c1 \<le> 42" using c1(2) b by (simp add: step_of_def)
  then obtain c2 where c2: "snap_tickers taken ss [0..<ME_MAX_TICKERS] c1 = Inr c2"
    "step_of (snapshot_body (ss_view ss) [0..<ME_MAX_TICKERS]) 336 c1 c2"
    using snap_tickers_ok [OF assms(2), of c1 "[0..<ME_MAX_TICKERS]" ss] by (auto simp: ME_MAX_TICKERS_def)
  have b2: "buffered c2 \<le> 378" using c2(2) b1 by (simp add: step_of_def)
  then obtain c3 where c3: "snap_message (bound_update SNAPSHOT_END ?n) c2 = Inr c3" "step_of [bound_update SNAPSHOT_END ?n] 42 c2 c3"
    using snap_message_ok [of c2 "bound_update SNAPSHOT_END ?n"] by (auto simp: McastBufferSize_def)
  then have "buffered c3 \<le> 420" using b2 by (simp add: step_of_def)
  then obtain c4 where c4: "snap_flush taken c3 = Inr c4" "step_of [] 0 c3 c4" "buffered c4 = 0"
    using snap_flush_ok [of c3 taken] assms(2) order_trans by blast
  obtain sock n sent where c4': "c4 = (sock, n, sent)" by (cases c4)
  have "step_of (snapshot_messages (ss_view ss) ?n) (42 + 336 + 42 + 0) ?c c4"
    using step_of_trans [OF step_of_trans [OF step_of_trans [OF c1(2) c2(2)] c3(2)] c4(2)]
    by (simp add: snapshot_messages_def)
  then have "concat sent = concat (map enc_MDPMarketUpdate (mdp_number 0 (snapshot_messages (ss_view ss) ?n)))"
    "sock = snapshot_socket ss"
    using c4(3) assms(1) by (simp_all add: step_of_def written_def buffered_def c4')
  then show ?thesis using c1(1) c2(1) c3(1) c4(1) c4' by (simp add: publishSnapshot_def)
qed

section \<open>Rebuilding the view from a cycle\<close>

lemma map_filter_append: "List.map_filter f (xs @ ys) = List.map_filter f xs @ List.map_filter f ys"
  by (simp add: List.map_filter_def)

lemma view_add: "mu_type u = ADD \<Longrightarrow> view_apply v u = view_set v u (Some u)"
  by (simp add: view_apply_def)

lemma view_clear: "t < ME_MAX_TICKERS \<Longrightarrow> view_apply v (clear_update t) = v(t := (\<lambda>_. None))"
  by (simp add: view_apply_def clear_update_def ME_MAX_TICKERS_def unat_of_nat take_bit_nat_eq_self)

lemma rebuild_orders:
  assumes "view_wf v" and "v0 t = (\<lambda>_. None)"
  shows "foldl view_apply v0 (List.map_filter (v t) [0..<n]) = v0(t := (\<lambda>i. if i < n then v t i else None))"
proof (induction n)
  case 0
  then show ?case using assms(2) by (auto simp: List.map_filter_def)
next
  case (Suc n)
  show ?case
  proof (cases "v t n")
    case None
    then have "(\<lambda>i. if i < Suc n then v t i else None) = (\<lambda>i. if i < n then v t i else None)"
      by (auto simp: less_Suc_eq)
    then show ?thesis using Suc None by (simp add: map_filter_append map_filter_simps)
  next
    case (Some e)
    then have e: "mu_type e = ADD" "unat (mu_ticker_id e) = t" "unat (mu_order_id e) = n"
      using assms(1) by (auto simp: view_wf_def)
    have "(\<lambda>i. if i < n then v t i else None)(n := Some e) = (\<lambda>i. if i < Suc n then v t i else None)"
      using Some by (auto simp: less_Suc_eq)
    then have "view_set (v0(t := (\<lambda>i. if i < n then v t i else None))) e (Some e) =
        v0(t := (\<lambda>i. if i < Suc n then v t i else None))"
      using e by (simp only: view_set_def fun_upd_same fun_upd_upd)
    then show ?thesis using Suc Some e(1) by (simp only: map_filter_append map_filter_simps upt_Suc_append foldl_append
        foldl_Cons foldl_Nil view_add option.simps le0)
  qed
qed

lemma rebuild_body:
  assumes "view_wf v" and "distinct ts" and "\<forall>t\<in>set ts. t < ME_MAX_TICKERS"
  shows "foldl view_apply v0 (snapshot_body v ts) = (\<lambda>t. if t \<in> set ts then v t else v0 t)"
  using assms(2,3)
proof (induction ts arbitrary: v0)
  case Nil
  then show ?case by (simp add: snapshot_body_def)
next
  case (Cons t ts)
  let ?v1 = "v0(t := (\<lambda>_. None))"
  have "(\<lambda>i. if i < ME_MAX_ORDER_IDS then v t i else None) = v t"
    using assms(1) by (auto simp: view_wf_def fun_eq_iff) (metis not_None_eq)
  then have "foldl view_apply ?v1 (live_orders v t) = v0(t := v t)"
    using rebuild_orders [OF assms(1), of ?v1 t] by (simp add: live_orders_def)
  then have "foldl view_apply v0 (snapshot_body v (t # ts)) = foldl view_apply (v0(t := v t)) (snapshot_body v ts)"
    using Cons.prems(2) by (simp add: snapshot_body_def view_clear)
  also have "\<dots> = (\<lambda>x. if x \<in> set (t # ts) then v x else v0 x)"
    using Cons by (auto simp: fun_eq_iff)
  finally show ?case .
qed

lemma rebuild_snapshot:
  assumes "view_wf v" and "\<forall>t\<ge>ME_MAX_TICKERS. v0 t = (\<lambda>_. None)"
  shows "foldl view_apply v0 (snapshot_messages v n) = v"
proof -
  have "v t = v0 t" if "\<not> t < ME_MAX_TICKERS" for t
    using that assms by (auto simp: view_wf_def fun_eq_iff) (metis not_None_eq)
  then have "foldl view_apply v0 (snapshot_body v [0..<ME_MAX_TICKERS]) = v"
    using rebuild_body [OF assms(1), of "[0..<ME_MAX_TICKERS]" v0] by (auto simp: fun_eq_iff)
  moreover have "view_apply w (bound_update ty n) = w" if "ty \<in> {SNAPSHOT_START, SNAPSHOT_END}" for w ty
    using that by (auto simp: view_apply_def bound_update_def)
  ultimately show ?thesis by (simp add: snapshot_messages_def)
qed

text \<open>The orders of a ticker: the entries of its table, each once, by increasing identifier.\<close>

lemma map_filter_sorted:
  assumes "\<And>i e. i < n \<Longrightarrow> f i = Some e \<Longrightarrow> g e = i"
  shows "sorted_wrt (<) (map g (List.map_filter f [0..<n])) \<and> (\<forall>x\<in>set (map g (List.map_filter f [0..<n])). x < n)"
  using assms
proof (induction n)
  case (Suc n)
  then show ?case
    by (cases "f n") (auto simp: map_filter_append map_filter_simps sorted_wrt_append less_Suc_eq)
qed (simp add: List.map_filter_def)

lemma live_orders_exact:
  assumes "view_wf v"
  shows "set (live_orders v t) = {e. \<exists>i. v t i = Some e} \<and> sorted_wrt (<) (map (unat \<circ> mu_order_id) (live_orders v t)) \<and>
    (\<forall>e\<in>set (live_orders v t). unat (mu_ticker_id e) = t)"
proof -
  have w: "i < ME_MAX_ORDER_IDS" "unat (mu_ticker_id e) = t" "(unat \<circ> mu_order_id) e = i" if "v t i = Some e" for i e
    using assms that by (auto simp: view_wf_def)
  have "set (live_orders v t) = {e. \<exists>i. v t i = Some e}"
    using w(1) by (force simp: live_orders_def List.map_filter_def)
  moreover have "sorted_wrt (<) (map (unat \<circ> mu_order_id) (live_orders v t))"
    using map_filter_sorted [of ME_MAX_ORDER_IDS "v t" "unat \<circ> mu_order_id"] w(3) by (simp add: live_orders_def)
  ultimately show ?thesis using w(2) by auto
qed

lemma sorted_singleton:
  fixes g :: "'a \<Rightarrow> nat"
  assumes "set xs = {x}" and "sorted_wrt (<) (map g xs)"
  shows "xs = [x]"
proof -
  have "distinct xs" using strict_sorted_imp_sorted [OF assms(2)] assms(2) by (simp add: strict_sorted_iff distinct_map)
  then have "length xs = 1" using assms(1) distinct_card [of xs] by simp
  then show ?thesis using assms(1) by (cases xs) auto
qed

section \<open>Properties\<close>

text \<open>Following the updates. The synthesizer's loop over a queue of updates that are numbered on
  from its last number ends with the queue empty, no assertion failed and its table equal to the
  replay of the updates, as long as they make sense for the table and the pool has room; the pool's
  blocks in use stay exactly those of the entries.\<close>

theorem snapshot_follows:
  assumes "ss_inv ss" and "q_inv (ss_md_updates ss)"
    and "q_contents (ss_md_updates ss) = mdp_number (last_inc_seq_num ss + 1) us"
    and "view_oks (ss_view ss) us" and "card (entries (ss_view ss)) + length us < ME_MAX_ORDER_IDS"
  shows "\<exists>ss'. ss_updates (q_length (ss_md_updates ss)) ss = Inr ss' \<and> ss_inv ss' \<and>
    q_contents (ss_md_updates ss') = [] \<and> ss_view ss' = foldl view_apply (ss_view ss) us \<and>
    last_inc_seq_num ss' = last_inc_seq_num ss + of_nat (length us)"
proof -
  have "length us = q_length (ss_md_updates ss)"
    using assms(3) length_q_contents length_mdp_number by metis
  then show ?thesis using ss_updates_ok [OF assms(1-3) _ assms(4,5)] by auto
qed

definition demo_order :: MEMarketUpdate where
  "demo_order = \<lparr>mu_type = ADD, mu_order_id = 5, mu_ticker_id = 1, mu_side = BUY, mu_price = 100, mu_qty = 10, mu_priority = 1\<rparr>"

definition demo_synthesizer :: SnapshotSynthesizer where
  "demo_synthesizer = SnapshotSynthesizer_new (q_push (LFQueue_new 4 \<lparr>mdp_seq_num = 0, mdp_me_market_update = MEMarketUpdate_default\<rparr>)
     \<lparr>mdp_seq_num = 1, mdp_me_market_update = demo_order\<rparr>)"

theorem snapshot_follows_witness:
  "\<exists>ss'. ss_updates 1 demo_synthesizer = Inr ss' \<and> ss_view ss' 1 5 = Some demo_order \<and> last_inc_seq_num ss' = 1"
proof -
  have i: "ss_inv demo_synthesizer" unfolding demo_synthesizer_def by (rule ss_inv_new)
  have v: "ss_view demo_synthesizer = (\<lambda>_ _. None)" unfolding demo_synthesizer_def by (rule ss_view_new)
  have q: "q_inv (ss_md_updates demo_synthesizer)"
    "q_contents (ss_md_updates demo_synthesizer) = mdp_number (last_inc_seq_num demo_synthesizer + 1) [demo_order]"
    "q_length (ss_md_updates demo_synthesizer) = 1" "last_inc_seq_num demo_synthesizer = 0"
    using q_inv_push [OF q_inv_new [of 4]] q_contents_push [OF q_inv_new [of 4]]
    by (simp_all add: demo_synthesizer_def SnapshotSynthesizer_new_def)
  have "view_oks (ss_view demo_synthesizer) [demo_order]" "card (entries (ss_view demo_synthesizer)) + 1 < ME_MAX_ORDER_IDS"
    unfolding v by (simp_all add: view_ok_def view_get_def demo_order_def entries_def ME_MAX_TICKERS_def ME_MAX_ORDER_IDS_def)
  with snapshot_follows [OF i q(1,2)] q(3,4) show ?thesis
    by (auto simp: v view_apply_def demo_order_def view_set_def)
qed

text \<open>C28: A snapshot is complete. When the kernel takes what it is given, a cycle of the synthesizer
  sends, numbered from zero without a gap, START, then for every ticker in turn CLEAR and the orders
  of its table, and END, and nothing else; START and END carry the number of the last update in the
  table. The orders sent for a ticker are exactly the entries of its table, each once, by increasing
  order identifier, and each names its ticker. The table is left as it was. A receiver that
  applies the messages in order, whatever it held before, ends with exactly the orders of the
  table.\<close>

theorem snapshot_complete:
  assumes "ss_inv ss" and "mc_outbound (snapshot_socket ss) = []" and "\<forall>n. 420 \<le> taken n"
  shows "\<exists>sent orders. publishSnapshot taken ss = Inr (ss, sent) \<and>
    concat sent = concat (map enc_MDPMarketUpdate (mdp_number 0
      (bound_update SNAPSHOT_START (last_inc_seq_num ss) #
       concat (map (\<lambda>t. clear_update t # orders t) [0..<ME_MAX_TICKERS]) @
       [bound_update SNAPSHOT_END (last_inc_seq_num ss)]))) \<and>
    (\<forall>t. set (orders t) = {e. \<exists>i. ss_view ss t i = Some e} \<and>
      sorted_wrt (<) (map (unat \<circ> mu_order_id) (orders t)) \<and> (\<forall>e\<in>set (orders t). unat (mu_ticker_id e) = t)) \<and>
    (\<forall>v0. (\<forall>t\<ge>ME_MAX_TICKERS. v0 t = (\<lambda>_. None)) \<longrightarrow>
      foldl view_apply v0 (bound_update SNAPSHOT_START (last_inc_seq_num ss) #
        concat (map (\<lambda>t. clear_update t # orders t) [0..<ME_MAX_TICKERS]) @
        [bound_update SNAPSHOT_END (last_inc_seq_num ss)]) = ss_view ss)"
proof -
  have wf: "view_wf (ss_view ss)" using assms(1) by (simp add: ss_inv_def)
  obtain sent where "publishSnapshot taken ss = Inr (ss, sent)"
    "concat sent = concat (map enc_MDPMarketUpdate (mdp_number 0 (snapshot_messages (ss_view ss) (last_inc_seq_num ss))))"
    using publishSnapshot_ok [OF assms(2,3)] by blast
  then show ?thesis
    using live_orders_exact [OF wf] rebuild_snapshot [OF wf]
    by (intro exI [of _ sent] exI [of _ "live_orders (ss_view ss)"])
       (simp add: snapshot_messages_def snapshot_body_def del: upt_Suc)
qed

text \<open>A table with one order, for the second of the eight tickers.\<close>

lemma demo_followed:
  "\<exists>ss. ss_updates 1 demo_synthesizer = Inr ss \<and> ss_inv ss \<and> last_inc_seq_num ss = 1 \<and>
     mc_outbound (snapshot_socket ss) = [] \<and>
     ss_view ss = (\<lambda>t i. if t = 1 \<and> i = 5 then Some demo_order else None)"
proof -
  have i: "ss_inv demo_synthesizer" unfolding demo_synthesizer_def by (rule ss_inv_new)
  have v: "ss_view demo_synthesizer = (\<lambda>_ _. None)" unfolding demo_synthesizer_def by (rule ss_view_new)
  have q: "q_inv (ss_md_updates demo_synthesizer)"
    "q_contents (ss_md_updates demo_synthesizer) = mdp_number (last_inc_seq_num demo_synthesizer + 1) [demo_order]"
    "last_inc_seq_num demo_synthesizer = 0" "mc_outbound (snapshot_socket demo_synthesizer) = []"
    using q_inv_push [OF q_inv_new [of 4]] q_contents_push [OF q_inv_new [of 4]]
    by (simp_all add: demo_synthesizer_def SnapshotSynthesizer_new_def McastSocket_new_def)
  have ok: "view_oks (ss_view demo_synthesizer) [demo_order]"
    "card (entries (ss_view demo_synthesizer)) + length [demo_order] < ME_MAX_ORDER_IDS"
    unfolding v by (simp_all add: view_ok_def view_get_def demo_order_def entries_def ME_MAX_TICKERS_def ME_MAX_ORDER_IDS_def)
  have "foldl view_apply (ss_view demo_synthesizer) [demo_order] = (\<lambda>t i. if t = 1 \<and> i = 5 then Some demo_order else None)"
    by (simp add: v fun_eq_iff view_apply_def demo_order_def view_set_apply)
  with ss_updates_ok [OF i q(1,2) _ ok, of 1] q(3,4) show ?thesis by auto
qed

theorem snapshot_complete_witness:
  "\<exists>ss sent. ss_updates 1 demo_synthesizer = Inr ss \<and> publishSnapshot (\<lambda>_. 420) ss = Inr (ss, sent) \<and>
    concat sent = concat (map enc_MDPMarketUpdate (mdp_number 0
      [bound_update SNAPSHOT_START 1, clear_update 0, clear_update 1, demo_order, clear_update 2, clear_update 3,
       clear_update 4, clear_update 5, clear_update 6, clear_update 7, bound_update SNAPSHOT_END 1]))"
proof -
  obtain ss where ss: "ss_updates 1 demo_synthesizer = Inr ss" "ss_inv ss" "last_inc_seq_num ss = 1"
    "mc_outbound (snapshot_socket ss) = []" "ss_view ss = (\<lambda>t i. if t = 1 \<and> i = 5 then Some demo_order else None)"
    using demo_followed by blast
  from snapshot_complete [OF ss(2,4), of "\<lambda>_. 420"] obtain sent orders where
    s: "publishSnapshot (\<lambda>_. 420) ss = Inr (ss, sent)"
    "concat sent = concat (map enc_MDPMarketUpdate (mdp_number 0 (bound_update SNAPSHOT_START 1 #
       concat (map (\<lambda>t. clear_update t # orders t) [0..<ME_MAX_TICKERS]) @ [bound_update SNAPSHOT_END 1])))"
    "\<And>t. set (orders t) = {e. \<exists>i. ss_view ss t i = Some e}"
    "\<And>t. sorted_wrt (<) (map (unat \<circ> mu_order_id) (orders t))"
    using ss(3) by auto
  have empty: "orders t = []" if "t \<noteq> 1" for t using s(3) [of t] that ss(5) by simp
  have "set (orders 1) = {demo_order}" using s(3) [of 1] ss(5) by simp
  then have one: "orders 1 = [demo_order]" using s(4) [of 1] by (rule sorted_singleton)
  have "[0..<ME_MAX_TICKERS] = [0, 1, 2, 3, 4, 5, 6, 7]" by (simp add: ME_MAX_TICKERS_def upt_rec)
  then have "concat (map (\<lambda>t. clear_update t # orders t) [0..<ME_MAX_TICKERS]) =
    [clear_update 0, clear_update 1, demo_order, clear_update 2, clear_update 3,
     clear_update 4, clear_update 5, clear_update 6, clear_update 7]" using empty one by simp
  then show ?thesis using ss(1) s(1,2) by auto
qed

text \<open>The table ends. An order that is added with an identifier beyond the table, or for a
  ticker beyond it, ends the process with an exception; an update that adds an order twice, changes
  or removes an unknown one, or does not carry the next number, ends it with an assertion. Since
  the books number their orders without a bound, the first case comes with the order 1048576 of a
  ticker that rests.\<close>

theorem snapshot_faults:
  assumes "unat (mu_ticker_id u) < ME_MAX_TICKERS"
  shows "(mu_type u \<in> {ADD, MODIFY, CANCEL} \<and> ME_MAX_ORDER_IDS \<le> unat (mu_order_id u) \<longrightarrow>
      addToSnapshot ss \<lparr>mdp_seq_num = n, mdp_me_market_update = u\<rparr> = Inl Out_of_range) \<and>
    (mu_type u = ADD \<and> unat (mu_order_id u) < ME_MAX_ORDER_IDS \<and> view_get (ss_view ss) u \<noteq> None \<longrightarrow>
      addToSnapshot ss \<lparr>mdp_seq_num = n, mdp_me_market_update = u\<rparr> = Inl (Assert_failed ''order already exists'')) \<and>
    (mu_type u \<in> {MODIFY, CANCEL} \<and> unat (mu_order_id u) < ME_MAX_ORDER_IDS \<and> view_get (ss_view ss) u = None \<longrightarrow>
      addToSnapshot ss \<lparr>mdp_seq_num = n, mdp_me_market_update = u\<rparr> = Inl (Assert_failed ''order does not exist.'')) \<and>
    (mu_type u = TRADE \<and> n \<noteq> last_inc_seq_num ss + 1 \<longrightarrow>
      addToSnapshot ss \<lparr>mdp_seq_num = n, mdp_me_market_update = u\<rparr> =
        Inl (Assert_failed ''Expected incremental seq_nums to increase.''))"
  using assms by (auto simp: addToSnapshot_def Let_def array_at_def expect_order_def view_get_def ss_view_def)

theorem snapshot_faults_witness:
  "addToSnapshot demo_synthesizer \<lparr>mdp_seq_num = 1, mdp_me_market_update = demo_order\<lparr>mu_order_id := 1048576\<rparr>\<rparr> = Inl Out_of_range"
  using snapshot_faults [of "demo_order\<lparr>mu_order_id := 1048576\<rparr>" demo_synthesizer 1]
  by (simp add: demo_order_def ME_MAX_TICKERS_def ME_MAX_ORDER_IDS_def)

end
