(* ===== verification/Exchange.thy ===== *)
theory Exchange
  imports Matching_Engine Snapshot_Synthesizer
begin

text \<open>
  The exchange as a whole: the updates that the books send are enough to rebuild them, so the
  publisher's numbered stream and the synthesizer's table say what the books of the matching
  engine hold.
\<close>

section \<open>The view of a list of orders\<close>

definition oview :: "MEOrder list \<Rightarrow> nat \<Rightarrow> MEMarketUpdate option" where
  "oview xs = map_of (map (\<lambda>x. (unat (me_market_order_id x), add_update x)) xs)"

abbreviation order_ids :: "MEOrder list \<Rightarrow> OrderId list" where
  "order_ids xs \<equiv> map me_market_order_id xs"

lemma unat_order_ids: "unat (me_market_order_id x) = unat (me_market_order_id y) \<longleftrightarrow> me_market_order_id x = me_market_order_id y"
  by (simp add: word_unat_eq_iff)

lemma oview_Cons: "oview (x # xs) = (oview xs)(unat (me_market_order_id x) \<mapsto> add_update x)"
  by (simp add: oview_def)

lemma oview_None: "me_market_order_id x \<notin> set (order_ids xs) \<Longrightarrow> oview xs (unat (me_market_order_id x)) = None"
  by (auto simp: oview_def map_of_eq_None_iff image_iff unat_order_ids)

lemma oview_Some:
  assumes "distinct (order_ids xs)"
  shows "oview xs i = Some e \<longleftrightarrow> (\<exists>x\<in>set xs. unat (me_market_order_id x) = i \<and> e = add_update x)"
proof -
  have "distinct (map fst (map (\<lambda>x. (unat (me_market_order_id x), add_update x)) xs))"
    using assms by (auto simp: distinct_map inj_on_def unat_order_ids)
  then show ?thesis by (auto simp: oview_def map_of_eq_Some_iff image_iff)
qed

lemma oview_perm:
  assumes "mset xs = mset ys" and "distinct (order_ids xs)"
  shows "oview xs = oview ys"
proof -
  have s: "set xs = set ys" and d: "distinct (order_ids ys)"
    using assms by (metis mset_eq_setD, metis distinct_count_atmost_1 mset_map mset_eq_imp_distinct_iff)
  show ?thesis
  proof
    fix i
    show "oview xs i = oview ys i"
      using oview_Some [OF assms(2), of i] oview_Some [OF d, of i] s by (metis option.exhaust)
  qed
qed

text \<open>The view of one ticker among the others.\<close>

definition at_ticker :: "view \<Rightarrow> nat \<Rightarrow> MEOrder list \<Rightarrow> view" where
  "at_ticker v t xs = v(t := oview xs)"

definition listed :: "TickerId \<Rightarrow> MEOrder list \<Rightarrow> bool" where
  "listed tid xs \<longleftrightarrow> unat tid < ME_MAX_TICKERS \<and> distinct (order_ids xs) \<and>
     (\<forall>x\<in>set xs. me_ticker_id x = tid \<and> unat (me_market_order_id x) < ME_MAX_ORDER_IDS)"

lemma listed_Cons:
  "listed tid (x # xs) \<Longrightarrow> listed tid xs \<and> me_ticker_id x = tid \<and> unat (me_market_order_id x) < ME_MAX_ORDER_IDS \<and>
     me_market_order_id x \<notin> set (order_ids xs)"
  by (auto simp: listed_def)

lemma view_trade:
  "view_apply v (trade_update g n k) = v" "unat (ag_ticker g) < ME_MAX_TICKERS \<Longrightarrow> view_ok v (trade_update g n k)"
  by (simp_all add: view_apply_def trade_update_def view_ok_def)

lemma view_cancel:
  assumes "listed tid (x # xs)" and "mu_type u = CANCEL" "mu_order_id u = me_market_order_id x" "mu_ticker_id u = tid" "mu_side u = me_side x"
  shows "view_ok (at_ticker v (unat tid) (x # xs)) u \<and>
    view_apply (at_ticker v (unat tid) (x # xs)) u = at_ticker v (unat tid) xs"
proof -
  note l = listed_Cons [OF assms(1)]
  have "(oview (x # xs))(unat (me_market_order_id x) := None) = oview xs"
    using oview_None [of x xs] l by (simp add: oview_Cons fun_upd_idem)
  then show ?thesis using l assms
    by (simp add: view_ok_def view_apply_def view_set_def view_get_def at_ticker_def listed_def oview_Cons add_update_def)
qed

lemma view_modify:
  assumes "listed (ag_ticker g) (x # xs)" and "k \<noteq> me_qty x"
  shows "view_ok (at_ticker v (unat (ag_ticker g)) (x # xs)) (passive_update g x k) \<and>
    view_apply (at_ticker v (unat (ag_ticker g)) (x # xs)) (passive_update g x k) =
      at_ticker v (unat (ag_ticker g)) (x\<lparr>me_qty := me_qty x - k\<rparr> # xs)"
  using listed_Cons [OF assms(1)] assms
  by (auto simp: view_ok_def view_apply_def view_set_def view_get_def at_ticker_def listed_def oview_Cons
      add_update_def passive_update_def)

lemma passive_cancel:
  "mu_type (passive_update g x (me_qty x)) = CANCEL" "mu_order_id (passive_update g x (me_qty x)) = me_market_order_id x"
  "mu_ticker_id (passive_update g x (me_qty x)) = ag_ticker g" "mu_side (passive_update g x (me_qty x)) = me_side x"
  by (simp_all add: passive_update_def)

lemma match_replay:
  assumes "a_match g q xs = (ns, leaves, rs, us)" and "listed (ag_ticker g) (xs @ ys)"
  shows "view_oks (at_ticker v (unat (ag_ticker g)) (xs @ ys)) us \<and>
    foldl view_apply (at_ticker v (unat (ag_ticker g)) (xs @ ys)) us = at_ticker v (unat (ag_ticker g)) (ns @ ys) \<and>
    listed (ag_ticker g) (ns @ ys)"
  using assms
proof (induction g q xs arbitrary: ns leaves rs us rule: a_match.induct)
  case (1 g q)
  then show ?case by auto
next
  case (2 g q n xs)
  let ?v = "at_ticker v (unat (ag_ticker g)) ((n # xs) @ ys)"
  have t: "unat (ag_ticker g) < ME_MAX_TICKERS" using "2.prems"(2) by (simp add: listed_def)
  have l: "listed (ag_ticker g) (n # xs @ ys)" using "2.prems"(2) by simp
  consider (stop) "q = 0 \<or> \<not> crosses (ag_side g) (ag_price g) (me_price n)"
    | (part) "\<not> (q = 0 \<or> \<not> crosses (ag_side g) (ag_price g) (me_price n))" "q < me_qty n"
    | (full) "\<not> (q = 0 \<or> \<not> crosses (ag_side g) (ag_price g) (me_price n))" "\<not> q < me_qty n"
    by blast
  then show ?case
  proof cases
    case stop
    with "2.prems" show ?thesis by auto
  next
    case part
    then have r: "ns = n\<lparr>me_qty := me_qty n - q\<rparr> # xs" "us = [trade_update g n q, passive_update g n q]"
      using "2.prems"(1) by auto
    have "listed (ag_ticker g) (n\<lparr>me_qty := me_qty n - q\<rparr> # xs @ ys)" using l by (simp add: listed_def)
    moreover have "q \<noteq> me_qty n" using part(2) by auto
    ultimately show ?thesis using r view_modify [OF l, of q v] view_trade(2) [OF t] by (simp add: view_trade(1))
  next
    case full
    obtain ns' q' rs' us' where m: "a_match g (q - me_qty n) xs = (ns', q', rs', us')" by (metis prod.collapse)
    with full "2.prems"(1) have r: "ns = ns'"
      "us = trade_update g n (me_qty n) # passive_update g n (me_qty n) # us'" by auto
    have "listed (ag_ticker g) (xs @ ys)" using listed_Cons [OF l] by simp
    from "2.IH" [OF full m this] r view_cancel [OF l passive_cancel, of v] view_trade(2) [OF t]
    show ?thesis by (simp add: view_trade(1))
  qed
qed

section \<open>The view of the books\<close>

definition book_listed :: "TickerId \<Rightarrow> abook \<Rightarrow> bool" where
  "book_listed tid b \<longleftrightarrow> listed tid (ab_orders b) \<and> abook_inv b \<and> unat (ab_next_id b) \<le> ME_MAX_ORDER_IDS"

lemma orders_by_side:
  assumes "side \<in> {BUY, SELL}"
  shows "mset (ab_orders b) = mset (ab_side b (opp side) @ ab_side b side)"
  using assms by (auto simp: ab_orders_def ab_side_def)

lemma listed_perm: "mset xs = mset ys \<Longrightarrow> listed tid xs = listed tid ys"
  unfolding listed_def by (metis mset_eq_setD mset_map mset_eq_imp_distinct_iff)

lemma at_ticker_perm: "mset xs = mset ys \<Longrightarrow> listed tid xs \<Longrightarrow> at_ticker v t xs = at_ticker v t ys"
  using oview_perm by (simp add: at_ticker_def listed_def)

lemma add_replay_rest:
  assumes l: "listed tid xs" and n: "me_ticker_id n = tid" "unat (me_market_order_id n) < ME_MAX_ORDER_IDS"
    "me_market_order_id n \<notin> set (order_ids xs)"
  shows "view_ok (at_ticker v (unat tid) xs) (add_update n) \<and>
    view_apply (at_ticker v (unat tid) xs) (add_update n) = at_ticker v (unat tid) (n # xs) \<and> listed tid (n # xs)"
  using assms oview_None [OF n(3)]
  by (simp add: view_ok_def view_apply_def view_set_def view_get_def at_ticker_def listed_def oview_Cons add_update_def)

lemma view_oks_append: "view_oks v (us @ ws) \<longleftrightarrow> view_oks v us \<and> view_oks (foldl view_apply v us) ws"
  by (induction us arbitrary: v) auto

lemma add_replay:
  assumes b: "book_listed tid b" and ok: "add_ok b cid oid side price" and room: "unat (ab_next_id b) < ME_MAX_ORDER_IDS"
    and r: "a_add b cid oid tid side price qty = (b', rs, us)"
  shows "view_oks (at_ticker v (unat tid) (ab_orders b)) us \<and>
    foldl view_apply (at_ticker v (unat tid) (ab_orders b)) us = at_ticker v (unat tid) (ab_orders b') \<and> book_listed tid b'"
proof -
  have s: "side \<in> {BUY, SELL}" using ok by (simp add: add_ok_def)
  have wrap: "ab_next_id b < ab_next_id b + 1"
    using room by (simp add: word_less_nat_alt unat_word_ariths ME_MAX_ORDER_IDS_def)
  have nxt: "unat (ab_next_id b + 1) \<le> ME_MAX_ORDER_IDS"
    using room by (simp add: unat_word_ariths ME_MAX_ORDER_IDS_def)
  let ?own = "ab_side b side" and ?oth = "ab_side b (opp side)"
  obtain ns leaves rs' us' where m: "a_match \<lparr>ag_ticker = tid, ag_client = cid, ag_order = oid,
      ag_market = ucast (ucast (ab_next_id b) :: Qty), ag_side = side, ag_price = price\<rparr> qty ?oth = (ns, leaves, rs', us')"
    by (metis prod.collapse)
  define b1 where "b1 = (ab_set_side b (opp side) ns)\<lparr>ab_next_id := ab_next_id b + 1\<rparr>"
  define n where "n = \<lparr>me_ticker_id = tid, me_client_id = cid, me_client_order_id = oid,
    me_market_order_id = ab_next_id b, me_side = side, me_price = price, me_qty = leaves,
    me_priority = a_priority price ?own, me_prev_order = None, me_next_order = None\<rparr>"
  note b1 = ab_after_match [OF s b1_def]
  have out: "b' = (if leaves = 0 then b1 else ab_set_side b1 side (a_insert side n ?own))"
    "us = (if leaves = 0 then us' else us' @ [add_update n])"
    using a_add_unfold(1,2) [OF m b1_def n_def] r by simp_all
  have inv': "abook_inv b'"
    using a_add_inv [of b side cid oid tid price qty] b s wrap ok r by (auto simp: book_listed_def add_ok_def)
  have l0: "listed tid (?oth @ ?own)" using listed_perm [OF orders_by_side [OF s, of b], of tid] b by (simp add: book_listed_def)
  have v0: "at_ticker v (unat tid) (ab_orders b) = at_ticker v (unat tid) (?oth @ ?own)"
    using b unfolding book_listed_def by (intro at_ticker_perm [OF orders_by_side [OF s], of tid]) blast
  have mr: "view_oks (at_ticker v (unat tid) (?oth @ ?own)) us'"
    "foldl view_apply (at_ticker v (unat tid) (?oth @ ?own)) us' = at_ticker v (unat tid) (ns @ ?own)"
    "listed tid (ns @ ?own)"
    using match_replay [OF m, of ?own v] l0 by simp_all
  show ?thesis
  proof (cases "leaves = 0")
    case True
    have p: "mset (ab_orders b1) = mset (ns @ ?own)" using orders_by_side [OF s, of b1] b1 by simp
    have "listed tid (ab_orders b1)" using listed_perm [OF p] mr(3) by simp
    moreover have "at_ticker v (unat tid) (ab_orders b1) = at_ticker v (unat tid) (ns @ ?own)"
      by (rule at_ticker_perm [OF p calculation])
    ultimately show ?thesis using True out v0 mr inv' nxt b1(3) by (simp add: book_listed_def)
  next
    case False
    then have b': "b' = ab_set_side b1 side (a_insert side n ?own)" using out by simp
    have sides: "ab_side b' side = a_insert side n ?own" "ab_side b' (opp side) = ns" "ab_next_id b' = ab_next_id b + 1"
      using s b1 unfolding b' by (auto simp: ab_side_def ab_set_side_def)
    have p: "mset (ab_orders b') = mset (n # ns @ ?own)"
      using orders_by_side [OF s, of b'] sides by (simp add: a_insert_perm)
    have "\<forall>x\<in>set (ns @ ?own). me_market_order_id x < ab_next_id b"
    proof -
      have "\<forall>x\<in>set (?oth @ ?own). me_market_order_id x < ab_next_id b"
        using b ids_ok_sides [OF s, of b] by (auto simp: book_listed_def abook_inv_def)
      moreover have "\<forall>y\<in>set ns. \<exists>x\<in>set ?oth. \<exists>k. y = x\<lparr>me_qty := k\<rparr>" using a_match_sub [OF m] by simp
      ultimately show ?thesis by fastforce
    qed
    then have "me_market_order_id n \<notin> set (order_ids (ns @ ?own))" by (auto simp: n_def)
    then have ar: "view_ok (at_ticker v (unat tid) (ns @ ?own)) (add_update n)"
      "view_apply (at_ticker v (unat tid) (ns @ ?own)) (add_update n) = at_ticker v (unat tid) (n # ns @ ?own)"
      "listed tid (n # ns @ ?own)"
      using add_replay_rest [OF mr(3), of n v] room by (simp_all add: n_def)
    have "listed tid (ab_orders b')" using listed_perm [OF p] ar(3) by simp
    moreover have "at_ticker v (unat tid) (ab_orders b') = at_ticker v (unat tid) (n # ns @ ?own)"
      by (rule at_ticker_perm [OF p calculation])
    ultimately show ?thesis using False out(2) v0 mr ar inv' nxt sides(3)
      by (simp add: book_listed_def view_oks_append)
  qed
qed

lemma find_mset:
  assumes "List.find P xs = Some x" and "distinct (map f xs)" and "\<forall>y\<in>set xs. P y \<longrightarrow> f y = f x"
  shows "mset xs = add_mset x (mset (filter (\<lambda>y. \<not> P y) xs))"
  using assms
proof (induction xs)
  case (Cons y ys)
  show ?case
  proof (cases "P y")
    case True
    then have "y = x" using Cons.prems(1) by simp
    moreover have "\<forall>z\<in>set ys. \<not> P z" using Cons.prems(2,3) True \<open>y = x\<close> by (auto simp: image_iff)
    ultimately show ?thesis using True by (simp add: filter_id_conv)
  next
    case False
    then show ?thesis using Cons by simp
  qed
qed simp

lemma cancel_replay:
  assumes b: "book_listed tid b" and r: "a_cancel b cid oid tid = (b', rs, us)"
  shows "view_oks (at_ticker v (unat tid) (ab_orders b)) us \<and>
    foldl view_apply (at_ticker v (unat tid) (ab_orders b)) us = at_ticker v (unat tid) (ab_orders b') \<and> book_listed tid b'"
proof (cases "List.find (is_order cid oid) (ab_orders b)")
  case None
  then show ?thesis using b r by (auto simp: a_cancel_def)
next
  case (Some n)
  have inv': "abook_inv b'" using a_cancel_inv [of b cid oid tid] b r by (simp add: book_listed_def)
  have out: "ab_orders b' = filter (\<lambda>x. \<not> is_order cid oid x) (ab_orders b)" "ab_next_id b' = ab_next_id b"
    "us = [\<lparr>mu_type = CANCEL, mu_order_id = me_market_order_id n, mu_ticker_id = tid,
       mu_side = me_side n, mu_price = me_price n, mu_qty = 0, mu_priority = me_priority n\<rparr>]"
    using r Some by (auto simp: a_cancel_def ab_orders_def)
  have k: "distinct (map order_key (ab_orders b))" using b by (simp add: book_listed_def abook_inv_def ids_ok_def)
  have "is_order cid oid n" using Some by (metis find_Some_iff)
  then have p: "mset (ab_orders b) = mset (n # ab_orders b')"
    using find_mset [OF Some k] out(1) by (simp add: is_order_key)
  then have l: "listed tid (n # ab_orders b')" using listed_perm [OF p] b by (simp add: book_listed_def)
  have v: "at_ticker v (unat tid) (ab_orders b) = at_ticker v (unat tid) (n # ab_orders b')"
    using b unfolding book_listed_def by (intro at_ticker_perm [OF p, of tid]) blast
  have "listed tid (ab_orders b')" using listed_Cons [OF l] by simp
  with view_cancel [OF l, of "hd us" v] v out inv' b show ?thesis by (simp add: book_listed_def)
qed

section \<open>The view of the engine\<close>

definition eng_view :: "aengine \<Rightarrow> view" where
  "eng_view e t = (if t < ME_MAX_TICKERS then oview (ab_orders (e t)) else (\<lambda>_. None))"

definition eng_listed :: "aengine \<Rightarrow> bool" where
  "eng_listed e \<longleftrightarrow> (\<forall>t<ME_MAX_TICKERS. book_listed (of_nat t) (e t))"

text \<open>The books number an order only while the tables of the receivers have a place for it.\<close>

fun ae_room :: "aengine \<Rightarrow> MEClientRequest list \<Rightarrow> bool" where
  "ae_room e [] = True"
| "ae_room e (r # rs) =
     ((rq_type r = Request_NEW \<longrightarrow> unat (ab_next_id (e (unat (rq_ticker_id r)))) < ME_MAX_ORDER_IDS) \<and>
      ae_room (fst (ae_request e r)) rs)"

lemma ae_request_replay:
  assumes "eng_listed e" and "ae_ok e r"
    and "rq_type r = Request_NEW \<longrightarrow> unat (ab_next_id (e (unat (rq_ticker_id r)))) < ME_MAX_ORDER_IDS"
    and "ae_request e r = (e', rs, us)"
  shows "view_oks (eng_view e) us \<and> foldl view_apply (eng_view e) us = eng_view e' \<and> eng_listed e'"
proof -
  let ?t = "unat (rq_ticker_id r)"
  have t: "?t < ME_MAX_TICKERS" and ok: "request_ok (e ?t) r" using assms(2) by (simp_all add: ae_ok_def)
  have tt: "of_nat ?t = rq_ticker_id r" by simp
  have b: "book_listed (rq_ticker_id r) (e ?t)" using assms(1) t unfolding eng_listed_def by (metis tt)
  obtain b' where b': "a_request (e ?t) r = (b', rs, us)" "e' = e(?t := b')"
    using assms(4) by (auto simp: ae_request_def Let_def split_def prod_eq_iff)
  have v: "eng_view e = at_ticker (eng_view e) ?t (ab_orders (e ?t))"
    using t by (simp add: at_ticker_def eng_view_def fun_eq_iff)
  have v': "eng_view e' = at_ticker (eng_view e) ?t (ab_orders b')"
    using t b'(2) by (simp add: at_ticker_def eng_view_def fun_eq_iff)
  have "view_oks (at_ticker (eng_view e) ?t (ab_orders (e ?t))) us \<and>
      foldl view_apply (at_ticker (eng_view e) ?t (ab_orders (e ?t))) us = at_ticker (eng_view e) ?t (ab_orders b') \<and>
      book_listed (rq_ticker_id r) b'"
  proof (cases "rq_type r")
    case Request_NEW
    then have "add_ok (e ?t) (rq_client_id r) (rq_order_id r) (rq_side r) (rq_price r)"
      "unat (ab_next_id (e ?t)) < ME_MAX_ORDER_IDS"
      "a_add (e ?t) (rq_client_id r) (rq_order_id r) (rq_ticker_id r) (rq_side r) (rq_price r) (rq_qty r) = (b', rs, us)"
      using assms(3) b'(1) ok by (simp_all add: a_request_def request_ok_def)
    then show ?thesis by (rule add_replay [OF b])
  next
    case Request_CANCEL
    then have "a_cancel (e ?t) (rq_client_id r) (rq_order_id r) (rq_ticker_id r) = (b', rs, us)"
      using b'(1) by (simp add: a_request_def)
    then show ?thesis by (rule cancel_replay [OF b])
  next
    case Request_INVALID
    then show ?thesis using ok by (simp add: request_ok_def)
  qed
  moreover have "eng_listed e'" if "book_listed (rq_ticker_id r) b'"
    using assms(1) that b'(2) tt by (auto simp: eng_listed_def)
  ultimately show ?thesis using v v' by metis
qed

lemma ae_requests_replay:
  assumes "eng_listed e" and "ae_oks e rs" and "ae_room e rs" and "ae_requests e rs = (e', resps, us)"
  shows "view_oks (eng_view e) us \<and> foldl view_apply (eng_view e) us = eng_view e' \<and> eng_listed e'"
  using assms
proof (induction rs arbitrary: e e' resps us)
  case (Cons r rs)
  obtain e1 o1 u1 where 1: "ae_request e r = (e1, o1, u1)" by (metis prod.collapse)
  obtain e2 o2 u2 where 2: "ae_requests e1 rs = (e2, o2, u2)" by (metis prod.collapse)
  have out: "e' = e2" "us = u1 @ u2" using Cons.prems(4) 1 2 by auto
  have h: "view_oks (eng_view e) u1 \<and> foldl view_apply (eng_view e) u1 = eng_view e1 \<and> eng_listed e1"
    using ae_request_replay [OF Cons.prems(1) _ _ 1] Cons.prems(2,3) by simp
  with Cons.IH [OF _ _ _ 2] Cons.prems(2,3) 1 out show ?case by (simp add: view_oks_append)
qed simp

section \<open>Properties\<close>

text \<open>The updates say what the books hold. Replaying the market updates that the specification
  sends for any sequence of requests, on the orders the books held before, gives exactly the orders
  they hold after, with their quantities, prices and priorities; every update makes sense when its
  turn comes, so that no receiver's check fails.\<close>

theorem updates_rebuild_books:
  assumes "eng_listed e" and "ae_oks e rs" and "ae_room e rs" and "ae_requests e rs = (e', resps, us)"
  shows "view_oks (eng_view e) us \<and> foldl view_apply (eng_view e) us = eng_view e'"
  using ae_requests_replay [OF assms] by blast

lemma eng_listed_new: "eng_listed (\<lambda>_. empty_abook)"
  using empty_abook_inv
  by (simp add: eng_listed_def book_listed_def listed_def ab_orders_def empty_abook_def ME_MAX_TICKERS_def
      ME_MAX_ORDER_IDS_def unat_of_nat take_bit_nat_eq_self)

lemma eng_view_new: "eng_view (\<lambda>_. empty_abook) = (\<lambda>_ _. None)"
  by (simp add: eng_view_def fun_eq_iff oview_def ab_orders_def empty_abook_def)

definition demo_new :: MEClientRequest where
  "demo_new = demo_request Request_NEW 3 7 BUY 100 10"

lemma demo_new_ok: "ae_oks (\<lambda>_. empty_abook) [demo_new]" "ae_room (\<lambda>_. empty_abook) [demo_new]"
proof -
  have "add_ok empty_abook 3 7 BUY 100"
    by (rule empty_add_ok) (simp_all add: ME_MAX_NUM_CLIENTS_def ME_MAX_ORDER_IDS_def)
  then show "ae_oks (\<lambda>_. empty_abook) [demo_new]" "ae_room (\<lambda>_. empty_abook) [demo_new]"
    by (simp_all add: demo_new_def demo_request_def ae_ok_def request_ok_def ME_MAX_TICKERS_def empty_abook_def ME_MAX_ORDER_IDS_def)
qed

theorem updates_rebuild_books_witness:
  "\<exists>e' resps us. ae_requests (\<lambda>_. empty_abook) [demo_new] = (e', resps, us) \<and>
     view_oks (\<lambda>_ _. None) us \<and> foldl view_apply (\<lambda>_ _. None) us = eng_view e'"
proof -
  obtain e' resps us where r: "ae_requests (\<lambda>_. empty_abook) [demo_new] = (e', resps, us)" by (metis prod.collapse)
  show ?thesis using updates_rebuild_books [OF eng_listed_new demo_new_ok r] r by (auto simp: eng_view_new)
qed

text \<open>
  The publisher and the synthesizer are in step with each other: everything published has been
  followed. They are in step with the engine when the table is the view of the books.
\<close>

definition publishing :: "MarketDataPublisher \<Rightarrow> SnapshotSynthesizer \<Rightarrow> bool" where
  "publishing mdp ss \<longleftrightarrow> q_inv (snapshot_md_updates mdp) \<and> q_contents (snapshot_md_updates mdp) = [] \<and>
     mc_outbound (incremental_socket mdp) = [] \<and> next_inc_seq_num mdp = last_inc_seq_num ss + 1 \<and> ss_inv ss"

definition in_step :: "MatchingEngine \<Rightarrow> MarketDataPublisher \<Rightarrow> SnapshotSynthesizer \<Rightarrow> aengine \<Rightarrow> bool" where
  "in_step eng mdp ss e \<longleftrightarrow> eng_rep eng e \<and> eng_listed e \<and> eng_run eng \<and> q_inv (incoming_requests eng) \<and>
     q_inv (mq_md_updates (eng_queues eng)) \<and> q_contents (mq_md_updates (eng_queues eng)) = [] \<and>
     publishing mdp ss \<and> ss_view ss = eng_view e"

definition publish_fits :: "MarketDataPublisher \<Rightarrow> SnapshotSynthesizer \<Rightarrow> nat \<Rightarrow> nat \<Rightarrow> bool" where
  "publish_fits mdp ss taken k \<longleftrightarrow> k \<le> q_capacity (snapshot_md_updates mdp) \<and> 42 * k < McastBufferSize \<and>
     42 * k \<le> taken \<and> card (entries (ss_view ss)) + k < ME_MAX_ORDER_IDS"

definition updates_fit :: "MatchingEngine \<Rightarrow> MarketDataPublisher \<Rightarrow> SnapshotSynthesizer \<Rightarrow> nat \<Rightarrow> nat \<Rightarrow> bool" where
  "updates_fit eng mdp ss taken k \<longleftrightarrow> k \<le> q_capacity (mq_md_updates (eng_queues eng)) \<and> publish_fits mdp ss taken k"

text \<open>The turns of the publisher and the synthesizer on the engine's updates.\<close>

lemma publish_step:
  assumes "publishing mdp ss" and "q_inv (outgoing_md_updates mdp)" and "q_contents (outgoing_md_updates mdp) = us"
    and "view_oks (ss_view ss) us" and "publish_fits mdp ss taken (length us)"
  obtains mdp' ss' where "mdp_run_step taken mdp = Inr (mdp', concat (map enc_MDPMarketUpdate (mdp_number (last_inc_seq_num ss + 1) us)))"
    and "q_length (snapshot_md_updates mdp') = length us"
    and "ss_updates (length us) (ss\<lparr>ss_md_updates := snapshot_md_updates mdp'\<rparr>) = Inr ss'"
    and "last_inc_seq_num ss' = last_inc_seq_num ss + of_nat (length us)" and "ss_view ss' = foldl view_apply (ss_view ss) us"
    and "q_inv (outgoing_md_updates mdp')" and "q_contents (outgoing_md_updates mdp') = []"
    and "publishing (mdp'\<lparr>snapshot_md_updates := ss_md_updates ss'\<rparr>) ss'"
proof -
  note i = assms(1) [unfolded publishing_def] and f = assms(5) [unfolded publish_fits_def]
  obtain mdp' where mdp': "mdp_run_step taken mdp = Inr (mdp', concat (map enc_MDPMarketUpdate (mdp_number (last_inc_seq_num ss + 1) us)))"
    "q_contents (snapshot_md_updates mdp') = mdp_number (last_inc_seq_num ss + 1) us" "q_inv (snapshot_md_updates mdp')"
    "next_inc_seq_num mdp' = last_inc_seq_num ss + 1 + of_nat (length us)"
    "q_inv (outgoing_md_updates mdp')" "q_contents (outgoing_md_updates mdp') = []" "mc_outbound (incremental_socket mdp') = []"
    using mdp_run_step_ok [OF assms(2,3), of taken] i f by (auto simp: Let_def)
  let ?ss = "ss\<lparr>ss_md_updates := snapshot_md_updates mdp'\<rparr>"
  obtain ss' where ss': "ss_updates (length us) ?ss = Inr ss'" "ss_view ss' = foldl view_apply (ss_view ss) us"
    "last_inc_seq_num ss' = last_inc_seq_num ss + of_nat (length us)" "ss_inv ss'"
    "q_inv (ss_md_updates ss')" "q_contents (ss_md_updates ss') = []"
    using ss_updates_ok [of ?ss us "length us"] mdp'(2,3) assms(4) i f by auto
  have "q_length (snapshot_md_updates mdp') = length us" using mdp'(2) length_q_contents by (metis length_mdp_number)
  moreover have "publishing (mdp'\<lparr>snapshot_md_updates := ss_md_updates ss'\<rparr>) ss'"
    using mdp' ss' by (simp add: publishing_def algebra_simps)
  ultimately show thesis using that mdp'(1,5,6) ss'(1-3) by blast
qed

lemma exchange_step:
  assumes "in_step eng mdp ss e" and "q_contents (incoming_requests eng) = rs" and "ae_oks e rs" and "ae_room e rs"
    and "ae_requests e rs = (e', resps, us)" and "updates_fit eng mdp ss taken (length us)"
  obtains eng' mdp' ss' where "run (length rs) eng = Inr eng'" and "q_contents (incoming_requests eng') = []"
    and "mdp_run_step taken (mdp\<lparr>outgoing_md_updates := mq_md_updates (eng_queues eng')\<rparr>) =
      Inr (mdp', concat (map enc_MDPMarketUpdate (mdp_number (last_inc_seq_num ss + 1) us)))"
    and "q_length (snapshot_md_updates mdp') = length us"
    and "ss_updates (length us) (ss\<lparr>ss_md_updates := snapshot_md_updates mdp'\<rparr>) = Inr ss'"
    and "last_inc_seq_num ss' = last_inc_seq_num ss + of_nat (length us)"
    and "in_step (eng'\<lparr>eng_queues := (eng_queues eng')\<lparr>mq_md_updates := outgoing_md_updates mdp'\<rparr>\<rparr>)
      (mdp'\<lparr>snapshot_md_updates := ss_md_updates ss'\<rparr>) ss' e'"
proof -
  note i = assms(1) [unfolded in_step_def] and f = assms(6) [unfolded updates_fit_def]
  obtain eng' where eng': "run (length rs) eng = Inr eng'" "eng_rep eng' e'" "eng_queues eng' = send (eng_queues eng) (resps, us)"
    "q_inv (incoming_requests eng')" "q_contents (incoming_requests eng') = []" "eng_run eng'"
    using run_refines [of eng e rs] i assms(2,3,5) by auto
  let ?mdp = "mdp\<lparr>outgoing_md_updates := mq_md_updates (eng_queues eng')\<rparr>"
  have q: "q_inv (outgoing_md_updates ?mdp)" "q_contents (outgoing_md_updates ?mdp) = us"
    using q_pushes_contents [of "mq_md_updates (eng_queues eng)" us] i f eng'(3) by (simp_all add: send_def)
  have rep: "view_oks (ss_view ss) us" "foldl view_apply (ss_view ss) us = eng_view e'" "eng_listed e'"
    using ae_requests_replay [OF _ assms(3,4,5)] i by simp_all
  have "publishing ?mdp ss" "publish_fits ?mdp ss taken (length us)" using i f by (simp_all add: publishing_def publish_fits_def)
  from publish_step [OF this(1) q rep(1) this(2)] obtain mdp' ss' where
    p: "mdp_run_step taken ?mdp = Inr (mdp', concat (map enc_MDPMarketUpdate (mdp_number (last_inc_seq_num ss + 1) us)))"
    "q_length (snapshot_md_updates mdp') = length us" "ss_updates (length us) (ss\<lparr>ss_md_updates := snapshot_md_updates mdp'\<rparr>) = Inr ss'"
    "last_inc_seq_num ss' = last_inc_seq_num ss + of_nat (length us)" "ss_view ss' = foldl view_apply (ss_view ss) us"
    "q_inv (outgoing_md_updates mdp')" "q_contents (outgoing_md_updates mdp') = []"
    "publishing (mdp'\<lparr>snapshot_md_updates := ss_md_updates ss'\<rparr>) ss'" by blast
  then have "in_step (eng'\<lparr>eng_queues := (eng_queues eng')\<lparr>mq_md_updates := outgoing_md_updates mdp'\<rparr>\<rparr>)
      (mdp'\<lparr>snapshot_md_updates := ss_md_updates ss'\<rparr>) ss' e'"
    using eng' rep by (simp add: in_step_def eng_rep_def)
  then show thesis using that eng'(1,5) p(1-4) by blast
qed

text \<open>The exchange's market data, end to end. When the matching engine has worked off the waiting
  requests, the publisher has had a turn on the engine's queue and the synthesizer has followed the
  publisher's, then the incremental stream has carried exactly the engine's updates, numbered on
  without a gap, and the synthesizer's table is the view of the books that the engine now
  holds. None of the three has faulted.\<close>

theorem exchange_market_data:
  assumes "in_step eng mdp ss e" and "q_contents (incoming_requests eng) = rs" and "ae_oks e rs" and "ae_room e rs"
    and "ae_requests e rs = (e', resps, us)" and "updates_fit eng mdp ss taken (length us)"
  shows "\<exists>eng' mdp' ss'. run (length rs) eng = Inr eng' \<and> eng_rep eng' e' \<and>
    mdp_run_step taken (mdp\<lparr>outgoing_md_updates := mq_md_updates (eng_queues eng')\<rparr>) =
      Inr (mdp', concat (map enc_MDPMarketUpdate (mdp_number (last_inc_seq_num ss + 1) us))) \<and>
    ss_updates (length us) (ss\<lparr>ss_md_updates := snapshot_md_updates mdp'\<rparr>) = Inr ss' \<and>
    ss_view ss' = eng_view e' \<and> next_inc_seq_num mdp' = last_inc_seq_num ss' + 1"
  by (rule exchange_step [OF assms]) (auto simp: in_step_def eng_rep_def publishing_def)

definition demo_exchange_engine :: MatchingEngine where
  "demo_exchange_engine = start (MatchingEngine_new (\<lambda>_ _ _. None) (\<lambda>_ _. None)
     (q_push (LFQueue_new 4 MEClientRequest_default) demo_new) empty_queues)"

lemma demo_in_step:
  "in_step demo_exchange_engine (MarketDataPublisher_new (LFQueue_new 4 MEMarketUpdate_default)) demo_synthesizer (\<lambda>_. empty_abook)"
  "q_contents (incoming_requests demo_exchange_engine) = [demo_new]"
proof -
  have "eng_rep demo_exchange_engine (\<lambda>_. empty_abook)"
    using eng_rep_new by (simp add: demo_exchange_engine_def start_def eng_rep_def)
  moreover have "ss_inv demo_synthesizer" "ss_view demo_synthesizer = (\<lambda>_ _. None)" "last_inc_seq_num demo_synthesizer = 0"
    unfolding demo_synthesizer_def by (simp_all add: ss_inv_new ss_view_new) (simp add: SnapshotSynthesizer_new_def)
  ultimately show "in_step demo_exchange_engine (MarketDataPublisher_new (LFQueue_new 4 MEMarketUpdate_default)) demo_synthesizer (\<lambda>_. empty_abook)"
    using eng_listed_new q_inv_push [OF q_inv_new [of 4]]
    by (simp add: in_step_def publishing_def demo_exchange_engine_def start_def MatchingEngine_new_def empty_queues_def eng_view_new
        MarketDataPublisher_new_def McastSocket_new_def q_inv_new ME_MAX_MARKET_UPDATES_def)
  show "q_contents (incoming_requests demo_exchange_engine) = [demo_new]"
    using q_contents_push [OF q_inv_new [of 4]] by (simp add: demo_exchange_engine_def start_def MatchingEngine_new_def)
qed

theorem exchange_market_data_witness:
  "\<exists>eng' mdp' ss' sent e' resps us. ae_requests (\<lambda>_. empty_abook) [demo_new] = (e', resps, us) \<and>
    run 1 demo_exchange_engine = Inr eng' \<and>
    mdp_run_step 100 ((MarketDataPublisher_new (LFQueue_new 4 MEMarketUpdate_default))
      \<lparr>outgoing_md_updates := mq_md_updates (eng_queues eng')\<rparr>) = Inr (mdp', sent) \<and>
    ss_updates (length us) (demo_synthesizer\<lparr>ss_md_updates := snapshot_md_updates mdp'\<rparr>) = Inr ss' \<and>
    ss_view ss' = eng_view e'"
proof -
  obtain e' resps us where r: "ae_requests (\<lambda>_. empty_abook) [demo_new] = (e', resps, us)" by (metis prod.collapse)
  have "length us = 1"
    using r by (auto simp: ae_request_def a_request_def demo_new_def demo_request_def a_add_def Let_def empty_abook_def ab_side_def)
  then have "updates_fit demo_exchange_engine (MarketDataPublisher_new (LFQueue_new 4 MEMarketUpdate_default)) demo_synthesizer 100 (length us)"
    by (simp add: updates_fit_def publish_fits_def demo_exchange_engine_def start_def MatchingEngine_new_def empty_queues_def MarketDataPublisher_new_def
        ME_MAX_MARKET_UPDATES_def McastBufferSize_def ME_MAX_ORDER_IDS_def demo_synthesizer_def ss_view_new entries_def)
  from exchange_market_data [OF demo_in_step demo_new_ok r this] r show ?thesis by fastforce
qed

end
