(* ===== verification/Client_Book.thy ===== *)
theory Client_Book
  imports Market_Book_Refine Exchange
begin

text \<open>
  The two books meet: a client that processes the market updates of the exchange, in order and without
  a gap, holds the same orders as the exchange's book, on the same side and in the same order of price
  and time.
\<close>

section \<open>The client's book over a sequence of updates\<close>

text \<open>The part of \<^verbatim>\<open>onMarketUpdate\<close> that concerns the book, and its iteration.\<close>

definition mb_update :: "MarketOrderBook \<Rightarrow> MEMarketUpdate \<Rightarrow> MarketOrderBook result" where
  "mb_update b u =
     (if mu_type u = TRADE then Inr b
      else andThen (mb_apply b u) (\<lambda>b1. mb_updateBBO b1 (bid_updated b u) (ask_updated b u)))"

fun mb_updates :: "MarketOrderBook \<Rightarrow> MEMarketUpdate list \<Rightarrow> MarketOrderBook result" where
  "mb_updates b [] = Inr b"
| "mb_updates b (u # us) = andThen (mb_update b u) (\<lambda>b1. mb_updates b1 us)"

lemma onMarketUpdate_book:
  "onMarketUpdate te u (b, s) = Inr (b', s') \<Longrightarrow> mb_update b u = Inr b'"
  by (auto simp: onMarketUpdate_def mb_update_def Let_def result_simps split: if_splits)

lemma mb_updates_append: "mb_updates b (us @ vs) = andThen (mb_updates b us) (\<lambda>b1. mb_updates b1 vs)"
  by (induction us arbitrary: b) (simp_all add: andThen_assoc)

section \<open>The exchange's orders without their owners\<close>

definition anon :: "MEOrder \<Rightarrow> MEOrder" where
  "anon n = n\<lparr>me_client_id := 0, me_client_order_id := me_market_order_id n\<rparr>"

definition anon_book :: "abook \<Rightarrow> abook" where
  "anon_book b = \<lparr>ab_bids = map anon (ab_bids b), ab_asks = map anon (ab_asks b), ab_next_id = 1\<rparr>"

definition mirrors :: "TickerId \<Rightarrow> MarketOrderBook \<Rightarrow> abook \<Rightarrow> bool" where
  "mirrors tid b ab \<longleftrightarrow> mb_ticker_id b = tid \<and> book_rep (emb b) (anon_book ab)"

lemma anon_sel [simp]:
  "me_client_id (anon n) = 0" "me_client_order_id (anon n) = me_market_order_id n"
  "me_market_order_id (anon n) = me_market_order_id n" "me_side (anon n) = me_side n"
  "me_price (anon n) = me_price n" "me_qty (anon n) = me_qty n" "me_ticker_id (anon n) = me_ticker_id n"
  by (simp_all add: anon_def)

lemma anon_qty: "anon (n\<lparr>me_qty := q\<rparr>) = (anon n)\<lparr>me_qty := q\<rparr>"
  by (simp add: anon_def)

lemma anon_sides [simp]:
  "ab_side (anon_book b) s = map anon (ab_side b s)" "ab_orders (anon_book b) = map anon (ab_orders b)"
  "ab_next_id (anon_book b) = 1"
  by (simp_all add: anon_book_def ab_side_def ab_orders_def)

lemma anon_next_id [simp]: "anon_book (b\<lparr>ab_next_id := m\<rparr>) = anon_book b"
  by (simp add: anon_book_def)

text \<open>Taking the order with an identifier out of a list, and changing its quantity.\<close>

definition drop_id :: "OrderId \<Rightarrow> MEOrder list \<Rightarrow> MEOrder list" where
  "drop_id oid = filter (\<lambda>y. me_market_order_id y \<noteq> oid)"

definition set_qty :: "OrderId \<Rightarrow> Qty \<Rightarrow> MEOrder list \<Rightarrow> MEOrder list" where
  "set_qty oid q = map (\<lambda>y. if me_market_order_id y = oid then y\<lparr>me_qty := q\<rparr> else y)"

lemma drop_id_other: "oid \<notin> set (order_ids xs) \<Longrightarrow> drop_id oid xs = xs"
  by (induction xs) (auto simp: drop_id_def)

lemma set_qty_other: "oid \<notin> set (order_ids xs) \<Longrightarrow> set_qty oid q xs = xs"
  by (induction xs) (auto simp: set_qty_def)

lemma anon_filter:
  "anon_book (ab_map (drop_id oid) b) =
     ab_map (filter (\<lambda>y. me_client_order_id y \<noteq> oid)) (anon_book b)"
  by (simp add: anon_book_def ab_map_def filter_map comp_def drop_id_def)

lemma anon_map:
  "anon_book (ab_map (set_qty oid q) b) =
     ab_map (map (\<lambda>y. if me_client_order_id y = oid then y\<lparr>me_qty := q\<rparr> else y)) (anon_book b)"
  by (simp add: anon_book_def ab_map_def anon_qty set_qty_def)

section \<open>Single updates\<close>

lemma mirror_update:
  assumes "mb_apply b u = Inr b1" and "mu_type u \<noteq> TRADE" and "mirrors tid b1 ab"
  shows "\<exists>b'. mb_update b u = Inr b' \<and> mirrors tid b' ab"
proof -
  from assms(3) have "book_rep (emb b1) (anon_book ab)" "mb_ticker_id b1 = tid" by (simp_all add: mirrors_def)
  with mb_updateBBO_ok [OF this(1), of "bid_updated b u" "ask_updated b u"] assms(1,2) show ?thesis
    by (auto simp: mb_update_def mirrors_def)
qed

lemma mirror_trade: "mu_type u = TRADE \<Longrightarrow> mb_update b u = Inr b"
  by (simp add: mb_update_def)

lemma mirror_cancel:
  assumes m: "mirrors tid b ab" and u: "mu_type u = CANCEL" "mu_order_id u = me_market_order_id x"
    and x: "x \<in> set (ab_orders ab)" "unat (me_market_order_id x) < ME_MAX_ORDER_IDS"
  shows "\<exists>b'. mb_update b u = Inr b' \<and> mirrors tid b' (ab_map (drop_id (me_market_order_id x)) ab)"
proof -
  have "anon x \<in> set (ab_orders (anon_book ab))" using x(1) by simp
  with mb_apply_cancel [of b "anon_book ab" u "anon x"] m u x(2) obtain b1 where
    "mb_apply b u = Inr b1" "mb_ticker_id b1 = mb_ticker_id b"
    "book_rep (emb b1) (ab_map (filter (\<lambda>y. me_client_order_id y \<noteq> mu_order_id u)) (anon_book ab))"
    by (auto simp: mirrors_def)
  then have "mirrors tid b1 (ab_map (drop_id (me_market_order_id x)) ab)"
    using m u(2) by (simp add: mirrors_def anon_filter)
  from mirror_update [OF \<open>mb_apply b u = Inr b1\<close> _ this] u(1) show ?thesis by simp
qed

lemma mirror_modify:
  assumes m: "mirrors tid b ab" and u: "mu_type u = MODIFY" "mu_order_id u = me_market_order_id x"
    and x: "x \<in> set (ab_orders ab)" "unat (me_market_order_id x) < ME_MAX_ORDER_IDS"
  shows "\<exists>b'. mb_update b u = Inr b' \<and>
    mirrors tid b' (ab_map (set_qty (me_market_order_id x) (mu_qty u)) ab)"
proof -
  have "anon x \<in> set (ab_orders (anon_book ab))" using x(1) by simp
  with mb_apply_modify [of b "anon_book ab" u "anon x"] m u x(2) obtain b1 where
    "mb_apply b u = Inr b1" "mb_ticker_id b1 = mb_ticker_id b"
    "book_rep (emb b1) (ab_map (map (\<lambda>y. if me_client_order_id y = mu_order_id u then y\<lparr>me_qty := mu_qty u\<rparr> else y)) (anon_book ab))"
    by (auto simp: mirrors_def)
  then have "mirrors tid b1 (ab_map (set_qty (me_market_order_id x) (mu_qty u)) ab)"
    using m u(2) by (simp add: mirrors_def anon_map)
  from mirror_update [OF \<open>mb_apply b u = Inr b1\<close> _ this] u(1) show ?thesis by simp
qed

section \<open>A match\<close>

text \<open>The book with one side replaced, seen through the two operations.\<close>

lemma map_other_side:
  assumes "s \<in> {BUY, SELL}" and "f (ab_side b (opp s)) = ab_side b (opp s)"
  shows "ab_map f (ab_set_side b s xs) = ab_set_side b s (f xs)"
  using assms by (auto simp: ab_map_def ab_set_side_def ab_side_def)

lemma listed_head:
  assumes "listed tid (n # xs @ ys)"
  shows "drop_id (me_market_order_id n) (n # xs) = xs" "drop_id (me_market_order_id n) ys = ys"
    and "set_qty (me_market_order_id n) q (n # xs) = n\<lparr>me_qty := q\<rparr> # xs" "set_qty (me_market_order_id n) q ys = ys"
proof -
  have no: "me_market_order_id n \<notin> set (order_ids xs)" "me_market_order_id n \<notin> set (order_ids ys)"
    using assms by (auto simp: listed_def)
  show "drop_id (me_market_order_id n) (n # xs) = xs" "drop_id (me_market_order_id n) ys = ys"
    using drop_id_other [OF no(1)] drop_id_other [OF no(2)] by (simp_all add: drop_id_def)
  show "set_qty (me_market_order_id n) q (n # xs) = n\<lparr>me_qty := q\<rparr> # xs" "set_qty (me_market_order_id n) q ys = ys"
    using set_qty_other [OF no(1)] set_qty_other [OF no(2)] by (simp_all add: set_qty_def)
qed

lemma match_mirror:
  assumes "a_match g q xs = (ns, leaves, rs, us)" and "listed (ag_ticker g) (xs @ ab_side ab (opp s))"
    and "mirrors (ag_ticker g) b (ab_set_side ab s xs)" and "s \<in> {BUY, SELL}"
  shows "\<exists>b'. mb_updates b us = Inr b' \<and> mirrors (ag_ticker g) b' (ab_set_side ab s ns)"
  using assms
proof (induction g q xs arbitrary: ns leaves rs us b rule: a_match.induct)
  case (1 g q)
  then show ?case by auto
next
  case (2 g q n xs)
  let ?ab = "ab_set_side ab s (n # xs)" and ?tid = "ag_ticker g"
  note s = "2.prems"(4)
  have l: "listed ?tid (n # xs @ ab_side ab (opp s))" using "2.prems"(2) by simp
  have n: "n \<in> set (ab_orders ?ab)" "unat (me_market_order_id n) < ME_MAX_ORDER_IDS"
    using s l by (auto simp: ab_orders_def ab_set_side_def listed_def)
  consider (stop) "q = 0 \<or> \<not> crosses (ag_side g) (ag_price g) (me_price n)"
    | (part) "\<not> (q = 0 \<or> \<not> crosses (ag_side g) (ag_price g) (me_price n))" "q < me_qty n"
    | (full) "\<not> (q = 0 \<or> \<not> crosses (ag_side g) (ag_price g) (me_price n))" "\<not> q < me_qty n"
    by blast
  then show ?case
  proof cases
    case stop
    with "2.prems" show ?thesis by auto
  next
    case part
    then have r: "ns = n\<lparr>me_qty := me_qty n - q\<rparr> # xs" "us = [trade_update g n q, passive_update g n q]"
      using "2.prems"(1) by auto
    have "q \<noteq> me_qty n" using part(2) by auto
    then have u: "mu_type (passive_update g n q) = MODIFY" "mu_order_id (passive_update g n q) = me_market_order_id n"
      "mu_qty (passive_update g n q) = me_qty n - q" by (auto simp: passive_update_def)
    from mirror_modify [OF "2.prems"(3) u(1,2) n] obtain b' where "mb_update b (passive_update g n q) = Inr b'"
      "mirrors ?tid b' (ab_map (set_qty (me_market_order_id n) (me_qty n - q)) ?ab)"
      unfolding u(3) by blast
    then show ?thesis
      using r map_other_side [OF s, of "set_qty (me_market_order_id n) (me_qty n - q)" ab "n # xs"] listed_head(3,4) [OF l]
      by (simp add: mirror_trade trade_update_def)
  next
    case full
    obtain ns' q' rs' us' where m: "a_match g (q - me_qty n) xs = (ns', q', rs', us')" by (metis prod.collapse)
    with full "2.prems"(1) have r: "ns = ns'"
      "us = trade_update g n (me_qty n) # passive_update g n (me_qty n) # us'" by auto
    from mirror_cancel [OF "2.prems"(3) passive_cancel(1,2) n] obtain b1 where
      b1: "mb_update b (passive_update g n (me_qty n)) = Inr b1"
      "mirrors ?tid b1 (ab_map (drop_id (me_market_order_id n)) ?ab)" by blast
    then have "mirrors ?tid b1 (ab_set_side ab s xs)"
      using map_other_side [OF s, of "drop_id (me_market_order_id n)" ab "n # xs"] listed_head(1,2) [OF l] by simp
    moreover have "listed ?tid (xs @ ab_side ab (opp s))" using listed_Cons [OF l] by simp
    ultimately obtain b' where "mb_updates b1 us' = Inr b'" "mirrors ?tid b' (ab_set_side ab s ns')"
      using "2.IH" [OF full m _ _ s] by blast
    then show ?thesis using r b1(1) by (simp add: mirror_trade trade_update_def)
  qed
qed

section \<open>A request\<close>

lemma anon_levels [simp]: "levels (anon_book b) = levels b"
  by (simp add: levels_def anon_book_def image_image)

lemma anon_place_ok:
  assumes "place_ok b cid oid side price" and "unat mid < ME_MAX_ORDER_IDS" and "mid \<notin> set (order_ids (ab_orders b))"
  shows "place_ok (anon_book b) 0 mid side price"
  using assms by (auto simp: place_ok_def price_clear_def is_order_def ME_MAX_NUM_CLIENTS_def image_image)

lemma anon_insert: "map anon (a_insert s n xs) = a_insert s (anon n) (map anon xs)"
  by (simp add: a_insert_def takeWhile_map dropWhile_map comp_def)

lemma anon_set_side: "anon_book (ab_set_side b s xs) = ab_set_side (anon_book b) s (map anon xs)"
  by (simp add: anon_book_def ab_set_side_def)

lemma add_mirror:
  assumes b: "book_listed tid ab" and ok: "add_ok ab cid oid side price" and room: "unat (ab_next_id ab) < ME_MAX_ORDER_IDS"
    and r: "a_add ab cid oid tid side price qty = (ab', rs, us)" and m: "mirrors tid b ab"
  shows "\<exists>b'. mb_updates b us = Inr b' \<and> mirrors tid b' ab'"
proof -
  have s: "side \<in> {BUY, SELL}" using ok by (simp add: add_ok_def)
  let ?own = "ab_side ab side" and ?oth = "ab_side ab (opp side)"
  obtain ns leaves rs' us' where a: "a_match \<lparr>ag_ticker = tid, ag_client = cid, ag_order = oid,
      ag_market = ucast (ucast (ab_next_id ab) :: Qty), ag_side = side, ag_price = price\<rparr> qty ?oth = (ns, leaves, rs', us')"
    by (metis prod.collapse)
  define b1 where "b1 = (ab_set_side ab (opp side) ns)\<lparr>ab_next_id := ab_next_id ab + 1\<rparr>"
  define n where "n = \<lparr>me_ticker_id = tid, me_client_id = cid, me_client_order_id = oid,
    me_market_order_id = ab_next_id ab, me_side = side, me_price = price, me_qty = leaves,
    me_priority = a_priority price ?own, me_prev_order = None, me_next_order = None\<rparr>"
  note b1 = ab_after_match [OF s b1_def]
  have out: "ab' = (if leaves = 0 then b1 else ab_set_side b1 side (a_insert side n ?own))"
    "us = (if leaves = 0 then us' else us' @ [add_update n])"
    using a_add_unfold(1,2) [OF a b1_def n_def] r by simp_all
  have opp: "opp side \<in> {BUY, SELL}" "opp (opp side) = side" using opp_neq [OF s] s by (auto simp: opp_def)
  have l: "listed tid (?oth @ ?own)" using listed_perm [OF orders_by_side [OF s, of ab], of tid] b by (simp add: book_listed_def)
  have same: "ab_set_side ab (opp side) ?oth = ab" using opp(1) by (auto simp: ab_set_side_def ab_side_def)
  obtain c where c: "mb_updates b us' = Inr c" "mirrors tid c b1"
    using match_mirror [OF a, of ab "opp side" b] l m same opp by (auto simp: mirrors_def b1_def)
  show ?thesis
  proof (cases "leaves = 0")
    case True
    with c out show ?thesis by auto
  next
    case False
    have old: "me_market_order_id x < ab_next_id ab" if "x \<in> set (ab_orders b1)" for x
    proof -
      have "\<forall>x\<in>set (?oth @ ?own). me_market_order_id x < ab_next_id ab"
        using b ids_ok_sides [OF s, of ab] by (auto simp: book_listed_def abook_inv_def)
      moreover have "\<forall>y\<in>set ns. \<exists>x\<in>set ?oth. \<exists>k. y = x\<lparr>me_qty := k\<rparr>" using a_match_sub [OF a] by simp
      moreover have "set (ab_orders b1) = set (ns @ ?own)"
        using mset_eq_setD [OF orders_by_side [OF s, of b1]] b1 by simp
      ultimately show ?thesis using that by fastforce
    qed
    then have fresh: "ab_next_id ab \<notin> set (order_ids (ab_orders b1))" by fastforce
    have "best_first (opp side) ?oth" using b side_inv_best_first [OF _ opp(1)] by (simp add: book_listed_def)
    then have ok1: "place_ok (anon_book b1) 0 (ab_next_id ab) side price"
      by (intro anon_place_ok [OF place_ok_after_match [OF ok a _ _ False _ b1(1,2)] room fresh]) simp_all
    have u: "mu_type (add_update n) = ADD" "mu_ticker_id (add_update n) = tid" "mu_side (add_update n) = side"
      "mu_price (add_update n) = price" "mu_order_id (add_update n) = ab_next_id ab" by (simp_all add: add_update_def n_def)
    have n: "update_order (add_update n) = anon n" by (simp add: update_order_def add_update_def n_def anon_def)
    from mb_apply_add [of c "anon_book b1" "add_update n"] c(2) ok1 u obtain d where
      "mb_apply c (add_update n) = Inr d" "mb_ticker_id d = mb_ticker_id c"
      "book_rep (emb d) (ab_set_side (anon_book b1) side (a_insert side (anon n) (ab_side (anon_book b1) side)))"
      by (auto simp: mirrors_def n)
    then have "mirrors tid d ab'"
      using c(2) out(1) False b1(1) by (simp add: mirrors_def anon_set_side anon_insert)
    from mirror_update [OF \<open>mb_apply c (add_update n) = Inr d\<close> _ this] u(1) c(1) out(2) False show ?thesis
      by (auto simp: mb_updates_append)
  qed
qed

lemma cancel_mirror:
  assumes b: "book_listed tid ab" and r: "a_cancel ab cid oid tid = (ab', rs, us)" and m: "mirrors tid b ab"
  shows "\<exists>b'. mb_updates b us = Inr b' \<and> mirrors tid b' ab'"
proof (cases "List.find (is_order cid oid) (ab_orders ab)")
  case None
  then show ?thesis using r m by (auto simp: a_cancel_def)
next
  case (Some n)
  have n: "n \<in> set (ab_orders ab)" "is_order cid oid n" using Some by (auto simp: find_Some_iff)
  have k: "distinct (map order_key (ab_orders ab))" and i: "distinct (order_ids (ab_orders ab))"
    using b by (simp_all add: book_listed_def abook_inv_def ids_ok_def)
  have only: "is_order cid oid y \<longleftrightarrow> y = n" if "y \<in> set (ab_orders ab)" for y
    using k n that by (metis is_order_key distinct_map inj_on_eq_iff)
  have "filter (\<lambda>y. \<not> is_order cid oid y) xs = drop_id (me_market_order_id n) xs" if "set xs \<subseteq> set (ab_orders ab)" for xs
    unfolding drop_id_def
  proof (rule filter_cong [OF refl])
    fix y assume "y \<in> set xs"
    then have y: "y \<in> set (ab_orders ab)" using that by blast
    then show "(\<not> is_order cid oid y) = (me_market_order_id y \<noteq> me_market_order_id n)"
      using only [OF y] i n(1) by (metis distinct_map inj_on_eq_iff)
  qed
  then have ab': "ab' = ab_map (drop_id (me_market_order_id n)) ab"
    using r Some by (auto simp: a_cancel_def ab_map_def ab_orders_def)
  have us: "us = [\<lparr>mu_type = CANCEL, mu_order_id = me_market_order_id n, mu_ticker_id = tid,
       mu_side = me_side n, mu_price = me_price n, mu_qty = 0, mu_priority = me_priority n\<rparr>]"
    using r Some by (auto simp: a_cancel_def)
  have "unat (me_market_order_id n) < ME_MAX_ORDER_IDS" using b n(1) by (simp add: book_listed_def listed_def)
  from mirror_cancel [OF m _ _ n(1) this, of "hd us"] us ab' show ?thesis by auto
qed

section \<open>The books of all tickers\<close>

text \<open>The client dispatches an update to the book of its ticker.\<close>

fun client_updates :: "(nat \<Rightarrow> MarketOrderBook) \<Rightarrow> MEMarketUpdate list \<Rightarrow> (nat \<Rightarrow> MarketOrderBook) result" where
  "client_updates books [] = Inr books"
| "client_updates books (u # us) =
     andThen (mb_update (books (unat (mu_ticker_id u))) u) (\<lambda>b. client_updates (books(unat (mu_ticker_id u) := b)) us)"

lemma client_updates_append:
  "client_updates books (us @ vs) = andThen (client_updates books us) (\<lambda>books1. client_updates books1 vs)"
  by (induction us arbitrary: books) (simp_all add: andThen_assoc)

lemma client_updates_one:
  assumes "mb_updates (books (unat tid)) us = Inr b" and "\<forall>u\<in>set us. mu_ticker_id u = tid"
  shows "client_updates books us = Inr (books(unat tid := b))"
  using assms
proof (induction us arbitrary: books)
  case (Cons u us)
  then obtain b1 where b1: "mb_update (books (unat tid)) u = Inr b1" "mb_updates b1 us = Inr b"
    by (auto simp: result_simps)
  have "client_updates (books(unat tid := b1)) us = Inr ((books(unat tid := b1))(unat tid := b))"
    by (rule Cons.IH) (use b1 Cons.prems(2) in simp_all)
  then show ?case using b1(1) Cons.prems(2) by (simp only: client_updates.simps andThen.simps list.set_intros fun_upd_upd)
qed (auto simp: fun_eq_iff)

lemma match_tickers:
  "a_match g q xs = (ns, leaves, rs, us) \<Longrightarrow> \<forall>u\<in>set us. mu_ticker_id u = ag_ticker g"
proof (induction g q xs arbitrary: ns leaves rs us rule: a_match.induct)
  case (2 g q n xs)
  obtain ns' q' rs' us' where m: "a_match g (q - me_qty n) xs = (ns', q', rs', us')" by (metis prod.collapse)
  show ?case using 2 m by (auto simp: trade_update_def passive_update_def split: if_splits)
qed auto

lemma add_tickers: "a_add b cid oid tid side price qty = (b', rs, us) \<Longrightarrow> \<forall>u\<in>set us. mu_ticker_id u = tid"
proof -
  assume r: "a_add b cid oid tid side price qty = (b', rs, us)"
  let ?g = "\<lparr>ag_ticker = tid, ag_client = cid, ag_order = oid, ag_market = ucast (ucast (ab_next_id b) :: Qty),
    ag_side = side, ag_price = price\<rparr>"
  obtain ns leaves rs' us' where a: "a_match ?g qty (ab_side b (opp side)) = (ns, leaves, rs', us')" by (metis prod.collapse)
  from match_tickers [OF a] r show ?thesis by (auto simp: a_add_def Let_def a add_update_def split: if_splits)
qed

lemma cancel_tickers: "a_cancel b cid oid tid = (b', rs, us) \<Longrightarrow> \<forall>u\<in>set us. mu_ticker_id u = tid"
  by (auto simp: a_cancel_def split: option.splits)

definition client_mirrors :: "(nat \<Rightarrow> MarketOrderBook) \<Rightarrow> aengine \<Rightarrow> bool" where
  "client_mirrors books e \<longleftrightarrow> (\<forall>t<ME_MAX_TICKERS. mirrors (of_nat t) (books t) (e t))"

lemma request_mirror:
  assumes "eng_listed e" and "ae_ok e r" and room: "rq_type r = Request_NEW \<longrightarrow> unat (ab_next_id (e (unat (rq_ticker_id r)))) < ME_MAX_ORDER_IDS"
    and "ae_request e r = (e', rs, us)" and "client_mirrors books e"
  shows "\<exists>books'. client_updates books us = Inr books' \<and> client_mirrors books' e'"
proof -
  let ?tid = "rq_ticker_id r" let ?t = "unat ?tid"
  have t: "?t < ME_MAX_TICKERS" and ok: "request_ok (e ?t) r" using assms(2) by (simp_all add: ae_ok_def)
  have tt: "of_nat ?t = ?tid" by simp
  have b: "book_listed ?tid (e ?t)" using assms(1) t unfolding eng_listed_def by (metis tt)
  have m: "mirrors ?tid (books ?t) (e ?t)" using assms(5) t unfolding client_mirrors_def by (metis tt)
  obtain b' where b': "a_request (e ?t) r = (b', rs, us)" "e' = e(?t := b')"
    using assms(4) by (auto simp: ae_request_def Let_def split_def prod_eq_iff)
  have "(\<exists>c. mb_updates (books ?t) us = Inr c \<and> mirrors ?tid c b') \<and> (\<forall>u\<in>set us. mu_ticker_id u = ?tid)"
  proof (cases "rq_type r")
    case Request_NEW
    then have a: "a_add (e ?t) (rq_client_id r) (rq_order_id r) ?tid (rq_side r) (rq_price r) (rq_qty r) = (b', rs, us)"
      and ok1: "add_ok (e ?t) (rq_client_id r) (rq_order_id r) (rq_side r) (rq_price r)"
      using b'(1) ok by (simp_all add: a_request_def request_ok_def)
    show ?thesis using add_mirror [OF b ok1 _ a m] add_tickers [OF a] room Request_NEW by simp
  next
    case Request_CANCEL
    then have a: "a_cancel (e ?t) (rq_client_id r) (rq_order_id r) ?tid = (b', rs, us)"
      using b'(1) by (simp add: a_request_def)
    show ?thesis using cancel_mirror [OF b a m] cancel_tickers [OF a] by simp
  next
    case Request_INVALID
    then show ?thesis using ok by (simp add: request_ok_def)
  qed
  then obtain c where c: "mb_updates (books ?t) us = Inr c" "mirrors ?tid c b'" "\<forall>u\<in>set us. mu_ticker_id u = ?tid" by blast
  have "client_mirrors (books(?t := c)) e'"
    using assms(5) c(2) b'(2) tt by (auto simp: client_mirrors_def)
  with client_updates_one [of books ?tid us c] c(1,3) show ?thesis by blast
qed

lemma requests_mirror:
  assumes "eng_listed e" and "ae_oks e rs" and "ae_room e rs" and "ae_requests e rs = (e', resps, us)"
    and "client_mirrors books e"
  shows "\<exists>books'. client_updates books us = Inr books' \<and> client_mirrors books' e'"
  using assms
proof (induction rs arbitrary: e e' resps us books)
  case (Cons r rs)
  obtain e1 o1 u1 where 1: "ae_request e r = (e1, o1, u1)" by (metis prod.collapse)
  obtain e2 o2 u2 where 2: "ae_requests e1 rs = (e2, o2, u2)" by (metis prod.collapse)
  have out: "e' = e2" "us = u1 @ u2" using Cons.prems(4) 1 2 by auto
  have l: "eng_listed e1" using ae_request_replay [OF Cons.prems(1) _ _ 1] Cons.prems(2,3) by simp
  from request_mirror [OF Cons.prems(1) _ _ 1 Cons.prems(5)] Cons.prems(2,3) obtain books1 where
    b1: "client_updates books u1 = Inr books1" "client_mirrors books1 e1" by auto
  from Cons.IH [OF l _ _ 2 b1(2)] Cons.prems(2,3) 1 obtain books2 where
    "client_updates books1 u2 = Inr books2" "client_mirrors books2 e2" by auto
  with b1 out show ?case by (simp add: client_updates_append)
qed simp

lemma mirrors_new: "mirrors t (MarketOrderBook_new t (\<lambda>_. None) (\<lambda>_. None)) empty_abook"
  using mbook_new_rep [of t]
  by (simp add: mirrors_def anon_book_def empty_abook_def) (simp add: MarketOrderBook_new_def)

section \<open>Properties\<close>

text \<open>The client's books are the exchange's books. When the matching engine has worked off the waiting
  requests, its queue of market updates has grown by some updates; a client whose books mirrored the
  engine's before and that processes these updates in order does so without a fault, and its books
  mirror the engine's again: for every ticker the same orders on the same side in the same order of
  price and time, with the same identifiers, prices, quantities and priorities.\<close>

theorem client_books_mirror:
  assumes "eng_rep eng e" and "eng_listed e" and "q_inv (incoming_requests eng)" and "eng_run eng"
    and "q_contents (incoming_requests eng) = rs" and "ae_oks e rs" and "ae_room e rs" and "client_mirrors books e"
  shows "\<exists>eng' e' us books'. run (length rs) eng = Inr eng' \<and> eng_rep eng' e' \<and>
    mq_md_updates (eng_queues eng') = q_pushes (mq_md_updates (eng_queues eng)) us \<and>
    client_updates books us = Inr books' \<and> client_mirrors books' e'"
proof -
  obtain e' resps us where r: "ae_requests e rs = (e', resps, us)" by (metis prod.collapse)
  from run_refines [OF assms(1,3-6)] r obtain eng' where
    "run (length rs) eng = Inr eng'" "eng_rep eng' e'" "eng_queues eng' = send (eng_queues eng) (resps, us)" by auto
  with requests_mirror [OF assms(2,6,7) r assms(8)] show ?thesis by (auto simp: send_def)
qed

definition empty_books :: "nat \<Rightarrow> MarketOrderBook" where
  "empty_books t = MarketOrderBook_new (of_nat t) (\<lambda>_. None) (\<lambda>_. None)"

lemma client_mirrors_new: "client_mirrors empty_books (\<lambda>_. empty_abook)"
  using mirrors_new by (simp add: client_mirrors_def empty_books_def)

theorem client_books_mirror_witness:
  "\<exists>eng' e' us books'. run 1 demo_exchange_engine = Inr eng' \<and>
    client_updates empty_books us = Inr books' \<and> client_mirrors books' e' \<and> eng_rep eng' e'"
proof -
  have i: "eng_rep demo_exchange_engine (\<lambda>_. empty_abook)" "q_inv (incoming_requests demo_exchange_engine)"
    "eng_run demo_exchange_engine"
    using demo_in_step(1) by (simp_all add: in_step_def)
  from client_books_mirror [OF i(1) eng_listed_new i(2,3) demo_in_step(2) demo_new_ok client_mirrors_new]
  show ?thesis by fastforce
qed

end
