(* ===== verification/Client_BBO.thy ===== *)
theory Client_BBO
  imports Market_Book_Refine
begin

text \<open>
  The summary of the best prices that the client's book keeps: when it is right, and how it can be left
  behind.
\<close>

section \<open>The specification of an update\<close>

definition c_apply :: "abook \<Rightarrow> MEMarketUpdate \<Rightarrow> abook" where
  "c_apply ab u =
     (if mu_type u = ADD then ab_set_side ab (mu_side u) (a_insert (mu_side u) (update_order u) (ab_side ab (mu_side u)))
      else if mu_type u = MODIFY then
        ab_map (map (\<lambda>x. if me_client_order_id x = mu_order_id u then x\<lparr>me_qty := mu_qty u\<rparr> else x)) ab
      else ab_map (filter (\<lambda>x. me_client_order_id x \<noteq> mu_order_id u)) ab)"

text \<open>
  The updates that make sense: an order that fits, or a change or removal of an order that is in the
  book, on the side and at the price that the update says.
\<close>

definition c_fits :: "TickerId \<Rightarrow> abook \<Rightarrow> MEMarketUpdate \<Rightarrow> bool" where
  "c_fits tid ab u \<longleftrightarrow>
     (mu_type u = ADD \<and> place_ok ab 0 (mu_order_id u) (mu_side u) (mu_price u) \<and> mu_ticker_id u = tid) \<or>
     (mu_type u \<in> {MODIFY, CANCEL} \<and> mu_side u \<in> {BUY, SELL} \<and> unat (mu_order_id u) < ME_MAX_ORDER_IDS \<and>
      (\<exists>x\<in>set (ab_side ab (mu_side u)). me_client_order_id x = mu_order_id u \<and> me_price x = mu_price u))"

lemma c_fits_side: "c_fits tid ab u \<Longrightarrow> mu_side u \<in> {BUY, SELL}"
  by (auto simp: c_fits_def place_ok_def)

lemma mb_apply_ok:
  assumes rep: "book_rep (emb b) ab" and f: "c_fits (mb_ticker_id b) ab u"
  shows "\<exists>b'. mb_apply b u = Inr b' \<and> mb_ticker_id b' = mb_ticker_id b \<and> mb_bbo b' = mb_bbo b \<and>
    book_rep (emb b') (c_apply ab u)"
proof -
  have sub: "x \<in> set (ab_orders ab)" if "x \<in> set (ab_side ab s)" for x s
    using that by (auto simp: ab_side_def ab_orders_def split: if_splits)
  consider (add) "mu_type u = ADD" | (modify) "mu_type u = MODIFY" | (cancel) "mu_type u = CANCEL"
    using f by (auto simp: c_fits_def)
  then show ?thesis
  proof cases
    case add
    then show ?thesis using mb_apply_add [OF rep, of u] f by (auto simp: c_fits_def c_apply_def)
  next
    case modify
    then obtain x where "x \<in> set (ab_orders ab)" "me_client_order_id x = mu_order_id u" "unat (mu_order_id u) < ME_MAX_ORDER_IDS"
      using f sub by (auto simp: c_fits_def)
    with mb_apply_modify [OF rep modify, of x] modify show ?thesis by (auto simp: c_apply_def)
  next
    case cancel
    then obtain x where "x \<in> set (ab_orders ab)" "me_client_order_id x = mu_order_id u" "unat (mu_order_id u) < ME_MAX_ORDER_IDS"
      using f sub by (auto simp: c_fits_def)
    with mb_apply_cancel [OF rep cancel, of x] cancel show ?thesis by (auto simp: c_apply_def)
  qed
qed

text \<open>No two orders of the book share an identifier.\<close>

lemma rep_distinct:
  assumes "book_rep (emb b) ab"
  shows "distinct (map me_client_order_id (ab_orders ab))"
proof -
  from assms obtain sh where inv: "book_inv {} (emb b) sh" and ab: "ab = book_abs (emb b) sh"
    unfolding book_rep_def by blast
  let ?oo = "mp_obj (ob_order_pool (emb b))" and ?ps = "set (order_ptrs sh)"
  have t: "order_table_ok ?oo (ob_cid_oid_to_order (emb b)) ?ps" by (rule book_invD(4) [OF inv])
  have "p = q" if "p \<in> ?ps" "q \<in> ?ps" "me_client_order_id (?oo p) = me_client_order_id (?oo q)" for p q
  proof -
    have "ob_cid_oid_to_order (emb b) 0 (unat (me_client_order_id (?oo p))) = Some p"
      "ob_cid_oid_to_order (emb b) 0 (unat (me_client_order_id (?oo p))) = Some q"
      using t that by (simp_all add: order_table_ok_def ME_MAX_NUM_CLIENTS_def)
    then show ?thesis by simp
  qed
  moreover have "distinct (order_ptrs sh)" using book_invD(1) [OF inv] by (simp add: pools_ok_def)
  ultimately have "distinct (map (me_client_order_id \<circ> ?oo) (order_ptrs sh))"
    by (auto simp: distinct_map inj_on_def)
  moreover have "map me_client_order_id (ab_orders ab) = map (me_client_order_id \<circ> ?oo) (order_ptrs sh)"
    by (simp add: ab ab_orders_def book_abs_def abs_orders_def order_ptrs_def)
  ultimately show ?thesis by simp
qed

section \<open>Sides that an update leaves alone\<close>

lemma filter_insert: "\<not> P n \<Longrightarrow> filter P (a_insert s n xs) = filter P xs"
  unfolding a_insert_def by (simp, metis filter_append takeWhile_dropWhile_id)

lemma best_insert:
  assumes "better s (me_price x) (me_price n)"
  shows "best_of (a_insert s n (x # xs)) = best_of (x # xs)"
proof -
  have "\<not> better s (me_price n) (me_price x)" "me_price n \<noteq> me_price x"
    using assms by (auto simp: better_def split: if_splits)
  moreover from this have "\<exists>ys. a_insert s n (x # xs) = x # ys" by (simp add: a_insert_def)
  ultimately show ?thesis
    using filter_insert [of "\<lambda>y. me_price y = me_price x" n s "x # xs"] by (auto simp: best_of_def)
qed

lemma best_map:
  assumes "\<And>y. y \<in> set (x # xs) \<Longrightarrow> me_price y = me_price x \<Longrightarrow> f y = y" and "\<And>y. me_price (f y) = me_price y"
  shows "best_of (map f (x # xs)) = best_of (x # xs)"
proof -
  have "map f (filter (\<lambda>y. me_price y = me_price x) (x # xs)) = filter (\<lambda>y. me_price y = me_price x) (x # xs)"
    using assms(1) by (intro map_idI) auto
  then have "map me_qty (filter (\<lambda>y. me_price y = me_price x) (map f (x # xs))) =
      map me_qty (filter (\<lambda>y. me_price y = me_price x) (x # xs))"
    using assms(2) by (simp add: filter_map comp_def del: filter.simps list.map(2))
  moreover have "me_price (f x) = me_price x" by (rule assms(2))
  ultimately show ?thesis by (simp add: best_of_def del: filter.simps)
qed

lemma best_filter:
  assumes "\<And>y. y \<in> set (x # xs) \<Longrightarrow> me_price y = me_price x \<Longrightarrow> P y"
  shows "best_of (filter P (x # xs)) = best_of (x # xs)"
proof -
  have "P x" using assms [of x] by simp
  moreover have "filter (\<lambda>y. me_price y = me_price x) (filter P (x # xs)) = filter (\<lambda>y. me_price y = me_price x) (x # xs)"
    unfolding filter_filter by (rule filter_cong [OF refl]) (use assms in auto)
  ultimately show ?thesis by (auto simp: best_of_def)
qed

lemma best_price:
  assumes rep: "book_rep (emb b) ab" and s: "s \<in> {BUY, SELL}"
  shows "mb_side_head b s = None \<longleftrightarrow> ab_side ab s = []"
    and "mb_side_head b s = Some l \<Longrightarrow> mop_price (mp_obj (mb_orders_at_price_pool b) l) = me_price (hd (ab_side ab s))"
proof -
  from rep obtain sh where inv: "book_inv {} (emb b) sh" and ab: "ab = book_abs (emb b) sh"
    unfolding book_rep_def by blast
  show e: "mb_side_head b s = None \<longleftrightarrow> ab_side ab s = []"
    using best_order(1) [OF inv s] s by (simp add: ab ab_side_abs abs_orders_def)
  assume l: "mb_side_head b s = Some l"
  have "mb_best b (Some l) = Inr (best_of (ab_side ab s))" using mb_best_ok [OF rep s] l by simp
  then have "mop_price (mp_obj (mb_orders_at_price_pool b) l) = fst (best_of (ab_side ab s))"
    by (auto simp: mb_best_def Let_def result_simps) (metis fst_conv)
  with e l show "mop_price (mp_obj (mb_orders_at_price_pool b) l) = me_price (hd (ab_side ab s))"
    by (auto simp: best_of_def split: list.splits)
qed

definition side_updated :: "MarketOrderBook \<Rightarrow> MEMarketUpdate \<Rightarrow> Side \<Rightarrow> bool" where
  "side_updated b u s = (if s = BUY then bid_updated b u else ask_updated b u)"

lemma side_updated_iff:
  assumes "book_rep (emb b) ab" and s: "s \<in> {BUY, SELL}"
  shows "side_updated b u s \<longleftrightarrow> ab_side ab s \<noteq> [] \<and> mu_side u = s \<and> \<not> better s (me_price (hd (ab_side ab s))) (mu_price u)"
  using best_price [OF assms] s
  by (auto simp: side_updated_def bid_updated_def ask_updated_def mb_side_head_def better_def split: option.splits)

lemma side_kept:
  assumes rep: "book_rep (emb b) ab" and f: "c_fits (mb_ticker_id b) ab u" and s: "s \<in> {BUY, SELL}"
    and no: "\<not> side_updated b u s" and nonempty: "mu_type u = ADD \<and> s = mu_side u \<longrightarrow> ab_side ab s \<noteq> []"
  shows "best_of (ab_side (c_apply ab u) s) = best_of (ab_side ab s)"
proof (cases "s = mu_side u")
  case False
  show ?thesis
  proof (cases "mu_type u = ADD")
    case True
    with False s c_fits_side [OF f] show ?thesis by (simp add: c_apply_def)
  next
    case change: False
    then obtain x where x: "x \<in> set (ab_side ab (mu_side u))" "me_client_order_id x = mu_order_id u"
      using f by (auto simp: c_fits_def)
    have "distinct (map me_client_order_id (ab_side ab s @ ab_side ab (mu_side u)))"
      using rep_distinct [OF rep] False s c_fits_side [OF f] by (auto simp: ab_orders_def ab_side_def)
    then have "\<forall>y\<in>set (ab_side ab s). me_client_order_id y \<noteq> mu_order_id u" 
      using x by (simp add: disjoint_iff) (metis imageI)
    then have "map (\<lambda>x. if me_client_order_id x = mu_order_id u then x\<lparr>me_qty := mu_qty u\<rparr> else x) (ab_side ab s) = ab_side ab s"
      "filter (\<lambda>x. me_client_order_id x \<noteq> mu_order_id u) (ab_side ab s) = ab_side ab s"
      by (auto intro: map_idI simp: filter_id_conv)
    with change show ?thesis by (simp add: c_apply_def)
  qed
next
  case True
  have "ab_side ab s \<noteq> []" using nonempty f True by (cases "mu_type u = ADD") (auto simp: c_fits_def)
  then obtain y ys where ys: "ab_side ab s = y # ys" by (cases "ab_side ab s") auto
  have worse: "better s (me_price y) (mu_price u)" using no side_updated_iff [OF rep s, of u] True ys by simp
  show ?thesis
  proof (cases "mu_type u = ADD")
    case add: True
    with True s worse ys best_insert [of s y "update_order u" ys] show ?thesis
      by (simp add: c_apply_def update_order_def)
  next
    case change: False
    then obtain x where x: "x \<in> set (ab_side ab s)" "me_client_order_id x = mu_order_id u" "me_price x = mu_price u"
      using f True by (auto simp: c_fits_def)
    have "distinct (map me_client_order_id (ab_side ab s))"
      using rep_distinct [OF rep] by (auto simp: ab_orders_def ab_side_def split: if_splits)
    then have only: "z = x" if "z \<in> set (y # ys)" "me_client_order_id z = mu_order_id u" for z
      using that x ys by (metis distinct_map inj_on_eq_iff)
    have ne: "me_client_order_id z \<noteq> mu_order_id u" if "z \<in> set (y # ys)" "me_price z = me_price y" for z
      using only [OF that(1)] that(2) x(3) worse by (auto simp: better_def split: if_splits)
    have "best_of (map (\<lambda>x. if me_client_order_id x = mu_order_id u then x\<lparr>me_qty := mu_qty u\<rparr> else x) (y # ys)) = best_of (y # ys)"
      by (rule best_map) (use ne in auto)
    moreover have "best_of (filter (\<lambda>x. me_client_order_id x \<noteq> mu_order_id u) (y # ys)) = best_of (y # ys)"
      by (rule best_filter) (use ne in auto)
    ultimately show ?thesis using change ys by (simp add: c_apply_def)
  qed
qed

section \<open>Concrete updates\<close>

definition demo_mbook :: MarketOrderBook where
  "demo_mbook = MarketOrderBook_new 0 (\<lambda>_. None) (\<lambda>_. None)"

definition demo_first :: MEMarketUpdate where
  "demo_first = \<lparr>mu_type = ADD, mu_order_id = 1, mu_ticker_id = 0, mu_side = BUY, mu_price = 100, mu_qty = 5,
     mu_priority = 1\<rparr>"

definition demo_second :: MEMarketUpdate where
  "demo_second = demo_first\<lparr>mu_order_id := 2, mu_price := 99\<rparr>"

definition demo_clear :: MEMarketUpdate where
  "demo_clear = \<lparr>mu_type = CLEAR, mu_order_id = OrderId_INVALID, mu_ticker_id = 0, mu_side = Side_INVALID,
     mu_price = Price_INVALID, mu_qty = Qty_INVALID, mu_priority = Priority_INVALID\<rparr>"

text \<open>The loop of CLEAR over a table of orders without an entry.\<close>

lemma clear_none: "(\<And>i. i \<in> set ks \<Longrightarrow> f i = None) \<Longrightarrow> mb_clear_orders op (map f ks) = Inr op"
  by (induction ks) simp_all

lemmas mbook_steps = mb_apply_def allocate_def updateNextFreeIndex_def updateNextFreeIndex_loop_step next_index_def
  updateNextFreeIndex_loop_free ME_MAX_ORDER_IDS_def ME_MAX_PRICE_LEVELS_def Let_def mb_addOrder_def
  mb_getOrdersAtPrice_def mp_obj_def mo_set_prev_def mo_set_next_def mp_upd_def mb_addOrdersAtPrice_def
  priceToIndex_def mop_set_prev_def mop_set_next_def mb_side_head_def mb_set_side_head_def mb_set_oid_def
  mb_clear_def mb_clear_side_def mb_clear_levels.simps deallocate_def mb_addOrder_link_def

lemmas demo_mbook_defs = demo_mbook_def demo_first_def demo_clear_def MarketOrderBook_new_def MemPool_new_def

section \<open>Properties\<close>

definition bbo_right :: "MarketOrderBook \<Rightarrow> abook \<Rightarrow> bool" where
  "bbo_right b ab \<longleftrightarrow> side_summary (getBBO b) BUY = best_of (ab_bids ab) \<and> side_summary (getBBO b) SELL = best_of (ab_asks ab)"

text \<open>C31: The best bid and offer stay right. If the summary names, for each side, the price of its first
  order and the sum of the quantities at that price, then it does so after an update that makes
  sense, although the code only recomputes a side when the update is at its best price or better;
  the exception is the first order of a side that was empty.\<close>

theorem bbo_stays_right:
  assumes rep: "book_rep (emb b) ab" and right: "bbo_right b ab" and f: "c_fits (mb_ticker_id b) ab u"
    and nonempty: "mu_type u = ADD \<Longrightarrow> ab_side ab (mu_side u) \<noteq> []"
  shows "\<exists>b1 b'. mb_apply b u = Inr b1 \<and> mb_updateBBO b1 (bid_updated b u) (ask_updated b u) = Inr b' \<and>
    book_rep (emb b') (c_apply ab u) \<and> bbo_right b' (c_apply ab u)"
proof -
  from mb_apply_ok [OF rep f] obtain b1 where b1: "mb_apply b u = Inr b1" "mb_bbo b1 = mb_bbo b"
    "book_rep (emb b1) (c_apply ab u)" by blast
  from mb_updateBBO_ok [OF b1(3), of "bid_updated b u" "ask_updated b u"] obtain b' where
    b': "mb_updateBBO b1 (bid_updated b u) (ask_updated b u) = Inr b'" "emb b' = emb b1"
    "side_summary (mb_bbo b') BUY = (if bid_updated b u then best_of (ab_bids (c_apply ab u)) else side_summary (mb_bbo b1) BUY)"
    "side_summary (mb_bbo b') SELL = (if ask_updated b u then best_of (ab_asks (c_apply ab u)) else side_summary (mb_bbo b1) SELL)"
    by blast
  have "best_of (ab_bids (c_apply ab u)) = best_of (ab_bids ab)" if "\<not> bid_updated b u"
  proof -
    have "mu_type u = ADD \<and> BUY = mu_side u \<longrightarrow> ab_side ab BUY \<noteq> []" using nonempty by auto
    from side_kept [OF rep f _ _ this] that show ?thesis by (simp add: side_updated_def ab_side_def)
  qed
  moreover have "best_of (ab_asks (c_apply ab u)) = best_of (ab_asks ab)" if "\<not> ask_updated b u"
  proof -
    have "mu_type u = ADD \<and> SELL = mu_side u \<longrightarrow> ab_side ab SELL \<noteq> []" using nonempty by auto
    from side_kept [OF rep f _ _ this] that show ?thesis by (simp add: side_updated_def ab_side_def)
  qed
  ultimately have "bbo_right b' (c_apply ab u)"
    using right b'(3,4) b1(2) by (simp add: bbo_right_def getBBO_def split: if_splits)
  with b1 b' show ?thesis by auto
qed


definition demo_abook :: abook where
  "demo_abook = \<lparr>ab_bids = [update_order demo_first], ab_asks = [], ab_next_id = 1\<rparr>"

lemmas demo_updates = demo_second_def demo_first_def demo_abook_def update_order_def ab_side_def ab_set_side_def

lemma demo_first_applied: "c_apply \<lparr>ab_bids = [], ab_asks = [], ab_next_id = 1\<rparr> demo_first = demo_abook"
  by (simp add: demo_updates c_apply_def a_insert_def)

lemma demo_fits:
  "c_fits 0 \<lparr>ab_bids = [], ab_asks = [], ab_next_id = 1\<rparr> demo_first" "c_fits 0 demo_abook demo_second"
  by (simp_all add: demo_updates c_fits_def place_ok_def ab_orders_def is_order_def price_clear_def levels_def
      priceToIndex_def ME_MAX_NUM_CLIENTS_def ME_MAX_ORDER_IDS_def ME_MAX_PRICE_LEVELS_def)

lemma demo_rep: "\<exists>b. book_rep (emb b) demo_abook \<and> bbo_right b demo_abook \<and> mb_ticker_id b = 0"
proof -
  let ?b = "MarketOrderBook_new 0 (\<lambda>_. None) (\<lambda>_. None)"
  have "c_fits (mb_ticker_id ?b) \<lparr>ab_bids = [], ab_asks = [], ab_next_id = 1\<rparr> demo_first"
    using demo_fits(1) by (simp add: MarketOrderBook_new_def)
  from mb_apply_ok [OF mbook_new_rep this] obtain b1 where
    b1: "book_rep (emb b1) demo_abook" "mb_ticker_id b1 = 0"
    by (auto simp: demo_first_applied MarketOrderBook_new_def)
  from mb_updateBBO_ok [OF b1(1), of True True] obtain b' where
    b': "emb b' = emb b1" "bbo_right b' demo_abook" by (auto simp: bbo_right_def getBBO_def)
  moreover from b'(1) have "mb_ticker_id b' = mb_ticker_id b1" by (simp add: emb_def)
  ultimately show ?thesis using b1 by (intro exI [of _ b']) simp
qed

theorem bbo_stays_right_witness:
  "\<exists>b b1 b'. mb_apply b demo_second = Inr b1 \<and>
    mb_updateBBO b1 (bid_updated b demo_second) (ask_updated b demo_second) = Inr b' \<and>
    book_rep (emb b') (c_apply demo_abook demo_second) \<and> bbo_right b' (c_apply demo_abook demo_second)"
proof -
  from demo_rep obtain b where b: "book_rep (emb b) demo_abook" "bbo_right b demo_abook" "mb_ticker_id b = 0" by blast
  have "ab_side demo_abook (mu_side demo_second) \<noteq> []" by (simp add: demo_updates)
  with bbo_stays_right [OF b(1,2), of demo_second] demo_fits(2) b(3) show ?thesis by auto
qed

text \<open>The first order of an empty side is not shown. When the first bid arrives at a new book, the book
  takes it, but the summary keeps its invalid bid price and quantity: \<^verbatim>\<open>onMarketUpdate\<close> asks
  for a recomputation only when the side has a best level before the update.\<close>

theorem first_order_not_shown:
  "\<exists>b b'. mb_apply demo_mbook demo_first = Inr b \<and>
    mb_updateBBO b (bid_updated demo_mbook demo_first) (ask_updated demo_mbook demo_first) = Inr b' \<and>
    mb_bids_by_price b' \<noteq> None \<and> getBBO b' = BBO_default"
  by (simp add: demo_mbook_defs mbook_steps mb_updateBBO_def bid_updated_def ask_updated_def getBBO_def)

end
