(* ===== verification/Market_Data_Consumer.thy ===== *)
theory Market_Data_Consumer
  imports Snapshot_Synthesizer
begin

text \<open>
  The market data consumer of \<^verbatim>\<open>src/trading/market_data/market_data_consumer.h\<close> and
  \<^verbatim>\<open>market_data_consumer.cpp\<close>: it passes the incremental stream on to the trade engine as
  long as the numbers have no gap, and after a gap recovers from the snapshot stream.
\<close>

section \<open>The ordered map\<close>

text \<open>\<^verbatim>\<open>std::map\<close> as the list of its pairs in the order of the keys; \<^verbatim>\<open>m[k] = v\<close>.\<close>

fun map_put :: "'k :: linorder \<Rightarrow> 'v \<Rightarrow> ('k \<times> 'v) list \<Rightarrow> ('k \<times> 'v) list" where
  "map_put k v [] = [(k, v)]"
| "map_put k v ((k', v') # m) =
     (if k < k' then (k, v) # (k', v') # m
      else if k = k' then (k, v) # m
      else (k', v') # map_put k v m)"

lemma map_of_put: "map_of (map_put k v m) = (map_of m)(k \<mapsto> v)"
  by (induction m) (auto simp: fun_eq_iff)

lemma keys_put: "fst ` set (map_put k v m) = insert k (fst ` set m)"
  by (induction k v m rule: map_put.induct) (simp_all add: insert_commute)

lemma sorted_put: "sorted_wrt (<) (map fst m) \<Longrightarrow> sorted_wrt (<) (map fst (map_put k v m))"
proof (induction m)
  case (Cons p m)
  have "\<forall>x\<in>fst ` set (map_put k v m). fst p < x" if "\<not> k < fst p" "k \<noteq> fst p"
    using Cons.prems that unfolding keys_put by auto
  with Cons show ?case by (cases p) auto
qed simp

lemma put_last: "\<forall>x\<in>set (map fst m). x < k \<Longrightarrow> map_put k v m = m @ [(k, v)]"
  by (induction m) (auto simp: order.asym)

section \<open>The class\<close>

type_synonym QueuedMarketUpdates = "(SeqNum \<times> MEMarketUpdate) list"

record MarketDataConsumer =
  next_exp_inc_seq_num :: SeqNum
  incoming_md_updates :: MEMarketUpdateLFQueue
  mdc_run :: bool
  incremental_mcast_socket :: McastSocket
  snapshot_mcast_socket :: McastSocket
  snapshot_joined :: bool
  in_recovery :: bool
  snapshot_queued_msgs :: QueuedMarketUpdates
  incremental_queued_msgs :: QueuedMarketUpdates

definition MarketDataConsumer_new :: "MEMarketUpdateLFQueue \<Rightarrow> MarketDataConsumer" where
  "MarketDataConsumer_new market_updates =
     \<lparr>next_exp_inc_seq_num = 1, incoming_md_updates = market_updates, mdc_run = False,
      incremental_mcast_socket = McastSocket_new, snapshot_mcast_socket = McastSocket_new,
      snapshot_joined = False, in_recovery = False, snapshot_queued_msgs = [],
      incremental_queued_msgs = []\<rparr>"

text \<open>
  The thread that \<^verbatim>\<open>start\<close> creates is the result of a \<^verbatim>\<open>new\<close>, never null, so its assertion
  holds.
\<close>

definition mdc_start :: "MarketDataConsumer \<Rightarrow> MarketDataConsumer" where
  "mdc_start mdc = mdc\<lparr>mdc_run := True\<rparr>"

definition mdc_stop :: "MarketDataConsumer \<Rightarrow> MarketDataConsumer" where
  "mdc_stop mdc = mdc\<lparr>mdc_run := False\<rparr>"

text \<open>\<^verbatim>\<open>init\<close> and \<^verbatim>\<open>join\<close> are calls of the kernel; \<open>joins\<close> says whether they succeed.\<close>

definition startSnapshotSync :: "bool \<Rightarrow> MarketDataConsumer \<Rightarrow> MarketDataConsumer result" where
  "startSnapshotSync joins mdc =
     (let mdc1 = mdc\<lparr>snapshot_queued_msgs := [], incremental_queued_msgs := []\<rparr> in
      andThen (ASSERT joins ''Unable to create or join snapshot mcast socket.'') (\<lambda>_.
      Inr (mdc1\<lparr>snapshot_joined := True\<rparr>)))"

text \<open>The loop over the queued snapshot messages; \<open>None\<close> is a gap.\<close>

definition is_bound :: "MEMarketUpdate \<Rightarrow> bool" where
  "is_bound u \<longleftrightarrow> mu_type u = SNAPSHOT_START \<or> mu_type u = SNAPSHOT_END"

fun snapshot_scan :: "SeqNum \<Rightarrow> QueuedMarketUpdates \<Rightarrow> MEMarketUpdate list option" where
  "snapshot_scan next_snapshot_seq [] = Some []"
| "snapshot_scan next_snapshot_seq ((k, u) # m) =
     (if k \<noteq> next_snapshot_seq then None
      else map_option (\<lambda>es. if is_bound u then es else u # es) (snapshot_scan (next_snapshot_seq + 1) m))"

text \<open>
  The loop over the queued incremental messages: the next number, the events and whether there is
  no gap.
\<close>

fun incremental_scan :: "SeqNum \<Rightarrow> QueuedMarketUpdates \<Rightarrow> SeqNum \<times> MEMarketUpdate list \<times> bool" where
  "incremental_scan next_exp [] = (next_exp, [], True)"
| "incremental_scan next_exp ((k, u) # m) =
     (if k < next_exp then incremental_scan next_exp m
      else if k \<noteq> next_exp then (next_exp, [], False)
      else
        let (next_exp', es, complete) = incremental_scan (next_exp + 1) m in
        (next_exp', if is_bound u then es else u # es, complete))"

definition checkSnapshotSync :: "MarketDataConsumer \<Rightarrow> MarketDataConsumer" where
  "checkSnapshotSync mdc =
     (let msgs = snapshot_queued_msgs mdc in
      if msgs = [] then mdc
      else if mu_type (snd (hd msgs)) \<noteq> SNAPSHOT_START then mdc\<lparr>snapshot_queued_msgs := []\<rparr>
      else
        case snapshot_scan 0 msgs of
          None \<Rightarrow> mdc\<lparr>snapshot_queued_msgs := []\<rparr>
        | Some final_events \<Rightarrow>
            let last_snapshot_msg = snd (last msgs) in
            if mu_type last_snapshot_msg \<noteq> SNAPSHOT_END then mdc
            else
              let (next_exp, incs, have_complete_incremental) =
                    incremental_scan (mu_order_id last_snapshot_msg + 1) (incremental_queued_msgs mdc);
                  mdc1 = mdc\<lparr>next_exp_inc_seq_num := next_exp\<rparr> in
              if \<not> have_complete_incremental then mdc1\<lparr>snapshot_queued_msgs := []\<rparr>
              else mdc1\<lparr>incoming_md_updates := q_pushes (incoming_md_updates mdc1) (final_events @ incs),
                        snapshot_queued_msgs := [], incremental_queued_msgs := [], in_recovery := False,
                        snapshot_joined := False\<rparr>)"

definition queueMessage :: "MarketDataConsumer \<Rightarrow> bool \<Rightarrow> MDPMarketUpdate \<Rightarrow> MarketDataConsumer" where
  "queueMessage mdc is_snapshot request =
     (let k = mdp_seq_num request; u = mdp_me_market_update request;
          mdc1 =
            (if is_snapshot then
               let msgs = (if map_of (snapshot_queued_msgs mdc) k \<noteq> None then [] else snapshot_queued_msgs mdc) in
               mdc\<lparr>snapshot_queued_msgs := map_put k u msgs\<rparr>
             else mdc\<lparr>incremental_queued_msgs := map_put k u (incremental_queued_msgs mdc)\<rparr>) in
      checkSnapshotSync mdc1)"

text \<open>The body of the loop of \<^verbatim>\<open>recvCallback\<close>, and the loop.\<close>

definition recv_update :: "bool \<Rightarrow> bool \<Rightarrow> MarketDataConsumer \<Rightarrow> MDPMarketUpdate \<Rightarrow> MarketDataConsumer result" where
  "recv_update joins is_snapshot mdc request =
     (let already_in_recovery = in_recovery mdc;
          mdc1 = mdc\<lparr>in_recovery := already_in_recovery \<or> mdp_seq_num request \<noteq> next_exp_inc_seq_num mdc\<rparr> in
      if in_recovery mdc1 then
        andThen (if \<not> already_in_recovery then startSnapshotSync joins mdc1 else Inr mdc1) (\<lambda>mdc2.
        Inr (queueMessage mdc2 is_snapshot request))
      else if \<not> is_snapshot then
        Inr (mdc1\<lparr>next_exp_inc_seq_num := next_exp_inc_seq_num mdc1 + 1,
                  incoming_md_updates := q_push (incoming_md_updates mdc1) (mdp_me_market_update request)\<rparr>)
      else Inr mdc1)"

fun recv_updates :: "bool \<Rightarrow> bool \<Rightarrow> MarketDataConsumer \<Rightarrow> MDPMarketUpdate list \<Rightarrow> MarketDataConsumer result" where
  "recv_updates joins is_snapshot mdc [] = Inr mdc"
| "recv_updates joins is_snapshot mdc (r # rs) =
     andThen (recv_update joins is_snapshot mdc r) (\<lambda>mdc1. recv_updates joins is_snapshot mdc1 rs)"

definition mdc_recvCallback :: "bool \<Rightarrow> bool \<Rightarrow> McastSocket \<Rightarrow> MarketDataConsumer \<Rightarrow> (McastSocket \<times> MarketDataConsumer) result" where
  "mdc_recvCallback joins is_snapshot socket mdc =
     (if is_snapshot \<and> \<not> in_recovery mdc then Inr (socket\<lparr>mc_inbound := []\<rparr>, mdc)
      else if length (mc_inbound socket) \<ge> sizeof_MDPMarketUpdate then
        let (requests, rest) = frames sizeof_MDPMarketUpdate dec_MDPMarketUpdate (mc_inbound socket) in
        andThen (recv_updates joins is_snapshot mdc requests) (\<lambda>mdc1.
        Inr (socket\<lparr>mc_inbound := rest\<rparr>, mdc1))
      else Inr (socket, mdc))"

text \<open>
  One turn of \<^verbatim>\<open>run\<close>: \<open>inc\<close> and \<open>snap\<close> are the bytes that wait at the two sockets; a socket
  that has left its group has no descriptor to read from.
\<close>

definition mdc_run_step :: "bool \<Rightarrow> byte list \<Rightarrow> byte list \<Rightarrow> MarketDataConsumer \<Rightarrow> MarketDataConsumer result" where
  "mdc_run_step joins inc snap mdc =
     andThen (mc_sendAndRecv (mdc_recvCallback joins False) inc 0 (incremental_mcast_socket mdc) mdc) (\<lambda>(sock, mdc1, _, _).
     let mdc2 = mdc1\<lparr>incremental_mcast_socket := sock\<rparr> in
     andThen (mc_sendAndRecv (mdc_recvCallback joins True) (if snapshot_joined mdc2 then snap else []) 0
       (snapshot_mcast_socket mdc2) mdc2) (\<lambda>(sock', mdc3, _, _).
     Inr (mdc3\<lparr>snapshot_mcast_socket := sock'\<rparr>)))"

section \<open>The incremental stream\<close>

text \<open>The messages at the front that carry the numbers expected.\<close>

fun in_order :: "SeqNum \<Rightarrow> MDPMarketUpdate list \<Rightarrow> MDPMarketUpdate list" where
  "in_order n [] = []"
| "in_order n (m # ms) = (if mdp_seq_num m = n then m # in_order (n + 1) ms else [])"

definition queue_all :: "MDPMarketUpdate list \<Rightarrow> QueuedMarketUpdates \<Rightarrow> QueuedMarketUpdates" where
  "queue_all ms m = foldl (\<lambda>m r. map_put (mdp_seq_num r) (mdp_me_market_update r) m) m ms"

lemma recovering_incrementals:
  assumes "in_recovery mdc" and "snapshot_queued_msgs mdc = []"
  shows "recv_updates joins False mdc ms = Inr (mdc\<lparr>incremental_queued_msgs := queue_all ms (incremental_queued_msgs mdc)\<rparr>)"
  using assms
proof (induction ms arbitrary: mdc)
  case Nil
  then show ?case by (simp add: queue_all_def)
next
  case (Cons m ms)
  let ?mdc1 = "mdc\<lparr>incremental_queued_msgs := map_put (mdp_seq_num m) (mdp_me_market_update m) (incremental_queued_msgs mdc)\<rparr>"
  have "mdc\<lparr>in_recovery := True\<rparr> = mdc" using Cons.prems(1) by simp
  then have "recv_update joins False mdc m = Inr ?mdc1"
    using Cons.prems by (simp add: recv_update_def queueMessage_def checkSnapshotSync_def Let_def)
  then show ?case using Cons.IH [of ?mdc1] Cons.prems by (simp add: queue_all_def)
qed

lemma incremental_stream:
  assumes "\<not> in_recovery mdc"
  shows "let pre = in_order (next_exp_inc_seq_num mdc) ms; rest = drop (length pre) ms;
      mdc1 = mdc\<lparr>next_exp_inc_seq_num := next_exp_inc_seq_num mdc + of_nat (length pre),
        incoming_md_updates := q_pushes (incoming_md_updates mdc) (map mdp_me_market_update pre)\<rparr>
    in recv_updates True False mdc ms = Inr (if rest = [] then mdc1
      else mdc1\<lparr>in_recovery := True, snapshot_joined := True, snapshot_queued_msgs := [],
        incremental_queued_msgs := queue_all rest []\<rparr>)"
  using assms
proof (induction ms arbitrary: mdc)
  case Nil
  then show ?case by simp
next
  case (Cons m ms)
  show ?case
  proof (cases "mdp_seq_num m = next_exp_inc_seq_num mdc")
    case True
    let ?mdc1 = "mdc\<lparr>next_exp_inc_seq_num := next_exp_inc_seq_num mdc + 1,
      incoming_md_updates := q_push (incoming_md_updates mdc) (mdp_me_market_update m)\<rparr>"
    have "mdc\<lparr>in_recovery := False\<rparr> = mdc" using Cons.prems by simp
    then have "recv_update True False mdc m = Inr ?mdc1" using True Cons.prems by (simp add: recv_update_def Let_def)
    then show ?thesis using Cons.IH [of ?mdc1] Cons.prems True by (simp add: Let_def q_pushes_Cons add.assoc)
  next
    case False
    let ?mdc1 = "mdc\<lparr>in_recovery := True, snapshot_joined := True, snapshot_queued_msgs := [],
      incremental_queued_msgs := [(mdp_seq_num m, mdp_me_market_update m)]\<rparr>"
    have "recv_update True False mdc m = Inr ?mdc1"
      using False Cons.prems by (simp add: recv_update_def Let_def startSnapshotSync_def queueMessage_def checkSnapshotSync_def)
    then show ?thesis using False recovering_incrementals [of ?mdc1 True ms] by (simp add: queue_all_def)
  qed
qed

section \<open>Recovery\<close>

definition keyed :: "MDPMarketUpdate list \<Rightarrow> QueuedMarketUpdates" where
  "keyed ms = map (\<lambda>m. (mdp_seq_num m, mdp_me_market_update m)) ms"

lemma keyed_simps [simp]:
  "keyed [] = []" "keyed (m # ms) = (mdp_seq_num m, mdp_me_market_update m) # keyed ms" "keyed (ms @ ns) = keyed ms @ keyed ns"
  "map snd (keyed ms) = map mdp_me_market_update ms" "keyed ms = [] \<longleftrightarrow> ms = []"
  by (simp_all add: keyed_def comp_def)

lemma snapshot_scan_keyed:
  "snapshot_scan n (keyed (mdp_number n us)) = Some (filter (\<lambda>u. \<not> is_bound u) us)"
  by (induction us arbitrary: n) auto

lemma incremental_scan_keyed:
  assumes "\<forall>x\<in>fst ` set old. x < n"
  shows "incremental_scan n (old @ keyed (mdp_number n us)) = (n + of_nat (length us), filter (\<lambda>u. \<not> is_bound u) us, True)"
proof -
  have "incremental_scan n (keyed (mdp_number n us)) = (n + of_nat (length us), filter (\<lambda>u. \<not> is_bound u) us, True)"
    by (induction us arbitrary: n) (auto simp: add.assoc)
  then show ?thesis using assms by (induction old) auto
qed

lemma mdp_number_seqs: "map mdp_seq_num (mdp_number n us) = map (\<lambda>j. n + of_nat j) [0..<length us]"
  by (induction us arbitrary: n) (auto simp del: upt_Suc simp: map_upt_Suc add.assoc)

lemma keyed_below:
  assumes "length us < 2 ^ 64"
  shows "\<forall>x\<in>fst ` set (keyed (mdp_number 0 us)). x < of_nat (length us)"
proof -
  have "fst ` set (keyed (mdp_number 0 us)) = set (map mdp_seq_num (mdp_number 0 us))"
    by (simp add: keyed_def image_image)
  also have "\<dots> = of_nat ` {0..<length us}" by (simp add: mdp_number_seqs)
  finally show ?thesis using assms by (auto simp: word_less_nat_alt unat_of_nat take_bit_nat_eq_self)
qed

lemma keyed_fresh:
  assumes "length us < 2 ^ 64"
  shows "map_of (keyed (mdp_number 0 us)) (of_nat (length us)) = None"
  using keyed_below [OF assms] by (force simp: map_of_eq_None_iff)

lemma snapshot_queued:
  assumes "length us < 2 ^ 64" and "in_recovery mdc" and "snapshot_queued_msgs mdc = keyed (mdp_number 0 us)"
  shows "recv_update joins True mdc \<lparr>mdp_seq_num = of_nat (length us), mdp_me_market_update = u\<rparr> =
    Inr (checkSnapshotSync (mdc\<lparr>snapshot_queued_msgs := keyed (mdp_number 0 (us @ [u]))\<rparr>))"
  using assms keyed_fresh [OF assms(1)] put_last [of "keyed (mdp_number 0 us)" "of_nat (length us)" u] keyed_below [OF assms(1)]
  by (cases mdc) (simp add: recv_update_def queueMessage_def Let_def mdp_number_append)

lemma snapshot_waits:
  assumes "mu_type (hd us) = SNAPSHOT_START" and "us \<noteq> []" and "mu_type (last us) \<noteq> SNAPSHOT_END"
    and "snapshot_queued_msgs mdc = keyed (mdp_number 0 us)"
  shows "checkSnapshotSync mdc = mdc"
proof -
  have "snd (hd (keyed (mdp_number 0 us))) = hd us" using assms(2) by (cases us) auto
  moreover have "snd (last (keyed (mdp_number 0 us))) = last us"
    using assms(2) by (metis last_map keyed_simps(4,5) mdp_number_updates map_is_Nil_conv)
  moreover have "keyed (mdp_number 0 us) \<noteq> []" using assms(2) by (cases us) auto
  ultimately show ?thesis using assms snapshot_scan_keyed [of 0 us] by (simp add: checkSnapshotSync_def Let_def)
qed

lemma snapshot_collects:
  assumes "length (pre @ us) < 2 ^ 64" and "in_recovery mdc" and "snapshot_queued_msgs mdc = keyed (mdp_number 0 pre)"
    and "pre \<noteq> []" and "mu_type (hd pre) = SNAPSHOT_START" and "\<forall>u\<in>set us. mu_type u \<noteq> SNAPSHOT_END"
  shows "recv_updates joins True mdc (mdp_number (of_nat (length pre)) us) =
    Inr (mdc\<lparr>snapshot_queued_msgs := keyed (mdp_number 0 (pre @ us))\<rparr>)"
  using assms
proof (induction us arbitrary: pre mdc)
  case Nil
  then show ?case by simp
next
  case (Cons u us)
  let ?mdc1 = "mdc\<lparr>snapshot_queued_msgs := keyed (mdp_number 0 (pre @ [u]))\<rparr>"
  have "checkSnapshotSync ?mdc1 = ?mdc1"
    by (rule snapshot_waits [of "pre @ [u]"]) (use Cons.prems in auto)
  then have "recv_update joins True mdc \<lparr>mdp_seq_num = of_nat (length pre), mdp_me_market_update = u\<rparr> = Inr ?mdc1"
    using snapshot_queued [of pre mdc joins u] Cons.prems by simp
  moreover have "recv_updates joins True ?mdc1 (mdp_number (of_nat (length (pre @ [u]))) us) =
      Inr (?mdc1\<lparr>snapshot_queued_msgs := keyed (mdp_number 0 ((pre @ [u]) @ us))\<rparr>)"
    by (rule Cons.IH) (use Cons.prems in auto)
  ultimately show ?case by (simp add: add.commute)
qed

lemma recv_updates_append:
  "recv_updates joins s mdc (ms @ ns) = andThen (recv_updates joins s mdc ms) (\<lambda>mdc1. recv_updates joins s mdc1 ns)"
  by (induction ms arbitrary: mdc) (auto simp: andThen_assoc)

lemma length_live_orders: "length (live_orders v t) \<le> ME_MAX_ORDER_IDS"
  by (simp add: live_orders_def List.map_filter_def) (metis diff_zero length_filter_le length_upt)

lemma length_snapshot: "length (snapshot_messages v n) < 2 ^ 64"
proof -
  have "length (snapshot_body v ts) \<le> length ts * (ME_MAX_ORDER_IDS + 1)" for ts
  proof (induction ts)
    case (Cons t ts)
    then show ?case using length_live_orders [of v t] by (simp add: snapshot_body_def)
  qed (simp add: snapshot_body_def)
  from this [of "[0..<ME_MAX_TICKERS]"] show ?thesis
    by (simp add: snapshot_messages_def ME_MAX_TICKERS_def ME_MAX_ORDER_IDS_def)
qed

lemma body_not_bound:
  assumes "view_wf v"
  shows "\<forall>u\<in>set (snapshot_body v ts). \<not> is_bound u"
proof -
  have "mu_type u = ADD" if "u \<in> set (live_orders v t)" for u t
    using that assms by (auto simp: live_orders_def List.map_filter_def view_wf_def)
  then have "\<not> is_bound u" if "u \<in> set (live_orders v t)" for u t using that by (simp add: is_bound_def)
  then show ?thesis by (auto simp: snapshot_body_def clear_update_def is_bound_def)
qed

lemma recovery_ok:
  assumes v: "view_wf v" and rec: "in_recovery mdc" and empty: "snapshot_queued_msgs mdc = []"
    and inc: "incremental_queued_msgs mdc = old @ keyed (mdp_number (n + 1) us)" "\<forall>x\<in>fst ` set old. x < n + 1"
    and us: "\<forall>u\<in>set us. \<not> is_bound u"
  shows "recv_updates joins True mdc (mdp_number 0 (snapshot_messages v n)) =
    Inr (mdc\<lparr>next_exp_inc_seq_num := n + 1 + of_nat (length us),
      incoming_md_updates := q_pushes (incoming_md_updates mdc) (snapshot_body v [0..<ME_MAX_TICKERS] @ us),
      snapshot_queued_msgs := [], incremental_queued_msgs := [], in_recovery := False, snapshot_joined := False\<rparr>)"
proof -
  let ?start = "bound_update SNAPSHOT_START n" and ?fin = "bound_update SNAPSHOT_END n"
  let ?body = "snapshot_body v [0..<ME_MAX_TICKERS]"
  have len: "length (?start # ?body) < 2 ^ 64" using length_snapshot [of v n] by (simp add: snapshot_messages_def)
  have b: "mu_type ?start = SNAPSHOT_START" "mu_type ?fin = SNAPSHOT_END" "mu_order_id ?fin = n" "is_bound ?start" "is_bound ?fin"
    by (simp_all add: bound_update_def is_bound_def)
  let ?mdc1 = "mdc\<lparr>snapshot_queued_msgs := keyed (mdp_number 0 [?start])\<rparr>"
  let ?mdc2 = "mdc\<lparr>snapshot_queued_msgs := keyed (mdp_number 0 (?start # ?body))\<rparr>"
  let ?mdc3 = "mdc\<lparr>snapshot_queued_msgs := keyed (mdp_number 0 ((?start # ?body) @ [?fin]))\<rparr>"
  have "checkSnapshotSync ?mdc1 = ?mdc1" by (rule snapshot_waits [of "[?start]"]) (simp_all add: b)
  then have 1: "recv_update joins True mdc \<lparr>mdp_seq_num = 0, mdp_me_market_update = ?start\<rparr> = Inr ?mdc1"
    using snapshot_queued [of "[]" mdc joins ?start] rec empty by simp
  have 2: "recv_updates joins True ?mdc1 (mdp_number 1 ?body) = Inr ?mdc2"
    using snapshot_collects [of "[?start]" ?body ?mdc1 joins] len rec b body_not_bound [OF v, of "[0..<ME_MAX_TICKERS]"]
    by (auto simp: is_bound_def)
  have 3: "recv_updates joins True ?mdc2 [\<lparr>mdp_seq_num = of_nat (length (?start # ?body)), mdp_me_market_update = ?fin\<rparr>] =
      Inr (checkSnapshotSync ?mdc3)"
    using snapshot_queued [OF len, of ?mdc2 joins ?fin] rec by simp
  have "filter (\<lambda>u. \<not> is_bound u) ((?start # ?body) @ [?fin]) = ?body"
    using body_not_bound [OF v] b by (simp add: filter_id_conv)
  then have "snapshot_scan 0 (keyed (mdp_number 0 ((?start # ?body) @ [?fin]))) = Some ?body"
    using snapshot_scan_keyed by metis
  moreover have "snd (last (keyed (mdp_number 0 ((?start # ?body) @ [?fin])))) = ?fin" by (simp add: mdp_number_append)
  moreover have "filter (\<lambda>u. \<not> is_bound u) us = us" using us by (simp add: filter_id_conv)
  ultimately have "checkSnapshotSync ?mdc3 = mdc\<lparr>next_exp_inc_seq_num := n + 1 + of_nat (length us),
      incoming_md_updates := q_pushes (incoming_md_updates mdc) (?body @ us),
      snapshot_queued_msgs := [], incremental_queued_msgs := [], in_recovery := False, snapshot_joined := False\<rparr>"
    using incremental_scan_keyed [OF inc(2), of us] inc(1) b
    by (simp add: checkSnapshotSync_def Let_def)
  then show ?thesis using 1 2 3
    by (simp add: snapshot_messages_def mdp_number_append recv_updates_append)
qed

section \<open>Properties\<close>

text \<open>C16: The incremental stream. Whatever numbered messages arrive in order of their bytes, a
  consumer that is not recovering passes on exactly the leading ones that carry the numbers
  expected, in order; at the first other number it passes on nothing more, joins the snapshot
  stream and keeps the rest by number. The part of a message at the end of the buffer is kept.\<close>

theorem consumer_gap_free:
  assumes "\<not> in_recovery mdc" and "\<forall>m\<in>set ms. price_ok (mu_price (mdp_me_market_update m))"
    and "mc_inbound sock = concat (map enc_MDPMarketUpdate ms) @ rest" and "length rest < sizeof_MDPMarketUpdate"
  shows "let pre = in_order (next_exp_inc_seq_num mdc) ms; late = drop (length pre) ms;
      mdc1 = mdc\<lparr>next_exp_inc_seq_num := next_exp_inc_seq_num mdc + of_nat (length pre),
        incoming_md_updates := q_pushes (incoming_md_updates mdc) (map mdp_me_market_update pre)\<rparr>
    in mdc_recvCallback True False sock mdc = Inr (sock\<lparr>mc_inbound := rest\<rparr>, if late = [] then mdc1
      else mdc1\<lparr>in_recovery := True, snapshot_joined := True, snapshot_queued_msgs := [],
        incremental_queued_msgs := queue_all late []\<rparr>)"
proof (cases "ms = []")
  case True
  then show ?thesis using assms by (cases sock) (simp add: mdc_recvCallback_def)
next
  case False
  then have "\<not> length (mc_inbound sock) < sizeof_MDPMarketUpdate"
    using assms(3) update_codec.enc_size [of "hd ms"] by (cases ms) auto
  moreover have "frames sizeof_MDPMarketUpdate dec_MDPMarketUpdate (mc_inbound sock) = (ms, rest)"
    using update_codec.frames_enc [of ms rest] assms(2-4) by simp
  ultimately show ?thesis using incremental_stream [OF assms(1), of ms]
    by (simp add: mdc_recvCallback_def Let_def)
qed

definition demo_consumer :: MarketDataConsumer where
  "demo_consumer = MarketDataConsumer_new (LFQueue_new 4 MEMarketUpdate_default)"

theorem consumer_gap_free_witness:
  "\<exists>mdc. mdc_recvCallback True False
      (McastSocket_new\<lparr>mc_inbound := concat (map enc_MDPMarketUpdate (mdp_number 1 [demo_order] @ mdp_number 3 [demo_order])) @ [7]\<rparr>)
      demo_consumer = Inr (McastSocket_new\<lparr>mc_inbound := [7]\<rparr>, mdc) \<and>
    next_exp_inc_seq_num mdc = 2 \<and> in_recovery mdc \<and> incremental_queued_msgs mdc = [(3, demo_order)]"
  using consumer_gap_free [of demo_consumer "mdp_number 1 [demo_order] @ mdp_number 3 [demo_order]"
      "McastSocket_new\<lparr>mc_inbound := concat (map enc_MDPMarketUpdate (mdp_number 1 [demo_order] @ mdp_number 3 [demo_order])) @ [7]\<rparr>" "[7]"]
  by (simp add: demo_consumer_def MarketDataConsumer_new_def demo_order_def price_ok_def sizeof_MDPMarketUpdate_def
      Let_def queue_all_def)

text \<open>C15: Recovery. A consumer that is recovering, has no snapshot messages yet and has queued, beside
  older ones, the updates after number \<open>n\<close> without a gap, and is then sent a whole snapshot cycle that
  was taken at \<open>n\<close>, ends its recovery: it expects the number after its last queued update and it has
  passed on events that, replayed on any book whatever, give the snapshot brought up to date with
  the queued updates.\<close>

theorem recovery_completes:
  assumes "view_wf v" and "in_recovery mdc" and "snapshot_queued_msgs mdc = []"
    and "incremental_queued_msgs mdc = old @ keyed (mdp_number (n + 1) us)" and "\<forall>x\<in>fst ` set old. x < n + 1"
    and "\<forall>u\<in>set us. mu_type u \<notin> {SNAPSHOT_START, SNAPSHOT_END}"
  shows "\<exists>mdc' evs. recv_updates joins True mdc (mdp_number 0 (snapshot_messages v n)) = Inr mdc' \<and>
    \<not> in_recovery mdc' \<and> next_exp_inc_seq_num mdc' = n + 1 + of_nat (length us) \<and>
    incoming_md_updates mdc' = q_pushes (incoming_md_updates mdc) evs \<and>
    (\<forall>v0. (\<forall>t\<ge>ME_MAX_TICKERS. v0 t = (\<lambda>_. None)) \<longrightarrow> foldl view_apply v0 evs = foldl view_apply v us)"
proof -
  let ?body = "snapshot_body v [0..<ME_MAX_TICKERS]"
  have "foldl view_apply v0 (?body @ us) = foldl view_apply v us" if "\<forall>t\<ge>ME_MAX_TICKERS. v0 t = (\<lambda>_. None)" for v0
  proof -
    have "view_apply w (bound_update ty n) = w" if "ty \<in> {SNAPSHOT_START, SNAPSHOT_END}" for w ty
      using that by (auto simp: view_apply_def bound_update_def)
    then have "foldl view_apply v0 ?body = v"
      using rebuild_snapshot [OF assms(1) that, of n] by (simp add: snapshot_messages_def)
    then show ?thesis by simp
  qed
  moreover have "\<forall>u\<in>set us. \<not> is_bound u" using assms(6) by (simp add: is_bound_def)
  ultimately show ?thesis using recovery_ok [OF assms(1-5)] by (intro exI conjI) (auto)
qed

definition demo_recovering :: MarketDataConsumer where
  "demo_recovering = demo_consumer\<lparr>in_recovery := True, incremental_queued_msgs := [(1, demo_order), (3, demo_order)]\<rparr>"

theorem recovery_completes_witness:
  "\<exists>mdc' evs. recv_updates True True demo_recovering (mdp_number 0 (snapshot_messages (\<lambda>_ _. None) 2)) = Inr mdc' \<and>
    \<not> in_recovery mdc' \<and> next_exp_inc_seq_num mdc' = 4 \<and>
    incoming_md_updates mdc' = q_pushes (LFQueue_new 4 MEMarketUpdate_default) evs \<and>
    foldl view_apply (\<lambda>_ _. None) evs 1 5 = Some demo_order"
proof -
  have q: "incremental_queued_msgs demo_recovering = [(1, demo_order)] @ keyed (mdp_number (2 + 1) [demo_order])"
    by (simp add: demo_recovering_def)
  have o: "in_recovery demo_recovering" "snapshot_queued_msgs demo_recovering = []" "view_wf (\<lambda>_ _. None)"
    "incoming_md_updates demo_recovering = LFQueue_new 4 MEMarketUpdate_default"
    by (simp_all add: demo_recovering_def demo_consumer_def MarketDataConsumer_new_def view_wf_def)
  from recovery_completes [OF o(3,1,2) q, of True] o(4) show ?thesis
    by (fastforce simp: demo_order_def view_apply_def view_set_def)
qed

definition mixed_cycle :: "MEMarketUpdate list" where
  "mixed_cycle = [bound_update SNAPSHOT_START 4, clear_update 1, demo_order, bound_update SNAPSHOT_END 9]"

text \<open>Two cycles can pass for one. The consumer does not compare the number of the start of a
  cycle with that of its end: if the end of one cycle and the start of the next are lost, the
  messages of the two are taken for one snapshot when their numbers fit, and an order that was
  gone from the later cycle is passed on as live.\<close>

theorem mixed_snapshot_accepted:
  "\<exists>mdc. recv_updates True True (demo_recovering\<lparr>incremental_queued_msgs := []\<rparr>) (mdp_number 0 mixed_cycle) = Inr mdc \<and>
     \<not> in_recovery mdc \<and> next_exp_inc_seq_num mdc = 10 \<and>
     incoming_md_updates mdc = q_pushes (LFQueue_new 4 MEMarketUpdate_default) [clear_update 1, demo_order]"
  by (simp add: mixed_cycle_def demo_recovering_def demo_consumer_def MarketDataConsumer_new_def recv_update_def
      queueMessage_def checkSnapshotSync_def Let_def bound_update_def clear_update_def demo_order_def is_bound_def)

end
