(* ===== verification/Late_Joiner.thy ===== *)
theory Late_Joiner
  imports Client_Book Client_BBO Market_Data_Consumer
begin

text \<open>
  A client that starts late: it misses the beginning of the incremental stream, takes a snapshot and
  catches up. The snapshot of \<^verbatim>\<open>src/exchange/market_data/snapshot_synthesizer.cpp\<close> lists the
  orders of a book by their identifiers and says nothing of their order of price and time; that the
  client's book still becomes the exchange's rests on what the exchange's book keeps of its
  orders: inside a price the identifiers grow with time.
\<close>

section \<open>What a book that is represented keeps\<close>

lemma rep_stripped:
  assumes "book_rep bk b" and "x \<in> set (ab_orders b)"
  shows "me_strip x = x"
proof -
  from assms(1) obtain sh where "b = book_abs bk sh" unfolding book_rep_def by blast
  with assms(2) show ?thesis by (auto simp: ab_orders_abs me_strip_def)
qed

lemma live_below:
  assumes "mp_inv mp"
  shows "card (mp_live mp) < mp_size mp"
proof -
  have "mp_live mp \<subseteq> {0..<mp_size mp} - {mp_next_free_index mp}" "mp_next_free_index mp < mp_size mp"
    using assms by (auto simp: mp_inv_def mp_live_def)
  with card_mono [OF _ this(1)] show ?thesis by simp
qed

lemma rep_counts:
  assumes "book_rep bk b"
  shows "length (ab_orders b) < ME_MAX_ORDER_IDS" "levels b < ME_MAX_PRICE_LEVELS"
proof -
  from assms obtain sh where inv: "book_inv {} bk sh" and b: "b = book_abs bk sh"
    and sizes: "mp_size (ob_order_pool bk) = ME_MAX_ORDER_IDS" "mp_size (ob_orders_at_price_pool bk) = ME_MAX_PRICE_LEVELS"
    unfolding book_rep_def by blast
  have "mp_inv (ob_order_pool bk)" "mp_inv (ob_orders_at_price_pool bk)"
    using book_invD(1) [OF inv] by (simp_all add: pools_ok_def)
  from live_below [OF this(1)] live_below [OF this(2)]
  show "length (ab_orders b) < ME_MAX_ORDER_IDS" "levels b < ME_MAX_PRICE_LEVELS"
    using order_count [OF inv] level_count [OF inv] sizes b by simp_all
qed

lemma rep_price_clear:
  assumes rep: "book_rep bk b" and s: "s \<in> {BUY, SELL}" and x: "x \<in> set (ab_side b s)"
  shows "price_clear b s (me_price x)"
proof -
  from rep obtain sh where inv: "book_inv {} bk sh" and b: "b = book_abs bk sh" unfolding book_rep_def by blast
  let ?lo = "mp_obj (ob_orders_at_price_pool bk)"
  have level: "\<exists>lv\<in>set (sh t). oap_price (?lo (fst lv)) = me_price y"
    if "t \<in> {BUY, SELL}" "y \<in> set (ab_side b t)" for t y
  proof -
    have "me_price y \<in> oap_price ` ?lo ` fst ` set (sh t)"
      unfolding level_prices(1) [OF inv that(1), symmetric] using that ab_side_abs [OF that(1), of bk sh] b by simp
    then obtain lv where "lv \<in> set (sh t)" "me_price y = oap_price (?lo (fst lv))" by blast
    then show ?thesis by metis
  qed
  have side: "oap_side (?lo (fst lv)) = t" if "t \<in> {BUY, SELL}" "lv \<in> set (sh t)" for t lv
    using book_invD(2) [OF inv that(1)] that(2) by (auto simp: side_ok_def level_ok_def)
  show ?thesis
    unfolding price_clear_def
  proof (intro ballI impI)
    fix t y assume t: "t \<in> {BUY, SELL}" "y \<in> set (ab_side b t)" and i: "priceToIndex (me_price y) = priceToIndex (me_price x)"
    obtain lv lw where lv: "lv \<in> set (sh s)" "oap_price (?lo (fst lv)) = me_price x"
      and lw: "lw \<in> set (sh t)" "oap_price (?lo (fst lw)) = me_price y"
      using level [OF s x] level [OF t] by auto
    have "fst lv = fst lw" using book_level_lookup [OF inv s lv(1)] book_level_lookup [OF inv t(1) lw(1)] i lv(2) lw(2) by simp
    then show "me_price y = me_price x \<and> t = s" using side [OF s lv(1)] side [OF t(1) lw(1)] lv(2) lw(2) by auto
  qed
qed

section \<open>The orders with small identifiers\<close>

definition below :: "nat \<Rightarrow> MEOrder \<Rightarrow> bool" where
  "below i x \<longleftrightarrow> unat (me_market_order_id x) < i"

definition ab_below :: "nat \<Rightarrow> abook \<Rightarrow> abook" where
  "ab_below i b = ab_map (filter (below i)) b"

lemma ab_below_sides [simp]:
  "ab_side (ab_below i b) s = filter (below i) (ab_side b s)" "ab_orders (ab_below i b) = filter (below i) (ab_orders b)"
  "ab_next_id (ab_below i b) = ab_next_id b"
  by (simp_all add: ab_below_def ab_map_def ab_side_def ab_orders_def)

lemma ab_below_none: "ab_below 0 b = b\<lparr>ab_bids := [], ab_asks := []\<rparr>"
  by (simp add: ab_below_def ab_map_def below_def)

lemma ab_below_all:
  assumes "listed tid (ab_orders b)"
  shows "ab_below ME_MAX_ORDER_IDS b = b"
proof -
  have "\<forall>x\<in>set (ab_bids b) \<union> set (ab_asks b). below ME_MAX_ORDER_IDS x"
    using assms by (auto simp: listed_def ab_orders_def below_def)
  then show ?thesis by (simp add: ab_below_def ab_map_def filter_id_conv)
qed

text \<open>Inserting the next order by its identifier puts it where the book has it.\<close>

lemma insert_next:
  assumes sorted: "sorted_wrt (ahead_of s) xs" and d: "distinct (order_ids xs)" and x: "x \<in> set xs"
    and i: "unat (me_market_order_id x) = i"
  shows "a_insert s x (filter (below i) xs) = filter (below (Suc i)) xs"
proof -
  obtain as bs where xs: "xs = as @ x # bs" using split_list [OF x] by blast
  let ?P = "\<lambda>y. \<not> better s (me_price x) (me_price y)"
  have only: "below (Suc i) y \<longleftrightarrow> below i y" if "y \<in> set as \<union> set bs" for y
  proof -
    have "me_market_order_id y \<noteq> me_market_order_id x" using d that by (auto simp: xs image_iff)
    then have "unat (me_market_order_id y) \<noteq> i" unfolding i [symmetric] by (simp add: word_unat_eq_iff)
    then show ?thesis by (auto simp: below_def)
  qed
  have "filter (below (Suc i)) as = filter (below i) as" "filter (below (Suc i)) bs = filter (below i) bs"
    using only by (auto intro!: filter_cong)
  then have all: "filter (below (Suc i)) xs = filter (below i) as @ x # filter (below i) bs"
    and few: "filter (below i) xs = filter (below i) as @ filter (below i) bs"
    using i by (simp_all add: xs below_def)
  have front: "?P y" if "y \<in> set (filter (below i) as)" for y
    using sorted that by (auto simp: xs sorted_wrt_append ahead_of_def better_def split: if_splits)
  have rear: "\<not> ?P y" if "y \<in> set (filter (below i) bs)" for y
  proof -
    have "ahead_of s x y" using sorted that by (simp add: xs sorted_wrt_append)
    moreover have "\<not> me_market_order_id x < me_market_order_id y"
      using that i by (auto simp: below_def word_less_nat_alt)
    ultimately show ?thesis by (auto simp: ahead_of_def)
  qed
  have "takeWhile ?P (filter (below i) bs) = []" "dropWhile ?P (filter (below i) bs) = filter (below i) bs"
    using rear by (cases "filter (below i) bs"; simp)+
  then have "takeWhile ?P (filter (below i) xs) = filter (below i) as" "dropWhile ?P (filter (below i) xs) = filter (below i) bs"
    using takeWhile_append2 [of "filter (below i) as" ?P] dropWhile_append2 [of "filter (below i) as" ?P] front
    unfolding few by auto
  then show ?thesis by (simp add: a_insert_def all)
qed

lemma anon_update:
  assumes "me_strip x = x"
  shows "update_order (add_update x) = anon x"
  using assms by (cases x) (simp add: update_order_def add_update_def anon_def me_strip_def)

text \<open>The client can take the next order: it holds a part of what the exchange's book holds.\<close>

lemma below_place_ok:
  assumes rep: "book_rep bk b" and l: "book_listed tid b" and s: "s \<in> {BUY, SELL}" and x: "x \<in> set (ab_side b s)"
  shows "place_ok (anon_book (ab_below (unat (me_market_order_id x)) b)) 0 (me_market_order_id x) s (me_price x)"
proof -
  let ?i = "unat (me_market_order_id x)"
  have xo: "x \<in> set (ab_orders b)" using x s by (auto simp: ab_side_def ab_orders_def)
  have no: "\<not> below ?i x" by (simp add: below_def)
  have "length (filter (below ?i) (ab_orders b)) < length (ab_orders b)" using length_filter_less [of x "ab_orders b" "below ?i"] xo no by blast
  then have len: "length (filter (below ?i) (ab_orders b)) + 1 < ME_MAX_ORDER_IDS" using rep_counts(1) [OF rep] by simp
  have clear: "price_clear b s (me_price x)" by (rule rep_price_clear [OF rep s x])
  have levels: "me_price x \<in> me_price ` set (filter (below ?i) (ab_side b s)) \<or> levels (ab_below ?i b) + 1 < ME_MAX_PRICE_LEVELS"
  proof (rule disjCI)
    assume new: "\<not> levels (ab_below ?i b) + 1 < ME_MAX_PRICE_LEVELS"
    have le: "card (me_price ` set (filter (below ?i) xs)) \<le> card (me_price ` set xs)" for xs
      by (rule card_mono) auto
    have lt: "card (me_price ` set (filter (below ?i) (ab_side b s))) < card (me_price ` set (ab_side b s))"
      if "me_price x \<notin> me_price ` set (filter (below ?i) (ab_side b s))"
      by (rule psubset_card_mono) (use that x in auto)
    show "me_price x \<in> me_price ` set (filter (below ?i) (ab_side b s))"
    proof (rule ccontr)
      assume "me_price x \<notin> me_price ` set (filter (below ?i) (ab_side b s))"
      with lt have "levels (ab_below ?i b) < levels b"
        using s le [of "ab_bids b"] le [of "ab_asks b"]
        by (cases s) (simp_all add: levels_def ab_below_def ab_map_def ab_side_def)
      then show False using new rep_counts(2) [OF rep] by simp
    qed
  qed
  have "unat (me_market_order_id x) < ME_MAX_ORDER_IDS" using l xo by (simp add: book_listed_def listed_def)
  moreover have "price_clear (anon_book (ab_below ?i b)) s (me_price x)"
    using clear by (simp add: price_clear_def image_image) blast
  moreover have "\<forall>y\<in>set (ab_orders (anon_book (ab_below ?i b))). \<not> is_order 0 (me_market_order_id x) y"
    by (auto simp: is_order_def below_def)
  ultimately show ?thesis
    using s len levels by (simp add: place_ok_def ME_MAX_NUM_CLIENTS_def image_image)
qed

lemma order_rebuilt:
  assumes rep: "book_rep bk b" and l: "book_listed tid b" and x: "x \<in> set (ab_orders b)"
    and m: "mirrors tid c (ab_below (unat (me_market_order_id x)) b)"
  shows "\<exists>c'. mb_update c (add_update x) = Inr c' \<and> mirrors tid c' (ab_below (Suc (unat (me_market_order_id x))) b)"
proof -
  let ?i = "unat (me_market_order_id x)" and ?s = "me_side x"
  have inv: "side_inv BUY (ab_bids b)" "side_inv SELL (ab_asks b)" "distinct (order_ids (ab_orders b))"
    using l by (simp_all add: book_listed_def abook_inv_def ids_ok_def)
  have s: "?s \<in> {BUY, SELL}" and xs: "x \<in> set (ab_side b ?s)"
    using x inv by (auto simp: ab_orders_def ab_side_def side_inv_def resting_def)
  have "side_inv ?s (ab_side b ?s)" "distinct (order_ids (ab_side b ?s))"
    using s inv by (auto simp: ab_side_def ab_orders_def)
  then have ins: "a_insert ?s x (filter (below ?i) (ab_side b ?s)) = filter (below (Suc ?i)) (ab_side b ?s)"
    using insert_next [OF _ _ xs refl] by (simp add: side_inv_def)
  have other: "filter (below (Suc ?i)) (ab_side b t) = filter (below ?i) (ab_side b t)" if "t \<in> {BUY, SELL}" "t \<noteq> ?s" for t
  proof (rule filter_cong [OF refl])
    fix y assume y: "y \<in> set (ab_side b t)"
    have "me_market_order_id y \<noteq> me_market_order_id x"
      using inv(3) xs y s that by (auto simp: ab_side_def ab_orders_def image_iff split: if_splits)
    then show "below (Suc ?i) y = below ?i y" by (auto simp: below_def less_Suc_eq unat_order_ids)
  qed
  have book: "ab_set_side (anon_book (ab_below ?i b)) ?s (a_insert ?s (anon x) (ab_side (anon_book (ab_below ?i b)) ?s)) =
      anon_book (ab_below (Suc ?i) b)"
    by (rule abook_eqI) (use s ins other in \<open>auto simp: anon_insert [symmetric]\<close>)
  have u: "mu_type (add_update x) = ADD" "mu_ticker_id (add_update x) = tid" "mu_side (add_update x) = ?s"
    "mu_price (add_update x) = me_price x" "mu_order_id (add_update x) = me_market_order_id x"
    using l x by (simp_all add: add_update_def book_listed_def listed_def)
  from mb_apply_add [of c "anon_book (ab_below ?i b)" "add_update x"] m below_place_ok [OF rep l s xs] u obtain d where
    "mb_apply c (add_update x) = Inr d" "mb_ticker_id d = tid" "book_rep (emb d) (anon_book (ab_below (Suc ?i) b))"
    unfolding mirrors_def anon_update [OF rep_stripped [OF rep x]] by (metis book)
  then show ?thesis using mirror_update [of c "add_update x" d tid "ab_below (Suc ?i) b"] u(1) by (simp add: mirrors_def)
qed

lemma orders_rebuilt:
  assumes rep: "book_rep bk b" and l: "book_listed tid b" and m: "mirrors tid c (ab_below 0 b)"
  shows "\<exists>c'. mb_updates c (List.map_filter (oview (ab_orders b)) [0..<i]) = Inr c' \<and> mirrors tid c' (ab_below i b)"
proof (induction i)
  case 0
  then show ?case using m by (simp add: List.map_filter_def)
next
  case (Suc i)
  then obtain c1 where c1: "mb_updates c (List.map_filter (oview (ab_orders b)) [0..<i]) = Inr c1" "mirrors tid c1 (ab_below i b)"
    by blast
  have d: "distinct (order_ids (ab_orders b))" using l by (simp add: book_listed_def listed_def)
  show ?case
  proof (cases "oview (ab_orders b) i")
    case None
    then have "\<forall>x\<in>set (ab_orders b). unat (me_market_order_id x) \<noteq> i" using oview_Some [OF d, of i] by force
    then have "ab_below (Suc i) b = ab_below i b"
      by (simp add: ab_below_def ab_map_def ab_orders_def less_Suc_eq below_def cong: filter_cong)
    then show ?thesis using c1 None by (simp add: map_filter_append List.map_filter_simps)
  next
    case (Some u)
    then obtain x where x: "x \<in> set (ab_orders b)" "unat (me_market_order_id x) = i" "u = add_update x"
      using oview_Some [OF d, of i] by auto
    from order_rebuilt [OF rep l x(1), of c1] c1(2) x(2,3) obtain c2 where
      "mb_update c1 u = Inr c2" "mirrors tid c2 (ab_below (Suc i) b)" by auto
    then show ?thesis using c1(1) Some by (simp add: map_filter_append mb_updates_append List.map_filter_simps)
  qed
qed

section \<open>The books from a snapshot\<close>

lemma clear_new: "mb_apply (empty_books t) (clear_update t') = Inr (empty_books t)"
  by (simp add: mb_apply_def clear_update_def mb_clear_def empty_books_def MarketOrderBook_new_def clear_none mb_clear_side_def)

lemma snapshot_tickers:
  assumes "\<forall>t<ME_MAX_TICKERS. book_rep (bks t) (e t)" and "eng_listed e" and "k \<le> ME_MAX_TICKERS"
  shows "\<exists>books. client_updates empty_books (snapshot_body (eng_view e) [0..<k]) = Inr books \<and>
    (\<forall>t<k. mirrors (of_nat t) (books t) (e t)) \<and> (\<forall>t\<ge>k. books t = empty_books t)"
  using assms(3)
proof (induction k)
  case 0
  then show ?case by (simp add: snapshot_body_def)
next
  case (Suc t)
  then obtain books where books: "client_updates empty_books (snapshot_body (eng_view e) [0..<t]) = Inr books"
    "\<forall>t'<t. mirrors (of_nat t') (books t') (e t')" "\<forall>t'\<ge>t. books t' = empty_books t'" by auto
  let ?tid = "of_nat t :: TickerId"
  have t: "t < ME_MAX_TICKERS" "unat ?tid = t" using Suc.prems by (simp_all add: ME_MAX_TICKERS_def unat_of_nat take_bit_nat_eq_self)
  have l: "book_listed ?tid (e t)" and rep: "book_rep (bks t) (e t)" using assms t by (simp_all add: eng_listed_def)
  have "mirrors ?tid (empty_books t) empty_abook" using mirrors_new by (simp add: empty_books_def)
  moreover have "anon_book (ab_below 0 (e t)) = anon_book empty_abook"
    by (simp add: ab_below_none anon_book_def empty_abook_def)
  ultimately have m: "mirrors ?tid (empty_books t) (ab_below 0 (e t))" by (simp add: mirrors_def)
  from mirror_update [OF clear_new _ m] obtain c where
    c: "mb_update (empty_books t) (clear_update t) = Inr c" "mirrors ?tid c (ab_below 0 (e t))"
    by (auto simp: clear_update_def)
  from orders_rebuilt [OF rep l c(2), of ME_MAX_ORDER_IDS] obtain c' where
    c': "mb_updates c (live_orders (eng_view e) t) = Inr c'" "mirrors ?tid c' (e t)"
    using t l ab_below_all [of ?tid "e t"] by (auto simp: live_orders_def eng_view_def book_listed_def)
  have own: "\<forall>u\<in>set (clear_update t # live_orders (eng_view e) t). mu_ticker_id u = ?tid"
  proof -
    have "mu_ticker_id u = ?tid" if u: "u \<in> set (live_orders (eng_view e) t)" for u
    proof -
      obtain i where "oview (ab_orders (e t)) i = Some u"
        using u t by (force simp: live_orders_def List.map_filter_def eng_view_def)
      then show ?thesis using oview_Some [of "ab_orders (e t)" i u] l by (auto simp: book_listed_def listed_def add_update_def)
    qed
    then show ?thesis by (simp add: clear_update_def)
  qed
  have "mb_updates (books (unat ?tid)) (clear_update t # live_orders (eng_view e) t) = Inr c'"
    using c(1) c'(1) books(3) t(2) by simp
  from client_updates_one [of books ?tid _ c', OF this own] t(2) have
    "client_updates books (clear_update t # live_orders (eng_view e) t) = Inr (books(t := c'))" by simp
  then have "client_updates empty_books (snapshot_body (eng_view e) [0..<Suc t]) = Inr (books(t := c'))"
    using books(1) by (simp add: snapshot_body_def client_updates_append)
  then show ?case using books(2,3) c'(2) by (intro exI [of _ "books(t := c')"]) (auto simp: less_Suc_eq)
qed

lemma eng_view_wf:
  assumes "eng_listed e"
  shows "view_wf (eng_view e)"
  unfolding view_wf_def
proof (intro allI impI)
  fix t i u assume v: "eng_view e t i = Some u"
  then have t: "t < ME_MAX_TICKERS" by (auto simp: eng_view_def split: if_splits)
  then have "book_listed (of_nat t) (e t)" using assms by (simp add: eng_listed_def)
  with v t show "t < ME_MAX_TICKERS \<and> i < ME_MAX_ORDER_IDS \<and> mu_type u = ADD \<and> unat (mu_ticker_id u) = t \<and> unat (mu_order_id u) = i"
    using oview_Some [of "ab_orders (e t)" i u]
    by (auto simp: eng_view_def book_listed_def listed_def add_update_def ME_MAX_TICKERS_def unat_of_nat take_bit_nat_eq_self)
qed

text \<open>The engine's updates are never the bounds of a snapshot.\<close>

lemma match_not_bound:
  "a_match g q xs = (ns, leaves, rs, us) \<Longrightarrow> \<forall>u\<in>set us. \<not> is_bound u"
proof (induction g q xs arbitrary: ns leaves rs us rule: a_match.induct)
  case (2 g q n xs)
  obtain ns' q' rs' us' where m: "a_match g (q - me_qty n) xs = (ns', q', rs', us')" by (metis prod.collapse)
  show ?case using 2 m by (auto simp: trade_update_def passive_update_def is_bound_def split: if_splits)
qed auto

lemma request_not_bound:
  assumes "a_request b r = (b', rs, us)"
  shows "\<forall>u\<in>set us. \<not> is_bound u"
proof (cases "rq_type r")
  case Request_NEW
  let ?g = "\<lparr>ag_ticker = rq_ticker_id r, ag_client = rq_client_id r, ag_order = rq_order_id r,
    ag_market = ucast (ucast (ab_next_id b) :: Qty), ag_side = rq_side r, ag_price = rq_price r\<rparr>"
  obtain ns leaves rs' us' where a: "a_match ?g (rq_qty r) (ab_side b (opp (rq_side r))) = (ns, leaves, rs', us')" by (metis prod.collapse)
  from match_not_bound [OF a] assms Request_NEW show ?thesis
    by (auto simp: a_request_def a_add_def Let_def a add_update_def is_bound_def split: if_splits)
qed (use assms in \<open>auto simp: a_request_def a_cancel_def is_bound_def split: option.splits\<close>)

lemma requests_not_bound: "ae_requests e rs = (e', resps, us) \<Longrightarrow> \<forall>u\<in>set us. \<not> is_bound u"
proof (induction rs arbitrary: e e' resps us)
  case (Cons r rs)
  obtain e1 o1 u1 where 1: "ae_request e r = (e1, o1, u1)" by (metis prod.collapse)
  obtain e2 o2 u2 where 2: "ae_requests e1 rs = (e2, o2, u2)" by (metis prod.collapse)
  obtain b' where "a_request (e (unat (rq_ticker_id r))) r = (b', o1, u1)"
    using 1 by (auto simp: ae_request_def Let_def split_def prod_eq_iff)
  from request_not_bound [OF this] Cons.IH [OF 2] Cons.prems 1 2 show ?case by auto
qed simp

section \<open>Properties\<close>

text \<open>C14: A client that starts late catches up. The exchange's books stood at \<open>e\<close> when the update numbered
  \<open>n\<close> had been published, and a snapshot of them was sent; the requests \<open>rs\<close> that followed made the
  updates \<open>us\<close>, which the recovering consumer has kept by their numbers, with older ones. When the
  messages of the snapshot have arrived, the consumer has left the recovery without a fault, expects
  the number after the last of \<open>us\<close>, and what it has passed on to the trade engine turns empty books
  into the books that the exchange holds now, orders of the same price in the same order of
  time.\<close>

theorem late_joiner_mirrors:
  assumes "eng_rep eng e" and "eng_listed e" and "ae_oks e rs" and "ae_room e rs" and "ae_requests e rs = (e', resps, us)"
    and "in_recovery mdc" and "snapshot_queued_msgs mdc = []"
    and "incremental_queued_msgs mdc = old @ keyed (mdp_number (n + 1) us)" and "\<forall>x\<in>fst ` set old. x < n + 1"
  shows "\<exists>mdc' evs books. recv_updates joins True mdc (mdp_number 0 (snapshot_messages (eng_view e) n)) = Inr mdc' \<and>
    \<not> in_recovery mdc' \<and> next_exp_inc_seq_num mdc' = n + 1 + of_nat (length us) \<and>
    incoming_md_updates mdc' = q_pushes (incoming_md_updates mdc) evs \<and>
    client_updates empty_books evs = Inr books \<and> client_mirrors books e'"
proof -
  have "\<forall>t<ME_MAX_TICKERS. book_rep (ticker_order_book eng t) (e t)" using assms(1) by (simp add: eng_rep_def)
  from snapshot_tickers [OF this assms(2), of ME_MAX_TICKERS] obtain books where
    b: "client_updates empty_books (snapshot_body (eng_view e) [0..<ME_MAX_TICKERS]) = Inr books" "client_mirrors books e"
    by (auto simp: client_mirrors_def)
  from requests_mirror [OF assms(2-5) b(2)] obtain books' where
    "client_updates books us = Inr books'" "client_mirrors books' e'" by blast
  with b(1) recovery_ok [OF eng_view_wf [OF assms(2)] assms(6-9) requests_not_bound [OF assms(5)], of joins]
  show ?thesis by (auto simp: client_updates_append)
qed

definition demo_late :: MarketDataConsumer where
  "demo_late = demo_consumer\<lparr>in_recovery := True, snapshot_joined := True\<rparr>"

theorem late_joiner_mirrors_witness:
  "\<exists>mdc' evs books e' resps us. ae_requests (\<lambda>_. empty_abook) [demo_new] = (e', resps, us) \<and>
    recv_updates True True (demo_late\<lparr>incremental_queued_msgs := keyed (mdp_number 5 us)\<rparr>)
      (mdp_number 0 (snapshot_messages (eng_view (\<lambda>_. empty_abook)) 4)) = Inr mdc' \<and>
    \<not> in_recovery mdc' \<and> client_updates empty_books evs = Inr books \<and> client_mirrors books e'"
proof -
  obtain e' resps us where r: "ae_requests (\<lambda>_. empty_abook) [demo_new] = (e', resps, us)" by (metis prod.collapse)
  have i: "eng_rep demo_exchange_engine (\<lambda>_. empty_abook)" using demo_in_step(1) by (simp add: in_step_def)
  let ?mdc = "demo_late\<lparr>incremental_queued_msgs := keyed (mdp_number 5 us)\<rparr>"
  have "in_recovery ?mdc" "snapshot_queued_msgs ?mdc = []" "incremental_queued_msgs ?mdc = [] @ keyed (mdp_number (4 + 1) us)"
    by (simp_all add: demo_late_def demo_consumer_def MarketDataConsumer_new_def)
  from late_joiner_mirrors [OF i eng_listed_new demo_new_ok r this, of True] r show ?thesis by fastforce
qed

end
