(* ===== verification/Position_Keeper.thy ===== *)
theory Position_Keeper
  imports Messages Trading_Types
begin

text \<open>
  The position keeper of \<^verbatim>\<open>src/trading/strategy/position_keeper.h\<close>: position, volume and profit
  and loss per ticker, from the client's fills and the best prices. The position is a signed integer
  of 32 bits held in a word; the pointer to the best prices, which only printing follows, is left out.
\<close>

section \<open>The structs\<close>

record 'f PositionInfo =
  position :: "32 word"
  real_pnl :: 'f
  unreal_pnl :: 'f
  total_pnl :: 'f
  open_vwap :: "nat \<Rightarrow> 'f"
  volume :: Qty

text \<open>\<open>open_vwap\<close> has no initial value: it is what its memory holds.\<close>

definition PositionInfo_default :: "'f double_ops \<Rightarrow> (nat \<Rightarrow> 'f) \<Rightarrow> 'f PositionInfo" where
  "PositionInfo_default F mem =
     \<lparr>position = 0, real_pnl = d_of_int F 0, unreal_pnl = d_of_int F 0, total_pnl = d_of_int F 0,
      open_vwap = mem, volume = 0\<rparr>"

text \<open>\<^verbatim>\<open>std::abs\<close> of a 32 bit integer.\<close>

definition abs32 :: "32 word \<Rightarrow> int result" where
  "abs32 w = signed_value 32 \<bar>sint w\<bar>"

section \<open>A fill\<close>

text \<open>
  The two branches on the old position: a fill that opens or increases it, and one that decreases
  it. \<^verbatim>\<open>exec_qty * side_value\<close> is an unsigned product, and the sum is converted back.
\<close>

definition addFill_increase ::
    "'f double_ops \<Rightarrow> 'f PositionInfo \<Rightarrow> MEClientResponse \<Rightarrow> 'f PositionInfo result" where
  "addFill_increase F pos_info r =
     (let side_index = sideToIndex (cr_side r) in
      andThen (signed_value 64 (cr_price r * int (unat (cr_exec_qty r)))) (\<lambda>amount.
      Inr (pos_info\<lparr>open_vwap := (open_vwap pos_info)
        (side_index := d_add F (open_vwap pos_info side_index) (d_of_int F amount))\<rparr>)))"

definition addFill_decrease ::
    "'f double_ops \<Rightarrow> 'f PositionInfo \<Rightarrow> 32 word \<Rightarrow> MEClientResponse \<Rightarrow> 'f PositionInfo result" where
  "addFill_decrease F pos_info old_position r =
     (let side_index = sideToIndex (cr_side r);
          opp_side_index = sideToIndex (if cr_side r = BUY then SELL else BUY) in
      andThen (abs32 old_position) (\<lambda>abs_old.
      andThen (abs32 (position pos_info)) (\<lambda>abs_new.
      let opp_side_vwap = d_div F (open_vwap pos_info opp_side_index) (d_of_int F abs_old);
          vwap1 = (open_vwap pos_info)(opp_side_index := d_mul F opp_side_vwap (d_of_int F abs_new));
          real1 = d_add F (real_pnl pos_info)
            (d_mul F (d_mul F (d_of_int F (min (sint (cr_exec_qty r)) abs_old))
               (d_sub F opp_side_vwap (d_of_int F (cr_price r))))
               (d_of_int F (sideToValue (cr_side r)))) in
      andThen (signed_value 32 (sint (position pos_info) * sint old_position)) (\<lambda>flip.
      if flip < 0 then
        andThen (signed_value 64 (cr_price r * abs_new)) (\<lambda>amount.
        Inr (pos_info\<lparr>real_pnl := real1,
               open_vwap := vwap1(side_index := d_of_int F amount, opp_side_index := d_of_int F 0)\<rparr>))
      else Inr (pos_info\<lparr>real_pnl := real1, open_vwap := vwap1\<rparr>)))))"

text \<open>The open profit at a price, given as a floating point number.\<close>

definition open_pnl :: "'f double_ops \<Rightarrow> 'f PositionInfo \<Rightarrow> 'f \<Rightarrow> 'f result" where
  "open_pnl F pos_info price =
     andThen (abs32 (position pos_info)) (\<lambda>n.
     Inr (if sint (position pos_info) > 0
          then d_mul F (d_sub F price (d_div F (open_vwap pos_info (sideToIndex BUY)) (d_of_int F n))) (d_of_int F n)
          else d_mul F (d_sub F (d_div F (open_vwap pos_info (sideToIndex SELL)) (d_of_int F n)) price) (d_of_int F n)))"

definition addFill_pnl ::
    "'f double_ops \<Rightarrow> 'f PositionInfo \<Rightarrow> MEClientResponse \<Rightarrow> 'f PositionInfo result" where
  "addFill_pnl F pos_info r =
     andThen (if position pos_info = 0
              then Inr (pos_info\<lparr>open_vwap := (open_vwap pos_info)(sideToIndex SELL := d_of_int F 0, sideToIndex BUY := d_of_int F 0),
                                 unreal_pnl := d_of_int F 0\<rparr>)
              else andThen (open_pnl F pos_info (d_of_int F (cr_price r))) (\<lambda>u. Inr (pos_info\<lparr>unreal_pnl := u\<rparr>))) (\<lambda>pos1.
     Inr (pos1\<lparr>total_pnl := d_add F (unreal_pnl pos1) (real_pnl pos1)\<rparr>))"

definition PositionInfo_addFill ::
    "'f double_ops \<Rightarrow> 'f PositionInfo \<Rightarrow> MEClientResponse \<Rightarrow> 'f PositionInfo result" where
  "PositionInfo_addFill F pos_info r =
     (let old_position = position pos_info;
          pos1 = pos_info\<lparr>position := old_position + cr_exec_qty r * word_of_int (sideToValue (cr_side r)),
                          volume := volume pos_info + cr_exec_qty r\<rparr> in
      andThen (signed_value 32 (sint old_position * sideToValue (cr_side r))) (\<lambda>direction.
      andThen (if direction \<ge> 0 then addFill_increase F pos1 r else addFill_decrease F pos1 old_position r) (\<lambda>pos2.
      addFill_pnl F pos2 r)))"

definition PositionInfo_updateBBO ::
    "'f double_ops \<Rightarrow> 'f PositionInfo \<Rightarrow> BBO \<Rightarrow> 'f PositionInfo result" where
  "PositionInfo_updateBBO F pos_info bbo =
     (if position pos_info \<noteq> 0 \<and> both_sides bbo then
        andThen (signed_value 64 (bid_price bbo + ask_price bbo)) (\<lambda>sum.
        andThen (open_pnl F pos_info (d_mul F (d_of_int F sum) (d_half F))) (\<lambda>u.
        Inr (pos_info\<lparr>unreal_pnl := u, total_pnl := d_add F u (real_pnl pos_info)\<rparr>)))
      else Inr pos_info)"

section \<open>The keeper\<close>

type_synonym 'f PositionKeeper = "nat \<Rightarrow> 'f PositionInfo"

definition addFill :: "'f double_ops \<Rightarrow> 'f PositionKeeper \<Rightarrow> MEClientResponse \<Rightarrow> 'f PositionKeeper result" where
  "addFill F pk r =
     andThen (array_at ME_MAX_TICKERS pk (unat (cr_ticker_id r))) (\<lambda>pos_info.
     andThen (PositionInfo_addFill F pos_info r) (\<lambda>pos1.
     Inr (pk(unat (cr_ticker_id r) := pos1))))"

definition updateBBO :: "'f double_ops \<Rightarrow> 'f PositionKeeper \<Rightarrow> TickerId \<Rightarrow> BBO \<Rightarrow> 'f PositionKeeper result" where
  "updateBBO F pk ticker_id bbo =
     andThen (array_at ME_MAX_TICKERS pk (unat ticker_id)) (\<lambda>pos_info.
     andThen (PositionInfo_updateBBO F pos_info bbo) (\<lambda>pos1.
     Inr (pk(unat ticker_id := pos1))))"

definition getPositionInfo :: "'f PositionKeeper \<Rightarrow> TickerId \<Rightarrow> 'f PositionInfo result" where
  "getPositionInfo pk ticker_id = array_at ME_MAX_TICKERS pk (unat ticker_id)"

fun addFills :: "'f double_ops \<Rightarrow> 'f PositionInfo \<Rightarrow> MEClientResponse list \<Rightarrow> 'f PositionInfo result" where
  "addFills F pos_info [] = Inr pos_info"
| "addFills F pos_info (r # rs) = andThen (PositionInfo_addFill F pos_info r) (\<lambda>pos1. addFills F pos1 rs)"

section \<open>The position\<close>

lemma decrease_frame:
  "addFill_decrease F pos_info old r = Inr pos1 \<Longrightarrow> position pos1 = position pos_info \<and> volume pos1 = volume pos_info"
  by (auto simp: addFill_decrease_def Let_def result_simps split: if_splits)

lemma increase_frame:
  "addFill_increase F pos_info r = Inr pos1 \<Longrightarrow> position pos1 = position pos_info \<and> volume pos1 = volume pos_info"
  by (auto simp: addFill_increase_def Let_def result_simps)

lemma pnl_frame:
  "addFill_pnl F pos_info r = Inr pos1 \<Longrightarrow> position pos1 = position pos_info \<and> volume pos1 = volume pos_info"
  by (auto simp: addFill_pnl_def result_simps split: if_splits)

lemma addFill_position:
  assumes "PositionInfo_addFill F pos_info r = Inr pos1"
  shows "position pos1 = position pos_info + cr_exec_qty r * word_of_int (sideToValue (cr_side r))"
    and "volume pos1 = volume pos_info + cr_exec_qty r"
  using assms
  by (auto simp: PositionInfo_addFill_def Let_def result_simps split: if_splits
      dest!: increase_frame decrease_frame pnl_frame)

text \<open>The signed quantity of a fill, and the sum over fills.\<close>

definition signed_qty :: "MEClientResponse \<Rightarrow> int" where
  "signed_qty r = sideToValue (cr_side r) * int (unat (cr_exec_qty r))"

definition net_qty :: "MEClientResponse list \<Rightarrow> int" where
  "net_qty rs = sum_list (map signed_qty rs)"

definition fill_cash :: "MEClientResponse list \<Rightarrow> rat" where
  "fill_cash rs = - of_int (sum_list (map (\<lambda>r. signed_qty r * cr_price r) rs))"

lemma position_word: "w + cr_exec_qty r * word_of_int (sideToValue (cr_side r)) = w + (word_of_int (signed_qty r) :: 32 word)"
  by (simp add: signed_qty_def mult.commute)

lemma addFills_position:
  assumes "addFills F pos_info rs = Inr pos1"
  shows "position pos1 = position pos_info + word_of_int (net_qty rs)"
    and "volume pos1 = volume pos_info + of_nat (sum_list (map (\<lambda>r. unat (cr_exec_qty r)) rs))"
  using assms
  by (induction rs arbitrary: pos_info)
     (auto simp: result_simps net_qty_def addFill_position position_word add.assoc)

section \<open>Profit and loss\<close>

declare of_int_sint [simp del]

text \<open>
  The bounds within which no signed operation overflows: the product of two positions has to fit
  32 bits.
\<close>

definition fill_ok :: "int \<Rightarrow> MEClientResponse \<Rightarrow> bool" where
  "fill_ok p r \<longleftrightarrow> cr_side r \<in> {BUY, SELL} \<and> \<bar>p\<bar> \<le> 46340 \<and> \<bar>p + signed_qty r\<bar> \<le> 46340 \<and> \<bar>cr_price r\<bar> \<le> 2 ^ 40"

text \<open>
  The books of the keeper: the realised profit is the cash of the fills plus the cost of what is
  held, and only one side has an open cost.
\<close>

definition pnl_inv :: "exact PositionInfo \<Rightarrow> rat \<Rightarrow> bool" where
  "pnl_inv pos_info cash \<longleftrightarrow> (\<exists>vb vs. open_vwap pos_info (sideToIndex BUY) = Num vb \<and>
     open_vwap pos_info (sideToIndex SELL) = Num vs \<and> real_pnl pos_info = Num (cash + vb - vs) \<and>
     (sint (position pos_info) \<ge> 0 \<longrightarrow> vs = 0) \<and> (sint (position pos_info) \<le> 0 \<longrightarrow> vb = 0))"

lemma sint_word_of_int:
  assumes "- (2 ^ 31) \<le> k" and "k < 2 ^ 31"
  shows "sint (word_of_int k :: 32 word) = k"
  using assms signed_take_bit_int_eq_self [of 31 k] by (simp add: signed_of_int)

lemma sint_in_range:
  fixes w :: "32 word"
  assumes "- (2 ^ 31) \<le> sint w + i" and "sint w + i < 2 ^ 31"
  shows "sint (w + word_of_int i) = sint w + i"
proof -
  have "w + word_of_int i = word_of_int (sint w + i)" by (simp add: of_int_sint)
  then show ?thesis using sint_word_of_int [OF assms] by (simp only:)
qed

lemma fill_ok_facts:
  assumes "fill_ok (sint p) r"
  shows "sint (p + cr_exec_qty r * word_of_int (sideToValue (cr_side r))) = sint p + signed_qty r"
    and "sint (cr_exec_qty r) = int (unat (cr_exec_qty r))" and "int (unat (cr_exec_qty r)) \<le> 92680"
proof -
  show "sint (p + cr_exec_qty r * word_of_int (sideToValue (cr_side r))) = sint p + signed_qty r"
    unfolding position_word by (rule sint_in_range) (use assms in \<open>auto simp: fill_ok_def\<close>)
  show q: "int (unat (cr_exec_qty r)) \<le> 92680" using assms by (auto simp: fill_ok_def signed_qty_def)
  show "sint (cr_exec_qty r) = int (unat (cr_exec_qty r))"
    using q sint_word_of_int [of "uint (cr_exec_qty r)"] order_trans [OF _ uint_ge_0 [of "cr_exec_qty r"]] by simp
qed

text \<open>The same seen from one side, whose value is 1 or -1.\<close>

abbreviation other :: "Side \<Rightarrow> Side" where
  "other s \<equiv> (if s = BUY then SELL else BUY)"

lemma pnl_inv_side:
  assumes "s \<in> {BUY, SELL}"
  shows "pnl_inv pos_info cash \<longleftrightarrow> (\<exists>own opp. open_vwap pos_info (sideToIndex s) = Num own \<and>
     open_vwap pos_info (sideToIndex (other s)) = Num opp \<and>
     real_pnl pos_info = Num (cash + of_int (sideToValue s) * (own - opp)) \<and>
     (sideToValue s * sint (position pos_info) \<ge> 0 \<longrightarrow> opp = 0) \<and>
     (sideToValue s * sint (position pos_info) \<le> 0 \<longrightarrow> own = 0))"
  using assms by (auto simp: pnl_inv_def)

lemma side_value:
  assumes "s \<in> {BUY, SELL}"
  shows "\<bar>sideToValue s\<bar> = 1" and "sideToValue s * sideToValue s = 1" and "sideToIndex s \<noteq> sideToIndex (other s)"
  using assms by auto

lemma fill_cash_one: "fill_cash [r] = - of_int (sideToValue (cr_side r)) * of_int (int (unat (cr_exec_qty r))) * of_int (cr_price r)"
  by (simp add: fill_cash_def signed_qty_def)

lemma increase_pnl:
  assumes inv: "pnl_inv pos_info cash" and ok: "fill_ok (sint (position pos_info)) r"
    and dir: "sint (position pos_info) * sideToValue (cr_side r) \<ge> 0"
    and p1: "p1 = pos_info\<lparr>position := position pos_info + cr_exec_qty r * word_of_int (sideToValue (cr_side r)), volume := v\<rparr>"
  shows "\<exists>p2. addFill_increase exact_ops p1 r = Inr p2 \<and> position p2 = position p1 \<and>
    pnl_inv p2 (cash + fill_cash [r])"
proof -
  note f = fill_ok_facts [OF ok]
  define q where "q = int (unat (cr_exec_qty r))"
  define sv where "sv = sideToValue (cr_side r)"
  have s: "cr_side r \<in> {BUY, SELL}" using ok by (simp add: fill_ok_def)
  note sd = side_value [OF s, folded sv_def]
  have q: "0 \<le> q" by (simp add: q_def)
  have "\<bar>cr_price r * q\<bar> \<le> 2 ^ 40 * 92680"
    unfolding abs_mult using ok f(3) by (intro mult_mono) (auto simp: fill_ok_def q_def)
  then have a: "signed_value 64 (cr_price r * q) = Inr (cr_price r * q)" by (simp add: signed_value_def abs_le_iff)
  have "sint (position p1) = sint (position pos_info) + sv * q" using f(1) p1 by (simp add: signed_qty_def sv_def q_def)
  then have new: "sv * sint (position p1) = sv * sint (position pos_info) + q" using sd(2) by (simp add: algebra_simps flip: mult.assoc)
  from inv obtain own where o: "open_vwap pos_info (sideToIndex (cr_side r)) = Num own"
    "open_vwap pos_info (sideToIndex (other (cr_side r))) = Num 0" "real_pnl pos_info = Num (cash + of_int sv * own)"
    "sv * sint (position pos_info) \<le> 0 \<longrightarrow> own = 0"
    using dir unfolding pnl_inv_side [OF s] sv_def by (auto simp: mult.commute)
  let ?p2 = "p1\<lparr>open_vwap := (open_vwap p1)(sideToIndex (cr_side r) := Num (own + of_int (cr_price r * q)))\<rparr>"
  have "addFill_increase exact_ops p1 r = Inr ?p2"
    using o(1) a p1 by (simp add: addFill_increase_def q_def)
  moreover have "pnl_inv ?p2 (cash + fill_cash [r])"
    unfolding pnl_inv_side [OF s] fill_cash_one q_def [symmetric] sv_def [symmetric]
  proof (intro exI conjI impI)
    show "open_vwap ?p2 (sideToIndex (other (cr_side r))) = Num 0" using o(2) sd(3) p1 by simp
    show "real_pnl ?p2 = Num (cash + - of_int sv * of_int q * of_int (cr_price r) + of_int sv * (own + of_int (cr_price r * q) - 0))"
      using o(3) p1 by (simp add: algebra_simps)
    assume "sv * sint (position ?p2) \<le> 0"
    then have "sv * sint (position pos_info) \<le> 0" "q = 0" using new q dir unfolding sv_def by (simp_all add: mult.commute)
    then show "own + of_int (cr_price r * q) = 0" using o(4) by simp
  qed simp_all
  ultimately show ?thesis by simp
qed

lemma decrease_pnl:
  assumes inv: "pnl_inv pos_info cash" and ok: "fill_ok (sint (position pos_info)) r"
    and dir: "sint (position pos_info) * sideToValue (cr_side r) < 0"
    and p1: "p1 = pos_info\<lparr>position := position pos_info + cr_exec_qty r * word_of_int (sideToValue (cr_side r)), volume := v\<rparr>"
  shows "\<exists>p2. addFill_decrease exact_ops p1 (position pos_info) r = Inr p2 \<and> position p2 = position p1 \<and>
    pnl_inv p2 (cash + fill_cash [r])"
proof -
  note f = fill_ok_facts [OF ok]
  define old where "old = sint (position pos_info)"
  define new where "new = sint (position p1)"
  define q where "q = int (unat (cr_exec_qty r))"
  define sv where "sv = sideToValue (cr_side r)"
  have s: "cr_side r \<in> {BUY, SELL}" using ok by (simp add: fill_ok_def)
  note sd = side_value [OF s, folded sv_def]
  have sv: "sv = 1 \<or> sv = - 1" using s by (auto simp: sv_def)
  have new: "new = old + sv * q" using f(1) p1 by (simp add: new_def old_def signed_qty_def sv_def q_def)
  have b: "\<bar>old\<bar> \<le> 46340" "\<bar>new\<bar> \<le> 46340" "0 \<le> q"
    using ok f(1) p1 by (auto simp: fill_ok_def old_def new_def q_def)
  have a: "abs32 (position pos_info) = Inr \<bar>old\<bar>" "abs32 (position p1) = Inr \<bar>new\<bar>"
    using b by (auto simp: abs32_def signed_value_def old_def new_def)
  have "\<bar>new * old\<bar> \<le> 46340 * 46340" unfolding abs_mult using b by (intro mult_mono) auto
  then have m: "signed_value 32 (new * old) = Inr (new * old)" by (simp add: signed_value_def abs_le_iff)
  have "\<bar>cr_price r * \<bar>new\<bar>\<bar> \<le> 2 ^ 40 * 46340" unfolding abs_mult using ok b by (intro mult_mono) (auto simp: fill_ok_def)
  then have pr: "signed_value 64 (cr_price r * \<bar>new\<bar>) = Inr (cr_price r * \<bar>new\<bar>)" by (simp add: signed_value_def abs_le_iff)
  have old: "old = - sv * \<bar>old\<bar>" "old \<noteq> 0" using dir sv by (auto simp: old_def sv_def)
  from inv obtain opp where o: "open_vwap pos_info (sideToIndex (cr_side r)) = Num 0"
    "open_vwap pos_info (sideToIndex (other (cr_side r))) = Num opp" "real_pnl pos_info = Num (cash - of_int sv * opp)"
    using dir unfolding pnl_inv_side [OF s] sv_def by (auto simp: mult.commute algebra_simps)
  have vw: "open_vwap p1 = open_vwap pos_info" "real_pnl p1 = real_pnl pos_info" using p1 by simp_all
  define vwap where "vwap = opp / of_int \<bar>old\<bar>"
  have opp: "opp = vwap * of_int \<bar>old\<bar>" using old(2) by (simp add: vwap_def)
  define real1 where "real1 = cash - of_int sv * opp + of_int (min q \<bar>old\<bar>) * (vwap - of_int (cr_price r)) * of_int sv"
  let ?v1 = "(open_vwap p1)(sideToIndex (other (cr_side r)) := Num (vwap * of_int \<bar>new\<bar>))"
  have step: "addFill_decrease exact_ops p1 (position pos_info) r =
    (if new * old < 0 then Inr (p1\<lparr>real_pnl := Num real1, open_vwap := ?v1
        (sideToIndex (cr_side r) := Num (of_int (cr_price r * \<bar>new\<bar>)), sideToIndex (other (cr_side r)) := Num 0)\<rparr>)
     else Inr (p1\<lparr>real_pnl := Num real1, open_vwap := ?v1\<rparr>))"
    using o vw a m pr old(2) f(2) s
    by (cases "cr_side r") (simp_all add: addFill_decrease_def Let_def new_def [symmetric] old_def [symmetric] real1_def vwap_def q_def sv_def)
  show ?thesis
  proof (cases "new * old < 0")
    case True
    then have n: "\<bar>old\<bar> < q" "q = \<bar>new\<bar> + \<bar>old\<bar>" "sv * new > 0"
      using sv new old b(3) by (auto simp: mult_less_0_iff)
    have rq: "rat_of_int q = \<bar>rat_of_int new\<bar> + \<bar>rat_of_int old\<bar>" using n(2) by (metis of_int_abs of_int_add)
    have "real1 = cash - of_int sv * of_int q * of_int (cr_price r) + of_int sv * (of_int (cr_price r * \<bar>new\<bar>) - 0)"
      using n(1) by (simp add: real1_def opp min_def rq algebra_simps)
    then show ?thesis using step True n(3) sd(3)
      unfolding pnl_inv_side [OF s] fill_cash_one q_def [symmetric] sv_def [symmetric] by (simp add: new_def [symmetric])
  next
    case False
    then have n: "q \<le> \<bar>old\<bar>" "q = \<bar>old\<bar> - \<bar>new\<bar>" "sv * new \<le> 0" "sv * new \<ge> 0 \<Longrightarrow> new = 0"
      using sv new old b(3) by (auto simp: mult_less_0_iff)
    have rq: "rat_of_int q = \<bar>rat_of_int old\<bar> - \<bar>rat_of_int new\<bar>" using n(2) by (metis of_int_abs of_int_diff)
    have "real1 = cash - of_int sv * of_int q * of_int (cr_price r) + of_int sv * (0 - vwap * of_int \<bar>new\<bar>)"
      using n(1) by (simp add: real1_def opp min_def rq algebra_simps)
    then show ?thesis using step False n(3,4) o(1) sd(3) vw sv
      unfolding pnl_inv_side [OF s] fill_cash_one q_def [symmetric] sv_def [symmetric]
      by (auto simp: new_def [symmetric])
  qed
qed

text \<open>The open profit is the value of the position less its cost.\<close>

lemma open_pnl_exact:
  assumes inv: "pnl_inv pos_info cash" and pos: "position pos_info \<noteq> 0" "\<bar>sint (position pos_info)\<bar> \<le> 46340"
  shows "\<exists>u. open_pnl exact_ops pos_info (Num x) = Inr (Num u) \<and>
    lift2 (+) (Num u) (real_pnl pos_info) = Num (cash + x * of_int (sint (position pos_info)))"
proof -
  define n where "n = sint (position pos_info)"
  have n: "n \<noteq> 0" using pos(1) by (simp add: n_def signed_eq_0_iff)
  have a: "abs32 (position pos_info) = Inr \<bar>n\<bar>" using pos(2) by (simp add: abs32_def signed_value_def n_def)
  obtain vb vs where v: "open_vwap pos_info 2 = Num vb" "open_vwap pos_info 0 = Num vs" "real_pnl pos_info = Num (cash + vb - vs)"
    "n \<ge> 0 \<longrightarrow> vs = 0" "n \<le> 0 \<longrightarrow> vb = 0"
    using inv unfolding pnl_inv_def n_def by auto
  show ?thesis
  proof (cases "n > 0")
    case True
    then show ?thesis using a v n
      by (intro exI [of _ "x * of_int n - vb"]) (simp add: open_pnl_def n_def [symmetric] field_simps)
  next
    case False
    then show ?thesis using a v n
      by (intro exI [of _ "vs + x * of_int n"]) (simp add: open_pnl_def n_def [symmetric] field_simps)
  qed
qed

lemma addFill_pnl_ok:
  assumes inv: "pnl_inv p2 cash" and b: "\<bar>sint (position p2)\<bar> \<le> 46340"
  shows "\<exists>p3. addFill_pnl exact_ops p2 r = Inr p3 \<and> position p3 = position p2 \<and> pnl_inv p3 cash \<and>
    total_pnl p3 = Num (cash + of_int (cr_price r) * of_int (sint (position p2)))"
proof (cases "position p2 = 0")
  case True
  then have "open_vwap p2 2 = Num 0" "open_vwap p2 0 = Num 0" "real_pnl p2 = Num cash"
    using inv by (auto simp: pnl_inv_def)
  then show ?thesis using True by (simp add: addFill_pnl_def pnl_inv_def)
next
  case False
  from open_pnl_exact [OF inv False b, of "of_int (cr_price r)"] obtain u where
    "open_pnl exact_ops p2 (Num (of_int (cr_price r))) = Inr (Num u)"
    "lift2 (+) (Num u) (real_pnl p2) = Num (cash + of_int (cr_price r) * of_int (sint (position p2)))" by blast
  then show ?thesis using False inv by (simp add: addFill_pnl_def pnl_inv_def)
qed

lemma addFill_ok:
  assumes inv: "pnl_inv pos_info cash" and ok: "fill_ok (sint (position pos_info)) r"
  shows "\<exists>p3. PositionInfo_addFill exact_ops pos_info r = Inr p3 \<and> pnl_inv p3 (cash + fill_cash [r]) \<and>
    sint (position p3) = sint (position pos_info) + signed_qty r \<and>
    total_pnl p3 = Num (cash + fill_cash [r] + of_int (cr_price r) * of_int (sint (position p3)))"
proof -
  define p1 where "p1 = pos_info\<lparr>position := position pos_info + cr_exec_qty r * word_of_int (sideToValue (cr_side r)),
    volume := volume pos_info + cr_exec_qty r\<rparr>"
  let ?d = "sint (position pos_info) * sideToValue (cr_side r)"
  have s: "cr_side r \<in> {BUY, SELL}" and b: "\<bar>sint (position pos_info)\<bar> \<le> 46340" "\<bar>sint (position pos_info) + signed_qty r\<bar> \<le> 46340"
    using ok by (simp_all add: fill_ok_def)
  have "signed_value 32 ?d = Inr ?d" using s b(1) by (auto simp: signed_value_def)
  moreover have "\<exists>p2. (if 0 \<le> ?d then addFill_increase exact_ops p1 r else addFill_decrease exact_ops p1 (position pos_info) r) = Inr p2 \<and>
      position p2 = position p1 \<and> pnl_inv p2 (cash + fill_cash [r])"
    using increase_pnl [OF inv ok _ p1_def] decrease_pnl [OF inv ok _ p1_def] by (cases "0 \<le> ?d") auto
  then obtain p2 where p2: "(if 0 \<le> ?d then addFill_increase exact_ops p1 r else addFill_decrease exact_ops p1 (position pos_info) r) = Inr p2"
    "position p2 = position p1" "pnl_inv p2 (cash + fill_cash [r])" by blast
  have pos: "sint (position p2) = sint (position pos_info) + signed_qty r"
    using fill_ok_facts(1) [OF ok] p2(2) by (simp add: p1_def)
  then obtain p3 where p3: "addFill_pnl exact_ops p2 r = Inr p3" "position p3 = position p2" "pnl_inv p3 (cash + fill_cash [r])"
    "total_pnl p3 = Num (cash + fill_cash [r] + of_int (cr_price r) * of_int (sint (position p2)))"
    using addFill_pnl_ok [OF p2(3), of r] b(2) by auto
  ultimately have "PositionInfo_addFill exact_ops pos_info r = Inr p3"
    using p2(1) unfolding PositionInfo_addFill_def Let_def p1_def [symmetric] by simp
  then show ?thesis using p3 pos by simp
qed

fun fills_ok :: "int \<Rightarrow> MEClientResponse list \<Rightarrow> bool" where
  "fills_ok p [] = True"
| "fills_ok p (r # rs) = (fill_ok p r \<and> fills_ok (p + signed_qty r) rs)"

lemma fill_cash_Cons: "fill_cash (r # rs) = fill_cash [r] + fill_cash rs"
  by (simp add: fill_cash_def)

lemma addFills_ok:
  assumes "pnl_inv pos_info cash" and "fills_ok (sint (position pos_info)) rs"
  shows "\<exists>p. addFills exact_ops pos_info rs = Inr p \<and> pnl_inv p (cash + fill_cash rs) \<and>
    sint (position p) = sint (position pos_info) + net_qty rs \<and>
    (rs \<noteq> [] \<longrightarrow> total_pnl p = Num (cash + fill_cash rs + of_int (cr_price (last rs)) * of_int (sint (position p))))"
  using assms
proof (induction rs arbitrary: pos_info cash)
  case Nil
  then show ?case by (simp add: net_qty_def fill_cash_def)
next
  case (Cons r rs)
  from addFill_ok [OF Cons.prems(1), of r] Cons.prems(2) obtain p1 where
    p1: "PositionInfo_addFill exact_ops pos_info r = Inr p1" "pnl_inv p1 (cash + fill_cash [r])"
    "sint (position p1) = sint (position pos_info) + signed_qty r"
    "total_pnl p1 = Num (cash + fill_cash [r] + of_int (cr_price r) * of_int (sint (position p1)))" by auto
  show ?case
  proof (cases "rs = []")
    case True
    then show ?thesis using p1 by (simp add: net_qty_def)
  next
    case False
    then show ?thesis using Cons.IH [OF p1(2)] Cons.prems(2) p1
      by (simp add: net_qty_def fill_cash_Cons [of r rs] add.assoc)
  qed
qed

section \<open>Properties\<close>

text \<open>The position. Whatever the arithmetic of the prices, after any fills that are taken without
  a fault the position is the old one plus what was bought less what was sold, and the volume the
  old one plus all that was traded, both modulo the 32 bits they are held in.\<close>

theorem position_tracks_fills:
  assumes "addFills F pos_info rs = Inr pos1"
  shows "position pos1 = position pos_info + word_of_int (net_qty rs) \<and>
    volume pos1 = volume pos_info + of_nat (sum_list (map (\<lambda>r. unat (cr_exec_qty r)) rs))"
  using addFills_position [OF assms] by simp

definition demo_fill :: "Side \<Rightarrow> Price \<Rightarrow> Qty \<Rightarrow> MEClientResponse" where
  "demo_fill s price qty = MEClientResponse_default\<lparr>cr_type := FILLED, cr_ticker_id := 1, cr_side := s, cr_price := price, cr_exec_qty := qty\<rparr>"

definition demo_position :: "exact PositionInfo" where
  "demo_position = PositionInfo_default exact_ops (\<lambda>_. Num 0)"

theorem position_tracks_fills_witness:
  "\<exists>p. addFills exact_ops demo_position [demo_fill BUY 100 10, demo_fill SELL 110 15] = Inr p \<and>
     position p = - 5 \<and> volume p = 25"
proof -
  have "\<exists>p. addFills exact_ops demo_position [demo_fill BUY 100 10, demo_fill SELL 110 15] = Inr p"
    using addFills_ok [of demo_position 0 "[demo_fill BUY 100 10, demo_fill SELL 110 15]"]
    by (auto simp: demo_position_def PositionInfo_default_def pnl_inv_def fill_ok_def demo_fill_def signed_qty_def)
  then obtain p where p: "addFills exact_ops demo_position [demo_fill BUY 100 10, demo_fill SELL 110 15] = Inr p" by blast
  show ?thesis using position_tracks_fills [OF p] p
    by (simp add: demo_position_def PositionInfo_default_def net_qty_def signed_qty_def demo_fill_def)
qed

text \<open>C32: Profit and loss balance. In exact arithmetic, from an empty position with zeroed costs, any
  fills within the bounds are taken without a fault, and afterwards the total profit is the cash
  that the fills have moved plus the position at the last traded price, through every increase,
  decrease and change of sign of the position.\<close>

theorem pnl_balances:
  assumes "mem (sideToIndex BUY) = Num 0" and "mem (sideToIndex SELL) = Num 0" and "fills_ok 0 rs" and "rs \<noteq> []"
  shows "\<exists>p. addFills exact_ops (PositionInfo_default exact_ops mem) rs = Inr p \<and>
    sint (position p) = net_qty rs \<and>
    total_pnl p = Num (fill_cash rs + of_int (cr_price (last rs)) * of_int (net_qty rs))"
proof -
  have "pnl_inv (PositionInfo_default exact_ops mem) 0"
    using assms(1,2) by (simp add: pnl_inv_def PositionInfo_default_def)
  from addFills_ok [OF this, of rs] assms(3,4) show ?thesis by (auto simp: PositionInfo_default_def)
qed

theorem pnl_balances_witness:
  "\<exists>p. addFills exact_ops demo_position [demo_fill BUY 100 10, demo_fill SELL 110 15, demo_fill BUY 90 5] = Inr p \<and>
     sint (position p) = 0 \<and> total_pnl p = Num 200"
  using pnl_balances [of "\<lambda>_. Num 0" "[demo_fill BUY 100 10, demo_fill SELL 110 15, demo_fill BUY 90 5]"]
  by (auto simp: demo_position_def fill_ok_def demo_fill_def signed_qty_def net_qty_def fill_cash_def)

text \<open>The product of two positions. A fill that turns a position whose product with the new one
  needs more than 32 bits is undefined behaviour in the test for the change of sign, whatever the
  arithmetic of the prices: for instance from 50000 to -50000.\<close>

theorem position_product_overflows:
  "PositionInfo_addFill F ((PositionInfo_default F mem)\<lparr>position := 50000\<rparr>) (demo_fill SELL 100 100000) = Inl Signed_overflow"
  by (simp add: PositionInfo_addFill_def Let_def PositionInfo_default_def demo_fill_def signed_value_def addFill_decrease_def abs32_def)

declare of_int_sint [simp]

end
