(* ===== verification/Risk_Manager.thy ===== *)
theory Risk_Manager
  imports Position_Keeper
begin

text \<open>
  The pre-trade risk check of \<^verbatim>\<open>src/trading/strategy/risk_manager.h\<close> and
  \<^verbatim>\<open>risk_manager.cpp\<close>. A \<^verbatim>\<open>RiskInfo\<close> points into the array of the position keeper: the
  pointer is the index, and the keeper is an argument of the check.
\<close>

section \<open>The classes\<close>

datatype RiskCheckResult = Risk_INVALID | ORDER_TOO_LARGE | POSITION_TOO_LARGE | LOSS_TOO_LARGE | ALLOWED

fun riskCheckResultToString :: "RiskCheckResult \<Rightarrow> string" where
  "riskCheckResultToString Risk_INVALID = ''INVALID''"
| "riskCheckResultToString ORDER_TOO_LARGE = ''ORDER_TOO_LARGE''"
| "riskCheckResultToString POSITION_TOO_LARGE = ''POSITION_TOO_LARGE''"
| "riskCheckResultToString LOSS_TOO_LARGE = ''LOSS_TOO_LARGE''"
| "riskCheckResultToString ALLOWED = ''ALLOWED''"

record 'f RiskInfo =
  position_info :: pointer
  ri_risk_cfg :: "'f RiskCfg"

text \<open>
  The three tests in their order. The quantity is cast to a signed integer of 32 bits; the product
  with the side, the sum with the position and its absolute value are signed operations.
\<close>

definition RiskInfo_checkPreTradeRisk ::
    "'f double_ops \<Rightarrow> 'f PositionKeeper \<Rightarrow> 'f RiskInfo \<Rightarrow> Side \<Rightarrow> Qty \<Rightarrow> RiskCheckResult result" where
  "RiskInfo_checkPreTradeRisk F pk ri side qty =
     (if qty > max_order_size (ri_risk_cfg ri) then Inr ORDER_TOO_LARGE
      else
        andThen (not_null (position_info ri)) (\<lambda>i.
        andThen (signed_value 32 (sideToValue side * sint qty)) (\<lambda>change.
        andThen (signed_value 32 (sint (position (pk i)) + change)) (\<lambda>sum.
        andThen (signed_value 32 \<bar>sum\<bar>) (\<lambda>size.
        if size > sint (max_position (ri_risk_cfg ri)) then Inr POSITION_TOO_LARGE
        else if d_less F (total_pnl (pk i)) (max_loss (ri_risk_cfg ri)) then Inr LOSS_TOO_LARGE
        else Inr ALLOWED)))))"

type_synonym 'f RiskManager = "nat \<Rightarrow> 'f RiskInfo"

text \<open>The constructor: entry \<open>i\<close> points at the keeper's entry \<open>i\<close> and has the limits of ticker \<open>i\<close>.\<close>

definition RiskManager_new :: "(nat \<Rightarrow> 'f TradeEngineCfg) \<Rightarrow> 'f RiskManager" where
  "RiskManager_new ticker_cfg = (\<lambda>i. \<lparr>position_info = Some i, ri_risk_cfg = risk_cfg (ticker_cfg i)\<rparr>)"

definition checkPreTradeRisk ::
    "'f double_ops \<Rightarrow> 'f PositionKeeper \<Rightarrow> 'f RiskManager \<Rightarrow> TickerId \<Rightarrow> Side \<Rightarrow> Qty \<Rightarrow> RiskCheckResult result" where
  "checkPreTradeRisk F pk rm ticker_id side qty =
     andThen (array_at ME_MAX_TICKERS rm (unat ticker_id)) (\<lambda>ri. RiskInfo_checkPreTradeRisk F pk ri side qty)"

section \<open>What the check promises\<close>

text \<open>A quantity below \<open>2 ^ 31\<close> is not changed by its cast.\<close>

lemma sint_small:
  fixes q :: "32 word"
  assumes "uint q < 2 ^ 31"
  shows "sint q = uint q"
  using sint_word_of_int [of "uint q"] assms order_trans [OF _ uint_ge_0 [of q]] by simp

text \<open>The limits of a ticker that an order of a quantity would keep.\<close>

definition within_limits ::
    "'f double_ops \<Rightarrow> 'f PositionInfo \<Rightarrow> 'f RiskCfg \<Rightarrow> Side \<Rightarrow> Qty \<Rightarrow> bool" where
  "within_limits F info cfg side qty \<longleftrightarrow> uint qty \<le> uint (max_order_size cfg) \<and>
     \<bar>sint (position info) + sideToValue side * uint qty\<bar> \<le> sint (max_position cfg) \<and>
     \<not> d_less F (total_pnl info) (max_loss cfg)"

lemmas check_defs = checkPreTradeRisk_def RiskInfo_checkPreTradeRisk_def RiskManager_new_def within_limits_def

lemma allowed_limits:
  assumes "checkPreTradeRisk F pk (RiskManager_new ticker_cfg) ticker_id side qty = Inr ALLOWED"
    and small: "uint (max_order_size (risk_cfg (ticker_cfg (unat ticker_id)))) < 2 ^ 31"
  shows "within_limits F (pk (unat ticker_id)) (risk_cfg (ticker_cfg (unat ticker_id))) side qty"
proof -
  let ?cfg = "risk_cfg (ticker_cfg (unat ticker_id))"
  have le: "uint qty \<le> uint (max_order_size ?cfg)"
  proof (rule ccontr)
    assume "\<not> ?thesis"
    then have "qty > max_order_size ?cfg" by (simp add: word_less_def)
    with assms(1) show False by (simp add: check_defs result_simps)
  qed
  then have "sint qty = uint qty" using small by (intro sint_small) simp
  moreover have "\<not> qty > max_order_size ?cfg" using le by (simp add: word_less_def)
  ultimately show ?thesis
    using le assms(1) by (simp add: check_defs result_simps split: if_split_asm)
qed

text \<open>When the limits leave room below \<open>2 ^ 31\<close>, no operation of the check overflows.\<close>

definition room_for :: "'f RiskCfg \<Rightarrow> int \<Rightarrow> bool" where
  "room_for cfg pos \<longleftrightarrow> uint (max_order_size cfg) + \<bar>pos\<bar> < 2 ^ 31"

lemma signed_ops:
  fixes p q v :: int
  assumes "0 \<le> q" and "q + \<bar>p\<bar> < 2 ^ 31" and "v = 1 \<or> v = - 1"
  shows "signed_value 32 (v * q) = Inr (v * q)" and "signed_value 32 (p + v * q) = Inr (p + v * q)"
    and "signed_value 32 \<bar>p + v * q\<bar> = Inr \<bar>p + v * q\<bar>"
  using assms by (auto simp: signed_value_def)

lemma check_total:
  assumes "unat ticker_id < ME_MAX_TICKERS" and "side \<in> {BUY, SELL}"
    and "room_for (risk_cfg (ticker_cfg (unat ticker_id))) (sint (position (pk (unat ticker_id))))"
  shows "\<exists>res. checkPreTradeRisk F pk (RiskManager_new ticker_cfg) ticker_id side qty = Inr res \<and>
    (res = ALLOWED \<longleftrightarrow> within_limits F (pk (unat ticker_id)) (risk_cfg (ticker_cfg (unat ticker_id))) side qty)"
proof (cases "qty > max_order_size (risk_cfg (ticker_cfg (unat ticker_id)))")
  case True
  with assms(1) show ?thesis
    by (simp add: checkPreTradeRisk_def RiskInfo_checkPreTradeRisk_def RiskManager_new_def within_limits_def
        word_less_def)
next
  case False
  let ?p = "sint (position (pk (unat ticker_id)))"
  from False have le: "uint qty \<le> uint (max_order_size (risk_cfg (ticker_cfg (unat ticker_id))))"
    by (simp add: word_less_def)
  with assms(3) have small: "uint qty < 2 ^ 31" "uint qty + \<bar>?p\<bar> < 2 ^ 31"
    by (simp_all add: room_for_def)
  then have s: "sint qty = uint qty" by (intro sint_small)
  have v: "sideToValue side = 1 \<or> sideToValue side = - 1" using assms(2) by auto
  note ok = signed_ops [OF uint_ge_0 small(2) v]
  show ?thesis
    using False le assms(1) s ok
    by (simp add: checkPreTradeRisk_def RiskInfo_checkPreTradeRisk_def RiskManager_new_def within_limits_def)
qed

section \<open>Properties\<close>

text \<open>C33: The risk check is exact. For a ticker the array has and a side, with limits that leave room
  below two to the power 31, the check does not overflow, and it allows an order if and only if the
  quantity is at most the largest order size, the position after a complete fill is at most the
  largest position on either side, and the profit and loss is not below the limit.\<close>

theorem risk_check_exact:
  assumes "unat ticker_id < ME_MAX_TICKERS" and "side \<in> {BUY, SELL}"
    and "room_for (risk_cfg (ticker_cfg (unat ticker_id))) (sint (position (pk (unat ticker_id))))"
  shows "\<exists>res. checkPreTradeRisk F pk (RiskManager_new ticker_cfg) ticker_id side qty = Inr res \<and>
    (res = ALLOWED \<longleftrightarrow>
       uint qty \<le> uint (max_order_size (risk_cfg (ticker_cfg (unat ticker_id)))) \<and>
       \<bar>sint (position (pk (unat ticker_id))) + sideToValue side * uint qty\<bar>
         \<le> sint (max_position (risk_cfg (ticker_cfg (unat ticker_id)))) \<and>
       \<not> d_less F (total_pnl (pk (unat ticker_id))) (max_loss (risk_cfg (ticker_cfg (unat ticker_id)))))"
  using check_total [of ticker_id side ticker_cfg pk F qty] assms unfolding within_limits_def by blast

definition demo_cfg :: "exact TradeEngineCfg" where
  "demo_cfg = \<lparr>clip = 10, threshold = Num 1,
     risk_cfg = \<lparr>max_order_size = 100, max_position = 50, max_loss = Num (- 5)\<rparr>\<rparr>"

definition demo_keeper :: "exact PositionKeeper" where
  "demo_keeper = (\<lambda>_. PositionInfo_default exact_ops (\<lambda>_. Num 0))"

theorem risk_check_exact_witness:
  "checkPreTradeRisk exact_ops demo_keeper (RiskManager_new (\<lambda>_. demo_cfg)) 3 BUY 50 = Inr ALLOWED \<and>
   checkPreTradeRisk exact_ops demo_keeper (RiskManager_new (\<lambda>_. demo_cfg)) 3 SELL 51 \<noteq> Inr ALLOWED"
proof -
  have max: "sint (50 :: 32 word) = 50" by (simp add: sint_small)
  have room: "room_for (risk_cfg demo_cfg) (sint (position (demo_keeper 3)))"
    by (simp add: room_for_def demo_cfg_def demo_keeper_def PositionInfo_default_def)
  show ?thesis
    using risk_check_exact [of 3 BUY "\<lambda>_. demo_cfg" demo_keeper exact_ops 50]
      risk_check_exact [of 3 SELL "\<lambda>_. demo_cfg" demo_keeper exact_ops 51] room max
    by (auto simp: ME_MAX_TICKERS_def demo_cfg_def demo_keeper_def PositionInfo_default_def)
qed

text \<open>The cast in the check. With a limit on the order size that a signed integer of 32 bits cannot
  hold, the check allows an order for the largest quantity there is, although a fill of it would
  take the position far over its limit: the cast makes the quantity minus one.\<close>

theorem risk_cast_allows:
  "checkPreTradeRisk exact_ops demo_keeper
     (RiskManager_new (\<lambda>_. demo_cfg\<lparr>risk_cfg := (risk_cfg demo_cfg)\<lparr>max_order_size := - 1\<rparr>\<rparr>)) 3 BUY (- 1) = Inr ALLOWED \<and>
   uint (- 1 :: Qty) > sint (max_position (risk_cfg demo_cfg))"
proof -
  have "sint (50 :: 32 word) = 50" "uint (- 1 :: 32 word) = 2 ^ 32 - 1"
    by (simp_all add: sint_small uint_word_ariths)
  then show ?thesis
    by (simp add: checkPreTradeRisk_def RiskInfo_checkPreTradeRisk_def RiskManager_new_def demo_cfg_def
        demo_keeper_def PositionInfo_default_def ME_MAX_TICKERS_def signed_value_def)
qed

end
