(* ===== verification/Order_Manager.thy ===== *)
theory Order_Manager
  imports Risk_Manager
begin

text \<open>
  The order manager of \<^verbatim>\<open>src/trading/strategy/order_manager.h\<close>, \<^verbatim>\<open>order_manager.cpp\<close> and
  \<^verbatim>\<open>om_order.h\<close>: one order per ticker and side, moved to the price a strategy asks for. The
  manager sends its requests through a pointer to the trade engine; here it is given the two members
  it uses, the client id and \<^verbatim>\<open>sendClientRequest\<close>, which acts on the state \<open>'s\<close> of the engine.
\<close>

section \<open>Orders\<close>

datatype OMOrderState = State_INVALID | PENDING_NEW | LIVE | PENDING_CANCEL | DEAD

fun OMOrderStateToString :: "OMOrderState \<Rightarrow> string" where
  "OMOrderStateToString PENDING_NEW = ''PENDING_NEW''"
| "OMOrderStateToString LIVE = ''LIVE''"
| "OMOrderStateToString PENDING_CANCEL = ''PENDING_CANCEL''"
| "OMOrderStateToString DEAD = ''DEAD''"
| "OMOrderStateToString State_INVALID = ''INVALID''"

record OMOrder =
  om_ticker_id :: TickerId
  om_order_id :: OrderId
  om_side :: Side
  om_price :: Price
  om_qty :: Qty
  order_state :: OMOrderState

definition OMOrder_default :: OMOrder where
  "OMOrder_default =
     \<lparr>om_ticker_id = TickerId_INVALID, om_order_id = OrderId_INVALID, om_side = Side_INVALID,
      om_price = Price_INVALID, om_qty = Qty_INVALID, order_state = State_INVALID\<rparr>"

definition OMOrder_toString :: "OMOrder \<Rightarrow> string" where
  "OMOrder_toString x =
     ''OMOrder['' @ ''tid:'' @ tickerIdToString (om_ticker_id x) @ '' '' @
     ''oid:'' @ orderIdToString (om_order_id x) @ '' '' @ ''side:'' @ sideToString (om_side x) @ '' '' @
     ''price:'' @ priceToString (om_price x) @ '' '' @ ''qty:'' @ qtyToString (om_qty x) @ '' '' @
     ''state:'' @ OMOrderStateToString (order_state x) @ '']''"

section \<open>The manager\<close>

record OrderManager =
  ticker_side_order :: "nat \<Rightarrow> nat \<Rightarrow> OMOrder"
  next_order_id :: OrderId

definition OrderManager_new :: OrderManager where
  "OrderManager_new = \<lparr>ticker_side_order = (\<lambda>_ _. OMOrder_default), next_order_id = 1\<rparr>"

record 's engine_link =
  clientId :: ClientId
  sendClientRequest :: "'s \<Rightarrow> MEClientRequest \<Rightarrow> 's"

text \<open>The checked access to the order of a ticker and side, and the assignment through its pointer.\<close>

definition om_slot :: "OrderManager \<Rightarrow> TickerId \<Rightarrow> Side \<Rightarrow> OMOrder result" where
  "om_slot om ticker_id side =
     andThen (array_at ME_MAX_TICKERS (ticker_side_order om) (unat ticker_id)) (\<lambda>orders.
     array_at (sideToIndex Side_MAX + 1) orders (sideToIndex side))"

definition set_slot :: "OrderManager \<Rightarrow> TickerId \<Rightarrow> Side \<Rightarrow> OMOrder \<Rightarrow> OrderManager" where
  "set_slot om ticker_id side x =
     om\<lparr>ticker_side_order := (ticker_side_order om)(unat ticker_id :=
       (ticker_side_order om (unat ticker_id))(sideToIndex side := x))\<rparr>"

definition onOrderUpdate :: "OrderManager \<Rightarrow> MEClientResponse \<Rightarrow> OrderManager result" where
  "onOrderUpdate om r =
     andThen (om_slot om (cr_ticker_id r) (cr_side r)) (\<lambda>x.
     Inr (case cr_type r of
        ACCEPTED \<Rightarrow> set_slot om (cr_ticker_id r) (cr_side r) (x\<lparr>order_state := LIVE\<rparr>)
      | CANCELED \<Rightarrow> set_slot om (cr_ticker_id r) (cr_side r) (x\<lparr>order_state := DEAD\<rparr>)
      | FILLED \<Rightarrow>
          let x1 = x\<lparr>om_qty := cr_leaves_qty r\<rparr> in
          set_slot om (cr_ticker_id r) (cr_side r) (if om_qty x1 = 0 then x1\<lparr>order_state := DEAD\<rparr> else x1)
      | CANCEL_REJECTED \<Rightarrow> om
      | Response_INVALID \<Rightarrow> om))"

text \<open>
  \<^verbatim>\<open>newOrder\<close> and \<^verbatim>\<open>cancelOrder\<close> get a pointer to an order of the table: it is given by
  ticker and side.
\<close>

definition newOrder ::
    "'s engine_link \<Rightarrow> TickerId \<Rightarrow> Price \<Rightarrow> Side \<Rightarrow> Qty \<Rightarrow> OrderManager \<times> 's \<Rightarrow> OrderManager \<times> 's" where
  "newOrder te ticker_id price side qty = (\<lambda>(om, s).
     let new_request = \<lparr>rq_type = Request_NEW, rq_client_id = clientId te, rq_ticker_id = ticker_id,
           rq_order_id = next_order_id om, rq_side = side, rq_price = price, rq_qty = qty\<rparr>;
         s1 = sendClientRequest te s new_request;
         om1 = set_slot om ticker_id side
           \<lparr>om_ticker_id = ticker_id, om_order_id = next_order_id om, om_side = side, om_price = price,
            om_qty = qty, order_state = PENDING_NEW\<rparr> in
     (om1\<lparr>next_order_id := next_order_id om1 + 1\<rparr>, s1))"

definition cancelOrder ::
    "'s engine_link \<Rightarrow> TickerId \<Rightarrow> Side \<Rightarrow> OMOrder \<Rightarrow> OrderManager \<times> 's \<Rightarrow> OrderManager \<times> 's" where
  "cancelOrder te ticker_id side x = (\<lambda>(om, s).
     let cancel_request = \<lparr>rq_type = Request_CANCEL, rq_client_id = clientId te, rq_ticker_id = om_ticker_id x,
           rq_order_id = om_order_id x, rq_side = om_side x, rq_price = om_price x, rq_qty = om_qty x\<rparr>;
         s1 = sendClientRequest te s cancel_request in
     (set_slot om ticker_id side (x\<lparr>order_state := PENDING_CANCEL\<rparr>), s1))"

text \<open>The branch of an order that does not exist, and the whole switch.\<close>

definition moveOrder_new ::
    "'f double_ops \<Rightarrow> 'f PositionKeeper \<Rightarrow> 'f RiskManager \<Rightarrow> 's engine_link \<Rightarrow> TickerId \<Rightarrow> Price \<Rightarrow> Side \<Rightarrow> Qty
       \<Rightarrow> OrderManager \<times> 's \<Rightarrow> (OrderManager \<times> 's) result" where
  "moveOrder_new F pk rm te ticker_id price side qty st =
     (if price \<noteq> Price_INVALID then
        andThen (checkPreTradeRisk F pk rm ticker_id side qty) (\<lambda>risk_result.
        Inr (if risk_result = ALLOWED then newOrder te ticker_id price side qty st else st))
      else Inr st)"

definition moveOrder ::
    "'f double_ops \<Rightarrow> 'f PositionKeeper \<Rightarrow> 'f RiskManager \<Rightarrow> 's engine_link \<Rightarrow> OMOrder \<Rightarrow> TickerId \<Rightarrow> Price \<Rightarrow> Side \<Rightarrow> Qty
       \<Rightarrow> OrderManager \<times> 's \<Rightarrow> (OrderManager \<times> 's) result" where
  "moveOrder F pk rm te x ticker_id price side qty st =
     (case order_state x of
        LIVE \<Rightarrow> Inr (if om_price x \<noteq> price then cancelOrder te ticker_id side x st else st)
      | State_INVALID \<Rightarrow> moveOrder_new F pk rm te ticker_id price side qty st
      | DEAD \<Rightarrow> moveOrder_new F pk rm te ticker_id price side qty st
      | PENDING_NEW \<Rightarrow> Inr st
      | PENDING_CANCEL \<Rightarrow> Inr st)"

definition moveOrders ::
    "'f double_ops \<Rightarrow> 'f PositionKeeper \<Rightarrow> 'f RiskManager \<Rightarrow> 's engine_link \<Rightarrow> TickerId \<Rightarrow> Price \<Rightarrow> Price \<Rightarrow> Qty
       \<Rightarrow> OrderManager \<times> 's \<Rightarrow> (OrderManager \<times> 's) result" where
  "moveOrders F pk rm te ticker_id bid ask clip_qty st =
     andThen (om_slot (fst st) ticker_id BUY) (\<lambda>bid_order.
     andThen (moveOrder F pk rm te bid_order ticker_id bid BUY clip_qty st) (\<lambda>st1.
     andThen (om_slot (fst st1) ticker_id SELL) (\<lambda>ask_order.
     moveOrder F pk rm te ask_order ticker_id ask SELL clip_qty st1)))"

definition getOMOrderSideHashMap :: "OrderManager \<Rightarrow> TickerId \<Rightarrow> (nat \<Rightarrow> OMOrder) result" where
  "getOMOrderSideHashMap om ticker_id = array_at ME_MAX_TICKERS (ticker_side_order om) (unat ticker_id)"

section \<open>The cases of a move\<close>

definition slot :: "OrderManager \<Rightarrow> nat \<Rightarrow> Side \<Rightarrow> OMOrder" where
  "slot om t side = ticker_side_order om t (sideToIndex side)"

definition is_open :: "OMOrder \<Rightarrow> bool" where
  "is_open x \<longleftrightarrow> order_state x \<in> {PENDING_NEW, LIVE, PENDING_CANCEL}"

lemma om_slot_eq [result_simps]:
  "om_slot om ticker_id side = Inr x \<longleftrightarrow> unat ticker_id < ME_MAX_TICKERS \<and> x = slot om (unat ticker_id) side"
  by (cases side) (auto simp: om_slot_def slot_def result_simps)

lemma slot_set [simp]:
  "slot (set_slot om ticker_id side x) t s = (if t = unat ticker_id \<and> s = side then x else slot om t s)"
  by (simp add: slot_def set_slot_def sideToIndex_inj)

lemma set_slot_next [simp]: "next_order_id (set_slot om ticker_id side x) = next_order_id om"
  by (simp add: set_slot_def)

lemma slot_next [simp]: "slot (om\<lparr>next_order_id := i\<rparr>) = slot om"
  by (rule ext, rule ext) (simp add: slot_def)

lemma moveOrder_cases:
  assumes "moveOrder F pk rm te x ticker_id price side qty st = Inr st'"
  obtains (same) "st' = st"
  | (cancelled) "order_state x = LIVE" "st' = cancelOrder te ticker_id side x st"
  | (sent) "\<not> is_open x" "checkPreTradeRisk F pk rm ticker_id side qty = Inr ALLOWED" "price \<noteq> Price_INVALID"
      "st' = newOrder te ticker_id price side qty st"
  using assms
  by (auto simp: moveOrder_def moveOrder_new_def is_open_def result_simps split: OMOrderState.splits if_splits)

lemma moveOrder_slots:
  assumes "moveOrder F pk rm te x ticker_id price side qty st = Inr st'" and "s \<noteq> side"
  shows "slot (fst st') t s = slot (fst st) t s"
  using assms(1)
proof (cases rule: moveOrder_cases)
  case cancelled
  with assms(2) show ?thesis by (simp add: cancelOrder_def Let_def split: prod.splits)
next
  case sent
  with assms(2) show ?thesis by (simp add: newOrder_def Let_def split: prod.splits)
qed simp

section \<open>The manager, the position keeper and the exchange\<close>

text \<open>
  The trading side as a transition system: a strategy moves the orders of a ticker, a response of the
  exchange comes in, the best prices change. The requests sent and the responses received are
  recorded. \<open>honest\<close> says what a response may be: the exchange accepts an order that was sent,
  cancels one on request, fills one for at most its quantity, and rejects a cancel at any time (which
  the matching engine does with an invalid side).
\<close>

record 'f trader =
  tr_om :: OrderManager
  tr_pk :: "'f PositionKeeper"
  tr_sent :: "MEClientRequest list"
  tr_rcvd :: "MEClientResponse list"

definition log_link :: "ClientId \<Rightarrow> MEClientRequest list engine_link" where
  "log_link cid = \<lparr>clientId = cid, sendClientRequest = (\<lambda>l r. l @ [r])\<rparr>"

definition honest :: "OrderManager \<Rightarrow> MEClientResponse \<Rightarrow> bool" where
  "honest om r \<longleftrightarrow> unat (cr_ticker_id r) < ME_MAX_TICKERS \<and>
     (cr_type r \<in> {ACCEPTED, CANCELED, FILLED} \<longrightarrow> cr_side r \<in> {BUY, SELL}) \<and>
     (let x = slot om (unat (cr_ticker_id r)) (cr_side r) in
      case cr_type r of
        ACCEPTED \<Rightarrow> order_state x = PENDING_NEW
      | CANCELED \<Rightarrow> order_state x = PENDING_CANCEL
      | FILLED \<Rightarrow> order_state x \<in> {LIVE, PENDING_CANCEL} \<and>
          uint (cr_exec_qty r) + uint (cr_leaves_qty r) = uint (om_qty x)
      | _ \<Rightarrow> True)"

text \<open>What the trade engine does with a response: position first, then the order manager.\<close>

definition take_response ::
    "'f double_ops \<Rightarrow> OrderManager \<Rightarrow> 'f PositionKeeper \<Rightarrow> MEClientResponse \<Rightarrow> (OrderManager \<times> 'f PositionKeeper) result" where
  "take_response F om pk r =
     andThen (if cr_type r = FILLED then addFill F pk r else Inr pk) (\<lambda>pk1.
     andThen (onOrderUpdate om r) (\<lambda>om1. Inr (om1, pk1)))"

inductive trader_step ::
    "'f double_ops \<Rightarrow> 'f RiskManager \<Rightarrow> ClientId \<Rightarrow> 'f trader \<Rightarrow> 'f trader \<Rightarrow> bool" for F rm cid where
  move: "moveOrders F (tr_pk s) rm (log_link cid) ticker_id bid ask qty (tr_om s, tr_sent s) = Inr (om, sent) \<Longrightarrow>
    trader_step F rm cid s (s\<lparr>tr_om := om, tr_sent := sent\<rparr>)"
| response: "honest (tr_om s) r \<Longrightarrow> take_response F (tr_om s) (tr_pk s) r = Inr (om, pk) \<Longrightarrow>
    trader_step F rm cid s (s\<lparr>tr_om := om, tr_pk := pk, tr_rcvd := tr_rcvd s @ [r]\<rparr>)"
| prices: "updateBBO F (tr_pk s) ticker_id bbo = Inr pk \<Longrightarrow> trader_step F rm cid s (s\<lparr>tr_pk := pk\<rparr>)"

inductive_cases trader_stepE [consumes 1, case_names move response prices]: "trader_step F rm cid s s'"

definition trader_init :: "'f PositionKeeper \<Rightarrow> 'f trader" where
  "trader_init pk = \<lparr>tr_om = OrderManager_new, tr_pk = pk, tr_sent = [], tr_rcvd = []\<rparr>"

inductive trader_reachable ::
    "'f double_ops \<Rightarrow> 'f RiskManager \<Rightarrow> ClientId \<Rightarrow> 'f PositionKeeper \<Rightarrow> 'f trader \<Rightarrow> bool" for F rm cid pk where
  start: "trader_reachable F rm cid pk (trader_init pk)"
| step: "trader_reachable F rm cid pk s \<Longrightarrow> trader_step F rm cid s s' \<Longrightarrow> trader_reachable F rm cid pk s'"

text \<open>
  An invariant of the system need only be shown for the single actions: a cancel of a live order, a
  new order that the risk check allows while there is none, a response, and a change of prices.
\<close>

locale trader_invariant =
  fixes F :: "'f double_ops" and rm :: "'f RiskManager" and cid :: ClientId
    and Q :: "'f trader \<Rightarrow> bool"
  assumes cancel: "\<lbrakk>Q s; unat ticker_id < ME_MAX_TICKERS; side \<in> {BUY, SELL};
      order_state (slot (tr_om s) (unat ticker_id) side) = LIVE;
      (om, sent) = cancelOrder (log_link cid) ticker_id side (slot (tr_om s) (unat ticker_id) side) (tr_om s, tr_sent s)\<rbrakk>
      \<Longrightarrow> Q (s\<lparr>tr_om := om, tr_sent := sent\<rparr>)"
    and new: "\<lbrakk>Q s; unat ticker_id < ME_MAX_TICKERS; side \<in> {BUY, SELL};
      \<not> is_open (slot (tr_om s) (unat ticker_id) side);
      checkPreTradeRisk F (tr_pk s) rm ticker_id side qty = Inr ALLOWED;
      (om, sent) = newOrder (log_link cid) ticker_id price side qty (tr_om s, tr_sent s)\<rbrakk>
      \<Longrightarrow> Q (s\<lparr>tr_om := om, tr_sent := sent\<rparr>)"
    and response: "\<lbrakk>Q s; honest (tr_om s) r; take_response F (tr_om s) (tr_pk s) r = Inr (om, pk)\<rbrakk>
      \<Longrightarrow> Q (s\<lparr>tr_om := om, tr_pk := pk, tr_rcvd := tr_rcvd s @ [r]\<rparr>)"
    and prices: "\<lbrakk>Q s; updateBBO F (tr_pk s) ticker_id bbo = Inr pk\<rbrakk> \<Longrightarrow> Q (s\<lparr>tr_pk := pk\<rparr>)"
begin

lemma move_one:
  assumes "Q s" and "unat ticker_id < ME_MAX_TICKERS" and "side \<in> {BUY, SELL}"
    and "moveOrder F (tr_pk s) rm (log_link cid) (slot (tr_om s) (unat ticker_id) side) ticker_id price side qty
      (tr_om s, tr_sent s) = Inr (om, sent)"
  shows "Q (s\<lparr>tr_om := om, tr_sent := sent\<rparr>)"
  using assms(4)
proof (cases rule: moveOrder_cases)
  case same
  then have "s\<lparr>tr_om := om, tr_sent := sent\<rparr> = s" by simp
  with assms(1) show ?thesis by simp
next
  case cancelled
  from cancel [OF assms(1,2,3) this] show ?thesis .
next
  case sent
  from new [OF assms(1,2,3) sent(1,2,4)] show ?thesis .
qed

lemma moves:
  assumes "Q s" and "moveOrders F (tr_pk s) rm (log_link cid) ticker_id bid ask qty (tr_om s, tr_sent s) = Inr (om, sent)"
  shows "Q (s\<lparr>tr_om := om, tr_sent := sent\<rparr>)"
proof -
  from assms(2) obtain om1 sent1 where t: "unat ticker_id < ME_MAX_TICKERS"
    and one: "moveOrder F (tr_pk s) rm (log_link cid) (slot (tr_om s) (unat ticker_id) BUY) ticker_id bid BUY qty
      (tr_om s, tr_sent s) = Inr (om1, sent1)"
    and two: "moveOrder F (tr_pk s) rm (log_link cid) (slot om1 (unat ticker_id) SELL) ticker_id ask SELL qty
      (om1, sent1) = Inr (om, sent)"
    by (auto simp: moveOrders_def result_simps)
  have "Q (s\<lparr>tr_om := om1, tr_sent := sent1\<rparr>)" by (rule move_one [OF assms(1) t _ one]) simp
  from move_one [OF this t, of SELL] two show ?thesis by simp
qed

lemma step_inv: "trader_step F rm cid s s' \<Longrightarrow> Q s \<Longrightarrow> Q s'"
  by (elim trader_stepE) (auto intro: moves response prices)

lemma reachable_inv: "trader_reachable F rm cid pk s \<Longrightarrow> Q (trader_init pk) \<Longrightarrow> Q s"
  by (induction rule: trader_reachable.induct) (auto intro: step_inv)

end

section \<open>The position stays within its limit\<close>

text \<open>
  The quantity of the order of a slot that may still be filled. The sum of the position and the open
  buy quantity is what the position would be if the buy order were filled and the sell order not:
  it is at most the limit, as is its counterpart on the other side.
\<close>

definition exposure :: "OMOrder \<Rightarrow> int" where
  "exposure x = (if is_open x then uint (om_qty x) else 0)"

lemma exposure_nonneg [simp]: "0 \<le> exposure x"
  by (simp add: exposure_def)

definition cfg_ok :: "(nat \<Rightarrow> 'f TradeEngineCfg) \<Rightarrow> bool" where
  "cfg_ok ticker_cfg \<longleftrightarrow> (\<forall>t<ME_MAX_TICKERS. uint (max_order_size (risk_cfg (ticker_cfg t))) < 2 ^ 31 \<and>
     0 \<le> sint (max_position (risk_cfg (ticker_cfg t))))"

abbreviation limit_of :: "(nat \<Rightarrow> 'f TradeEngineCfg) \<Rightarrow> nat \<Rightarrow> int" where
  "limit_of ticker_cfg t \<equiv> sint (max_position (risk_cfg (ticker_cfg t)))"

definition limits_at :: "int \<Rightarrow> int \<Rightarrow> OMOrder \<Rightarrow> OMOrder \<Rightarrow> bool" where
  "limits_at m p buy sell \<longleftrightarrow> p + exposure buy \<le> m \<and> - m \<le> p - exposure sell"

definition limits_inv :: "(nat \<Rightarrow> 'f TradeEngineCfg) \<Rightarrow> 'f trader \<Rightarrow> bool" where
  "limits_inv ticker_cfg s \<longleftrightarrow> (\<forall>t<ME_MAX_TICKERS.
     limits_at (limit_of ticker_cfg t) (sint (position (tr_pk s t))) (slot (tr_om s) t BUY) (slot (tr_om s) t SELL))"

lemma addFill_positions:
  assumes "addFill F pk r = Inr pk'"
  shows "position (pk' t) = (if t = unat (cr_ticker_id r)
     then position (pk t) + cr_exec_qty r * word_of_int (sideToValue (cr_side r)) else position (pk t))"
  using assms by (auto simp: addFill_def result_simps dest: addFill_position(1))

lemma updateBBO_positions:
  assumes "updateBBO F pk ticker_id bbo = Inr pk'"
  shows "position (pk' t) = position (pk t)"
  using assms by (auto simp: updateBBO_def PositionInfo_updateBBO_def result_simps split: if_splits)

lemma onOrderUpdate_slot:
  assumes "onOrderUpdate om r = Inr om'"
  shows "slot om' t s = (if t = unat (cr_ticker_id r) \<and> s = cr_side r then
     (let x = slot om t s in
      case cr_type r of
        ACCEPTED \<Rightarrow> x\<lparr>order_state := LIVE\<rparr>
      | CANCELED \<Rightarrow> x\<lparr>order_state := DEAD\<rparr>
      | FILLED \<Rightarrow> x\<lparr>om_qty := cr_leaves_qty r, order_state := if cr_leaves_qty r = 0 then DEAD else order_state x\<rparr>
      | _ \<Rightarrow> x) else slot om t s)"
  using assms
  by (auto simp: onOrderUpdate_def Let_def result_simps split: ClientResponseType.splits)

text \<open>A fill moves quantity from the open order into the position.\<close>

lemma fill_exposure:
  assumes "honest om r" and "cr_type r = FILLED" and "onOrderUpdate om r = Inr om'"
  shows "exposure (slot om' (unat (cr_ticker_id r)) (cr_side r)) =
    exposure (slot om (unat (cr_ticker_id r)) (cr_side r)) - uint (cr_exec_qty r)"
  using assms(1,2) by (auto simp: onOrderUpdate_slot [OF assms(3)] honest_def exposure_def is_open_def Let_def)

lemma other_exposure:
  assumes "honest om r" and "cr_type r \<noteq> FILLED" and "onOrderUpdate om r = Inr om'"
  shows "exposure (slot om' t s) \<le> exposure (slot om t s)"
  using assms(1,2) by (auto simp: onOrderUpdate_slot [OF assms(3)] honest_def exposure_def is_open_def Let_def
      split: ClientResponseType.splits)

text \<open>The position after a fill, as a number.\<close>

lemma fill_position:
  assumes "addFill F pk r = Inr pk'" and "cr_side r \<in> {BUY, SELL}"
    and "- (2 ^ 31) \<le> sint (position (pk (unat (cr_ticker_id r)))) + sideToValue (cr_side r) * uint (cr_exec_qty r)"
    and "sint (position (pk (unat (cr_ticker_id r)))) + sideToValue (cr_side r) * uint (cr_exec_qty r) < 2 ^ 31"
  shows "sint (position (pk' (unat (cr_ticker_id r)))) =
    sint (position (pk (unat (cr_ticker_id r)))) + sideToValue (cr_side r) * uint (cr_exec_qty r)"
proof -
  have "cr_exec_qty r * word_of_int (sideToValue (cr_side r)) = word_of_int (sideToValue (cr_side r) * uint (cr_exec_qty r))"
    by (simp add: mult.commute)
  then show ?thesis
    using addFill_positions [OF assms(1), of "unat (cr_ticker_id r)"] sint_in_range [OF assms(3,4)] by (simp only: if_True refl)
qed

lemma limit_range: "sint (m :: 32 word) < 2 ^ 31"
  using sint_lt [of m] by simp

lemma limits_response:
  assumes "limits_inv ticker_cfg s" and h: "honest (tr_om s) r"
    and t: "take_response F (tr_om s) (tr_pk s) r = Inr (om, pk)"
  shows "limits_inv ticker_cfg (s\<lparr>tr_om := om, tr_pk := pk, tr_rcvd := tr_rcvd s @ [r]\<rparr>)"
  unfolding limits_inv_def
proof (intro allI impI)
  fix t :: nat assume "t < ME_MAX_TICKERS"
  let ?m = "limit_of ticker_cfg t" and ?tr = "unat (cr_ticker_id r)"
  from assms(1) \<open>t < ME_MAX_TICKERS\<close> have inv:
    "limits_at ?m (sint (position (tr_pk s t))) (slot (tr_om s) t BUY) (slot (tr_om s) t SELL)"
    by (simp add: limits_inv_def)
  from t have om: "onOrderUpdate (tr_om s) r = Inr om" by (auto simp: take_response_def result_simps)
  have "limits_at ?m (sint (position (pk t))) (slot om t BUY) (slot om t SELL)"
  proof (cases "cr_type r = FILLED")
    case False
    then have "pk = tr_pk s" using t by (simp add: take_response_def result_simps)
    with inv other_exposure [OF h False om, of t BUY] other_exposure [OF h False om, of t SELL] show ?thesis
      by (simp add: limits_at_def)
  next
    case True
    then have fill: "addFill F (tr_pk s) r = Inr pk" using t by (simp add: take_response_def result_simps)
    show ?thesis
    proof (cases "t = ?tr")
      case False
      then have "slot om t s' = slot (tr_om s) t s'" for s' by (simp add: onOrderUpdate_slot [OF om])
      with False inv show ?thesis by (simp add: addFill_positions [OF fill])
    next
      case same: True
      define n where "n = uint (cr_exec_qty r)"
      note e = fill_exposure [OF h True om, folded same n_def]
      have s: "cr_side r \<in> {BUY, SELL}" using h True by (simp add: honest_def)
      have other: "slot om t s' = slot (tr_om s) t s'" if "s' \<noteq> cr_side r" for s'
        using that by (simp add: onOrderUpdate_slot [OF om])
      have q: "0 \<le> n" "n \<le> exposure (slot (tr_om s) t (cr_side r))"
        using e exposure_nonneg [of "slot om t (cr_side r)"] by (simp_all add: n_def)
      let ?p = "sint (position (tr_pk s t))"
      have "- (2 ^ 31) \<le> ?p + sideToValue (cr_side r) * n" "?p + sideToValue (cr_side r) * n < 2 ^ 31"
        using s inv q limit_range [of "max_position (risk_cfg (ticker_cfg t))"] sint_ge [of "position (tr_pk s t)"]
          limit_range [of "position (tr_pk s t)"]
        by (auto simp: limits_at_def)
      with fill_position [OF fill s] same have "sint (position (pk t)) = ?p + sideToValue (cr_side r) * n"
        by (simp add: n_def)
      with s e other inv q(1) show ?thesis by (auto simp: limits_at_def)
    qed
  qed
  then show "limits_at ?m (sint (position (tr_pk (s\<lparr>tr_om := om, tr_pk := pk, tr_rcvd := tr_rcvd s @ [r]\<rparr>) t)))
      (slot (tr_om (s\<lparr>tr_om := om, tr_pk := pk, tr_rcvd := tr_rcvd s @ [r]\<rparr>)) t BUY)
      (slot (tr_om (s\<lparr>tr_om := om, tr_pk := pk, tr_rcvd := tr_rcvd s @ [r]\<rparr>)) t SELL)" by simp
qed

lemma limits_new:
  assumes "limits_inv ticker_cfg s" and "cfg_ok ticker_cfg" and t: "unat ticker_id < ME_MAX_TICKERS"
    and side: "side \<in> {BUY, SELL}" and free: "\<not> is_open (slot (tr_om s) (unat ticker_id) side)"
    and "checkPreTradeRisk F (tr_pk s) (RiskManager_new ticker_cfg) ticker_id side qty = Inr ALLOWED"
    and om: "(om, sent) = newOrder te ticker_id price side qty (tr_om s, st)"
  shows "limits_inv ticker_cfg (s\<lparr>tr_om := om, tr_sent := sent'\<rparr>)"
proof -
  let ?t = "unat ticker_id"
  have "within_limits F (tr_pk s ?t) (risk_cfg (ticker_cfg ?t)) side qty"
    using assms(2,6) t by (auto simp: cfg_ok_def intro: allowed_limits)
  then have "\<bar>sint (position (tr_pk s ?t)) + sideToValue side * uint qty\<bar> \<le> limit_of ticker_cfg ?t"
    by (simp add: within_limits_def)
  with side have "limits_at (limit_of ticker_cfg ?t) (sint (position (tr_pk s ?t))) (slot om ?t BUY) (slot om ?t SELL)"
    using assms(1) t free om
    by (auto simp: limits_inv_def limits_at_def exposure_def is_open_def newOrder_def Let_def)
  with assms(1) om show ?thesis by (auto simp: limits_inv_def newOrder_def Let_def)
qed

lemma limits_cancel:
  assumes "limits_inv ticker_cfg s" and "order_state (slot (tr_om s) (unat ticker_id) side) = LIVE"
    and "(om, sent) = cancelOrder te ticker_id side (slot (tr_om s) (unat ticker_id) side) (tr_om s, st)"
  shows "limits_inv ticker_cfg (s\<lparr>tr_om := om, tr_sent := sent'\<rparr>)"
proof -
  have "exposure (slot om t s') = exposure (slot (tr_om s) t s')" for t s'
    using assms(2,3) by (auto simp: cancelOrder_def Let_def exposure_def is_open_def)
  with assms(1) show ?thesis by (simp add: limits_inv_def limits_at_def)
qed

interpretation limits: trader_invariant F "RiskManager_new ticker_cfg" cid
  "\<lambda>s. cfg_ok ticker_cfg \<longrightarrow> limits_inv ticker_cfg s" for F ticker_cfg cid
proof
  show "cfg_ok ticker_cfg \<longrightarrow> limits_inv ticker_cfg (s\<lparr>tr_pk := pk\<rparr>)"
    if "cfg_ok ticker_cfg \<longrightarrow> limits_inv ticker_cfg s" "updateBBO F (tr_pk s) ticker_id bbo = Inr pk"
    for s ticker_id bbo pk
    using that(1) by (simp add: limits_inv_def updateBBO_positions [OF that(2)])
qed (auto intro: limits_new limits_cancel limits_response)

section \<open>One order at a time\<close>

definition is_new :: "nat \<Rightarrow> Side \<Rightarrow> MEClientRequest \<Rightarrow> bool" where
  "is_new t side rq \<longleftrightarrow> rq_type rq = Request_NEW \<and> unat (rq_ticker_id rq) = t \<and> rq_side rq = side"

definition closes :: "nat \<Rightarrow> Side \<Rightarrow> MEClientResponse \<Rightarrow> bool" where
  "closes t side r \<longleftrightarrow> unat (cr_ticker_id r) = t \<and> cr_side r = side \<and>
     (cr_type r = CANCELED \<or> cr_type r = FILLED \<and> cr_leaves_qty r = 0)"

definition news :: "MEClientRequest list \<Rightarrow> MEClientRequest list" where
  "news sent = filter (\<lambda>rq. rq_type rq = Request_NEW) sent"

definition names :: "MEClientRequest \<Rightarrow> MEClientRequest \<Rightarrow> bool" where
  "names c n \<longleftrightarrow> rq_type n = Request_NEW \<and> rq_client_id n = rq_client_id c \<and> rq_ticker_id n = rq_ticker_id c \<and>
     rq_order_id n = rq_order_id c \<and> rq_side n = rq_side c \<and> rq_price n = rq_price c"

text \<open>The request that a cancel of an order is.\<close>

definition cancel_of :: "ClientId \<Rightarrow> OMOrder \<Rightarrow> MEClientRequest" where
  "cancel_of cid x = \<lparr>rq_type = Request_CANCEL, rq_client_id = cid, rq_ticker_id = om_ticker_id x,
     rq_order_id = om_order_id x, rq_side = om_side x, rq_price = om_price x, rq_qty = om_qty x\<rparr>"

definition count_inv :: "'f trader \<Rightarrow> nat \<Rightarrow> Side \<Rightarrow> bool" where
  "count_inv s t side \<longleftrightarrow> length (filter (is_new t side) (tr_sent s)) =
     length (filter (closes t side) (tr_rcvd s)) + (if is_open (slot (tr_om s) t side) then 1 else 0)"

definition named_inv :: "ClientId \<Rightarrow> 'f trader \<Rightarrow> nat \<Rightarrow> Side \<Rightarrow> bool" where
  "named_inv cid s t side \<longleftrightarrow> (is_open (slot (tr_om s) t side) \<longrightarrow>
     (\<exists>n\<in>set (tr_sent s). names (cancel_of cid (slot (tr_om s) t side)) n))"

definition ids_inv :: "'f trader \<Rightarrow> bool" where
  "ids_inv s \<longleftrightarrow> map rq_order_id (news (tr_sent s)) = map of_nat [1..<Suc (length (news (tr_sent s)))] \<and>
     next_order_id (tr_om s) = of_nat (Suc (length (news (tr_sent s))))"

definition cancels_inv :: "'f trader \<Rightarrow> bool" where
  "cancels_inv s \<longleftrightarrow> (\<forall>c\<in>set (tr_sent s). rq_type c = Request_CANCEL \<longrightarrow> (\<exists>n\<in>set (tr_sent s). names c n))"

definition log_inv :: "ClientId \<Rightarrow> 'f trader \<Rightarrow> bool" where
  "log_inv cid s \<longleftrightarrow> (\<forall>t side. count_inv s t side \<and> named_inv cid s t side) \<and> ids_inv s \<and> cancels_inv s"

lemma cancelOrder_log:
  "cancelOrder (log_link cid) ticker_id side x (om, l) =
     (set_slot om ticker_id side (x\<lparr>order_state := PENDING_CANCEL\<rparr>), l @ [cancel_of cid x])"
  by (simp add: cancelOrder_def log_link_def cancel_of_def Let_def)

lemma log_cancel:
  assumes "log_inv cid s" and "order_state (slot (tr_om s) (unat ticker_id) side) = LIVE"
    and "(om, sent) = cancelOrder (log_link cid) ticker_id side (slot (tr_om s) (unat ticker_id) side) (tr_om s, tr_sent s)"
  shows "log_inv cid (s\<lparr>tr_om := om, tr_sent := sent\<rparr>)"
proof -
  let ?x = "slot (tr_om s) (unat ticker_id) side"
  let ?s = "s\<lparr>tr_om := om, tr_sent := sent\<rparr>"
  have om: "om = set_slot (tr_om s) ticker_id side (?x\<lparr>order_state := PENDING_CANCEL\<rparr>)"
    and sent: "sent = tr_sent s @ [cancel_of cid ?x]" using assms(3) by (simp_all add: cancelOrder_log)
  have open_x: "is_open ?x" using assms(2) by (simp add: is_open_def)
  have "count_inv ?s t d" for t d
    using assms(1) open_x by (auto simp: log_inv_def count_inv_def om sent is_new_def cancel_of_def is_open_def)
  moreover have "named_inv cid ?s t d" for t d
  proof -
    have "named_inv cid s t d" using assms(1) by (simp add: log_inv_def)
    then show ?thesis using open_x
      by (auto simp: named_inv_def om sent names_def cancel_of_def is_open_def)
  qed
  moreover have "ids_inv ?s"
    using assms(1) by (simp add: log_inv_def ids_inv_def om sent news_def cancel_of_def)
  moreover have "cancels_inv ?s"
  proof -
    have "\<exists>n\<in>set (tr_sent s). names (cancel_of cid ?x) n"
      using assms(1) open_x by (simp add: log_inv_def named_inv_def)
    then show ?thesis using assms(1) by (auto simp: log_inv_def cancels_inv_def sent)
  qed
  ultimately show ?thesis by (simp add: log_inv_def)
qed

lemma newOrder_log:
  "newOrder (log_link cid) ticker_id price side qty (om, l) =
     ((set_slot om ticker_id side \<lparr>om_ticker_id = ticker_id, om_order_id = next_order_id om, om_side = side,
        om_price = price, om_qty = qty, order_state = PENDING_NEW\<rparr>)\<lparr>next_order_id := next_order_id om + 1\<rparr>,
      l @ [\<lparr>rq_type = Request_NEW, rq_client_id = cid, rq_ticker_id = ticker_id,
        rq_order_id = next_order_id om, rq_side = side, rq_price = price, rq_qty = qty\<rparr>])"
  by (simp add: newOrder_def log_link_def Let_def)

lemma log_new:
  assumes "log_inv cid s" and "\<not> is_open (slot (tr_om s) (unat ticker_id) side)"
    and "(om, sent) = newOrder (log_link cid) ticker_id price side qty (tr_om s, tr_sent s)"
  shows "log_inv cid (s\<lparr>tr_om := om, tr_sent := sent\<rparr>)"
proof -
  let ?s = "s\<lparr>tr_om := om, tr_sent := sent\<rparr>"
  define rq where "rq = \<lparr>rq_type = Request_NEW, rq_client_id = cid, rq_ticker_id = ticker_id,
        rq_order_id = next_order_id (tr_om s), rq_side = side, rq_price = price, rq_qty = qty\<rparr>"
  have sent: "sent = tr_sent s @ [rq]" using assms(3) by (simp add: newOrder_log rq_def)
  have slots: "slot om t d = (if t = unat ticker_id \<and> d = side then
      \<lparr>om_ticker_id = ticker_id, om_order_id = next_order_id (tr_om s), om_side = side,
        om_price = price, om_qty = qty, order_state = PENDING_NEW\<rparr> else slot (tr_om s) t d)" for t d
    using assms(3) by (simp add: newOrder_log)
  have nxt: "next_order_id om = next_order_id (tr_om s) + 1" using assms(3) by (simp add: newOrder_log)
  have "count_inv ?s t d" for t d
    using assms(1,2) by (auto simp: log_inv_def count_inv_def slots sent is_new_def rq_def is_open_def)
  moreover have "named_inv cid ?s t d" for t d
  proof -
    have "named_inv cid s t d" using assms(1) by (simp add: log_inv_def)
    then show ?thesis by (auto simp: named_inv_def slots sent names_def cancel_of_def rq_def)
  qed
  moreover have "ids_inv ?s"
    using assms(1) by (simp add: log_inv_def ids_inv_def nxt sent news_def rq_def add.commute)
  moreover have "cancels_inv ?s"
    using assms(1) by (auto simp: log_inv_def cancels_inv_def sent rq_def)
  ultimately show ?thesis by (simp add: log_inv_def)
qed

lemma onOrderUpdate_next: "onOrderUpdate om r = Inr om' \<Longrightarrow> next_order_id om' = next_order_id om"
  by (auto simp: onOrderUpdate_def Let_def result_simps split: ClientResponseType.splits)

lemma log_response:
  assumes "log_inv cid s" and h: "honest (tr_om s) r"
    and t: "take_response F (tr_om s) (tr_pk s) r = Inr (om, pk)"
  shows "log_inv cid (s\<lparr>tr_om := om, tr_pk := pk, tr_rcvd := tr_rcvd s @ [r]\<rparr>)"
proof -
  let ?s = "s\<lparr>tr_om := om, tr_pk := pk, tr_rcvd := tr_rcvd s @ [r]\<rparr>"
  from t have om: "onOrderUpdate (tr_om s) r = Inr om" by (auto simp: take_response_def result_simps)
  have opened: "is_open (slot om t d) \<longleftrightarrow> is_open (slot (tr_om s) t d) \<and> \<not> closes t d r"
    and closed: "closes t d r \<Longrightarrow> is_open (slot (tr_om s) t d)"
    and kept: "cancel_of cid (slot om t d) = (cancel_of cid (slot (tr_om s) t d))\<lparr>rq_qty := om_qty (slot om t d)\<rparr>" for t d
    using h by (auto simp: onOrderUpdate_slot [OF om] honest_def is_open_def closes_def cancel_of_def Let_def
        split: ClientResponseType.splits)
  have "count_inv ?s t d" for t d
  proof -
    have "count_inv s t d" using assms(1) by (simp add: log_inv_def)
    then show ?thesis using opened [of t d] closed [of t d] by (auto simp: count_inv_def)
  qed
  moreover have "named_inv cid ?s t d" for t d
  proof -
    have "named_inv cid s t d" using assms(1) by (simp add: log_inv_def)
    then show ?thesis using opened [of t d] kept [of t d] by (auto simp: named_inv_def names_def)
  qed
  ultimately show ?thesis
    using assms(1) onOrderUpdate_next [OF om] by (simp add: log_inv_def ids_inv_def cancels_inv_def)
qed

lemma log_prices: "log_inv cid s \<Longrightarrow> log_inv cid (s\<lparr>tr_pk := pk\<rparr>)"
  by (simp add: log_inv_def count_inv_def named_inv_def ids_inv_def cancels_inv_def)

interpretation logs: trader_invariant F rm cid "log_inv cid" for F rm cid
  by unfold_locales (auto intro: log_new log_cancel log_response log_prices)

lemma log_inv_init: "log_inv cid (trader_init pk)"
  by (simp add: log_inv_def trader_init_def count_inv_def named_inv_def ids_inv_def cancels_inv_def news_def
      OrderManager_new_def OMOrder_default_def is_open_def slot_def)

lemma limits_inv_init:
  assumes "cfg_ok ticker_cfg" and "\<And>t. t < ME_MAX_TICKERS \<Longrightarrow> position (pk t) = 0"
  shows "limits_inv ticker_cfg (trader_init pk)"
  using assms by (simp add: limits_inv_def limits_at_def trader_init_def OrderManager_new_def OMOrder_default_def
      exposure_def is_open_def slot_def cfg_ok_def)

section \<open>Properties\<close>

text \<open>The position limit holds in every reachable state. From a flat start, whatever a strategy asks
  for and in whatever order the responses of an honest exchange come in, the position of every ticker
  is at most the limit on either side, and it stays so even if the open orders of the ticker are
  filled completely: a risk check at the time an order is sent is enough, although the position may
  change while the order is open.\<close>

theorem position_within_limits:
  assumes "trader_reachable F (RiskManager_new ticker_cfg) cid pk s" and "cfg_ok ticker_cfg"
    and "\<And>t. t < ME_MAX_TICKERS \<Longrightarrow> position (pk t) = 0" and "t < ME_MAX_TICKERS"
  shows "\<bar>sint (position (tr_pk s t))\<bar> \<le> sint (max_position (risk_cfg (ticker_cfg t))) \<and>
    sint (position (tr_pk s t)) + exposure (slot (tr_om s) t BUY) \<le> sint (max_position (risk_cfg (ticker_cfg t))) \<and>
    - sint (max_position (risk_cfg (ticker_cfg t))) \<le> sint (position (tr_pk s t)) - exposure (slot (tr_om s) t SELL)"
proof -
  have "limits_inv ticker_cfg (trader_init pk)" by (rule limits_inv_init [OF assms(2)]) (rule assms(3))
  then have "limits_inv ticker_cfg s" using limits.reachable_inv [OF assms(1)] assms(2) by blast
  then have l: "limits_at (limit_of ticker_cfg t) (sint (position (tr_pk s t))) (slot (tr_om s) t BUY) (slot (tr_om s) t SELL)"
    using assms(4) by (simp add: limits_inv_def)
  with exposure_nonneg [of "slot (tr_om s) t BUY"] exposure_nonneg [of "slot (tr_om s) t SELL"] show ?thesis
    unfolding limits_at_def by linarith
qed

text \<open>A day of one order: sent, accepted and half filled.\<close>

definition demo_reply :: "ClientResponseType \<Rightarrow> Qty \<Rightarrow> Qty \<Rightarrow> MEClientResponse" where
  "demo_reply ty exec leaves = \<lparr>cr_type = ty, cr_client_id = 1, cr_ticker_id = 3, cr_client_order_id = 1,
     cr_market_order_id = 1, cr_side = BUY, cr_price = 100, cr_exec_qty = exec, cr_leaves_qty = leaves\<rparr>"

definition demo_sent :: "exact trader" where
  "demo_sent = (let (om, sent) = newOrder (log_link 1) 3 100 BUY 10 (OrderManager_new, []) in
     (trader_init demo_keeper)\<lparr>tr_om := om, tr_sent := sent\<rparr>)"

lemma demo_sent_moves: "moveOrders exact_ops demo_keeper (RiskManager_new (\<lambda>_. demo_cfg)) (log_link 1) 3 100 Price_INVALID 10
    (OrderManager_new, []) = Inr (tr_om demo_sent, tr_sent demo_sent)"
proof -
  have "sint (10 :: 32 word) = 10" "sint (50 :: 32 word) = 50" by (simp_all add: sint_small)
  then show ?thesis
    by (simp add: moveOrders_def moveOrder_def moveOrder_new_def om_slot_def ME_MAX_TICKERS_def OrderManager_new_def
        OMOrder_default_def checkPreTradeRisk_def RiskInfo_checkPreTradeRisk_def RiskManager_new_def demo_cfg_def
        demo_keeper_def PositionInfo_default_def signed_value_def Price_INVALID_def demo_sent_def newOrder_log
        set_slot_def)
qed

lemma demo_sent_reachable: "trader_reachable exact_ops (RiskManager_new (\<lambda>_. demo_cfg)) 1 demo_keeper demo_sent"
proof -
  have "trader_step exact_ops (RiskManager_new (\<lambda>_. demo_cfg)) 1 (trader_init demo_keeper) demo_sent"
    using demo_sent_moves trader_step.move [of exact_ops "trader_init demo_keeper" "RiskManager_new (\<lambda>_. demo_cfg)" 1 3 100 Price_INVALID 10]
    by (simp add: trader_init_def demo_sent_def newOrder_log)
  then show ?thesis by (rule trader_reachable.step [OF trader_reachable.start])
qed

definition demo_reply_step :: "exact trader \<Rightarrow> MEClientResponse \<Rightarrow> exact trader" where
  "demo_reply_step s r = (case take_response exact_ops (tr_om s) (tr_pk s) r of
     Inr (om, pk) \<Rightarrow> s\<lparr>tr_om := om, tr_pk := pk, tr_rcvd := tr_rcvd s @ [r]\<rparr> | Inl _ \<Rightarrow> s)"

lemma demo_reply_reachable:
  assumes "trader_reachable exact_ops rm cid pk s" and "honest (tr_om s) r"
  shows "trader_reachable exact_ops rm cid pk (demo_reply_step s r)"
proof (cases "take_response exact_ops (tr_om s) (tr_pk s) r")
  case (Inr v)
  with assms trader_step.response [of s r exact_ops "fst v" "snd v" rm cid] show ?thesis
    by (auto simp: demo_reply_step_def split: prod.splits intro: trader_reachable.step)
qed (use assms in \<open>simp add: demo_reply_step_def\<close>)

definition demo_half :: "exact trader" where
  "demo_half = demo_reply_step (demo_reply_step demo_sent (demo_reply ACCEPTED 0 10)) (demo_reply FILLED 4 6)"

lemmas demo_defs = demo_reply_step_def demo_reply_def demo_sent_def newOrder_log trader_init_def
  OrderManager_new_def OMOrder_default_def take_response_def onOrderUpdate_def om_slot_def set_slot_def ME_MAX_TICKERS_def

lemma demo_half_eq:
  "slot (tr_om demo_half) 3 BUY = \<lparr>om_ticker_id = 3, om_order_id = 1, om_side = BUY, om_price = 100, om_qty = 6,
     order_state = LIVE\<rparr>"
  "position (tr_pk demo_half 3) = 4"
  "tr_rcvd demo_half = [demo_reply ACCEPTED 0 10, demo_reply FILLED 4 6]"
  by (simp_all add: demo_half_def demo_defs slot_def addFill_def PositionInfo_addFill_def demo_keeper_def
      PositionInfo_default_def signed_value_def addFill_increase_def addFill_pnl_def open_pnl_def abs32_def)

lemma demo_half_reachable: "trader_reachable exact_ops (RiskManager_new (\<lambda>_. demo_cfg)) 1 demo_keeper demo_half"
  unfolding demo_half_def
  by (intro demo_reply_reachable demo_sent_reachable)
     (simp_all add: demo_defs honest_def slot_def)

theorem position_within_limits_witness:
  "position (tr_pk demo_half 3) = 4 \<and> exposure (slot (tr_om demo_half) 3 BUY) = 6 \<and>
   sint (position (tr_pk demo_half 3)) + exposure (slot (tr_om demo_half) 3 BUY) \<le> 50"
proof -
  have "sint (50 :: 32 word) = 50" by (simp add: sint_small)
  then show ?thesis
    using position_within_limits [OF demo_half_reachable, of 3]
    by (simp add: demo_half_eq exposure_def is_open_def cfg_ok_def demo_cfg_def demo_keeper_def PositionInfo_default_def
        ME_MAX_TICKERS_def)
qed

text \<open>C25: One order at a time. In every reachable state, for every ticker and side, the number of new
  orders sent is the number of orders that have ended, plus one if and only if the manager holds an
  open order there: the manager never has two. New orders carry the numbers 1, 2, 3 and so on, so no
  number is used twice, and every cancel names an order that was sent before.\<close>

theorem one_open_order:
  assumes "trader_reachable F rm cid pk s"
  shows "length (filter (is_new t side) (tr_sent s)) =
      length (filter (closes t side) (tr_rcvd s)) + (if is_open (slot (tr_om s) t side) then 1 else 0) \<and>
    map rq_order_id (news (tr_sent s)) = map of_nat [1..<Suc (length (news (tr_sent s)))] \<and>
    (\<forall>c\<in>set (tr_sent s). rq_type c = Request_CANCEL \<longrightarrow> (\<exists>n\<in>set (tr_sent s). names c n))"
proof -
  have "log_inv cid s" using logs.reachable_inv [OF assms log_inv_init] .
  then show ?thesis unfolding log_inv_def count_inv_def ids_inv_def cancels_inv_def by blast
qed

theorem one_open_order_witness:
  "is_open (slot (tr_om demo_half) 3 BUY) \<and> length (filter (is_new 3 BUY) (tr_sent demo_half)) = 1"
  using one_open_order [OF demo_half_reachable, of 3 BUY]
  by (simp add: demo_half_eq is_open_def closes_def demo_reply_def)

end
