(* ===== verification/Strategies.thy ===== *)
theory Strategies
  imports Order_Manager
begin

text \<open>
  The feature engine of \<^verbatim>\<open>src/trading/strategy/feature_engine.h\<close> and the two algorithms,
  \<^verbatim>\<open>market_maker.h\<close> and \<^verbatim>\<open>liquidity_taker.h\<close>. Of the order book they only use the best bid
  and offer, which is an argument here. What they write to the log is left out.
\<close>

section \<open>Features\<close>

definition Feature_INVALID :: "'f double_ops \<Rightarrow> 'f" where
  "Feature_INVALID F = d_nan F"

record 'f FeatureEngine =
  mkt_price :: 'f
  agg_trade_qty_ratio :: 'f

definition FeatureEngine_new :: "'f double_ops \<Rightarrow> 'f FeatureEngine" where
  "FeatureEngine_new F = \<lparr>mkt_price = Feature_INVALID F, agg_trade_qty_ratio = Feature_INVALID F\<rparr>"

text \<open>
  The prices are signed integers of 64 bits, to which the quantities are converted in the products;
  the sum of the quantities is computed on 32 bits and wraps.
\<close>

definition fe_onOrderBookUpdate :: "'f double_ops \<Rightarrow> BBO \<Rightarrow> 'f FeatureEngine \<Rightarrow> 'f FeatureEngine result" where
  "fe_onOrderBookUpdate F bbo fe =
     (if both_sides bbo then
        andThen (signed_value 64 (bid_price bbo * uint (ask_qty bbo))) (\<lambda>x.
        andThen (signed_value 64 (ask_price bbo * uint (bid_qty bbo))) (\<lambda>y.
        andThen (signed_value 64 (x + y)) (\<lambda>z.
        Inr (fe\<lparr>mkt_price := d_div F (d_of_int F z) (d_of_int F (uint (bid_qty bbo + ask_qty bbo)))\<rparr>))))
      else Inr fe)"

definition fe_onTradeUpdate :: "'f double_ops \<Rightarrow> MEMarketUpdate \<Rightarrow> BBO \<Rightarrow> 'f FeatureEngine \<Rightarrow> 'f FeatureEngine" where
  "fe_onTradeUpdate F market_update bbo fe =
     (if both_sides bbo then
        fe\<lparr>agg_trade_qty_ratio := d_div F (d_of_int F (uint (mu_qty market_update)))
             (d_of_int F (uint (if mu_side market_update = BUY then ask_qty bbo else bid_qty bbo)))\<rparr>
      else fe)"

definition getMktPrice :: "'f FeatureEngine \<Rightarrow> 'f" where
  "getMktPrice fe = mkt_price fe"

definition getAggTradeQtyRatio :: "'f FeatureEngine \<Rightarrow> 'f" where
  "getAggTradeQtyRatio fe = agg_trade_qty_ratio fe"

section \<open>The market maker\<close>

definition mm_onOrderBookUpdate ::
    "'f double_ops \<Rightarrow> (nat \<Rightarrow> 'f TradeEngineCfg) \<Rightarrow> 'f FeatureEngine \<Rightarrow> 'f PositionKeeper \<Rightarrow> 'f RiskManager \<Rightarrow>
     's engine_link \<Rightarrow> TickerId \<Rightarrow> BBO \<Rightarrow> OrderManager \<times> 's \<Rightarrow> (OrderManager \<times> 's) result" where
  "mm_onOrderBookUpdate F ticker_cfg fe pk rm te ticker_id bbo st =
     (let fair_price = getMktPrice fe in
      if both_sides bbo \<and> \<not> d_eq F fair_price (Feature_INVALID F) then
        andThen (array_at ME_MAX_TICKERS ticker_cfg (unat ticker_id)) (\<lambda>cfg.
        andThen (signed_value 64 (bid_price bbo -
          (if d_le F (threshold cfg) (d_sub F fair_price (d_of_int F (bid_price bbo))) then 0 else 1))) (\<lambda>bid.
        andThen (signed_value 64 (ask_price bbo +
          (if d_le F (threshold cfg) (d_sub F (d_of_int F (ask_price bbo)) fair_price) then 0 else 1))) (\<lambda>ask.
        moveOrders F pk rm te ticker_id bid ask (clip cfg) st)))
      else Inr st)"

definition mm_onTradeUpdate :: "MEMarketUpdate \<Rightarrow> OrderManager \<times> 's \<Rightarrow> (OrderManager \<times> 's) result" where
  "mm_onTradeUpdate market_update st = Inr st"

definition mm_onOrderUpdate :: "MEClientResponse \<Rightarrow> OrderManager \<Rightarrow> OrderManager result" where
  "mm_onOrderUpdate client_response om = onOrderUpdate om client_response"

section \<open>The liquidity taker\<close>

definition lt_onOrderBookUpdate :: "TickerId \<Rightarrow> OrderManager \<times> 's \<Rightarrow> (OrderManager \<times> 's) result" where
  "lt_onOrderBookUpdate ticker_id st = Inr st"

definition lt_onTradeUpdate ::
    "'f double_ops \<Rightarrow> (nat \<Rightarrow> 'f TradeEngineCfg) \<Rightarrow> 'f FeatureEngine \<Rightarrow> 'f PositionKeeper \<Rightarrow> 'f RiskManager \<Rightarrow>
     's engine_link \<Rightarrow> MEMarketUpdate \<Rightarrow> BBO \<Rightarrow> OrderManager \<times> 's \<Rightarrow> (OrderManager \<times> 's) result" where
  "lt_onTradeUpdate F ticker_cfg fe pk rm te market_update bbo st =
     (let agg_qty_ratio = getAggTradeQtyRatio fe in
      if both_sides bbo \<and> \<not> d_eq F agg_qty_ratio (Feature_INVALID F) then
        andThen (array_at ME_MAX_TICKERS ticker_cfg (unat (mu_ticker_id market_update))) (\<lambda>cfg.
        if d_le F (threshold cfg) agg_qty_ratio then
          if mu_side market_update = BUY
          then moveOrders F pk rm te (mu_ticker_id market_update) (ask_price bbo) Price_INVALID (clip cfg) st
          else moveOrders F pk rm te (mu_ticker_id market_update) Price_INVALID (bid_price bbo) (clip cfg) st
        else Inr st)
      else Inr st)"

definition lt_onOrderUpdate :: "MEClientResponse \<Rightarrow> OrderManager \<Rightarrow> OrderManager result" where
  "lt_onOrderUpdate client_response om = onOrderUpdate om client_response"

section \<open>What is sent\<close>

text \<open>
  A move appends requests to what was sent: new orders at the prices asked for, which are not the
  invalid price, and cancels.
\<close>

definition asked :: "TickerId \<Rightarrow> Price \<Rightarrow> Price \<Rightarrow> Qty \<Rightarrow> MEClientRequest \<Rightarrow> bool" where
  "asked ticker_id bid ask qty rq \<longleftrightarrow> rq_type rq = Request_CANCEL \<or>
     rq_type rq = Request_NEW \<and> rq_ticker_id rq = ticker_id \<and> rq_qty rq = qty \<and> rq_price rq \<noteq> Price_INVALID \<and>
     (rq_side rq = BUY \<and> rq_price rq = bid \<or> rq_side rq = SELL \<and> rq_price rq = ask)"

lemma moveOrder_sends:
  assumes "moveOrder F pk rm (log_link cid) x ticker_id price side qty (om, sent) = Inr (om', sent')"
    and "side \<in> {BUY, SELL}" and "price = (if side = BUY then bid else ask)"
  shows "\<exists>rqs. sent' = sent @ rqs \<and> list_all (asked ticker_id bid ask qty) rqs"
  using assms(1)
proof (cases rule: moveOrder_cases)
  case cancelled
  then show ?thesis by (simp add: cancelOrder_log asked_def cancel_of_def)
next
  case sent
  with assms(2,3) show ?thesis by (auto simp: newOrder_log asked_def)
qed simp

lemma moveOrders_sends:
  assumes "moveOrders F pk rm (log_link cid) ticker_id bid ask qty (om, sent) = Inr (om', sent')"
  shows "\<exists>rqs. sent' = sent @ rqs \<and> list_all (asked ticker_id bid ask qty) rqs"
proof -
  from assms obtain om1 sent1 x1 x2 where
    one: "moveOrder F pk rm (log_link cid) x1 ticker_id bid BUY qty (om, sent) = Inr (om1, sent1)"
    and two: "moveOrder F pk rm (log_link cid) x2 ticker_id ask SELL qty (om1, sent1) = Inr (om', sent')"
    by (auto simp: moveOrders_def result_simps)
  from moveOrder_sends [OF one, of bid ask] moveOrder_sends [OF two, of bid ask] show ?thesis
    by (auto simp: list_all_append)
qed

section \<open>The fair price\<close>

lemma weighted_between:
  fixes a b :: int and m n :: nat
  assumes "a \<le> b" and "0 < m + n"
  shows "(of_int a :: rat) \<le> of_int (a * int n + b * int m) / of_int (int m + int n)"
    and "of_int (a * int n + b * int m) / of_int (int m + int n) \<le> (of_int b :: rat)"
proof -
  have "0 < int m + int n" using assms(2) by linarith
  then have pos: "(0 :: rat) < of_int (int m + int n)" by (simp only: of_int_0_less_iff)
  have "a * (int m + int n) \<le> a * int n + b * int m" "a * int n + b * int m \<le> b * (int m + int n)"
    using mult_right_mono [OF assms(1), of "int m"] mult_right_mono [OF assms(1), of "int n"]
    by (simp_all add: algebra_simps)
  then have "(of_int (a * (int m + int n)) :: rat) \<le> of_int (a * int n + b * int m)"
    "(of_int (a * int n + b * int m) :: rat) \<le> of_int (b * (int m + int n))"
    by (simp_all only: of_int_le_iff)
  then show "(of_int a :: rat) \<le> of_int (a * int n + b * int m) / of_int (int m + int n)"
    and "of_int (a * int n + b * int m) / of_int (int m + int n) \<le> (of_int b :: rat)"
    using pos by (simp_all only: pos_le_divide_eq pos_divide_le_eq of_int_mult)
qed

section \<open>Properties\<close>

text \<open>The fair price lies in the spread. With both sides of the book valid, the bid not above the
  ask, quantities whose sum fits 32 bits and is not zero, and products that fit 64 bits, the feature
  engine computes, in exact arithmetic, a price between the best bid and the best ask.\<close>

theorem fair_price_in_spread:
  assumes "both_sides bbo" and "bid_price bbo \<le> ask_price bbo"
    and "0 < unat (bid_qty bbo) + unat (ask_qty bbo)" and "unat (bid_qty bbo) + unat (ask_qty bbo) < 2 ^ 32"
    and "\<bar>bid_price bbo\<bar> \<le> 2 ^ 29" and "\<bar>ask_price bbo\<bar> \<le> 2 ^ 29"
  shows "\<exists>fe' p. fe_onOrderBookUpdate exact_ops bbo fe = Inr fe' \<and> getMktPrice fe' = Num p \<and>
    of_int (bid_price bbo) \<le> p \<and> p \<le> of_int (ask_price bbo)"
proof -
  define m n where "m = unat (bid_qty bbo)" and "n = unat (ask_qty bbo)"
  define a b where "a = bid_price bbo" and "b = ask_price bbo"
  have u: "uint (bid_qty bbo) = int m" "uint (ask_qty bbo) = int n" by (simp_all add: m_def n_def)
  have "unat (bid_qty bbo + ask_qty bbo) = m + n"
    using assms(4) unat_add_lem [of "bid_qty bbo" "ask_qty bbo"] by (simp add: m_def n_def)
  then have sum: "uint (bid_qty bbo + ask_qty bbo) = int m + int n" by (simp add: uint_nat del: of_nat_unat)
  have mn: "m + n < 2 ^ 32" using assms(4) by (simp add: m_def n_def)
  have ab: "\<bar>a\<bar> \<le> 2 ^ 29" "\<bar>b\<bar> \<le> 2 ^ 29" using assms(5,6) by (simp_all add: a_def b_def)
  have "\<bar>a * int n\<bar> \<le> 2 ^ 29 * 2 ^ 32"
    unfolding abs_mult by (rule mult_mono) (use mn ab in simp_all)
  moreover have "\<bar>b * int m\<bar> \<le> 2 ^ 29 * 2 ^ 32"
    unfolding abs_mult by (rule mult_mono) (use mn ab in simp_all)
  ultimately have ok: "signed_value 64 (a * int n) = Inr (a * int n)" "signed_value 64 (b * int m) = Inr (b * int m)"
    "signed_value 64 (a * int n + b * int m) = Inr (a * int n + b * int m)"
    by (simp_all add: signed_value_def abs_le_iff)
  have "0 < m + n" using assms(3) by (simp add: m_def n_def)
  moreover from this have "0 < int m + int n" by linarith
  then have "(of_int (int m + int n) :: rat) \<noteq> 0" by (simp only: of_int_eq_0_iff)
  ultimately show ?thesis
    using weighted_between [of a b m n] assms(1,2) ok
    by (simp add: fe_onOrderBookUpdate_def getMktPrice_def u sum flip: a_def b_def)
qed

definition demo_bbo :: BBO where
  "demo_bbo = \<lparr>bid_price = 100, ask_price = 104, bid_qty = 30, ask_qty = 10\<rparr>"

theorem fair_price_in_spread_witness:
  "\<exists>fe' p. fe_onOrderBookUpdate exact_ops demo_bbo (FeatureEngine_new exact_ops) = Inr fe' \<and> getMktPrice fe' = Num p \<and>
     100 \<le> p \<and> p \<le> 104"
  using fair_price_in_spread [of demo_bbo "FeatureEngine_new exact_ops"]
  by (simp add: demo_bbo_def both_sides_def Price_INVALID_def)

text \<open>The sum of the quantities wraps. With 2147483648 bid at 100 and 2147483649 offered at 101 the
  denominator is one, and the fair price is far outside the spread.\<close>

theorem fair_price_wraps:
  "\<exists>fe' p. fe_onOrderBookUpdate exact_ops
       \<lparr>bid_price = 100, ask_price = 101, bid_qty = 2147483648, ask_qty = 2147483649\<rparr> (FeatureEngine_new exact_ops) = Inr fe' \<and>
     getMktPrice fe' = Num p \<and> p > 4 * 10 ^ 11"
  by (simp add: fe_onOrderBookUpdate_def both_sides_def Price_INVALID_def signed_value_def getMktPrice_def)

text \<open>C34: The market maker never crosses the spread. Whatever the arithmetic of prices and whatever the
  fair price, a handled book update only appends requests, and every new order among them is for the
  ticker and the configured quantity: a buy at the best bid or one below it, or a sell at the best
  ask or one above it.\<close>

theorem maker_never_crosses:
  assumes "mm_onOrderBookUpdate F ticker_cfg fe pk rm (log_link cid) ticker_id bbo (om, sent) = Inr (om', sent')"
  shows "\<exists>rqs. sent' = sent @ rqs \<and> (\<forall>rq\<in>set rqs. rq_type rq = Request_NEW \<longrightarrow>
    rq_ticker_id rq = ticker_id \<and> rq_qty rq = clip (ticker_cfg (unat ticker_id)) \<and>
    (rq_side rq = BUY \<and> rq_price rq \<in> {bid_price bbo - 1, bid_price bbo} \<or>
     rq_side rq = SELL \<and> rq_price rq \<in> {ask_price bbo, ask_price bbo + 1}))"
proof (cases "both_sides bbo \<and> \<not> d_eq F (getMktPrice fe) (Feature_INVALID F)")
  case False
  with assms show ?thesis by (auto simp: mm_onOrderBookUpdate_def Let_def)
next
  case True
  with assms obtain bid ask where "bid \<in> {bid_price bbo - 1, bid_price bbo}" "ask \<in> {ask_price bbo, ask_price bbo + 1}"
    and "moveOrders F pk rm (log_link cid) ticker_id bid ask (clip (ticker_cfg (unat ticker_id))) (om, sent) = Inr (om', sent')"
    by (fastforce simp: mm_onOrderBookUpdate_def Let_def result_simps split: if_splits)
  with moveOrders_sends [OF this(3)] show ?thesis by (fastforce simp: asked_def list_all_iff)
qed

definition demo_features :: "exact FeatureEngine" where
  "demo_features = \<lparr>mkt_price = Num 103, agg_trade_qty_ratio = Num 2\<rparr>"

lemma demo_sints: "sint (10 :: 32 word) = 10" "sint (50 :: 32 word) = 50"
  by (simp_all add: sint_small)

lemmas demo_move = moveOrders_def moveOrder_def moveOrder_new_def om_slot_def ME_MAX_TICKERS_def OrderManager_new_def
  OMOrder_default_def checkPreTradeRisk_def RiskInfo_checkPreTradeRisk_def RiskManager_new_def demo_cfg_def
  demo_keeper_def PositionInfo_default_def signed_value_def Price_INVALID_def newOrder_log set_slot_def demo_sints

lemma demo_maker:
  "\<exists>om. mm_onOrderBookUpdate exact_ops (\<lambda>_. demo_cfg) demo_features demo_keeper (RiskManager_new (\<lambda>_. demo_cfg)) (log_link 1)
     3 demo_bbo (OrderManager_new, []) = Inr (om,
       [\<lparr>rq_type = Request_NEW, rq_client_id = 1, rq_ticker_id = 3, rq_order_id = 1, rq_side = BUY, rq_price = 100, rq_qty = 10\<rparr>,
        \<lparr>rq_type = Request_NEW, rq_client_id = 1, rq_ticker_id = 3, rq_order_id = 2, rq_side = SELL, rq_price = 104, rq_qty = 10\<rparr>])"
  by (simp add: mm_onOrderBookUpdate_def both_sides_def demo_bbo_def demo_features_def getMktPrice_def Feature_INVALID_def demo_move)

theorem maker_never_crosses_witness:
  "\<exists>om sent. mm_onOrderBookUpdate exact_ops (\<lambda>_. demo_cfg) demo_features demo_keeper (RiskManager_new (\<lambda>_. demo_cfg))
     (log_link 1) 3 demo_bbo (OrderManager_new, []) = Inr (om, sent) \<and> length sent = 2 \<and>
     (\<forall>rq\<in>set sent. rq_type rq = Request_NEW \<longrightarrow> rq_side rq = BUY \<longrightarrow> rq_price rq \<le> 100)"
proof -
  obtain om where om: "mm_onOrderBookUpdate exact_ops (\<lambda>_. demo_cfg) demo_features demo_keeper (RiskManager_new (\<lambda>_. demo_cfg))
     (log_link 1) 3 demo_bbo (OrderManager_new, []) = Inr (om,
       [\<lparr>rq_type = Request_NEW, rq_client_id = 1, rq_ticker_id = 3, rq_order_id = 1, rq_side = BUY, rq_price = 100, rq_qty = 10\<rparr>,
        \<lparr>rq_type = Request_NEW, rq_client_id = 1, rq_ticker_id = 3, rq_order_id = 2, rq_side = SELL, rq_price = 104, rq_qty = 10\<rparr>])"
    using demo_maker by blast
  with maker_never_crosses [OF om] show ?thesis by (auto simp: demo_bbo_def)
qed

text \<open>C35: The liquidity taker follows the trade. A handled trade only appends requests, and every new
  order among them is on the side of the trade, for the configured quantity, at the best price of the
  other side; nothing is sent unless the ratio of the trade to the quantity it met is at least the
  threshold.\<close>

theorem taker_follows_trade:
  assumes "lt_onTradeUpdate F ticker_cfg fe pk rm (log_link cid) u bbo (om, sent) = Inr (om', sent')"
  shows "\<exists>rqs. sent' = sent @ rqs \<and>
    (rqs \<noteq> [] \<longrightarrow> d_le F (threshold (ticker_cfg (unat (mu_ticker_id u)))) (agg_trade_qty_ratio fe)) \<and>
    (\<forall>rq\<in>set rqs. rq_type rq = Request_NEW \<longrightarrow> rq_ticker_id rq = mu_ticker_id u \<and>
      rq_qty rq = clip (ticker_cfg (unat (mu_ticker_id u))) \<and>
      rq_side rq = (if mu_side u = BUY then BUY else SELL) \<and>
      rq_price rq = (if mu_side u = BUY then ask_price bbo else bid_price bbo))"
proof (cases "both_sides bbo \<and> \<not> d_eq F (getAggTradeQtyRatio fe) (Feature_INVALID F) \<and>
    d_le F (threshold (ticker_cfg (unat (mu_ticker_id u)))) (getAggTradeQtyRatio fe)")
  case False
  with assms show ?thesis by (auto simp: lt_onTradeUpdate_def Let_def result_simps split: if_splits)
next
  case True
  let ?q = "clip (ticker_cfg (unat (mu_ticker_id u)))"
  obtain bid ask where "moveOrders F pk rm (log_link cid) (mu_ticker_id u) bid ask ?q (om, sent) = Inr (om', sent')"
    and "bid = (if mu_side u = BUY then ask_price bbo else Price_INVALID)"
    and "ask = (if mu_side u = BUY then Price_INVALID else bid_price bbo)"
    using assms True by (auto simp: lt_onTradeUpdate_def Let_def result_simps split: if_splits)
  with moveOrders_sends [OF this(1)] True show ?thesis
    by (fastforce simp: asked_def list_all_iff getAggTradeQtyRatio_def)
qed

definition demo_trade :: MEMarketUpdate where
  "demo_trade = \<lparr>mu_type = TRADE, mu_order_id = 1, mu_ticker_id = 3, mu_side = SELL, mu_price = 100, mu_qty = 60, mu_priority = 1\<rparr>"

theorem taker_follows_trade_witness:
  "\<exists>om rq. lt_onTradeUpdate exact_ops (\<lambda>_. demo_cfg) demo_features demo_keeper (RiskManager_new (\<lambda>_. demo_cfg)) (log_link 1)
     demo_trade demo_bbo (OrderManager_new, []) = Inr (om, [rq]) \<and> rq_side rq = SELL \<and> rq_price rq = 100"
proof -
  have "\<exists>om rq. lt_onTradeUpdate exact_ops (\<lambda>_. demo_cfg) demo_features demo_keeper (RiskManager_new (\<lambda>_. demo_cfg)) (log_link 1)
     demo_trade demo_bbo (OrderManager_new, []) = Inr (om, [rq]) \<and> rq_type rq = Request_NEW"
    by (simp add: lt_onTradeUpdate_def both_sides_def demo_bbo_def demo_features_def demo_trade_def
        getAggTradeQtyRatio_def Feature_INVALID_def demo_move)
  then obtain om rq where om: "lt_onTradeUpdate exact_ops (\<lambda>_. demo_cfg) demo_features demo_keeper
     (RiskManager_new (\<lambda>_. demo_cfg)) (log_link 1) demo_trade demo_bbo (OrderManager_new, []) = Inr (om, [rq])"
    and "rq_type rq = Request_NEW" by blast
  with taker_follows_trade [OF om] show ?thesis by (auto simp: demo_trade_def demo_bbo_def)
qed

text \<open>The test for an invalid feature never fails. No number is equal to NaN, not even NaN itself, so
  with two valid sides the market maker of a feature engine that has computed nothing sends its two
  orders: the condition on the fair price has no effect.\<close>

theorem invalid_feature_trades:
  "\<exists>om rq rq'. mm_onOrderBookUpdate exact_ops (\<lambda>_. demo_cfg) (FeatureEngine_new exact_ops) demo_keeper
     (RiskManager_new (\<lambda>_. demo_cfg)) (log_link 1) 3 demo_bbo (OrderManager_new, []) = Inr (om, [rq, rq'])"
  by (simp add: mm_onOrderBookUpdate_def both_sides_def demo_bbo_def FeatureEngine_new_def getMktPrice_def
      Feature_INVALID_def demo_move)

end
