(* ===== verification/Trade_Engine.thy ===== *)
theory Trade_Engine
  imports Client_Book Client_BBO Strategies
begin

text \<open>
  The trade engine of \<^verbatim>\<open>src/trading/strategy/trade_engine.h\<close> and \<^verbatim>\<open>trade_engine.cpp\<close>: the
  books, the feature engine, the position keeper, the order manager with its risk check, and one of
  the two algorithms, between the three queues that connect it to the order gateway and to the market
  data consumer. The readings of the clock are a parameter. What is written to the log is left out.
\<close>

section \<open>The class\<close>

record 'f TradeEngine =
  te_client_id :: ClientId
  te_order_book :: "nat \<Rightarrow> MarketOrderBook"
  outgoing_ogw_requests :: ClientRequestLFQueue
  incoming_ogw_responses :: ClientResponseLFQueue
  incoming_md_updates :: MEMarketUpdateLFQueue
  last_event_time :: Nanos
  te_run :: bool
  feature_engine :: "'f FeatureEngine"
  position_keeper :: "'f PositionKeeper"
  order_manager :: OrderManager
  risk_manager :: "'f RiskManager"
  te_algo :: AlgoType
  te_ticker_cfg :: "nat \<Rightarrow> 'f TradeEngineCfg"

text \<open>
  The constructor. The memory of the books and of the open prices of the position keeper is a
  parameter. The function wrappers are a choice by the type of the algorithm.
\<close>

definition TradeEngine_new ::
    "'f double_ops \<Rightarrow> (nat \<Rightarrow> nat \<Rightarrow> pointer) \<Rightarrow> (nat \<Rightarrow> nat \<Rightarrow> pointer) \<Rightarrow> (nat \<Rightarrow> nat \<Rightarrow> 'f) \<Rightarrow>
     ClientId \<Rightarrow> AlgoType \<Rightarrow> (nat \<Rightarrow> 'f TradeEngineCfg) \<Rightarrow>
     ClientRequestLFQueue \<Rightarrow> ClientResponseLFQueue \<Rightarrow> MEMarketUpdateLFQueue \<Rightarrow> 'f TradeEngine" where
  "TradeEngine_new F oid_mem price_mem vwap_mem client_id algo_type ticker_cfg client_requests client_responses market_updates =
     \<lparr>te_client_id = client_id,
      te_order_book = (\<lambda>i. MarketOrderBook_new (of_nat i) (oid_mem i) (price_mem i)),
      outgoing_ogw_requests = client_requests, incoming_ogw_responses = client_responses,
      incoming_md_updates = market_updates, last_event_time = 0, te_run = False,
      feature_engine = FeatureEngine_new F, position_keeper = (\<lambda>i. PositionInfo_default F (vwap_mem i)),
      order_manager = OrderManager_new, risk_manager = RiskManager_new ticker_cfg,
      te_algo = algo_type, te_ticker_cfg = ticker_cfg\<rparr>"

definition te_start :: "'f TradeEngine \<Rightarrow> 'f TradeEngine" where
  "te_start te = te\<lparr>te_run := True\<rparr>"

text \<open>\<^verbatim>\<open>stop\<close> waits while there is something to read: then it has no result yet.\<close>

definition te_stop :: "'f TradeEngine \<Rightarrow> 'f TradeEngine option" where
  "te_stop te =
     (if q_length (incoming_ogw_responses te) \<noteq> 0 \<or> q_length (incoming_md_updates te) \<noteq> 0 then None
      else Some (te\<lparr>te_run := False\<rparr>))"

definition initLastEventTime :: "Nanos \<Rightarrow> 'f TradeEngine \<Rightarrow> 'f TradeEngine" where
  "initLastEventTime now te = te\<lparr>last_event_time := now\<rparr>"

text \<open>The quotient of C++, which rounds towards zero.\<close>

definition silentSeconds :: "Nanos \<Rightarrow> 'f TradeEngine \<Rightarrow> Nanos" where
  "silentSeconds now te =
     (let d = now - last_event_time te in sgn d * (\<bar>d\<bar> div NANOS_TO_SECS))"

text \<open>
  \<^verbatim>\<open>sendClientRequest\<close> writes to the queue of requests: that and the client id are what the order
  manager uses of the engine.
\<close>

definition te_sendClientRequest :: "ClientRequestLFQueue \<Rightarrow> MEClientRequest \<Rightarrow> ClientRequestLFQueue" where
  "te_sendClientRequest q client_request = q_push q client_request"

definition te_link :: "ClientId \<Rightarrow> ClientRequestLFQueue engine_link" where
  "te_link client_id = \<lparr>clientId = client_id, sendClientRequest = te_sendClientRequest\<rparr>"

section \<open>Dispatch to the algorithm\<close>

definition set_orders :: "'f TradeEngine \<Rightarrow> OrderManager \<times> ClientRequestLFQueue \<Rightarrow> 'f TradeEngine" where
  "set_orders te = (\<lambda>(om, q). te\<lparr>order_manager := om, outgoing_ogw_requests := q\<rparr>)"

definition algoOnOrderBookUpdate :: "'f double_ops \<Rightarrow> TickerId \<Rightarrow> BBO \<Rightarrow> 'f TradeEngine \<Rightarrow> 'f TradeEngine result" where
  "algoOnOrderBookUpdate F ticker_id bbo te =
     (let st = (order_manager te, outgoing_ogw_requests te) in
      if te_algo te = MAKER then
        andThen (mm_onOrderBookUpdate F (te_ticker_cfg te) (feature_engine te) (position_keeper te) (risk_manager te)
          (te_link (te_client_id te)) ticker_id bbo st) (\<lambda>st1. Inr (set_orders te st1))
      else if te_algo te = TAKER then andThen (lt_onOrderBookUpdate ticker_id st) (\<lambda>st1. Inr (set_orders te st1))
      else Inr te)"

definition algoOnTradeUpdate :: "'f double_ops \<Rightarrow> MEMarketUpdate \<Rightarrow> BBO \<Rightarrow> 'f TradeEngine \<Rightarrow> 'f TradeEngine result" where
  "algoOnTradeUpdate F market_update bbo te =
     (let st = (order_manager te, outgoing_ogw_requests te) in
      if te_algo te = MAKER then andThen (mm_onTradeUpdate market_update st) (\<lambda>st1. Inr (set_orders te st1))
      else if te_algo te = TAKER then
        andThen (lt_onTradeUpdate F (te_ticker_cfg te) (feature_engine te) (position_keeper te) (risk_manager te)
          (te_link (te_client_id te)) market_update bbo st) (\<lambda>st1. Inr (set_orders te st1))
      else Inr te)"

definition algoOnOrderUpdate :: "MEClientResponse \<Rightarrow> 'f TradeEngine \<Rightarrow> 'f TradeEngine result" where
  "algoOnOrderUpdate client_response te =
     (if te_algo te = MAKER then
        andThen (mm_onOrderUpdate client_response (order_manager te)) (\<lambda>om. Inr (te\<lparr>order_manager := om\<rparr>))
      else if te_algo te = TAKER then
        andThen (lt_onOrderUpdate client_response (order_manager te)) (\<lambda>om. Inr (te\<lparr>order_manager := om\<rparr>))
      else Inr te)"

section \<open>The handlers\<close>

definition te_onOrderBookUpdate ::
    "'f double_ops \<Rightarrow> TickerId \<Rightarrow> Price \<Rightarrow> Side \<Rightarrow> MarketOrderBook \<Rightarrow> 'f TradeEngine \<Rightarrow> 'f TradeEngine result" where
  "te_onOrderBookUpdate F ticker_id price side book te =
     (let bbo = getBBO book in
      andThen (updateBBO F (position_keeper te) ticker_id bbo) (\<lambda>pk.
      andThen (fe_onOrderBookUpdate F bbo (feature_engine te)) (\<lambda>fe.
      algoOnOrderBookUpdate F ticker_id bbo (te\<lparr>position_keeper := pk, feature_engine := fe\<rparr>))))"

definition te_onTradeUpdate ::
    "'f double_ops \<Rightarrow> MEMarketUpdate \<Rightarrow> MarketOrderBook \<Rightarrow> 'f TradeEngine \<Rightarrow> 'f TradeEngine result" where
  "te_onTradeUpdate F market_update book te =
     algoOnTradeUpdate F market_update (getBBO book)
       (te\<lparr>feature_engine := fe_onTradeUpdate F market_update (getBBO book) (feature_engine te)\<rparr>)"

definition te_onOrderUpdate :: "'f double_ops \<Rightarrow> MEClientResponse \<Rightarrow> 'f TradeEngine \<Rightarrow> 'f TradeEngine result" where
  "te_onOrderUpdate F client_response te =
     andThen (if cr_type client_response = FILLED then addFill F (position_keeper te) client_response
              else Inr (position_keeper te)) (\<lambda>pk.
     algoOnOrderUpdate client_response (te\<lparr>position_keeper := pk\<rparr>))"

definition te_listener :: "'f double_ops \<Rightarrow> 'f TradeEngine book_listener" where
  "te_listener F = \<lparr>onTradeUpdate = te_onTradeUpdate F, onOrderBookUpdate = te_onOrderBookUpdate F\<rparr>"

section \<open>The main loop\<close>

text \<open>The bodies of the two loops of \<^verbatim>\<open>run\<close>, without the queue they read from.\<close>

definition te_market_update :: "'f double_ops \<Rightarrow> MEMarketUpdate \<Rightarrow> 'f TradeEngine \<Rightarrow> 'f TradeEngine result" where
  "te_market_update F market_update te =
     (let t = unat (mu_ticker_id market_update) in
      andThen (ASSERT (t < ME_MAX_TICKERS) (''Unknown ticker-id on update:'' @ MEMarketUpdate_toString market_update)) (\<lambda>_.
      andThen (onMarketUpdate (te_listener F) market_update (te_order_book te t, te)) (\<lambda>(book, te1).
      Inr (te1\<lparr>te_order_book := (te_order_book te1)(t := book)\<rparr>))))"

text \<open>
  The loops, with \<open>now 0\<close>, \<open>now 1\<close>, \<dots> the readings of the clock. A loop ends when its queue is
  empty; the handlers do not write to it, so its length bounds the number of turns.
\<close>

fun te_responses_loop ::
    "nat \<Rightarrow> 'f double_ops \<Rightarrow> (nat \<Rightarrow> Nanos) \<Rightarrow> 'f TradeEngine \<Rightarrow> ('f TradeEngine \<times> (nat \<Rightarrow> Nanos)) result" where
  "te_responses_loop fuel F now te =
     (case getNextToRead (incoming_ogw_responses te) of
        None \<Rightarrow> Inr (te, now)
      | Some client_response \<Rightarrow>
          (case fuel of
             0 \<Rightarrow> Inl Diverges
           | Suc fuel' \<Rightarrow>
               andThen (te_onOrderUpdate F client_response te) (\<lambda>te1.
               andThen (updateReadIndex (incoming_ogw_responses te1)) (\<lambda>q.
               te_responses_loop fuel' F (now \<circ> Suc)
                 (te1\<lparr>incoming_ogw_responses := q, last_event_time := now 0\<rparr>)))))"

fun te_updates_loop ::
    "nat \<Rightarrow> 'f double_ops \<Rightarrow> (nat \<Rightarrow> Nanos) \<Rightarrow> 'f TradeEngine \<Rightarrow> ('f TradeEngine \<times> (nat \<Rightarrow> Nanos)) result" where
  "te_updates_loop fuel F now te =
     (case getNextToRead (incoming_md_updates te) of
        None \<Rightarrow> Inr (te, now)
      | Some market_update \<Rightarrow>
          (case fuel of
             0 \<Rightarrow> Inl Diverges
           | Suc fuel' \<Rightarrow>
               andThen (te_market_update F market_update te) (\<lambda>te1.
               andThen (updateReadIndex (incoming_md_updates te1)) (\<lambda>q.
               te_updates_loop fuel' F (now \<circ> Suc)
                 (te1\<lparr>incoming_md_updates := q, last_event_time := now 0\<rparr>)))))"

declare te_responses_loop.simps [simp del] te_updates_loop.simps [simp del]

definition te_run_step :: "'f double_ops \<Rightarrow> (nat \<Rightarrow> Nanos) \<Rightarrow> 'f TradeEngine \<Rightarrow> ('f TradeEngine \<times> (nat \<Rightarrow> Nanos)) result" where
  "te_run_step F now te =
     andThen (te_responses_loop (q_length (incoming_ogw_responses te)) F now te) (\<lambda>(te1, now1).
     te_updates_loop (q_length (incoming_md_updates te1)) F now1 te1)"

fun te_runs :: "nat \<Rightarrow> 'f double_ops \<Rightarrow> (nat \<Rightarrow> Nanos) \<Rightarrow> 'f TradeEngine \<Rightarrow> 'f TradeEngine result" where
  "te_runs 0 F now te = Inr te"
| "te_runs (Suc k) F now te =
     (if te_run te then andThen (te_run_step F now te) (\<lambda>(te1, now1). te_runs k F now1 te1) else Inr te)"

section \<open>The loops as iterations\<close>

text \<open>The loops over the lists of waiting messages.\<close>

fun te_responses ::
    "'f double_ops \<Rightarrow> (nat \<Rightarrow> Nanos) \<Rightarrow> 'f TradeEngine \<Rightarrow> MEClientResponse list \<Rightarrow> ('f TradeEngine \<times> (nat \<Rightarrow> Nanos)) result" where
  "te_responses F now te [] = Inr (te, now)"
| "te_responses F now te (r # rs) =
     andThen (te_onOrderUpdate F r te) (\<lambda>te1.
     andThen (updateReadIndex (incoming_ogw_responses te1)) (\<lambda>q.
     te_responses F (now \<circ> Suc) (te1\<lparr>incoming_ogw_responses := q, last_event_time := now 0\<rparr>) rs))"

fun te_updates ::
    "'f double_ops \<Rightarrow> (nat \<Rightarrow> Nanos) \<Rightarrow> 'f TradeEngine \<Rightarrow> MEMarketUpdate list \<Rightarrow> ('f TradeEngine \<times> (nat \<Rightarrow> Nanos)) result" where
  "te_updates F now te [] = Inr (te, now)"
| "te_updates F now te (u # us) =
     andThen (te_market_update F u te) (\<lambda>te1.
     andThen (updateReadIndex (incoming_md_updates te1)) (\<lambda>q.
     te_updates F (now \<circ> Suc) (te1\<lparr>incoming_md_updates := q, last_event_time := now 0\<rparr>) us))"

text \<open>What the handlers leave alone.\<close>

definition fixed_parts :: "'f TradeEngine \<Rightarrow> 'f TradeEngine \<Rightarrow> bool" where
  "fixed_parts te te' \<longleftrightarrow> te_client_id te' = te_client_id te \<and> te_algo te' = te_algo te \<and>
     te_ticker_cfg te' = te_ticker_cfg te \<and> risk_manager te' = risk_manager te \<and> te_run te' = te_run te"

definition handler_frame :: "'f TradeEngine \<Rightarrow> 'f TradeEngine \<Rightarrow> bool" where
  "handler_frame te te' \<longleftrightarrow> fixed_parts te te' \<and> te_order_book te' = te_order_book te \<and>
     incoming_ogw_responses te' = incoming_ogw_responses te \<and> incoming_md_updates te' = incoming_md_updates te"

lemmas frame_defs = handler_frame_def fixed_parts_def

lemma fixed_refl [simp]: "fixed_parts te te"
  by (simp add: fixed_parts_def)

lemma fixed_trans: "fixed_parts te te1 \<Longrightarrow> fixed_parts te1 te2 \<Longrightarrow> fixed_parts te te2"
  by (simp add: fixed_parts_def)

lemma algo_frames:
  "algoOnOrderBookUpdate F ticker_id bbo te = Inr te' \<Longrightarrow> handler_frame te te'"
  "algoOnTradeUpdate F u bbo te = Inr te' \<Longrightarrow> handler_frame te te'"
  "algoOnOrderUpdate r te = Inr te' \<Longrightarrow> handler_frame te te'"
  by (auto simp: algoOnOrderBookUpdate_def algoOnTradeUpdate_def algoOnOrderUpdate_def set_orders_def Let_def
      frame_defs result_simps split: if_splits)

lemma handler_frames:
  "te_onOrderBookUpdate F ticker_id price side book te = Inr te' \<Longrightarrow> handler_frame te te'"
  "te_onTradeUpdate F u book te = Inr te' \<Longrightarrow> handler_frame te te'"
  "te_onOrderUpdate F r te = Inr te' \<Longrightarrow> handler_frame te te'"
  by (auto simp: te_onOrderBookUpdate_def te_onTradeUpdate_def te_onOrderUpdate_def Let_def frame_defs result_simps
      dest!: algo_frames)

lemma market_update_frame:
  assumes "te_market_update F u te = Inr te'"
  shows "fixed_parts te te'" and "incoming_ogw_responses te' = incoming_ogw_responses te"
    and "incoming_md_updates te' = incoming_md_updates te"
  using assms
  by (auto simp: te_market_update_def onMarketUpdate_def te_listener_def Let_def frame_defs result_simps
      split: if_splits dest!: handler_frames)

lemma responses_loop_eq:
  assumes "q_inv (incoming_ogw_responses te)" and "length (q_contents (incoming_ogw_responses te)) \<le> fuel"
  shows "te_responses_loop fuel F now te = te_responses F now te (q_contents (incoming_ogw_responses te))"
  using assms
proof (induction "q_contents (incoming_ogw_responses te)" arbitrary: te now fuel)
  case Nil
  then show ?case by (simp add: te_responses_loop.simps getNextToRead_contents split: list.splits)
next
  case (Cons r rs)
  then obtain fuel' where fuel: "fuel = Suc fuel'" by (cases fuel) (metis length_Cons le_zero_eq nat.distinct(1), blast)
  have next_read: "getNextToRead (incoming_ogw_responses te) = Some r"
    using Cons.hyps(2) Cons.prems(1) by (simp add: getNextToRead_contents split: list.splits) auto
  from updateReadIndex_contents [OF Cons.prems(1) Cons.hyps(2) [symmetric]] obtain q where
    q: "updateReadIndex (incoming_ogw_responses te) = Inr q" "q_inv q" "q_contents q = rs" by blast
  show ?case
  proof (cases "te_onOrderUpdate F r te")
    case (Inr te1)
    let ?te2 = "te1\<lparr>incoming_ogw_responses := q, last_event_time := now 0\<rparr>"
    have same: "incoming_ogw_responses te1 = incoming_ogw_responses te"
      using handler_frames(3) [OF Inr] by (simp add: handler_frame_def)
    have "te_responses_loop fuel' F (now \<circ> Suc) ?te2 = te_responses F (now \<circ> Suc) ?te2 rs"
      using Cons.hyps(1) [of ?te2 fuel' "now \<circ> Suc"] q Cons.prems(2) Cons.hyps(2) [symmetric] fuel by simp
    then show ?thesis
      using next_read fuel q(1) same Inr Cons.hyps(2) [symmetric] by (subst te_responses_loop.simps) simp
  next
    case (Inl e)
    then show ?thesis using next_read fuel Cons.hyps(2) [symmetric] by (subst te_responses_loop.simps) simp
  qed
qed

lemma updates_loop_eq:
  assumes "q_inv (incoming_md_updates te)" and "length (q_contents (incoming_md_updates te)) \<le> fuel"
  shows "te_updates_loop fuel F now te = te_updates F now te (q_contents (incoming_md_updates te))"
  using assms
proof (induction "q_contents (incoming_md_updates te)" arbitrary: te now fuel)
  case Nil
  then show ?case by (simp add: te_updates_loop.simps getNextToRead_contents split: list.splits)
next
  case (Cons r rs)
  then obtain fuel' where fuel: "fuel = Suc fuel'" by (cases fuel) (metis length_Cons le_zero_eq nat.distinct(1), blast)
  have next_read: "getNextToRead (incoming_md_updates te) = Some r"
    using Cons.hyps(2) Cons.prems(1) by (simp add: getNextToRead_contents split: list.splits) auto
  from updateReadIndex_contents [OF Cons.prems(1) Cons.hyps(2) [symmetric]] obtain q where
    q: "updateReadIndex (incoming_md_updates te) = Inr q" "q_inv q" "q_contents q = rs" by blast
  show ?case
  proof (cases "te_market_update F r te")
    case (Inr te1)
    let ?te2 = "te1\<lparr>incoming_md_updates := q, last_event_time := now 0\<rparr>"
    have same: "incoming_md_updates te1 = incoming_md_updates te" by (rule market_update_frame(3) [OF Inr])
    have "te_updates_loop fuel' F (now \<circ> Suc) ?te2 = te_updates F (now \<circ> Suc) ?te2 rs"
      using Cons.hyps(1) [of ?te2 fuel' "now \<circ> Suc"] q Cons.prems(2) Cons.hyps(2) [symmetric] fuel by simp
    then show ?thesis
      using next_read fuel q(1) same Inr Cons.hyps(2) [symmetric] by (subst te_updates_loop.simps) simp
  next
    case (Inl e)
    then show ?thesis using next_read fuel Cons.hyps(2) [symmetric] by (subst te_updates_loop.simps) simp
  qed
qed

text \<open>What a pass over the messages does to the queues and the books.\<close>

lemma responses_frame:
  assumes "te_responses F now te rs = Inr (te', now')" and "q_inv (incoming_ogw_responses te)"
    and "q_contents (incoming_ogw_responses te) = rs"
  shows "fixed_parts te te' \<and> te_order_book te' = te_order_book te \<and> incoming_md_updates te' = incoming_md_updates te \<and>
    q_inv (incoming_ogw_responses te') \<and> q_contents (incoming_ogw_responses te') = []"
  using assms
proof (induction rs arbitrary: te now)
  case (Cons r rs)
  then obtain te1 q where te1: "te_onOrderUpdate F r te = Inr te1" "updateReadIndex (incoming_ogw_responses te1) = Inr q"
    "te_responses F (now \<circ> Suc) (te1\<lparr>incoming_ogw_responses := q, last_event_time := now 0\<rparr>) rs = Inr (te', now')"
    by (auto simp: result_simps)
  have fr: "handler_frame te te1" by (rule handler_frames(3) [OF te1(1)])
  from updateReadIndex_contents [OF Cons.prems(2,3)] fr te1(2) have "q_inv q" "q_contents q = rs"
    by (auto simp: handler_frame_def)
  with Cons.IH [OF te1(3)] fr show ?case by (simp add: frame_defs)
qed simp

lemma market_update_book:
  assumes "te_market_update F u te = Inr te'"
  shows "\<exists>b. mb_update (te_order_book te (unat (mu_ticker_id u))) u = Inr b \<and>
    te_order_book te' = (te_order_book te)(unat (mu_ticker_id u) := b)"
proof -
  let ?t = "unat (mu_ticker_id u)"
  from assms obtain b te1 where m: "onMarketUpdate (te_listener F) u (te_order_book te ?t, te) = Inr (b, te1)"
    and te': "te' = te1\<lparr>te_order_book := (te_order_book te1)(?t := b)\<rparr>"
    by (auto simp: te_market_update_def Let_def result_simps)
  have "te_order_book te1 = te_order_book te"
    using m by (auto simp: onMarketUpdate_def te_listener_def Let_def result_simps handler_frame_def
        split: if_splits dest!: handler_frames)
  with onMarketUpdate_book [OF m] te' show ?thesis by simp
qed

lemma updates_frame:
  assumes "te_updates F now te us = Inr (te', now')" and "q_inv (incoming_md_updates te)"
    and "q_contents (incoming_md_updates te) = us"
  shows "fixed_parts te te' \<and> client_updates (te_order_book te) us = Inr (te_order_book te') \<and>
    incoming_ogw_responses te' = incoming_ogw_responses te \<and>
    q_inv (incoming_md_updates te') \<and> q_contents (incoming_md_updates te') = []"
  using assms
proof (induction us arbitrary: te now)
  case (Cons u us)
  then obtain te1 q where te1: "te_market_update F u te = Inr te1" "updateReadIndex (incoming_md_updates te1) = Inr q"
    "te_updates F (now \<circ> Suc) (te1\<lparr>incoming_md_updates := q, last_event_time := now 0\<rparr>) us = Inr (te', now')"
    by (auto simp: result_simps)
  note fr = market_update_frame [OF te1(1)]
  from updateReadIndex_contents [OF Cons.prems(2,3)] fr te1(2) have q: "q_inv q" "q_contents q = us" by auto
  from market_update_book [OF te1(1)] obtain b where
    "mb_update (te_order_book te (unat (mu_ticker_id u))) u = Inr b"
    "te_order_book te1 = (te_order_book te)(unat (mu_ticker_id u) := b)" by blast
  moreover from Cons.IH [OF te1(3)] q have "client_updates (te_order_book te1) us = Inr (te_order_book te')" by simp
  ultimately have "client_updates (te_order_book te) (u # us) = Inr (te_order_book te')" by (simp del: fun_upd_apply)
  with Cons.IH [OF te1(3)] q fr show ?case by (simp add: fixed_parts_def)
qed simp

lemma run_step_eq:
  assumes "q_inv (incoming_ogw_responses te)" and "q_inv (incoming_md_updates te)"
  shows "te_run_step F now te = andThen (te_responses F now te (q_contents (incoming_ogw_responses te))) (\<lambda>(te1, now1).
    te_updates F now1 te1 (q_contents (incoming_md_updates te)))"
proof (cases "te_responses F now te (q_contents (incoming_ogw_responses te))")
  case (Inl e)
  then show ?thesis using responses_loop_eq [OF assms(1)] by (simp add: te_run_step_def)
next
  case (Inr v)
  obtain te1 now1 where v: "v = (te1, now1)" by (cases v)
  from responses_frame [OF Inr [unfolded v] assms(1) refl] assms(2) updates_loop_eq [of te1 "q_length (incoming_md_updates te1)"]
  show ?thesis using responses_loop_eq [OF assms(1)] Inr v by (simp add: te_run_step_def)
qed

lemma run_step_cases:
  assumes "te_run_step F now te = Inr (te', now')" and "q_inv (incoming_ogw_responses te)" and "q_inv (incoming_md_updates te)"
  obtains te1 now1 where "te_responses F now te (q_contents (incoming_ogw_responses te)) = Inr (te1, now1)"
    and "te_updates F now1 te1 (q_contents (incoming_md_updates te)) = Inr (te', now')"
    and "incoming_md_updates te1 = incoming_md_updates te"
proof -
  from assms(1) obtain te1 now1 where
    r: "te_responses F now te (q_contents (incoming_ogw_responses te)) = Inr (te1, now1)"
    and "te_updates F now1 te1 (q_contents (incoming_md_updates te)) = Inr (te', now')"
    unfolding run_step_eq [OF assms(2,3)] by (auto simp: result_simps)
  with that responses_frame [OF r assms(2) refl] show thesis by simp
qed

section \<open>The engine is a trader\<close>

text \<open>
  What an order manager sends does not depend on how it is sent: if \<open>h\<close> maps a log of requests to a
  state of the engine, and sending in that state is appending to the log, then a move in the state is
  the move with the log.
\<close>

locale sending =
  fixes link :: "'s engine_link" and cid :: ClientId and h :: "MEClientRequest list \<Rightarrow> 's"
  assumes client: "clientId link = cid" and send: "sendClientRequest link (h l) r = h (l @ [r])"
begin

lemma orders:
  "newOrder link ticker_id price side qty (om, h l) = map_prod id h (newOrder (log_link cid) ticker_id price side qty (om, l))"
  "cancelOrder link ticker_id side x (om, h l) = map_prod id h (cancelOrder (log_link cid) ticker_id side x (om, l))"
  by (simp_all add: newOrder_def cancelOrder_def log_link_def client send Let_def)

lemma move:
  "moveOrder F pk rm link x ticker_id price side qty (om, h l) =
     map_result (map_prod id h) (moveOrder F pk rm (log_link cid) x ticker_id price side qty (om, l))"
  by (cases "checkPreTradeRisk F pk rm ticker_id side qty")
     (simp_all add: moveOrder_def moveOrder_new_def orders split: OMOrderState.split)

lemma moves:
  "moveOrders F pk rm link ticker_id bid ask qty (om, h l) =
     map_result (map_prod id h) (moveOrders F pk rm (log_link cid) ticker_id bid ask qty (om, l))"
proof -
  have "moveOrder F pk rm link x ticker_id price side q (map_prod id h st) =
      map_result (map_prod id h) (moveOrder F pk rm (log_link cid) x ticker_id price side q st)" for x price side q st
    using move by (cases st) simp
  then show ?thesis by (simp add: moveOrders_def move map_result_andThen andThen_map_result)
qed

end

interpretation queue_link: sending "te_link cid" cid "q_pushes q" for cid q
  by unfold_locales (simp_all add: te_link_def te_sendClientRequest_def q_pushes_append)

interpretation append_link: sending "log_link cid" cid "(@) sent" for cid sent
  by unfold_locales (simp_all add: log_link_def)

lemma moveOrders_link:
  assumes "moveOrders F pk rm (te_link cid) ticker_id bid ask qty (om, q) = Inr (om', q')"
  shows "\<exists>more. q' = q_pushes q more \<and>
    (\<forall>sent. moveOrders F pk rm (log_link cid) ticker_id bid ask qty (om, sent) = Inr (om', sent @ more))"
proof -
  have "map_result (map_prod id (q_pushes q)) (moveOrders F pk rm (log_link cid) ticker_id bid ask qty (om, [])) = Inr (om', q')"
    using queue_link.moves [of F pk rm cid ticker_id bid ask qty om q "[]"] assms by simp
  then obtain more where
    m: "moveOrders F pk rm (log_link cid) ticker_id bid ask qty (om, []) = Inr (om', more)" "q' = q_pushes q more"
    by (auto simp: map_result_Inr)
  have "moveOrders F pk rm (log_link cid) ticker_id bid ask qty (om, sent) = Inr (om', sent @ more)" for sent
    using append_link.moves [of F pk rm cid ticker_id bid ask qty om sent "[]"] m(1) by simp
  with m(2) show ?thesis by blast
qed

text \<open>
  The engine as a trader: the same order manager and position keeper. A part of the engine's work is
  simulated when the trader gets there in steps of its own, receives the same responses, and sends
  what the engine has pushed to its queue.
\<close>

definition trades_as :: "'f TradeEngine \<Rightarrow> 'f trader \<Rightarrow> bool" where
  "trades_as te tr \<longleftrightarrow> tr_om tr = order_manager te \<and> tr_pk tr = position_keeper te"

definition simulated :: "'f double_ops \<Rightarrow> 'f TradeEngine \<Rightarrow> MEClientResponse list \<Rightarrow> 'f TradeEngine \<Rightarrow> bool" where
  "simulated F te rs te' \<longleftrightarrow> (\<forall>tr. trades_as te tr \<longrightarrow> (\<exists>tr' more.
     (trader_step F (risk_manager te) (te_client_id te))\<^sup>*\<^sup>* tr tr' \<and> trades_as te' tr' \<and>
     outgoing_ogw_requests te' = q_pushes (outgoing_ogw_requests te) more \<and>
     tr_sent tr' = tr_sent tr @ more \<and> tr_rcvd tr' = tr_rcvd tr @ rs))"

lemma simulated_same:
  "order_manager te' = order_manager te \<Longrightarrow> position_keeper te' = position_keeper te \<Longrightarrow>
   outgoing_ogw_requests te' = outgoing_ogw_requests te \<Longrightarrow> simulated F te [] te'"
  unfolding simulated_def trades_as_def by (metis append_Nil2 q_pushes_Nil rtranclp.rtrancl_refl)

lemma simulated_trans:
  assumes "simulated F te rs te1" and "simulated F te1 rs' te2" and "fixed_parts te te1"
  shows "simulated F te (rs @ rs') te2"
  unfolding simulated_def
proof (intro allI impI)
  fix tr assume "trades_as te tr"
  with assms(1) obtain tr1 more where 1: "(trader_step F (risk_manager te) (te_client_id te))\<^sup>*\<^sup>* tr tr1" "trades_as te1 tr1"
    "outgoing_ogw_requests te1 = q_pushes (outgoing_ogw_requests te) more"
    "tr_sent tr1 = tr_sent tr @ more" "tr_rcvd tr1 = tr_rcvd tr @ rs"
    unfolding simulated_def by blast
  from assms(2) 1(2) assms(3) obtain tr2 more' where 2: "(trader_step F (risk_manager te) (te_client_id te))\<^sup>*\<^sup>* tr1 tr2" "trades_as te2 tr2"
    "outgoing_ogw_requests te2 = q_pushes (outgoing_ogw_requests te1) more'"
    "tr_sent tr2 = tr_sent tr1 @ more'" "tr_rcvd tr2 = tr_rcvd tr1 @ rs'"
    unfolding simulated_def fixed_parts_def by metis
  from 1 2 show "\<exists>tr' more. (trader_step F (risk_manager te) (te_client_id te))\<^sup>*\<^sup>* tr tr' \<and> trades_as te2 tr' \<and>
     outgoing_ogw_requests te2 = q_pushes (outgoing_ogw_requests te) more \<and>
     tr_sent tr' = tr_sent tr @ more \<and> tr_rcvd tr' = tr_rcvd tr @ rs @ rs'"
    by (intro exI [of _ tr2] exI [of _ "more @ more'"]) (auto simp: q_pushes_append intro: rtranclp_trans)
qed

lemma simulated_response:
  assumes "te_onOrderUpdate F r te = Inr te'" and "honest (order_manager te) r" and "te_algo te \<in> {MAKER, TAKER}"
  shows "simulated F te [r] te'"
  unfolding simulated_def
proof (intro allI impI)
  fix tr assume tr: "trades_as te tr"
  from assms(1,3) obtain om pk where te': "te' = te\<lparr>position_keeper := pk, order_manager := om\<rparr>"
    and t: "take_response F (order_manager te) (position_keeper te) r = Inr (om, pk)"
    by (auto simp: te_onOrderUpdate_def algoOnOrderUpdate_def take_response_def mm_onOrderUpdate_def lt_onOrderUpdate_def
        result_simps split: if_splits)
  from trader_step.response [of tr r F om pk "risk_manager te" "te_client_id te"] tr t assms(2)
  have "trader_step F (risk_manager te) (te_client_id te) tr (tr\<lparr>tr_om := om, tr_pk := pk, tr_rcvd := tr_rcvd tr @ [r]\<rparr>)"
    by (simp add: trades_as_def)
  with te' show "\<exists>tr' more. (trader_step F (risk_manager te) (te_client_id te))\<^sup>*\<^sup>* tr tr' \<and> trades_as te' tr' \<and>
     outgoing_ogw_requests te' = q_pushes (outgoing_ogw_requests te) more \<and>
     tr_sent tr' = tr_sent tr @ more \<and> tr_rcvd tr' = tr_rcvd tr @ [r]"
    by (intro exI [of _ "tr\<lparr>tr_om := om, tr_pk := pk, tr_rcvd := tr_rcvd tr @ [r]\<rparr>"] exI [of _ "[]"])
       (auto simp: trades_as_def)
qed

lemma simulated_move:
  assumes "moveOrders F (position_keeper te) (risk_manager te) (te_link (te_client_id te)) ticker_id bid ask qty
     (order_manager te, outgoing_ogw_requests te) = Inr st"
  shows "simulated F te [] (set_orders te st)"
  unfolding simulated_def
proof (intro allI impI)
  fix tr assume tr: "trades_as te tr"
  obtain om q where st: "st = (om, q)" by (cases st)
  from moveOrders_link [OF assms [unfolded st]] obtain more where q: "q = q_pushes (outgoing_ogw_requests te) more"
    and m: "moveOrders F (position_keeper te) (risk_manager te) (log_link (te_client_id te)) ticker_id bid ask qty
      (order_manager te, tr_sent tr) = Inr (om, tr_sent tr @ more)" by blast
  from trader_step.move [of F tr "risk_manager te" "te_client_id te" ticker_id bid ask qty om "tr_sent tr @ more"] tr m
  have "trader_step F (risk_manager te) (te_client_id te) tr (tr\<lparr>tr_om := om, tr_sent := tr_sent tr @ more\<rparr>)"
    by (simp add: trades_as_def)
  with st q tr show "\<exists>tr' more. (trader_step F (risk_manager te) (te_client_id te))\<^sup>*\<^sup>* tr tr' \<and> trades_as (set_orders te st) tr' \<and>
     outgoing_ogw_requests (set_orders te st) = q_pushes (outgoing_ogw_requests te) more \<and>
     tr_sent tr' = tr_sent tr @ more \<and> tr_rcvd tr' = tr_rcvd tr @ []"
    by (intro exI [of _ "tr\<lparr>tr_om := om, tr_sent := tr_sent tr @ more\<rparr>"] exI [of _ more])
       (auto simp: trades_as_def set_orders_def)
qed

lemma simulated_prices:
  assumes "updateBBO F (position_keeper te) ticker_id bbo = Inr pk"
  shows "simulated F te [] (te\<lparr>position_keeper := pk\<rparr>)"
  unfolding simulated_def
proof (intro allI impI)
  fix tr assume tr: "trades_as te tr"
  with trader_step.prices [of F tr ticker_id bbo pk "risk_manager te" "te_client_id te"] assms
  have "trader_step F (risk_manager te) (te_client_id te) tr (tr\<lparr>tr_pk := pk\<rparr>)" by (simp add: trades_as_def)
  with tr show "\<exists>tr' more. (trader_step F (risk_manager te) (te_client_id te))\<^sup>*\<^sup>* tr tr' \<and> trades_as (te\<lparr>position_keeper := pk\<rparr>) tr' \<and>
     outgoing_ogw_requests (te\<lparr>position_keeper := pk\<rparr>) = q_pushes (outgoing_ogw_requests te) more \<and>
     tr_sent tr' = tr_sent tr @ more \<and> tr_rcvd tr' = tr_rcvd tr @ []"
    by (intro exI [of _ "tr\<lparr>tr_pk := pk\<rparr>"] exI [of _ "[]"]) (auto simp: trades_as_def)
qed

lemma simulated_refl: "simulated F te [] te"
  by (rule simulated_same) simp_all

lemma set_orders_same [simp]: "set_orders te (order_manager te, outgoing_ogw_requests te) = te"
  by (simp add: set_orders_def)

lemma simulated_algo:
  "algoOnOrderBookUpdate F ticker_id bbo te = Inr te' \<Longrightarrow> simulated F te [] te'"
  "algoOnTradeUpdate F u bbo te = Inr te' \<Longrightarrow> simulated F te [] te'"
  by (auto simp: algoOnOrderBookUpdate_def algoOnTradeUpdate_def mm_onOrderBookUpdate_def lt_onTradeUpdate_def
      mm_onTradeUpdate_def lt_onOrderBookUpdate_def Let_def result_simps split: if_splits
      intro: simulated_refl simulated_move)

lemma simulated_handlers:
  "te_onOrderBookUpdate F ticker_id price side book te = Inr te' \<Longrightarrow> simulated F te [] te'"
  "te_onTradeUpdate F u book te = Inr te' \<Longrightarrow> simulated F te [] te'"
proof -
  assume "te_onOrderBookUpdate F ticker_id price side book te = Inr te'"
  then obtain pk fe where pk: "updateBBO F (position_keeper te) ticker_id (getBBO book) = Inr pk"
    and a: "algoOnOrderBookUpdate F ticker_id (getBBO book) (te\<lparr>position_keeper := pk, feature_engine := fe\<rparr>) = Inr te'"
    by (auto simp: te_onOrderBookUpdate_def Let_def result_simps)
  let ?te1 = "te\<lparr>position_keeper := pk\<rparr>" let ?te2 = "te\<lparr>position_keeper := pk, feature_engine := fe\<rparr>"
  have 1: "simulated F te [] ?te1" by (rule simulated_prices [OF pk])
  have "simulated F ?te1 [] ?te2" by (rule simulated_same) simp_all
  from simulated_trans [OF this simulated_algo(1) [OF a]] have "simulated F ?te1 [] te'" by (simp add: fixed_parts_def)
  from simulated_trans [OF 1 this] show "simulated F te [] te'" by (simp add: fixed_parts_def)
next
  assume "te_onTradeUpdate F u book te = Inr te'"
  then obtain fe where a: "algoOnTradeUpdate F u (getBBO book) (te\<lparr>feature_engine := fe\<rparr>) = Inr te'"
    by (simp add: te_onTradeUpdate_def)
  have "simulated F te [] (te\<lparr>feature_engine := fe\<rparr>)" by (rule simulated_same) simp_all
  from simulated_trans [OF this simulated_algo(2) [OF a]] show "simulated F te [] te'" by (simp add: fixed_parts_def)
qed

lemma simulated_update:
  assumes "te_market_update F u te = Inr te'"
  shows "simulated F te [] te'"
proof -
  let ?t = "unat (mu_ticker_id u)"
  from assms obtain b te1 where m: "onMarketUpdate (te_listener F) u (te_order_book te ?t, te) = Inr (b, te1)"
    and te': "te' = te1\<lparr>te_order_book := (te_order_book te1)(?t := b)\<rparr>"
    by (auto simp: te_market_update_def Let_def result_simps)
  from m have 1: "simulated F te [] te1" and f: "handler_frame te te1"
    by (auto simp: onMarketUpdate_def te_listener_def Let_def result_simps split: if_splits
        dest: simulated_handlers handler_frames)
  have "simulated F te1 [] te'" unfolding te' by (rule simulated_same) simp_all
  from simulated_trans [OF 1 this] f show ?thesis by (simp add: handler_frame_def)
qed

text \<open>The responses are honest, each for the orders that the engine has when it reads it.\<close>

fun all_honest :: "'f double_ops \<Rightarrow> OrderManager \<Rightarrow> 'f PositionKeeper \<Rightarrow> MEClientResponse list \<Rightarrow> bool" where
  "all_honest F om pk [] = True"
| "all_honest F om pk (r # rs) = (honest om r \<and>
     (case take_response F om pk r of Inl _ \<Rightarrow> True | Inr (om1, pk1) \<Rightarrow> all_honest F om1 pk1 rs))"

lemma simulated_responses:
  assumes "te_responses F now te rs = Inr (te', now')" and "all_honest F (order_manager te) (position_keeper te) rs"
    and "te_algo te \<in> {MAKER, TAKER}"
  shows "simulated F te rs te'"
  using assms
proof (induction rs arbitrary: te now)
  case Nil
  then show ?case by (simp add: simulated_refl)
next
  case (Cons r rs)
  then obtain te1 q where te1: "te_onOrderUpdate F r te = Inr te1"
    and rest: "te_responses F (now \<circ> Suc) (te1\<lparr>incoming_ogw_responses := q, last_event_time := now 0\<rparr>) rs = Inr (te', now')"
    by (auto simp: result_simps)
  let ?te2 = "te1\<lparr>incoming_ogw_responses := q, last_event_time := now 0\<rparr>"
  have t: "take_response F (order_manager te) (position_keeper te) r = Inr (order_manager te1, position_keeper te1)"
    using te1 Cons.prems(3)
    by (auto simp: te_onOrderUpdate_def algoOnOrderUpdate_def take_response_def mm_onOrderUpdate_def lt_onOrderUpdate_def
        result_simps split: if_splits)
  have f: "fixed_parts te te1" using handler_frames(3) [OF te1] by (simp add: handler_frame_def)
  have 1: "simulated F te [r] te1" using simulated_response [OF te1] Cons.prems(2,3) by simp
  have "simulated F te1 [] ?te2" by (rule simulated_same) simp_all
  from simulated_trans [OF 1 this f] have 2: "simulated F te [r] ?te2" by simp
  have "simulated F ?te2 rs te'"
    by (rule Cons.IH [OF rest]) (use Cons.prems(2,3) t f in \<open>simp_all add: fixed_parts_def\<close>)
  from simulated_trans [OF 2 this] f show ?case by (simp add: fixed_parts_def)
qed

lemma simulated_updates:
  assumes "te_updates F now te us = Inr (te', now')"
  shows "simulated F te [] te'"
  using assms
proof (induction us arbitrary: te now)
  case Nil
  then show ?case by (simp add: simulated_refl)
next
  case (Cons u us)
  then obtain te1 q where te1: "te_market_update F u te = Inr te1"
    and rest: "te_updates F (now \<circ> Suc) (te1\<lparr>incoming_md_updates := q, last_event_time := now 0\<rparr>) us = Inr (te', now')"
    by (auto simp: result_simps)
  let ?te2 = "te1\<lparr>incoming_md_updates := q, last_event_time := now 0\<rparr>"
  note f = market_update_frame(1) [OF te1]
  have "simulated F te1 [] ?te2" by (rule simulated_same) simp_all
  from simulated_trans [OF simulated_update [OF te1] this f] have 2: "simulated F te [] ?te2" by simp
  from simulated_trans [OF 2 Cons.IH [OF rest]] f show ?case by (simp add: fixed_parts_def)
qed

lemma simulated_pass:
  assumes "te_run_step F now te = Inr (te', now')" and "q_inv (incoming_ogw_responses te)" and "q_inv (incoming_md_updates te)"
    and "te_algo te \<in> {MAKER, TAKER}"
    and "all_honest F (order_manager te) (position_keeper te) (q_contents (incoming_ogw_responses te))"
  shows "simulated F te (q_contents (incoming_ogw_responses te)) te'" and "fixed_parts te te'"
proof -
  from run_step_cases [OF assms(1-3)] obtain te1 now1 where
    r: "te_responses F now te (q_contents (incoming_ogw_responses te)) = Inr (te1, now1)"
    and u: "te_updates F now1 te1 (q_contents (incoming_md_updates te)) = Inr (te', now')"
    and same: "incoming_md_updates te1 = incoming_md_updates te" .
  note f = responses_frame [OF r assms(2) refl]
  from simulated_trans [OF simulated_responses [OF r assms(5,4)] simulated_updates [OF u]] f
  show "simulated F te (q_contents (incoming_ogw_responses te)) te'" by simp
  from updates_frame [OF u] assms(3) same have "fixed_parts te1 te'" by simp
  with f show "fixed_parts te te'" by (auto intro: fixed_trans)
qed

section \<open>The engine among the other threads\<close>

text \<open>
  The engine makes passes of its loop; in between the order gateway and the market data consumer
  change the queues. The responses are honest.
\<close>

inductive te_system ::
    "'f double_ops \<Rightarrow> ClientId \<Rightarrow> AlgoType \<Rightarrow> (nat \<Rightarrow> 'f TradeEngineCfg) \<Rightarrow> 'f TradeEngine \<Rightarrow> bool"
  for F client_id algo_type ticker_cfg where
  start: "te_system F client_id algo_type ticker_cfg
    (te_start (TradeEngine_new F oid_mem price_mem vwap_mem client_id algo_type ticker_cfg q1 q2 q3))"
| queues: "te_system F client_id algo_type ticker_cfg te \<Longrightarrow> te_system F client_id algo_type ticker_cfg
    (te\<lparr>outgoing_ogw_requests := q1, incoming_ogw_responses := q2, incoming_md_updates := q3\<rparr>)"
| pass: "te_system F client_id algo_type ticker_cfg te \<Longrightarrow>
    q_inv (incoming_ogw_responses te) \<Longrightarrow> q_inv (incoming_md_updates te) \<Longrightarrow>
    all_honest F (order_manager te) (position_keeper te) (q_contents (incoming_ogw_responses te)) \<Longrightarrow>
    te_run_step F now te = Inr (te', now') \<Longrightarrow> te_system F client_id algo_type ticker_cfg te'"

definition flat :: "'f PositionKeeper \<Rightarrow> bool" where
  "flat pk \<longleftrightarrow> (\<forall>t. position (pk t) = 0)"

lemma reachable_steps:
  assumes "(trader_step F rm cid)\<^sup>*\<^sup>* tr tr'" and "trader_reachable F rm cid pk tr"
  shows "trader_reachable F rm cid pk tr'"
  using assms by (induction rule: rtranclp_induct) (auto intro: trader_reachable.step)

lemma system_trader:
  assumes "te_system F client_id algo_type ticker_cfg te" and "algo_type \<in> {MAKER, TAKER}"
  shows "te_client_id te = client_id \<and> te_algo te = algo_type \<and> risk_manager te = RiskManager_new ticker_cfg \<and>
    (\<exists>pk tr. trader_reachable F (RiskManager_new ticker_cfg) client_id pk tr \<and> flat pk \<and> trades_as te tr)"
  using assms(1)
proof induction
  case (start oid_mem price_mem vwap_mem q1 q2 q3)
  let ?pk = "\<lambda>i. PositionInfo_default F (vwap_mem i)"
  have "flat ?pk" by (simp add: flat_def PositionInfo_default_def)
  with trader_reachable.start [of F "RiskManager_new ticker_cfg" client_id ?pk] show ?case
    by (intro conjI exI [of _ ?pk] exI [of _ "trader_init ?pk"])
       (simp_all add: te_start_def TradeEngine_new_def trades_as_def trader_init_def)
next
  case (queues te q1 q2 q3)
  then show ?case by (simp add: trades_as_def)
next
  case (pass te now te' now')
  then obtain pk tr where tr: "trader_reachable F (RiskManager_new ticker_cfg) client_id pk tr" "flat pk" "trades_as te tr"
    by blast
  note sim = simulated_pass [OF pass.hyps(5,2,3) _ pass.hyps(4)]
  from sim(1) tr(3) pass.IH assms(2) obtain tr' where
    "(trader_step F (RiskManager_new ticker_cfg) client_id)\<^sup>*\<^sup>* tr tr'" "trades_as te' tr'"
    unfolding simulated_def by auto
  with reachable_steps [OF this(1) tr(1)] tr(2) sim(2) pass.IH assms(2) show ?case
    unfolding fixed_parts_def by auto
qed

section \<open>A market made\<close>

text \<open>Four orders of another client that make a market on ticker 1, and the updates for them.\<close>

definition demo_orders :: "MEClientRequest list" where
  "demo_orders = [demo_request Request_NEW 2 1 BUY 100 20, demo_request Request_NEW 2 2 BUY 100 20,
     demo_request Request_NEW 2 3 SELL 104 20, demo_request Request_NEW 2 4 SELL 104 20]"

definition demo_quote :: "OrderId \<Rightarrow> Side \<Rightarrow> Price \<Rightarrow> Priority \<Rightarrow> MEMarketUpdate" where
  "demo_quote oid side price prio = \<lparr>mu_type = ADD, mu_order_id = oid, mu_ticker_id = 1, mu_side = side, mu_price = price,
     mu_qty = 20, mu_priority = prio\<rparr>"

definition demo_quotes :: "MEMarketUpdate list" where
  "demo_quotes = [demo_quote 1 BUY 100 1, demo_quote 2 BUY 100 2, demo_quote 3 SELL 104 1, demo_quote 4 SELL 104 2]"

lemmas abook_eval = ae_request_def a_request_def a_add_def Let_def ab_side_def ab_set_side_def opp_def a_insert_def a_priority_def
  add_update_def empty_abook_def crosses_def better_def demo_orders_def demo_request_def

lemma demo_orders_ok:
  "\<exists>e' resps. ae_requests (\<lambda>_. empty_abook) demo_orders = (e', resps, demo_quotes)"
  "ae_oks (\<lambda>_. empty_abook) demo_orders" "ae_room (\<lambda>_. empty_abook) demo_orders"
  by (simp_all add: abook_eval demo_quotes_def demo_quote_def ae_ok_def request_ok_def add_ok_def ab_orders_def is_order_def
      price_apart_def priceToIndex_def levels_def ME_MAX_TICKERS_def ME_MAX_NUM_CLIENTS_def ME_MAX_ORDER_IDS_def
      ME_MAX_PRICE_LEVELS_def)

lemmas mbook_eval = mbook_steps mb_updateBBO_def mb_best_def mb_level_qty.simps bid_updated_def ask_updated_def
  mb_update_def MarketOrderBook_new_def MemPool_new_def

lemma demo_books:
  obtains b1 b2 b3 b4 where
    "mb_update (MarketOrderBook_new 1 (\<lambda>_. None) (\<lambda>_. None)) (demo_quote 1 BUY 100 1) = Inr b1"
    "mb_update b1 (demo_quote 2 BUY 100 2) = Inr b2" "mb_update b2 (demo_quote 3 SELL 104 1) = Inr b3"
    "mb_update b3 (demo_quote 4 SELL 104 2) = Inr b4" "mb_bbo b1 = BBO_default"
    "mb_bbo b2 = BBO_default\<lparr>bid_price := 100, bid_qty := 40\<rparr>" "mb_bbo b3 = BBO_default\<lparr>bid_price := 100, bid_qty := 40\<rparr>"
    "mb_bbo b4 = \<lparr>bid_price = 100, ask_price = 104, bid_qty = 40, ask_qty = 40\<rparr>"
  by (simp add: mbook_eval demo_quote_def BBO_default_def)

definition demo_maker_engine :: "exact TradeEngine" where
  "demo_maker_engine = te_start (TradeEngine_new exact_ops (\<lambda>_ _. None) (\<lambda>_ _. None) (\<lambda>_ _. Num 0) 1 MAKER (\<lambda>_. demo_cfg)
     (LFQueue_new 8 MEClientRequest_default) (LFQueue_new 8 MEClientResponse_default)
     (q_pushes (LFQueue_new 8 MEMarketUpdate_default) demo_quotes))"

lemmas demo_engine_defs = demo_maker_engine_def te_start_def TradeEngine_new_def

lemma demo_maker_queues:
  "q_inv (incoming_ogw_responses demo_maker_engine)" "q_contents (incoming_ogw_responses demo_maker_engine) = []"
  "q_inv (incoming_md_updates demo_maker_engine)" "q_contents (incoming_md_updates demo_maker_engine) = demo_quotes"
  using q_pushes_contents [OF q_inv_new, of 8 MEMarketUpdate_default demo_quotes]
  by (simp_all add: demo_engine_defs q_inv_new demo_quotes_def)

lemma onMarketUpdate_order:
  assumes "mu_type u \<noteq> TRADE" and "mb_update b u = Inr b'"
  shows "onMarketUpdate te u (b, s) =
    andThen (onOrderBookUpdate te (mu_ticker_id u) (mu_price u) (mu_side u) b' s) (\<lambda>s1. Inr (b', s1))"
  using assms by (auto simp: onMarketUpdate_def mb_update_def Let_def result_simps)

lemmas pass_eval = te_listener_def te_onOrderBookUpdate_def getBBO_def updateBBO_def PositionInfo_updateBBO_def
  PositionInfo_default_def both_sides_def BBO_default_def fe_onOrderBookUpdate_def algoOnOrderBookUpdate_def
  mm_onOrderBookUpdate_def set_orders_def Feature_INVALID_def FeatureEngine_new_def getMktPrice_def
  updateReadIndex_def LFQueue_new_def q_pushes_Cons q_push_def updateWriteIndex_def writeSlot_def getNextToWriteTo_def
  newOrder_def te_link_def te_sendClientRequest_def slot_def te_market_update_def

text \<open>What the market maker then asks for.\<close>

definition demo_asked :: "MEClientRequest list" where
  "demo_asked = [demo_request Request_NEW 1 1 BUY 100 10, demo_request Request_NEW 1 2 SELL 104 10]"

lemma demo_pass:
  "\<exists>te' now'. te_run_step exact_ops (\<lambda>_. 0) demo_maker_engine = Inr (te', now') \<and>
     order_state (slot (order_manager te') 1 BUY) = PENDING_NEW \<and> om_qty (slot (order_manager te') 1 BUY) = 10 \<and>
     position (position_keeper te' 1) = 0 \<and> q_length (outgoing_ogw_requests te') = 2 \<and> q_contents (outgoing_ogw_requests te') = demo_asked \<and>
     q_capacity (incoming_md_updates te') = 8"
proof -
  from demo_books obtain b1 b2 b3 b4 where
    b: "mb_update (MarketOrderBook_new 1 (\<lambda>_. None) (\<lambda>_. None)) (demo_quote 1 BUY 100 1) = Inr b1"
    "mb_update b1 (demo_quote 2 BUY 100 2) = Inr b2" "mb_update b2 (demo_quote 3 SELL 104 1) = Inr b3"
    "mb_update b3 (demo_quote 4 SELL 104 2) = Inr b4" and bbo: "mb_bbo b1 = BBO_default"
    "mb_bbo b2 = BBO_default\<lparr>bid_price := 100, bid_qty := 40\<rparr>" "mb_bbo b3 = BBO_default\<lparr>bid_price := 100, bid_qty := 40\<rparr>"
    "mb_bbo b4 = \<lparr>bid_price = 100, ask_price = 104, bid_qty = 40, ask_qty = 40\<rparr>" .
  have sel: "mu_type (demo_quote oid side price prio) = ADD" "mu_ticker_id (demo_quote oid side price prio) = 1"
    for oid side price prio by (simp_all add: demo_quote_def)
  note on = b [THEN onMarketUpdate_order [rotated], simplified sel]
  have "te_run_step exact_ops (\<lambda>_. 0) demo_maker_engine = te_updates exact_ops (\<lambda>_. 0) demo_maker_engine demo_quotes"
    using run_step_eq [OF demo_maker_queues(1,3)] by (simp add: demo_maker_queues)
  then show ?thesis
    by (simp add: demo_quotes_def sel on bbo demo_engine_defs pass_eval demo_move Let_def q_length_def q_contents_def
        demo_asked_def demo_request_def upt_rec)
qed

section \<open>Properties\<close>

text \<open>C26: A pass of the engine's loop is a sequence of steps of the trader. When the engine runs one of the two
  algorithms and the waiting responses are honest, a pass that succeeds moves the order manager and
  the position keeper as some steps of the transition system of the order manager do; these steps
  receive exactly the waiting responses, in their order, and send exactly the requests that the pass
  appends to the queue of the order gateway.\<close>

theorem engine_refines_trader:
  assumes "te_run_step F now te = Inr (te', now')" and "q_inv (incoming_ogw_responses te)" and "q_inv (incoming_md_updates te)"
    and "te_algo te \<in> {MAKER, TAKER}"
    and "all_honest F (order_manager te) (position_keeper te) (q_contents (incoming_ogw_responses te))"
    and "tr_om tr = order_manager te" and "tr_pk tr = position_keeper te"
  shows "\<exists>tr' more. (trader_step F (risk_manager te) (te_client_id te))\<^sup>*\<^sup>* tr tr' \<and>
    tr_om tr' = order_manager te' \<and> tr_pk tr' = position_keeper te' \<and>
    tr_rcvd tr' = tr_rcvd tr @ q_contents (incoming_ogw_responses te) \<and> tr_sent tr' = tr_sent tr @ more \<and>
    outgoing_ogw_requests te' = q_pushes (outgoing_ogw_requests te) more"
  using simulated_pass(1) [OF assms(1-5)] assms(6,7) unfolding simulated_def trades_as_def by blast

theorem engine_refines_trader_witness:
  "\<exists>te' now' tr' more. te_run_step exact_ops (\<lambda>_. 0) demo_maker_engine = Inr (te', now') \<and>
    (trader_step exact_ops (risk_manager demo_maker_engine) 1)\<^sup>*\<^sup>* (trader_init demo_keeper) tr' \<and>
    tr_om tr' = order_manager te' \<and> tr_sent tr' = more \<and>
    outgoing_ogw_requests te' = q_pushes (outgoing_ogw_requests demo_maker_engine) more"
proof -
  from demo_pass obtain te' now' where p: "te_run_step exact_ops (\<lambda>_. 0) demo_maker_engine = Inr (te', now')" by blast
  have s: "te_algo demo_maker_engine \<in> {MAKER, TAKER}" "te_client_id demo_maker_engine = 1"
    "tr_om (trader_init demo_keeper) = order_manager demo_maker_engine"
    "tr_pk (trader_init demo_keeper) = position_keeper demo_maker_engine" "tr_sent (trader_init demo_keeper) = []"
    by (simp_all add: demo_engine_defs trader_init_def demo_keeper_def)
  from engine_refines_trader [OF p demo_maker_queues(1,3) s(1) _ s(3,4)] demo_maker_queues(2) s(2,5) p
  show ?thesis by auto
qed

text \<open>The running engine keeps its position limits. Whatever market updates come in, however the other
  threads change the queues between the passes, and as long as the exchange's responses are honest,
  the position of every ticker, together with what its open orders may still add, is within the
  configured limit after every pass.\<close>

theorem honest_engine_within_limits:
  assumes "te_system F client_id algo_type ticker_cfg te" and "algo_type \<in> {MAKER, TAKER}" and "cfg_ok ticker_cfg"
    and "t < ME_MAX_TICKERS"
  shows "sint (position (position_keeper te t)) + exposure (slot (order_manager te) t BUY)
      \<le> sint (max_position (risk_cfg (ticker_cfg t))) \<and>
    - sint (max_position (risk_cfg (ticker_cfg t)))
      \<le> sint (position (position_keeper te t)) - exposure (slot (order_manager te) t SELL)"
proof -
  from system_trader [OF assms(1,2)] obtain pk tr where
    tr: "trader_reachable F (RiskManager_new ticker_cfg) client_id pk tr" "flat pk" "trades_as te tr" by blast
  have "limits_inv ticker_cfg (trader_init pk)" by (rule limits_inv_init [OF assms(3)]) (use tr(2) in \<open>simp add: flat_def\<close>)
  then have "limits_inv ticker_cfg tr" using limits.reachable_inv [OF tr(1)] assms(3) by blast
  with tr(3) assms(4) show ?thesis by (simp add: limits_inv_def limits_at_def trades_as_def)
qed

theorem honest_engine_within_limits_witness:
  "\<exists>te. te_system exact_ops 1 MAKER (\<lambda>_. demo_cfg) te \<and> exposure (slot (order_manager te) 1 BUY) = 10 \<and>
    sint (position (position_keeper te 1)) + exposure (slot (order_manager te) 1 BUY) \<le> 50"
proof -
  from demo_pass obtain te' now' where p: "te_run_step exact_ops (\<lambda>_. 0) demo_maker_engine = Inr (te', now')"
    and e: "order_state (slot (order_manager te') 1 BUY) = PENDING_NEW" "om_qty (slot (order_manager te') 1 BUY) = 10" by blast
  have "te_system exact_ops 1 MAKER (\<lambda>_. demo_cfg) demo_maker_engine"
    unfolding demo_maker_engine_def by (rule te_system.start)
  from te_system.pass [OF this demo_maker_queues(1,3) _ p] have s: "te_system exact_ops 1 MAKER (\<lambda>_. demo_cfg) te'"
    by (simp add: demo_maker_queues(2))
  have "sint (50 :: 32 word) = 50" by (simp add: sint_small)
  with honest_engine_within_limits [OF s, of 1] e s show ?thesis
    by (intro exI [of _ te']) (simp add: exposure_def is_open_def cfg_ok_def demo_cfg_def ME_MAX_TICKERS_def)
qed

text \<open>C12: The engine's books are the exchange's books. When the updates that wait for the engine are those
  that the matching engine sends for a list of requests, and the engine's books mirrored the
  exchange's before these requests, then after a pass that succeeds they mirror the exchange's
  books after the requests, and both queues are empty.\<close>

theorem engine_mirrors_exchange:
  assumes "eng_listed e" and "ae_oks e rs" and "ae_room e rs" and "ae_requests e rs = (e', resps, us)"
    and "client_mirrors (te_order_book te) e" and "q_contents (incoming_md_updates te) = us"
    and "q_inv (incoming_ogw_responses te)" and "q_inv (incoming_md_updates te)"
    and "te_run_step F now te = Inr (te', now')"
  shows "client_mirrors (te_order_book te') e' \<and>
    q_contents (incoming_ogw_responses te') = [] \<and> q_contents (incoming_md_updates te') = []"
proof -
  from run_step_cases [OF assms(9,7,8)] obtain te1 now1 where
    r: "te_responses F now te (q_contents (incoming_ogw_responses te)) = Inr (te1, now1)"
    and u: "te_updates F now1 te1 us = Inr (te', now')"
    and same: "incoming_md_updates te1 = incoming_md_updates te" unfolding assms(6) .
  note f = responses_frame [OF r assms(7) refl] and g = updates_frame [OF u]
  from requests_mirror [OF assms(1-5)] f g same assms(6,8) show ?thesis by auto
qed

theorem engine_mirrors_exchange_witness:
  "\<exists>e' resps te' now'. ae_requests (\<lambda>_. empty_abook) demo_orders = (e', resps, demo_quotes) \<and>
    te_run_step exact_ops (\<lambda>_. 0) demo_maker_engine = Inr (te', now') \<and> client_mirrors (te_order_book te') e'"
proof -
  from demo_pass obtain te' now' where p: "te_run_step exact_ops (\<lambda>_. 0) demo_maker_engine = Inr (te', now')" by blast
  from demo_orders_ok(1) obtain e' resps where r: "ae_requests (\<lambda>_. empty_abook) demo_orders = (e', resps, demo_quotes)" by blast
  have "te_order_book demo_maker_engine = empty_books" by (simp add: demo_engine_defs empty_books_def fun_eq_iff)
  then have "client_mirrors (te_order_book demo_maker_engine) (\<lambda>_. empty_abook)" using client_mirrors_new by simp
  from engine_mirrors_exchange [OF eng_listed_new demo_orders_ok(2,3) r this demo_maker_queues(4,1,3) p] r p show ?thesis by blast
qed

end
