(* ===== verification/Trade_Pass.thy ===== *)
theory Trade_Pass
  imports Trade_Engine
begin

text \<open>
  A pass of the trade engine over market updates cannot fault, as long as the prices, the positions
  and the limits are far enough from the ends of their types: the handlers of
  \<^verbatim>\<open>src/trading/strategy\<close> compute with signed integers that may overflow, and the prices they
  compute with come from the updates through the levels of the book and its summary.
\<close>

section \<open>The prices a book can quote\<close>

definition level_price :: "MarketOrderBook \<Rightarrow> nat \<Rightarrow> Price" where
  "level_price b l = mop_price (mp_obj (mb_orders_at_price_pool b) l)"

definition quoted :: "MarketOrderBook \<Rightarrow> Price set" where
  "quoted b = insert Price_INVALID (insert (bid_price (mb_bbo b)) (insert (ask_price (mb_bbo b)) (range (level_price b))))"

lemma set_price [simp]:
  "mop_price (mp_obj (mop_set_next lp p v) l) = mop_price (mp_obj lp l)"
  "mop_price (mp_obj (mop_set_prev lp p v) l) = mop_price (mp_obj lp l)"
  "mop_price (mp_obj (mop_set_first lp p v) l) = mop_price (mp_obj lp l)"
  by (simp_all add: mop_set_next_def mop_set_prev_def mop_set_first_def)

lemma deallocate_obj: "deallocate mp p = Inr mp' \<Longrightarrow> mp_obj mp' = mp_obj mp"
  by (auto simp: deallocate_def mp_obj_def result_simps)

lemma allocate_obj: "allocate mp x = Inr (p, mp') \<Longrightarrow> mp_obj mp' = (mp_obj mp)(p := x)"
  by (auto simp: allocate_def updateNextFreeIndex_def mp_obj_def Let_def result_simps)

lemma set_head_frame [simp]:
  "level_price (mb_set_side_head b s p) = level_price b" "mb_bbo (mb_set_side_head b s p) = mb_bbo b"
  "mb_orders_at_price_pool (mb_set_side_head b s p) = mb_orders_at_price_pool b"
  by (simp_all add: mb_set_side_head_def level_price_def fun_eq_iff)

lemma level_price_pool [simp]:
  "level_price (b\<lparr>mb_orders_at_price_pool := lp\<rparr>) l = mop_price (mp_obj lp l)"
  "level_price (b\<lparr>mb_order_pool := op\<rparr>) = level_price b"
  "level_price (b\<lparr>mb_price_orders_at_price := tbl\<rparr>) = level_price b"
  "level_price (b\<lparr>mb_oid_to_order := t\<rparr>) = level_price b"
  "level_price (b\<lparr>mb_bids_by_price := p\<rparr>) = level_price b" "level_price (b\<lparr>mb_asks_by_price := p\<rparr>) = level_price b"
  "level_price (b\<lparr>mb_bbo := x\<rparr>) = level_price b"
  by (simp_all add: level_price_def fun_eq_iff)

definition same_prices :: "MarketOrderBook \<Rightarrow> MarketOrderBook \<Rightarrow> bool" where
  "same_prices b b' \<longleftrightarrow> (\<forall>l. level_price b' l = level_price b l) \<and> mb_bbo b' = mb_bbo b"

lemma same_prices_trans: "same_prices b b1 \<Longrightarrow> same_prices b1 b2 \<Longrightarrow> same_prices b b2"
  by (simp add: same_prices_def)

lemma after_prices: "mb_addOrdersAtPrice_after b new best target = Inr b' \<Longrightarrow> same_prices b b'"
  unfolding mb_addOrdersAtPrice_after_def Let_def andThen_eq_Inr
  by (elim exE conjE) (auto simp: same_prices_def level_price_def)

lemma before_prices: "mb_addOrdersAtPrice_before b new best target = Inr b' \<Longrightarrow> same_prices b b'"
  unfolding mb_addOrdersAtPrice_before_def Let_def andThen_eq_Inr
  by (elim exE conjE) (auto simp: same_prices_def level_price_def split: if_splits)

lemma addOrdersAtPrice_prices:
  "mb_addOrdersAtPrice b new = Inr b' \<Longrightarrow> same_prices b b'"
  unfolding mb_addOrdersAtPrice_def Let_def
  by (auto simp: andThen_eq_Inr array_set_at_def split: option.splits if_splits dest!: after_prices before_prices)
     (auto simp: same_prices_def level_price_def)

lemma removeOrdersAtPrice_prices: "mb_removeOrdersAtPrice b s price = Inr b' \<Longrightarrow> same_prices b b'"
  by (auto simp: mb_removeOrdersAtPrice_def mb_removeOrdersAtPrice_unlink_def same_prices_def Let_def result_simps
      split: if_splits dest!: deallocate_obj) (simp_all add: level_price_def)

lemma set_oid_prices: "mb_set_oid b i p = Inr b' \<Longrightarrow> same_prices b b'"
  by (auto simp: mb_set_oid_def same_prices_def result_simps)

lemma removeOrder_prices: "mb_removeOrder b order = Inr b' \<Longrightarrow> same_prices b b'"
  by (auto simp: mb_removeOrder_def mb_removeOrder_unlink_def Let_def result_simps
      split: if_splits dest!: removeOrdersAtPrice_prices set_oid_prices)
     (simp_all add: same_prices_def level_price_def)

lemma addOrder_link_prices: "mb_addOrder_link b l order = Inr b' \<Longrightarrow> same_prices b b'"
  unfolding mb_addOrder_link_def Let_def andThen_eq_Inr
  by (elim exE conjE) (auto simp: same_prices_def)

lemma addOrder_prices:
  "mb_addOrder b order = Inr b' \<Longrightarrow>
     range (level_price b') \<subseteq> insert (mo_price (mp_obj (mb_order_pool b) order)) (range (level_price b)) \<and> mb_bbo b' = mb_bbo b"
  unfolding mb_addOrder_def Let_def
  by (auto simp: andThen_eq_Inr same_prices_def split: option.splits
      dest!: allocate_obj addOrdersAtPrice_prices addOrder_link_prices set_oid_prices)
     (auto simp: level_price_def)

lemma clear_prices: "mb_clear b = Inr b' \<Longrightarrow> same_prices b b'"
proof -
  have levels: "mb_clear_levels fuel lp head e = Inr lp' \<Longrightarrow> mp_obj lp' = mp_obj lp" for fuel lp head e lp'
  proof (induction fuel arbitrary: lp e)
    case 0
    then show ?case by (subst (asm) mb_clear_levels.simps) (auto split: if_splits dest: deallocate_obj)
  next
    case (Suc fuel)
    then show ?case
      by (subst (asm) mb_clear_levels.simps) (auto simp: andThen_eq_Inr split: if_splits dest!: deallocate_obj)
  qed
  have side: "mb_clear_side lp head = Inr lp' \<Longrightarrow> mp_obj lp' = mp_obj lp" for lp head lp'
    by (auto simp: mb_clear_side_def split: option.splits dest: levels)
  show "mb_clear b = Inr b' \<Longrightarrow> same_prices b b'"
    by (auto simp: mb_clear_def andThen_eq_Inr same_prices_def dest!: side) (simp_all add: level_price_def)
qed

lemma best_quoted: "mb_best b h = Inr (p, q) \<Longrightarrow> p = Price_INVALID \<or> p \<in> range (level_price b)"
  by (auto simp: mb_best_def Let_def andThen_eq_Inr level_price_def split: option.splits)

lemma quoted_bbo:
  "quoted (b\<lparr>mb_bbo := x\<rparr>) = insert Price_INVALID (insert (bid_price x) (insert (ask_price x) (range (level_price b))))"
  by (simp add: quoted_def)

lemma updateBBO_quoted:
  assumes "mb_updateBBO b ub ua = Inr b'"
  shows "quoted b' \<subseteq> quoted b"
proof -
  from assms obtain b1 where
    1: "(if ub then andThen (mb_best b (mb_bids_by_price b)) (\<lambda>(price, qty).
        Inr (b\<lparr>mb_bbo := (mb_bbo b)\<lparr>bid_price := price, bid_qty := qty\<rparr>\<rparr>)) else Inr b) = Inr b1"
    and 2: "(if ua then andThen (mb_best b1 (mb_asks_by_price b1)) (\<lambda>(price, qty).
        Inr (b1\<lparr>mb_bbo := (mb_bbo b1)\<lparr>ask_price := price, ask_qty := qty\<rparr>\<rparr>)) else Inr b1) = Inr b'"
    unfolding mb_updateBBO_def andThen_eq_Inr by blast
  have "quoted b1 \<subseteq> quoted b"
    using 1 by (auto simp: andThen_eq_Inr quoted_bbo split: if_splits dest!: best_quoted) (auto simp: quoted_def)
  moreover have "quoted b' \<subseteq> quoted b1"
    using 2 by (auto simp: andThen_eq_Inr quoted_bbo split: if_splits dest!: best_quoted) (auto simp: quoted_def)
  ultimately show ?thesis by blast
qed

lemma update_quoted:
  assumes "mb_update b u = Inr b'"
  shows "quoted b' \<subseteq> insert (mu_price u) (quoted b)"
proof (cases "mu_type u = TRADE")
  case True
  then show ?thesis using assms by (auto simp: mb_update_def)
next
  case False
  then obtain b1 where a: "mb_apply b u = Inr b1" and s: "mb_updateBBO b1 (bid_updated b u) (ask_updated b u) = Inr b'"
    using assms by (auto simp: mb_update_def andThen_eq_Inr)
  have "range (level_price b1) \<subseteq> insert (mu_price u) (range (level_price b)) \<and> mb_bbo b1 = mb_bbo b"
  proof (cases "mu_type u")
    case ADD
    then show ?thesis using a by (auto simp: mb_apply_def andThen_eq_Inr dest!: allocate_obj addOrder_prices)
  next
    case CANCEL
    then show ?thesis using a by (auto simp: mb_apply_def andThen_eq_Inr same_prices_def dest!: removeOrder_prices)
  next
    case CLEAR
    then show ?thesis using a by (auto simp: mb_apply_def same_prices_def dest!: clear_prices)
  qed (use a in \<open>auto simp: mb_apply_def andThen_eq_Inr\<close>)
  then have "quoted b1 \<subseteq> insert (mu_price u) (quoted b)" by (auto simp: quoted_def)
  then show ?thesis using updateBBO_quoted [OF s] by blast
qed

section \<open>Far from the ends of the types\<close>

definition small_price :: "Price \<Rightarrow> bool" where
  "small_price p \<longleftrightarrow> p = Price_INVALID \<or> \<bar>p\<bar> \<le> 2 ^ 29"

definition calm_book :: "MarketOrderBook \<Rightarrow> bool" where
  "calm_book b \<longleftrightarrow> (\<forall>p\<in>quoted b. small_price p)"

definition calm_at :: "'f PositionKeeper \<Rightarrow> (nat \<Rightarrow> 'f TradeEngineCfg) \<Rightarrow> nat \<Rightarrow> bool" where
  "calm_at pk cfg t \<longleftrightarrow> t < ME_MAX_TICKERS \<and> \<bar>sint (position (pk t))\<bar> \<le> 2 ^ 30 \<and>
     uint (max_order_size (risk_cfg (cfg t))) \<le> 2 ^ 29"

definition calm :: "'f TradeEngine \<Rightarrow> bool" where
  "calm te \<longleftrightarrow> risk_manager te = RiskManager_new (te_ticker_cfg te) \<and>
     (\<forall>t<ME_MAX_TICKERS. calm_at (position_keeper te) (te_ticker_cfg te) t \<and> calm_book (te_order_book te t))"

lemma calm_update: "calm_book b \<Longrightarrow> mb_update b u = Inr b' \<Longrightarrow> small_price (mu_price u) \<Longrightarrow> calm_book b'"
  using update_quoted by (fastforce simp: calm_book_def)

lemma calm_bbo:
  assumes "calm_book b" and "both_sides (getBBO b)"
  shows "\<bar>bid_price (getBBO b)\<bar> \<le> 2 ^ 29" "\<bar>ask_price (getBBO b)\<bar> \<le> 2 ^ 29"
  using assms by (auto simp: calm_book_def quoted_def small_price_def both_sides_def getBBO_def)

lemma check_returns:
  assumes "calm_at pk cfg (unat ticker_id)" and "side \<in> {BUY, SELL}"
  shows "\<exists>r. checkPreTradeRisk F pk (RiskManager_new cfg) ticker_id side qty = Inr r"
proof (cases "qty > max_order_size (risk_cfg (cfg (unat ticker_id)))")
  case True
  then show ?thesis using assms(1) by (simp add: check_defs calm_at_def)
next
  case False
  then have q: "uint qty \<le> 2 ^ 29" using assms(1) by (simp add: word_less_def calm_at_def)
  then have s: "sint qty = uint qty" using sint_small [of qty] by simp
  define c where "c = sideToValue side * uint qty"
  have c: "\<bar>c\<bar> \<le> 2 ^ 29" using assms(2) q by (auto simp: c_def)
  have "signed_value 32 c = Inr c" using c by (simp add: signed_value_def abs_le_iff)
  moreover have "signed_value 32 (sint (position (pk (unat ticker_id))) + c) = Inr (sint (position (pk (unat ticker_id))) + c)"
    "signed_value 32 \<bar>sint (position (pk (unat ticker_id))) + c\<bar> = Inr \<bar>sint (position (pk (unat ticker_id))) + c\<bar>"
    using c assms(1) by (auto simp: signed_value_def abs_le_iff calm_at_def)
  ultimately show ?thesis using False assms(1) s by (simp add: check_defs c_def calm_at_def)
qed

lemma move_returns:
  assumes "calm_at pk cfg (unat ticker_id)" and "side \<in> {BUY, SELL}"
  shows "\<exists>st'. moveOrder F pk (RiskManager_new cfg) link x ticker_id price side qty st = Inr st'"
  using check_returns [OF assms, of F qty]
  by (auto simp: moveOrder_def moveOrder_new_def split: OMOrderState.split)

lemma moves_return:
  assumes "calm_at pk cfg (unat ticker_id)"
  shows "\<exists>st'. moveOrders F pk (RiskManager_new cfg) link ticker_id bid ask qty st = Inr st'"
proof -
  have slot: "om_slot om ticker_id s = Inr (slot om (unat ticker_id) s)" for om s
    using assms(1) by (simp add: om_slot_eq calm_at_def)
  obtain st1 where "moveOrder F pk (RiskManager_new cfg) link (slot (fst st) (unat ticker_id) BUY) ticker_id bid BUY qty st = Inr st1"
    using move_returns [OF assms] by blast
  with move_returns [OF assms, of SELL F link "slot (fst st1) (unat ticker_id) SELL" ask qty st1] show ?thesis
    by (auto simp: moveOrders_def slot)
qed

section \<open>The handlers return\<close>

lemma abs32_ok: "\<bar>sint w\<bar> \<le> 2 ^ 30 \<Longrightarrow> abs32 w = Inr \<bar>sint w\<bar>"
  by (simp add: abs32_def signed_value_def)

lemma updateBBO_returns:
  assumes "calm_at pk cfg (unat ticker_id)" and "both_sides bbo \<longrightarrow> \<bar>bid_price bbo\<bar> \<le> 2 ^ 29 \<and> \<bar>ask_price bbo\<bar> \<le> 2 ^ 29"
  shows "\<exists>pk'. updateBBO F pk ticker_id bbo = Inr pk' \<and> (\<forall>t. position (pk' t) = position (pk t))"
proof -
  have "signed_value 64 (bid_price bbo + ask_price bbo) = Inr (bid_price bbo + ask_price bbo)" if "both_sides bbo"
    using assms(2) that by (auto simp: signed_value_def abs_le_iff)
  moreover have "abs32 (position (pk (unat ticker_id))) = Inr \<bar>sint (position (pk (unat ticker_id)))\<bar>"
    using assms(1) by (simp add: calm_at_def abs32_ok)
  ultimately show ?thesis using assms(1)
    by (auto simp: calm_at_def updateBBO_def PositionInfo_updateBBO_def open_pnl_def)
qed

lemma fe_returns:
  assumes "both_sides bbo \<longrightarrow> \<bar>bid_price bbo\<bar> \<le> 2 ^ 29 \<and> \<bar>ask_price bbo\<bar> \<le> 2 ^ 29"
  shows "\<exists>fe'. fe_onOrderBookUpdate F bbo fe = Inr fe'"
proof (cases "both_sides bbo")
  case True
  have ok: "\<bar>p * uint q\<bar> \<le> 2 ^ 29 * 2 ^ 32" if "\<bar>p\<bar> \<le> 2 ^ 29" for p :: int and q :: Qty
    unfolding abs_mult by (rule mult_mono) (use that uint_bounded [of q] in simp_all)
  have "\<bar>bid_price bbo * uint (ask_qty bbo)\<bar> \<le> 2 ^ 61" "\<bar>ask_price bbo * uint (bid_qty bbo)\<bar> \<le> 2 ^ 61"
    using ok [of "bid_price bbo" "ask_qty bbo"] ok [of "ask_price bbo" "bid_qty bbo"] assms True by simp_all
  then show ?thesis using True by (simp add: fe_onOrderBookUpdate_def signed_value_def abs_le_iff)
qed (simp add: fe_onOrderBookUpdate_def)

lemma maker_returns:
  assumes c: "calm_at pk cfg (unat ticker_id)" and px: "both_sides bbo \<longrightarrow> \<bar>bid_price bbo\<bar> \<le> 2 ^ 29 \<and> \<bar>ask_price bbo\<bar> \<le> 2 ^ 29"
  shows "\<exists>st'. mm_onOrderBookUpdate F cfg fe pk (RiskManager_new cfg) link ticker_id bbo st = Inr st'"
proof (cases "both_sides bbo \<and> \<not> d_eq F (getMktPrice fe) (Feature_INVALID F)")
  case True
  have near: "signed_value 64 (bid_price bbo - (if a then 0 else 1)) = Inr (bid_price bbo - (if a then 0 else 1))"
    "signed_value 64 (ask_price bbo + (if a then 0 else 1)) = Inr (ask_price bbo + (if a then 0 else 1))" for a
    using px True by (auto simp: signed_value_def abs_le_iff)
  have "array_at ME_MAX_TICKERS cfg (unat ticker_id) = Inr (cfg (unat ticker_id))" using c by (simp add: calm_at_def)
  with moves_return [OF c] True show ?thesis unfolding mm_onOrderBookUpdate_def Let_def by (simp only: if_True andThen.simps near simp_thms)
next
  case False
  then show ?thesis unfolding mm_onOrderBookUpdate_def Let_def by (simp only: if_False) blast
qed

lemma taker_returns:
  assumes c: "calm_at pk cfg (unat (mu_ticker_id u))"
  shows "\<exists>st'. lt_onTradeUpdate F cfg fe pk (RiskManager_new cfg) link u bbo st = Inr st'"
proof -
  have a: "array_at ME_MAX_TICKERS cfg (unat (mu_ticker_id u)) = Inr (cfg (unat (mu_ticker_id u)))"
    using c by (simp add: calm_at_def)
  show ?thesis
    unfolding lt_onTradeUpdate_def Let_def a andThen.simps
    using moves_return [OF c, of F link "ask_price bbo" Price_INVALID] moves_return [OF c, of F link Price_INVALID "bid_price bbo"]
    by (simp split: if_split)
qed

lemma book_handler_returns:
  assumes "calm te" and "unat ticker_id < ME_MAX_TICKERS" and "calm_book b"
  shows "\<exists>te'. te_onOrderBookUpdate F ticker_id price side b te = Inr te' \<and>
    (\<forall>t. position (position_keeper te' t) = position (position_keeper te t))"
proof -
  let ?t = "unat ticker_id" and ?bbo = "getBBO b" and ?cfg = "te_ticker_cfg te"
  have c: "calm_at (position_keeper te) ?cfg ?t" "risk_manager te = RiskManager_new ?cfg" using assms(1,2) by (simp_all add: calm_def)
  have px: "both_sides ?bbo \<longrightarrow> \<bar>bid_price ?bbo\<bar> \<le> 2 ^ 29 \<and> \<bar>ask_price ?bbo\<bar> \<le> 2 ^ 29" using calm_bbo [OF assms(3)] by blast
  obtain pk where pk: "updateBBO F (position_keeper te) ticker_id ?bbo = Inr pk" "\<forall>t. position (pk t) = position (position_keeper te t)"
    using updateBBO_returns [OF c(1) px] by blast
  have cpk: "calm_at pk ?cfg ?t" using c(1) pk(2) by (simp add: calm_at_def)
  obtain fe where fe: "fe_onOrderBookUpdate F ?bbo (feature_engine te) = Inr fe" using fe_returns [OF px] by blast
  obtain st where "mm_onOrderBookUpdate F ?cfg fe pk (RiskManager_new ?cfg) (te_link (te_client_id te)) ticker_id ?bbo
      (order_manager te, outgoing_ogw_requests te) = Inr st"
    using maker_returns [OF cpk px] by blast
  then have "\<exists>te'. algoOnOrderBookUpdate F ticker_id ?bbo (te\<lparr>position_keeper := pk, feature_engine := fe\<rparr>) = Inr te' \<and> position_keeper te' = pk"
    using c(2) by (simp add: algoOnOrderBookUpdate_def lt_onOrderBookUpdate_def set_orders_def Let_def split_def)
  then show ?thesis using pk fe by (auto simp: te_onOrderBookUpdate_def Let_def)
qed

lemma trade_handler_returns:
  assumes "calm te" and "unat (mu_ticker_id u) < ME_MAX_TICKERS"
  shows "\<exists>te'. te_onTradeUpdate F u b te = Inr te' \<and> position_keeper te' = position_keeper te"
proof -
  let ?cfg = "te_ticker_cfg te" and ?fe = "fe_onTradeUpdate F u (getBBO b) (feature_engine te)"
  have c: "calm_at (position_keeper te) ?cfg (unat (mu_ticker_id u))" "risk_manager te = RiskManager_new ?cfg"
    using assms by (simp_all add: calm_def)
  obtain st where "lt_onTradeUpdate F ?cfg ?fe (position_keeper te) (RiskManager_new ?cfg) (te_link (te_client_id te)) u (getBBO b)
      (order_manager te, outgoing_ogw_requests te) = Inr st"
    using taker_returns [OF c(1)] by blast
  then show ?thesis using c(2)
    by (simp add: te_onTradeUpdate_def algoOnTradeUpdate_def mm_onTradeUpdate_def set_orders_def Let_def split_def)
qed

lemma market_update_returns:
  assumes c: "calm te" and t: "unat (mu_ticker_id u) < ME_MAX_TICKERS" and p: "small_price (mu_price u)"
    and b: "mb_update (te_order_book te (unat (mu_ticker_id u))) u = Inr b"
  shows "\<exists>te'. te_market_update F u te = Inr te' \<and> calm te'"
proof -
  let ?t = "unat (mu_ticker_id u)"
  have cb: "calm_book b" using calm_update [OF _ b p] c t by (simp add: calm_def)
  have "\<exists>te1. onMarketUpdate (te_listener F) u (te_order_book te ?t, te) = Inr (b, te1) \<and>
      (\<forall>t. position (position_keeper te1 t) = position (position_keeper te t))"
  proof (cases "mu_type u = TRADE")
    case True
    with trade_handler_returns [OF c t, of F "te_order_book te ?t"] b show ?thesis
      by (auto simp: onMarketUpdate_def te_listener_def mb_update_def Let_def)
  next
    case False
    with book_handler_returns [OF c t cb, of F "mu_price u" "mu_side u"] b show ?thesis
      by (auto simp: onMarketUpdate_def te_listener_def mb_update_def Let_def andThen_eq_Inr)
  qed
  then obtain te1 where te1: "te_market_update F u te = Inr (te1\<lparr>te_order_book := (te_order_book te1)(?t := b)\<rparr>)"
    "\<forall>t. position (position_keeper te1 t) = position (position_keeper te t)"
    using t by (auto simp: te_market_update_def Let_def)
  have "te_order_book te1 t' = te_order_book te t'" if "t' \<noteq> ?t" for t'
  proof -
    from market_update_book [OF te1(1)] b have "(te_order_book te1)(?t := b) = (te_order_book te)(?t := b)" by auto
    from fun_cong [OF this, of t'] that show ?thesis by simp
  qed
  with market_update_frame(1) [OF te1(1)] te1 c cb show ?thesis
    by (auto simp: calm_def calm_at_def fixed_parts_def)
qed

lemma updates_return:
  assumes "calm te" and "\<forall>u\<in>set us. unat (mu_ticker_id u) < ME_MAX_TICKERS \<and> small_price (mu_price u)"
    and "client_updates (te_order_book te) us = Inr books" and "q_inv (incoming_md_updates te)"
    and "q_contents (incoming_md_updates te) = us"
  shows "\<exists>te' now'. te_updates F now te us = Inr (te', now') \<and> calm te'"
  using assms
proof (induction us arbitrary: te now)
  case (Cons u us)
  then obtain b where b: "mb_update (te_order_book te (unat (mu_ticker_id u))) u = Inr b"
    "client_updates ((te_order_book te)(unat (mu_ticker_id u) := b)) us = Inr books" by (auto simp: andThen_eq_Inr)
  obtain te1 where te1: "te_market_update F u te = Inr te1" "calm te1"
    using market_update_returns [OF Cons.prems(1) _ _ b(1)] Cons.prems(2) by auto
  obtain q where q: "updateReadIndex (incoming_md_updates te1) = Inr q" "q_inv q" "q_contents q = us"
    using updateReadIndex_contents [OF Cons.prems(4,5)] market_update_frame(3) [OF te1(1)] by auto
  let ?te2 = "te1\<lparr>incoming_md_updates := q, last_event_time := now 0\<rparr>"
  have "calm ?te2" using te1(2) by (simp add: calm_def)
  moreover have "client_updates (te_order_book ?te2) us = Inr books"
    using market_update_book [OF te1(1)] b by auto
  ultimately have "\<exists>te' now'. te_updates F (now \<circ> Suc) ?te2 us = Inr (te', now') \<and> calm te'"
    using Cons.IH [of ?te2 "now \<circ> Suc"] Cons.prems(2) q by (simp del: split_paired_Ex comp_apply)
  then show ?case using q(1) te1(1) by simp
qed simp

end
