(* ===== verification/Ecosystem.thy ===== *)
theory Ecosystem
  imports Late_Joiner Trade_Pass
begin

text \<open>
  The exchange and a client together, along the way of the market data: the matching engine, the
  publisher and the snapshot synthesizer of \<^verbatim>\<open>src/exchange/exchange_main.cpp\<close>, and the market
  data consumer and the trade engine of \<^verbatim>\<open>src/trading/trading_main.cpp\<close>, each with its turn. A
  queue that two components share is handed from the one to the other.
\<close>

section \<open>The components and a round\<close>

record 'f ecosystem =
  eco_engine :: MatchingEngine
  eco_publisher :: MarketDataPublisher
  eco_synthesizer :: SnapshotSynthesizer
  eco_consumer :: MarketDataConsumer
  eco_trader :: "'f TradeEngine"

definition market_round ::
    "'f double_ops \<Rightarrow> (nat \<Rightarrow> Nanos) \<Rightarrow> nat \<Rightarrow> 'f ecosystem \<Rightarrow> ('f ecosystem \<times> (nat \<Rightarrow> Nanos)) result" where
  "market_round F now taken eco =
     (let eng = eco_engine eco; te = eco_trader eco in
      andThen (run (q_length (incoming_requests eng)) eng) (\<lambda>eng1.
      andThen (mdp_run_step taken ((eco_publisher eco)\<lparr>outgoing_md_updates := mq_md_updates (eng_queues eng1)\<rparr>)) (\<lambda>(mdp1, sent).
      andThen (ss_updates (q_length (snapshot_md_updates mdp1))
        ((eco_synthesizer eco)\<lparr>ss_md_updates := snapshot_md_updates mdp1\<rparr>)) (\<lambda>ss1.
      andThen (mdc_run_step True sent []
        ((eco_consumer eco)\<lparr>MarketDataConsumer.incoming_md_updates := TradeEngine.incoming_md_updates te\<rparr>)) (\<lambda>mdc1.
      andThen (te_run_step F now (te\<lparr>TradeEngine.incoming_md_updates := MarketDataConsumer.incoming_md_updates mdc1\<rparr>)) (\<lambda>(te1, now1).
      Inr (\<lparr>eco_engine = eng1\<lparr>eng_queues := (eng_queues eng1)\<lparr>mq_md_updates := outgoing_md_updates mdp1\<rparr>\<rparr>,
            eco_publisher = mdp1\<lparr>snapshot_md_updates := ss_md_updates ss1\<rparr>,
            eco_synthesizer = ss1,
            eco_consumer = mdc1\<lparr>MarketDataConsumer.incoming_md_updates := TradeEngine.incoming_md_updates te1\<rparr>,
            eco_trader = te1\<rparr>, now1)))))))"

section \<open>Prices\<close>

definition prices_in :: "(Price \<Rightarrow> bool) \<Rightarrow> aengine \<Rightarrow> bool" where
  "prices_in P e \<longleftrightarrow> (\<forall>t<ME_MAX_TICKERS. \<forall>x\<in>set (ab_orders (e t)). P (me_price x))"

lemma match_prices:
  "a_match g q xs = (ns, leaves, rs, us) \<Longrightarrow> \<forall>x\<in>set xs. P (me_price x) \<Longrightarrow> \<forall>u\<in>set us. P (mu_price u)"
proof (induction g q xs arbitrary: ns leaves rs us rule: a_match.induct)
  case (2 g q n xs)
  obtain ns' q' rs' us' where m: "a_match g (q - me_qty n) xs = (ns', q', rs', us')" by (metis prod.collapse)
  show ?case using 2 m by (auto simp: trade_update_def passive_update_def split: if_splits)
qed auto

lemma request_prices:
  assumes "a_request b r = (b', rs, us)" and "\<forall>x\<in>set (ab_orders b). P (me_price x)" and "P (rq_price r)"
    and "rq_type r = Request_NEW \<longrightarrow> rq_side r \<in> {BUY, SELL}"
  shows "(\<forall>x\<in>set (ab_orders b'). P (me_price x)) \<and> (\<forall>u\<in>set us. P (mu_price u))"
proof (cases "rq_type r = Request_NEW")
  case Request_NEW: True
  let ?s = "rq_side r"
  have s: "?s \<in> {BUY, SELL}" using assms(4) Request_NEW by blast
  obtain ns leaves rs' us' where a: "a_match \<lparr>ag_ticker = rq_ticker_id r, ag_client = rq_client_id r, ag_order = rq_order_id r,
      ag_market = ucast (ucast (ab_next_id b) :: Qty), ag_side = ?s, ag_price = rq_price r\<rparr> (rq_qty r) (ab_side b (opp ?s)) =
    (ns, leaves, rs', us')" by (metis prod.collapse)
  define b1 where "b1 = (ab_set_side b (opp ?s) ns)\<lparr>ab_next_id := ab_next_id b + 1\<rparr>"
  define n where "n = \<lparr>me_ticker_id = rq_ticker_id r, me_client_id = rq_client_id r, me_client_order_id = rq_order_id r,
    me_market_order_id = ab_next_id b, me_side = ?s, me_price = rq_price r, me_qty = leaves,
    me_priority = a_priority (rq_price r) (ab_side b ?s), me_prev_order = None, me_next_order = None\<rparr>"
  have out: "b' = (if leaves = 0 then b1 else ab_set_side b1 ?s (a_insert ?s n (ab_side b ?s)))"
    "us = (if leaves = 0 then us' else us' @ [add_update n])"
    using a_add_unfold(1,2) [OF a b1_def n_def] assms(1) Request_NEW by (simp_all add: a_request_def)
  have sides: "\<forall>x\<in>set (ab_side b t). P (me_price x)" for t using assms(2) by (auto simp: ab_side_def ab_orders_def)
  have u: "\<forall>u\<in>set us'. P (mu_price u)" "\<forall>y\<in>set ns. P (me_price y)"
    using match_prices [OF a sides] a_match_keeps(1) [OF a sides] by blast+
  note b1 = ab_after_match [OF s b1_def]
  have "set (a_insert ?s n (ab_side b ?s)) = insert n (set (ab_side b ?s))"
    using arg_cong [OF a_insert_perm, of set_mset ?s n "ab_side b ?s"] by simp
  moreover have "opp ?s \<in> {BUY, SELL}" "opp ?s \<noteq> ?s" using s opp_neq [OF s] by (auto simp: opp_def)
  ultimately have "set (ab_side b' ?s) \<subseteq> insert n (set (ab_side b ?s))" "ab_side b' (opp ?s) = ns"
    using s b1 by (auto simp: out(1))
  then have "set (ab_orders b') \<subseteq> insert n (set ns \<union> set (ab_side b ?s))"
    using mset_eq_setD [OF orders_by_side [OF s, of b']] by auto
  then show ?thesis using u sides assms(3) out(2) by (auto simp: n_def add_update_def)
next
  case False
  have "n \<in> set (ab_orders b)" if "List.find (is_order (rq_client_id r) (rq_order_id r)) (ab_orders b) = Some n" for n
    using that by (auto simp: find_Some_iff)
  with False assms show ?thesis
    by (auto simp: a_request_def a_cancel_def ab_orders_def split: option.splits)
qed

lemma requests_prices:
  assumes "ae_requests e rs = (e', resps, us)" and "ae_oks e rs" and "prices_in P e" and "\<forall>r\<in>set rs. P (rq_price r)"
  shows "prices_in P e' \<and> (\<forall>u\<in>set us. P (mu_price u))"
  using assms
proof (induction rs arbitrary: e e' resps us)
  case (Cons r rs)
  let ?t = "unat (rq_ticker_id r)"
  obtain e1 o1 u1 where 1: "ae_request e r = (e1, o1, u1)" by (metis prod.collapse)
  obtain e2 o2 u2 where 2: "ae_requests e1 rs = (e2, o2, u2)" by (metis prod.collapse)
  obtain b' where b: "a_request (e ?t) r = (b', o1, u1)" "e1 = e(?t := b')"
    using 1 by (auto simp: ae_request_def Let_def split_def prod_eq_iff)
  have t: "?t < ME_MAX_TICKERS" "rq_type r = Request_NEW \<longrightarrow> rq_side r \<in> {BUY, SELL}"
    using Cons.prems(2) by (auto simp: ae_ok_def request_ok_def add_ok_def split: ClientRequestType.splits)
  have "(\<forall>x\<in>set (ab_orders b'). P (me_price x)) \<and> (\<forall>u\<in>set u1. P (mu_price u))"
    by (rule request_prices [OF b(1) _ _ t(2)]) (use Cons.prems(3,4) t(1) in \<open>auto simp: prices_in_def\<close>)
  moreover from this have "prices_in P e1" using Cons.prems(3) b(2) by (auto simp: prices_in_def)
  ultimately show ?case using Cons.IH [OF 2] Cons.prems(1,2,4) 1 2 by auto
qed simp

lemma requests_tickers:
  assumes "ae_requests e rs = (e', resps, us)" and "ae_oks e rs"
  shows "\<forall>u\<in>set us. unat (mu_ticker_id u) < ME_MAX_TICKERS"
  using assms
proof (induction rs arbitrary: e e' resps us)
  case (Cons r rs)
  obtain e1 o1 u1 where 1: "ae_request e r = (e1, o1, u1)" by (metis prod.collapse)
  obtain e2 o2 u2 where 2: "ae_requests e1 rs = (e2, o2, u2)" by (metis prod.collapse)
  obtain b' where "a_request (e (unat (rq_ticker_id r))) r = (b', o1, u1)"
    using 1 by (auto simp: ae_request_def Let_def split_def prod_eq_iff)
  then have "\<forall>u\<in>set u1. mu_ticker_id u = rq_ticker_id r"
    by (cases "rq_type r") (auto simp: a_request_def dest: add_tickers cancel_tickers)
  then show ?case using Cons.IH [OF 2] Cons.prems 1 2 by (auto simp: ae_ok_def)
qed simp

section \<open>The consumer on the publisher's bytes\<close>

lemma in_order_number: "in_order n (mdp_number n us) = mdp_number n us"
  by (induction us arbitrary: n) auto

lemma number_updates: "\<forall>m\<in>set (mdp_number n us). \<exists>u\<in>set us. mdp_me_market_update m = u"
  by (induction us arbitrary: n) auto

lemma consumer_step:
  assumes "\<not> in_recovery mdc" and "mc_inbound (incremental_mcast_socket mdc) = []"
    and "next_exp_inc_seq_num mdc = n" and "\<forall>u\<in>set us. price_ok (mu_price u)" and "42 * length us < McastBufferSize"
  shows "\<exists>mdc'. mdc_run_step True (concat (map enc_MDPMarketUpdate (mdp_number n us))) [] mdc = Inr mdc' \<and>
    \<not> in_recovery mdc' \<and> mc_inbound (incremental_mcast_socket mdc') = [] \<and>
    next_exp_inc_seq_num mdc' = n + of_nat (length us) \<and>
    MarketDataConsumer.incoming_md_updates mdc' = q_pushes (MarketDataConsumer.incoming_md_updates mdc) us"
proof -
  let ?ms = "mdp_number n us" and ?data = "concat (map enc_MDPMarketUpdate (mdp_number n us))"
  let ?sock = "incremental_mcast_socket mdc"
  have len: "length ?data = 42 * length us" by (simp add: length_concat o_def sum_list_triv)
  have none: "mc_sendAndRecv cb [] 0 sock st = Inr (sock\<lparr>mc_outbound := []\<rparr>, st, False, [])" for cb sock and st :: MarketDataConsumer
    by (simp add: mc_sendAndRecv_def)
  show ?thesis
  proof (cases "us = []")
    case True
    then show ?thesis using assms(1-3) by (simp add: mdc_run_step_def none)
  next
    case False
    let ?mdc1 = "mdc\<lparr>next_exp_inc_seq_num := n + of_nat (length us),
      MarketDataConsumer.incoming_md_updates := q_pushes (MarketDataConsumer.incoming_md_updates mdc) us\<rparr>"
    have "frames sizeof_MDPMarketUpdate dec_MDPMarketUpdate ?data = (?ms, [])"
      using update_codec.frames_enc [of ?ms "[]"] assms(4) number_updates [of n us] by (force simp: sizeof_MDPMarketUpdate_def)
    moreover have "sizeof_MDPMarketUpdate \<le> length ?data"
      using False len update_codec.enc_size [of "hd ?ms"] by (cases us) auto
    ultimately have "mdc_recvCallback True False (?sock\<lparr>mc_inbound := ?data\<rparr>) mdc = Inr (?sock\<lparr>mc_inbound := []\<rparr>, ?mdc1)"
      using incremental_stream [OF assms(1), of ?ms] assms(1,3) in_order_number [of n us]
      by (simp add: mdc_recvCallback_def Let_def)
    moreover have "take McastBufferSize ?data = ?data" using len assms(5) by simp
    moreover have "?data \<noteq> []" using len False by (cases ?data) auto
    ultimately have "mc_sendAndRecv (mdc_recvCallback True False) ?data 0 ?sock mdc =
        Inr (?sock\<lparr>mc_inbound := [], mc_outbound := []\<rparr>, ?mdc1, True, [])"
      using assms(2) by (simp add: mc_sendAndRecv_def del: concat_eq_Nil_conv)
    then show ?thesis using assms(1) by (simp add: mdc_run_step_def none)
  qed
qed

section \<open>The components in step\<close>

text \<open>
  The exchange is in step with its books, the client with the exchange: the consumer expects the next
  number and has nothing left to read, the trade engine's books mirror the exchange's and nothing
  waits for it, and the prices and the limits are far from the ends of their types.
\<close>

definition in_sync :: "'f ecosystem \<Rightarrow> aengine \<Rightarrow> bool" where
  "in_sync eco e \<longleftrightarrow> in_step (eco_engine eco) (eco_publisher eco) (eco_synthesizer eco) e \<and> prices_in small_price e \<and>
     \<not> in_recovery (eco_consumer eco) \<and> mc_inbound (incremental_mcast_socket (eco_consumer eco)) = [] \<and>
     next_exp_inc_seq_num (eco_consumer eco) = last_inc_seq_num (eco_synthesizer eco) + 1 \<and>
     q_inv (TradeEngine.incoming_md_updates (eco_trader eco)) \<and> q_contents (TradeEngine.incoming_md_updates (eco_trader eco)) = [] \<and>
     q_inv (incoming_ogw_responses (eco_trader eco)) \<and> q_contents (incoming_ogw_responses (eco_trader eco)) = [] \<and>
     calm (eco_trader eco) \<and> client_mirrors (te_order_book (eco_trader eco)) e"

definition round_fits :: "'f ecosystem \<Rightarrow> nat \<Rightarrow> nat \<Rightarrow> bool" where
  "round_fits eco taken k \<longleftrightarrow> updates_fit (eco_engine eco) (eco_publisher eco) (eco_synthesizer eco) taken k \<and>
     k \<le> q_capacity (TradeEngine.incoming_md_updates (eco_trader eco))"

lemma small_price_ok: "small_price p \<Longrightarrow> price_ok p"
  by (auto simp: small_price_def price_ok_def Price_INVALID_def abs_le_iff)

text \<open>The trade engine's turn.\<close>

lemma trader_step:
  assumes "calm te" and "q_inv (TradeEngine.incoming_md_updates te)" and "q_contents (TradeEngine.incoming_md_updates te) = us"
    and "q_inv (incoming_ogw_responses te)" and "q_contents (incoming_ogw_responses te) = []"
    and "\<forall>u\<in>set us. unat (mu_ticker_id u) < ME_MAX_TICKERS \<and> small_price (mu_price u)"
    and "client_updates (te_order_book te) us = Inr books"
  shows "\<exists>te' now'. te_run_step F now te = Inr (te', now') \<and> calm te' \<and> te_order_book te' = books \<and>
    q_inv (TradeEngine.incoming_md_updates te') \<and> q_contents (TradeEngine.incoming_md_updates te') = [] \<and>
    incoming_ogw_responses te' = incoming_ogw_responses te"
proof -
  obtain te' now' where u: "te_updates F now te us = Inr (te', now')" "calm te'"
    using updates_return [OF assms(1,6,7,2,3)] by blast
  with updates_frame [OF u(1) assms(2,3)] run_step_eq [OF assms(4,2), of F now] assms(3,5,7) show ?thesis by auto
qed

section \<open>Properties\<close>

text \<open>C2: The market data from end to end. When the components are in step and the requests waiting at the
  matching engine are ones its books can take, at moderate prices, and the updates they make fit the
  queues and buffers, then a round of turns (the matching engine works the requests off, the
  publisher numbers and sends the updates, the synthesizer follows, the consumer reads the bytes, the
  trade engine handles the updates with its strategy) ends without a fault in any component, and
  the components are in step again, with the books after the requests: those of the client are
  those of the exchange.\<close>

theorem market_round_in_sync:
  assumes "in_sync eco e" and "q_contents (incoming_requests (eco_engine eco)) = rs" and "ae_oks e rs" and "ae_room e rs"
    and "ae_requests e rs = (e', resps, us)" and "\<forall>r\<in>set rs. small_price (rq_price r)" and "round_fits eco taken (length us)"
  shows "\<exists>eco' now'. market_round F now taken eco = Inr (eco', now') \<and> in_sync eco' e' \<and>
    q_contents (incoming_requests (eco_engine eco')) = []"
proof -
  note i = assms(1) [unfolded in_sync_def] and f = assms(7) [unfolded round_fits_def]
  let ?n = "last_inc_seq_num (eco_synthesizer eco)" and ?te = "eco_trader eco"
  obtain eng' mdp' ss' where x: "run (length rs) (eco_engine eco) = Inr eng'" "q_contents (incoming_requests eng') = []"
    "mdp_run_step taken ((eco_publisher eco)\<lparr>outgoing_md_updates := mq_md_updates (eng_queues eng')\<rparr>) =
      Inr (mdp', concat (map enc_MDPMarketUpdate (mdp_number (?n + 1) us)))"
    "q_length (snapshot_md_updates mdp') = length us"
    "ss_updates (length us) ((eco_synthesizer eco)\<lparr>ss_md_updates := snapshot_md_updates mdp'\<rparr>) = Inr ss'"
    "last_inc_seq_num ss' = ?n + of_nat (length us)"
    "in_step (eng'\<lparr>eng_queues := (eng_queues eng')\<lparr>mq_md_updates := outgoing_md_updates mdp'\<rparr>\<rparr>)
      (mdp'\<lparr>snapshot_md_updates := ss_md_updates ss'\<rparr>) ss' e'"
    using exchange_step [of "eco_engine eco" "eco_publisher eco" "eco_synthesizer eco" e rs e' resps us taken] assms(2-5) i f by auto
  have p: "prices_in small_price e'" "\<forall>u\<in>set us. small_price (mu_price u)"
    using requests_prices [OF assms(5,3) _ assms(6)] i by auto
  then have "\<forall>u\<in>set us. price_ok (mu_price u)" using small_price_ok by blast
  from consumer_step [OF _ _ _ this, of "(eco_consumer eco)\<lparr>MarketDataConsumer.incoming_md_updates := TradeEngine.incoming_md_updates ?te\<rparr>" "?n + 1"]
  obtain mdc' where c: "mdc_run_step True (concat (map enc_MDPMarketUpdate (mdp_number (?n + 1) us))) []
      ((eco_consumer eco)\<lparr>MarketDataConsumer.incoming_md_updates := TradeEngine.incoming_md_updates ?te\<rparr>) = Inr mdc'"
    "\<not> in_recovery mdc'" "mc_inbound (incremental_mcast_socket mdc') = []" "next_exp_inc_seq_num mdc' = ?n + 1 + of_nat (length us)"
    "MarketDataConsumer.incoming_md_updates mdc' = q_pushes (TradeEngine.incoming_md_updates ?te) us"
    using i f by (auto simp: updates_fit_def publish_fits_def)
  have q: "q_inv (q_pushes (TradeEngine.incoming_md_updates ?te) us)" "q_contents (q_pushes (TradeEngine.incoming_md_updates ?te) us) = us"
    using q_pushes_contents [of "TradeEngine.incoming_md_updates ?te" us] i f by auto
  obtain books where b: "client_updates (te_order_book ?te) us = Inr books" "client_mirrors books e'"
    using requests_mirror [OF _ assms(3,4,5)] i by (auto simp: in_step_def)
  have te: "calm (?te\<lparr>TradeEngine.incoming_md_updates := v\<rparr>)" for v using i by (simp add: calm_def)
  from trader_step [OF te [of "q_pushes (TradeEngine.incoming_md_updates ?te) us"], of us books F now]
  obtain te' now' where "te_run_step F now (?te\<lparr>TradeEngine.incoming_md_updates := q_pushes (TradeEngine.incoming_md_updates ?te) us\<rparr>) = Inr (te', now')"
    "calm te'" "te_order_book te' = books" "q_inv (TradeEngine.incoming_md_updates te')" "q_contents (TradeEngine.incoming_md_updates te') = []"
    "incoming_ogw_responses te' = incoming_ogw_responses ?te"
    using q b(1) i requests_tickers [OF assms(5,3)] p(2) by auto
  moreover have "q_length (incoming_requests (eco_engine eco)) = length rs" using assms(2) length_q_contents by metis
  ultimately show ?thesis using x c b(2) p(1) i
    by (simp add: market_round_def Let_def in_sync_def algebra_simps)
qed

definition demo_eco :: "exact ecosystem" where
  "demo_eco = \<lparr>eco_engine = demo_exchange_engine, eco_publisher = MarketDataPublisher_new (LFQueue_new 4 MEMarketUpdate_default),
     eco_synthesizer = demo_synthesizer, eco_consumer = demo_consumer,
     eco_trader = demo_maker_engine\<lparr>TradeEngine.incoming_md_updates := LFQueue_new 4 MEMarketUpdate_default\<rparr>\<rparr>"

lemma quoted_new: "quoted (empty_books t) = {Price_INVALID}"
  by (auto simp: quoted_def level_price_def empty_books_def MarketOrderBook_new_def MemPool_new_def mp_obj_def BBO_default_def
      MarketOrdersAtPrice_default_def)

lemma demo_in_sync: "in_sync demo_eco (\<lambda>_. empty_abook)"
proof -
  have b: "te_order_book (eco_trader demo_eco) = empty_books"
    by (simp add: demo_eco_def demo_engine_defs empty_books_def fun_eq_iff)
  have "calm (eco_trader demo_eco)"
    unfolding calm_def calm_book_def b quoted_new
    by (simp add: demo_eco_def demo_engine_defs calm_at_def PositionInfo_default_def demo_cfg_def small_price_def)
  moreover have "last_inc_seq_num demo_synthesizer = 0"
    by (simp add: demo_synthesizer_def SnapshotSynthesizer_new_def)
  ultimately show ?thesis
    using demo_in_step(1) client_mirrors_new b demo_maker_queues(1,2)
    by (simp add: in_sync_def prices_in_def demo_eco_def q_inv_new demo_consumer_def MarketDataConsumer_new_def McastSocket_new_def)
qed

theorem market_round_in_sync_witness:
  "\<exists>eco' now' e' resps us. ae_requests (\<lambda>_. empty_abook) [demo_new] = (e', resps, us) \<and>
    market_round exact_ops (\<lambda>_. 0) 100 demo_eco = Inr (eco', now') \<and> in_sync eco' e'"
proof -
  obtain e' resps us where r: "ae_requests (\<lambda>_. empty_abook) [demo_new] = (e', resps, us)" by (metis prod.collapse)
  have "length us = 1"
    using r by (auto simp: ae_request_def a_request_def demo_new_def demo_request_def a_add_def Let_def empty_abook_def ab_side_def)
  then have "round_fits demo_eco 100 (length us)"
    by (simp add: round_fits_def updates_fit_def publish_fits_def demo_eco_def demo_exchange_engine_def start_def MatchingEngine_new_def
        empty_queues_def MarketDataPublisher_new_def ME_MAX_MARKET_UPDATES_def McastBufferSize_def ME_MAX_ORDER_IDS_def
        demo_synthesizer_def ss_view_new entries_def)
  moreover have "q_contents (incoming_requests (eco_engine demo_eco)) = [demo_new]" using demo_in_step(2) by (simp add: demo_eco_def)
  moreover have "\<forall>r\<in>set [demo_new]. small_price (rq_price r)" by (simp add: demo_new_def demo_request_def small_price_def)
  ultimately show ?thesis using market_round_in_sync [OF demo_in_sync _ demo_new_ok r, of 100 exact_ops "\<lambda>_. 0"] r by fastforce
qed

end
