(* ===== verification/FIFO_Sequencer.thy ===== *)
theory FIFO_Sequencer
  imports Messages "HOL-Library.Multiset"
begin

text \<open>
  The sequencer of \<^verbatim>\<open>src/exchange/order_server/fifo_sequencer.h\<close>: the requests of one round of
  reads, with their receive times, sorted by time and written to the queue of the matching engine.
  The list \<open>pending_client_requests\<close> is the used part of the array. \<^verbatim>\<open>std::sort\<close> leaves the
  order of requests with the same time open, so it is the argument \<open>srt\<close>.
\<close>

section \<open>The class\<close>

definition ME_MAX_PENDING_REQUESTS :: nat where "ME_MAX_PENDING_REQUESTS = 1024"

record RecvTimeClientRequest =
  recv_time :: Nanos
  rt_request :: MEClientRequest

text \<open>The comparison of the struct, \<^verbatim>\<open>operator<\<close>, looks at the times only: a preorder.\<close>

instantiation RecvTimeClientRequest_ext :: (type) preorder
begin

definition less_RecvTimeClientRequest_ext :: "'a RecvTimeClientRequest_scheme \<Rightarrow> 'a RecvTimeClientRequest_scheme \<Rightarrow> bool" where
  "x < y \<longleftrightarrow> recv_time x < recv_time y"

definition less_eq_RecvTimeClientRequest_ext :: "'a RecvTimeClientRequest_scheme \<Rightarrow> 'a RecvTimeClientRequest_scheme \<Rightarrow> bool" where
  "x \<le> y \<longleftrightarrow> recv_time x \<le> recv_time y"

instance
  by standard (auto simp: less_RecvTimeClientRequest_ext_def less_eq_RecvTimeClientRequest_ext_def)

end

lemma in_time_order:
  "sorted_wrt (\<lambda>x y. \<not> y < x) xs \<longleftrightarrow> sorted (map recv_time (xs :: RecvTimeClientRequest list))"
  by (simp add: less_RecvTimeClientRequest_ext_def sorted_map not_less)

record FIFOSequencer =
  pending_client_requests :: "RecvTimeClientRequest list"

definition FIFOSequencer_new :: FIFOSequencer where
  "FIFOSequencer_new = \<lparr>pending_client_requests = []\<rparr>"

definition addClientRequest :: "FIFOSequencer \<Rightarrow> Nanos \<Rightarrow> MEClientRequest \<Rightarrow> FIFOSequencer result" where
  "addClientRequest fs rx_time request =
     (if length (pending_client_requests fs) \<ge> ME_MAX_PENDING_REQUESTS
      then FATAL ''Too many pending requests''
      else Inr (fs\<lparr>pending_client_requests := pending_client_requests fs @
                   [\<lparr>recv_time = rx_time, rt_request = request\<rparr>]\<rparr>))"

definition sequenceAndPublish ::
    "(RecvTimeClientRequest list \<Rightarrow> RecvTimeClientRequest list) \<Rightarrow> FIFOSequencer \<Rightarrow>
     ClientRequestLFQueue \<Rightarrow> FIFOSequencer \<times> ClientRequestLFQueue" where
  "sequenceAndPublish srt fs incoming_requests =
     (if pending_client_requests fs = [] then (fs, incoming_requests)
      else (fs\<lparr>pending_client_requests := []\<rparr>,
            q_pushes incoming_requests (map rt_request (srt (pending_client_requests fs)))))"

section \<open>The contract of the sort\<close>

locale time_sort =
  fixes srt :: "RecvTimeClientRequest list \<Rightarrow> RecvTimeClientRequest list"
  assumes perm: "mset (srt xs) = mset xs" and in_order: "sorted_wrt (\<lambda>x y. \<not> y < x) (srt xs)"
begin

lemma sorted_times: "sorted (map recv_time (srt xs))"
  using in_order by (simp add: in_time_order)

text \<open>With distinct times the result is determined.\<close>

lemma determined:
  assumes "distinct (map recv_time xs)"
  shows "srt xs = sort_key recv_time xs"
proof -
  have "inj_on recv_time (set xs)" using assms by (simp add: distinct_map)
  then show ?thesis using sort_key_inj_key_eq [OF perm [symmetric]] sorted_times by metis
qed

lemma publish:
  assumes "q_inv q" and "length (q_contents q) + length (pending_client_requests fs) \<le> q_capacity q"
    and "sequenceAndPublish srt fs q = (fs', q')"
  shows "pending_client_requests fs' = [] \<and> q_inv q' \<and>
    (\<exists>ps. q_contents q' = q_contents q @ map rt_request ps \<and> mset ps = mset (pending_client_requests fs) \<and>
      sorted (map recv_time ps))"
proof (cases "pending_client_requests fs = []")
  case True
  then show ?thesis using assms by (auto simp: sequenceAndPublish_def intro!: exI [of _ "[]"])
next
  case False
  let ?ps = "srt (pending_client_requests fs)"
  have len: "length ?ps = length (pending_client_requests fs)" using perm by (metis size_mset)
  have "fs' = fs\<lparr>pending_client_requests := []\<rparr>" "q' = q_pushes q (map rt_request ?ps)"
    using assms(3) False by (auto simp: sequenceAndPublish_def)
  with q_pushes_contents [OF assms(1), of "map rt_request ?ps"] assms(2) len perm sorted_times
  show ?thesis by (auto intro!: exI [of _ ?ps])
qed

end

interpretation stable: time_sort "sort_key recv_time"
  by unfold_locales (simp_all add: in_time_order)


section \<open>Properties\<close>

text \<open>C37: The sequencer publishes every pending request exactly once, in ascending order of receive
  time, behind what waits in the queue of the matching engine, and keeps none; if no two of them
  have the same time, the order is determined. This holds for every sort that returns its argument
  permuted so that no element is less than one before it, which is what \<^verbatim>\<open>std::sort\<close> promises
  for the struct's \<^verbatim>\<open>operator<\<close>.\<close>

theorem sequencer_order:
  assumes "\<And>xs. mset (srt xs) = mset xs" and "\<And>xs. sorted_wrt (\<lambda>x y. \<not> y < x) (srt xs)"
    and "q_inv q" and "length (q_contents q) + length (pending_client_requests fs) \<le> q_capacity q"
    and "sequenceAndPublish srt fs q = (fs', q')"
  shows "pending_client_requests fs' = [] \<and>
    (\<exists>ps. q_contents q' = q_contents q @ map rt_request ps \<and> mset ps = mset (pending_client_requests fs) \<and>
      sorted (map recv_time ps) \<and>
      (distinct (map recv_time (pending_client_requests fs)) \<longrightarrow>
        ps = sort_key recv_time (pending_client_requests fs)))"
proof -
  have l: "time_sort srt" using assms(1,2) by unfold_locales
  from time_sort.publish [OF l assms(3-5)] obtain ps where
    ps: "pending_client_requests fs' = []" "q_contents q' = q_contents q @ map rt_request ps"
    "mset ps = mset (pending_client_requests fs)" "sorted (map recv_time ps)" by blast
  have "ps = sort_key recv_time (pending_client_requests fs)"
    if "distinct (map recv_time (pending_client_requests fs))"
    using sort_key_inj_key_eq [of "pending_client_requests fs" ps recv_time] ps(3,4) that
    by (simp add: distinct_map)
  with ps show ?thesis by blast
qed

definition demo_pending :: "Nanos \<Rightarrow> Nanos \<Rightarrow> FIFOSequencer" where
  "demo_pending t u = \<lparr>pending_client_requests =
     [\<lparr>recv_time = t, rt_request = MEClientRequest_default\<lparr>rq_order_id := 1\<rparr>\<rparr>,
      \<lparr>recv_time = u, rt_request = MEClientRequest_default\<lparr>rq_order_id := 2\<rparr>\<rparr>]\<rparr>"

theorem sequencer_order_witness:
  "\<exists>fs' q'. sequenceAndPublish (sort_key recv_time) (demo_pending 9 5)
      (LFQueue_new 2 MEClientRequest_default) = (fs', q') \<and> pending_client_requests fs' = [] \<and>
    map rq_order_id (q_contents q') = [2, 1]"
proof -
  obtain fs' q' where r: "sequenceAndPublish (sort_key recv_time) (demo_pending 9 5)
      (LFQueue_new 2 MEClientRequest_default) = (fs', q')" by (metis prod.collapse)
  have "q_inv (LFQueue_new 2 MEClientRequest_default)" by (rule q_inv_new) simp
  from sequencer_order [OF _ _ this _ r] r show ?thesis by (auto simp: demo_pending_def in_time_order)
qed

definition swap_equal :: "RecvTimeClientRequest list \<Rightarrow> RecvTimeClientRequest list" where
  "swap_equal xs = sort_key recv_time (rev xs)"

text \<open>Requests that one read delivers have the same receive time, and the contract of the sort
  does not keep them in order: a sort that satisfies it may publish the later of two requests
  first.\<close>

theorem sequencer_may_reorder:
  "(\<forall>xs. mset (swap_equal xs) = mset xs \<and> sorted (map recv_time (swap_equal xs))) \<and>
   map rq_order_id (q_contents (snd (sequenceAndPublish swap_equal (demo_pending 5 5)
     (LFQueue_new 2 MEClientRequest_default)))) = [2, 1]"
proof -
  have srt: "swap_equal (pending_client_requests (demo_pending 5 5)) = rev (pending_client_requests (demo_pending 5 5))"
    by (simp add: swap_equal_def demo_pending_def)
  have q: "q_inv (LFQueue_new 2 MEClientRequest_default)" by (rule q_inv_new) simp
  have "q_contents (q_pushes (LFQueue_new 2 MEClientRequest_default)
      (map rt_request (rev (pending_client_requests (demo_pending 5 5))))) =
    map rt_request (rev (pending_client_requests (demo_pending 5 5)))"
    using q_pushes_contents [OF q] by (simp add: demo_pending_def)
  then show ?thesis by (simp add: sequenceAndPublish_def srt) (simp add: swap_equal_def demo_pending_def)
qed

end
