(* ===== verification/Order_Server.thy ===== *)
theory Order_Server
  imports Sockets FIFO_Sequencer "HOL-Library.Sublist"
begin

text \<open>
  The order server of \<^verbatim>\<open>src/exchange/order_server/order_server.h\<close> and
  \<^verbatim>\<open>order_server.cpp\<close>, with the TCP server of \<^verbatim>\<open>src/common/tcp_server.cpp\<close> that calls it
  back. A socket is the index of its entry in \<open>os_sockets\<close>; the events and the data of the kernel are
  arguments.
\<close>

section \<open>The class\<close>

record OrderServer =
  os_outgoing_responses :: ClientResponseLFQueue
  os_incoming_requests :: ClientRequestLFQueue
  os_run :: bool
  cid_next_outgoing_seq_num :: "nat \<Rightarrow> SeqNum"
  cid_next_exp_seq_num :: "nat \<Rightarrow> SeqNum"
  cid_tcp_socket :: "nat \<Rightarrow> pointer"
  os_sockets :: "nat \<Rightarrow> TCPSocket"
  listener_socket :: nat
  receive_sockets :: "nat list"
  send_sockets :: "nat list"
  fifo_sequencer :: FIFOSequencer

definition OrderServer_new :: "nat \<Rightarrow> ClientRequestLFQueue \<Rightarrow> ClientResponseLFQueue \<Rightarrow> OrderServer" where
  "OrderServer_new listener client_requests client_responses =
     \<lparr>os_outgoing_responses = client_responses, os_incoming_requests = client_requests, os_run = False,
      cid_next_outgoing_seq_num = (\<lambda>_. 1), cid_next_exp_seq_num = (\<lambda>_. 1),
      cid_tcp_socket = (\<lambda>_. None), os_sockets = (\<lambda>_. TCPSocket_new),
      listener_socket = listener, receive_sockets = [],
      send_sockets = [], fifo_sequencer = FIFOSequencer_new\<rparr>"

text \<open>
  \<^verbatim>\<open>TCPServer::listen\<close> creates the epoll instance, the listening socket and registers it:
  three calls of the kernel, given by whether each succeeds. The sockets of the server are otherwise
  as the constructor left them.
\<close>

definition listen :: "bool \<Rightarrow> bool \<Rightarrow> bool \<Rightarrow> OrderServer \<Rightarrow> OrderServer result" where
  "listen epoll_created listening registered os =
     andThen (ASSERT epoll_created ''epoll_create() failed'') (\<lambda>_.
     andThen (ASSERT listening ''Listener socket failed to connect.'') (\<lambda>_.
     andThen (ASSERT registered ''epoll_ctl() failed.'') (\<lambda>_. Inr os)))"

definition os_start :: "bool \<Rightarrow> bool \<Rightarrow> bool \<Rightarrow> OrderServer \<Rightarrow> OrderServer result" where
  "os_start epoll_created listening registered os =
     listen epoll_created listening registered (os\<lparr>os_run := True\<rparr>)"

definition os_stop :: "OrderServer \<Rightarrow> OrderServer" where
  "os_stop os = os\<lparr>os_run := False\<rparr>"

section \<open>Receiving requests\<close>

text \<open>The body of the loop of \<^verbatim>\<open>recvCallback\<close>.\<close>

definition recv_request :: "OrderServer \<Rightarrow> nat \<Rightarrow> Nanos \<Rightarrow> OMClientRequest \<Rightarrow> OrderServer result" where
  "recv_request os socket rx_time request =
     (let cid = unat (rq_client_id (orq_me_client_request request)) in
      andThen (array_get ME_MAX_NUM_CLIENTS (cid_tcp_socket os) cid) (\<lambda>owner.
      let os1 = (if owner = None then os\<lparr>cid_tcp_socket := (cid_tcp_socket os)(cid := Some socket)\<rparr> else os) in
      if cid_tcp_socket os1 cid \<noteq> Some socket then Inr os1
      else if orq_seq_num request \<noteq> cid_next_exp_seq_num os1 cid then Inr os1
      else
        let os2 = os1\<lparr>cid_next_exp_seq_num :=
              (cid_next_exp_seq_num os1)(cid := cid_next_exp_seq_num os1 cid + 1)\<rparr> in
        andThen (addClientRequest (fifo_sequencer os2) rx_time (orq_me_client_request request)) (\<lambda>fs.
        Inr (os2\<lparr>fifo_sequencer := fs\<rparr>))))"

fun recv_requests :: "OrderServer \<Rightarrow> nat \<Rightarrow> Nanos \<Rightarrow> OMClientRequest list \<Rightarrow> OrderServer result" where
  "recv_requests os socket rx_time [] = Inr os"
| "recv_requests os socket rx_time (r # rs) =
     andThen (recv_request os socket rx_time r) (\<lambda>os1. recv_requests os1 socket rx_time rs)"

definition os_recvCallback :: "OrderServer \<Rightarrow> nat \<Rightarrow> Nanos \<Rightarrow> OrderServer result" where
  "os_recvCallback os socket rx_time =
     (let buf = tcp_inbound (os_sockets os socket) in
      if length buf \<ge> sizeof_OMClientRequest then
        let (requests, rest) = frames sizeof_OMClientRequest dec_OMClientRequest buf in
        andThen (recv_requests os socket rx_time requests) (\<lambda>os1.
        Inr (os1\<lparr>os_sockets := (os_sockets os1)(socket := (os_sockets os1 socket)\<lparr>tcp_inbound := rest\<rparr>)\<rparr>))
      else Inr os)"

definition os_recvFinishedCallback ::
    "(RecvTimeClientRequest list \<Rightarrow> RecvTimeClientRequest list) \<Rightarrow> OrderServer \<Rightarrow> OrderServer" where
  "os_recvFinishedCallback srt os =
     (let (fs, q) = sequenceAndPublish srt (fifo_sequencer os) (os_incoming_requests os) in
      os\<lparr>fifo_sequencer := fs, os_incoming_requests := q\<rparr>)"

section \<open>The TCP server\<close>

text \<open>An event of the kernel: the socket and its flags.\<close>

record epoll_event =
  ev_socket :: nat
  ev_in :: bool
  ev_out :: bool
  ev_err :: bool

definition push_once :: "nat list \<Rightarrow> nat \<Rightarrow> nat list" where
  "push_once xs x = (if x \<in> set xs then xs else xs @ [x])"

definition poll_event :: "OrderServer \<Rightarrow> epoll_event \<Rightarrow> OrderServer" where
  "poll_event os event =
     (let socket = ev_socket event in
      if ev_in event \<and> socket = listener_socket os then os
      else
        let os1 = (if ev_in event then os\<lparr>receive_sockets := push_once (receive_sockets os) socket\<rparr> else os);
            os2 = (if ev_out event then os1\<lparr>send_sockets := push_once (send_sockets os1) socket\<rparr> else os1) in
        if ev_err event then os2\<lparr>receive_sockets := push_once (receive_sockets os2) socket\<rparr> else os2)"

text \<open>A connection accepted: a new socket, which is read from.\<close>

definition accept_socket :: "OrderServer \<Rightarrow> nat \<Rightarrow> OrderServer" where
  "accept_socket os fd =
     os\<lparr>os_sockets := (os_sockets os)(fd := TCPSocket_new),
        receive_sockets := push_once (receive_sockets os) fd\<rparr>"

text \<open>
  \<^verbatim>\<open>TCPServer::poll\<close> for the connections accepted. The calls that prepare a new connection, with the
  assertions on them, are in \<open>accept_connections\<close> of theory \<open>Socket_Utils\<close>, whose \<open>TCPServer_poll\<close> is both together.
\<close>

definition poll :: "OrderServer \<Rightarrow> epoll_event list \<Rightarrow> nat list \<Rightarrow> OrderServer" where
  "poll os events accepted =
     (let os1 = foldl poll_event os events in
      if \<exists>ev\<in>set events. ev_in ev \<and> ev_socket ev = listener_socket os then foldl accept_socket os1 accepted else os1)"

text \<open>One socket's turn: the owner's callback runs on the socket's entry.\<close>

definition socket_turn ::
    "OrderServer \<Rightarrow> (nat \<Rightarrow> (byte list \<times> Nanos) option) \<Rightarrow> (nat \<Rightarrow> nat) \<Rightarrow> nat \<Rightarrow>
     (OrderServer \<times> bool \<times> byte list) result" where
  "socket_turn os reads taken s =
     andThen (tcp_sendAndRecv
        (\<lambda>sock t os. andThen (os_recvCallback (os\<lparr>os_sockets := (os_sockets os)(s := sock)\<rparr>) s t)
           (\<lambda>os1. Inr (os_sockets os1 s, os1)))
        (reads s) (taken s) (os_sockets os s) os) (\<lambda>(sock, os1, recv, sent).
     Inr (os1\<lparr>os_sockets := (os_sockets os1)(s := sock)\<rparr>, recv, sent))"

fun socket_turns ::
    "OrderServer \<Rightarrow> (nat \<Rightarrow> (byte list \<times> Nanos) option) \<Rightarrow> (nat \<Rightarrow> nat) \<Rightarrow> nat list \<Rightarrow>
     (OrderServer \<times> bool \<times> (nat \<times> byte list) list) result" where
  "socket_turns os reads taken [] = Inr (os, False, [])"
| "socket_turns os reads taken (s # ss) =
     andThen (socket_turn os reads taken s) (\<lambda>(os1, recv1, sent).
     andThen (socket_turns os1 reads taken ss) (\<lambda>(os2, recv2, sents).
     Inr (os2, recv1 \<or> recv2, (s, sent) # sents)))"

definition sendAndRecv ::
    "(RecvTimeClientRequest list \<Rightarrow> RecvTimeClientRequest list) \<Rightarrow> OrderServer \<Rightarrow>
     (nat \<Rightarrow> (byte list \<times> Nanos) option) \<Rightarrow> (nat \<Rightarrow> (byte list \<times> Nanos) option) \<Rightarrow> (nat \<Rightarrow> nat) \<Rightarrow>
     (OrderServer \<times> (nat \<times> byte list) list) result" where
  "sendAndRecv srt os reads1 reads2 taken =
     andThen (socket_turns os reads1 taken (receive_sockets os)) (\<lambda>(os1, recv, sent1).
     let os2 = (if recv then os_recvFinishedCallback srt os1 else os1) in
     andThen (socket_turns os2 reads2 taken (send_sockets os2)) (\<lambda>(os3, _, sent2).
     Inr (os3, sent1 @ sent2)))"

section \<open>Sending responses\<close>

text \<open>The body of the loop over the responses in \<^verbatim>\<open>run\<close>.\<close>

definition send_response :: "OrderServer \<Rightarrow> MEClientResponse \<Rightarrow> OrderServer result" where
  "send_response os client_response =
     (let cid = unat (cr_client_id client_response) in
      andThen (array_get ME_MAX_NUM_CLIENTS (cid_next_outgoing_seq_num os) cid) (\<lambda>next_outgoing_seq_num.
      andThen (ASSERT (cid_tcp_socket os cid \<noteq> None) ''Dont have a TCPSocket for ClientId'') (\<lambda>_.
      andThen (not_null (cid_tcp_socket os cid)) (\<lambda>s.
      andThen (tcp_send (os_sockets os s) (word_bytes 8 next_outgoing_seq_num)) (\<lambda>sock1.
      andThen (tcp_send sock1 (enc_MEClientResponse client_response)) (\<lambda>sock2.
      andThen (updateReadIndex (os_outgoing_responses os)) (\<lambda>q.
      Inr (os\<lparr>os_sockets := (os_sockets os)(s := sock2), os_outgoing_responses := q,
              cid_next_outgoing_seq_num :=
                (cid_next_outgoing_seq_num os)(cid := next_outgoing_seq_num + 1)\<rparr>))))))))"

fun send_responses :: "nat \<Rightarrow> OrderServer \<Rightarrow> OrderServer result" where
  "send_responses fuel os =
     (case getNextToRead (os_outgoing_responses os) of
        None \<Rightarrow> Inr os
      | Some client_response \<Rightarrow>
          if fuel = 0 then Inl Diverges
          else andThen (send_response os client_response) (send_responses (fuel - 1)))"

declare send_responses.simps [simp del]

text \<open>One turn of \<^verbatim>\<open>run\<close>.\<close>

definition os_run_step ::
    "(RecvTimeClientRequest list \<Rightarrow> RecvTimeClientRequest list) \<Rightarrow> OrderServer \<Rightarrow> epoll_event list \<Rightarrow> nat list \<Rightarrow>
     (nat \<Rightarrow> (byte list \<times> Nanos) option) \<Rightarrow> (nat \<Rightarrow> (byte list \<times> Nanos) option) \<Rightarrow> (nat \<Rightarrow> nat) \<Rightarrow>
     (OrderServer \<times> (nat \<times> byte list) list) result" where
  "os_run_step srt os events accepted reads1 reads2 taken =
     andThen (sendAndRecv srt (poll os events accepted) reads1 reads2 taken) (\<lambda>(os1, sent).
     andThen (send_responses (q_length (os_outgoing_responses os1)) os1) (\<lambda>os2. Inr (os2, sent)))"


section \<open>What is forwarded\<close>

text \<open>The client of a request, and the requests of one client.\<close>

abbreviation req_cid :: "OMClientRequest \<Rightarrow> nat" where
  "req_cid r \<equiv> unat (rq_client_id (orq_me_client_request r))"

definition seqs_of :: "nat \<Rightarrow> OMClientRequest list \<Rightarrow> SeqNum list" where
  "seqs_of c rs = map orq_seq_num (filter (\<lambda>r. req_cid r = c) rs)"

text \<open>A run of \<open>k\<close> consecutive numbers.\<close>

fun run_from :: "SeqNum \<Rightarrow> nat \<Rightarrow> SeqNum list" where
  "run_from n 0 = []"
| "run_from n (Suc k) = n # run_from (n + 1) k"

lemma length_run_from [simp]: "length (run_from n k) = k"
  by (induction k arbitrary: n) auto

text \<open>A request is forwarded if it comes over its client's socket with the number expected.\<close>

definition accepts :: "OrderServer \<Rightarrow> nat \<Rightarrow> OMClientRequest \<Rightarrow> bool" where
  "accepts os s r \<longleftrightarrow> cid_tcp_socket os (req_cid r) \<in> {None, Some s} \<and>
     orq_seq_num r = cid_next_exp_seq_num os (req_cid r)"

lemma recv_request_Inr:
  assumes "recv_request os s rx r = Inr os'"
  shows "req_cid r < ME_MAX_NUM_CLIENTS"
    and "cid_tcp_socket os' = (if cid_tcp_socket os (req_cid r) = None
      then (cid_tcp_socket os)(req_cid r := Some s) else cid_tcp_socket os)"
    and "cid_next_exp_seq_num os' = (if accepts os s r
      then (cid_next_exp_seq_num os)(req_cid r := cid_next_exp_seq_num os (req_cid r) + 1)
      else cid_next_exp_seq_num os)"
    and "pending_client_requests (fifo_sequencer os') = pending_client_requests (fifo_sequencer os) @
      (if accepts os s r then [\<lparr>recv_time = rx, rt_request = orq_me_client_request r\<rparr>] else [])"
    and "os_sockets os' = os_sockets os"
  using assms
  by (auto simp: recv_request_def Let_def result_simps accepts_def addClientRequest_def FATAL_def split: if_splits)

lemma recv_request_ok:
  assumes "req_cid r < ME_MAX_NUM_CLIENTS"
    and "length (pending_client_requests (fifo_sequencer os)) < ME_MAX_PENDING_REQUESTS"
  shows "\<exists>os'. recv_request os s rx r = Inr os'"
  using assms by (auto simp: recv_request_def Let_def addClientRequest_def)

text \<open>The requests that are forwarded from a sequence of them.\<close>

definition forwarded :: "OrderServer \<Rightarrow> OrderServer \<Rightarrow> nat \<Rightarrow> Nanos \<Rightarrow> OMClientRequest list \<Rightarrow> OMClientRequest list \<Rightarrow> bool" where
  "forwarded os os' s rx rs acc \<longleftrightarrow> subseq acc rs \<and>
     pending_client_requests (fifo_sequencer os') = pending_client_requests (fifo_sequencer os) @
       map (\<lambda>r. \<lparr>recv_time = rx, rt_request = orq_me_client_request r\<rparr>) acc \<and>
     (\<forall>c. seqs_of c acc = run_from (cid_next_exp_seq_num os c) (length (seqs_of c acc)) \<and>
        cid_next_exp_seq_num os' c = cid_next_exp_seq_num os c + of_nat (length (seqs_of c acc))) \<and>
     (\<forall>r\<in>set acc. cid_tcp_socket os' (req_cid r) = Some s) \<and>
     (\<forall>c t. cid_tcp_socket os c = Some t \<longrightarrow> cid_tcp_socket os' c = Some t)"

lemma seqs_of_Cons:
  "seqs_of c (r # rs) = (if req_cid r = c then [orq_seq_num r] else []) @ seqs_of c rs"
  by (simp add: seqs_of_def)

lemma recv_requests_forwarded:
  assumes "recv_requests os s rx rs = Inr os'"
  shows "\<exists>acc. forwarded os os' s rx rs acc"
  using assms
proof (induction rs arbitrary: os)
  case Nil
  then show ?case by (auto simp: forwarded_def seqs_of_def)
next
  case (Cons r rs)
  then obtain os1 where os1: "recv_request os s rx r = Inr os1" "recv_requests os1 s rx rs = Inr os'"
    by (auto simp: result_simps)
  from Cons.IH [OF os1(2)] obtain acc where acc: "forwarded os1 os' s rx rs acc" by blast
  note step = recv_request_Inr [OF os1(1)]
  have "\<forall>c t. cid_tcp_socket os c = Some t \<longrightarrow> cid_tcp_socket os1 c = Some t"
    using step(2) by auto
  then have own: "\<forall>c t. cid_tcp_socket os c = Some t \<longrightarrow> cid_tcp_socket os' c = Some t"
    using acc by (simp add: forwarded_def)
  show ?case
  proof (cases "accepts os s r")
    case True
    have "cid_tcp_socket os1 (req_cid r) = Some s" using step(2) True by (auto simp: accepts_def)
    then have "forwarded os os' s rx (r # rs) (r # acc)"
      using acc step True own unfolding forwarded_def
      by (auto simp: seqs_of_Cons accepts_def split: if_splits)
    then show ?thesis by blast
  next
    case False
    then have "forwarded os os' s rx (r # rs) acc"
      using acc step own unfolding forwarded_def by (auto split: if_splits)
    then show ?thesis by blast
  qed
qed

text \<open>No fault as long as the clients exist and the sequencer has room.\<close>

lemma recv_requests_ok:
  assumes "\<forall>r\<in>set rs. req_cid r < ME_MAX_NUM_CLIENTS"
    and "length (pending_client_requests (fifo_sequencer os)) + length rs \<le> ME_MAX_PENDING_REQUESTS"
  shows "\<exists>os'. recv_requests os s rx rs = Inr os'"
  using assms
proof (induction rs arbitrary: os)
  case (Cons r rs)
  then obtain os1 where os1: "recv_request os s rx r = Inr os1"
    using recv_request_ok [of r os s rx] by auto
  have "length (pending_client_requests (fifo_sequencer os1)) \<le> length (pending_client_requests (fifo_sequencer os)) + 1"
    using recv_request_Inr(4) [OF os1] by simp
  with Cons.IH [of os1] Cons.prems os1 show ?case by simp
qed simp


lemma recv_requests_sockets: "recv_requests os s rx rs = Inr os' \<Longrightarrow> os_sockets os' = os_sockets os"
  by (induction rs arbitrary: os) (auto simp: result_simps recv_request_Inr(5))

text \<open>Requests of one client that come in order over its socket are all forwarded.\<close>

lemma recv_requests_in_order:
  assumes "recv_requests os s rx rs = Inr os'" and "\<forall>r\<in>set rs. req_cid r = c"
    and "cid_tcp_socket os c \<in> {None, Some s}"
    and "map orq_seq_num rs = run_from (cid_next_exp_seq_num os c) (length rs)"
  shows "forwarded os os' s rx rs rs"
proof -
  have "pending_client_requests (fifo_sequencer os') = pending_client_requests (fifo_sequencer os) @
      map (\<lambda>r. \<lparr>recv_time = rx, rt_request = orq_me_client_request r\<rparr>) rs"
    using assms
  proof (induction rs arbitrary: os)
    case (Cons r rs)
    then obtain os1 where os1: "recv_request os s rx r = Inr os1" "recv_requests os1 s rx rs = Inr os'"
      by (auto simp: result_simps)
    note step = recv_request_Inr [OF os1(1)]
    have acc: "accepts os s r" using Cons.prems(2-4) by (simp add: accepts_def)
    have "cid_tcp_socket os1 c \<in> {None, Some s}" using step(2) Cons.prems(2,3) by auto
    moreover have "map orq_seq_num rs = run_from (cid_next_exp_seq_num os1 c) (length rs)"
      using step(3) acc Cons.prems(2,4) by simp
    ultimately show ?case using Cons.IH [OF os1(2)] Cons.prems(2) step(4) acc by simp
  qed simp
  moreover obtain acc where acc: "forwarded os os' s rx rs acc" using recv_requests_forwarded [OF assms(1)] by blast
  ultimately have "length acc = length rs" by (auto simp: forwarded_def dest: map_eq_imp_length_eq)
  moreover have "subseq acc rs" using acc by (simp add: forwarded_def)
  ultimately have "acc = rs" by (metis subseq_same_length)
  with acc show ?thesis by simp
qed

section \<open>What is sent\<close>

text \<open>The responses with their numbers: per client one more each time.\<close>

fun number :: "(nat \<Rightarrow> SeqNum) \<Rightarrow> MEClientResponse list \<Rightarrow> OMClientResponse list" where
  "number n [] = []"
| "number n (r # rs) =
     (let c = unat (cr_client_id r) in
      \<lparr>ocr_seq_num = n c, ocr_me_client_response = r\<rparr> # number (n(c := n c + 1)) rs)"

abbreviation resp_cid :: "OMClientResponse \<Rightarrow> nat" where
  "resp_cid r \<equiv> unat (cr_client_id (ocr_me_client_response r))"

lemma number_responses [simp]: "map ocr_me_client_response (number n rs) = rs"
  by (induction rs arbitrary: n) (auto simp: Let_def)

lemma number_seqs:
  "map ocr_seq_num (filter (\<lambda>r. resp_cid r = c) (number n rs)) =
     run_from (n c) (length (filter (\<lambda>r. unat (cr_client_id r) = c) rs))"
  by (induction rs arbitrary: n) (auto simp: Let_def)

definition sent_to :: "OrderServer \<Rightarrow> nat \<Rightarrow> OMClientResponse list \<Rightarrow> byte list" where
  "sent_to os s rs = concat (map enc_OMClientResponse (filter (\<lambda>r. cid_tcp_socket os (resp_cid r) = Some s) rs))"

lemma enc_response_size [simp]: "length (enc_OMClientResponse r) = 50" "length (enc_MEClientResponse m) = 42"
  by (simp_all add: enc_defs)

lemma send_response_ok:
  assumes "unat (cr_client_id r) < ME_MAX_NUM_CLIENTS" and "cid_tcp_socket os (unat (cr_client_id r)) = Some s"
    and "length (tcp_outbound (os_sockets os s)) + 50 \<le> TCPBufferSize"
    and "updateReadIndex (os_outgoing_responses os) = Inr q"
  shows "send_response os r = Inr (os\<lparr>os_sockets := (os_sockets os)(s := (os_sockets os s)\<lparr>tcp_outbound :=
        tcp_outbound (os_sockets os s) @ enc_OMClientResponse
          \<lparr>ocr_seq_num = cid_next_outgoing_seq_num os (unat (cr_client_id r)), ocr_me_client_response = r\<rparr>\<rparr>),
      os_outgoing_responses := q, cid_next_outgoing_seq_num := (cid_next_outgoing_seq_num os)
        (unat (cr_client_id r) := cid_next_outgoing_seq_num os (unat (cr_client_id r)) + 1)\<rparr>)"
  using assms by (simp add: send_response_def Let_def tcp_send_ok enc_OMClientResponse_def)

text \<open>The parts of the server that sending leaves alone.\<close>

definition same_receiving :: "OrderServer \<Rightarrow> OrderServer \<Rightarrow> bool" where
  "same_receiving os os' \<longleftrightarrow> os_incoming_requests os' = os_incoming_requests os \<and> cid_tcp_socket os' = cid_tcp_socket os \<and>
     cid_next_exp_seq_num os' = cid_next_exp_seq_num os \<and> receive_sockets os' = receive_sockets os \<and>
     send_sockets os' = send_sockets os \<and> fifo_sequencer os' = fifo_sequencer os"

text \<open>The server after the loop over the responses \<open>rs\<close>.\<close>

definition responses_sent :: "OrderServer \<Rightarrow> MEClientResponse list \<Rightarrow> OrderServer \<Rightarrow> bool" where
  "responses_sent os rs os' \<longleftrightarrow> same_receiving os os' \<and>
     q_inv (os_outgoing_responses os') \<and> q_contents (os_outgoing_responses os') = [] \<and>
     q_capacity (os_outgoing_responses os') = q_capacity (os_outgoing_responses os) \<and>
     (\<forall>c. cid_next_outgoing_seq_num os' c =
       cid_next_outgoing_seq_num os c + of_nat (length (filter (\<lambda>r. unat (cr_client_id r) = c) rs))) \<and>
     (\<forall>x. os_sockets os' x = (os_sockets os x)\<lparr>tcp_outbound := tcp_outbound (os_sockets os x) @
       sent_to os x (number (cid_next_outgoing_seq_num os) rs)\<rparr>)"

text \<open>One response appended to the buffer of its client's socket.\<close>

definition response_appended :: "OrderServer \<Rightarrow> nat \<Rightarrow> MEClientResponse \<Rightarrow> ClientResponseLFQueue \<Rightarrow> OrderServer" where
  "response_appended os s r q = os\<lparr>os_sockets := (os_sockets os)(s := (os_sockets os s)\<lparr>tcp_outbound :=
      tcp_outbound (os_sockets os s) @ enc_OMClientResponse
        \<lparr>ocr_seq_num = cid_next_outgoing_seq_num os (unat (cr_client_id r)), ocr_me_client_response = r\<rparr>\<rparr>),
    os_outgoing_responses := q, cid_next_outgoing_seq_num := (cid_next_outgoing_seq_num os)
      (unat (cr_client_id r) := cid_next_outgoing_seq_num os (unat (cr_client_id r)) + 1)\<rparr>"

lemma responses_sent_Cons:
  assumes "responses_sent (response_appended os s r q) rs os'" and "cid_tcp_socket os (unat (cr_client_id r)) = Some s"
    and "q_capacity q = q_capacity (os_outgoing_responses os)"
  shows "responses_sent os (r # rs) os'"
proof -
  have "os_sockets os' t = (os_sockets os t)\<lparr>tcp_outbound := tcp_outbound (os_sockets os t) @
      sent_to os t (number (cid_next_outgoing_seq_num os) (r # rs))\<rparr>" for t
    using assms(1,2) by (simp add: responses_sent_def response_appended_def sent_to_def Let_def)
  moreover have "cid_next_outgoing_seq_num os' c =
      cid_next_outgoing_seq_num os c + of_nat (length (filter (\<lambda>r. unat (cr_client_id r) = c) (r # rs)))" for c
    using assms(1) by (simp add: responses_sent_def response_appended_def)
  ultimately show ?thesis
    using assms(1,3) by (simp add: responses_sent_def same_receiving_def response_appended_def)
qed

lemma send_responses_exact:
  assumes "q_inv (os_outgoing_responses os)" and "q_contents (os_outgoing_responses os) = rs" and "length rs \<le> fuel"
    and "\<forall>r\<in>set rs. unat (cr_client_id r) < ME_MAX_NUM_CLIENTS \<and> cid_tcp_socket os (unat (cr_client_id r)) \<noteq> None"
    and "\<forall>x. length (tcp_outbound (os_sockets os x)) + 50 * length rs \<le> TCPBufferSize"
  shows "\<exists>os'. send_responses fuel os = Inr os' \<and> responses_sent os rs os'"
  using assms
proof (induction rs arbitrary: os fuel)
  case Nil
  then have "getNextToRead (os_outgoing_responses os) = None" by (simp add: getNextToRead_contents)
  then show ?case using Nil by (simp add: send_responses.simps sent_to_def same_receiving_def responses_sent_def)
next
  case (Cons r rs)
  have head: "getNextToRead (os_outgoing_responses os) = Some r"
    using getNextToRead_contents [OF Cons.prems(1)] Cons.prems(2) by simp
  from updateReadIndex_contents [OF Cons.prems(1,2)] obtain q where
    q: "updateReadIndex (os_outgoing_responses os) = Inr q" "q_inv q" "q_contents q = rs"
    "q_capacity q = q_capacity (os_outgoing_responses os)" by blast
  obtain s where s: "cid_tcp_socket os (unat (cr_client_id r)) = Some s" using Cons.prems(4) by auto
  define os1 where "os1 = response_appended os s r q"
  have room: "length (tcp_outbound (os_sockets os t)) + 50 + 50 * length rs \<le> TCPBufferSize" for t
    using Cons.prems(5) by (simp add: algebra_simps)
  have step: "send_response os r = Inr os1"
    using send_response_ok [OF _ s _ q(1)] Cons.prems(4) room [of s] by (simp add: os1_def response_appended_def)
  obtain fuel' where fuel: "fuel = Suc fuel'" "length rs \<le> fuel'" using Cons.prems(3) by (cases fuel) auto
  have loop: "send_responses fuel os = send_responses fuel' os1"
    using head step fuel by (subst send_responses.simps) simp
  have "\<exists>os'. send_responses fuel' os1 = Inr os' \<and> responses_sent os1 rs os'"
  proof (rule Cons.IH)
    show "\<forall>t. length (tcp_outbound (os_sockets os1 t)) + 50 * length rs \<le> TCPBufferSize"
    proof
      show "length (tcp_outbound (os_sockets os1 t)) + 50 * length rs \<le> TCPBufferSize" for t
        using room [of t] room [of s] by (simp add: os1_def response_appended_def)
    qed
  qed (use q fuel(2) Cons.prems(4) in \<open>simp_all add: os1_def response_appended_def\<close>)
  then show ?case using responses_sent_Cons [OF _ s q(4)] loop unfolding os1_def by auto
qed


section \<open>Properties\<close>

definition requests_buffer :: "OrderServer \<Rightarrow> nat \<Rightarrow> OMClientRequest list \<Rightarrow> byte list \<Rightarrow> bool" where
  "requests_buffer os s rs rest \<longleftrightarrow>
     tcp_inbound (os_sockets os s) = concat (map enc_OMClientRequest rs) @ rest \<and>
     length rest < sizeof_OMClientRequest \<and>
     (\<forall>r\<in>set rs. price_ok (rq_price (orq_me_client_request r)) \<and> req_cid r < ME_MAX_NUM_CLIENTS) \<and>
     length (pending_client_requests (fifo_sequencer os)) + length rs \<le> ME_MAX_PENDING_REQUESTS"

lemma os_recvCallback_ok:
  assumes "requests_buffer os s rs rest"
  shows "\<exists>os1 os'. recv_requests os s rx rs = Inr os1 \<and> os_recvCallback os s rx = Inr os' \<and>
    os_sockets os' = (os_sockets os)(s := (os_sockets os s)\<lparr>tcp_inbound := rest\<rparr>) \<and>
    (\<forall>acc. forwarded os os' s rx rs acc \<longleftrightarrow> forwarded os os1 s rx rs acc)"
proof -
  note b = assms [unfolded requests_buffer_def]
  obtain os1 where os1: "recv_requests os s rx rs = Inr os1"
    using recv_requests_ok [of rs os s rx] b by auto
  have socks: "os_sockets os1 = os_sockets os" by (rule recv_requests_sockets [OF os1])
  have fr: "frames sizeof_OMClientRequest dec_OMClientRequest (concat (map enc_OMClientRequest rs) @ rest) = (rs, rest)"
    using request_codec.frames_enc [of rs rest] b by auto
  show ?thesis
  proof (cases rs)
    case Nil
    then have "os_recvCallback os s rx = Inr os" using b by (simp add: os_recvCallback_def)
    moreover have "os_sockets os = (os_sockets os)(s := (os_sockets os s)\<lparr>tcp_inbound := rest\<rparr>)"
      using b Nil by (simp add: fun_upd_idem)
    ultimately show ?thesis using os1 Nil by auto
  next
    case (Cons r rs')
    then have "\<not> length (concat (map enc_OMClientRequest rs) @ rest) < sizeof_OMClientRequest"
      using request_codec.enc_size [of r] by simp
    then have "os_recvCallback os s rx = Inr (os1\<lparr>os_sockets := (os_sockets os)(s := (os_sockets os s)\<lparr>tcp_inbound := rest\<rparr>)\<rparr>)"
      using b fr os1 socks by (simp add: os_recvCallback_def not_less)
    then show ?thesis using os1 by (auto simp: forwarded_def)
  qed
qed

text \<open>C29: Reading requests. When a read has filled the buffer of a socket with any sequence of
  requests and part of another one, the callback returns, keeps exactly that part, and forwards to
  the sequencer a subsequence of the requests in which the requests of each client are numbered
  consecutively from the number expected, which advances by their number; a client stays bound to
  the socket it was first seen on, and only that socket's requests are forwarded.\<close>

theorem requests_in_sequence:
  assumes "requests_buffer os s rs rest"
  shows "\<exists>os' acc. os_recvCallback os s rx = Inr os' \<and> tcp_inbound (os_sockets os' s) = rest \<and>
    subseq acc rs \<and>
    pending_client_requests (fifo_sequencer os') = pending_client_requests (fifo_sequencer os) @
      map (\<lambda>r. \<lparr>recv_time = rx, rt_request = orq_me_client_request r\<rparr>) acc \<and>
    (\<forall>c. seqs_of c acc = run_from (cid_next_exp_seq_num os c) (length (seqs_of c acc)) \<and>
       cid_next_exp_seq_num os' c = cid_next_exp_seq_num os c + of_nat (length (seqs_of c acc))) \<and>
    (\<forall>r\<in>set acc. cid_tcp_socket os' (req_cid r) = Some s) \<and>
    (\<forall>c t. cid_tcp_socket os c = Some t \<longrightarrow> cid_tcp_socket os' c = Some t)"
proof -
  from os_recvCallback_ok [OF assms, of rx] obtain os1 os' where
    r: "recv_requests os s rx rs = Inr os1" "os_recvCallback os s rx = Inr os'"
    "os_sockets os' = (os_sockets os)(s := (os_sockets os s)\<lparr>tcp_inbound := rest\<rparr>)"
    "\<And>acc. forwarded os os' s rx rs acc \<longleftrightarrow> forwarded os os1 s rx rs acc" by blast
  from recv_requests_forwarded [OF r(1)] r(4) obtain acc where "forwarded os os' s rx rs acc" by blast
  then show ?thesis using r(2,3) unfolding forwarded_def by auto
qed

definition demo_om_request :: "SeqNum \<Rightarrow> OMClientRequest" where
  "demo_om_request n = \<lparr>orq_seq_num = n, orq_me_client_request =
     \<lparr>rq_type = Request_NEW, rq_client_id = 3, rq_ticker_id = 1, rq_order_id = n, rq_side = BUY,
      rq_price = 100, rq_qty = 10\<rparr>\<rparr>"

definition demo_server :: "OMClientRequest list \<Rightarrow> OrderServer" where
  "demo_server rs = (OrderServer_new 0 (LFQueue_new 4 MEClientRequest_default) (LFQueue_new 4 MEClientResponse_default))
     \<lparr>os_sockets := (\<lambda>_. TCPSocket_new)(5 := TCPSocket_new\<lparr>tcp_inbound := concat (map enc_OMClientRequest rs) @ [1, 2]\<rparr>)\<rparr>"

lemma demo_buffer: "requests_buffer (demo_server (map demo_om_request ns)) 5 (map demo_om_request ns) [1, 2]"
  if "length ns \<le> 10"
  using that by (auto simp: requests_buffer_def demo_server_def demo_om_request_def OrderServer_new_def
      FIFOSequencer_new_def price_ok_def ME_MAX_NUM_CLIENTS_def ME_MAX_PENDING_REQUESTS_def sizeof_OMClientRequest_def)

theorem requests_in_sequence_witness:
  "requests_buffer (demo_server (map demo_om_request [2, 1])) 5 (map demo_om_request [2, 1]) [1, 2] \<and>
   (\<exists>os'. os_recvCallback (demo_server (map demo_om_request [2, 1])) 5 77 = Inr os' \<and>
     tcp_inbound (os_sockets os' 5) = [1, 2])"
  using requests_in_sequence [OF demo_buffer [of "[2, 1]"], of 77] demo_buffer [of "[2, 1]"] by fastforce

text \<open>Nothing is lost in order. The requests of one client that arrive over its socket with the
  numbers expected are all forwarded, in their order, and the number expected moves past the last
  of them.\<close>

theorem requests_all_forwarded:
  assumes "requests_buffer os s rs rest" and "\<forall>r\<in>set rs. req_cid r = c"
    and "cid_tcp_socket os c \<in> {None, Some s}"
    and "map orq_seq_num rs = run_from (cid_next_exp_seq_num os c) (length rs)"
  shows "\<exists>os'. os_recvCallback os s rx = Inr os' \<and>
    pending_client_requests (fifo_sequencer os') = pending_client_requests (fifo_sequencer os) @
      map (\<lambda>r. \<lparr>recv_time = rx, rt_request = orq_me_client_request r\<rparr>) rs \<and>
    cid_next_exp_seq_num os' c = cid_next_exp_seq_num os c + of_nat (length rs)"
proof -
  from os_recvCallback_ok [OF assms(1), of rx] obtain os1 os' where
    r: "recv_requests os s rx rs = Inr os1" "os_recvCallback os s rx = Inr os'"
    "\<And>acc. forwarded os os' s rx rs acc \<longleftrightarrow> forwarded os os1 s rx rs acc" by blast
  have "forwarded os os' s rx rs rs" using recv_requests_in_order [OF r(1) assms(2-4)] r(3) by blast
  moreover have "length (seqs_of c rs) = length rs" using assms(2) by (simp add: seqs_of_def filter_id_conv)
  ultimately show ?thesis using r(2) by (auto simp: forwarded_def)
qed

theorem requests_all_forwarded_witness:
  "\<exists>os'. os_recvCallback (demo_server (map demo_om_request [1, 2])) 5 77 = Inr os' \<and>
     map (rq_order_id \<circ> rt_request) (pending_client_requests (fifo_sequencer os')) = [1, 2] \<and>
     cid_next_exp_seq_num os' 3 = 3"
proof -
  have "map orq_seq_num (map demo_om_request [1, 2]) =
      run_from (cid_next_exp_seq_num (demo_server (map demo_om_request [1, 2])) 3) (length (map demo_om_request [1, 2]))"
    by (simp add: demo_om_request_def demo_server_def OrderServer_new_def numeral_2_eq_2)
  from requests_all_forwarded [OF demo_buffer [of "[1, 2]"] _ _ this, of 77]
  show ?thesis by (auto simp: demo_om_request_def demo_server_def OrderServer_new_def FIFOSequencer_new_def)
qed

text \<open>C30: Sending responses. The loop of the order server over the waiting responses ends, empties the
  queue, and appends to the buffer of every socket the encoded responses of the clients bound to
  it, in their order, each with the next sequence number of its client, so that a client sees the
  numbers from its counter on without a gap.\<close>

theorem responses_numbered:
  assumes "q_inv (os_outgoing_responses os)"
    and "\<forall>r\<in>set (q_contents (os_outgoing_responses os)). unat (cr_client_id r) < ME_MAX_NUM_CLIENTS \<and>
      cid_tcp_socket os (unat (cr_client_id r)) \<noteq> None"
    and "\<forall>s. length (tcp_outbound (os_sockets os s)) + 50 * q_length (os_outgoing_responses os) \<le> TCPBufferSize"
  shows "\<exists>os' ms. send_responses (q_length (os_outgoing_responses os)) os = Inr os' \<and>
    q_contents (os_outgoing_responses os') = [] \<and>
    map ocr_me_client_response ms = q_contents (os_outgoing_responses os) \<and>
    (\<forall>c. let mine = filter (\<lambda>m. resp_cid m = c) ms
         in map ocr_seq_num mine = run_from (cid_next_outgoing_seq_num os c) (length mine)) \<and>
    (\<forall>s. tcp_outbound (os_sockets os' s) = tcp_outbound (os_sockets os s) @
      concat (map enc_OMClientResponse (filter (\<lambda>m. cid_tcp_socket os (resp_cid m) = Some s) ms)))"
proof -
  let ?rs = "q_contents (os_outgoing_responses os)"
  let ?ms = "number (cid_next_outgoing_seq_num os) ?rs"
  obtain os' where "send_responses (q_length (os_outgoing_responses os)) os = Inr os'"
    "q_contents (os_outgoing_responses os') = []"
    "\<forall>s. tcp_outbound (os_sockets os' s) = tcp_outbound (os_sockets os s) @ sent_to os s ?ms"
    using send_responses_exact [OF assms(1) refl, of "q_length (os_outgoing_responses os)"] assms by (auto simp: responses_sent_def)
  moreover have "length (filter (\<lambda>m. resp_cid m = c) ?ms) = length (filter (\<lambda>r. unat (cr_client_id r) = c) ?rs)" for c
    using arg_cong [OF number_seqs [of c "cid_next_outgoing_seq_num os" ?rs], of length] by simp
  ultimately show ?thesis
    using number_seqs number_responses
    by (intro exI [of _ os'] exI [of _ ?ms]) (auto simp: sent_to_def Let_def)
qed

definition demo_responses :: OrderServer where
  "demo_responses = (OrderServer_new 0 (LFQueue_new 4 MEClientRequest_default)
       (q_push (LFQueue_new 4 MEClientResponse_default) (MEClientResponse_default\<lparr>cr_client_id := 3\<rparr>)))
     \<lparr>cid_tcp_socket := [3 \<mapsto> 5]\<rparr>"

theorem responses_numbered_witness:
  "\<exists>os'. send_responses 1 demo_responses = Inr os' \<and> q_contents (os_outgoing_responses os') = [] \<and>
     length (tcp_outbound (os_sockets os' 5)) = 50"
proof -
  let ?q = "os_outgoing_responses demo_responses"
  have inv: "q_inv ?q" and c: "q_contents ?q = [MEClientResponse_default\<lparr>cr_client_id := 3\<rparr>]"
    using q_inv_push [OF q_inv_new [of 4]] q_contents_push [OF q_inv_new [of 4]]
    by (simp_all add: demo_responses_def OrderServer_new_def)
  have one: "q_length ?q = 1" using c by (metis length_q_contents length_Cons list.size(3) One_nat_def)
  have "\<forall>r\<in>set (q_contents ?q). unat (cr_client_id r) < ME_MAX_NUM_CLIENTS \<and>
      cid_tcp_socket demo_responses (unat (cr_client_id r)) \<noteq> None"
    unfolding c by (simp add: demo_responses_def ME_MAX_NUM_CLIENTS_def)
  moreover have out: "tcp_outbound (os_sockets demo_responses s) = []" for s
    by (simp add: demo_responses_def OrderServer_new_def TCPSocket_new_def)
  then have "\<forall>s. length (tcp_outbound (os_sockets demo_responses s)) + 50 * q_length ?q \<le> TCPBufferSize"
    using one by (simp add: TCPBufferSize_def)
  ultimately obtain os' ms where r: "send_responses 1 demo_responses = Inr os'"
    "q_contents (os_outgoing_responses os') = []" "map ocr_me_client_response ms = q_contents ?q"
    "tcp_outbound (os_sockets os' 5) =
      concat (map enc_OMClientResponse (filter (\<lambda>m. cid_tcp_socket demo_responses (resp_cid m) = Some 5) ms))"
    using responses_numbered [OF inv] one out by fastforce
  from r(3) c obtain m where "ms = [m]" "ocr_me_client_response m = MEClientResponse_default\<lparr>cr_client_id := 3\<rparr>" by auto
  then show ?thesis using r by (simp add: demo_responses_def)
qed

end
