(* ===== verification/Order_Gateway.thy ===== *)
theory Order_Gateway
  imports Order_Server
begin

text \<open>
  The order gateway of \<^verbatim>\<open>src/trading/order_gw/order_gateway.h\<close> and
  \<^verbatim>\<open>order_gateway.cpp\<close>: it numbers the client's requests and sends them to the exchange, and
  passes the responses of the exchange on to the trade engine. The last part joins it to the order
  server.
\<close>

section \<open>The class\<close>

record OrderGateway =
  og_client_id :: ClientId
  outgoing_requests :: ClientRequestLFQueue
  incoming_responses :: ClientResponseLFQueue
  og_run :: bool
  next_outgoing_seq_num :: SeqNum
  next_exp_seq_num :: SeqNum
  og_socket :: TCPSocket

definition OrderGateway_new :: "ClientId \<Rightarrow> ClientRequestLFQueue \<Rightarrow> ClientResponseLFQueue \<Rightarrow> OrderGateway" where
  "OrderGateway_new client_id client_requests client_responses =
     \<lparr>og_client_id = client_id, outgoing_requests = client_requests, incoming_responses = client_responses,
      og_run = False, next_outgoing_seq_num = 1, next_exp_seq_num = 1, og_socket = TCPSocket_new\<rparr>"

definition og_start :: "bool \<Rightarrow> OrderGateway \<Rightarrow> OrderGateway result" where
  "og_start connects og =
     (let og1 = og\<lparr>og_run := True\<rparr> in
      andThen (ASSERT connects ''Unable to connect'') (\<lambda>_. Inr og1))"

definition og_stop :: "OrderGateway \<Rightarrow> OrderGateway" where
  "og_stop og = og\<lparr>og_run := False\<rparr>"

text \<open>The body of the loop of \<^verbatim>\<open>recvCallback\<close>, and the callback.\<close>

definition recv_response :: "OrderGateway \<Rightarrow> OMClientResponse \<Rightarrow> OrderGateway" where
  "recv_response og response =
     (if cr_client_id (ocr_me_client_response response) \<noteq> og_client_id og then og
      else if ocr_seq_num response \<noteq> next_exp_seq_num og then og
      else og\<lparr>next_exp_seq_num := next_exp_seq_num og + 1,
              incoming_responses := q_push (incoming_responses og) (ocr_me_client_response response)\<rparr>)"

definition og_recvCallback :: "TCPSocket \<Rightarrow> Nanos \<Rightarrow> OrderGateway \<Rightarrow> (TCPSocket \<times> OrderGateway) result" where
  "og_recvCallback socket rx_time og =
     (if length (tcp_inbound socket) \<ge> sizeof_OMClientResponse then
        let (responses, rest) = frames sizeof_OMClientResponse dec_OMClientResponse (tcp_inbound socket) in
        Inr (socket\<lparr>tcp_inbound := rest\<rparr>, foldl recv_response og responses)
      else Inr (socket, og))"

text \<open>The loop over the requests in \<^verbatim>\<open>run\<close>, and one turn of it.\<close>

definition send_request :: "OrderGateway \<Rightarrow> MEClientRequest \<Rightarrow> OrderGateway result" where
  "send_request og client_request =
     andThen (tcp_send (og_socket og) (word_bytes 8 (next_outgoing_seq_num og))) (\<lambda>sock1.
     andThen (tcp_send sock1 (enc_MEClientRequest client_request)) (\<lambda>sock2.
     andThen (updateReadIndex (outgoing_requests og)) (\<lambda>q.
     Inr (og\<lparr>og_socket := sock2, outgoing_requests := q,
             next_outgoing_seq_num := next_outgoing_seq_num og + 1\<rparr>))))"

fun send_requests :: "nat \<Rightarrow> OrderGateway \<Rightarrow> OrderGateway result" where
  "send_requests fuel og =
     (case getNextToRead (outgoing_requests og) of
        None \<Rightarrow> Inr og
      | Some client_request \<Rightarrow>
          if fuel = 0 then Inl Diverges
          else andThen (send_request og client_request) (send_requests (fuel - 1)))"

declare send_requests.simps [simp del]

definition og_run_step :: "(byte list \<times> Nanos) option \<Rightarrow> nat \<Rightarrow> OrderGateway \<Rightarrow> (OrderGateway \<times> byte list) result" where
  "og_run_step read taken og =
     andThen (tcp_sendAndRecv og_recvCallback read taken (og_socket og) og) (\<lambda>(sock, og1, _, sent).
     andThen (send_requests (q_length (outgoing_requests og1)) (og1\<lparr>og_socket := sock\<rparr>)) (\<lambda>og2.
     Inr (og2, sent)))"

section \<open>Responses\<close>

text \<open>The responses that are passed on: the client's own, with the numbers expected.\<close>

fun passed :: "ClientId \<Rightarrow> SeqNum \<Rightarrow> OMClientResponse list \<Rightarrow> OMClientResponse list" where
  "passed c n [] = []"
| "passed c n (r # rs) =
     (if cr_client_id (ocr_me_client_response r) = c \<and> ocr_seq_num r = n then r # passed c (n + 1) rs else passed c n rs)"

lemma passed_subseq: "subseq (passed c n rs) rs"
  by (induction rs arbitrary: n) (simp_all add: list_emb_Cons)

lemma passed_client: "r \<in> set (passed c n rs) \<Longrightarrow> cr_client_id (ocr_me_client_response r) = c"
  by (induction rs arbitrary: n) (auto split: if_splits)

lemma passed_seqs: "map ocr_seq_num (passed c n rs) = run_from n (length (passed c n rs))"
  by (induction rs arbitrary: n) simp_all

lemma passed_own:
  assumes "map ocr_seq_num (filter (\<lambda>r. cr_client_id (ocr_me_client_response r) = c) rs) =
    run_from n (length (filter (\<lambda>r. cr_client_id (ocr_me_client_response r) = c) rs))"
  shows "passed c n rs = filter (\<lambda>r. cr_client_id (ocr_me_client_response r) = c) rs"
  using assms by (induction rs arbitrary: n) (auto split: if_splits)

lemma passed_all:
  assumes "\<forall>r\<in>set rs. cr_client_id (ocr_me_client_response r) = c" and "map ocr_seq_num rs = run_from n (length rs)"
  shows "passed c n rs = rs"
  using passed_own [of c rs n] assms by (simp add: filter_True)

lemma passed_first:
  "r \<in> set rs \<Longrightarrow> cr_client_id (ocr_me_client_response r) = c \<Longrightarrow> ocr_seq_num r = n \<Longrightarrow> passed c n rs \<noteq> []"
  by (induction rs) auto

lemma recv_responses:
  "foldl recv_response og rs = og\<lparr>next_exp_seq_num := next_exp_seq_num og + of_nat (length (passed (og_client_id og) (next_exp_seq_num og) rs)),
     incoming_responses := q_pushes (incoming_responses og)
       (map ocr_me_client_response (passed (og_client_id og) (next_exp_seq_num og) rs))\<rparr>"
proof (induction rs arbitrary: og)
  case (Cons r rs)
  show ?case
  proof (cases "cr_client_id (ocr_me_client_response r) = og_client_id og \<and> ocr_seq_num r = next_exp_seq_num og")
    case True
    then have "recv_response og r = og\<lparr>next_exp_seq_num := next_exp_seq_num og + 1,
        incoming_responses := q_push (incoming_responses og) (ocr_me_client_response r)\<rparr>" by (simp add: recv_response_def)
    then show ?thesis using True Cons.IH by (simp add: q_pushes_Cons add.assoc)
  next
    case False
    then have "recv_response og r = og" by (auto simp: recv_response_def)
    then show ?thesis using False Cons.IH [of og] by auto
  qed
qed simp

section \<open>Requests\<close>

fun number_requests :: "SeqNum \<Rightarrow> MEClientRequest list \<Rightarrow> OMClientRequest list" where
  "number_requests n [] = []"
| "number_requests n (r # rs) = \<lparr>orq_seq_num = n, orq_me_client_request = r\<rparr> # number_requests (n + 1) rs"

lemma number_requests_facts [simp]:
  "length (number_requests n rs) = length rs" "map orq_me_client_request (number_requests n rs) = rs"
  "map orq_seq_num (number_requests n rs) = run_from n (length rs)"
  by (induction rs arbitrary: n) auto

lemma number_requests_mem: "m \<in> set (number_requests n rs) \<Longrightarrow> orq_me_client_request m \<in> set rs"
  by (induction rs arbitrary: n) auto

lemma enc_request_size [simp]: "length (enc_OMClientRequest r) = 38" "length (enc_MEClientRequest m) = 30"
  by (simp_all add: enc_defs)

lemma send_requests_exact:
  assumes "q_inv (outgoing_requests og)" and "q_contents (outgoing_requests og) = rs" and "length rs \<le> fuel"
    and "length (tcp_outbound (og_socket og)) + 38 * length rs \<le> TCPBufferSize"
  shows "\<exists>q. send_requests fuel og = Inr (og\<lparr>og_socket := (og_socket og)\<lparr>tcp_outbound := tcp_outbound (og_socket og) @
        concat (map enc_OMClientRequest (number_requests (next_outgoing_seq_num og) rs))\<rparr>,
      outgoing_requests := q, next_outgoing_seq_num := next_outgoing_seq_num og + of_nat (length rs)\<rparr>) \<and>
    q_inv q \<and> q_contents q = [] \<and> q_capacity q = q_capacity (outgoing_requests og)"
  using assms
proof (induction rs arbitrary: og fuel)
  case Nil
  then have "getNextToRead (outgoing_requests og) = None" by (simp add: getNextToRead_contents)
  then show ?case using Nil by (intro exI [of _ "outgoing_requests og"]) (simp add: send_requests.simps)
next
  case (Cons r rs)
  have head: "getNextToRead (outgoing_requests og) = Some r"
    using getNextToRead_contents [OF Cons.prems(1)] Cons.prems(2) by simp
  from updateReadIndex_contents [OF Cons.prems(1,2)] obtain q where
    q: "updateReadIndex (outgoing_requests og) = Inr q" "q_inv q" "q_contents q = rs"
    "q_capacity q = q_capacity (outgoing_requests og)" by blast
  obtain fuel' where fuel: "fuel = Suc fuel'" "length rs \<le> fuel'" using Cons.prems(3) by (cases fuel) auto
  define og1 where "og1 = og\<lparr>og_socket := (og_socket og)\<lparr>tcp_outbound := tcp_outbound (og_socket og) @
      enc_OMClientRequest \<lparr>orq_seq_num = next_outgoing_seq_num og, orq_me_client_request = r\<rparr>\<rparr>,
    outgoing_requests := q, next_outgoing_seq_num := next_outgoing_seq_num og + 1\<rparr>"
  have "send_request og r = Inr og1"
    using Cons.prems(4) q(1) by (simp add: og1_def send_request_def tcp_send_ok enc_OMClientRequest_def)
  then have loop: "send_requests fuel og = send_requests fuel' og1"
    using head fuel by (subst send_requests.simps) simp
  have "length (tcp_outbound (og_socket og1)) + 38 * length rs \<le> TCPBufferSize" using Cons.prems(4) by (simp add: og1_def)
  from Cons.IH [OF _ _ fuel(2) this] q loop show ?case by (simp add: og1_def add.assoc)
qed

section \<open>Properties\<close>

text \<open>C39: Responses at the client. From the bytes of any sequence of responses, followed by a part of one
  more, the gateway passes on to the trade engine, in their order, a subsequence of the responses: only those of its
  own client, numbered consecutively from the number it expects, and the expected number moves on past
  them. If its own responses among them are numbered without a gap from that number, it passes on exactly its own,
  whatever others are between them. The first own response with the expected number is never
  dropped. What is left of an incomplete response stays in the buffer.\<close>

theorem gateway_responses:
  assumes "tcp_inbound sock = concat (map enc_OMClientResponse rs) @ rest" and "length rest < sizeof_OMClientResponse"
    and "\<forall>r\<in>set rs. price_ok (cr_price (ocr_me_client_response r))"
  shows "\<exists>og' acc. og_recvCallback sock t og = Inr (sock\<lparr>tcp_inbound := rest\<rparr>, og') \<and> subseq acc rs \<and>
    incoming_responses og' = q_pushes (incoming_responses og) (map ocr_me_client_response acc) \<and>
    (\<forall>r\<in>set acc. cr_client_id (ocr_me_client_response r) = og_client_id og) \<and>
    map ocr_seq_num acc = run_from (next_exp_seq_num og) (length acc) \<and>
    next_exp_seq_num og' = next_exp_seq_num og + of_nat (length acc) \<and>
    (let own = filter (\<lambda>r. cr_client_id (ocr_me_client_response r) = og_client_id og) rs in
       (map ocr_seq_num own = run_from (next_exp_seq_num og) (length own) \<longrightarrow> acc = own) \<and>
       (\<forall>r\<in>set own. ocr_seq_num r = next_exp_seq_num og \<longrightarrow> acc \<noteq> []))"
proof -
  define acc where "acc = passed (og_client_id og) (next_exp_seq_num og) rs"
  let ?own = "filter (\<lambda>r. cr_client_id (ocr_me_client_response r) = og_client_id og) rs"
  have "og_recvCallback sock t og = Inr (sock\<lparr>tcp_inbound := rest\<rparr>, foldl recv_response og rs)"
  proof (cases "rs = []")
    case True
    then show ?thesis using assms by (cases sock) (simp add: og_recvCallback_def)
  next
    case False
    then have "\<not> length (tcp_inbound sock) < sizeof_OMClientResponse"
      using assms(1) response_codec.enc_size [of "hd rs"] by (cases rs) auto
    moreover have "frames sizeof_OMClientResponse dec_OMClientResponse (tcp_inbound sock) = (rs, rest)"
      using response_codec.frames_enc [of rs rest] assms by simp
    ultimately show ?thesis by (simp add: og_recvCallback_def)
  qed
  then have r: "og_recvCallback sock t og = Inr (sock\<lparr>tcp_inbound := rest\<rparr>,
      og\<lparr>next_exp_seq_num := next_exp_seq_num og + of_nat (length acc),
        incoming_responses := q_pushes (incoming_responses og) (map ocr_me_client_response acc)\<rparr>)"
    by (simp only: recv_responses acc_def)
  have sub: "subseq acc rs" "map ocr_seq_num acc = run_from (next_exp_seq_num og) (length acc)"
    unfolding acc_def by (rule passed_subseq, rule passed_seqs)
  have client: "\<forall>r\<in>set acc. cr_client_id (ocr_me_client_response r) = og_client_id og"
    unfolding acc_def using passed_client by blast
  have own: "map ocr_seq_num ?own = run_from (next_exp_seq_num og) (length ?own) \<longrightarrow> acc = ?own"
    unfolding acc_def using passed_own by blast
  have first: "\<forall>r\<in>set ?own. ocr_seq_num r = next_exp_seq_num og \<longrightarrow> acc \<noteq> []"
  proof (intro ballI impI)
    fix r assume "r \<in> set ?own" and n: "ocr_seq_num r = next_exp_seq_num og"
    then have "r \<in> set rs" "cr_client_id (ocr_me_client_response r) = og_client_id og" by simp_all
    then show "acc \<noteq> []" unfolding acc_def using n by (rule passed_first)
  qed
  show ?thesis
    unfolding Let_def
    by (rule exI, rule exI [of _ acc], intro conjI, rule r, rule sub(1), simp, rule client, rule sub(2), simp, rule own, rule first)
qed

definition demo_response :: "SeqNum \<Rightarrow> OMClientResponse" where
  "demo_response n = \<lparr>ocr_seq_num = n, ocr_me_client_response = MEClientResponse_default\<lparr>cr_client_id := 3\<rparr>\<rparr>"

definition demo_gateway :: "MEClientRequest list \<Rightarrow> OrderGateway" where
  "demo_gateway rs = OrderGateway_new 3 (q_pushes (LFQueue_new 4 MEClientRequest_default) rs) (LFQueue_new 4 MEClientResponse_default)"

text \<open>Two responses of the client with one of another client between them, and the first byte of a next one.\<close>

definition demo_other :: OMClientResponse where
  "demo_other = \<lparr>ocr_seq_num = 5, ocr_me_client_response = MEClientResponse_default\<lparr>cr_client_id := 4\<rparr>\<rparr>"

theorem gateway_responses_witness:
  "\<exists>og'. og_recvCallback (TCPSocket_new\<lparr>tcp_inbound := concat (map enc_OMClientResponse
        [demo_response 1, demo_other, demo_response 2]) @ [9]\<rparr>) 7 (demo_gateway []) =
      Inr (TCPSocket_new\<lparr>tcp_inbound := [9]\<rparr>, og') \<and> next_exp_seq_num og' = 3 \<and>
    incoming_responses og' = q_pushes (incoming_responses (demo_gateway []))
      (map ocr_me_client_response [demo_response 1, demo_response 2])"
proof -
  let ?rs = "[demo_response 1, demo_other, demo_response 2]"
  let ?sock = "TCPSocket_new\<lparr>tcp_inbound := concat (map enc_OMClientResponse ?rs) @ [9]\<rparr>"
  have "tcp_inbound ?sock = concat (map enc_OMClientResponse ?rs) @ [9]" by simp
  moreover have "length [9 :: byte] < sizeof_OMClientResponse" by (simp add: sizeof_OMClientResponse_def)
  moreover have "\<forall>r\<in>set ?rs. price_ok (cr_price (ocr_me_client_response r))"
    by (simp add: demo_response_def demo_other_def MEClientResponse_default_def Price_INVALID_def price_ok_def)
  ultimately obtain og' acc where w: "og_recvCallback ?sock 7 (demo_gateway []) = Inr (?sock\<lparr>tcp_inbound := [9]\<rparr>, og')"
    "incoming_responses og' = q_pushes (incoming_responses (demo_gateway [])) (map ocr_me_client_response acc)"
    "next_exp_seq_num og' = next_exp_seq_num (demo_gateway []) + of_nat (length acc)"
    "let own = filter (\<lambda>r. cr_client_id (ocr_me_client_response r) = og_client_id (demo_gateway [])) ?rs in
       (map ocr_seq_num own = run_from (next_exp_seq_num (demo_gateway [])) (length own) \<longrightarrow> acc = own) \<and>
       (\<forall>r\<in>set own. ocr_seq_num r = next_exp_seq_num (demo_gateway []) \<longrightarrow> acc \<noteq> [])"
    using gateway_responses [of ?sock ?rs "[9]" 7 "demo_gateway []"] by blast
  have g: "og_client_id (demo_gateway []) = 3" "next_exp_seq_num (demo_gateway []) = 1"
    by (simp_all add: demo_gateway_def OrderGateway_new_def)
  have own: "filter (\<lambda>r. cr_client_id (ocr_me_client_response r) = 3) ?rs = [demo_response 1, demo_response 2]"
    by (simp add: demo_response_def demo_other_def)
  have seqs: "ocr_seq_num (demo_response n) = n" for n by (simp add: demo_response_def)
  have "acc = [demo_response 1, demo_response 2]" using w(4) unfolding Let_def g own using seqs by simp
  with w(1-3) g show ?thesis by (intro exI [of _ og']) simp
qed

text \<open>The order path, end to end. When the gateway of a client has written its waiting requests
  and the bytes arrive at the order server over the client's socket, whose next expected number is
  the gateway's next number, then all of the requests are forwarded to the sequencer, once each and
  in the order in which the trade engine wrote them, and the two numbers agree again.\<close>

theorem order_path:
  assumes "q_inv (outgoing_requests og)" and "q_contents (outgoing_requests og) = rs"
    and "tcp_outbound (og_socket og) = []" and "38 * length rs \<le> TCPBufferSize"
    and "\<forall>r\<in>set rs. rq_client_id r = og_client_id og \<and> price_ok (rq_price r)"
    and "unat (og_client_id og) < ME_MAX_NUM_CLIENTS"
    and "tcp_inbound (os_sockets os s) = []" and "cid_tcp_socket os (unat (og_client_id og)) \<in> {None, Some s}"
    and "cid_next_exp_seq_num os (unat (og_client_id og)) = next_outgoing_seq_num og"
    and "length (pending_client_requests (fifo_sequencer os)) + length rs \<le> ME_MAX_PENDING_REQUESTS"
  shows "\<exists>og' os'. send_requests (q_length (outgoing_requests og)) og = Inr og' \<and>
    os_recvCallback (os\<lparr>os_sockets := (os_sockets os)(s := (os_sockets os s)\<lparr>tcp_inbound := tcp_outbound (og_socket og')\<rparr>)\<rparr>) s t = Inr os' \<and>
    map rt_request (pending_client_requests (fifo_sequencer os')) =
      map rt_request (pending_client_requests (fifo_sequencer os)) @ rs \<and>
    cid_next_exp_seq_num os' (unat (og_client_id og)) = next_outgoing_seq_num og'"
proof -
  let ?ms = "number_requests (next_outgoing_seq_num og) rs" and ?c = "unat (og_client_id og)"
  have len: "length rs \<le> q_length (outgoing_requests og)" using assms(2) length_q_contents by (metis order_refl)
  from send_requests_exact [OF assms(1,2) len] assms(3,4) obtain og' where
    og': "send_requests (q_length (outgoing_requests og)) og = Inr og'"
    "next_outgoing_seq_num og' = next_outgoing_seq_num og + of_nat (length rs)"
    "tcp_outbound (og_socket og') = concat (map enc_OMClientRequest ?ms)" by auto
  let ?os = "os\<lparr>os_sockets := (os_sockets os)(s := (os_sockets os s)\<lparr>tcp_inbound := tcp_outbound (og_socket og')\<rparr>)\<rparr>"
  have mem: "\<forall>m\<in>set ?ms. rq_client_id (orq_me_client_request m) = og_client_id og \<and> price_ok (rq_price (orq_me_client_request m))"
    using assms(5) number_requests_mem by blast
  then have buf: "requests_buffer ?os s ?ms []"
    using og'(3) assms(6,10) by (simp add: requests_buffer_def sizeof_OMClientRequest_def)
  from os_recvCallback_ok [OF buf, of t] obtain os1 os' where
    r: "recv_requests ?os s t ?ms = Inr os1" "os_recvCallback ?os s t = Inr os'"
    "\<And>acc. forwarded ?os os' s t ?ms acc \<longleftrightarrow> forwarded ?os os1 s t ?ms acc" by blast
  have "forwarded ?os os' s t ?ms ?ms"
    using recv_requests_in_order [OF r(1), of ?c] mem assms(8,9) r(3) by simp
  moreover have "length (seqs_of ?c ?ms) = length rs"
    using mem by (simp add: seqs_of_def filter_id_conv)
  ultimately have "pending_client_requests (fifo_sequencer os') = pending_client_requests (fifo_sequencer os) @
      map (\<lambda>r. \<lparr>recv_time = t, rt_request = orq_me_client_request r\<rparr>) ?ms"
    "cid_next_exp_seq_num os' ?c = next_outgoing_seq_num og'"
    using assms(9) og'(2) by (simp_all add: forwarded_def)
  moreover have "map (rt_request \<circ> (\<lambda>r. \<lparr>recv_time = t, rt_request = orq_me_client_request r\<rparr>)) ?ms = rs"
    by (simp add: comp_def)
  ultimately show ?thesis using og'(1) r(2) by simp
qed

theorem order_path_witness:
  "\<exists>og' os'. send_requests 1 (demo_gateway [orq_me_client_request (demo_om_request 1)]) = Inr og' \<and>
    os_recvCallback ((demo_server [])\<lparr>os_sockets := (os_sockets (demo_server []))(4 := (os_sockets (demo_server []) 4)
      \<lparr>tcp_inbound := tcp_outbound (og_socket og')\<rparr>)\<rparr>) 4 77 = Inr os' \<and>
    map rt_request (pending_client_requests (fifo_sequencer os')) = [orq_me_client_request (demo_om_request 1)]"
proof -
  let ?r = "orq_me_client_request (demo_om_request 1)"
  have q: "q_inv (outgoing_requests (demo_gateway [?r]))" "q_contents (outgoing_requests (demo_gateway [?r])) = [?r]"
    "q_length (outgoing_requests (demo_gateway [?r])) = 1"
    using q_inv_push [OF q_inv_new [of 4]] q_contents_push [OF q_inv_new [of 4]] q_length_push
    by (simp_all add: demo_gateway_def OrderGateway_new_def)
  from order_path [OF q(1,2), of "demo_server []" 4 77] q(3) show ?thesis
    by (auto simp: demo_gateway_def OrderGateway_new_def TCPSocket_new_def TCPBufferSize_def demo_om_request_def
        price_ok_def ME_MAX_NUM_CLIENTS_def demo_server_def OrderServer_new_def FIFOSequencer_new_def ME_MAX_PENDING_REQUESTS_def)
qed

end
