(* ===== verification/Request_Streams.thy ===== *)
theory Request_Streams
  imports Exchange
begin

text \<open>
  Streams of requests that the exchange can take from its start, whatever they do to each other in
  the books: the conditions of the operations of the books, which speak of the state they meet,
  follow from conditions on the stream alone.
\<close>

section \<open>What a request leaves\<close>

definition request_key :: "MEClientRequest \<Rightarrow> ClientId \<times> OrderId" where
  "request_key r = (rq_client_id r, rq_order_id r)"

text \<open>Every order of the book after a request was there before, or is the new one.\<close>

definition stems :: "abook \<Rightarrow> MEClientRequest \<Rightarrow> MEOrder \<Rightarrow> bool" where
  "stems b r x \<longleftrightarrow> (\<exists>y\<in>set (ab_orders b). me_price x = me_price y \<and> order_key x = order_key y) \<or>
     (rq_type r = Request_NEW \<and> me_price x = rq_price r \<and> order_key x = request_key r)"

lemma request_orders:
  assumes "request_ok b r"
  shows "\<forall>x\<in>set (ab_orders (fst (a_request b r))). stems b r x"
    and "length (ab_orders (fst (a_request b r))) \<le> Suc (length (ab_orders b))"
    and "unat (ab_next_id (fst (a_request b r))) \<le> Suc (unat (ab_next_id b))"
proof -
  have "(\<forall>x\<in>set (ab_orders (fst (a_request b r))). stems b r x) \<and>
    length (ab_orders (fst (a_request b r))) \<le> Suc (length (ab_orders b)) \<and>
    unat (ab_next_id (fst (a_request b r))) \<le> Suc (unat (ab_next_id b))"
  proof (cases "rq_type r = Request_NEW")
    case True
    let ?s = "rq_side r"
    have s: "?s \<in> {BUY, SELL}" using assms True by (simp add: request_ok_def add_ok_def)
    obtain ns leaves rs' us' where a: "a_match \<lparr>ag_ticker = rq_ticker_id r, ag_client = rq_client_id r, ag_order = rq_order_id r,
        ag_market = ucast (ucast (ab_next_id b) :: Qty), ag_side = ?s, ag_price = rq_price r\<rparr> (rq_qty r) (ab_side b (opp ?s)) =
      (ns, leaves, rs', us')" by (metis prod.collapse)
    define b1 where "b1 = (ab_set_side b (opp ?s) ns)\<lparr>ab_next_id := ab_next_id b + 1\<rparr>"
    define n where "n = \<lparr>me_ticker_id = rq_ticker_id r, me_client_id = rq_client_id r, me_client_order_id = rq_order_id r,
      me_market_order_id = ab_next_id b, me_side = ?s, me_price = rq_price r, me_qty = leaves,
      me_priority = a_priority (rq_price r) (ab_side b ?s), me_prev_order = None, me_next_order = None\<rparr>"
    define b' where "b' = fst (a_request b r)"
    have b': "b' = (if leaves = 0 then b1 else ab_set_side b1 ?s (a_insert ?s n (ab_side b ?s)))"
      using a_add_unfold(1) [OF a b1_def n_def] True by (simp add: a_request_def b'_def)
    note b1 = ab_after_match [OF s b1_def]
    have o: "opp ?s \<in> {BUY, SELL}" "opp ?s \<noteq> ?s" using s by (auto simp: opp_def)
    have old: "\<exists>z\<in>set (ab_orders b). me_price x = me_price z \<and> order_key x = order_key z" if "x \<in> set ns \<union> set (ab_side b ?s)" for x
      using that a_match_sub [OF a] by (fastforce simp: ab_by_side(1) [OF s, of b])
    have new: "stems b r n" using True by (simp add: stems_def n_def order_key_def request_key_def)
    have l: "length ns \<le> length (ab_side b (opp ?s))" using a_match_sub [OF a] by simp
    have ins: "set (a_insert ?s n (ab_side b ?s)) = insert n (set (ab_side b ?s))"
        "length (a_insert ?s n (ab_side b ?s)) = Suc (length (ab_side b ?s))"
      using arg_cong [OF a_insert_perm, of set_mset ?s n "ab_side b ?s"] arg_cong [OF a_insert_perm, of size ?s n "ab_side b ?s"] by simp_all
    have next_id: "unat (ab_next_id b') \<le> Suc (unat (ab_next_id b))"
      using b1(3) by (simp add: b' unat_word_ariths)
    have sides: "ab_side b' (opp ?s) = ns" "ab_side b' ?s = (if leaves = 0 then ab_side b ?s else a_insert ?s n (ab_side b ?s))"
      using b' b1 s o by auto
    have "set (ab_orders b') \<subseteq> insert n (set ns \<union> set (ab_side b ?s))" "length (ab_orders b') \<le> Suc (length (ab_orders b))"
      using l sides ins by (auto simp: ab_by_side(1,2) [OF s])
    then show ?thesis using old new next_id unfolding b'_def [symmetric] by (fastforce simp: stems_def)
  next
    case False
    then show ?thesis
      by (auto simp: a_request_def a_cancel_def ab_orders_def stems_def length_filter_le add_mono le_SucI split: option.splits)
  qed
  then show "\<forall>x\<in>set (ab_orders (fst (a_request b r))). stems b r x"
    and "length (ab_orders (fst (a_request b r))) \<le> Suc (length (ab_orders b))"
    and "unat (ab_next_id (fst (a_request b r))) \<le> Suc (unat (ab_next_id b))" by blast+
qed

section \<open>Tame streams\<close>

text \<open>
  Prices within a band of 127 values: no two of them share an index of the table of price levels, and
  both sides together fit the pool of levels.
\<close>

definition in_band :: "Price \<Rightarrow> Price \<Rightarrow> bool" where
  "in_band lo p \<longleftrightarrow> lo \<le> p \<and> p < lo + 127"

definition tame_request :: "Price \<Rightarrow> MEClientRequest \<Rightarrow> bool" where
  "tame_request lo r \<longleftrightarrow> unat (rq_ticker_id r) < ME_MAX_TICKERS \<and> unat (rq_client_id r) < ME_MAX_NUM_CLIENTS \<and>
     unat (rq_order_id r) < ME_MAX_ORDER_IDS \<and> rq_type r \<noteq> Request_INVALID \<and>
     (rq_type r = Request_NEW \<longrightarrow> rq_side r \<in> {BUY, SELL} \<and> in_band lo (rq_price r))"

definition new_requests :: "MEClientRequest list \<Rightarrow> MEClientRequest list" where
  "new_requests rs = filter (\<lambda>r. rq_type r = Request_NEW) rs"

definition tame :: "Price \<Rightarrow> MEClientRequest list \<Rightarrow> bool" where
  "tame lo rs \<longleftrightarrow> (\<forall>r\<in>set rs. tame_request lo r) \<and> distinct (map request_key (new_requests rs)) \<and>
     length rs + 2 < ME_MAX_ORDER_IDS"

text \<open>The books after \<open>n\<close> requests of a tame stream; \<open>ks\<close> are the keys that were used.\<close>

definition served :: "Price \<Rightarrow> nat \<Rightarrow> (ClientId \<times> OrderId) set \<Rightarrow> abook \<Rightarrow> bool" where
  "served lo n ks b \<longleftrightarrow> (\<forall>x\<in>set (ab_orders b). in_band lo (me_price x) \<and> order_key x \<in> ks) \<and>
     length (ab_orders b) \<le> n \<and> unat (ab_next_id b) \<le> Suc n"

lemma band_index: "in_band lo p \<Longrightarrow> in_band lo q \<Longrightarrow> priceToIndex p = priceToIndex q \<Longrightarrow> p = q"
proof -
  assume b: "in_band lo p" "in_band lo q" and i: "priceToIndex p = priceToIndex q"
  have "int (priceToIndex x) = x mod 256" for x
    by (simp add: priceToIndex_def ME_MAX_PRICE_LEVELS_def zmod_int mod_mod_cancel)
  then have "p mod 256 = q mod 256" using i by metis
  then have "256 dvd (p - q)" by (simp add: mod_eq_dvd_iff)
  then show "p = q" using b zdvd_imp_le [of 256 "p - q"] zdvd_imp_le [of 256 "q - p"]
    by (cases "p < q"; cases "q < p") (auto simp: in_band_def dvd_diff_commute)
qed

lemma band_levels:
  assumes "\<forall>x\<in>set (ab_orders b). in_band lo (me_price x)"
  shows "levels b + 1 < ME_MAX_PRICE_LEVELS"
proof -
  have "card (me_price ` set xs) \<le> 127" if "set xs \<subseteq> set (ab_orders b)" for xs
  proof -
    have "me_price ` set xs \<subseteq> {lo..<lo + 127}" using that assms by (auto simp: in_band_def)
    then have "card (me_price ` set xs) \<le> card {lo..<lo + 127}" by (intro card_mono) auto
    then show ?thesis by simp
  qed
  from this [of "ab_bids b"] this [of "ab_asks b"] show ?thesis
    by (simp add: levels_def ab_orders_def ME_MAX_PRICE_LEVELS_def)
qed

lemma served_ok:
  assumes "served lo n ks b" and "tame_request lo r" and "rq_type r = Request_NEW \<longrightarrow> request_key r \<notin> ks" and "n + 2 < ME_MAX_ORDER_IDS"
  shows "request_ok b r" and "unat (ab_next_id b) < ME_MAX_ORDER_IDS"
proof -
  note t = assms(2) [unfolded tame_request_def] and v = assms(1) [unfolded served_def]
  show u: "unat (ab_next_id b) < ME_MAX_ORDER_IDS" using v assms(4) by simp
  then have wrap: "ab_next_id b < ab_next_id b + 1" by (simp add: word_less_nat_alt unat_word_ariths ME_MAX_ORDER_IDS_def)
  show "request_ok b r"
  proof (cases "rq_type r")
    case Request_NEW
    have "\<forall>x\<in>set (ab_orders b). \<not> is_order (rq_client_id r) (rq_order_id r) x"
      using v assms(3) Request_NEW by (auto simp: is_order_def order_key_def request_key_def)
    moreover have "price_apart b (rq_price r)"
      using v t Request_NEW band_index [of lo] by (auto simp: price_apart_def)
    moreover have "levels b + 1 < ME_MAX_PRICE_LEVELS" by (rule band_levels [of b lo]) (use v in blast)
    ultimately show ?thesis using t v assms(4) Request_NEW wrap by (simp add: request_ok_def add_ok_def)
  qed (use t in \<open>simp_all add: request_ok_def cancel_ok_def\<close>)
qed

lemma served_mono: "served lo n ks b \<Longrightarrow> n \<le> m \<Longrightarrow> ks \<subseteq> ls \<Longrightarrow> served lo m ls b"
  by (auto simp: served_def)

lemma served_step:
  assumes "served lo n ks b" and "tame_request lo r" and "request_ok b r" and "ks \<subseteq> ls"
    and "rq_type r = Request_NEW \<Longrightarrow> request_key r \<in> ls"
  shows "served lo (Suc n) ls (fst (a_request b r))"
proof -
  have "in_band lo (me_price x) \<and> order_key x \<in> ls" if "x \<in> set (ab_orders (fst (a_request b r)))" for x
  proof -
    have "stems b r x" using request_orders(1) [OF assms(3)] that by blast
    then consider y where "y \<in> set (ab_orders b)" "me_price x = me_price y" "order_key x = order_key y"
      | "rq_type r = Request_NEW" "me_price x = rq_price r" "order_key x = request_key r" unfolding stems_def by blast
    then show ?thesis
    proof cases
      case 1
      then show ?thesis using assms(1,4) by (auto simp: served_def)
    next
      case 2
      then show ?thesis using assms(2,5) by (simp add: tame_request_def)
    qed
  qed
  then show ?thesis using request_orders(2,3) [OF assms(3)] assms(1) unfolding served_def by (meson le_trans Suc_le_mono)
qed

lemma tame_from:
  assumes "\<forall>t<ME_MAX_TICKERS. served lo n ks (e t)" and "\<forall>r\<in>set rs. tame_request lo r"
    and "distinct (map request_key (new_requests rs))" and "\<forall>r\<in>set (new_requests rs). request_key r \<notin> ks" and "n + length rs + 2 < ME_MAX_ORDER_IDS"
  shows "ae_oks e rs \<and> ae_room e rs"
  using assms
proof (induction rs arbitrary: n ks e)
  case (Cons r rs)
  let ?t = "unat (rq_ticker_id r)"
  define K where "K = (if rq_type r = Request_NEW then insert (request_key r) ks else ks)"
  have K: "ks \<subseteq> K" "rq_type r = Request_NEW \<Longrightarrow> request_key r \<in> K" by (auto simp: K_def)
  have t: "?t < ME_MAX_TICKERS" and r: "tame_request lo r" using Cons.prems(2) by (simp_all add: tame_request_def)
  have k: "rq_type r = Request_NEW \<longrightarrow> request_key r \<notin> ks" using Cons.prems(4) by (simp add: new_requests_def)
  have now: "served lo n ks (e ?t)" using Cons.prems(1) t by blast
  have ok: "request_ok (e ?t) r" "unat (ab_next_id (e ?t)) < ME_MAX_ORDER_IDS"
    using served_ok [OF now r k] Cons.prems(5) by simp_all
  have here: "served lo (Suc n) K (fst (a_request (e ?t) r))" by (rule served_step [OF now r ok(1) K])
  have all: "\<forall>t<ME_MAX_TICKERS. served lo (Suc n) K (fst (ae_request e r) t)"
  proof (intro allI impI)
    fix u assume u: "u < ME_MAX_TICKERS"
    have "served lo (Suc n) K (e u)" by (rule served_mono [OF _ _ K(1), of lo n]) (use Cons.prems(1) u in simp_all)
    then show "served lo (Suc n) K (fst (ae_request e r) u)" using here by (simp add: ae_request_def Let_def)
  qed
  have "distinct (map request_key (new_requests rs))" using Cons.prems(3) by (simp add: new_requests_def split: if_splits)
  moreover have "\<forall>x\<in>set (new_requests rs). request_key x \<notin> K"
  proof (cases "rq_type r = Request_NEW")
    case True
    then have "new_requests (r # rs) = r # new_requests rs" by (simp add: new_requests_def)
    then have "request_key r \<notin> request_key ` set (new_requests rs)" "\<forall>x\<in>set (new_requests rs). request_key x \<notin> ks"
      using Cons.prems(3,4) by simp_all
    moreover have "request_key x \<in> request_key ` set (new_requests rs)" if "x \<in> set (new_requests rs)" for x using that by (rule imageI)
    ultimately show ?thesis using True unfolding K_def by (metis insertE)
  qed (use Cons.prems(4) in \<open>simp add: K_def new_requests_def\<close>)
  ultimately have "ae_oks (fst (ae_request e r)) rs \<and> ae_room (fst (ae_request e r)) rs"
    by (intro Cons.IH [OF all]) (use Cons.prems(2,5) in simp_all)
  then show ?case using t ok by (simp add: ae_ok_def)
qed simp

lemma tame_served: "tame lo rs \<Longrightarrow> ae_oks (\<lambda>_. empty_abook) rs \<and> ae_room (\<lambda>_. empty_abook) rs"
  by (rule tame_from [of lo 0 "{}"]) (simp_all add: tame_def served_def)

end
