(* ===== verification/Random_Trader.thy ===== *)
theory Random_Trader
  imports Request_Streams Trade_Engine
begin

text \<open>
  The random trading of \<^verbatim>\<open>src/trading/trading_main.cpp\<close>: up to ten thousand rounds, each of which
  sends a new order with random attributes and the cancel of a random earlier one. The numbers that
  \<^verbatim>\<open>rand\<close> gives one after the other and the readings of the trade engine's silence are parameters.
\<close>

section \<open>The program\<close>

definition random_rounds :: nat where "random_rounds = 10000"

definition ticker_base_price :: "(nat \<Rightarrow> nat) \<Rightarrow> nat \<Rightarrow> Price" where
  "ticker_base_price rnd i = int (rnd i mod 100) + 100"

text \<open>A new order from the numbers that start with the \<open>k\<close>-th. The client id is multiplied on 32 bits.\<close>

definition first_order_id :: "ClientId \<Rightarrow> OrderId" where
  "first_order_id client_id = ucast (client_id * 1000)"

definition random_request :: "(nat \<Rightarrow> nat) \<Rightarrow> (nat \<Rightarrow> Price) \<Rightarrow> ClientId \<Rightarrow> OrderId \<Rightarrow> nat \<Rightarrow> MEClientRequest" where
  "random_request rnd base client_id order_id k =
     (let ticker_id = rnd k mod ME_MAX_TICKERS;
          price = base ticker_id + int (rnd (k + 1) mod 10) + 1;
          qty = 1 + rnd (k + 2) mod 100 + 1;
          side = (if rnd (k + 3) mod 2 \<noteq> 0 then BUY else SELL)
      in \<lparr>rq_type = Request_NEW, rq_client_id = client_id, rq_ticker_id = of_nat ticker_id, rq_order_id = order_id,
          rq_side = side, rq_price = price, rq_qty = of_nat qty\<rparr>)"

text \<open>
  The loop, with the number of rounds left and the number \<open>i\<close> of those done: the next number of the
  generator is the eighth for the base prices plus five per round. The requests go to the queue of the
  order gateway.
\<close>

fun random_loop ::
    "(nat \<Rightarrow> nat) \<Rightarrow> (nat \<Rightarrow> Nanos) \<Rightarrow> ClientId \<Rightarrow> nat \<Rightarrow> nat \<Rightarrow> OrderId \<Rightarrow> MEClientRequest list \<Rightarrow>
     ClientRequestLFQueue \<Rightarrow> ClientRequestLFQueue" where
  "random_loop rnd silent client_id 0 i order_id client_requests_vec q = q"
| "random_loop rnd silent client_id (Suc n) i order_id client_requests_vec q =
     (let k = ME_MAX_TICKERS + 5 * i;
          new_request = random_request rnd (ticker_base_price rnd) client_id order_id k;
          q1 = te_sendClientRequest q new_request;
          vec1 = client_requests_vec @ [new_request];
          cxl_index = rnd (k + 4) mod length vec1;
          cxl_request = (vec1 ! cxl_index)\<lparr>rq_type := Request_CANCEL\<rparr>;
          q2 = te_sendClientRequest q1 cxl_request
      in if silent i \<ge> 60 then q2
         else random_loop rnd silent client_id n (i + 1) (order_id + 1) vec1 q2)"

definition random_trading :: "(nat \<Rightarrow> nat) \<Rightarrow> (nat \<Rightarrow> Nanos) \<Rightarrow> ClientId \<Rightarrow> ClientRequestLFQueue \<Rightarrow> ClientRequestLFQueue" where
  "random_trading rnd silent client_id q =
     random_loop rnd silent client_id random_rounds 0 (first_order_id client_id) [] q"

section \<open>What it sends\<close>

text \<open>The requests of round \<open>i\<close>, without the state of the loop, and those of \<open>m\<close> rounds.\<close>

definition new_order :: "(nat \<Rightarrow> nat) \<Rightarrow> ClientId \<Rightarrow> nat \<Rightarrow> MEClientRequest" where
  "new_order rnd cid i =
     random_request rnd (ticker_base_price rnd) cid (first_order_id cid + of_nat i) (ME_MAX_TICKERS + 5 * i)"

definition cancel_order :: "(nat \<Rightarrow> nat) \<Rightarrow> ClientId \<Rightarrow> nat \<Rightarrow> MEClientRequest" where
  "cancel_order rnd cid i =
     (new_order rnd cid (rnd (ME_MAX_TICKERS + 5 * i + 4) mod Suc i))\<lparr>rq_type := Request_CANCEL\<rparr>"

definition sent :: "(nat \<Rightarrow> nat) \<Rightarrow> ClientId \<Rightarrow> nat \<Rightarrow> MEClientRequest list" where
  "sent rnd cid m = concat (map (\<lambda>i. [new_order rnd cid i, cancel_order rnd cid i]) [0..<m])"

text \<open>The number of rounds: up to the first silence of a minute.\<close>

definition last_round :: "(nat \<Rightarrow> Nanos) \<Rightarrow> nat \<Rightarrow> bool" where
  "last_round silent m \<longleftrightarrow> 1 \<le> m \<and> m \<le> random_rounds \<and> (m = random_rounds \<or> 60 \<le> silent (m - 1)) \<and> (\<forall>i. i + 1 < m \<longrightarrow> silent i < 60)"

lemma random_loop_sends:
  assumes "vec = map (new_order rnd cid) [0..<i]" and "order_id = first_order_id cid + of_nat i" and "0 < n"
  shows "\<exists>m. i < m \<and> m \<le> i + n \<and> (m = i + n \<or> 60 \<le> silent (m - 1)) \<and> (\<forall>j. i \<le> j \<longrightarrow> j + 1 < m \<longrightarrow> silent j < 60) \<and>
    random_loop rnd silent cid n i order_id vec q =
      q_pushes q (concat (map (\<lambda>j. [new_order rnd cid j, cancel_order rnd cid j]) [i..<m]))"
  using assms
proof (induction n arbitrary: i order_id vec q)
  case (Suc n)
  let ?q = "te_sendClientRequest (te_sendClientRequest q (new_order rnd cid i)) (cancel_order rnd cid i)"
  have new: "random_request rnd (ticker_base_price rnd) cid order_id (ME_MAX_TICKERS + 5 * i) = new_order rnd cid i"
    using Suc.prems(2) by (simp add: new_order_def)
  have vec: "vec @ [new_order rnd cid i] = map (new_order rnd cid) [0..<Suc i]" using Suc.prems(1) by simp
  have pick: "map (new_order rnd cid) [0..<Suc i] ! (k mod Suc i) = new_order rnd cid (k mod Suc i)" for k
    by (subst nth_map) (simp_all del: upt_Suc)
  have cxl: "(map (new_order rnd cid) [0..<Suc i] ! (rnd (ME_MAX_TICKERS + 5 * i + 4) mod Suc i))\<lparr>rq_type := Request_CANCEL\<rparr> =
      cancel_order rnd cid i"
    unfolding pick cancel_order_def ..
  have step: "random_loop rnd silent cid (Suc n) i order_id vec q =
      (if 60 \<le> silent i then ?q
       else random_loop rnd silent cid n (i + 1) (order_id + 1) (map (new_order rnd cid) [0..<Suc i]) ?q)"
    using cxl by (simp add: Let_def new vec del: upt_Suc)
  have push: "?q = q_pushes q [new_order rnd cid i, cancel_order rnd cid i]"
    by (simp add: te_sendClientRequest_def q_pushes_def)
  show ?case
  proof (cases "60 \<le> silent i \<or> n = 0")
    case True
    then have "random_loop rnd silent cid (Suc n) i order_id vec q = ?q" using step by auto
    then show ?thesis using True push by (intro exI [of _ "Suc i"]) auto
  next
    case False
    have "map (new_order rnd cid) [0..<Suc i] = map (new_order rnd cid) [0..<i + 1]" "order_id + 1 = first_order_id cid + of_nat (i + 1)"
      using Suc.prems(2) by simp_all
    from Suc.IH [OF this, of ?q] False obtain m where m: "i + 1 < m" "m \<le> i + 1 + n" "m = i + 1 + n \<or> 60 \<le> silent (m - 1)"
      "\<forall>j. i + 1 \<le> j \<longrightarrow> j + 1 < m \<longrightarrow> silent j < 60"
      "random_loop rnd silent cid n (i + 1) (order_id + 1) (map (new_order rnd cid) [0..<Suc i]) ?q =
        q_pushes ?q (concat (map (\<lambda>j. [new_order rnd cid j, cancel_order rnd cid j]) [i + 1..<m]))" by auto
    have "[i..<m] = i # [i + 1..<m]" using m(1) upt_conv_Cons [of i m] by simp
    moreover have "silent j < 60" if "i \<le> j" "j + 1 < m" for j
      using that m(4) False by (cases "j = i") auto
    ultimately show ?thesis using m step False push
      by (intro exI [of _ m]) (auto simp: q_pushes_def)
  qed
qed simp

section \<open>Its requests are tame\<close>

lemma new_order_fields:
  assumes "unat cid < ME_MAX_NUM_CLIENTS" and "i < random_rounds"
  shows "rq_type (new_order rnd cid i) = Request_NEW" "rq_client_id (new_order rnd cid i) = cid"
    and "unat (rq_ticker_id (new_order rnd cid i)) < ME_MAX_TICKERS" "rq_side (new_order rnd cid i) \<in> {BUY, SELL}"
    and "101 \<le> rq_price (new_order rnd cid i)" "rq_price (new_order rnd cid i) \<le> 209"
    and "2 \<le> unat (rq_qty (new_order rnd cid i))" "unat (rq_qty (new_order rnd cid i)) \<le> 101"
    and "unat (rq_order_id (new_order rnd cid i)) = unat cid * 1000 + i"
proof -
  note d = new_order_def random_request_def Let_def
  show "rq_type (new_order rnd cid i) = Request_NEW" "rq_client_id (new_order rnd cid i) = cid"
    "rq_side (new_order rnd cid i) \<in> {BUY, SELL}" by (simp_all add: d)
  have t: "rnd k mod 8 < 8" for k by simp
  have small: "unat (of_nat n :: 32 word) = n" if "n < 1000" for n
    using that by (simp add: unat_of_nat take_bit_nat_eq_self)
  have "rnd (8 + 5 * i) mod 8 < 1000" using t [of "8 + 5 * i"] by linarith
  then show "unat (rq_ticker_id (new_order rnd cid i)) < ME_MAX_TICKERS"
    using small [of "rnd (8 + 5 * i) mod 8"] by (simp add: d ME_MAX_TICKERS_def)
  have b: "int (rnd k mod 100) \<le> 99" "int (rnd k mod 10) \<le> 9" "rnd k mod 100 + 2 \<le> 101" for k
    using mod_less_divisor [of 100 "rnd k"] mod_less_divisor [of 10 "rnd k"] by linarith+
  have "rq_price (new_order rnd cid i) = int (rnd (rnd (8 + 5 * i) mod 8) mod 100) + 100 + int (rnd (8 + 5 * i + 1) mod 10) + 1"
    unfolding d ticker_base_price_def ME_MAX_TICKERS_def by simp
  then show "101 \<le> rq_price (new_order rnd cid i)" "rq_price (new_order rnd cid i) \<le> 209"
    using b(1) [of "rnd (8 + 5 * i) mod 8"] b(2) [of "8 + 5 * i + 1"] by linarith+
  have "rq_qty (new_order rnd cid i) = of_nat (rnd (8 + 5 * i + 2) mod 100 + 2)"
    unfolding d ME_MAX_TICKERS_def by simp
  then have "unat (rq_qty (new_order rnd cid i)) = rnd (8 + 5 * i + 2) mod 100 + 2"
    using small [of "rnd (8 + 5 * i + 2) mod 100 + 2"] b(3) [of "8 + 5 * i + 2"] by simp
  then show "2 \<le> unat (rq_qty (new_order rnd cid i))" "unat (rq_qty (new_order rnd cid i)) \<le> 101"
    using b(3) [of "8 + 5 * i + 2"] by linarith+
  have c: "unat cid < 256" "i < 10000" using assms by (simp_all add: ME_MAX_NUM_CLIENTS_def random_rounds_def)
  have "unat (cid * 1000) = unat cid * 1000" using c by (simp add: unat_word_ariths)
  then have id: "unat (first_order_id cid) = unat cid * 1000"
    using c by (simp add: first_order_id_def unsigned_ucast_eq take_bit_nat_eq_self)
  show "unat (rq_order_id (new_order rnd cid i)) = unat cid * 1000 + i"
    using c id by (simp add: d unat_word_ariths unat_of_nat take_bit_nat_eq_self)
qed

lemma cancel_order_of: "\<exists>j\<le>i. cancel_order rnd cid i = (new_order rnd cid j)\<lparr>rq_type := Request_CANCEL\<rparr>"
  using mod_less_divisor [of "Suc i" "rnd (ME_MAX_TICKERS + 5 * i + 4)"]
  by (intro exI [of _ "rnd (ME_MAX_TICKERS + 5 * i + 4) mod Suc i"]) (simp add: cancel_order_def less_Suc_eq_le)

lemma new_requests_sent: "new_requests (sent rnd cid m) = map (new_order rnd cid) [0..<m]"
proof -
  have "rq_type (new_order rnd cid i) = Request_NEW" "rq_type (cancel_order rnd cid i) = Request_CANCEL" for i
    by (simp_all add: new_order_def random_request_def cancel_order_def Let_def)
  then show ?thesis by (induction m) (simp_all add: new_requests_def sent_def)
qed

lemma sent_requests:
  assumes "r \<in> set (sent rnd cid m)"
  obtains i ty where "i < m" and "ty \<noteq> Request_INVALID" and "r = (new_order rnd cid i)\<lparr>rq_type := ty\<rparr>"
proof -
  from assms obtain i where i: "i < m" "r = new_order rnd cid i \<or> r = cancel_order rnd cid i" by (auto simp: sent_def)
  from i(2) show ?thesis
  proof
    assume "r = new_order rnd cid i"
    then have "r = (new_order rnd cid i)\<lparr>rq_type := Request_NEW\<rparr>" by (simp add: new_order_def random_request_def Let_def)
    then show ?thesis using that i(1) by blast
  next
    assume "r = cancel_order rnd cid i"
    with cancel_order_of [of i rnd cid] obtain j where "j \<le> i" "r = (new_order rnd cid j)\<lparr>rq_type := Request_CANCEL\<rparr>" by auto
    then show ?thesis using that [of j Request_CANCEL] i(1) by simp
  qed
qed

lemma sent_tame:
  assumes "unat cid < ME_MAX_NUM_CLIENTS" and "m \<le> random_rounds" and "r \<in> set (sent rnd cid m)"
  shows "tame_request 101 r" and "rq_client_id r = cid"
proof -
  obtain i ty where i: "i < m" "ty \<noteq> Request_INVALID" "r = (new_order rnd cid i)\<lparr>rq_type := ty\<rparr>" by (rule sent_requests [OF assms(3)])
  have ir: "i < random_rounds" using i(1) assms(2) by simp
  note f = new_order_fields [OF assms(1) ir, of rnd]
  have "unat cid < 256" "i < 10000" using assms(1) ir by (simp_all add: ME_MAX_NUM_CLIENTS_def random_rounds_def)
  then show "tame_request 101 r" "rq_client_id r = cid"
    using f i(2,3) assms(1) by (auto simp: tame_request_def in_band_def ME_MAX_ORDER_IDS_def)
qed

lemma sent_keys:
  assumes "unat cid < ME_MAX_NUM_CLIENTS" and "m \<le> random_rounds"
  shows "distinct (map request_key (new_requests (sent rnd cid m)))"
proof -
  have "inj_on (\<lambda>i. request_key (new_order rnd cid i)) {0..<m}"
  proof (rule inj_onI)
    fix i j assume ij: "i \<in> {0..<m}" "j \<in> {0..<m}" "request_key (new_order rnd cid i) = request_key (new_order rnd cid j)"
    then have "i < random_rounds" "j < random_rounds" using assms(2) by simp_all
    then have "unat cid * 1000 + i = unat cid * 1000 + j"
      using ij(3) new_order_fields(9) [OF assms(1), of _ rnd] unfolding request_key_def by (metis prod.inject)
    then show "i = j" by simp
  qed
  then show ?thesis by (simp add: new_requests_sent distinct_map comp_def)
qed

text \<open>Streams of several clients, in any order: their keys differ if those of each client do.\<close>

lemma keys_by_client:
  assumes "\<And>c. distinct (map request_key (new_requests (filter (\<lambda>r. rq_client_id r = c) rs)))"
  shows "distinct (map request_key (new_requests rs))"
  using assms
proof (induction rs)
  case (Cons r rs)
  have IH: "distinct (map request_key (new_requests rs))"
  proof (rule Cons.IH)
    show "distinct (map request_key (new_requests (filter (\<lambda>r. rq_client_id r = c) rs)))" for c
      using Cons.prems [of c] by (cases "rq_client_id r = c") (auto simp: new_requests_def split: if_splits)
  qed
  have "request_key r \<noteq> request_key x" if "rq_type r = Request_NEW" "x \<in> set (new_requests rs)" for x
  proof
    assume k: "request_key r = request_key x"
    then have "x \<in> set (new_requests (filter (\<lambda>y. rq_client_id y = rq_client_id r) rs))"
      using that(2) by (auto simp: new_requests_def request_key_def)
    moreover have "request_key r \<notin> request_key ` set (new_requests (filter (\<lambda>y. rq_client_id y = rq_client_id r) rs))"
      using Cons.prems [of "rq_client_id r"] that(1) by (simp add: new_requests_def)
    ultimately show False using k by auto
  qed
  then show ?case using IH by (auto simp: new_requests_def)
qed (simp add: new_requests_def)

definition random_mix :: "ClientId set \<Rightarrow> (ClientId \<Rightarrow> nat \<Rightarrow> nat) \<Rightarrow> (ClientId \<Rightarrow> nat) \<Rightarrow> MEClientRequest list \<Rightarrow> bool" where
  "random_mix C rnd m rs \<longleftrightarrow> (\<forall>c\<in>C. unat c < ME_MAX_NUM_CLIENTS \<and> m c \<le> random_rounds) \<and>
     (\<forall>c. filter (\<lambda>r. rq_client_id r = c) rs = (if c \<in> C then sent (rnd c) c (m c) else []))"

lemma mix_tame:
  assumes "random_mix C rnd m rs" and "length rs \<le> ME_MAX_CLIENT_UPDATES"
  shows "tame 101 rs"
proof -
  have f: "filter (\<lambda>r. rq_client_id r = c) rs = (if c \<in> C then sent (rnd c) c (m c) else [])" for c
    using assms(1) by (simp add: random_mix_def)
  have c: "unat c < ME_MAX_NUM_CLIENTS" "m c \<le> random_rounds" if "c \<in> C" for c using assms(1) that by (auto simp: random_mix_def)
  have "tame_request 101 r" if "r \<in> set rs" for r
  proof -
    have "r \<in> set (filter (\<lambda>x. rq_client_id x = rq_client_id r) rs)" using that by simp
    then have "rq_client_id r \<in> C" "r \<in> set (sent (rnd (rq_client_id r)) (rq_client_id r) (m (rq_client_id r)))"
      unfolding f by (auto split: if_splits)
    then show ?thesis using sent_tame(1) c by blast
  qed
  moreover have "distinct (map request_key (new_requests rs))"
    by (rule keys_by_client) (use f sent_keys c in \<open>simp add: new_requests_def\<close>)
  ultimately show ?thesis using assms(2) by (simp add: tame_def ME_MAX_CLIENT_UPDATES_def ME_MAX_ORDER_IDS_def)
qed

section \<open>Properties\<close>

text \<open>C19: What the random trader sends. With room in the queue for all it may send, even if the gateway reads
  nothing, it sends the rounds up to the first minute of silence: in each a new order at consecutive
  identifiers, for one of the tickers, at a price from 101 to 209 and a quantity from 2 to 101, and
  then the cancel of an order that it sent in this round or before.
\<close>

theorem random_trader_requests:
  assumes "unat cid < ME_MAX_NUM_CLIENTS" and "q_inv q" and "q_length q + 2 * random_rounds \<le> q_capacity q"
  shows "\<exists>m. last_round silent m \<and>
    q_contents (random_trading rnd silent cid q) = q_contents q @ concat (map (\<lambda>i. [new_order rnd cid i, cancel_order rnd cid i]) [0..<m]) \<and>
    (\<forall>i<m. unat (rq_order_id (new_order rnd cid i)) = unat cid * 1000 + i \<and>
       rq_type (new_order rnd cid i) = Request_NEW \<and> rq_side (new_order rnd cid i) \<in> {BUY, SELL} \<and>
       unat (rq_ticker_id (new_order rnd cid i)) < ME_MAX_TICKERS \<and>
       rq_price (new_order rnd cid i) \<in> {101..209} \<and> unat (rq_qty (new_order rnd cid i)) \<in> {2..101} \<and>
       (\<exists>j\<le>i. cancel_order rnd cid i = (new_order rnd cid j)\<lparr>rq_type := Request_CANCEL\<rparr>))"
proof -
  from random_loop_sends [of "[]" rnd cid 0 "first_order_id cid" random_rounds silent q]
  obtain m where m: "0 < m" "m \<le> random_rounds" "m = random_rounds \<or> 60 \<le> silent (m - 1)" "\<forall>j. j + 1 < m \<longrightarrow> silent j < 60"
    "random_trading rnd silent cid q = q_pushes q (concat (map (\<lambda>j. [new_order rnd cid j, cancel_order rnd cid j]) [0..<m]))"
    by (auto simp: random_trading_def random_rounds_def)
  have "length (concat (map (\<lambda>j. [new_order rnd cid j, cancel_order rnd cid j]) [0..<m])) = 2 * m"
    by (simp add: length_concat comp_def sum_list_triv)
  then have "q_contents (random_trading rnd silent cid q) = q_contents q @ concat (map (\<lambda>i. [new_order rnd cid i, cancel_order rnd cid i]) [0..<m])"
    using q_pushes_contents [OF assms(2)] m(2,5) assms(3) by simp
  moreover have "last_round silent m" using m by (auto simp: last_round_def)
  ultimately show ?thesis using new_order_fields [OF assms(1), of _ rnd] m(2) cancel_order_of by (intro exI [of _ m]) (simp add: less_le_trans)
qed

theorem random_trader_requests_witness:
  "\<exists>m. last_round (\<lambda>_. 60) m \<and>
    q_contents (random_trading (\<lambda>_. 7) (\<lambda>_. 60) 3 (LFQueue_new ME_MAX_CLIENT_UPDATES MEClientRequest_default)) =
      concat (map (\<lambda>i. [new_order (\<lambda>_. 7) 3 i, cancel_order (\<lambda>_. 7) 3 i]) [0..<m]) \<and> m = 1"
proof -
  let ?q = "LFQueue_new ME_MAX_CLIENT_UPDATES MEClientRequest_default"
  have "q_inv ?q" by (rule q_inv_new) (simp add: ME_MAX_CLIENT_UPDATES_def)
  moreover have "unat (3 :: ClientId) < ME_MAX_NUM_CLIENTS" "q_length ?q + 2 * random_rounds \<le> q_capacity ?q"
    by (simp_all add:  ME_MAX_NUM_CLIENTS_def ME_MAX_CLIENT_UPDATES_def random_rounds_def LFQueue_new_def q_length_def)
  ultimately have room: "unat (3 :: ClientId) < ME_MAX_NUM_CLIENTS" "q_inv ?q" "q_length ?q + 2 * random_rounds \<le> q_capacity ?q" by blast+
  from random_trader_requests [OF room, of "\<lambda>_. 60" "\<lambda>_. 7"] obtain m where m: "last_round (\<lambda>_. 60) m"
    "q_contents (random_trading (\<lambda>_. 7) (\<lambda>_. 60) 3 ?q) = concat (map (\<lambda>i. [new_order (\<lambda>_. 7) 3 i, cancel_order (\<lambda>_. 7) 3 i]) [0..<m])"
    by auto
  moreover from m(1) have "m = 1" unfolding last_round_def by (metis add_cancel_right_left le_eq_less_or_eq less_irrefl less_one linorder_not_less zero_less_one)
  ultimately show ?thesis by blast
qed

text \<open>C10: The exchange survives its random clients. Let the requests of any number of random traders, in any
  order between the traders, wait at a freshly started matching engine, as many as its queue holds.
  Then the loop of the engine works them all off without a fault, and its books are those of the
  specification: no identifier, price or quantity that the traders make up can exhaust a table or a pool
  or make two prices share a level.
\<close>

theorem random_traders_served:
  assumes "random_mix C rnd m rs" and "length rs \<le> ME_MAX_CLIENT_UPDATES" and "eng_rep eng (\<lambda>_. empty_abook)" and "eng_run eng"
    and "q_inv (incoming_requests eng)" and "q_contents (incoming_requests eng) = rs"
  shows "\<exists>eng'. run (length rs) eng = Inr eng' \<and> eng_rep eng' (fst (ae_requests (\<lambda>_. empty_abook) rs)) \<and>
    q_contents (incoming_requests eng') = []"
  using run_refines [OF assms(3,5,4,6)] tame_served [OF mix_tame [OF assms(1,2)]] by blast

definition demo_random_requests :: "MEClientRequest list" where
  "demo_random_requests = sent (\<lambda>_. 7) 3 2"

lemma demo_random_mix: "random_mix {3} (\<lambda>_ _. 7) (\<lambda>_. 2) demo_random_requests"
proof -
  have c: "unat (3 :: ClientId) < ME_MAX_NUM_CLIENTS" "2 \<le> random_rounds" by (simp_all add: ME_MAX_NUM_CLIENTS_def random_rounds_def)
  have "rq_client_id r = 3" if "r \<in> set demo_random_requests" for r
    by (rule sent_tame(2) [OF c]) (use that in \<open>simp add: demo_random_requests_def\<close>)
  then have "filter (\<lambda>r. rq_client_id r = c) demo_random_requests = (if c = 3 then demo_random_requests else [])" for c
    by (auto simp: filter_empty_conv)
  then show ?thesis using c by (simp add: random_mix_def demo_random_requests_def)
qed

theorem random_traders_served_witness:
  "\<exists>eng'. run 4 (start (MatchingEngine_new (\<lambda>_ _ _. None) (\<lambda>_ _. None)
      (q_pushes (LFQueue_new ME_MAX_CLIENT_UPDATES MEClientRequest_default) demo_random_requests) empty_queues)) = Inr eng' \<and>
    q_contents (incoming_requests eng') = []"
proof -
  let ?q = "LFQueue_new ME_MAX_CLIENT_UPDATES MEClientRequest_default"
  let ?eng = "start (MatchingEngine_new (\<lambda>_ _ _. None) (\<lambda>_ _. None) (q_pushes ?q demo_random_requests) empty_queues)"
  have l: "length demo_random_requests = 4" by (simp add: demo_random_requests_def sent_def numeral_2_eq_2)
  have qi: "q_inv ?q" by (rule q_inv_new) (simp add: ME_MAX_CLIENT_UPDATES_def)
  have q: "q_length ?q + length demo_random_requests \<le> q_capacity ?q"
    by (simp_all add: ME_MAX_CLIENT_UPDATES_def LFQueue_new_def q_length_def l)
  have p: "q_inv (q_pushes ?q demo_random_requests)" "q_contents (q_pushes ?q demo_random_requests) = demo_random_requests"
    using q_pushes_contents [OF qi] q by simp_all
  have e: "eng_rep ?eng (\<lambda>_. empty_abook)" "eng_run ?eng" "incoming_requests ?eng = q_pushes ?q demo_random_requests"
    using eng_rep_new by (simp_all add: start_def eng_rep_def MatchingEngine_new_def)
  from random_traders_served [OF demo_random_mix _ e(1,2)] p e(3) l show ?thesis
    by (auto simp: ME_MAX_CLIENT_UPDATES_def)
qed

end
