(* ===== verification/Logging.thy ===== *)
theory Logging
  imports LF_Queue Types
begin

text \<open>
  The logger of \<^verbatim>\<open>src/common/logging.h\<close>, with the helpers it uses of \<^verbatim>\<open>thread_utils.h\<close> and
  \<^verbatim>\<open>time_utils.h\<close>. A thread of the program writes the pieces of a message to a queue as tagged
  values; a background thread takes them out and writes them to a file. The file is the text written
  to it. How the stream prints floating point numbers is a parameter, as are the answers of the
  operating system.
\<close>

section \<open>Threads and times\<close>

text \<open>
  \<^verbatim>\<open>pthread_setaffinity_np\<close> is a call of the operating system; \<open>affinity\<close> is its result for a
  core. A thread that starts ends the process when it cannot be pinned; then it runs its function.
\<close>

definition setThreadCore :: "(int \<Rightarrow> int) \<Rightarrow> int \<Rightarrow> bool" where
  "setThreadCore affinity core_id = (affinity core_id = 0)"

definition createAndStartThread :: "(int \<Rightarrow> int) \<Rightarrow> int \<Rightarrow> string \<Rightarrow> (unit \<Rightarrow> 'a result) \<Rightarrow> 'a result" where
  "createAndStartThread affinity core_id name func =
     (if core_id \<ge> 0 \<and> \<not> setThreadCore affinity core_id
      then Inl (Exit_failure (''Failed to set core affinity for '' @ name))
      else func ())"

text \<open>
  \<^verbatim>\<open>getCurrentTimeStr\<close>, with the text of \<^verbatim>\<open>ctime\<close> as a parameter: its last character is
  overwritten with the terminator, but stays in the string.
\<close>

definition NUL :: char where "NUL = CHR 0x00"

definition getCurrentTimeStr :: "string \<Rightarrow> string" where
  "getCurrentTimeStr ctime_text =
     (if ctime_text \<noteq> [] then ctime_text[length ctime_text - 1 := NUL] else ctime_text)"

text \<open>The characters of a string up to the first terminator: what a \<^verbatim>\<open>const char *\<close> to it reads.\<close>

definition c_str :: "string \<Rightarrow> string" where
  "c_str s = takeWhile (\<lambda>c. c \<noteq> NUL) s"

section \<open>Log elements\<close>

definition LOG_QUEUE_SIZE :: nat where "LOG_QUEUE_SIZE = 8 * 1024 * 1024"

datatype LogType =
    LT_CHAR | INTEGER | LONG_INTEGER | LONG_LONG_INTEGER | UNSIGNED_INTEGER | UNSIGNED_LONG_INTEGER
  | UNSIGNED_LONG_LONG_INTEGER | FLOAT | DOUBLE

text \<open>The union, with the member that is active. Signed members are words read with their sign.\<close>

datatype ('f, 'd) LogUnion =
    U_c char | U_i "32 word" | U_l "64 word" | U_ll "64 word" | U_u "32 word" | U_ul "64 word" | U_ull "64 word"
  | U_f 'f | U_d 'd

record ('f, 'd) LogElement =
  le_type :: LogType
  le_u :: "('f, 'd) LogUnion"

definition LogElement_default :: "('f, 'd) LogElement" where
  "LogElement_default = \<lparr>le_type = LT_CHAR, le_u = U_c NUL\<rparr>"

text \<open>What the loop of \<^verbatim>\<open>flushQueue\<close> writes for an element: the member is chosen by the tag.\<close>

definition write_element :: "('f \<Rightarrow> string) \<Rightarrow> ('d \<Rightarrow> string) \<Rightarrow> ('f, 'd) LogElement \<Rightarrow> string result" where
  "write_element print_float print_double el =
     (case le_type el of
        LT_CHAR \<Rightarrow> (case le_u el of U_c v \<Rightarrow> Inr [v] | _ \<Rightarrow> Inl Inactive_member)
      | INTEGER \<Rightarrow> (case le_u el of U_i v \<Rightarrow> Inr (int_to_string (sint v)) | _ \<Rightarrow> Inl Inactive_member)
      | LONG_INTEGER \<Rightarrow> (case le_u el of U_l v \<Rightarrow> Inr (int_to_string (sint v)) | _ \<Rightarrow> Inl Inactive_member)
      | LONG_LONG_INTEGER \<Rightarrow> (case le_u el of U_ll v \<Rightarrow> Inr (int_to_string (sint v)) | _ \<Rightarrow> Inl Inactive_member)
      | UNSIGNED_INTEGER \<Rightarrow> (case le_u el of U_u v \<Rightarrow> Inr (nat_to_string (unat v)) | _ \<Rightarrow> Inl Inactive_member)
      | UNSIGNED_LONG_INTEGER \<Rightarrow> (case le_u el of U_ul v \<Rightarrow> Inr (nat_to_string (unat v)) | _ \<Rightarrow> Inl Inactive_member)
      | UNSIGNED_LONG_LONG_INTEGER \<Rightarrow> (case le_u el of U_ull v \<Rightarrow> Inr (nat_to_string (unat v)) | _ \<Rightarrow> Inl Inactive_member)
      | FLOAT \<Rightarrow> (case le_u el of U_f v \<Rightarrow> Inr (print_float v) | _ \<Rightarrow> Inl Inactive_member)
      | DOUBLE \<Rightarrow> (case le_u el of U_d v \<Rightarrow> Inr (print_double v) | _ \<Rightarrow> Inl Inactive_member))"

section \<open>The class\<close>

record ('f, 'd) Logger =
  file_name :: string
  lg_file :: string
  log_queue :: "('f, 'd) LogElement LFQueue"
  running :: bool

text \<open>The constructor; \<open>opens\<close> says whether the file could be opened. The thread is never null.\<close>

definition Logger_new :: "(string \<Rightarrow> bool) \<Rightarrow> string \<Rightarrow> ('f, 'd) Logger result" where
  "Logger_new opens name =
     andThen (ASSERT (opens name) (''Could not open log file:'' @ name)) (\<lambda>_.
     Inr \<lparr>file_name = name, lg_file = [], log_queue = LFQueue_new LOG_QUEUE_SIZE LogElement_default, running = True\<rparr>)"

text \<open>
  The inner loop of \<^verbatim>\<open>flushQueue\<close>, with the number of elements it may write, and one turn of the
  outer one.
\<close>

fun flush_loop ::
    "nat \<Rightarrow> ('f \<Rightarrow> string) \<Rightarrow> ('d \<Rightarrow> string) \<Rightarrow> ('f, 'd) Logger \<Rightarrow> ('f, 'd) Logger result" where
  "flush_loop fuel pf pd lg =
     (case getNextToRead (log_queue lg) of
        None \<Rightarrow> Inr lg
      | Some el \<Rightarrow>
          (case fuel of
             0 \<Rightarrow> Inl Diverges
           | Suc fuel' \<Rightarrow>
               andThen (write_element pf pd el) (\<lambda>s.
               andThen (updateReadIndex (log_queue lg)) (\<lambda>q.
               flush_loop fuel' pf pd (lg\<lparr>lg_file := lg_file lg @ s, log_queue := q\<rparr>)))))"

declare flush_loop.simps [simp del]

definition flushQueue_turn :: "('f \<Rightarrow> string) \<Rightarrow> ('d \<Rightarrow> string) \<Rightarrow> ('f, 'd) Logger \<Rightarrow> ('f, 'd) Logger result" where
  "flushQueue_turn pf pd lg =
     (if running lg then flush_loop (q_length (log_queue lg)) pf pd lg else Inr lg)"

text \<open>The destructor waits while the queue is not empty: then it has no result yet.\<close>

definition Logger_destroy :: "('f, 'd) Logger \<Rightarrow> ('f, 'd) Logger option" where
  "Logger_destroy lg = (if q_length (log_queue lg) \<noteq> 0 then None else Some (lg\<lparr>running := False\<rparr>))"

section \<open>Writing to the queue\<close>

text \<open>The overloads of \<^verbatim>\<open>pushValue\<close>: the value says which one is meant.\<close>

datatype ('f, 'd) LogValue =
    V_char char | V_int "32 word" | V_long "64 word" | V_long_long "64 word" | V_unsigned "32 word"
  | V_unsigned_long "64 word" | V_unsigned_long_long "64 word" | V_float 'f | V_double 'd
  | V_cstring string | V_string string

definition push_element :: "('f, 'd) LogElement \<Rightarrow> ('f, 'd) Logger \<Rightarrow> ('f, 'd) Logger" where
  "push_element el lg = lg\<lparr>log_queue := q_push (log_queue lg) el\<rparr>"

definition push_char :: "char \<Rightarrow> ('f, 'd) Logger \<Rightarrow> ('f, 'd) Logger" where
  "push_char v = push_element \<lparr>le_type = LT_CHAR, le_u = U_c v\<rparr>"

fun push_cstring :: "string \<Rightarrow> ('f, 'd) Logger \<Rightarrow> ('f, 'd) Logger" where
  "push_cstring [] lg = lg"
| "push_cstring (c # cs) lg = (if c \<noteq> NUL then push_cstring cs (push_char c lg) else lg)"

fun pushValue :: "('f, 'd) LogValue \<Rightarrow> ('f, 'd) Logger \<Rightarrow> ('f, 'd) Logger" where
  "pushValue (V_char v) = push_char v"
| "pushValue (V_int v) = push_element \<lparr>le_type = INTEGER, le_u = U_i v\<rparr>"
| "pushValue (V_long v) = push_element \<lparr>le_type = LONG_INTEGER, le_u = U_l v\<rparr>"
| "pushValue (V_long_long v) = push_element \<lparr>le_type = LONG_LONG_INTEGER, le_u = U_ll v\<rparr>"
| "pushValue (V_unsigned v) = push_element \<lparr>le_type = UNSIGNED_INTEGER, le_u = U_u v\<rparr>"
| "pushValue (V_unsigned_long v) = push_element \<lparr>le_type = UNSIGNED_LONG_INTEGER, le_u = U_ul v\<rparr>"
| "pushValue (V_unsigned_long_long v) = push_element \<lparr>le_type = UNSIGNED_LONG_LONG_INTEGER, le_u = U_ull v\<rparr>"
| "pushValue (V_float v) = push_element \<lparr>le_type = FLOAT, le_u = U_f v\<rparr>"
| "pushValue (V_double v) = push_element \<lparr>le_type = DOUBLE, le_u = U_d v\<rparr>"
| "pushValue (V_cstring s) = push_cstring s"
| "pushValue (V_string s) = push_cstring (c_str s)"

text \<open>
  \<^verbatim>\<open>log\<close>: the overload without arguments, and the template with a first one. The format is the
  text before its terminator.
\<close>

fun log_plain :: "string \<Rightarrow> ('f, 'd) Logger \<Rightarrow> ('f, 'd) Logger result" where
  "log_plain [] lg = Inr lg"
| "log_plain (c # cs) lg =
     (if c = CHR ''%'' then
        (case cs of
           d # ds \<Rightarrow> if d = CHR ''%'' then log_plain ds (push_char d lg) else FATAL ''missing arguments to log()''
         | [] \<Rightarrow> FATAL ''missing arguments to log()'')
      else log_plain cs (push_char c lg))"

fun log_value :: "string \<Rightarrow> ('f, 'd) LogValue list \<Rightarrow> ('f, 'd) Logger \<Rightarrow> ('f, 'd) Logger result" where
  "log_value cs [] lg = log_plain cs lg"
| "log_value [] (v # vs) lg = FATAL ''extra arguments provided to log()''"
| "log_value (c # cs) (v # vs) lg =
     (if c = CHR ''%'' then
        (case cs of
           d # ds \<Rightarrow> if d = CHR ''%'' then log_value ds (v # vs) (push_char d lg) else log_value cs vs (pushValue v lg)
         | [] \<Rightarrow> log_value cs vs (pushValue v lg))
      else log_value cs (v # vs) (push_char c lg))"

section \<open>What is logged\<close>

text \<open>The tag of an element names its active member.\<close>

definition well_typed :: "('f, 'd) LogElement \<Rightarrow> bool" where
  "well_typed el \<longleftrightarrow> le_type el =
     (case le_u el of U_c _ \<Rightarrow> LT_CHAR | U_i _ \<Rightarrow> INTEGER | U_l _ \<Rightarrow> LONG_INTEGER | U_ll _ \<Rightarrow> LONG_LONG_INTEGER
      | U_u _ \<Rightarrow> UNSIGNED_INTEGER | U_ul _ \<Rightarrow> UNSIGNED_LONG_INTEGER | U_ull _ \<Rightarrow> UNSIGNED_LONG_LONG_INTEGER
      | U_f _ \<Rightarrow> FLOAT | U_d _ \<Rightarrow> DOUBLE)"

fun shown :: "('f \<Rightarrow> string) \<Rightarrow> ('d \<Rightarrow> string) \<Rightarrow> ('f, 'd) LogUnion \<Rightarrow> string" where
  "shown pf pd (U_c v) = [v]"
| "shown pf pd (U_i v) = int_to_string (sint v)"
| "shown pf pd (U_l v) = int_to_string (sint v)"
| "shown pf pd (U_ll v) = int_to_string (sint v)"
| "shown pf pd (U_u v) = nat_to_string (unat v)"
| "shown pf pd (U_ul v) = nat_to_string (unat v)"
| "shown pf pd (U_ull v) = nat_to_string (unat v)"
| "shown pf pd (U_f v) = pf v"
| "shown pf pd (U_d v) = pd v"

lemma write_well_typed: "well_typed el \<Longrightarrow> write_element pf pd el = Inr (shown pf pd (le_u el))"
  by (cases "le_u el") (simp_all add: well_typed_def write_element_def)

lemma write_ill_typed: "\<not> well_typed el \<Longrightarrow> write_element pf pd el = Inl Inactive_member"
  by (cases "le_u el"; cases "le_type el") (simp_all add: well_typed_def write_element_def)

text \<open>The text of a value, and the elements that \<^verbatim>\<open>pushValue\<close> makes of it.\<close>

definition char_element :: "char \<Rightarrow> ('f, 'd) LogElement" where
  "char_element c = \<lparr>le_type = LT_CHAR, le_u = U_c c\<rparr>"

fun elements :: "('f, 'd) LogValue \<Rightarrow> ('f, 'd) LogElement list" where
  "elements (V_char v) = [char_element v]"
| "elements (V_int v) = [\<lparr>le_type = INTEGER, le_u = U_i v\<rparr>]"
| "elements (V_long v) = [\<lparr>le_type = LONG_INTEGER, le_u = U_l v\<rparr>]"
| "elements (V_long_long v) = [\<lparr>le_type = LONG_LONG_INTEGER, le_u = U_ll v\<rparr>]"
| "elements (V_unsigned v) = [\<lparr>le_type = UNSIGNED_INTEGER, le_u = U_u v\<rparr>]"
| "elements (V_unsigned_long v) = [\<lparr>le_type = UNSIGNED_LONG_INTEGER, le_u = U_ul v\<rparr>]"
| "elements (V_unsigned_long_long v) = [\<lparr>le_type = UNSIGNED_LONG_LONG_INTEGER, le_u = U_ull v\<rparr>]"
| "elements (V_float v) = [\<lparr>le_type = FLOAT, le_u = U_f v\<rparr>]"
| "elements (V_double v) = [\<lparr>le_type = DOUBLE, le_u = U_d v\<rparr>]"
| "elements (V_cstring s) = map char_element (c_str s)"
| "elements (V_string s) = map char_element (c_str s)"

definition value_text :: "('f \<Rightarrow> string) \<Rightarrow> ('d \<Rightarrow> string) \<Rightarrow> ('f, 'd) LogValue \<Rightarrow> string" where
  "value_text pf pd v = concat (map (\<lambda>el. shown pf pd (le_u el)) (elements v))"

lemma elements_typed: "list_all well_typed (elements v)"
  by (cases v) (simp_all add: well_typed_def char_element_def list_all_iff)

lemma push_cstring_eq: "push_cstring s lg = lg\<lparr>log_queue := q_pushes (log_queue lg) (map char_element (c_str s))\<rparr>"
  by (induction s arbitrary: lg) (simp_all add: c_str_def push_char_def push_element_def char_element_def q_pushes_Cons)

lemma c_str_idem [simp]: "c_str (c_str s) = c_str s"
  by (simp add: c_str_def takeWhile_takeWhile)

lemma pushValue_eq: "pushValue v lg = lg\<lparr>log_queue := q_pushes (log_queue lg) (elements v)\<rparr>"
  by (cases v) (simp_all add: push_cstring_eq push_element_def push_char_def char_element_def q_pushes_Cons)

text \<open>The time that the messages begin with is the text of \<^verbatim>\<open>ctime\<close> without its line end.\<close>

lemma time_text:
  assumes "NUL \<notin> set t"
  shows "value_text pf pd (V_string (getCurrentTimeStr t)) = butlast t"
proof (cases t rule: rev_cases)
  case (snoc u c)
  have "takeWhile (\<lambda>c. c \<noteq> NUL) (u @ [NUL]) = u"
    using assms snoc by (subst takeWhile_append2) auto
  then have "c_str (getCurrentTimeStr t) = u" using snoc by (simp add: getCurrentTimeStr_def c_str_def list_update_append)
  then show ?thesis using snoc by (simp add: value_text_def char_element_def comp_def)
qed (simp add: value_text_def getCurrentTimeStr_def c_str_def)

section \<open>The format\<close>

text \<open>A format is read once: literal characters and the places of the arguments.\<close>

datatype token = Lit char | Hole

fun tokens :: "string \<Rightarrow> token list" where
  "tokens [] = []"
| "tokens (c # cs) =
     (if c = CHR ''%'' then
        (case cs of d # ds \<Rightarrow> if d = CHR ''%'' then Lit d # tokens ds else Hole # tokens cs | [] \<Rightarrow> [Hole])
      else Lit c # tokens cs)"

definition holes :: "token list \<Rightarrow> nat" where
  "holes ts = length (filter (\<lambda>t. t = Hole) ts)"

fun fill :: "token list \<Rightarrow> ('f, 'd) LogValue list \<Rightarrow> ('f, 'd) LogValue list" where
  "fill (Lit c # ts) vs = V_char c # fill ts vs"
| "fill (Hole # ts) (v # vs) = v # fill ts vs"
| "fill _ _ = []"

definition push_values :: "('f, 'd) LogValue list \<Rightarrow> ('f, 'd) Logger \<Rightarrow> ('f, 'd) Logger" where
  "push_values vs lg = fold pushValue vs lg"

lemma holes_simps [simp]: "holes [] = 0" "holes (Lit c # ts) = holes ts" "holes (Hole # ts) = Suc (holes ts)"
  by (simp_all add: holes_def)

lemma log_plain_eq:
  "log_plain s lg = (if holes (tokens s) = 0 then Inr (push_values (fill (tokens s) []) lg)
     else Inl (Fatal ''missing arguments to log()''))"
  by (induction s lg rule: log_plain.induct) (auto simp: push_values_def FATAL_def split: list.split)

lemma log_value_eq:
  "log_value s vs lg =
     (if holes (tokens s) < length vs then Inl (Fatal ''extra arguments provided to log()'')
      else if length vs < holes (tokens s) then Inl (Fatal ''missing arguments to log()'')
      else Inr (push_values (fill (tokens s) vs) lg))"
  by (induction s vs lg rule: log_value.induct)
     (auto simp: push_values_def FATAL_def log_plain_eq split: list.split)

section \<open>The two threads\<close>

text \<open>What waits in the queue, as the text it stands for, and a turn of the background thread.\<close>

definition pending :: "('f \<Rightarrow> string) \<Rightarrow> ('d \<Rightarrow> string) \<Rightarrow> ('f, 'd) LogElement list \<Rightarrow> string" where
  "pending pf pd els = concat (map (\<lambda>el. shown pf pd (le_u el)) els)"

lemma flush_loop_ok:
  assumes "q_inv (log_queue lg)" and "list_all well_typed (q_contents (log_queue lg))" and "q_length (log_queue lg) \<le> fuel"
  shows "\<exists>q. flush_loop fuel pf pd lg = Inr (lg\<lparr>lg_file := lg_file lg @ pending pf pd (q_contents (log_queue lg)), log_queue := q\<rparr>) \<and>
    q_inv q \<and> q_contents q = []"
  using assms
proof (induction "q_contents (log_queue lg)" arbitrary: lg fuel)
  case Nil
  then have "getNextToRead (log_queue lg) = None" using getNextToRead_contents [of "log_queue lg"] by (metis list.simps(4))
  then show ?case using Nil by (subst flush_loop.simps) (simp add: pending_def exI [of _ "log_queue lg"])
next
  case (Cons el els)
  obtain fuel' where fuel: "fuel = Suc fuel'" using Cons.prems(3) Cons.hyps(2) length_q_contents [of "log_queue lg"]
    by (cases fuel) (metis list.size(4) not_one_le_zero le_zero_eq add_is_0 One_nat_def nat.distinct(1), blast)
  have head: "getNextToRead (log_queue lg) = Some el"
    using getNextToRead_contents [OF Cons.prems(1)] Cons.hyps(2) by (metis list.simps(5))
  from updateReadIndex_contents [OF Cons.prems(1) Cons.hyps(2) [symmetric]] obtain q where
    q: "updateReadIndex (log_queue lg) = Inr q" "q_inv q" "q_contents q = els" by blast
  have t: "well_typed el" "list_all well_typed els" using Cons.prems(2) unfolding Cons.hyps(2) [symmetric] by simp_all
  let ?lg = "lg\<lparr>lg_file := lg_file lg @ shown pf pd (le_u el), log_queue := q\<rparr>"
  have "q_length q = length els" using q(3) length_q_contents by metis
  moreover have "q_length (log_queue lg) = Suc (length els)" using Cons.hyps(2) length_q_contents by (metis length_Cons)
  ultimately have "q_length (log_queue ?lg) \<le> fuel'" using Cons.prems(3) fuel by simp
  from Cons.hyps(1) [of ?lg, OF _ _ _ this] q t obtain q' where
    "flush_loop fuel' pf pd ?lg = Inr (?lg\<lparr>lg_file := lg_file ?lg @ pending pf pd els, log_queue := q'\<rparr>)" "q_inv q'" "q_contents q' = []"
    by auto
  then show ?case using head fuel q(1) write_well_typed [OF t(1), of pf pd] Cons.hyps(2) [symmetric]
    by (subst flush_loop.simps) (simp add: pending_def exI [of _ q'])
qed

text \<open>
  One thread pushes values, the other takes single elements out of the queue and writes them; they
  interleave in any way. The index is the text of everything pushed so far. A value is pushed when
  the queue has room for it.
\<close>

inductive logger_run ::
    "('f \<Rightarrow> string) \<Rightarrow> ('d \<Rightarrow> string) \<Rightarrow> ('f, 'd) Logger \<Rightarrow> string \<Rightarrow> bool"
  for pf pd where
  opened: "Logger_new opens name = Inr lg \<Longrightarrow> logger_run pf pd lg []"
| pushed: "logger_run pf pd lg said \<Longrightarrow> q_length (log_queue lg) + length (elements v) \<le> q_capacity (log_queue lg) \<Longrightarrow>
    logger_run pf pd (pushValue v lg) (said @ value_text pf pd v)"
| wrote: "logger_run pf pd lg said \<Longrightarrow> getNextToRead (log_queue lg) = Some el \<Longrightarrow> write_element pf pd el = Inr s \<Longrightarrow>
    updateReadIndex (log_queue lg) = Inr q \<Longrightarrow> logger_run pf pd (lg\<lparr>lg_file := lg_file lg @ s, log_queue := q\<rparr>) said"

definition logger_inv :: "('f \<Rightarrow> string) \<Rightarrow> ('d \<Rightarrow> string) \<Rightarrow> ('f, 'd) Logger \<Rightarrow> string \<Rightarrow> bool" where
  "logger_inv pf pd lg said \<longleftrightarrow> running lg \<and> q_inv (log_queue lg) \<and> list_all well_typed (q_contents (log_queue lg)) \<and>
     lg_file lg @ pending pf pd (q_contents (log_queue lg)) = said"

lemma logger_run_inv: "logger_run pf pd lg said \<Longrightarrow> logger_inv pf pd lg said"
proof (induction rule: logger_run.induct)
  case (opened can_open name lg)
  then show ?case by (auto simp: logger_inv_def Logger_new_def pending_def result_simps LOG_QUEUE_SIZE_def intro!: q_inv_new)
next
  case (pushed lg said v)
  then show ?case using q_pushes_contents [of "log_queue lg" "elements v"] elements_typed [of v]
    by (auto simp: logger_inv_def pushValue_eq pending_def value_text_def)
next
  case (wrote lg said el s q)
  then obtain els where els: "q_contents (log_queue lg) = el # els"
    using getNextToRead_contents [of "log_queue lg"] by (auto simp: logger_inv_def split: list.splits)
  from updateReadIndex_contents [OF _ this] wrote have "q_inv q" "q_contents q = els" by (auto simp: logger_inv_def)
  with wrote els write_well_typed [of el pf pd] show ?case by (auto simp: logger_inv_def pending_def)
qed

section \<open>Properties\<close>

text \<open>C20: Formatting a message. Whatever the format and the arguments, \<^verbatim>\<open>log\<close> does what reading
  the format once and filling its places gives: with as many arguments as places it pushes, in order,
  the literal characters and the arguments, \<^verbatim>\<open>%%\<close> standing for one percent sign; with more
  arguments it ends the process with the one message, with fewer with the other.\<close>

theorem log_fills_format:
  "log_value s vs lg =
     (if holes (tokens s) < length vs then Inl (Fatal ''extra arguments provided to log()'')
      else if length vs < holes (tokens s) then Inl (Fatal ''missing arguments to log()'')
      else Inr (push_values (fill (tokens s) vs) lg))"
  by (rule log_value_eq)

text \<open>C21: The tagged union is used safely and nothing is lost. However the logging thread and the
  background thread interleave, as long as the queue has room for what is pushed, every element in the
  queue carries the tag of the member that was written, so a turn of the background thread
  reads no other member and ends without a fault; afterwards the file holds the text of everything
  pushed, in order and once, and the destructor does not wait.\<close>

theorem logger_type_safe:
  assumes "logger_run pf pd lg said"
  shows "list_all well_typed (q_contents (log_queue lg)) \<and>
    (\<exists>lg'. flushQueue_turn pf pd lg = Inr lg' \<and> lg_file lg' = said \<and> Logger_destroy lg' = Some (lg'\<lparr>running := False\<rparr>))"
proof -
  have i: "logger_inv pf pd lg said" by (rule logger_run_inv [OF assms])
  then obtain q where q: "flush_loop (q_length (log_queue lg)) pf pd lg =
      Inr (lg\<lparr>lg_file := lg_file lg @ pending pf pd (q_contents (log_queue lg)), log_queue := q\<rparr>)" "q_contents q = []"
    using flush_loop_ok [of lg "q_length (log_queue lg)" pf pd] by (auto simp: logger_inv_def)
  then have "q_length q = 0" using length_q_contents [of q] by simp
  then show ?thesis using i q by (auto simp: logger_inv_def flushQueue_turn_def Logger_destroy_def)
qed

definition demo_logger :: "(string, string) Logger" where
  "demo_logger = \<lparr>file_name = ''demo.log'', lg_file = [], log_queue = LFQueue_new LOG_QUEUE_SIZE LogElement_default, running = True\<rparr>"

theorem logger_type_safe_witness:
  "\<exists>lg'. flushQueue_turn id id (pushValue (V_int (- 7)) demo_logger) = Inr lg' \<and> lg_file lg' = ''-7''"
proof -
  have "Logger_new (\<lambda>_. True) ''demo.log'' = Inr demo_logger" by (simp add: Logger_new_def demo_logger_def)
  from logger_run.opened [OF this, of id id] logger_run.pushed [of id id demo_logger "[]" "V_int (- 7)"]
  have "logger_run id id (pushValue (V_int (- 7)) demo_logger) (value_text id id (V_int (- 7)))"
    by (simp add: demo_logger_def LOG_QUEUE_SIZE_def)
  moreover have "value_text id id (V_int (- 7)) = ''-7''"
    by code_simp
  ultimately show ?thesis using logger_type_safe [of id id "pushValue (V_int (- 7)) demo_logger" "''-7''"] by auto
qed

end
