(* ===== verification/Command_Line.thy ===== *)
theory Command_Line
  imports Trading_Types Logging
begin

text \<open>
  The command line of \<^verbatim>\<open>src/trading/trading_main.cpp\<close>: a client id, the name of an algorithm and
  up to eight groups of five numbers that configure the tickers, and the printing of the
  configuration in \<^verbatim>\<open>src/common/types.h\<close>. The reading and printing of floating point numbers are
  parameters; the reading of integers is the one of the C library.
\<close>

section \<open>Reading integers\<close>

text \<open>
  \<^verbatim>\<open>atoi\<close>: white space is skipped, a sign may follow, then come the digits; what stands behind
  them is ignored. A value that an \<^verbatim>\<open>int\<close> cannot hold is undefined.
\<close>

definition is_space :: "char \<Rightarrow> bool" where
  "is_space c \<longleftrightarrow> of_char c = (32 :: nat) \<or> (9 \<le> (of_char c :: nat) \<and> of_char c \<le> (13 :: nat))"

definition is_digit :: "char \<Rightarrow> bool" where
  "is_digit c \<longleftrightarrow> 48 \<le> (of_char c :: nat) \<and> of_char c \<le> (57 :: nat)"

definition digits_value :: "string \<Rightarrow> int" where
  "digits_value s = foldl (\<lambda>v c. 10 * v + (int (of_char c) - 48)) 0 s"

definition signed_digits :: "string \<Rightarrow> int" where
  "signed_digits s =
     (case s of
        c # cs \<Rightarrow>
          if c = CHR ''-'' then - digits_value (takeWhile is_digit cs)
          else if c = CHR ''+'' then digits_value (takeWhile is_digit cs)
          else digits_value (takeWhile is_digit s)
      | [] \<Rightarrow> 0)"

definition atoi :: "string \<Rightarrow> int result" where
  "atoi s = signed_value 32 (signed_digits (dropWhile is_space (c_str s)))"

section \<open>The arguments\<close>

text \<open>\<^verbatim>\<open>argv[argc]\<close> is a null pointer, and nothing may be read behind it.\<close>

definition arg :: "string list \<Rightarrow> nat \<Rightarrow> string result" where
  "arg argv i = (if i < length argv then Inr (argv ! i) else if i = length argv then Inl Null_deref else Inl Bad_index)"

definition qty_arg :: "string list \<Rightarrow> nat \<Rightarrow> Qty result" where
  "qty_arg argv i = andThen (arg argv i) (\<lambda>s. andThen (atoi s) (\<lambda>v. Inr (word_of_int v)))"

definition double_arg :: "(string \<Rightarrow> 'f) \<Rightarrow> string list \<Rightarrow> nat \<Rightarrow> 'f result" where
  "double_arg atof argv i = andThen (arg argv i) (\<lambda>s. Inr (atof s))"

text \<open>The right hand side of the assignment: the initialisers are evaluated from left to right.\<close>

definition parse_cfg :: "(string \<Rightarrow> 'f) \<Rightarrow> string list \<Rightarrow> nat \<Rightarrow> 'f TradeEngineCfg result" where
  "parse_cfg atof argv i =
     andThen (qty_arg argv i) (\<lambda>clip.
     andThen (double_arg atof argv (i + 1)) (\<lambda>thresh.
     andThen (qty_arg argv (i + 2)) (\<lambda>size.
     andThen (qty_arg argv (i + 3)) (\<lambda>pos.
     andThen (double_arg atof argv (i + 4)) (\<lambda>loss.
     Inr \<lparr>clip = clip, threshold = thresh,
          risk_cfg = \<lparr>max_order_size = size, max_position = pos, max_loss = loss\<rparr>\<rparr>)))))"

text \<open>The members of the array before the loop.\<close>

definition TradeEngineCfg_default :: "'f double_ops \<Rightarrow> 'f TradeEngineCfg" where
  "TradeEngineCfg_default F =
     \<lparr>clip = 0, threshold = d_of_int F 0,
      risk_cfg = \<lparr>max_order_size = 0, max_position = 0, max_loss = d_of_int F 0\<rparr>\<rparr>"

text \<open>The loop; the value is computed before the element it is assigned to.\<close>

function cfg_loop ::
    "(string \<Rightarrow> 'f) \<Rightarrow> string list \<Rightarrow> nat \<Rightarrow> nat \<Rightarrow> (nat \<Rightarrow> 'f TradeEngineCfg) \<Rightarrow> (nat \<Rightarrow> 'f TradeEngineCfg) result" where
  "cfg_loop atof argv i next_ticker_id ticker_cfg =
     (if i < length argv then
        andThen (parse_cfg atof argv i) (\<lambda>cfg.
        andThen (array_set_at ME_MAX_TICKERS ticker_cfg next_ticker_id cfg) (\<lambda>ticker_cfg1.
        cfg_loop atof argv (i + 5) (next_ticker_id + 1) ticker_cfg1))
      else Inr ticker_cfg)"
  by pat_completeness auto
termination by (relation "measure (\<lambda>(_, argv, i, _). length argv - i)") auto

declare cfg_loop.simps [simp del]

record 'f trading_args =
  arg_client_id :: ClientId
  arg_algo_type :: AlgoType
  arg_ticker_cfg :: "nat \<Rightarrow> 'f TradeEngineCfg"

definition trading_arguments :: "'f double_ops \<Rightarrow> (string \<Rightarrow> 'f) \<Rightarrow> string list \<Rightarrow> 'f trading_args result" where
  "trading_arguments F atof argv =
     (if length argv < 3 then FATAL ''USAGE trading_main CLIENT_ID ALGO_TYPE [CLIP_1 THRESH_1 MAX_ORDER_SIZE_1 MAX_POS_1 MAX_LOSS_1] [CLIP_2 THRESH_2 MAX_ORDER_SIZE_2 MAX_POS_2 MAX_LOSS_2] ...''
      else
        andThen (qty_arg argv 1) (\<lambda>client_id.
        andThen (arg argv 2) (\<lambda>algo.
        andThen (cfg_loop atof argv 3 0 (\<lambda>_. TradeEngineCfg_default F)) (\<lambda>cfg.
        Inr \<lparr>arg_client_id = client_id, arg_algo_type = stringToAlgoType (c_str algo), arg_ticker_cfg = cfg\<rparr>))))"

section \<open>Printing the configuration\<close>

definition RiskCfg_toString :: "('f \<Rightarrow> string) \<Rightarrow> 'f RiskCfg \<Rightarrow> string" where
  "RiskCfg_toString pd cfg =
     ''RiskCfg{max-order-size:'' @ qtyToString (max_order_size cfg) @ '' max-position:'' @ qtyToString (max_position cfg) @
     '' max-loss:'' @ pd (max_loss cfg) @ ''}''"

definition TradeEngineCfg_toString :: "('f \<Rightarrow> string) \<Rightarrow> 'f TradeEngineCfg \<Rightarrow> string" where
  "TradeEngineCfg_toString pd cfg =
     ''TradeEngineCfg{clip:'' @ qtyToString (clip cfg) @ '' thresh:'' @ pd (threshold cfg) @
     '' risk:'' @ RiskCfg_toString pd (risk_cfg cfg) @ ''}''"

section \<open>Reading back what was printed\<close>

lemma digit_char: "d < 10 \<Longrightarrow> is_digit (char_of (d + 48 :: nat))" "d < 10 \<Longrightarrow> of_char (char_of (d + 48 :: nat)) = d + 48"
  by (simp_all add: is_digit_def)

lemma nat_to_string_digits: "\<forall>c\<in>set (nat_to_string n). is_digit c"
proof (induction n rule: nat_to_string.induct)
  case (1 n)
  then show ?case by (subst nat_to_string.simps) (auto simp: digit_char(1))
qed

lemma nat_to_string_value: "digits_value (nat_to_string n) = int n"
proof (induction n rule: nat_to_string.induct)
  case (1 n)
  show ?case
  proof (cases "n < 10")
    case False
    moreover have "int n = 10 * int (n div 10) + int (n mod 10)" by presburger
    ultimately show ?thesis using 1
      by (subst nat_to_string.simps) (simp add: digits_value_def digit_char(2) [of "n mod 10"])
  qed (subst nat_to_string.simps, simp add: digits_value_def digit_char(2))
qed

lemma nat_to_string_nonempty: "nat_to_string n \<noteq> []"
  by (subst nat_to_string.simps) auto

lemma digit_not: "is_digit c \<Longrightarrow> \<not> is_space c" "is_digit c \<Longrightarrow> c \<noteq> NUL" "is_digit c \<Longrightarrow> c \<noteq> CHR ''-''" "is_digit c \<Longrightarrow> c \<noteq> CHR ''+''"
  by (auto simp: is_digit_def is_space_def NUL_def)

lemma takeWhile_all: "\<forall>c\<in>set s. P c \<Longrightarrow> takeWhile P s = s"
  by (induction s) auto

lemma signed_digits_int: "signed_digits (dropWhile is_space (c_str (int_to_string i))) = i"
proof -
  have d: "takeWhile is_digit (nat_to_string n) = nat_to_string n" "c_str (nat_to_string n) = nat_to_string n" for n
    using nat_to_string_digits [of n] digit_not(2) by (auto simp: c_str_def takeWhile_all)
  show ?thesis
  proof (cases "i < 0")
    case True
    then have "c_str (int_to_string i) = CHR ''-'' # nat_to_string (nat (- i))"
      using d(2) [of "nat (- i)"] by (simp add: int_to_string_def c_str_def NUL_def)
    then show ?thesis using True by (simp add: signed_digits_def d is_space_def nat_to_string_value)
  next
    case False
    obtain c cs where c: "nat_to_string (nat i) = c # cs" using nat_to_string_nonempty by (cases "nat_to_string (nat i)") auto
    then have "is_digit c" using nat_to_string_digits [of "nat i"] by simp
    then show ?thesis using False c d [of "nat i"] digit_not [of c] nat_to_string_value [of "nat i"]
      by (simp add: int_to_string_def signed_digits_def takeWhile_all)
  qed
qed

lemma atoi_int_to_string: "- (2 ^ 31) \<le> i \<Longrightarrow> i < 2 ^ 31 \<Longrightarrow> atoi (int_to_string i) = Inr i"
  by (simp add: atoi_def signed_digits_int signed_value_def)

section \<open>What the command line means\<close>

text \<open>The number an argument begins with, and whether an \<^verbatim>\<open>int\<close> holds it.\<close>

definition number :: "string \<Rightarrow> int" where
  "number s = signed_digits (dropWhile is_space (c_str s))"

definition fits :: "string \<Rightarrow> bool" where
  "fits s \<longleftrightarrow> - (2 ^ 31) \<le> number s \<and> number s < 2 ^ 31"

definition group_cfg :: "(string \<Rightarrow> 'f) \<Rightarrow> string list \<Rightarrow> nat \<Rightarrow> 'f TradeEngineCfg" where
  "group_cfg atof argv i =
     \<lparr>clip = word_of_int (number (argv ! i)), threshold = atof (argv ! (i + 1)),
      risk_cfg = \<lparr>max_order_size = word_of_int (number (argv ! (i + 2))),
        max_position = word_of_int (number (argv ! (i + 3))), max_loss = atof (argv ! (i + 4))\<rparr>\<rparr>"

definition all_fit :: "string list \<Rightarrow> bool" where
  "all_fit argv \<longleftrightarrow> list_all fits argv"

lemma qty_arg_fits:
  assumes "all_fit argv"
  shows "qty_arg argv i = (if i < length argv then Inr (word_of_int (number (argv ! i)))
     else if i = length argv then Inl Null_deref else Inl Bad_index)"
proof -
  have "fits (argv ! i)" if "i < length argv" using assms that by (simp add: all_fit_def list_all_length)
  then show ?thesis by (simp add: qty_arg_def arg_def atoi_def number_def fits_def signed_value_def)
qed

lemma double_arg_eq:
  "double_arg atof argv i = (if i < length argv then Inr (atof (argv ! i))
     else if i = length argv then Inl Null_deref else Inl Bad_index)"
  by (simp add: double_arg_def arg_def)

lemma parse_cfg_eq:
  assumes "all_fit argv" and "i \<le> length argv"
  shows "parse_cfg atof argv i = (if i + 5 \<le> length argv then Inr (group_cfg atof argv i) else Inl Null_deref)"
proof (cases "i + 5 \<le> length argv")
  case False
  then consider "i = length argv" | "i + 1 = length argv" | "i + 2 = length argv" | "i + 3 = length argv" | "i + 4 = length argv"
    using assms(2) by linarith
  then show ?thesis
    by cases (simp_all add: parse_cfg_def qty_arg_fits [OF assms(1)] double_arg_eq)
qed (simp add: parse_cfg_def qty_arg_fits [OF assms(1)] double_arg_eq group_cfg_def)

lemma cfg_loop_eq:
  assumes "all_fit argv" and "i \<le> length argv" and "k \<le> ME_MAX_TICKERS"
  shows "cfg_loop atof argv i k cfg =
     (let m = length argv - i in
      if m \<ge> 5 * (ME_MAX_TICKERS - k) + 5 then Inl Out_of_range
      else if m mod 5 \<noteq> 0 then Inl Null_deref
      else Inr (\<lambda>t. if k \<le> t \<and> t < k + m div 5 then group_cfg atof argv (i + 5 * (t - k)) else cfg t))"
  using assms
proof (induction atof argv i k cfg rule: cfg_loop.induct)
  case (1 atof argv i k cfg)
  show ?case
  proof (cases "i + 5 \<le> length argv")
    case True
    let ?g = "group_cfg atof argv i"
    define m where "m = length argv - (i + 5)"
    have m: "length argv - i = m + 5" using True by (simp add: m_def)
    have loop: "cfg_loop atof argv i k cfg =
        (if k < ME_MAX_TICKERS then cfg_loop atof argv (i + 5) (k + 1) (cfg(k := ?g)) else Inl Out_of_range)"
      using True by (subst cfg_loop.simps) (simp add: parse_cfg_eq [OF 1(2,3)] array_set_at_def)
    show ?thesis
    proof (cases "k < ME_MAX_TICKERS")
      case k: True
      have IH: "cfg_loop atof argv (i + 5) (k + 1) (cfg(k := ?g)) =
        (if m \<ge> 5 * (ME_MAX_TICKERS - (k + 1)) + 5 then Inl Out_of_range else if m mod 5 \<noteq> 0 then Inl Null_deref
         else Inr (\<lambda>t. if k + 1 \<le> t \<and> t < k + 1 + m div 5 then group_cfg atof argv (i + 5 + 5 * (t - (k + 1))) else (cfg(k := ?g)) t))"
        unfolding m_def by (rule 1(1) [unfolded Let_def]) (use True k 1(2) in auto)
      have "m \<ge> 5 * (ME_MAX_TICKERS - (k + 1)) + 5 \<longleftrightarrow> m + 5 \<ge> 5 * (ME_MAX_TICKERS - k) + 5" using k by auto
      moreover have "(\<lambda>t. if k + 1 \<le> t \<and> t < k + 1 + m div 5 then group_cfg atof argv (i + 5 + 5 * (t - (k + 1))) else (cfg(k := ?g)) t) =
        (\<lambda>t. if k \<le> t \<and> t < k + (m div 5 + 1) then group_cfg atof argv (i + 5 * (t - k)) else cfg t)"
      proof
        fix t
        have "group_cfg atof argv (i + 5 + 5 * (t - (k + 1))) = group_cfg atof argv (i + 5 * (t - k))" if "k + 1 \<le> t"
          using that by (intro arg_cong [of _ _ "group_cfg atof argv"]) simp
        then show "(if k + 1 \<le> t \<and> t < k + 1 + m div 5 then group_cfg atof argv (i + 5 + 5 * (t - (k + 1))) else (cfg(k := ?g)) t) =
          (if k \<le> t \<and> t < k + (m div 5 + 1) then group_cfg atof argv (i + 5 * (t - k)) else cfg t)"
          by (cases "t = k") auto
      qed
      ultimately show ?thesis using trans [OF loop [unfolded if_P [OF k]] IH] k by (simp add: m Let_def)
    qed (use loop m 1(4) in \<open>simp add: Let_def\<close>)
  next
    case False
    have "cfg_loop atof argv i k cfg = (if i < length argv then Inl Null_deref else Inr cfg)"
      using False by (subst cfg_loop.simps) (simp add: parse_cfg_eq [OF 1(2,3)])
    moreover have "length argv - i < 5" using False 1(3) by auto
    ultimately show ?thesis using 1(3) by (auto simp: Let_def fun_eq_iff)
  qed
qed

text \<open>C23: The meaning of the command line, when every argument that should be an integer fits an int. Without
  a client id and an algorithm the program ends with its usage. Each complete group of five numbers
  configures the next ticker and the other tickers keep the zero limits. Nine groups end the process
  with an exception of the checked array; an incomplete last group makes it read the null pointer
  behind the arguments.
\<close>

theorem command_line_exact:
  assumes "all_fit argv"
  shows "trading_arguments F atof argv =
    (let n = length argv - 3 in
     if length argv < 3 then FATAL ''USAGE trading_main CLIENT_ID ALGO_TYPE [CLIP_1 THRESH_1 MAX_ORDER_SIZE_1 MAX_POS_1 MAX_LOSS_1] [CLIP_2 THRESH_2 MAX_ORDER_SIZE_2 MAX_POS_2 MAX_LOSS_2] ...''
     else if n \<ge> 45 then Inl Out_of_range
     else if n mod 5 \<noteq> 0 then Inl Null_deref
     else Inr \<lparr>arg_client_id = word_of_int (number (argv ! 1)), arg_algo_type = stringToAlgoType (c_str (argv ! 2)),
       arg_ticker_cfg = (\<lambda>t. if t < n div 5 then group_cfg atof argv (3 + 5 * t) else TradeEngineCfg_default F)\<rparr>)"
proof (cases "length argv < 3")
  case False
  then have "qty_arg argv 1 = Inr (word_of_int (number (argv ! 1)))" "arg argv 2 = Inr (argv ! 2)"
    by (simp_all add: qty_arg_fits [OF assms] arg_def)
  then show ?thesis using False cfg_loop_eq [OF assms, of 3 0 atof "\<lambda>_. TradeEngineCfg_default F"]
    by (simp add: trading_arguments_def Let_def ME_MAX_TICKERS_def cong: if_cong)
qed (simp add: trading_arguments_def)

theorem command_line_exact_witness:
  "\<exists>args. trading_arguments exact_ops (\<lambda>_. Num 0) [''trading_main'', ''2'', ''MAKER'', ''100'', ''0.6'', ''150'', ''300'', ''-100''] = Inr args \<and>
     arg_client_id args = 2 \<and> arg_algo_type args = MAKER \<and> max_position (risk_cfg (arg_ticker_cfg args 0)) = 300 \<and>
     max_position (risk_cfg (arg_ticker_cfg args 1)) = 0"
proof -
  let ?argv = "[''trading_main'', ''2'', ''MAKER'', ''100'', ''0.6'', ''150'', ''300'', ''-100'']"
  have n: "number ''2'' = 2" "number ''300'' = 300" "all_fit ?argv" by code_simp+
  moreover have "stringToAlgoType (c_str ''MAKER'') = MAKER" by code_simp
  ultimately show ?thesis using command_line_exact [OF n(3), of exact_ops "\<lambda>_. Num 0"]
    by (simp add: Let_def group_cfg_def TradeEngineCfg_default_def)
qed

end
