(* ===== verification/Socket_Utils.thy ===== *)
theory Socket_Utils
  imports Order_Server Logging
begin

text \<open>
  The creation of sockets: \<^verbatim>\<open>src/common/socket_utils.h\<close> and the operations of
  \<^verbatim>\<open>tcp_socket.cpp\<close>, \<^verbatim>\<open>mcast_socket.cpp\<close> and \<^verbatim>\<open>tcp_server.cpp\<close> that call it. The
  operating system is a parameter: a function from the calls made so far and a new call to its
  answer. An operation extends the list of the calls. The name resolution of the C library is a
  record of functions. Messages built from \<^verbatim>\<open>errno\<close> are cut to their first part.
\<close>

unbundle bit_operations_syntax

section \<open>The operating system and the C library\<close>

type_synonym c_int = "32 word"

text \<open>An address of the family \<^verbatim>\<open>AF_INET\<close>: the port and the host, in the order of the host.\<close>

record sockaddr_in =
  sin_family :: c_int
  sin_port :: "16 word"
  sin_addr :: "32 word"

datatype opt_value = Opt_int c_int | Opt_mreq "32 word" "32 word"

datatype sys_call =
    Sys_socket c_int c_int c_int
  | Sys_getfl c_int
  | Sys_setfl c_int c_int
  | Sys_setsockopt c_int c_int c_int opt_value
  | Sys_connect c_int sockaddr_in
  | Sys_bind c_int sockaddr_in
  | Sys_listen c_int c_int
  | Sys_accept c_int
  | Sys_close c_int
  | Sys_epoll_create c_int
  | Sys_epoll_add c_int c_int

type_synonym kernel = "sys_call list \<Rightarrow> sys_call \<Rightarrow> c_int"

definition sys :: "kernel \<Rightarrow> sys_call \<Rightarrow> sys_call list \<Rightarrow> c_int \<times> sys_call list" where
  "sys K c h = (K h c, h @ [c])"

text \<open>The constants of the headers, with their values on Linux.\<close>

definition AF_INET :: c_int where "AF_INET = 2"
definition SOCK_STREAM :: c_int where "SOCK_STREAM = 1"
definition SOCK_DGRAM :: c_int where "SOCK_DGRAM = 2"
definition IPPROTO_IP :: c_int where "IPPROTO_IP = 0"
definition IPPROTO_TCP :: c_int where "IPPROTO_TCP = 6"
definition IPPROTO_UDP :: c_int where "IPPROTO_UDP = 17"
definition SOL_SOCKET :: c_int where "SOL_SOCKET = 1"
definition SO_REUSEADDR :: c_int where "SO_REUSEADDR = 2"
definition SO_TIMESTAMP :: c_int where "SO_TIMESTAMP = 29"
definition TCP_NODELAY :: c_int where "TCP_NODELAY = 1"
definition IP_ADD_MEMBERSHIP :: c_int where "IP_ADD_MEMBERSHIP = 35"
definition O_NONBLOCK :: c_int where "O_NONBLOCK = 0x800"
definition AI_PASSIVE :: c_int where "AI_PASSIVE = 1"
definition AI_NUMERICHOST :: c_int where "AI_NUMERICHOST = 4"
definition AI_NUMERICSERV :: c_int where "AI_NUMERICSERV = 0x400"
definition INADDR_ANY :: "32 word" where "INADDR_ANY = 0"

record addrinfo =
  ai_flags :: c_int
  ai_family :: c_int
  ai_socktype :: c_int
  ai_protocol :: c_int
  ai_addr :: sockaddr_in

record ifaddrs =
  ifa_name :: string
  ifa_addr :: "sockaddr_in option"

text \<open>
  The C library: the interfaces (\<open>None\<close> when the call fails), the text that \<^verbatim>\<open>getnameinfo\<close>
  leaves in a cleared buffer, the resolution of a host and a service (a number other than zero, or a
  list of addresses), and the conversion of an address.
\<close>

record net_lib =
  getifaddrs :: "ifaddrs list option"
  getnameinfo :: "sockaddr_in \<Rightarrow> string"
  getaddrinfo :: "string \<Rightarrow> string \<Rightarrow> c_int \<Rightarrow> c_int \<Rightarrow> c_int \<Rightarrow> c_int \<Rightarrow> c_int + addrinfo list"
  inet_addr :: "string \<Rightarrow> 32 word"

section \<open>socket_utils.h\<close>

record SocketCfg =
  cfg_ip :: string
  cfg_iface :: string
  cfg_port :: c_int
  is_udp :: bool
  is_listening :: bool
  needs_so_timestamp :: bool

definition bool_text :: "bool \<Rightarrow> string" where
  "bool_text b = (if b then ''1'' else ''0'')"

definition SocketCfg_toString :: "SocketCfg \<Rightarrow> string" where
  "SocketCfg_toString cfg =
     ''SocketCfg[ip:'' @ cfg_ip cfg @ '' iface:'' @ cfg_iface cfg @ '' port:'' @ int_to_string (sint (cfg_port cfg)) @
     '' is_udp:'' @ bool_text (is_udp cfg) @ '' is_listening:'' @ bool_text (is_listening cfg) @
     '' needs_SO_timestamp:'' @ bool_text (needs_so_timestamp cfg) @ '']''"

definition MaxTCPServerBacklog :: c_int where "MaxTCPServerBacklog = 1024"

text \<open>The first interface with the name and an address of the family; the text is empty without one.\<close>

fun iface_loop :: "net_lib \<Rightarrow> ifaddrs list \<Rightarrow> string \<Rightarrow> string" where
  "iface_loop lib [] iface = []"
| "iface_loop lib (ifa # ifas) iface =
     (case ifa_addr ifa of
        Some a \<Rightarrow>
          if sin_family a = AF_INET \<and> iface = ifa_name ifa then c_str (getnameinfo lib a)
          else iface_loop lib ifas iface
      | None \<Rightarrow> iface_loop lib ifas iface)"

definition getIfaceIP :: "net_lib \<Rightarrow> string \<Rightarrow> string" where
  "getIfaceIP lib iface = (case getifaddrs lib of None \<Rightarrow> [] | Some ifas \<Rightarrow> iface_loop lib ifas iface)"

definition setNonBlocking :: "kernel \<Rightarrow> c_int \<Rightarrow> sys_call list \<Rightarrow> bool \<times> sys_call list" where
  "setNonBlocking K fd h =
     (let (flags, h1) = sys K (Sys_getfl fd) h in
      if flags AND O_NONBLOCK \<noteq> 0 then (True, h1)
      else let (rc, h2) = sys K (Sys_setfl fd (flags OR O_NONBLOCK)) h1 in (rc \<noteq> - 1, h2))"

definition disableNagle :: "kernel \<Rightarrow> c_int \<Rightarrow> sys_call list \<Rightarrow> bool \<times> sys_call list" where
  "disableNagle K fd h =
     (let (rc, h1) = sys K (Sys_setsockopt fd IPPROTO_TCP TCP_NODELAY (Opt_int 1)) h in (rc \<noteq> - 1, h1))"

definition setSOTimestamp :: "kernel \<Rightarrow> c_int \<Rightarrow> sys_call list \<Rightarrow> bool \<times> sys_call list" where
  "setSOTimestamp K fd h =
     (let (rc, h1) = sys K (Sys_setsockopt fd SOL_SOCKET SO_TIMESTAMP (Opt_int 1)) h in (rc \<noteq> - 1, h1))"

definition join_group :: "kernel \<Rightarrow> net_lib \<Rightarrow> c_int \<Rightarrow> string \<Rightarrow> sys_call list \<Rightarrow> bool \<times> sys_call list" where
  "join_group K lib fd ip h =
     (let (rc, h1) = sys K (Sys_setsockopt fd IPPROTO_IP IP_ADD_MEMBERSHIP
                              (Opt_mreq (inet_addr lib (c_str ip)) INADDR_ANY)) h
      in (rc \<noteq> - 1, h1))"

text \<open>A call whose result is asserted.\<close>

definition asserting :: "bool \<times> sys_call list \<Rightarrow> string \<Rightarrow> sys_call list result" where
  "asserting r msg = andThen (ASSERT (fst r) msg) (\<lambda>_. Inr (snd r))"

definition asserting_sys ::
    "kernel \<Rightarrow> sys_call \<Rightarrow> (c_int \<Rightarrow> bool) \<Rightarrow> string \<Rightarrow> sys_call list \<Rightarrow> sys_call list result" where
  "asserting_sys K c good msg h = (let (rc, h1) = sys K c h in asserting (good rc, h1) msg)"

text \<open>
  The body of the loop over the addresses. The test of \<^verbatim>\<open>connect\<close> is for a result other than one.
\<close>

definition open_address ::
    "kernel \<Rightarrow> SocketCfg \<Rightarrow> addrinfo \<Rightarrow> sys_call list \<Rightarrow> (c_int \<times> sys_call list) result" where
  "open_address K cfg rp h =
     (let (socket_fd, h1) = sys K (Sys_socket (ai_family rp) (ai_socktype rp) (ai_protocol rp)) h in
     andThen (ASSERT (socket_fd \<noteq> - 1) ''socket() failed.'') (\<lambda>_.
     andThen (asserting (setNonBlocking K socket_fd h1) ''setNonBlocking() failed.'') (\<lambda>h2.
     andThen (if \<not> is_udp cfg then asserting (disableNagle K socket_fd h2) ''disableNagle() failed.'' else Inr h2)
       (\<lambda>h3.
     andThen (if \<not> is_listening cfg
              then asserting_sys K (Sys_connect socket_fd (ai_addr rp)) (\<lambda>rc. rc \<noteq> 1) ''connect() failed.'' h3
              else Inr h3) (\<lambda>h4.
     andThen (if is_listening cfg
              then asserting_sys K (Sys_setsockopt socket_fd SOL_SOCKET SO_REUSEADDR (Opt_int 1)) (\<lambda>rc. rc = 0)
                     ''setsockopt() SO_REUSEADDR failed.'' h4
              else Inr h4) (\<lambda>h5.
     andThen (if is_listening cfg
              then
                (let addr = \<lparr>sin_family = AF_INET, sin_port = ucast (cfg_port cfg), sin_addr = INADDR_ANY\<rparr> in
                 asserting_sys K (Sys_bind socket_fd (if is_udp cfg then addr else ai_addr rp)) (\<lambda>rc. rc = 0)
                   ''bind() failed.'' h5)
              else Inr h5) (\<lambda>h6.
     andThen (if \<not> is_udp cfg \<and> is_listening cfg
              then asserting_sys K (Sys_listen socket_fd MaxTCPServerBacklog) (\<lambda>rc. rc = 0) ''listen() failed.'' h6
              else Inr h6) (\<lambda>h7.
     andThen (if needs_so_timestamp cfg
              then asserting (setSOTimestamp K socket_fd h7) ''setSOTimestamp() failed.''
              else Inr h7) (\<lambda>h8.
     Inr (socket_fd, h8))))))))))"

fun createSocket_loop ::
    "kernel \<Rightarrow> SocketCfg \<Rightarrow> addrinfo list \<Rightarrow> c_int \<Rightarrow> sys_call list \<Rightarrow> (c_int \<times> sys_call list) result" where
  "createSocket_loop K cfg [] socket_fd h = Inr (socket_fd, h)"
| "createSocket_loop K cfg (rp # rps) socket_fd h =
     andThen (open_address K cfg rp h) (\<lambda>(fd, h1). createSocket_loop K cfg rps fd h1)"

text \<open>What the name resolution is asked for.\<close>

definition resolve :: "net_lib \<Rightarrow> SocketCfg \<Rightarrow> c_int + addrinfo list" where
  "resolve lib cfg =
     (let ip = (if cfg_ip cfg = [] then getIfaceIP lib (cfg_iface cfg) else cfg_ip cfg);
          input_flags = (if is_listening cfg then AI_PASSIVE else 0) OR (AI_NUMERICHOST OR AI_NUMERICSERV)
      in getaddrinfo lib (c_str ip) (int_to_string (sint (cfg_port cfg))) input_flags AF_INET
           (if is_udp cfg then SOCK_DGRAM else SOCK_STREAM) (if is_udp cfg then IPPROTO_UDP else IPPROTO_TCP))"

definition createSocket ::
    "kernel \<Rightarrow> net_lib \<Rightarrow> SocketCfg \<Rightarrow> sys_call list \<Rightarrow> (c_int \<times> sys_call list) result" where
  "createSocket K lib cfg h =
     (case resolve lib cfg of
        Inl rc \<Rightarrow> Inl (Assert_failed ''getaddrinfo() failed.'')
      | Inr result \<Rightarrow> createSocket_loop K cfg result (- 1) h)"

section \<open>The callers\<close>

definition McastSocket_init ::
    "kernel \<Rightarrow> net_lib \<Rightarrow> string \<Rightarrow> string \<Rightarrow> c_int \<Rightarrow> bool \<Rightarrow> sys_call list \<Rightarrow> (c_int \<times> sys_call list) result" where
  "McastSocket_init K lib ip iface port listening h =
     createSocket K lib \<lparr>cfg_ip = ip, cfg_iface = iface, cfg_port = port, is_udp = True, is_listening = listening,
       needs_so_timestamp = False\<rparr> h"

definition McastSocket_join ::
    "kernel \<Rightarrow> net_lib \<Rightarrow> c_int \<Rightarrow> string \<Rightarrow> sys_call list \<Rightarrow> bool \<times> sys_call list" where
  "McastSocket_join K lib socket_fd ip h = join_group K lib socket_fd ip h"

text \<open>\<^verbatim>\<open>leave\<close> closes the socket; the result is the new value of \<^verbatim>\<open>socket_fd_\<close>.\<close>

definition McastSocket_leave :: "kernel \<Rightarrow> c_int \<Rightarrow> sys_call list \<Rightarrow> c_int \<times> sys_call list" where
  "McastSocket_leave K socket_fd h = (let (_, h1) = sys K (Sys_close socket_fd) h in (- 1, h1))"

text \<open>\<^verbatim>\<open>connect\<close> also fills the address that is handed to \<^verbatim>\<open>recvmsg\<close>.\<close>

definition TCPSocket_connect ::
    "kernel \<Rightarrow> net_lib \<Rightarrow> string \<Rightarrow> string \<Rightarrow> c_int \<Rightarrow> bool \<Rightarrow> sys_call list \<Rightarrow>
     (c_int \<times> sockaddr_in \<times> sys_call list) result" where
  "TCPSocket_connect K lib ip iface port listening h =
     andThen (createSocket K lib \<lparr>cfg_ip = ip, cfg_iface = iface, cfg_port = port, is_udp = False,
                is_listening = listening, needs_so_timestamp = True\<rparr> h) (\<lambda>(socket_fd, h1).
     Inr (socket_fd, \<lparr>sin_family = AF_INET, sin_port = ucast port, sin_addr = INADDR_ANY\<rparr>, h1))"

definition addToEpollList :: "kernel \<Rightarrow> c_int \<Rightarrow> c_int \<Rightarrow> sys_call list \<Rightarrow> bool \<times> sys_call list" where
  "addToEpollList K epoll_fd socket_fd h = (let (rc, h1) = sys K (Sys_epoll_add epoll_fd socket_fd) h in (rc = 0, h1))"

text \<open>
  \<^verbatim>\<open>TCPServer::listen\<close> with its calls. The result is the descriptor of the listener and that of
  the epoll instance.
\<close>

definition TCPServer_listen ::
    "kernel \<Rightarrow> net_lib \<Rightarrow> string \<Rightarrow> c_int \<Rightarrow> sys_call list \<Rightarrow> (c_int \<times> c_int \<times> sys_call list) result" where
  "TCPServer_listen K lib iface port h =
     (let (epoll_fd, h1) = sys K (Sys_epoll_create 1) h in
      andThen (ASSERT (0 \<le> sint epoll_fd) ''epoll_create() failed.'') (\<lambda>_.
      andThen (TCPSocket_connect K lib [] iface port True h1) (\<lambda>(socket_fd, _, h2).
      andThen (ASSERT (0 \<le> sint socket_fd) ''Listener socket failed to connect.'') (\<lambda>_.
      andThen (asserting (addToEpollList K epoll_fd socket_fd h2) ''epoll_ctl() failed.'') (\<lambda>h3.
      Inr (socket_fd, epoll_fd, h3))))))"

text \<open>
  The loop of \<^verbatim>\<open>TCPServer::poll\<close> over new connections, until \<^verbatim>\<open>accept\<close> has none left, with the
  number of connections it may accept; and \<^verbatim>\<open>poll\<close> with it. A socket is known to the order server
  by its descriptor.
\<close>

fun accept_connections ::
    "nat \<Rightarrow> kernel \<Rightarrow> c_int \<Rightarrow> c_int \<Rightarrow> sys_call list \<Rightarrow> (c_int list \<times> sys_call list) result" where
  "accept_connections fuel K epoll_fd listener_fd h =
     (let (fd, h1) = sys K (Sys_accept listener_fd) h in
      if fd = - 1 then Inr ([], h1)
      else
        (case fuel of
           0 \<Rightarrow> Inl Diverges
         | Suc fuel' \<Rightarrow>
             let (non_blocking, h2) = setNonBlocking K fd h1;
                 (ready, h3) = (if non_blocking then disableNagle K fd h2 else (False, h2)) in
             andThen (ASSERT ready ''Failed to set non-blocking or no-delay on socket:'') (\<lambda>_.
             andThen (asserting (addToEpollList K epoll_fd fd h3) ''Unable to add socket.'') (\<lambda>h4.
             andThen (accept_connections fuel' K epoll_fd listener_fd h4) (\<lambda>(fds, h5).
             Inr (fd # fds, h5))))))"

declare accept_connections.simps [simp del]

definition TCPServer_poll ::
    "nat \<Rightarrow> kernel \<Rightarrow> c_int \<Rightarrow> c_int \<Rightarrow> epoll_event list \<Rightarrow> OrderServer \<Rightarrow> sys_call list \<Rightarrow> (OrderServer \<times> sys_call list) result" where
  "TCPServer_poll fuel K epoll_fd listener_fd events os h =
     (let have_new_connection = (\<exists>ev\<in>set events. ev_in ev \<and> ev_socket ev = listener_socket os) in
      andThen (if have_new_connection then accept_connections fuel K epoll_fd listener_fd h else Inr ([], h)) (\<lambda>(fds, h1).
      Inr (poll os events (map unat fds), h1)))"

section \<open>The state of a socket\<close>

text \<open>
  What the operating system keeps of a socket, and what a call that is answered 0 does to it. The
  state after a list of calls is computed from the answers, whatever program makes the calls.
\<close>

record sock_state =
  so_flags :: c_int
  so_nodelay :: bool
  so_timestamp :: bool
  so_reuse :: bool
  so_bound :: "sockaddr_in option"
  so_listening :: bool
  so_peer :: "sockaddr_in option"

definition new_sock :: "c_int \<Rightarrow> sock_state" where
  "new_sock flags = \<lparr>so_flags = flags, so_nodelay = False, so_timestamp = False, so_reuse = False,
     so_bound = None, so_listening = False, so_peer = None\<rparr>"

definition set_option :: "c_int \<Rightarrow> c_int \<Rightarrow> opt_value \<Rightarrow> sock_state \<Rightarrow> sock_state" where
  "set_option level name v s =
     (if level = IPPROTO_TCP \<and> name = TCP_NODELAY then s\<lparr>so_nodelay := (v \<noteq> Opt_int 0)\<rparr>
      else if level = SOL_SOCKET \<and> name = SO_TIMESTAMP then s\<lparr>so_timestamp := (v \<noteq> Opt_int 0)\<rparr>
      else if level = SOL_SOCKET \<and> name = SO_REUSEADDR then s\<lparr>so_reuse := (v \<noteq> Opt_int 0)\<rparr>
      else s)"

fun call_fd :: "sys_call \<Rightarrow> c_int option" where
  "call_fd (Sys_getfl fd) = Some fd"
| "call_fd (Sys_setfl fd _) = Some fd"
| "call_fd (Sys_setsockopt fd _ _ _) = Some fd"
| "call_fd (Sys_connect fd _) = Some fd"
| "call_fd (Sys_bind fd _) = Some fd"
| "call_fd (Sys_listen fd _) = Some fd"
| "call_fd (Sys_accept fd) = Some fd"
| "call_fd (Sys_close fd) = Some fd"
| "call_fd _ = None"

fun sock_effect :: "sys_call \<Rightarrow> sock_state \<Rightarrow> sock_state" where
  "sock_effect (Sys_setfl _ flags) s = s\<lparr>so_flags := flags\<rparr>"
| "sock_effect (Sys_setsockopt _ level name v) s = set_option level name v s"
| "sock_effect (Sys_connect _ addr) s = s\<lparr>so_peer := Some addr\<rparr>"
| "sock_effect (Sys_bind _ addr) s = s\<lparr>so_bound := Some addr\<rparr>"
| "sock_effect (Sys_listen _ _) s = s\<lparr>so_listening := True\<rparr>"
| "sock_effect _ s = s"

fun sock_run :: "kernel \<Rightarrow> c_int \<Rightarrow> sys_call list \<Rightarrow> sys_call list \<Rightarrow> sock_state \<Rightarrow> sock_state" where
  "sock_run K fd h [] s = s"
| "sock_run K fd h (c # cs) s =
     sock_run K fd (h @ [c]) cs (if call_fd c = Some fd \<and> K h c = 0 then sock_effect c s else s)"

text \<open>The calls that configure a socket are answered 0 or -1.\<close>

fun is_config :: "sys_call \<Rightarrow> bool" where
  "is_config (Sys_setfl _ _) = True"
| "is_config (Sys_setsockopt _ _ _ _) = True"
| "is_config (Sys_bind _ _) = True"
| "is_config (Sys_listen _ _) = True"
| "is_config _ = False"

definition posix :: "kernel \<Rightarrow> bool" where
  "posix K \<longleftrightarrow> (\<forall>h c. is_config c \<or> (\<exists>fd a. c = Sys_connect fd a) \<longrightarrow> K h c = 0 \<or> K h c = - 1)"

lemma posix_failed:
  assumes "posix K"
  shows "K h (Sys_setfl a b) = - 1 \<longleftrightarrow> K h (Sys_setfl a b) \<noteq> 0"
    "K h (Sys_setsockopt a x y v) = - 1 \<longleftrightarrow> K h (Sys_setsockopt a x y v) \<noteq> 0"
    "K h (Sys_connect a ad) \<noteq> 1"
  using assms [unfolded posix_def, rule_format, of "Sys_setfl a b" h]
    assms [unfolded posix_def, rule_format, of "Sys_setsockopt a x y v" h]
    assms [unfolded posix_def, rule_format, of "Sys_connect a ad" h] by auto

text \<open>The address to be bound.\<close>

definition wanted_address :: "SocketCfg \<Rightarrow> addrinfo \<Rightarrow> sockaddr_in" where
  "wanted_address cfg rp =
     (if is_udp cfg then \<lparr>sin_family = AF_INET, sin_port = ucast (cfg_port cfg), sin_addr = INADDR_ANY\<rparr> else ai_addr rp)"

lemmas sys_simps = sys_def asserting_def asserting_sys_def setNonBlocking_def disableNagle_def setSOTimestamp_def

lemmas sock_consts = set_option_def IPPROTO_TCP_def TCP_NODELAY_def SOL_SOCKET_def SO_TIMESTAMP_def SO_REUSEADDR_def

lemma set_option_simps [simp]:
  "set_option IPPROTO_TCP TCP_NODELAY (Opt_int 1) s = s\<lparr>so_nodelay := True\<rparr>"
  "set_option SOL_SOCKET SO_TIMESTAMP (Opt_int 1) s = s\<lparr>so_timestamp := True\<rparr>"
  "set_option SOL_SOCKET SO_REUSEADDR (Opt_int 1) s = s\<lparr>so_reuse := True\<rparr>"
  by (simp_all add: sock_consts)

lemma or_and_mask [simp]: "(x OR m) AND m = (m :: 'a::len word)"
  by (rule bit_word_eqI) (auto simp: bit_simps)

text \<open>A part of the program takes the socket from one state to another, with calls on it alone.\<close>

definition sock_moves :: "kernel \<Rightarrow> c_int \<Rightarrow> sys_call list \<Rightarrow> sock_state \<Rightarrow> sys_call list \<Rightarrow> sock_state \<Rightarrow> bool" where
  "sock_moves K fd h s h' s' \<longleftrightarrow> (\<exists>cs. h' = h @ cs \<and> (\<forall>c\<in>set cs. call_fd c = Some fd) \<and> sock_run K fd h cs s = s')"

lemma sock_run_append: "sock_run K fd h (cs @ ds) s = sock_run K fd (h @ cs) ds (sock_run K fd h cs s)"
  by (induction cs arbitrary: h s) simp_all

lemma moves_refl: "sock_moves K fd h s h s"
  unfolding sock_moves_def by (rule exI [of _ "[]"]) simp

lemma moves_trans:
  assumes "sock_moves K fd h s h1 s1" and "sock_moves K fd h1 s1 h2 s2"
  shows "sock_moves K fd h s h2 s2"
proof -
  obtain cs ds where "h1 = h @ cs" "\<forall>c\<in>set cs. call_fd c = Some fd" "sock_run K fd h cs s = s1"
    "h2 = h1 @ ds" "\<forall>c\<in>set ds. call_fd c = Some fd" "sock_run K fd h1 ds s1 = s2"
    using assms unfolding sock_moves_def by blast
  then show ?thesis unfolding sock_moves_def by (intro exI [of _ "cs @ ds"]) (auto simp: sock_run_append)
qed

lemma moves_call:
  "call_fd c = Some fd \<Longrightarrow> sock_moves K fd h s (h @ [c]) (if K h c = 0 then sock_effect c s else s)"
  unfolding sock_moves_def by (rule exI [of _ "[c]"]) simp

lemma moves_done: "call_fd c = Some fd \<Longrightarrow> K h c = 0 \<Longrightarrow> sock_effect c s = s' \<Longrightarrow> sock_moves K fd h s (h @ [c]) s'"
  using moves_call [of c fd K h s] by simp

lemma nonblock_moves:
  assumes "posix K" and "K h (Sys_getfl fd) \<in> {so_flags s, - 1}"
    and "asserting (setNonBlocking K fd h) msg = Inr h'"
  shows "\<exists>f. sock_moves K fd h s h' (s\<lparr>so_flags := f\<rparr>) \<and> (f AND O_NONBLOCK \<noteq> 0 \<or> K h (Sys_getfl fd) = - 1)"
proof -
  let ?g = "Sys_getfl fd" and ?f = "K h (Sys_getfl fd)"
  have g: "sock_moves K fd h s (h @ [?g]) s"
    using moves_call [of ?g fd K h s] by (simp only: call_fd.simps sock_effect.simps if_cancel simp_thms)
  show ?thesis
  proof (cases "?f AND O_NONBLOCK = 0")
    case False
    then have "h' = h @ [?g]" using assms(3) by (simp add: sys_simps result_simps)
    then show ?thesis using g False assms(2) by (intro exI [of _ "so_flags s"]) auto
  next
    case True
    let ?c = "Sys_setfl fd (?f OR O_NONBLOCK)"
    have "h' = (h @ [?g]) @ [?c]" "K (h @ [?g]) ?c = 0"
      using assms(3) True posix_failed(1) [OF assms(1)] by (simp_all add: sys_simps result_simps)
    moreover have "sock_moves K fd (h @ [?g]) s ((h @ [?g]) @ [?c]) (s\<lparr>so_flags := ?f OR O_NONBLOCK\<rparr>)" if "K (h @ [?g]) ?c = 0"
      using that by (intro moves_done) simp_all
    ultimately show ?thesis using moves_trans [OF g] by (intro exI [of _ "?f OR O_NONBLOCK"]) (simp add: O_NONBLOCK_def)
  qed
qed

lemma option_moves:
  assumes "posix K"
  shows "asserting (disableNagle K fd h) msg = Inr h' \<Longrightarrow> sock_moves K fd h s h' (s\<lparr>so_nodelay := True\<rparr>)"
    and "asserting (setSOTimestamp K fd h) msg = Inr h' \<Longrightarrow> sock_moves K fd h s h' (s\<lparr>so_timestamp := True\<rparr>)"
  using posix_failed(2) [OF assms]
  by (auto simp: sys_simps result_simps intro!: moves_done)

lemma asserted_moves:
  assumes "asserting_sys K c (\<lambda>rc. rc = 0) msg h = Inr h'" and "call_fd c = Some fd"
  shows "sock_moves K fd h s h' (sock_effect c s)"
  using assms by (auto simp: sys_simps result_simps intro!: moves_done)

text \<open>The connection is attempted, and what comes of it is left to the answer.\<close>

definition attempted :: "kernel \<Rightarrow> c_int \<Rightarrow> sockaddr_in \<Rightarrow> sys_call list \<Rightarrow> sock_state \<Rightarrow> bool" where
  "attempted K fd addr h s \<longleftrightarrow>
     (\<exists>as bs. h = as @ Sys_connect fd addr # bs \<and> so_peer s = (if K as (Sys_connect fd addr) = 0 then Some addr else None))"

lemma attempted_moves:
  assumes "attempted K fd addr h s" and "sock_moves K fd h s h' s'" and "so_peer s' = so_peer s"
  shows "attempted K fd addr h' s'"
proof -
  obtain as bs cs where "h = as @ Sys_connect fd addr # bs" "h' = h @ cs"
    "so_peer s = (if K as (Sys_connect fd addr) = 0 then Some addr else None)"
    using assms(1,2) unfolding attempted_def sock_moves_def by blast
  then show ?thesis unfolding attempted_def using assms(3)
    by (intro exI [of _ as] exI [of _ "bs @ cs"]) simp
qed

lemma connect_moves:
  assumes "asserting_sys K (Sys_connect fd addr) good msg h = Inr h'" and "so_peer s = None"
  shows "\<exists>p. sock_moves K fd h s h' (s\<lparr>so_peer := p\<rparr>) \<and> attempted K fd addr h' (s\<lparr>so_peer := p\<rparr>)"
proof -
  let ?c = "Sys_connect fd addr" and ?p = "if K h (Sys_connect fd addr) = 0 then Some addr else None"
  have "h' = h @ [?c]" using assms(1) by (auto simp: sys_simps result_simps)
  moreover have "sock_moves K fd h s (h @ [?c]) (s\<lparr>so_peer := ?p\<rparr>)"
    using moves_call [of ?c fd K h s] assms(2) by (cases s) auto
  moreover have "attempted K fd addr (h @ [?c]) (s\<lparr>so_peer := ?p\<rparr>)"
    unfolding attempted_def by (intro exI [of _ h] exI [of _ "[]"]) simp
  ultimately show ?thesis by blast
qed

text \<open>The state that a configuration asks for, for the flags and the peer it ends up with.\<close>

definition configured :: "SocketCfg \<Rightarrow> addrinfo \<Rightarrow> c_int \<Rightarrow> sockaddr_in option \<Rightarrow> sock_state" where
  "configured cfg rp flags peer =
     \<lparr>so_flags = flags, so_nodelay = (\<not> is_udp cfg), so_timestamp = needs_so_timestamp cfg, so_reuse = is_listening cfg,
      so_bound = (if is_listening cfg then Some (wanted_address cfg rp) else None),
      so_listening = (is_listening cfg \<and> \<not> is_udp cfg), so_peer = peer\<rparr>"

lemma open_address_moves:
  assumes posix: "posix K" and flags: "K (h @ [c]) (Sys_getfl (K h c)) \<in> {flags, - 1}"
    and c: "c = Sys_socket (ai_family rp) (ai_socktype rp) (ai_protocol rp)"
    and r: "open_address K cfg rp h = Inr (fd, h')"
  shows "fd = K h c \<and> fd \<noteq> - 1 \<and>
    (\<exists>f peer. sock_moves K fd (h @ [c]) (new_sock flags) h' (configured cfg rp f peer) \<and>
       (f AND O_NONBLOCK \<noteq> 0 \<or> K (h @ [c]) (Sys_getfl fd) = - 1) \<and>
       (if is_listening cfg then peer = None else attempted K fd (ai_addr rp) h' (configured cfg rp f peer)))"
proof -
  let ?h1 = "h @ [c]" and ?udp = "is_udp cfg" and ?ls = "is_listening cfg"
  let ?addr = "if ?udp then \<lparr>sin_family = AF_INET, sin_port = ucast (cfg_port cfg), sin_addr = INADDR_ANY\<rparr> else ai_addr rp"
  from r obtain h2 h3 h4 h5 h6 h7 where fd: "fd = K h c" "fd \<noteq> - 1"
    and s2: "asserting (setNonBlocking K fd ?h1) ''setNonBlocking() failed.'' = Inr h2"
    and s3: "(if \<not> ?udp then asserting (disableNagle K fd h2) ''disableNagle() failed.'' else Inr h2) = Inr h3"
    and s4: "(if \<not> ?ls then asserting_sys K (Sys_connect fd (ai_addr rp)) (\<lambda>rc. rc \<noteq> 1) ''connect() failed.'' h3 else Inr h3) = Inr h4"
    and s5: "(if ?ls then asserting_sys K (Sys_setsockopt fd SOL_SOCKET SO_REUSEADDR (Opt_int 1)) (\<lambda>rc. rc = 0)
      ''setsockopt() SO_REUSEADDR failed.'' h4 else Inr h4) = Inr h5"
    and s6: "(if ?ls then asserting_sys K (Sys_bind fd ?addr) (\<lambda>rc. rc = 0) ''bind() failed.'' h5 else Inr h5) = Inr h6"
    and s7: "(if \<not> ?udp \<and> ?ls then asserting_sys K (Sys_listen fd MaxTCPServerBacklog) (\<lambda>rc. rc = 0) ''listen() failed.'' h6 else Inr h6) = Inr h7"
    and s8: "(if needs_so_timestamp cfg then asserting (setSOTimestamp K fd h7) ''setSOTimestamp() failed.'' else Inr h7) = Inr h'"
    unfolding c open_address_def sys_def Let_def prod.case andThen_eq_Inr by (auto simp: ASSERT_eq_Inr)
  define st where "st = (\<lambda>f nd pe re bo li ts. \<lparr>so_flags = f, so_nodelay = nd, so_timestamp = ts, so_reuse = re,
    so_bound = bo, so_listening = li, so_peer = pe\<rparr>)"
  have upd: "(st f nd pe re bo li ts)\<lparr>so_flags := f'\<rparr> = st f' nd pe re bo li ts"
    "(st f nd pe re bo li ts)\<lparr>so_nodelay := nd'\<rparr> = st f nd' pe re bo li ts"
    "(st f nd pe re bo li ts)\<lparr>so_peer := pe'\<rparr> = st f nd pe' re bo li ts"
    "(st f nd pe re bo li ts)\<lparr>so_timestamp := ts'\<rparr> = st f nd pe re bo li ts'"
    "sock_effect (Sys_setsockopt fd SOL_SOCKET SO_REUSEADDR (Opt_int 1)) (st f nd pe re bo li ts) = st f nd pe True bo li ts"
    "sock_effect (Sys_bind fd ad) (st f nd pe re bo li ts) = st f nd pe re (Some ad) li ts"
    "sock_effect (Sys_listen fd n) (st f nd pe re bo li ts) = st f nd pe re bo True ts"
    "so_peer (st f nd pe re bo li ts) = pe"
    for f f' nd nd' pe pe' re bo li ts ts' ad n by (simp_all add: st_def)
  have new: "new_sock flags = st flags False None False None False False" by (simp add: new_sock_def st_def)
  have "K ?h1 (Sys_getfl fd) \<in> {so_flags (new_sock flags), - 1}" using flags fd(1) by (simp add: new_sock_def)
  from nonblock_moves [OF posix this s2] obtain f where
    m2: "sock_moves K fd ?h1 (new_sock flags) h2 (st f False None False None False False)"
    and f: "f AND O_NONBLOCK \<noteq> 0 \<or> K ?h1 (Sys_getfl fd) = - 1" by (auto simp: new upd)
  have m3: "sock_moves K fd h2 (st f False None False None False False) h3 (st f (\<not> ?udp) None False None False False)"
    using s3 option_moves(1) [OF posix, of fd h2 _ h3 "st f False None False None False False"] moves_refl
    by (cases ?udp) (auto simp: upd)
  have "\<exists>pe. sock_moves K fd h3 (st f (\<not> ?udp) None False None False False) h4 (st f (\<not> ?udp) pe False None False False) \<and>
      (if ?ls then pe = None else attempted K fd (ai_addr rp) h4 (st f (\<not> ?udp) pe False None False False))"
  proof (cases ?ls)
    case True
    then show ?thesis using s4 moves_refl by auto
  next
    case False
    with s4 have "asserting_sys K (Sys_connect fd (ai_addr rp)) (\<lambda>rc. rc \<noteq> 1) ''connect() failed.'' h3 = Inr h4" by simp
    from connect_moves [OF this, of "st f (\<not> ?udp) None False None False False"] False show ?thesis by (simp only: upd if_False simp_thms)
  qed
  then obtain pe where m4: "sock_moves K fd h3 (st f (\<not> ?udp) None False None False False) h4 (st f (\<not> ?udp) pe False None False False)"
    and pe: "if ?ls then pe = None else attempted K fd (ai_addr rp) h4 (st f (\<not> ?udp) pe False None False False)" by blast
  have m5: "sock_moves K fd h4 (st f (\<not> ?udp) pe False None False False) h5 (st f (\<not> ?udp) pe ?ls None False False)"
    using s5 asserted_moves [of K "Sys_setsockopt fd SOL_SOCKET SO_REUSEADDR (Opt_int 1)" _ h4 h5 fd "st f (\<not> ?udp) pe False None False False"] moves_refl
    by (cases ?ls) (auto simp: upd simp del: sock_effect.simps)
  have m6: "sock_moves K fd h5 (st f (\<not> ?udp) pe ?ls None False False) h6 (st f (\<not> ?udp) pe ?ls (if ?ls then Some ?addr else None) False False)"
    using s6 asserted_moves [of K "Sys_bind fd ?addr" _ h5 h6 fd "st f (\<not> ?udp) pe ?ls None False False"] moves_refl
    by (cases ?ls) (auto simp: upd simp del: sock_effect.simps)
  have m7: "sock_moves K fd h6 (st f (\<not> ?udp) pe ?ls (if ?ls then Some ?addr else None) False False)
      h7 (st f (\<not> ?udp) pe ?ls (if ?ls then Some ?addr else None) (?ls \<and> \<not> ?udp) False)"
    using s7 asserted_moves [of K "Sys_listen fd MaxTCPServerBacklog" _ h6 h7 fd "st f (\<not> ?udp) pe ?ls (if ?ls then Some ?addr else None) False False"] moves_refl
    by (cases ?ls; cases ?udp) (auto simp: upd simp del: sock_effect.simps)
  have m8: "sock_moves K fd h7 (st f (\<not> ?udp) pe ?ls (if ?ls then Some ?addr else None) (?ls \<and> \<not> ?udp) False)
      h' (configured cfg rp f pe)"
    using s8 option_moves(2) [OF posix, of fd h7 _ h' "st f (\<not> ?udp) pe ?ls (if ?ls then Some ?addr else None) (?ls \<and> \<not> ?udp) False"] moves_refl
    by (cases "needs_so_timestamp cfg") (auto simp: upd configured_def wanted_address_def st_def)
  note rest = moves_trans [OF moves_trans [OF moves_trans [OF m5 m6] m7] m8]
  have "attempted K fd (ai_addr rp) h' (configured cfg rp f pe)" if "\<not> ?ls"
    using attempted_moves [OF _ rest] pe that by (simp add: upd configured_def)
  then have "if ?ls then pe = None else attempted K fd (ai_addr rp) h' (configured cfg rp f pe)" using pe by simp
  with fd f moves_trans [OF moves_trans [OF moves_trans [OF m2 m3] m4] rest] show ?thesis by blast
qed

text \<open>The other way round: the only calls that can stop it are those that configure the socket.\<close>

lemma open_address_returns:
  assumes "K h (Sys_socket (ai_family rp) (ai_socktype rp) (ai_protocol rp)) \<noteq> - 1"
    and "\<And>h c. is_config c \<Longrightarrow> K h c = 0" and "\<And>h fd a. K h (Sys_connect fd a) \<noteq> 1"
  shows "\<exists>h'. open_address K cfg rp h = Inr (K h (Sys_socket (ai_family rp) (ai_socktype rp) (ai_protocol rp)), h')"
proof -
  have "\<exists>h'. asserting (setNonBlocking K fd h) msg = Inr h'" "\<exists>h'. asserting (disableNagle K fd h) msg = Inr h'"
    "\<exists>h'. asserting (setSOTimestamp K fd h) msg = Inr h'"
    "is_config c \<Longrightarrow> \<exists>h'. asserting_sys K c (\<lambda>rc. rc = 0) msg h = Inr h'"
    "\<exists>h'. asserting_sys K (Sys_connect fd a) (\<lambda>rc. rc \<noteq> 1) msg h = Inr h'" for fd h msg c a
    using assms(2,3) by (auto simp: sys_simps result_simps)
  note go = this
  have cfgs: "is_config (Sys_setsockopt x y z v)" "is_config (Sys_bind x ad)" "is_config (Sys_listen x y)" for x y z v ad by simp_all
  have cond: "\<exists>h'. (if b then m else Inr h1) = Inr h'" if "\<exists>h'. m = Inr h'" for b and m :: "sys_call list result" and h1
    using that by simp
  let ?fd = "K h (Sys_socket (ai_family rp) (ai_socktype rp) (ai_protocol rp))"
  let ?h1 = "h @ [Sys_socket (ai_family rp) (ai_socktype rp) (ai_protocol rp)]"
  let ?addr = "if is_udp cfg then \<lparr>sin_family = AF_INET, sin_port = ucast (cfg_port cfg), sin_addr = INADDR_ANY\<rparr> else ai_addr rp"
  obtain h2 where h2: "asserting (setNonBlocking K ?fd ?h1) ''setNonBlocking() failed.'' = Inr h2" using go(1) by blast
  obtain h3 where h3: "(if \<not> is_udp cfg then asserting (disableNagle K ?fd h2) ''disableNagle() failed.'' else Inr h2) = Inr h3"
    using cond [OF go(2)] by blast
  obtain h4 where h4: "(if \<not> is_listening cfg then asserting_sys K (Sys_connect ?fd (ai_addr rp)) (\<lambda>rc. rc \<noteq> 1)
    ''connect() failed.'' h3 else Inr h3) = Inr h4" using cond [OF go(5)] by blast
  obtain h5 where h5: "(if is_listening cfg then asserting_sys K (Sys_setsockopt ?fd SOL_SOCKET SO_REUSEADDR (Opt_int 1)) (\<lambda>rc. rc = 0)
    ''setsockopt() SO_REUSEADDR failed.'' h4 else Inr h4) = Inr h5" using cond [OF go(4) [OF cfgs(1)]] by blast
  obtain h6 where h6: "(if is_listening cfg then asserting_sys K (Sys_bind ?fd ?addr) (\<lambda>rc. rc = 0) ''bind() failed.'' h5 else Inr h5) = Inr h6"
    using cond [OF go(4) [OF cfgs(2)]] by blast
  obtain h7 where h7: "(if \<not> is_udp cfg \<and> is_listening cfg then asserting_sys K (Sys_listen ?fd MaxTCPServerBacklog) (\<lambda>rc. rc = 0)
    ''listen() failed.'' h6 else Inr h6) = Inr h7" using cond [OF go(4) [OF cfgs(3)]] by blast
  obtain h8 where h8: "(if needs_so_timestamp cfg then asserting (setSOTimestamp K ?fd h7) ''setSOTimestamp() failed.'' else Inr h7) = Inr h8"
    using cond [OF go(3)] by blast
  have "ASSERT (?fd \<noteq> - 1) ''socket() failed.'' = Inr ()" using assms(1) by (simp add: ASSERT_def)
  then have "open_address K cfg rp h = Inr (?fd, h8)"
    unfolding open_address_def sys_def Let_def prod.case by (simp only: h2 h3 h4 h5 h6 h7 h8 andThen.simps)
  then show ?thesis by blast
qed

text \<open>C24: A socket as its configuration wants it. Let the name resolution give one address, as it does for the
  numeric hosts that the program uses, and let the system answer the configuring calls and \<^verbatim>\<open>connect\<close> with 0 or
  -1. When createSocket returns, its result is the descriptor of a new socket of the type that was
  resolved; it has made calls on this socket alone; and these have left the socket without Nagle's delay exactly
  for TCP, with receive time stamps exactly if they are asked for, and, exactly if it is to listen, with its
  address reusable and bound to the address wanted and, for TCP, listening; it is non-blocking unless the system failed to read
  its flags. Otherwise a connection was attempted, and the socket is connected exactly when the system accepted the
  attempt: createSocket returns a socket that is not connected when it is refused. And it does
  return whenever the socket is created and the configuring calls are answered 0, whatever \<^verbatim>\<open>connect\<close> says.\<close>

theorem createSocket_configures:
  assumes "resolve lib cfg = Inr [rp]" and "posix K"
    and "c = Sys_socket (ai_family rp) (ai_socktype rp) (ai_protocol rp)"
    and "K (h @ [c]) (Sys_getfl (K h c)) \<in> {flags, - 1}"
  shows "(\<forall>fd h'. createSocket K lib cfg h = Inr (fd, h') \<longrightarrow>
      fd = K h c \<and> fd \<noteq> - 1 \<and>
      (\<exists>cs f peer. h' = h @ c # cs \<and> (\<forall>x\<in>set cs. call_fd x = Some fd) \<and>
        sock_run K fd (h @ [c]) cs (new_sock flags) = configured cfg rp f peer \<and>
        (f AND O_NONBLOCK \<noteq> 0 \<or> K (h @ [c]) (Sys_getfl fd) = - 1) \<and>
        (if is_listening cfg then peer = None else attempted K fd (ai_addr rp) h' (configured cfg rp f peer)))) \<and>
    (K h c \<noteq> - 1 \<and> (\<forall>h x. is_config x \<longrightarrow> K h x = 0) \<longrightarrow> (\<exists>h'. createSocket K lib cfg h = Inr (K h c, h')))"
proof -
  have one: "createSocket K lib cfg h = open_address K cfg rp h"
    using assms(1) by (cases "open_address K cfg rp h") (auto simp: createSocket_def)
  note opened = open_address_moves [OF assms(2,4,3), of cfg]
  have returns: "\<exists>h'. open_address K cfg rp h = Inr (K h c, h')" if "K h c \<noteq> - 1" "\<And>h x. is_config x \<Longrightarrow> K h x = 0"
    using open_address_returns [of K h rp cfg] that posix_failed(3) [OF assms(2)] assms(3) by blast
  have "\<exists>cs f peer. h' = h @ c # cs \<and> (\<forall>x\<in>set cs. call_fd x = Some fd) \<and>
        sock_run K fd (h @ [c]) cs (new_sock flags) = configured cfg rp f peer \<and>
        (f AND O_NONBLOCK \<noteq> 0 \<or> K (h @ [c]) (Sys_getfl fd) = - 1) \<and>
        (if is_listening cfg then peer = None else attempted K fd (ai_addr rp) h' (configured cfg rp f peer))"
    if r: "open_address K cfg rp h = Inr (fd, h')" for fd h'
  proof -
    from opened [OF r] obtain f peer where m: "sock_moves K fd (h @ [c]) (new_sock flags) h' (configured cfg rp f peer)"
      and f: "f AND O_NONBLOCK \<noteq> 0 \<or> K (h @ [c]) (Sys_getfl fd) = - 1"
      and p: "if is_listening cfg then peer = None else attempted K fd (ai_addr rp) h' (configured cfg rp f peer)" by blast
    from m obtain cs where "h' = (h @ [c]) @ cs" "\<forall>x\<in>set cs. call_fd x = Some fd"
      "sock_run K fd (h @ [c]) cs (new_sock flags) = configured cfg rp f peer" unfolding sock_moves_def by blast
    with f p show ?thesis
      by (intro exI [of _ cs] exI [of _ f] exI [of _ peer]) simp
  qed
  then show ?thesis unfolding one using opened returns by blast
qed

section \<open>What is not noticed\<close>

text \<open>Two systems that differ at most in their answers to \<^verbatim>\<open>connect\<close>, none of which is one.\<close>

definition same_but_connect :: "kernel \<Rightarrow> kernel \<Rightarrow> bool" where
  "same_but_connect K K' \<longleftrightarrow>
     (\<forall>h c. (case c of Sys_connect _ _ \<Rightarrow> K h c \<noteq> 1 \<and> K' h c \<noteq> 1 | _ \<Rightarrow> K h c = K' h c))"

lemma same_calls:
  assumes "same_but_connect K K'"
  shows "K h (Sys_socket a b d) = K' h (Sys_socket a b d)" "K h (Sys_getfl x) = K' h (Sys_getfl x)"
    "K h (Sys_setfl x y) = K' h (Sys_setfl x y)" "K h (Sys_setsockopt x a b v) = K' h (Sys_setsockopt x a b v)"
    "K h (Sys_bind x ad) = K' h (Sys_bind x ad)" "K h (Sys_listen x y) = K' h (Sys_listen x y)"
    "K h (Sys_connect x ad) \<noteq> 1" "K' h (Sys_connect x ad) \<noteq> 1"
  using assms [unfolded same_but_connect_def, rule_format, of h "Sys_socket a b d"]
    assms [unfolded same_but_connect_def, rule_format, of h "Sys_getfl x"]
    assms [unfolded same_but_connect_def, rule_format, of h "Sys_setfl x y"]
    assms [unfolded same_but_connect_def, rule_format, of h "Sys_setsockopt x a b v"]
    assms [unfolded same_but_connect_def, rule_format, of h "Sys_bind x ad"]
    assms [unfolded same_but_connect_def, rule_format, of h "Sys_listen x y"]
    assms [unfolded same_but_connect_def, rule_format, of h "Sys_connect x ad"]
  by simp_all

lemma same_steps:
  assumes "same_but_connect K K'"
  shows "sys K (Sys_socket a b d) h = sys K' (Sys_socket a b d) h"
    "setNonBlocking K fd h = setNonBlocking K' fd h" "disableNagle K fd h = disableNagle K' fd h"
    "setSOTimestamp K fd h = setSOTimestamp K' fd h"
    "asserting_sys K (Sys_setsockopt x a b v) good msg h = asserting_sys K' (Sys_setsockopt x a b v) good msg h"
    "asserting_sys K (Sys_bind x ad) good msg h = asserting_sys K' (Sys_bind x ad) good msg h"
    "asserting_sys K (Sys_listen x y) good msg h = asserting_sys K' (Sys_listen x y) good msg h"
    "asserting_sys K (Sys_connect x ad) (\<lambda>rc. rc \<noteq> 1) msg h = asserting_sys K' (Sys_connect x ad) (\<lambda>rc. rc \<noteq> 1) msg h"
  using same_calls [OF assms] by (simp_all add: sys_simps)

lemma open_address_same:
  assumes "same_but_connect K K'"
  shows "open_address K cfg rp h = open_address K' cfg rp h"
  unfolding open_address_def same_steps [OF assms] ..

lemma createSocket_loop_same:
  assumes "same_but_connect K K'"
  shows "createSocket_loop K cfg rps fd h = createSocket_loop K' cfg rps fd h"
proof (induction rps arbitrary: fd h)
  case (Cons rp rps)
  show ?case
    unfolding createSocket_loop.simps open_address_same [OF assms] Cons.IH ..
qed simp

text \<open>
  The result of connect is not looked at: as the system answers 0 or -1 and never 1, a program
  whose connection is refused goes on exactly as one that is connected. And setNonBlocking reports
  success when the flags of the socket cannot be read, without having changed them.
\<close>

theorem connect_not_checked:
  "(same_but_connect K K' \<longrightarrow> createSocket K lib cfg h = createSocket K' lib cfg h) \<and>
   (K h (Sys_getfl fd) = - 1 \<longrightarrow> setNonBlocking K fd h = (True, h @ [Sys_getfl fd]))"
  by (auto simp: createSocket_def createSocket_loop_same setNonBlocking_def sys_def O_NONBLOCK_def split: sum.splits)

section \<open>New connections\<close>

text \<open>
  When \<^verbatim>\<open>accept\<close> has at most \<open>n\<close> connections to give, the loop ends, and each one is in the result
  after its three calls were answered as they should.
\<close>

definition accepts_on :: "c_int \<Rightarrow> sys_call list \<Rightarrow> nat" where
  "accepts_on fd h = length (filter (\<lambda>c. c = Sys_accept fd) h)"

lemma not_accepting:
  "setNonBlocking K fd h = (b, h') \<Longrightarrow> accepts_on l h' = accepts_on l h"
  "disableNagle K fd h = (b, h') \<Longrightarrow> accepts_on l h' = accepts_on l h"
  "asserting (addToEpollList K ep fd h) msg = Inr h' \<Longrightarrow> accepts_on l h' = accepts_on l h"
  by (auto simp: setNonBlocking_def disableNagle_def addToEpollList_def asserting_def sys_def accepts_on_def Let_def result_simps split: if_splits)

lemma andThen_not_Diverges:
  "andThen m k \<noteq> Inl Diverges \<longleftrightarrow> m \<noteq> Inl Diverges \<and> (\<forall>x. m = Inr x \<longrightarrow> k x \<noteq> Inl Diverges)"
  by (cases m) auto

lemma accept_ends:
  assumes "\<And>h. n \<le> accepts_on l h \<Longrightarrow> K h (Sys_accept l) = - 1" and "n \<le> accepts_on l h + fuel"
  shows "accept_connections fuel K ep l h \<noteq> Inl Diverges"
  using assms(2)
proof (induction fuel arbitrary: h)
  case 0
  then show ?case using assms(1) [of h] by (subst accept_connections.simps) (simp add: sys_def)
next
  case (Suc fuel)
  let ?fd = "K h (Sys_accept l)" and ?h1 = "h @ [Sys_accept l]"
  obtain b h2 where n: "setNonBlocking K ?fd ?h1 = (b, h2)" by (metis prod.collapse)
  obtain r h3 where r: "(if b then disableNagle K ?fd h2 else (False, h2)) = (r, h3)" by (metis prod.collapse)
  have a: "accepts_on l h3 = Suc (accepts_on l h)"
    using not_accepting(1) [OF n, of l] not_accepting(2) [of K ?fd h2 r h3 l] r by (cases b) (auto simp: accepts_on_def)
  have "accept_connections fuel K ep l h4 \<noteq> Inl Diverges" if "asserting (addToEpollList K ep ?fd h3) msg = Inr h4" for h4 msg
    using Suc.IH [of h4] not_accepting(3) [OF that, of l] a Suc.prems by simp
  moreover have "asserting x msg \<noteq> Inl Diverges" "ASSERT c msg \<noteq> Inl Diverges" for x msg c
    by (simp_all add: asserting_def ASSERT_def)
  ultimately show ?case
    by (subst accept_connections.simps) (auto simp: sys_def n r Let_def andThen_not_Diverges split: prod.splits)
qed

section \<open>Instances\<close>

text \<open>A system on which every call succeeds, and a library that knows one numeric address.\<close>

fun demo_kernel :: kernel where
  "demo_kernel h (Sys_socket _ _ _) = 3"
| "demo_kernel h (Sys_getfl _) = 2"
| "demo_kernel h _ = 0"

fun refusing_kernel :: kernel where
  "refusing_kernel h (Sys_connect _ _) = - 1"
| "refusing_kernel h c = demo_kernel h c"

definition demo_addr :: sockaddr_in where
  "demo_addr = \<lparr>sin_family = AF_INET, sin_port = 12345, sin_addr = 0x7F000001\<rparr>"

definition demo_lib :: net_lib where
  "demo_lib = \<lparr>getifaddrs = Some [\<lparr>ifa_name = ''lo'', ifa_addr = Some demo_addr\<rparr>],
     getnameinfo = (\<lambda>_. ''127.0.0.1''),
     getaddrinfo = (\<lambda>host serv fl fam ty pr. if host = ''127.0.0.1'' \<and> serv = ''12345''
        then Inr [\<lparr>ai_flags = fl, ai_family = fam, ai_socktype = ty, ai_protocol = pr, ai_addr = demo_addr\<rparr>] else Inl (- 2)),
     inet_addr = (\<lambda>_. 0)\<rparr>"

definition demo_listener :: SocketCfg where
  "demo_listener = \<lparr>cfg_ip = [], cfg_iface = ''lo'', cfg_port = 12345, is_udp = False, is_listening = True,
     needs_so_timestamp = True\<rparr>"

definition demo_info :: addrinfo where
  "demo_info = \<lparr>ai_flags = 0x405, ai_family = AF_INET, ai_socktype = SOCK_STREAM, ai_protocol = IPPROTO_TCP, ai_addr = demo_addr\<rparr>"

lemma demo_port: "int_to_string 12345 = ''12345''"
  by (simp add: int_to_string_def nat_to_string.simps char_of_def bit_Suc_0_iff)

lemma demo_resolve: "resolve demo_lib demo_listener = Inr [demo_info]"
  by (simp add: resolve_def demo_lib_def demo_listener_def demo_info_def getIfaceIP_def demo_addr_def demo_port c_str_def
      NUL_def AI_PASSIVE_def AI_NUMERICHOST_def AI_NUMERICSERV_def)

definition demo_connecting :: SocketCfg where
  "demo_connecting = demo_listener\<lparr>is_listening := False\<rparr>"

lemma demo_resolve_client: "resolve demo_lib demo_connecting = Inr [demo_info\<lparr>ai_flags := 0x404\<rparr>]"
  by (simp add: resolve_def demo_lib_def demo_connecting_def demo_listener_def demo_info_def getIfaceIP_def demo_addr_def demo_port
      c_str_def NUL_def AI_NUMERICHOST_def AI_NUMERICSERV_def)

lemma demo_config: "is_config x \<Longrightarrow> demo_kernel h x = 0" "is_config x \<Longrightarrow> refusing_kernel h x = 0"
  by (cases x; simp)+

lemma demo_posix: "posix demo_kernel" "posix refusing_kernel"
  unfolding posix_def using demo_config by auto

text \<open>A listener, and a client whose connection is refused.\<close>

theorem createSocket_configures_witness:
  "(\<exists>cs f. createSocket demo_kernel demo_lib demo_listener [] = Inr (3, Sys_socket 2 1 6 # cs) \<and>
     sock_run demo_kernel 3 [Sys_socket 2 1 6] cs (new_sock 2) = configured demo_listener demo_info f None \<and>
     f AND O_NONBLOCK \<noteq> 0) \<and>
   (\<exists>cs f. createSocket refusing_kernel demo_lib demo_connecting [] = Inr (3, Sys_socket 2 1 6 # cs) \<and>
     sock_run refusing_kernel 3 [Sys_socket 2 1 6] cs (new_sock 2) = configured demo_connecting demo_info f None)"
proof
  let ?c = "Sys_socket 2 1 6" and ?client = "demo_info\<lparr>ai_flags := 0x404\<rparr>"
  have c: "?c = Sys_socket (ai_family demo_info) (ai_socktype demo_info) (ai_protocol demo_info)"
    "?c = Sys_socket (ai_family ?client) (ai_socktype ?client) (ai_protocol ?client)"
    by (simp_all add: demo_info_def AF_INET_def SOCK_STREAM_def IPPROTO_TCP_def)
  have g: "demo_kernel ([] @ [?c]) (Sys_getfl (demo_kernel [] ?c)) \<in> {2, - 1}"
    "refusing_kernel ([] @ [?c]) (Sys_getfl (refusing_kernel [] ?c)) \<in> {2, - 1}" by simp_all
  note listener = createSocket_configures [OF demo_resolve demo_posix(1) c(1) g(1)]
  have "demo_kernel [] ?c \<noteq> - 1 \<and> (\<forall>h x. is_config x \<longrightarrow> demo_kernel h x = 0)" using demo_config(1) by simp
  from listener [THEN conjunct2, THEN mp, OF this] obtain h' where
    r: "createSocket demo_kernel demo_lib demo_listener [] = Inr (3, h')" by (simp only: demo_kernel.simps) blast
  from listener [THEN conjunct1, rule_format, OF r] obtain cs f peer where
    w: "h' = [] @ ?c # cs" "sock_run demo_kernel 3 ([] @ [?c]) cs (new_sock 2) = configured demo_listener demo_info f peer"
    "f AND O_NONBLOCK \<noteq> 0 \<or> demo_kernel ([] @ [?c]) (Sys_getfl 3) = - 1"
    "if is_listening demo_listener then peer = None
     else attempted demo_kernel 3 (ai_addr demo_info) h' (configured demo_listener demo_info f peer)" by blast
  have "peer = None" using w(4) by (simp add: demo_listener_def)
  with r w(1-3) show "\<exists>cs f. createSocket demo_kernel demo_lib demo_listener [] = Inr (3, ?c # cs) \<and>
     sock_run demo_kernel 3 [?c] cs (new_sock 2) = configured demo_listener demo_info f None \<and> f AND O_NONBLOCK \<noteq> 0"
    by (intro exI [of _ cs] exI [of _ f]) simp
  note client = createSocket_configures [OF demo_resolve_client demo_posix(2) c(2) g(2)]
  have "refusing_kernel [] ?c \<noteq> - 1 \<and> (\<forall>h x. is_config x \<longrightarrow> refusing_kernel h x = 0)" using demo_config(2) by simp
  from client [THEN conjunct2, THEN mp, OF this] obtain h1 where
    r1: "createSocket refusing_kernel demo_lib demo_connecting [] = Inr (3, h1)" by (simp only: refusing_kernel.simps demo_kernel.simps) blast
  have same: "configured demo_connecting ?client f p = configured demo_connecting demo_info f p" for f p
    by (simp add: configured_def wanted_address_def)
  have refused: "so_peer s = None" if "attempted refusing_kernel 3 ad h s" for ad h s
    using that by (auto simp: attempted_def)
  from client [THEN conjunct1, rule_format, OF r1] obtain cs f peer where
    w: "h1 = [] @ ?c # cs" "sock_run refusing_kernel 3 ([] @ [?c]) cs (new_sock 2) = configured demo_connecting ?client f peer"
    "if is_listening demo_connecting then peer = None
     else attempted refusing_kernel 3 (ai_addr ?client) h1 (configured demo_connecting ?client f peer)" by blast
  have "attempted refusing_kernel 3 (ai_addr ?client) h1 (configured demo_connecting ?client f peer)"
    using w(3) by (simp add: demo_connecting_def)
  from refused [OF this] have "peer = None" by (simp add: configured_def)
  with r1 w(1,2) same show "\<exists>cs f. createSocket refusing_kernel demo_lib demo_connecting [] = Inr (3, ?c # cs) \<and>
     sock_run refusing_kernel 3 [?c] cs (new_sock 2) = configured demo_connecting demo_info f None"
    by (intro exI [of _ cs] exI [of _ f]) simp
qed

theorem connect_not_checked_witness:
  "createSocket refusing_kernel demo_lib (demo_listener\<lparr>is_listening := False\<rparr>) [] =
   createSocket demo_kernel demo_lib (demo_listener\<lparr>is_listening := False\<rparr>) []"
proof -
  have "same_but_connect refusing_kernel demo_kernel"
    by (auto simp: same_but_connect_def split: sys_call.splits)
  then show ?thesis using connect_not_checked by blast
qed

end
