(* ===== verification/Programs.thy ===== *)
theory Programs
  imports Ecosystem Order_Gateway Random_Trader Command_Line Socket_Utils
begin

text \<open>
  The two programs, \<^verbatim>\<open>src/exchange/exchange_main.cpp\<close> and \<^verbatim>\<open>src/trading/trading_main.cpp\<close>:
  how they make the components, with the calls of the operating system that open their sockets, and how
  they end. The memory that the books do not initialise is a parameter, as are the readings of the
  clock. The names of the log files and the sleeping are left out.
\<close>

section \<open>Components with their sockets\<close>

text \<open>
  The constructors of the publisher and of the synthesizer it owns, of the consumer, and the start of
  the order server and of the order gateway, each with the sockets it opens.
\<close>

definition publisher_create ::
    "kernel \<Rightarrow> net_lib \<Rightarrow> MEMarketUpdateLFQueue \<Rightarrow> string \<Rightarrow> string \<Rightarrow> c_int \<Rightarrow> string \<Rightarrow> c_int \<Rightarrow> sys_call list \<Rightarrow>
     ((MarketDataPublisher \<times> SnapshotSynthesizer) \<times> sys_call list) result" where
  "publisher_create K lib market_updates iface snapshot_ip snapshot_port incremental_ip incremental_port h =
     (let mdp = MarketDataPublisher_new market_updates in
      andThen (McastSocket_init K lib incremental_ip iface incremental_port False h) (\<lambda>(incremental_fd, h1).
      andThen (ASSERT (0 \<le> sint incremental_fd) ''Unable to create incremental mcast socket.'') (\<lambda>_.
      andThen (McastSocket_init K lib snapshot_ip iface snapshot_port False h1) (\<lambda>(snapshot_fd, h2).
      andThen (ASSERT (0 \<le> sint snapshot_fd) ''Unable to create snapshot mcast socket.'') (\<lambda>_.
      Inr ((mdp, SnapshotSynthesizer_new (snapshot_md_updates mdp)), h2))))))"

definition consumer_create ::
    "kernel \<Rightarrow> net_lib \<Rightarrow> MEMarketUpdateLFQueue \<Rightarrow> string \<Rightarrow> string \<Rightarrow> c_int \<Rightarrow> sys_call list \<Rightarrow>
     (MarketDataConsumer \<times> sys_call list) result" where
  "consumer_create K lib market_updates iface incremental_ip incremental_port h =
     andThen (McastSocket_init K lib incremental_ip iface incremental_port True h) (\<lambda>(incremental_fd, h1).
     andThen (ASSERT (0 \<le> sint incremental_fd) ''Unable to create incremental mcast socket.'') (\<lambda>_.
     andThen (asserting (McastSocket_join K lib incremental_fd incremental_ip h1) ''Join failed.'') (\<lambda>h2.
     Inr (MarketDataConsumer_new market_updates, h2))))"

definition server_start ::
    "kernel \<Rightarrow> net_lib \<Rightarrow> string \<Rightarrow> c_int \<Rightarrow> OrderServer \<Rightarrow> sys_call list \<Rightarrow> (OrderServer \<times> sys_call list) result" where
  "server_start K lib iface port os h =
     andThen (TCPServer_listen K lib iface port h) (\<lambda>(_, _, h1).
     andThen (os_start True True True os) (\<lambda>os1. Inr (os1, h1)))"

definition gateway_start ::
    "kernel \<Rightarrow> net_lib \<Rightarrow> string \<Rightarrow> string \<Rightarrow> c_int \<Rightarrow> OrderGateway \<Rightarrow> sys_call list \<Rightarrow> (OrderGateway \<times> sys_call list) result" where
  "gateway_start K lib ip iface port og h =
     andThen (TCPSocket_connect K lib ip iface port False h) (\<lambda>(socket_fd, _, h1).
     andThen (og_start (0 \<le> sint socket_fd) og) (\<lambda>og1. Inr (og1, h1)))"

section \<open>The exchange\<close>

record exchange =
  ex_engine :: MatchingEngine
  ex_publisher :: MarketDataPublisher
  ex_synthesizer :: SnapshotSynthesizer
  ex_server :: OrderServer

definition exchange_main ::
    "kernel \<Rightarrow> net_lib \<Rightarrow> (nat \<Rightarrow> nat \<Rightarrow> nat \<Rightarrow> pointer) \<Rightarrow> (nat \<Rightarrow> nat \<Rightarrow> pointer) \<Rightarrow> nat \<Rightarrow> sys_call list \<Rightarrow>
     (exchange \<times> sys_call list) result" where
  "exchange_main K lib cid_oid_mem price_mem listener h =
     (let client_requests = LFQueue_new ME_MAX_CLIENT_UPDATES MEClientRequest_default;
          client_responses = LFQueue_new ME_MAX_CLIENT_UPDATES MEClientResponse_default;
          market_updates = LFQueue_new ME_MAX_MARKET_UPDATES MEMarketUpdate_default;
          matching_engine = start (MatchingEngine_new cid_oid_mem price_mem client_requests
            \<lparr>mq_ogw_responses = client_responses, mq_md_updates = market_updates\<rparr>) in
      andThen (publisher_create K lib market_updates ''lo'' ''233.252.14.1'' 20000 ''233.252.14.3'' 20001 h) (\<lambda>(pub, h1).
      let (mdp, ss) = mdp_start pub in
      andThen (server_start K lib ''lo'' 12345 (OrderServer_new listener client_requests client_responses) h1) (\<lambda>(os, h2).
      Inr (\<lparr>ex_engine = matching_engine, ex_publisher = mdp, ex_synthesizer = ss, ex_server = os\<rparr>, h2))))"

text \<open>The handler of the interrupt destroys the components, which stops their threads.\<close>

definition signal_handler :: "exchange \<Rightarrow> exchange" where
  "signal_handler ex =
     (let (mdp, ss) = mdp_stop (ex_publisher ex, ex_synthesizer ex) in
      \<lparr>ex_engine = stop (ex_engine ex), ex_publisher = mdp, ex_synthesizer = ss_stop ss, ex_server = os_stop (ex_server ex)\<rparr>)"

section \<open>The client\<close>

record 'f trading =
  tr_engine :: "'f TradeEngine"
  tr_gateway :: OrderGateway
  tr_consumer :: MarketDataConsumer

definition trading_main_start ::
    "'f double_ops \<Rightarrow> (string \<Rightarrow> 'f) \<Rightarrow> kernel \<Rightarrow> net_lib \<Rightarrow> (nat \<Rightarrow> nat \<Rightarrow> pointer) \<Rightarrow> (nat \<Rightarrow> nat \<Rightarrow> pointer) \<Rightarrow>
     (nat \<Rightarrow> nat \<Rightarrow> 'f) \<Rightarrow> Nanos \<Rightarrow> string list \<Rightarrow> sys_call list \<Rightarrow> ('f trading \<times> sys_call list) result" where
  "trading_main_start F atof K lib oid_mem price_mem vwap_mem now argv h =
     andThen (trading_arguments F atof argv) (\<lambda>args.
     let client_id = arg_client_id args;
         client_requests = LFQueue_new ME_MAX_CLIENT_UPDATES MEClientRequest_default;
         client_responses = LFQueue_new ME_MAX_CLIENT_UPDATES MEClientResponse_default;
         market_updates = LFQueue_new ME_MAX_MARKET_UPDATES MEMarketUpdate_default;
         trade_engine = te_start (TradeEngine_new F oid_mem price_mem vwap_mem client_id (arg_algo_type args)
           (arg_ticker_cfg args) client_requests client_responses market_updates) in
     andThen (gateway_start K lib ''127.0.0.1'' ''lo'' 12345 (OrderGateway_new client_id client_requests client_responses) h)
       (\<lambda>(order_gateway, h1).
     andThen (consumer_create K lib market_updates ''lo'' ''233.252.14.3'' 20001 h1) (\<lambda>(market_data_consumer, h2).
     Inr (\<lparr>tr_engine = initLastEventTime now trade_engine, tr_gateway = order_gateway,
           tr_consumer = mdc_start market_data_consumer\<rparr>, h2))))"

text \<open>The random trading goes on beside the threads: here, before they take their next turns.\<close>

definition trading_main_random :: "(nat \<Rightarrow> nat) \<Rightarrow> (nat \<Rightarrow> Nanos) \<Rightarrow> 'f trading \<Rightarrow> 'f trading" where
  "trading_main_random rnd silent tr =
     (let te = tr_engine tr in
      if te_algo te = RANDOM
      then tr\<lparr>tr_engine := te\<lparr>outgoing_ogw_requests :=
             random_trading rnd silent (te_client_id te) (outgoing_ogw_requests te)\<rparr>\<rparr>
      else tr)"

text \<open>
  Waiting for a minute of silence: \<open>silent\<close> are the readings of \<^verbatim>\<open>silentSeconds\<close>, of which a turn
  of the loop takes one for its condition and one for its message. The result is the number of turns.
\<close>

partial_function (option) wait_silent :: "(nat \<Rightarrow> Nanos) \<Rightarrow> nat \<Rightarrow> nat option" where
  "wait_silent silent n = (if silent (2 * n) < 60 then wait_silent silent (n + 1) else Some n)"

text \<open>The components are stopped in this order; the trade engine waits for its queues to be empty.\<close>

definition trading_main_stop :: "'f trading \<Rightarrow> 'f trading option" where
  "trading_main_stop tr =
     (case te_stop (tr_engine tr) of
        None \<Rightarrow> None
      | Some te \<Rightarrow> Some \<lparr>tr_engine = te, tr_gateway = og_stop (tr_gateway tr), tr_consumer = mdc_stop (tr_consumer tr)\<rparr>)"

section \<open>Waiting\<close>

lemma wait_silent_ends:
  assumes "\<forall>j. n \<le> j \<longrightarrow> j < m \<longrightarrow> silent (2 * j) < 60" and "60 \<le> silent (2 * m)" and "n \<le> m"
  shows "wait_silent silent n = Some m"
  using assms
proof (induction "m - n" arbitrary: n)
  case 0
  then show ?case by (subst wait_silent.simps) simp
next
  case (Suc k)
  then have n: "n < m" by simp
  then have "wait_silent silent n = wait_silent silent (n + 1)" using Suc.prems(1) by (subst wait_silent.simps) simp
  also have "\<dots> = Some m" by (rule Suc.hyps(1)) (use Suc n in auto)
  finally show ?case .
qed

lemma wait_silent_returns:
  assumes "wait_silent silent n = Some m"
  shows "60 \<le> silent (2 * m) \<and> n \<le> m \<and> (\<forall>j. n \<le> j \<longrightarrow> j < m \<longrightarrow> silent (2 * j) < 60)"
proof (rule wait_silent.raw_induct [where P = "\<lambda>silent n m. 60 \<le> silent (2 * m) \<and> n \<le> m \<and>
    (\<forall>j. n \<le> j \<longrightarrow> j < m \<longrightarrow> silent (2 * j) < 60)", OF _ assms])
  fix w :: "(nat \<Rightarrow> Nanos) \<Rightarrow> nat \<Rightarrow> nat option" and silent :: "nat \<Rightarrow> Nanos" and n m :: nat
  assume IH: "\<And>silent n m. w silent n = Some m \<Longrightarrow> 60 \<le> silent (2 * m) \<and> n \<le> m \<and>
      (\<forall>j. n \<le> j \<longrightarrow> j < m \<longrightarrow> silent (2 * j) < (60 :: Nanos))"
    and step: "(if silent (2 * n) < 60 then w silent (n + 1) else Some n) = Some m"
  show "60 \<le> silent (2 * m) \<and> n \<le> m \<and> (\<forall>j. n \<le> j \<longrightarrow> j < m \<longrightarrow> silent (2 * j) < 60)"
  proof (cases "silent (2 * n) < 60")
    case True
    with step IH [of silent "n + 1" m] have later: "60 \<le> silent (2 * m)" "n + 1 \<le> m"
      "\<forall>j. n + 1 \<le> j \<longrightarrow> j < m \<longrightarrow> silent (2 * j) < 60" by simp_all
    have "silent (2 * j) < 60" if "n \<le> j" "j < m" for j
      using later(3) True that by (cases "j = n") auto
    then show ?thesis using later(1,2) by auto
  qed (use step in auto)
qed

section \<open>Properties\<close>

lemma in_sync_at_start:
  assumes "exchange_main K lib (\<lambda>_ _ _. None) (\<lambda>_ _. None) listener h = Inr (ex, h1)"
    and "trading_main_start F atof K' lib' (\<lambda>_ _. None) (\<lambda>_ _. None) vwap_mem now argv g = Inr (tr, g1)"
    and "\<forall>t<ME_MAX_TICKERS. uint (max_order_size (risk_cfg (te_ticker_cfg (tr_engine tr) t))) \<le> 2 ^ 29"
  shows "in_sync \<lparr>eco_engine = ex_engine ex, eco_publisher = ex_publisher ex, eco_synthesizer = ex_synthesizer ex,
       eco_consumer = tr_consumer tr, eco_trader = tr_engine tr\<rparr> (\<lambda>_. empty_abook) \<and>
     (\<forall>c. next_outgoing_seq_num (tr_gateway tr) = cid_next_exp_seq_num (ex_server ex) c \<and>
       cid_next_outgoing_seq_num (ex_server ex) c = next_exp_seq_num (tr_gateway tr))"
proof -
  let ?mu = "LFQueue_new ME_MAX_MARKET_UPDATES MEMarketUpdate_default"
  let ?mdp = "MarketDataPublisher_new ?mu" and ?cr = "LFQueue_new ME_MAX_CLIENT_UPDATES MEClientRequest_default"
  have ex: "ex_engine ex = start (MatchingEngine_new (\<lambda>_ _ _. None) (\<lambda>_ _. None) ?cr
        \<lparr>mq_ogw_responses = LFQueue_new ME_MAX_CLIENT_UPDATES MEClientResponse_default, mq_md_updates = ?mu\<rparr>)"
      "ex_publisher ex = ?mdp\<lparr>mdp_run := True\<rparr>"
      "ex_synthesizer ex = ss_start (SnapshotSynthesizer_new (snapshot_md_updates ?mdp))"
      "cid_next_exp_seq_num (ex_server ex) = (\<lambda>_. 1)" "cid_next_outgoing_seq_num (ex_server ex) = (\<lambda>_. 1)"
    using assms(1) by (auto simp: exchange_main_def publisher_create_def server_start_def Let_def result_simps mdp_start_def
        os_start_def listen_def OrderServer_new_def)
  obtain args where a: "trading_arguments F atof argv = Inr args" using assms(2) by (auto simp: trading_main_start_def result_simps)
  have tr: "tr_engine tr = initLastEventTime now (te_start (TradeEngine_new F (\<lambda>_ _. None) (\<lambda>_ _. None) vwap_mem
        (arg_client_id args) (arg_algo_type args) (arg_ticker_cfg args) ?cr
        (LFQueue_new ME_MAX_CLIENT_UPDATES MEClientResponse_default) ?mu))"
      "tr_consumer tr = mdc_start (MarketDataConsumer_new ?mu)" "next_outgoing_seq_num (tr_gateway tr) = 1" "next_exp_seq_num (tr_gateway tr) = 1"
    using assms(2) a by (auto simp: trading_main_start_def consumer_create_def gateway_start_def og_start_def Let_def
        result_simps OrderGateway_new_def)
  have q: "q_inv ?mu" "q_inv ?cr" "q_inv (LFQueue_new ME_MAX_CLIENT_UPDATES MEClientResponse_default)"
      "q_inv (LFQueue_new ME_MAX_MARKET_UPDATES \<lparr>mdp_seq_num = 0, mdp_me_market_update = MEMarketUpdate_default\<rparr>)"
    by (rule q_inv_new, simp add: ME_MAX_MARKET_UPDATES_def ME_MAX_CLIENT_UPDATES_def)+
  have "eng_rep (ex_engine ex) (\<lambda>_. empty_abook)" using eng_rep_new by (simp add: ex(1) start_def eng_rep_def)
  moreover have ss: "ss_inv (ex_synthesizer ex)" "ss_view (ex_synthesizer ex) = (\<lambda>_ _. None)" "last_inc_seq_num (ex_synthesizer ex) = 0"
  proof -
    have view: "ss_view (ss_start ss) = ss_view ss" "last_inc_seq_num (ss_start ss) = last_inc_seq_num ss" for ss
      by (auto simp: ss_start_def ss_view_def fun_eq_iff)
    have inv: "ss_inv (ss_start ss) = ss_inv ss" for ss
      unfolding ss_inv_def view by (simp add: ss_start_def)
    show "ss_inv (ex_synthesizer ex)" unfolding ex(3) inv by (rule ss_inv_new)
    show "ss_view (ex_synthesizer ex) = (\<lambda>_ _. None)" unfolding ex(3) view by (rule ss_view_new)
    show "last_inc_seq_num (ex_synthesizer ex) = 0" unfolding ex(3) view by (simp add: SnapshotSynthesizer_new_def)
  qed
  ultimately have step: "in_step (ex_engine ex) (ex_publisher ex) (ex_synthesizer ex) (\<lambda>_. empty_abook)"
    using eng_listed_new q
    by (simp add: in_step_def publishing_def ex(1,2) start_def MatchingEngine_new_def eng_view_new MarketDataPublisher_new_def McastSocket_new_def)
  have b: "te_order_book (tr_engine tr) = empty_books"
    by (simp add: tr(1) initLastEventTime_def te_start_def TradeEngine_new_def empty_books_def fun_eq_iff)
  have "calm (tr_engine tr)"
    unfolding calm_def calm_book_def b quoted_new using assms(3)
    by (simp add: tr(1) initLastEventTime_def te_start_def TradeEngine_new_def calm_at_def PositionInfo_default_def small_price_def)
  then show ?thesis
    using step client_mirrors_new b q tr(2-4) ex(4,5) ss(3)
    by (simp add: in_sync_def prices_in_def tr(1) initLastEventTime_def te_start_def TradeEngine_new_def mdc_start_def
        MarketDataConsumer_new_def McastSocket_new_def)
qed

text \<open>The two programs fit together. Whenever both programs come up, whatever the operating system
  answered on the way, on memory that is zero and with limits of the command line that are not near
  the end of their type, all components are in step with empty books: the engine's books, the numbering
  of the publisher, the table of the synthesizer, the consumer's next number and the books of the
  client; and the sequence numbers of the client's gateway are the ones the order server expects of it
  and will send it.
\<close>

theorem programs_start_in_sync:
  assumes "exchange_main K lib (\<lambda>_ _ _. None) (\<lambda>_ _. None) listener h = Inr (ex, h1)"
    and "trading_main_start F atof K' lib' (\<lambda>_ _. None) (\<lambda>_ _. None) vwap_mem now argv g = Inr (tr, g1)"
    and "\<forall>t<ME_MAX_TICKERS. uint (max_order_size (risk_cfg (te_ticker_cfg (tr_engine tr) t))) \<le> 2 ^ 29"
  shows "in_sync \<lparr>eco_engine = ex_engine ex, eco_publisher = ex_publisher ex, eco_synthesizer = ex_synthesizer ex,
       eco_consumer = tr_consumer tr, eco_trader = tr_engine tr\<rparr> (\<lambda>_. empty_abook) \<and>
     (\<forall>c. next_outgoing_seq_num (tr_gateway tr) = cid_next_exp_seq_num (ex_server ex) c \<and>
       cid_next_outgoing_seq_num (ex_server ex) c = next_exp_seq_num (tr_gateway tr))"
  using in_sync_at_start [OF assms] .

text \<open>
  Waiting for silence. The loop at the end of the client program returns exactly after the turns
  before the first reading at its top that is a minute or more, and never returns when there is none.
\<close>

theorem silence_ends_waiting:
  "wait_silent silent 0 = Some m \<longleftrightarrow> 60 \<le> silent (2 * m) \<and> \<not> (\<exists>j<m. 60 \<le> silent (2 * j))"
  using wait_silent_ends [of 0 m silent] wait_silent_returns [of silent 0 m] by (auto simp: not_le)

section \<open>Both programs on one machine\<close>

definition demo_net :: net_lib where
  "demo_net = \<lparr>getifaddrs = Some [\<lparr>ifa_name = ''lo'', ifa_addr = Some demo_addr\<rparr>], getnameinfo = (\<lambda>_. ''127.0.0.1''),
     getaddrinfo = (\<lambda>host serv fl fam ty pr.
       Inr [\<lparr>ai_flags = fl, ai_family = fam, ai_socktype = ty, ai_protocol = pr, ai_addr = demo_addr\<rparr>]),
     inet_addr = (\<lambda>_. 0)\<rparr>"

lemma demo_socket: "\<exists>h'. createSocket demo_kernel demo_net cfg h = Inr (3, h')"
proof -
  have "\<exists>rp. resolve demo_net cfg = Inr [rp]" by (simp add: resolve_def demo_net_def)
  then obtain rp where r: "resolve demo_net cfg = Inr [rp]" by blast
  have "\<exists>h'. open_address demo_kernel cfg rp h = Inr (3, h')"
    using open_address_returns [of demo_kernel h rp cfg] demo_config(1) by simp
  then show ?thesis using r by (auto simp: createSocket_def)
qed

lemma demo_exchange: "\<exists>ex h'. exchange_main demo_kernel demo_net (\<lambda>_ _ _. None) (\<lambda>_ _. None) 9 h = Inr (ex, h')"
proof -
  have m: "\<exists>h'. McastSocket_init demo_kernel demo_net ip iface port l h = Inr (3, h')" for ip iface port l h
    using demo_socket by (simp add: McastSocket_init_def)
  have p: "\<exists>pub h'. publisher_create demo_kernel demo_net q iface a b c d h = Inr (pub, h')" for q iface a b c d h
  proof -
    obtain h1 where h1: "McastSocket_init demo_kernel demo_net c iface d False h = Inr (3, h1)" using m by blast
    obtain h2 where "McastSocket_init demo_kernel demo_net a iface b False h1 = Inr (3, h2)" using m by blast
    with h1 show ?thesis by (simp add: publisher_create_def Let_def)
  qed
  have l: "\<exists>fd ep h'. TCPServer_listen demo_kernel demo_net iface port h = Inr (fd, ep, h')" for iface port h
  proof -
    let ?cfg = "\<lparr>cfg_ip = [], cfg_iface = iface, cfg_port = port, is_udp = False, is_listening = True, needs_so_timestamp = True\<rparr>"
    obtain h1 where "createSocket demo_kernel demo_net ?cfg (h @ [Sys_epoll_create 1]) = Inr (3, h1)" using demo_socket by blast
    then show ?thesis by (simp add: TCPServer_listen_def TCPSocket_connect_def sys_def Let_def addToEpollList_def asserting_def)
  qed
  have s: "\<exists>os' h'. server_start demo_kernel demo_net iface port os h = Inr (os', h')" for iface port os h
    using l [of iface port h] by (auto simp: server_start_def os_start_def listen_def)
  obtain pub h1 where 1: "publisher_create demo_kernel demo_net (LFQueue_new ME_MAX_MARKET_UPDATES MEMarketUpdate_default)
      ''lo'' ''233.252.14.1'' 20000 ''233.252.14.3'' 20001 h = Inr (pub, h1)" using p by blast
  obtain mdp ss where 2: "mdp_start pub = (mdp, ss)" by (cases "mdp_start pub")
  obtain os' h2 where "server_start demo_kernel demo_net ''lo'' 12345 (OrderServer_new 9
      (LFQueue_new ME_MAX_CLIENT_UPDATES MEClientRequest_default) (LFQueue_new ME_MAX_CLIENT_UPDATES MEClientResponse_default)) h1 =
    Inr (os', h2)" using s by blast
  with 1 2 show ?thesis by (simp add: exchange_main_def Let_def)
qed

definition demo_argv :: "string list" where
  "demo_argv = [''trading_main'', ''1'', ''RANDOM'']"

lemma demo_arguments:
  "\<exists>args. trading_arguments exact_ops (\<lambda>_. Num 0) demo_argv = Inr args \<and> arg_client_id args = 1 \<and> arg_ticker_cfg args = (\<lambda>_. TradeEngineCfg_default exact_ops)"
proof -
  have "number ''1'' = 1" by code_simp
  then have "qty_arg demo_argv 1 = Inr 1" by (simp add: qty_arg_def arg_def demo_argv_def atoi_def number_def signed_value_def)
  moreover have "cfg_loop (\<lambda>_. Num 0) demo_argv 3 0 d = Inr d" for d :: "nat \<Rightarrow> exact TradeEngineCfg"
    by (subst cfg_loop.simps) (simp add: demo_argv_def)
  ultimately show ?thesis by (simp add: trading_arguments_def) (simp add: arg_def demo_argv_def)
qed

lemma demo_client:
  "\<exists>tr h'. trading_main_start exact_ops (\<lambda>_. Num 0) demo_kernel demo_net (\<lambda>_ _. None) (\<lambda>_ _. None) (\<lambda>_ _. Num 0) 5 demo_argv h = Inr (tr, h') \<and>
     te_ticker_cfg (tr_engine tr) = (\<lambda>_. TradeEngineCfg_default exact_ops)"
proof -
  obtain args where a: "trading_arguments exact_ops (\<lambda>_. Num 0) demo_argv = Inr args"
    "arg_ticker_cfg args = (\<lambda>_. TradeEngineCfg_default exact_ops)" using demo_arguments by blast
  obtain h1 where h1: "createSocket demo_kernel demo_net \<lparr>cfg_ip = ''127.0.0.1'', cfg_iface = ''lo'', cfg_port = 12345,
      is_udp = False, is_listening = False, needs_so_timestamp = True\<rparr> h = Inr (3, h1)" using demo_socket by blast
  obtain h2 where h2: "McastSocket_init demo_kernel demo_net ''233.252.14.3'' ''lo'' 20001 True h1 = Inr (3, h2)"
    using demo_socket by (auto simp: McastSocket_init_def)
  have g: "\<exists>og'. gateway_start demo_kernel demo_net ''127.0.0.1'' ''lo'' 12345 og h = Inr (og', h1)" for og
    using h1 by (simp add: gateway_start_def TCPSocket_connect_def og_start_def Let_def)
  have c: "\<exists>h3. consumer_create demo_kernel demo_net q ''lo'' ''233.252.14.3'' 20001 h1 = Inr (MarketDataConsumer_new q, h3)" for q
    using h2 by (simp add: consumer_create_def McastSocket_join_def join_group_def sys_def asserting_def Let_def)
  let ?og = "OrderGateway_new (arg_client_id args) (LFQueue_new ME_MAX_CLIENT_UPDATES MEClientRequest_default)
    (LFQueue_new ME_MAX_CLIENT_UPDATES MEClientResponse_default)"
  obtain og' where "gateway_start demo_kernel demo_net ''127.0.0.1'' ''lo'' 12345 ?og h = Inr (og', h1)" using g by blast
  moreover obtain h3 where "consumer_create demo_kernel demo_net (LFQueue_new ME_MAX_MARKET_UPDATES MEMarketUpdate_default) ''lo''
      ''233.252.14.3'' 20001 h1 = Inr (MarketDataConsumer_new (LFQueue_new ME_MAX_MARKET_UPDATES MEMarketUpdate_default), h3)"
    using c by blast
  ultimately show ?thesis using a
    by (simp add: trading_main_start_def Let_def initLastEventTime_def te_start_def TradeEngine_new_def)
qed

theorem programs_start_in_sync_witness:
  "\<exists>ex tr h1 g1. exchange_main demo_kernel demo_net (\<lambda>_ _ _. None) (\<lambda>_ _. None) 9 [] = Inr (ex, h1) \<and>
    trading_main_start exact_ops (\<lambda>_. Num 0) demo_kernel demo_net (\<lambda>_ _. None) (\<lambda>_ _. None) (\<lambda>_ _. Num 0) 5 demo_argv [] = Inr (tr, g1) \<and>
    in_sync \<lparr>eco_engine = ex_engine ex, eco_publisher = ex_publisher ex, eco_synthesizer = ex_synthesizer ex,
       eco_consumer = tr_consumer tr, eco_trader = tr_engine tr\<rparr> (\<lambda>_. empty_abook)"
proof -
  obtain ex h1 where e: "exchange_main demo_kernel demo_net (\<lambda>_ _ _. None) (\<lambda>_ _. None) 9 [] = Inr (ex, h1)"
    using demo_exchange by blast
  obtain tr g1 where t: "trading_main_start exact_ops (\<lambda>_. Num 0) demo_kernel demo_net (\<lambda>_ _. None) (\<lambda>_ _. None) (\<lambda>_ _. Num 0) 5 demo_argv [] = Inr (tr, g1)"
    "te_ticker_cfg (tr_engine tr) = (\<lambda>_. TradeEngineCfg_default exact_ops)" using demo_client by blast
  from programs_start_in_sync [OF e t(1)] e t show ?thesis by (auto simp: TradeEngineCfg_default_def)
qed

end
