(* ===== verification/Order_Round.thy ===== *)
theory Order_Round
  imports Order_Gateway Request_Streams
begin

text \<open>
  One round of the order path, from the queue in which the trade engine of a client writes its
  requests to the queue in which it reads the responses: the turns of the order gateway of
  \<^verbatim>\<open>src/trading/order_gw/order_gateway.h\<close>, of the order server of
  \<^verbatim>\<open>src/exchange/order_server/order_server.h\<close> and of the matching engine, in the order in
  which a request passes them. The network delivers what was sent, and the kernel takes whole
  buffers.
\<close>

section \<open>The components and a round\<close>

record order_flow =
  of_gateway :: OrderGateway
  of_server :: OrderServer
  of_engine :: MatchingEngine

text \<open>The bytes that left over one socket.\<close>

definition bytes_to :: "nat \<Rightarrow> (nat \<times> byte list) list \<Rightarrow> byte list" where
  "bytes_to s sents = concat (map snd (filter (\<lambda>p. fst p = s) sents))"

text \<open>
  A turn of a component sends what the turn before it has put into the buffers, so the gateway and the
  server each have two turns in which they send. The queues between the server and the engine are
  shared: the server holds them, and the engine works on them in its turns.
\<close>

definition order_round ::
    "(RecvTimeClientRequest list \<Rightarrow> RecvTimeClientRequest list) \<Rightarrow> nat \<Rightarrow> Nanos \<Rightarrow> Nanos \<Rightarrow> order_flow \<Rightarrow>
     order_flow result" where
  "order_round srt s request_time response_time fl =
     andThen (og_run_step None TCPBufferSize (of_gateway fl)) (\<lambda>(og1, _).
     andThen (og_run_step None TCPBufferSize og1) (\<lambda>(og2, up).
     andThen (os_run_step srt (of_server fl) [] [] (\<lambda>x. if x = s then Some (up, request_time) else None)
                (\<lambda>_. None) (\<lambda>_. TCPBufferSize)) (\<lambda>(os1, _).
     andThen (run (q_length (os_incoming_requests os1)) ((of_engine fl)\<lparr>incoming_requests := os_incoming_requests os1,
                eng_queues := (eng_queues (of_engine fl))\<lparr>mq_ogw_responses := os_outgoing_responses os1\<rparr>\<rparr>)) (\<lambda>eng1.
     andThen (os_run_step srt (os1\<lparr>os_incoming_requests := incoming_requests eng1,
                os_outgoing_responses := mq_ogw_responses (eng_queues eng1)\<rparr>) [] []
                (\<lambda>_. None) (\<lambda>_. None) (\<lambda>_. TCPBufferSize)) (\<lambda>(os2, _).
     andThen (os_run_step srt os2 [] [] (\<lambda>_. None) (\<lambda>_. None) (\<lambda>_. TCPBufferSize)) (\<lambda>(os3, sents).
     andThen (og_run_step (Some (bytes_to s sents, response_time)) TCPBufferSize og2) (\<lambda>(og3, _).
     Inr \<lparr>of_gateway = og3, of_server = os3, of_engine = eng1\<rparr>)))))))"

section \<open>Whom the responses go to\<close>

definition orders_of :: "(ClientId \<Rightarrow> bool) \<Rightarrow> (Price \<Rightarrow> bool) \<Rightarrow> aengine \<Rightarrow> bool" where
  "orders_of C P e \<longleftrightarrow> (\<forall>t<ME_MAX_TICKERS. \<forall>x\<in>set (ab_orders (e t)). C (me_client_id x) \<and> P (me_price x))"

text \<open>The price of a response is a price of the books, unless it rejects a cancel.\<close>

definition response_price :: "(Price \<Rightarrow> bool) \<Rightarrow> MEClientResponse \<Rightarrow> bool" where
  "response_price P m \<longleftrightarrow> (if cr_type m = CANCEL_REJECTED then cr_price m = Price_INVALID else P (cr_price m))"

lemma match_responses:
  "a_match g q xs = (ns, leaves, rs, us) \<Longrightarrow> \<forall>x\<in>set xs. C (me_client_id x) \<and> P (me_price x) \<Longrightarrow> C (ag_client g) \<Longrightarrow>
     \<forall>r\<in>set rs. C (cr_client_id r) \<and> cr_type r = FILLED \<and> P (cr_price r)"
proof (induction g q xs arbitrary: ns leaves rs us rule: a_match.induct)
  case (2 g q n xs)
  obtain ns' q' rs' us' where m: "a_match g (q - me_qty n) xs = (ns', q', rs', us')" by (metis prod.collapse)
  show ?case using 2 m by (auto simp: fill_responses_def split: if_splits)
qed auto

lemma request_responses:
  assumes "a_request b r = (b', rs, us)" and "\<forall>x\<in>set (ab_orders b). C (me_client_id x) \<and> P (me_price x)"
    and "C (rq_client_id r)" and "P (rq_price r)"
  shows "\<forall>m\<in>set rs. C (cr_client_id m) \<and> response_price P m"
proof (cases "rq_type r = Request_NEW")
  case True
  let ?s = "rq_side r"
  define g where "g = \<lparr>ag_ticker = rq_ticker_id r, ag_client = rq_client_id r, ag_order = rq_order_id r,
      ag_market = ucast (ucast (ab_next_id b) :: Qty), ag_side = ?s, ag_price = rq_price r\<rparr>"
  obtain ns leaves rs' us' where a: "a_match g (rq_qty r) (ab_side b (opp ?s)) = (ns, leaves, rs', us')" by (metis prod.collapse)
  have "\<forall>m\<in>set rs'. C (cr_client_id m) \<and> cr_type m = FILLED \<and> P (cr_price m)"
    by (rule match_responses [OF a]) (use assms(2,3) in \<open>auto simp: g_def ab_side_def ab_orders_def\<close>)
  moreover have "set rs \<subseteq> insert \<lparr>cr_type = ACCEPTED, cr_client_id = rq_client_id r, cr_ticker_id = rq_ticker_id r,
      cr_client_order_id = rq_order_id r, cr_market_order_id = ab_next_id b, cr_side = ?s, cr_price = rq_price r,
      cr_exec_qty = 0, cr_leaves_qty = rq_qty r\<rparr> (set rs')"
    using assms(1) True a by (auto simp: a_request_def a_add_def Let_def g_def split: if_splits)
  ultimately show ?thesis using assms(3,4) by (auto simp: response_price_def)
next
  case False
  then show ?thesis using assms
    by (auto simp: response_price_def a_request_def a_cancel_def find_Some_iff split: option.splits)
qed

lemma request_keeps_orders:
  assumes "request_ok b r" and "\<forall>x\<in>set (ab_orders b). C (me_client_id x) \<and> P (me_price x)"
    and "C (rq_client_id r)" and "P (rq_price r)"
  shows "\<forall>x\<in>set (ab_orders (fst (a_request b r))). C (me_client_id x) \<and> P (me_price x)"
  using request_orders(1) [OF assms(1)] assms(2-4) by (fastforce simp: stems_def order_key_def request_key_def)

lemma requests_responses:
  assumes "ae_requests e rs = (e', resps, us)" and "ae_oks e rs" and "orders_of C P e"
    and "\<forall>r\<in>set rs. C (rq_client_id r) \<and> P (rq_price r)"
  shows "orders_of C P e' \<and> (\<forall>m\<in>set resps. C (cr_client_id m) \<and> response_price P m)"
  using assms
proof (induction rs arbitrary: e e' resps us)
  case (Cons r rs)
  let ?t = "unat (rq_ticker_id r)"
  obtain e1 o1 u1 where 1: "ae_request e r = (e1, o1, u1)" by (metis prod.collapse)
  obtain e2 o2 u2 where 2: "ae_requests e1 rs = (e2, o2, u2)" by (metis prod.collapse)
  obtain b' where b: "a_request (e ?t) r = (b', o1, u1)" "e1 = e(?t := b')"
    using 1 by (auto simp: ae_request_def Let_def split_def prod_eq_iff)
  have t: "?t < ME_MAX_TICKERS" "request_ok (e ?t) r" using Cons.prems(2) by (auto simp: ae_ok_def)
  have old: "\<forall>x\<in>set (ab_orders (e ?t)). C (me_client_id x) \<and> P (me_price x)" using Cons.prems(3) t(1) by (simp add: orders_of_def)
  have r: "C (rq_client_id r)" "P (rq_price r)" using Cons.prems(4) by simp_all
  have out: "\<forall>m\<in>set o1. C (cr_client_id m) \<and> response_price P m"
    by (rule request_responses [OF b(1) old r])
  have "orders_of C P e1"
    using request_keeps_orders [OF t(2) old r] Cons.prems(3) b by (simp add: orders_of_def)
  from Cons.IH [OF 2 _ this] show ?case using Cons.prems(1,2,4) 1 2 out by auto
qed simp


section \<open>The gateway's turns\<close>

text \<open>What the gateway is after it has sent its requests: the bytes wait in the buffer.\<close>

definition requests_bytes :: "OrderGateway \<Rightarrow> byte list" where
  "requests_bytes og = concat (map enc_OMClientRequest
     (number_requests (next_outgoing_seq_num og) (q_contents (outgoing_requests og))))"

lemma gateway_writes:
  assumes "q_inv (outgoing_requests og)" and "q_contents (outgoing_requests og) = rs"
    and "tcp_outbound (og_socket og) = []" and "38 * length rs \<le> TCPBufferSize"
  shows "\<exists>q. og_run_step None T og = Inr (og\<lparr>og_socket := (og_socket og)\<lparr>tcp_outbound := requests_bytes og\<rparr>,
      outgoing_requests := q, next_outgoing_seq_num := next_outgoing_seq_num og + of_nat (length rs)\<rparr>, []) \<and>
    q_inv q \<and> q_contents q = [] \<and> q_capacity q = q_capacity (outgoing_requests og)"
proof -
  have "q_length (outgoing_requests og) = length rs" using assms(2) length_q_contents by metis
  then show ?thesis
    using send_requests_exact [of "og\<lparr>og_socket := (og_socket og)\<lparr>tcp_outbound := []\<rparr>\<rparr>" rs "length rs"] assms
    by (auto simp: og_run_step_def tcp_sendAndRecv_def requests_bytes_def)
qed

lemma gateway_idle_requests:
  "q_inv (outgoing_requests og) \<Longrightarrow> q_contents (outgoing_requests og) = [] \<Longrightarrow> send_requests n og = Inr og"
  by (simp add: send_requests.simps getNextToRead_contents)

lemma gateway_sends:
  assumes "q_inv (outgoing_requests og)" and "q_contents (outgoing_requests og) = []"
    and "length (tcp_outbound (og_socket og)) \<le> T"
  shows "og_run_step None T og = Inr (og\<lparr>og_socket := (og_socket og)\<lparr>tcp_outbound := []\<rparr>\<rparr>, tcp_outbound (og_socket og))"
  using assms gateway_idle_requests by (simp add: og_run_step_def tcp_sendAndRecv_def)

lemma gateway_reads:
  assumes "q_inv (outgoing_requests og)" and "q_contents (outgoing_requests og) = []"
    and "og_socket og = TCPSocket_new" and "50 * length ms \<le> TCPBufferSize"
    and "\<forall>m\<in>set ms. price_ok (cr_price (ocr_me_client_response m)) \<and> cr_client_id (ocr_me_client_response m) = og_client_id og"
    and "map ocr_seq_num ms = run_from (next_exp_seq_num og) (length ms)"
  shows "og_run_step (Some (concat (map enc_OMClientResponse ms), t)) T og =
    Inr (og\<lparr>next_exp_seq_num := next_exp_seq_num og + of_nat (length ms),
      incoming_responses := q_pushes (incoming_responses og) (map ocr_me_client_response ms)\<rparr>, [])"
proof -
  let ?data = "concat (map enc_OMClientResponse ms)"
  let ?og = "og\<lparr>next_exp_seq_num := next_exp_seq_num og + of_nat (length ms),
      incoming_responses := q_pushes (incoming_responses og) (map ocr_me_client_response ms)\<rparr>"
  have len: "length ?data = 50 * length ms" by (simp add: length_concat o_def sum_list_triv)
  have same: "og\<lparr>og_socket := TCPSocket_new\<rparr> = og" "?og\<lparr>og_socket := TCPSocket_new\<rparr> = ?og" using assms(3) by (cases og; simp)+
  show ?thesis
  proof (cases "ms = []")
    case True
    then show ?thesis using assms(1-3) gateway_idle_requests same by (simp add: og_run_step_def tcp_sendAndRecv_def TCPSocket_new_def)
  next
    case False
    have "frames sizeof_OMClientResponse dec_OMClientResponse ?data = (ms, [])"
      using response_codec.frames_enc [of ms "[]"] assms(5) by (simp add: sizeof_OMClientResponse_def)
    moreover have "sizeof_OMClientResponse \<le> length ?data"
      using False len by (cases ms) (simp_all add: sizeof_OMClientResponse_def)
    ultimately have "og_recvCallback (TCPSocket_new\<lparr>tcp_inbound := ?data\<rparr>) t og = Inr (TCPSocket_new, ?og)"
      using passed_all [of ms "og_client_id og" "next_exp_seq_num og"] assms(5,6)
      by (simp add: og_recvCallback_def recv_responses TCPSocket_new_def)
    moreover have "take TCPBufferSize ?data = ?data" using len assms(4) by simp
    moreover have "?data \<noteq> []" using len False by (cases ?data) auto
    moreover have "0 < TCPBufferSize" by (simp add: TCPBufferSize_def)
    ultimately have "tcp_sendAndRecv og_recvCallback (Some (?data, t)) T (og_socket og) og = Inr (TCPSocket_new, ?og, True, [])"
      using assms(3) by (simp add: tcp_sendAndRecv_def TCPSocket_new_def del: concat_eq_Nil_conv)
    moreover have "send_requests n ?og = Inr ?og" for n using assms(1,2) gateway_idle_requests [of ?og] by simp
    ultimately show ?thesis using same by (simp add: og_run_step_def)
  qed
qed


section \<open>The server's turns\<close>

definition flushed :: "OrderServer \<Rightarrow> bool" where
  "flushed os \<longleftrightarrow> (\<forall>x. tcp_outbound (os_sockets os x) = [])"

lemma turn_silent:
  assumes "reads x = None"
  shows "socket_turn os reads taken x = Inr (os\<lparr>os_sockets := (os_sockets os)(x := (os_sockets os x)\<lparr>tcp_outbound := []\<rparr>)\<rparr>,
    False, take (taken x) (tcp_outbound (os_sockets os x)))"
  using assms by (simp add: socket_turn_def tcp_sendAndRecv_def)

lemma flushed_turn:
  assumes "flushed os" and "reads x = None"
  shows "socket_turn os reads taken x = Inr (os, False, [])"
proof -
  have "(os_sockets os x)\<lparr>tcp_outbound := []\<rparr> = os_sockets os x" using assms(1) by (simp add: flushed_def)
  then show ?thesis using turn_silent [of reads x os taken] assms by (simp add: flushed_def)
qed

lemma flushed_turns:
  "flushed os \<Longrightarrow> \<forall>x\<in>set ss. reads x = None \<Longrightarrow> socket_turns os reads taken ss = Inr (os, False, map (\<lambda>x. (x, [])) ss)"
  by (induction ss) (simp_all add: flushed_turn)

definition empty_buffers :: "nat set \<Rightarrow> OrderServer \<Rightarrow> OrderServer" where
  "empty_buffers X os = os\<lparr>os_sockets := (\<lambda>x. if x \<in> X then (os_sockets os x)\<lparr>tcp_outbound := []\<rparr> else os_sockets os x)\<rparr>"

lemma empty_buffers_insert:
  "empty_buffers X (os\<lparr>os_sockets := (os_sockets os)(y := (os_sockets os y)\<lparr>tcp_outbound := []\<rparr>)\<rparr>) = empty_buffers (insert y X) os"
proof -
  have "(\<lambda>x. if x \<in> X then ((os_sockets os)(y := (os_sockets os y)\<lparr>tcp_outbound := []\<rparr>)) x\<lparr>tcp_outbound := []\<rparr>
      else ((os_sockets os)(y := (os_sockets os y)\<lparr>tcp_outbound := []\<rparr>)) x) =
    (\<lambda>x. if x \<in> insert y X then (os_sockets os x)\<lparr>tcp_outbound := []\<rparr> else os_sockets os x)" by auto
  then show ?thesis unfolding empty_buffers_def by (simp cong: if_cong)
qed

lemma silent_turns:
  assumes "\<forall>x\<in>set ss. reads x = None" and "distinct ss"
  shows "socket_turns os reads taken ss =
    Inr (empty_buffers (set ss) os, False, map (\<lambda>x. (x, take (taken x) (tcp_outbound (os_sockets os x)))) ss)"
  using assms
proof (induction ss arbitrary: os)
  case Nil
  then show ?case by (simp add: empty_buffers_def)
next
  case (Cons y ss)
  have "\<forall>x\<in>set ss. x \<noteq> y" using Cons.prems(2) by auto
  then have "map (\<lambda>x. (x, take (taken x) (tcp_outbound (((os_sockets os)(y := (os_sockets os y)\<lparr>tcp_outbound := []\<rparr>)) x)))) ss =
    map (\<lambda>x. (x, take (taken x) (tcp_outbound (os_sockets os x)))) ss" by simp
  then show ?case
    using Cons.IH [of "os\<lparr>os_sockets := (os_sockets os)(y := (os_sockets os y)\<lparr>tcp_outbound := []\<rparr>)\<rparr>"] Cons.prems
      turn_silent [of reads y os taken] by (simp add: empty_buffers_insert)
qed

lemma reading_turns:
  assumes "flushed os" and "\<forall>x. x \<noteq> s \<longrightarrow> reads x = None" and "distinct ss" and "s \<in> set ss"
    and "socket_turn os reads taken s = Inr (os1, recv, [])" and "flushed os1"
  shows "socket_turns os reads taken ss = Inr (os1, recv, map (\<lambda>x. (x, [])) ss)"
  using assms(3,4)
proof (induction ss)
  case (Cons y ss)
  show ?case
  proof (cases "y = s")
    case True
    then have "\<forall>x\<in>set ss. reads x = None" using Cons.prems(1) assms(2) by auto
    then show ?thesis using True assms(5) flushed_turns [OF assms(6)] by simp
  next
    case False
    then have "reads y = None" "s \<in> set ss" using assms(2) Cons.prems(2) by auto
    then show ?thesis using Cons.IH Cons.prems(1) flushed_turn [OF assms(1)] by simp
  qed
qed simp

lemma bytes_to_append [simp]: "bytes_to s (xs @ ys) = bytes_to s xs @ bytes_to s ys"
  by (simp add: bytes_to_def)

lemma bytes_to_turns: "distinct ss \<Longrightarrow> bytes_to s (map (\<lambda>x. (x, f x)) ss) = (if s \<in> set ss then f s else [])"
proof (induction ss)
  case (Cons y ss)
  then show ?case by (cases "y = s") (auto simp: bytes_to_def)
qed (simp add: bytes_to_def)

lemma bytes_to_silence [simp]: "bytes_to s (map (\<lambda>x. (x, [])) ss) = []"
  by (induction ss) (simp_all add: bytes_to_def)

text \<open>The parts of the server that reading leaves alone.\<close>

definition same_sending :: "OrderServer \<Rightarrow> OrderServer \<Rightarrow> bool" where
  "same_sending os os' \<longleftrightarrow> os_outgoing_responses os' = os_outgoing_responses os \<and> os_incoming_requests os' = os_incoming_requests os \<and>
     cid_next_outgoing_seq_num os' = cid_next_outgoing_seq_num os \<and> receive_sockets os' = receive_sockets os \<and>
     send_sockets os' = send_sockets os \<and> listener_socket os' = listener_socket os"

lemma same_sending_trans: "same_sending a b \<Longrightarrow> same_sending b c \<Longrightarrow> same_sending a c"
  by (simp add: same_sending_def)

lemma recv_request_sending: "recv_request os s t r = Inr os' \<Longrightarrow> same_sending os os'"
  by (auto simp: recv_request_def Let_def result_simps same_sending_def split: if_splits)

lemma recv_requests_sending: "recv_requests os s t rs = Inr os' \<Longrightarrow> same_sending os os'"
proof (induction rs arbitrary: os)
  case (Cons r rs)
  then obtain os1 where "recv_request os s t r = Inr os1" "recv_requests os1 s t rs = Inr os'" by (auto simp: result_simps)
  then show ?case using Cons.IH recv_request_sending same_sending_trans by blast
qed (simp add: same_sending_def)

lemma recv_requests_owners:
  assumes "recv_requests os s t rs = Inr os'" and "\<forall>r\<in>set rs. req_cid r = c" and "cid_tcp_socket os c \<in> {None, Some s}"
  shows "cid_tcp_socket os' = (if rs = [] then cid_tcp_socket os else (cid_tcp_socket os)(c := Some s))"
  using assms
proof (induction rs arbitrary: os)
  case (Cons r rs)
  then obtain os1 where os1: "recv_request os s t r = Inr os1" "recv_requests os1 s t rs = Inr os'" by (auto simp: result_simps)
  have "cid_tcp_socket os1 = (cid_tcp_socket os)(c := Some s)"
    using recv_request_Inr(2) [OF os1(1)] Cons.prems(2,3) by (auto simp: fun_upd_idem)
  with Cons.IH [OF os1(2)] Cons.prems(2) show ?case by auto
qed simp


lemma server_idle_responses:
  "q_inv (os_outgoing_responses os) \<Longrightarrow> q_contents (os_outgoing_responses os) = [] \<Longrightarrow> send_responses n os = Inr os"
  by (simp add: send_responses.simps getNextToRead_contents)

lemma callback_reads:
  assumes "requests_buffer os s rs rest" and "rs \<noteq> []" and "recv_requests os s t rs = Inr os1"
  shows "os_recvCallback os s t = Inr (os1\<lparr>os_sockets := (os_sockets os)(s := (os_sockets os s)\<lparr>tcp_inbound := rest\<rparr>)\<rparr>)"
proof -
  note b = assms(1) [unfolded requests_buffer_def]
  have "frames sizeof_OMClientRequest dec_OMClientRequest (concat (map enc_OMClientRequest rs) @ rest) = (rs, rest)"
    using request_codec.frames_enc [of rs rest] b by auto
  moreover have "\<not> length (concat (map enc_OMClientRequest rs) @ rest) < sizeof_OMClientRequest"
    using assms(2) request_codec.enc_size by (cases rs) simp_all
  ultimately show ?thesis using b assms(3) recv_requests_sockets [OF assms(3)] by (simp add: os_recvCallback_def not_less)
qed

text \<open>The requests that the server can read from the socket of the client \<open>c\<close>.\<close>

definition readable :: "OrderServer \<Rightarrow> nat \<Rightarrow> nat \<Rightarrow> OMClientRequest list \<Rightarrow> bool" where
  "readable os s c ms \<longleftrightarrow> os_sockets os s = TCPSocket_new \<and> pending_client_requests (fifo_sequencer os) = [] \<and>
     c < ME_MAX_NUM_CLIENTS \<and> cid_tcp_socket os c \<in> {None, Some s} \<and> length ms \<le> ME_MAX_PENDING_REQUESTS \<and>
     (\<forall>m\<in>set ms. req_cid m = c \<and> price_ok (rq_price (orq_me_client_request m))) \<and>
     map orq_seq_num ms = run_from (cid_next_exp_seq_num os c) (length ms)"

abbreviation received :: "Nanos \<Rightarrow> OMClientRequest list \<Rightarrow> RecvTimeClientRequest list" where
  "received t ms \<equiv> map (\<lambda>m. \<lparr>recv_time = t, rt_request = orq_me_client_request m\<rparr>) ms"

definition requests_read :: "OrderServer \<Rightarrow> nat \<Rightarrow> nat \<Rightarrow> OMClientRequest list \<Rightarrow> OrderServer \<Rightarrow> bool" where
  "requests_read os s c ms os' \<longleftrightarrow> os_sockets os' = os_sockets os \<and> os_outgoing_responses os' = os_outgoing_responses os \<and>
     cid_next_outgoing_seq_num os' = cid_next_outgoing_seq_num os \<and> receive_sockets os' = receive_sockets os \<and>
     send_sockets os' = send_sockets os \<and> cid_next_exp_seq_num os' c = cid_next_exp_seq_num os c + of_nat (length ms) \<and>
     cid_tcp_socket os' = (if ms = [] then cid_tcp_socket os else (cid_tcp_socket os)(c := Some s))"

lemma socket_turn_reads:
  assumes "readable os s c ms" and "ms \<noteq> []"
  shows "\<exists>os'. socket_turn os (\<lambda>x. if x = s then Some (concat (map enc_OMClientRequest ms), t) else None) taken s =
      Inr (os', True, []) \<and> requests_read os s c ms os' \<and> os_incoming_requests os' = os_incoming_requests os \<and>
    pending_client_requests (fifo_sequencer os') = received t ms"
proof -
  note r = assms(1) [unfolded readable_def]
  let ?data = "concat (map enc_OMClientRequest ms)"
  let ?os = "os\<lparr>os_sockets := (os_sockets os)(s := TCPSocket_new\<lparr>tcp_inbound := ?data\<rparr>)\<rparr>"
  have len: "length ?data = 38 * length ms" by (simp add: length_concat o_def sum_list_triv)
  have buf: "requests_buffer ?os s ms []"
    using r by (simp add: requests_buffer_def sizeof_OMClientRequest_def)
  then obtain os1 where os1: "recv_requests ?os s t ms = Inr os1"
    using recv_requests_ok [of ms ?os s t] r by auto
  have fw: "forwarded ?os os1 s t ms ms" by (rule recv_requests_in_order [OF os1, of c]) (use r in auto)
  have "length (seqs_of c ms) = length ms" using r by (simp add: seqs_of_def filter_id_conv)
  then have out: "pending_client_requests (fifo_sequencer os1) = received t ms"
      "cid_next_exp_seq_num os1 c = cid_next_exp_seq_num os c + of_nat (length ms)"
    using fw r by (simp_all add: forwarded_def)
  have frame: "same_sending ?os os1" by (rule recv_requests_sending [OF os1])
  have own: "cid_tcp_socket os1 = (cid_tcp_socket os)(c := Some s)"
    using recv_requests_owners [OF os1, of c] r assms(2) by simp
  have "length ms \<le> 1024" using r by (simp add: ME_MAX_PENDING_REQUESTS_def)
  then have "take TCPBufferSize ?data = ?data" using len by (simp add: TCPBufferSize_def)
  moreover have "?data \<noteq> []" using len assms(2) by (cases ?data) auto
  moreover have "0 < TCPBufferSize" by (simp add: TCPBufferSize_def)
  ultimately have "socket_turn os (\<lambda>x. if x = s then Some (?data, t) else None) taken s =
      Inr (os1\<lparr>os_sockets := os_sockets os\<rparr>, True, [])"
    using r callback_reads [OF buf assms(2) os1]
    by (simp add: socket_turn_def tcp_sendAndRecv_def TCPSocket_new_def fun_upd_idem del: concat_eq_Nil_conv)
  then show ?thesis using out own frame assms(2) by (simp add: requests_read_def same_sending_def)
qed


text \<open>The three turns of the server: reading, answering, and delivering the answers.\<close>

lemma server_reads:
  assumes "flushed os" and "distinct (receive_sockets os)" and "s \<in> set (receive_sockets os)"
    and "q_inv (os_outgoing_responses os)" and "q_contents (os_outgoing_responses os) = []"
    and "readable os s c ms" and "srt [] = []"
  shows "\<exists>os' sents. os_run_step srt os [] [] (\<lambda>x. if x = s then Some (concat (map enc_OMClientRequest ms), t) else None)
      (\<lambda>_. None) taken = Inr (os', sents) \<and> requests_read os s c ms os' \<and>
    pending_client_requests (fifo_sequencer os') = [] \<and>
    os_incoming_requests os' = q_pushes (os_incoming_requests os) (map rt_request (srt (received t ms)))"
proof -
  let ?reads = "\<lambda>x. if x = s then Some (concat (map enc_OMClientRequest ms), t) else None"
  have flush: "flushed os'" if "requests_read os s c ms os'" for os'
    using that assms(1) by (simp add: flushed_def requests_read_def)
  have idle: "send_responses n os' = Inr os'" if "os_outgoing_responses os' = os_outgoing_responses os" for n os'
    using that assms(4,5) server_idle_responses by simp
  show ?thesis
  proof (cases "ms = []")
    case True
    have "(os_sockets os s)\<lparr>tcp_outbound := []\<rparr> = os_sockets os s" using assms(1) by (simp add: flushed_def)
    then have "socket_turn os ?reads taken s = Inr (os, False, [])"
      using True assms(1) by (simp add: socket_turn_def tcp_sendAndRecv_def flushed_def fun_upd_idem)
    from reading_turns [OF assms(1) _ assms(2,3) this assms(1)] show ?thesis
      using True assms(6,7) flushed_turns [OF assms(1)] idle
      by (simp add: os_run_step_def poll_def sendAndRecv_def requests_read_def readable_def)
  next
    case False
    obtain os1 where os1: "socket_turn os ?reads taken s = Inr (os1, True, [])" "requests_read os s c ms os1"
      "os_incoming_requests os1 = os_incoming_requests os" "pending_client_requests (fifo_sequencer os1) = received t ms"
      using socket_turn_reads [OF assms(6) False] by blast
    define os2 where "os2 = os_recvFinishedCallback srt os1"
    have os2: "requests_read os s c ms os2" "pending_client_requests (fifo_sequencer os2) = []"
      "os_incoming_requests os2 = q_pushes (os_incoming_requests os) (map rt_request (srt (received t ms)))"
      using os1(2-4) False by (simp_all add: os2_def os_recvFinishedCallback_def sequenceAndPublish_def requests_read_def)
    have "send_responses n os2 = Inr os2" for n by (rule idle) (use os2(1) in \<open>simp add: requests_read_def\<close>)
    with reading_turns [OF assms(1) _ assms(2,3) os1(1) flush [OF os1(2)]] flushed_turns [OF flush [OF os2(1)]] os2 show ?thesis
      by (simp add: os_run_step_def poll_def sendAndRecv_def os2_def [symmetric])
  qed
qed

lemma server_answers:
  assumes "flushed os" and "q_inv (os_outgoing_responses os)" and "q_contents (os_outgoing_responses os) = rs"
    and "\<forall>r\<in>set rs. unat (cr_client_id r) < ME_MAX_NUM_CLIENTS \<and> cid_tcp_socket os (unat (cr_client_id r)) \<noteq> None"
    and "50 * length rs \<le> TCPBufferSize"
  shows "\<exists>os' sents. os_run_step srt os [] [] (\<lambda>_. None) (\<lambda>_. None) taken = Inr (os', sents) \<and> responses_sent os rs os'"
proof -
  have "q_length (os_outgoing_responses os) = length rs" using assms(3) length_q_contents by metis
  with send_responses_exact [OF assms(2,3) order_refl assms(4)] assms(1,5) obtain os' where
    "send_responses (q_length (os_outgoing_responses os)) os = Inr os'" "responses_sent os rs os'" by (auto simp: flushed_def)
  then show ?thesis using flushed_turns [OF assms(1)] by (simp add: os_run_step_def poll_def sendAndRecv_def)
qed

lemma server_delivers:
  assumes "distinct (receive_sockets os)" and "s \<in> set (receive_sockets os)"
    and "\<forall>x. x \<notin> set (receive_sockets os) \<longrightarrow> tcp_outbound (os_sockets os x) = []"
    and "q_inv (os_outgoing_responses os)" and "q_contents (os_outgoing_responses os) = []"
    and "length (tcp_outbound (os_sockets os s)) \<le> T"
  shows "\<exists>sents. os_run_step srt os [] [] (\<lambda>_. None) (\<lambda>_. None) (\<lambda>_. T) =
      Inr (empty_buffers (set (receive_sockets os)) os, sents) \<and> bytes_to s sents = tcp_outbound (os_sockets os s)"
proof -
  let ?os = "empty_buffers (set (receive_sockets os)) os"
  have fl: "flushed ?os" using assms(3) by (auto simp: flushed_def empty_buffers_def)
  have keep: "send_sockets ?os = send_sockets os" "os_outgoing_responses ?os = os_outgoing_responses os"
    by (simp_all add: empty_buffers_def)
  show ?thesis
    using silent_turns [OF _ assms(1), of "\<lambda>_. None" os "\<lambda>_. T"] flushed_turns [OF fl, of _ "\<lambda>_. None" "\<lambda>_. T"]
      server_idle_responses [of ?os] assms(2,4-6) keep
    by (simp add: os_run_step_def poll_def sendAndRecv_def bytes_to_turns [OF assms(1)])
qed


section \<open>The components in step\<close>

text \<open>
  The server can answer the clients that may have orders in the books: the client at hand over its
  socket \<open>s\<close>, every other one over another socket.
\<close>

definition can_answer :: "OrderServer \<Rightarrow> nat \<Rightarrow> ClientId \<Rightarrow> ClientId \<Rightarrow> bool" where
  "can_answer os s c d \<longleftrightarrow> unat d < ME_MAX_NUM_CLIENTS \<and> (d = c \<or> (\<exists>x. cid_tcp_socket os (unat d) = Some x \<and> x \<noteq> s))"

text \<open>
  Nothing is on its way between the gateway, the server and the engine, and the two ends agree on the
  numbers in both directions.
\<close>

definition linked :: "nat \<Rightarrow> order_flow \<Rightarrow> aengine \<Rightarrow> bool" where
  "linked s fl e \<longleftrightarrow>
     (let og = of_gateway fl; os = of_server fl; c = unat (og_client_id og) in
      q_inv (outgoing_requests og) \<and> q_inv (incoming_responses og) \<and> og_socket og = TCPSocket_new \<and>
      flushed os \<and> os_sockets os s = TCPSocket_new \<and> pending_client_requests (fifo_sequencer os) = [] \<and>
      distinct (receive_sockets os) \<and> s \<in> set (receive_sockets os) \<and>
      (\<forall>d x. cid_tcp_socket os d = Some x \<longrightarrow> x \<in> set (receive_sockets os)) \<and>
      c < ME_MAX_NUM_CLIENTS \<and> cid_tcp_socket os c \<in> {None, Some s} \<and>
      cid_next_exp_seq_num os c = next_outgoing_seq_num og \<and> cid_next_outgoing_seq_num os c = next_exp_seq_num og \<and>
      q_inv (os_incoming_requests os) \<and> q_contents (os_incoming_requests os) = [] \<and>
      q_inv (os_outgoing_responses os) \<and> q_contents (os_outgoing_responses os) = [] \<and>
      eng_run (of_engine fl) \<and> eng_rep (of_engine fl) e \<and>
      orders_of (can_answer os s (og_client_id og)) price_ok e)"

lemma number_member: "m \<in> set (number n rs) \<Longrightarrow> ocr_me_client_response m \<in> set rs"
  by (metis image_eqI list.set_map number_responses)

lemma number_filter:
  "map ocr_me_client_response (filter (\<lambda>m. resp_cid m = c) (number n rs)) = filter (\<lambda>r. unat (cr_client_id r) = c) rs"
  by (induction rs arbitrary: n) (auto simp: Let_def)

lemma number_count:
  "length (filter (\<lambda>m. resp_cid m = c) (number n rs)) = length (filter (\<lambda>r. unat (cr_client_id r) = c) rs)"
  using arg_cong [OF number_filter [of c n rs], of length] by simp

lemma length_sort: "\<forall>xs. mset (srt xs) = mset xs \<Longrightarrow> length (srt ys) = length ys"
  by (metis size_mset)

lemma number_requests_Nil [simp]: "number_requests n rs = [] \<longleftrightarrow> rs = []"
  by (cases rs) simp_all

lemma received_number: "received t (number_requests n rs) = map (\<lambda>r. \<lparr>recv_time = t, rt_request = r\<rparr>) rs"
proof -
  have "received t ms = map (\<lambda>r. \<lparr>recv_time = t, rt_request = r\<rparr>) (map orq_me_client_request ms)" for ms by simp
  from this [of "number_requests n rs"] show ?thesis by (simp only: number_requests_facts)
qed

text \<open>The way up: from the queue of the trade engine to the queue of the matching engine.\<close>

lemma requests_arrive:
  assumes "linked s fl e" and "q_contents (outgoing_requests (of_gateway fl)) = rs"
    and "\<forall>r\<in>set rs. rq_client_id r = og_client_id (of_gateway fl) \<and> price_ok (rq_price r)"
    and "length rs \<le> ME_MAX_PENDING_REQUESTS" and "\<forall>xs. mset (srt xs) = mset xs"
    and "length rs \<le> q_capacity (os_incoming_requests (of_server fl))"
  shows "\<exists>og1 og2 q os1 sents. og_run_step None TCPBufferSize (of_gateway fl) = Inr (og1, []) \<and>
    og_run_step None TCPBufferSize og1 = Inr (og2, requests_bytes (of_gateway fl)) \<and>
    og2 = (of_gateway fl)\<lparr>outgoing_requests := q, next_outgoing_seq_num := next_outgoing_seq_num (of_gateway fl) + of_nat (length rs)\<rparr> \<and>
    q_inv q \<and> q_contents q = [] \<and> q_capacity q = q_capacity (outgoing_requests (of_gateway fl)) \<and>
    os_run_step srt (of_server fl) [] [] (\<lambda>x. if x = s then Some (requests_bytes (of_gateway fl), t) else None)
      (\<lambda>_. None) (\<lambda>_. TCPBufferSize) = Inr (os1, sents) \<and>
    requests_read (of_server fl) s (unat (og_client_id (of_gateway fl)))
      (number_requests (next_outgoing_seq_num (of_gateway fl)) rs) os1 \<and>
    pending_client_requests (fifo_sequencer os1) = [] \<and> q_inv (os_incoming_requests os1) \<and>
    q_contents (os_incoming_requests os1) = map rt_request (srt (map (\<lambda>r. \<lparr>recv_time = t, rt_request = r\<rparr>) rs))"
proof -
  let ?og = "of_gateway fl" and ?os = "of_server fl"
  let ?ms = "number_requests (next_outgoing_seq_num ?og) rs"
  note l = assms(1) [unfolded linked_def Let_def]
  have room: "38 * length rs \<le> TCPBufferSize" using assms(4) by (simp add: ME_MAX_PENDING_REQUESTS_def TCPBufferSize_def)
  from gateway_writes [OF _ assms(2) _ room, of TCPBufferSize] l obtain q where
    q: "og_run_step None TCPBufferSize ?og = Inr (?og\<lparr>og_socket := (og_socket ?og)\<lparr>tcp_outbound := requests_bytes ?og\<rparr>,
      outgoing_requests := q, next_outgoing_seq_num := next_outgoing_seq_num ?og + of_nat (length rs)\<rparr>, [])"
    "q_inv q" "q_contents q = []" "q_capacity q = q_capacity (outgoing_requests ?og)" by (auto simp: TCPSocket_new_def)
  let ?og1 = "?og\<lparr>og_socket := (og_socket ?og)\<lparr>tcp_outbound := requests_bytes ?og\<rparr>,
      outgoing_requests := q, next_outgoing_seq_num := next_outgoing_seq_num ?og + of_nat (length rs)\<rparr>"
  let ?og2 = "?og\<lparr>outgoing_requests := q, next_outgoing_seq_num := next_outgoing_seq_num ?og + of_nat (length rs)\<rparr>"
  have bytes: "requests_bytes ?og = concat (map enc_OMClientRequest ?ms)" using assms(2) by (simp add: requests_bytes_def)
  have "length (concat (map enc_OMClientRequest ?ms)) = 38 * length ?ms" by (simp add: length_concat o_def sum_list_triv)
  then have "length (requests_bytes ?og) \<le> TCPBufferSize" using room bytes by simp
  moreover have "?og1\<lparr>og_socket := (og_socket ?og1)\<lparr>tcp_outbound := []\<rparr>\<rparr> = ?og2"
    using l by (cases ?og) (simp add: TCPSocket_new_def)
  ultimately have sent: "og_run_step None TCPBufferSize ?og1 = Inr (?og2, requests_bytes ?og)"
    using gateway_sends [of ?og1 TCPBufferSize] q by simp
  have "\<forall>m\<in>set ?ms. rq_client_id (orq_me_client_request m) = og_client_id ?og \<and> price_ok (rq_price (orq_me_client_request m))"
    using assms(3) number_requests_mem by blast
  then have "readable ?os s (unat (og_client_id ?og)) ?ms" using l assms(4) by (simp add: readable_def)
  moreover have "srt [] = []" using assms(5) by (metis mset_zero_iff)
  ultimately have "\<exists>os1 sents. os_run_step srt ?os [] [] (\<lambda>x. if x = s then Some (requests_bytes ?og, t) else None)
        (\<lambda>_. None) (\<lambda>_. TCPBufferSize) = Inr (os1, sents) \<and>
      requests_read ?os s (unat (og_client_id ?og)) ?ms os1 \<and> pending_client_requests (fifo_sequencer os1) = [] \<and>
      os_incoming_requests os1 = q_pushes (os_incoming_requests ?os) (map rt_request (srt (received t ?ms)))"
    unfolding bytes using l by (intro server_reads) simp_all
  then obtain os1 sents where os1:
    "os_run_step srt ?os [] [] (\<lambda>x. if x = s then Some (requests_bytes ?og, t) else None) (\<lambda>_. None) (\<lambda>_. TCPBufferSize) = Inr (os1, sents)"
    "requests_read ?os s (unat (og_client_id ?og)) ?ms os1" "pending_client_requests (fifo_sequencer os1) = []"
    "os_incoming_requests os1 = q_pushes (os_incoming_requests ?os) (map rt_request (srt (received t ?ms)))"
    by blast
  have "q_inv (os_incoming_requests os1) \<and>
      q_contents (os_incoming_requests os1) = map rt_request (srt (map (\<lambda>r. \<lparr>recv_time = t, rt_request = r\<rparr>) rs))"
    using q_pushes_contents [of "os_incoming_requests ?os" "map rt_request (srt (received t ?ms))"] l assms(6)
      length_sort [OF assms(5), of "received t ?ms"] by (simp add: os1(4) received_number)
  with q sent os1(1-3) show ?thesis by blast
qed


text \<open>The way down: from the queue of the matching engine's responses to the queue of the trade engine.\<close>

definition responses_for :: "ClientId \<Rightarrow> MEClientResponse list \<Rightarrow> MEClientResponse list" where
  "responses_for c rs = filter (\<lambda>r. cr_client_id r = c) rs"

lemma sent_bytes:
  assumes "\<forall>r\<in>set rs. can_answer os s c (cr_client_id r)" and "rs \<noteq> [] \<longrightarrow> cid_tcp_socket os (unat c) = Some s"
  shows "sent_to os s (number n rs) = concat (map enc_OMClientResponse (filter (\<lambda>m. resp_cid m = unat c) (number n rs)))"
proof -
  have "cid_tcp_socket os (resp_cid m) = Some s \<longleftrightarrow> resp_cid m = unat c" if "m \<in> set (number n rs)" for m
    using assms number_member [OF that] by (cases rs) (auto simp: can_answer_def)
  then have "filter (\<lambda>m. cid_tcp_socket os (resp_cid m) = Some s) (number n rs) = filter (\<lambda>m. resp_cid m = unat c) (number n rs)"
    by (intro filter_cong) auto
  then show ?thesis by (simp add: sent_to_def)
qed

lemma responses_arrive:
  assumes "flushed os" and "distinct (receive_sockets os)" and "s \<in> set (receive_sockets os)"
    and "\<forall>d x. cid_tcp_socket os d = Some x \<longrightarrow> x \<in> set (receive_sockets os)"
    and "q_inv (os_outgoing_responses os)" and "q_contents (os_outgoing_responses os) = resps"
    and "\<forall>r\<in>set resps. can_answer os s (og_client_id og) (cr_client_id r) \<and> price_ok (cr_price r)"
    and "resps \<noteq> [] \<longrightarrow> cid_tcp_socket os (unat (og_client_id og)) = Some s" and "50 * length resps \<le> TCPBufferSize"
    and "q_inv (outgoing_requests og)" and "q_contents (outgoing_requests og) = []" and "og_socket og = TCPSocket_new"
    and "cid_next_outgoing_seq_num os (unat (og_client_id og)) = next_exp_seq_num og"
  shows "\<exists>os2 os3 sents2 sents. os_run_step srt os [] [] (\<lambda>_. None) (\<lambda>_. None) (\<lambda>_. TCPBufferSize) = Inr (os2, sents2) \<and>
    os_run_step srt os2 [] [] (\<lambda>_. None) (\<lambda>_. None) (\<lambda>_. TCPBufferSize) = Inr (os3, sents) \<and>
    og_run_step (Some (bytes_to s sents, t)) TCPBufferSize og =
      Inr (og\<lparr>next_exp_seq_num := next_exp_seq_num og + of_nat (length (responses_for (og_client_id og) resps)),
        incoming_responses := q_pushes (incoming_responses og) (responses_for (og_client_id og) resps)\<rparr>, []) \<and>
    same_receiving os os3 \<and> flushed os3 \<and> (\<forall>x. tcp_inbound (os_sockets os3 x) = tcp_inbound (os_sockets os x)) \<and>
    q_inv (os_outgoing_responses os3) \<and> q_contents (os_outgoing_responses os3) = [] \<and>
    cid_next_outgoing_seq_num os3 (unat (og_client_id og)) =
      next_exp_seq_num og + of_nat (length (responses_for (og_client_id og) resps))"
proof -
  let ?c = "unat (og_client_id og)"
  let ?all = "number (cid_next_outgoing_seq_num os) resps"
  let ?ms = "filter (\<lambda>m. resp_cid m = ?c) ?all"
  have "\<forall>r\<in>set resps. unat (cr_client_id r) < ME_MAX_NUM_CLIENTS \<and> cid_tcp_socket os (unat (cr_client_id r)) \<noteq> None"
    using assms(7,8) by (auto simp: can_answer_def)
  from server_answers [OF assms(1,5,6) this assms(9), of srt "\<lambda>_. TCPBufferSize"] obtain os2 sents2 where
    os2: "os_run_step srt os [] [] (\<lambda>_. None) (\<lambda>_. None) (\<lambda>_. TCPBufferSize) = Inr (os2, sents2)" "responses_sent os resps os2" by blast
  note r = os2(2) [unfolded responses_sent_def same_receiving_def]
  have same_c: "unat (cr_client_id x) = ?c \<longleftrightarrow> cr_client_id x = og_client_id og" for x :: MEClientResponse by (rule word_unat_eq_iff [symmetric])
  have mine: "map ocr_me_client_response ?ms = responses_for (og_client_id og) resps"
    using number_filter [of ?c "cid_next_outgoing_seq_num os" resps] by (simp only: responses_for_def same_c)
  have count: "length ?ms = length (responses_for (og_client_id og) resps)"
    using arg_cong [OF mine, of length] by simp
  have out: "tcp_outbound (os_sockets os2 x) = sent_to os x ?all" for x using r assms(1) by (simp add: flushed_def)
  have bytes: "tcp_outbound (os_sockets os2 s) = concat (map enc_OMClientResponse ?ms)"
    using sent_bytes [of resps os s "og_client_id og"] assms(7,8) out by simp
  have "length ?ms \<le> length resps" unfolding count responses_for_def by (rule length_filter_le)
  then have room: "50 * length ?ms \<le> TCPBufferSize" using assms(9) by simp
  then have fits: "length (tcp_outbound (os_sockets os2 s)) \<le> TCPBufferSize"
    unfolding bytes by (simp add: length_concat o_def sum_list_triv)
  have "tcp_outbound (os_sockets os2 x) = []" if "x \<notin> set (receive_sockets os2)" for x
    using that assms(4) r unfolding out by (auto simp: sent_to_def filter_empty_conv)
  from server_delivers [OF _ _ _ _ _ fits, of srt] this assms(2,3) r obtain sents where
    os3: "os_run_step srt os2 [] [] (\<lambda>_. None) (\<lambda>_. None) (\<lambda>_. TCPBufferSize) = Inr (empty_buffers (set (receive_sockets os2)) os2, sents)"
    "bytes_to s sents = concat (map enc_OMClientResponse ?ms)" unfolding bytes by auto
  have "\<forall>m\<in>set ?ms. price_ok (cr_price (ocr_me_client_response m)) \<and> cr_client_id (ocr_me_client_response m) = og_client_id og"
  proof
    fix m assume "m \<in> set ?ms"
    then have "ocr_me_client_response m \<in> set resps" "resp_cid m = ?c" using number_member by auto
    then show "price_ok (cr_price (ocr_me_client_response m)) \<and> cr_client_id (ocr_me_client_response m) = og_client_id og"
      using assms(7) same_c by blast
  qed
  moreover have "map ocr_seq_num ?ms = run_from (next_exp_seq_num og) (length ?ms)"
    by (simp only: number_seqs number_count assms(13))
  ultimately have "og_run_step (Some (bytes_to s sents, t)) TCPBufferSize og =
      Inr (og\<lparr>next_exp_seq_num := next_exp_seq_num og + of_nat (length (responses_for (og_client_id og) resps)),
        incoming_responses := q_pushes (incoming_responses og) (responses_for (og_client_id og) resps)\<rparr>, [])"
    unfolding os3(2) using gateway_reads [OF assms(10-12) room] mine count by simp
  moreover have "flushed (empty_buffers (set (receive_sockets os2)) os2)"
    using \<open>\<And>x. x \<notin> set (receive_sockets os2) \<Longrightarrow> tcp_outbound (os_sockets os2 x) = []\<close> by (auto simp: flushed_def empty_buffers_def)
  moreover have "same_receiving os (empty_buffers (set (receive_sockets os2)) os2)"
    using r by (simp add: same_receiving_def empty_buffers_def)
  moreover have "cid_next_outgoing_seq_num os2 ?c = next_exp_seq_num og + of_nat (length (responses_for (og_client_id og) resps))"
    using r assms(13) count number_count [of ?c "cid_next_outgoing_seq_num os" resps] by simp
  ultimately show ?thesis using os2(1) os3(1) r by (auto simp: empty_buffers_def)
qed


section \<open>Properties\<close>

lemma no_requests_no_responses: "ae_requests e rs = (e', resps, us) \<Longrightarrow> resps \<noteq> [] \<Longrightarrow> rs \<noteq> []"
  by (cases rs) auto

text \<open>Reading requests binds the client to its socket and no other.\<close>

lemma can_answer_read:
  assumes "requests_read os s (unat c) ms os'" and "can_answer os s c d" and "cid_tcp_socket os (unat c) \<in> {None, Some s}"
  shows "can_answer os' s c d"
  using assms by (auto simp: can_answer_def requests_read_def split: if_splits)

lemma price_ok_invalid: "price_ok Price_INVALID"
  by (simp add: price_ok_def Price_INVALID_def)

lemma response_price_ok: "response_price price_ok m \<Longrightarrow> price_ok (cr_price m)"
  using price_ok_invalid by (simp add: response_price_def split: if_splits)

lemma can_answer_self: "unat c < ME_MAX_NUM_CLIENTS \<Longrightarrow> can_answer os s c c"
  by (simp add: can_answer_def)

lemma orders_of_mono: "orders_of C P e \<Longrightarrow> (\<And>d. C d \<Longrightarrow> D d) \<Longrightarrow> orders_of D P e"
  by (auto simp: orders_of_def)

lemma round_trip:
  assumes "linked s fl e" and "q_contents (outgoing_requests (of_gateway fl)) = rs"
    and "\<forall>r\<in>set rs. rq_client_id r = og_client_id (of_gateway fl) \<and> price_ok (rq_price r)"
    and "\<forall>xs. mset (srt xs) = mset xs"
    and "rs' = map rt_request (srt (map (\<lambda>r. \<lparr>recv_time = t, rt_request = r\<rparr>) rs))"
    and "ae_oks e rs'" and "ae_requests e rs' = (e', resps, us)"
    and "length rs \<le> ME_MAX_PENDING_REQUESTS" and "length rs \<le> q_capacity (os_incoming_requests (of_server fl))"
    and "length resps \<le> q_capacity (os_outgoing_responses (of_server fl))" and "50 * length resps \<le> TCPBufferSize"
    and "length (q_contents (incoming_responses (of_gateway fl))) + length (responses_for (og_client_id (of_gateway fl)) resps)
      \<le> q_capacity (incoming_responses (of_gateway fl))"
  shows "\<exists>fl'. order_round srt s t t' fl = Inr fl' \<and> linked s fl' e' \<and> mset rs' = mset rs \<and>
    q_contents (outgoing_requests (of_gateway fl')) = [] \<and>
    q_contents (incoming_responses (of_gateway fl')) =
      q_contents (incoming_responses (of_gateway fl)) @ responses_for (og_client_id (of_gateway fl)) resps \<and>
    mq_md_updates (eng_queues (of_engine fl')) = q_pushes (mq_md_updates (eng_queues (of_engine fl))) us \<and>
    og_client_id (of_gateway fl') = og_client_id (of_gateway fl) \<and>
    q_capacity (outgoing_requests (of_gateway fl')) = q_capacity (outgoing_requests (of_gateway fl))"
proof -
  let ?og = "of_gateway fl" and ?os = "of_server fl" and ?eng = "of_engine fl"
  let ?C = "can_answer ?os s (og_client_id ?og)"
  note l = assms(1) [unfolded linked_def Let_def]
  obtain og1 og2 q os1 sents1 where up: "og_run_step None TCPBufferSize ?og = Inr (og1, [])"
    "og_run_step None TCPBufferSize og1 = Inr (og2, requests_bytes ?og)"
    "og2 = ?og\<lparr>outgoing_requests := q, next_outgoing_seq_num := next_outgoing_seq_num ?og + of_nat (length rs)\<rparr>"
    "q_inv q" "q_contents q = []" "q_capacity q = q_capacity (outgoing_requests ?og)"
    "os_run_step srt ?os [] [] (\<lambda>x. if x = s then Some (requests_bytes ?og, t) else None) (\<lambda>_. None) (\<lambda>_. TCPBufferSize) = Inr (os1, sents1)"
    "requests_read ?os s (unat (og_client_id ?og)) (number_requests (next_outgoing_seq_num ?og) rs) os1"
    "pending_client_requests (fifo_sequencer os1) = []" "q_inv (os_incoming_requests os1)" "q_contents (os_incoming_requests os1) = rs'"
    using requests_arrive [OF assms(1,2,3,8,4,9), of t] assms(5) by blast
  note rd = up(8) [unfolded requests_read_def]
  have mset: "mset rs' = mset rs" and len: "length rs' = length rs"
    using assms(4) length_sort [OF assms(4)] by (simp_all add: assms(5) mset_map) (simp flip: mset_map add: comp_def)
  have own: "\<forall>r\<in>set rs'. ?C (rq_client_id r) \<and> price_ok (rq_price r)"
    using assms(3) l can_answer_self by (simp add: mset_eq_setD [OF mset])
  have "orders_of ?C price_ok e" using l by simp
  from requests_responses [OF assms(7,6) this own]
  have "orders_of ?C price_ok e'" "\<forall>m\<in>set resps. ?C (cr_client_id m) \<and> response_price price_ok m" by simp_all
  then have out: "orders_of ?C price_ok e'" "\<forall>m\<in>set resps. ?C (cr_client_id m) \<and> price_ok (cr_price m)" using response_price_ok by blast+
  let ?eng0 = "?eng\<lparr>incoming_requests := os_incoming_requests os1,
      eng_queues := (eng_queues ?eng)\<lparr>mq_ogw_responses := os_outgoing_responses os1\<rparr>\<rparr>"
  have rep: "eng_rep ?eng0 e" using l by (simp add: eng_rep_def)
  from run_refines [OF rep, of rs'] up(10,11) l assms(6,7) obtain eng1 where
    eng1: "run (length rs') ?eng0 = Inr eng1" "eng_rep eng1 e'" "eng_queues eng1 = send (eng_queues ?eng0) (resps, us)"
    "q_inv (incoming_requests eng1)" "q_contents (incoming_requests eng1) = []" "eng_run eng1" by auto
  let ?os1 = "os1\<lparr>os_incoming_requests := incoming_requests eng1, os_outgoing_responses := mq_ogw_responses (eng_queues eng1)\<rparr>"
  have q: "q_inv (mq_ogw_responses (eng_queues eng1))" "q_contents (mq_ogw_responses (eng_queues eng1)) = resps"
    "mq_md_updates (eng_queues eng1) = q_pushes (mq_md_updates (eng_queues ?eng)) us"
    using eng1(3) q_pushes_contents [of "os_outgoing_responses ?os" resps] l assms(10) rd by (simp_all add: send_def)
  have ans: "can_answer ?os1 s (og_client_id ?og) d" if "?C d" for d
    using can_answer_read [OF up(8) that] l by (simp add: can_answer_def)
  have bound: "\<forall>d x. cid_tcp_socket ?os1 d = Some x \<longrightarrow> x \<in> set (receive_sockets ?os1)" "cid_tcp_socket ?os1 (unat (og_client_id ?og)) \<in> {None, Some s}"
    "resps \<noteq> [] \<longrightarrow> cid_tcp_socket ?os1 (unat (og_client_id ?og)) = Some s"
    using rd l no_requests_no_responses [OF assms(7)] len by (auto split: if_splits)
  have fl1: "flushed ?os1" using l rd by (simp add: flushed_def)
  obtain os2 os3 sents2 sents where down: "os_run_step srt ?os1 [] [] (\<lambda>_. None) (\<lambda>_. None) (\<lambda>_. TCPBufferSize) = Inr (os2, sents2)"
    "os_run_step srt os2 [] [] (\<lambda>_. None) (\<lambda>_. None) (\<lambda>_. TCPBufferSize) = Inr (os3, sents)"
    "og_run_step (Some (bytes_to s sents, t')) TCPBufferSize og2 =
      Inr (og2\<lparr>next_exp_seq_num := next_exp_seq_num og2 + of_nat (length (responses_for (og_client_id og2) resps)),
        incoming_responses := q_pushes (incoming_responses og2) (responses_for (og_client_id og2) resps)\<rparr>, [])"
    "same_receiving ?os1 os3" "flushed os3" "\<forall>x. tcp_inbound (os_sockets os3 x) = tcp_inbound (os_sockets ?os1 x)"
    "q_inv (os_outgoing_responses os3)" "q_contents (os_outgoing_responses os3) = []"
    "cid_next_outgoing_seq_num os3 (unat (og_client_id og2)) = next_exp_seq_num og2 + of_nat (length (responses_for (og_client_id og2) resps))"
    using responses_arrive [OF fl1 _ _ bound(1), of s resps og2 srt t'] q bound(3) out(2) ans l rd up(3-5) assms(11) by auto
  note rec = down(4) [unfolded same_receiving_def]
  let ?og3 = "og2\<lparr>next_exp_seq_num := next_exp_seq_num og2 + of_nat (length (responses_for (og_client_id og2) resps)),
        incoming_responses := q_pushes (incoming_responses og2) (responses_for (og_client_id og2) resps)\<rparr>"
  let ?fl = "\<lparr>of_gateway = ?og3, of_server = os3, of_engine = eng1\<rparr>"
  have "order_round srt s t t' fl = Inr ?fl"
    using up(1,2,7) eng1(1) down(1-3) up(11) length_q_contents [of "os_incoming_requests os1"] by (simp add: order_round_def)
  moreover have inq: "q_inv (incoming_responses ?og3)" "q_contents (incoming_responses ?og3) =
      q_contents (incoming_responses ?og) @ responses_for (og_client_id ?og) resps"
    using q_pushes_contents [of "incoming_responses ?og" "responses_for (og_client_id ?og) resps"] l assms(12) up(3) by simp_all
  moreover have "linked s ?fl e'"
  proof -
    have "tcp_outbound (os_sockets os3 s) = []" "tcp_inbound (os_sockets os3 s) = []"
      using down(5,6) rd l by (simp_all add: flushed_def TCPSocket_new_def)
    then have sock: "os_sockets os3 s = TCPSocket_new" by (cases "os_sockets os3 s") (simp add: TCPSocket_new_def)
    have "can_answer os3 s (og_client_id ?og) d" if "?C d" for d using ans [OF that] rec by (simp add: can_answer_def)
    with out(1) have "orders_of (can_answer os3 s (og_client_id ?og)) price_ok e'" by (rule orders_of_mono)
    then show ?thesis
      using inq sock rec down(5,7-9) eng1(2,4-6) bound(1,2) l rd up(3-5,9) by (simp add: linked_def)
  qed
  ultimately show ?thesis using mset q(3) up(3,5,6) by auto
qed

text \<open>C5: A round trip of a client's orders. When nothing is on its way and the gateway and the order
  server agree on their numbers, and the requests waiting at the gateway are the client's own and
  ones the exchange can take in the order the sequencer's sort gives them, then a round (the gateway
  numbers and sends them, the server reads, checks and sequences them, the matching engine works
  them off, the server numbers and sends the responses, the gateway reads them) ends without a
  fault. Every request has reached the books once; the client's queue has received exactly the
  responses of the specification that are meant for it, in their order; the market data are those
  of the specification; and the components are in step again.\<close>

theorem order_round_trip:
  assumes "linked s fl e" and "q_contents (outgoing_requests (of_gateway fl)) = rs"
    and "\<forall>r\<in>set rs. rq_client_id r = og_client_id (of_gateway fl) \<and> price_ok (rq_price r)"
    and "\<forall>xs. mset (srt xs) = mset xs"
    and "rs' = map rt_request (srt (map (\<lambda>r. \<lparr>recv_time = t, rt_request = r\<rparr>) rs))"
    and "ae_oks e rs'" and "ae_requests e rs' = (e', resps, us)"
    and "length rs \<le> ME_MAX_PENDING_REQUESTS" and "length rs \<le> q_capacity (os_incoming_requests (of_server fl))"
    and "length resps \<le> q_capacity (os_outgoing_responses (of_server fl))" and "50 * length resps \<le> TCPBufferSize"
    and "length (q_contents (incoming_responses (of_gateway fl))) + length (responses_for (og_client_id (of_gateway fl)) resps)
      \<le> q_capacity (incoming_responses (of_gateway fl))"
  shows "\<exists>fl'. order_round srt s t t' fl = Inr fl' \<and> linked s fl' e' \<and> mset rs' = mset rs \<and>
    q_contents (outgoing_requests (of_gateway fl')) = [] \<and>
    q_contents (incoming_responses (of_gateway fl')) =
      q_contents (incoming_responses (of_gateway fl)) @ responses_for (og_client_id (of_gateway fl)) resps \<and>
    mq_md_updates (eng_queues (of_engine fl')) = q_pushes (mq_md_updates (eng_queues (of_engine fl))) us"
  using round_trip [OF assms] by blast


text \<open>One client with one order, connected over socket 5, and an exchange that has just started.\<close>

definition demo_flow :: order_flow where
  "demo_flow = \<lparr>of_gateway = demo_gateway [demo_new],
     of_server = (OrderServer_new 0 (LFQueue_new 4 MEClientRequest_default) (LFQueue_new 4 MEClientResponse_default))
       \<lparr>receive_sockets := [5]\<rparr>,
     of_engine = start (MatchingEngine_new (\<lambda>_ _ _. None) (\<lambda>_ _. None) (LFQueue_new 4 MEClientRequest_default) empty_queues)\<rparr>"

lemma demo_linked: "linked 5 demo_flow (\<lambda>_. empty_abook)"
proof -
  have "eng_rep (of_engine demo_flow) (\<lambda>_. empty_abook)"
    using eng_rep_new by (simp add: demo_flow_def start_def eng_rep_def)
  then show ?thesis
    using q_inv_push [OF q_inv_new [of 4]]
    by (simp add: linked_def demo_flow_def demo_gateway_def OrderGateway_new_def OrderServer_new_def flushed_def
        FIFOSequencer_new_def TCPSocket_new_def ME_MAX_NUM_CLIENTS_def start_def MatchingEngine_new_def orders_of_def
        empty_abook_def ab_orders_def q_inv_new)
qed

theorem order_round_trip_witness:
  "\<exists>fl' e' resps us. ae_requests (\<lambda>_. empty_abook) [demo_new] = (e', resps, us) \<and>
    order_round (sort_key recv_time) 5 7 8 demo_flow = Inr fl' \<and> linked 5 fl' e' \<and>
    q_contents (incoming_responses (of_gateway fl')) = resps \<and> map cr_type resps = [ACCEPTED]"
proof -
  obtain e' resps us where r: "ae_requests (\<lambda>_. empty_abook) [demo_new] = (e', resps, us)" by (metis prod.collapse)
  have resps: "resps = [\<lparr>cr_type = ACCEPTED, cr_client_id = 3, cr_ticker_id = 1, cr_client_order_id = 7,
      cr_market_order_id = ab_next_id empty_abook, cr_side = BUY, cr_price = 100, cr_exec_qty = 0, cr_leaves_qty = 10\<rparr>]"
    using r by (auto simp: ae_request_def a_request_def demo_new_def demo_request_def a_add_def Let_def empty_abook_def ab_side_def)
  have q: "q_contents (outgoing_requests (of_gateway demo_flow)) = [demo_new]"
    using q_contents_push [OF q_inv_new [of 4]] by (simp add: demo_flow_def demo_gateway_def OrderGateway_new_def)
  have demo: "og_client_id (of_gateway demo_flow) = 3" "q_capacity (os_incoming_requests (of_server demo_flow)) = 4"
    "q_capacity (os_outgoing_responses (of_server demo_flow)) = 4" "q_contents (incoming_responses (of_gateway demo_flow)) = []"
    "q_capacity (incoming_responses (of_gateway demo_flow)) = 4"
    by (simp_all add: demo_flow_def demo_gateway_def OrderGateway_new_def OrderServer_new_def)
  from order_round_trip [OF demo_linked q, of "sort_key recv_time" _ 7 e' resps us 8] demo_new_ok(1) r demo resps show ?thesis
    by (auto simp: demo_new_def demo_request_def price_ok_def ME_MAX_PENDING_REQUESTS_def TCPBufferSize_def responses_for_def)
qed

end
