(* ===== verification/Honest_Exchange.thy ===== *)
theory Honest_Exchange
  imports Order_Round Order_Manager
begin

text \<open>
  The order manager of a client together with the books of the exchange. Its position limit and its
  single open order per side hold against an exchange whose responses are honest; here the responses
  are those of the matching engine, with requests and responses on their way between the two and the
  requests of other clients in between, and honesty is a theorem.
\<close>

section \<open>What a list of responses does to an order\<close>

text \<open>The responses that act on the order of a ticker and side.\<close>

definition concerns :: "nat \<Rightarrow> Side \<Rightarrow> MEClientResponse \<Rightarrow> bool" where
  "concerns t side r \<longleftrightarrow> unat (cr_ticker_id r) = t \<and> cr_side r = side \<and> cr_type r \<in> {ACCEPTED, CANCELED, FILLED}"

text \<open>When a response fits the order \<open>x\<close>, and the order after it.\<close>

definition fits :: "OMOrder \<Rightarrow> MEClientResponse \<Rightarrow> bool" where
  "fits x r \<longleftrightarrow> cr_client_order_id r = om_order_id x \<and>
     (case cr_type r of
        ACCEPTED \<Rightarrow> order_state x = PENDING_NEW
      | CANCELED \<Rightarrow> order_state x = PENDING_CANCEL
      | FILLED \<Rightarrow> order_state x \<in> {LIVE, PENDING_CANCEL} \<and> uint (cr_exec_qty r) + uint (cr_leaves_qty r) = uint (om_qty x)
      | _ \<Rightarrow> False)"

definition moved_by :: "OMOrder \<Rightarrow> MEClientResponse \<Rightarrow> OMOrder" where
  "moved_by x r =
     (case cr_type r of
        ACCEPTED \<Rightarrow> x\<lparr>order_state := LIVE\<rparr>
      | CANCELED \<Rightarrow> x\<lparr>order_state := DEAD\<rparr>
      | FILLED \<Rightarrow> x\<lparr>om_qty := cr_leaves_qty r, order_state := if cr_leaves_qty r = 0 then DEAD else order_state x\<rparr>
      | _ \<Rightarrow> x)"

fun replay :: "OMOrder \<Rightarrow> MEClientResponse list \<Rightarrow> OMOrder option" where
  "replay x [] = Some x"
| "replay x (r # rs) = (if fits x r then replay (moved_by x r) rs else None)"

lemma replay_append: "replay x rs = Some y \<Longrightarrow> replay x (rs @ rs') = replay y rs'"
  by (induction rs arbitrary: x) (auto split: if_splits)

definition same_order :: "OMOrder \<Rightarrow> OMOrder \<Rightarrow> bool" where
  "same_order x y \<longleftrightarrow> om_order_id y = om_order_id x \<and> om_ticker_id y = om_ticker_id x \<and> om_side y = om_side x \<and> om_price y = om_price x"

lemma moved_same: "same_order x (moved_by x r)"
  by (simp add: same_order_def moved_by_def split: ClientResponseType.splits)

lemma fits_open: "fits x r \<Longrightarrow> is_open x"
  by (auto simp: fits_def is_open_def split: ClientResponseType.splits)

lemma replay_same: "replay x rs = Some y \<Longrightarrow> same_order x y"
proof (induction rs arbitrary: x)
  case (Cons r rs)
  then have "same_order (moved_by x r) y" by (simp split: if_splits)
  with moved_same [of x r] show ?case by (simp add: same_order_def)
qed (simp add: same_order_def)

lemma replay_closed: "replay x rs = Some y \<Longrightarrow> \<not> is_open x \<Longrightarrow> rs = [] \<and> y = x"
  by (cases rs) (auto split: if_splits dest: fits_open)

text \<open>A live order that is being cancelled takes the same fills.\<close>

lemma replay_cancel:
  assumes "replay x rs = Some y" and "order_state x = LIVE"
  shows "\<exists>y'. replay (x\<lparr>order_state := PENDING_CANCEL\<rparr>) rs = Some y' \<and>
    (y' = y \<and> order_state y = DEAD \<or> y' = y\<lparr>order_state := PENDING_CANCEL\<rparr> \<and> order_state y = LIVE)"
  using assms
proof (induction rs arbitrary: x)
  case (Cons r rs)
  then have r: "fits x r" "replay (moved_by x r) rs = Some y" by (simp_all split: if_splits)
  with Cons.prems(2) have f: "cr_type r = FILLED" by (auto simp: fits_def split: ClientResponseType.splits)
  have g: "fits (x\<lparr>order_state := PENDING_CANCEL\<rparr>) r" using r(1) f by (simp add: fits_def)
  show ?case
  proof (cases "cr_leaves_qty r = 0")
    case True
    then have "\<not> is_open (moved_by x r)" "moved_by (x\<lparr>order_state := PENDING_CANCEL\<rparr>) r = moved_by x r"
      "order_state (moved_by x r) = DEAD" using f by (simp_all add: moved_by_def is_open_def)
    with replay_closed [OF r(2)] g show ?thesis by simp
  next
    case False
    then have "order_state (moved_by x r) = LIVE"
      "moved_by (x\<lparr>order_state := PENDING_CANCEL\<rparr>) r = (moved_by x r)\<lparr>order_state := PENDING_CANCEL\<rparr>"
      using f Cons.prems(2) by (simp_all add: moved_by_def)
    with Cons.IH [OF r(2)] g show ?thesis by simp
  qed
qed simp

section \<open>What the books hold of a client\<close>

type_synonym resting_view = "OrderId \<times> Price \<times> Qty"

definition own_view :: "ClientId \<Rightarrow> MEOrder list \<Rightarrow> resting_view list" where
  "own_view cid xs = map (\<lambda>n. (me_client_order_id n, me_price n, me_qty n)) (filter (\<lambda>n. me_client_id n = cid) xs)"

text \<open>What they should hold of an order of the manager.\<close>

definition om_view :: "OMOrder \<Rightarrow> resting_view list" where
  "om_view x = (if order_state x \<in> {LIVE, PENDING_CANCEL} \<and> om_qty x \<noteq> 0 then [(om_order_id x, om_price x, om_qty x)] else [])"

lemma own_view_simps [simp]:
  "own_view cid [] = []"
  "own_view cid (n # ns) = (if me_client_id n = cid then [(me_client_order_id n, me_price n, me_qty n)] else []) @ own_view cid ns"
  "own_view cid (xs @ ys) = own_view cid xs @ own_view cid ys"
  by (simp_all add: own_view_def)

lemma own_view_insert:
  assumes "me_client_id n = cid \<longrightarrow> own_view cid xs = []"
  shows "own_view cid (a_insert s n xs) = (if me_client_id n = cid then [(me_client_order_id n, me_price n, me_qty n)] else own_view cid xs)"
proof -
  have parts: "own_view cid (takeWhile P xs) @ own_view cid (dropWhile P xs) = own_view cid xs" for P
    by (metis own_view_simps(3) takeWhile_dropWhile_id)
  then have "own_view cid xs = [] \<Longrightarrow> own_view cid (takeWhile P xs) = [] \<and> own_view cid (dropWhile P xs) = []" for P
    by (metis Nil_is_append_conv)
  with parts show ?thesis using assms by (simp add: a_insert_def)
qed

lemma om_view_single: "om_view x = v # vs \<Longrightarrow> vs = [] \<and> v = (om_order_id x, om_price x, om_qty x) \<and>
  order_state x \<in> {LIVE, PENDING_CANCEL} \<and> om_qty x \<noteq> 0"
  by (auto simp: om_view_def split: if_splits)

section \<open>Matching\<close>

text \<open>The responses to a client about a ticker and side.\<close>

abbreviation about :: "ClientId \<Rightarrow> nat \<Rightarrow> Side \<Rightarrow> MEClientResponse list \<Rightarrow> MEClientResponse list" where
  "about cid t side rs \<equiv> filter (concerns t side) (responses_for cid rs)"

lemma responses_for_simps [simp]:
  "responses_for c [] = []" "responses_for c (r # rs) = (if cr_client_id r = c then r # responses_for c rs else responses_for c rs)"
  "responses_for c (rs @ rs') = responses_for c rs @ responses_for c rs'"
  by (simp_all add: responses_for_def)

text \<open>A fill of the client's resting order.\<close>

lemma passive_fill:
  assumes "om_view y = [(me_client_order_id n, me_price n, me_qty n)]" and "k \<le> me_qty n"
    and "r = \<lparr>cr_type = FILLED, cr_client_id = cid, cr_ticker_id = tid, cr_client_order_id = me_client_order_id n,
       cr_market_order_id = m, cr_side = d, cr_price = p, cr_exec_qty = k, cr_leaves_qty = me_qty n - k\<rparr>"
  shows "fits y r" and "om_view (moved_by y r) = (if k = me_qty n then [] else [(me_client_order_id n, me_price n, me_qty n - k)])"
    and "order_state (moved_by y r) \<in> {order_state y, DEAD}"
proof -
  note v = om_view_single [OF assms(1)]
  have "uint k + uint (me_qty n - k) = uint (me_qty n)" using assms(2) by (simp add: uint_minus_simple_alt word_le_def)
  then show "fits y r" using v assms(3) by (auto simp: fits_def)
  show "om_view (moved_by y r) = (if k = me_qty n then [] else [(me_client_order_id n, me_price n, me_qty n - k)])"
    using v assms(3) by (auto simp: om_view_def moved_by_def)
  show "order_state (moved_by y r) \<in> {order_state y, DEAD}" using assms(3) by (simp add: moved_by_def)
qed


lemma match_passive:
  assumes "a_match g q xs = (ns, leaves, rs, us)" and "own_view cid xs = om_view y" and "\<forall>x\<in>set xs. me_side x = d"
    and "ag_side g \<noteq> d" and "unat (ag_ticker g) = t"
  shows "\<exists>y'. replay y (about cid t d rs) = Some y' \<and> own_view cid ns = om_view y' \<and>
    (y' = y \<or> om_view y \<noteq> [] \<and> order_state y' \<in> {order_state y, DEAD})"
  using assms
proof (induction g q xs arbitrary: y ns leaves rs us rule: a_match.induct)
  case (1 g q)
  then show ?case by simp
next
  case (2 g q n xs)
  let ?r = "\<lambda>k. \<lparr>cr_type = FILLED, cr_client_id = me_client_id n, cr_ticker_id = ag_ticker g, cr_client_order_id = me_client_order_id n,
       cr_market_order_id = me_market_order_id n, cr_side = me_side n, cr_price = me_price n, cr_exec_qty = k, cr_leaves_qty = me_qty n - k\<rparr>"
  have d: "me_side n = d" "ag_side g \<noteq> d" "unat (ag_ticker g) = t" using "2.prems"(3-5) by simp_all
  have mine: "about cid t d (fill_responses g n k l) = (if me_client_id n = cid then [?r k] else [])" for k l
    using d by (simp add: fill_responses_def concerns_def)
  have single: "om_view y = [(me_client_order_id n, me_price n, me_qty n)]" "own_view cid xs = []" if "me_client_id n = cid"
  proof -
    have "om_view y = (me_client_order_id n, me_price n, me_qty n) # own_view cid xs" using "2.prems"(2) that by simp
    then show "om_view y = [(me_client_order_id n, me_price n, me_qty n)]" "own_view cid xs = []"
      using om_view_single by fastforce+
  qed
  consider (stop) "q = 0 \<or> \<not> crosses (ag_side g) (ag_price g) (me_price n)"
    | (part) "\<not> (q = 0 \<or> \<not> crosses (ag_side g) (ag_price g) (me_price n))" "q < me_qty n"
    | (full) "\<not> (q = 0 \<or> \<not> crosses (ag_side g) (ag_price g) (me_price n))" "\<not> q < me_qty n" by blast
  then show ?case
  proof cases
    case stop
    then have "ns = n # xs" "rs = []" using "2.prems"(1) by auto
    then show ?thesis using "2.prems"(2) by simp
  next
    case part
    then have r: "ns = n\<lparr>me_qty := me_qty n - q\<rparr> # xs" "rs = fill_responses g n q 0" using "2.prems"(1) by auto
    show ?thesis
    proof (cases "me_client_id n = cid")
      case True
      have "q \<le> me_qty n" "q \<noteq> me_qty n" using part(2) by auto
      with passive_fill [OF single(1) [OF True] this(1) refl, of cid "ag_ticker g" "me_market_order_id n" "me_side n" "me_price n"]
      show ?thesis using True r mine single by simp
    next
      case False
      then show ?thesis using r mine "2.prems"(2) by simp
    qed
  next
    case full
    obtain ns' q' rs' us' where m: "a_match g (q - me_qty n) xs = (ns', q', rs', us')" by (metis prod.collapse)
    then have r: "ns = ns'" "rs = fill_responses g n (me_qty n) (q - me_qty n) @ rs'" using "2.prems"(1) full by auto
    note IH = "2.IH" [OF full m]
    have sides: "\<forall>x\<in>set xs. me_side x = d" using "2.prems"(3) by simp
    show ?thesis
    proof (cases "me_client_id n = cid")
      case True
      let ?y = "moved_by y (?r (me_qty n))"
      note f = passive_fill [OF single(1) [OF True] order_refl refl, of cid "ag_ticker g" "me_market_order_id n" "me_side n" "me_price n"]
      have "own_view cid xs = om_view ?y" using f(2) single(2) True by simp
      from IH [OF this sides d(2,3)] f(2) obtain y' where "replay ?y (about cid t d rs') = Some y'"
        "own_view cid ns' = om_view y'" "y' = ?y" using True by auto
      then show ?thesis using f True r mine single by auto
    next
      case False
      then have "own_view cid xs = om_view y" using "2.prems"(2) by simp
      from IH [OF this sides d(2,3)] show ?thesis using False r mine by simp
    qed
  qed
qed

lemma match_active:
  assumes "a_match g q xs = (ns, leaves, rs, us)" and "\<forall>x\<in>set xs. me_side x \<noteq> ag_side g"
    and "ag_client g = cid" and "unat (ag_ticker g) = t" and "order_state z = LIVE" and "om_qty z = q" and "om_order_id z = ag_order g"
  shows "replay z (about cid t (ag_side g) rs) =
    Some (z\<lparr>om_qty := leaves, order_state := if leaves = 0 \<and> q \<noteq> 0 then DEAD else LIVE\<rparr>)"
  using assms
proof (induction g q xs arbitrary: z ns leaves rs us rule: a_match.induct)
  case (1 g q)
  then show ?case by (cases z) simp
next
  case (2 g q n xs)
  let ?r = "\<lambda>k l. \<lparr>cr_type = FILLED, cr_client_id = cid, cr_ticker_id = ag_ticker g, cr_client_order_id = ag_order g,
       cr_market_order_id = ag_market g, cr_side = ag_side g, cr_price = me_price n, cr_exec_qty = k, cr_leaves_qty = l\<rparr>"
  have mine: "about cid t (ag_side g) (fill_responses g n k l) = [?r k l]" for k l
    using "2.prems"(2-4) by (simp add: fill_responses_def concerns_def)
  have same: "z\<lparr>om_qty := q, order_state := LIVE\<rparr> = z" using "2.prems"(5,6) by (cases z) simp
  consider (stop) "q = 0 \<or> \<not> crosses (ag_side g) (ag_price g) (me_price n)"
    | (part) "\<not> (q = 0 \<or> \<not> crosses (ag_side g) (ag_price g) (me_price n))" "q < me_qty n"
    | (full) "\<not> (q = 0 \<or> \<not> crosses (ag_side g) (ag_price g) (me_price n))" "\<not> q < me_qty n" by blast
  then show ?case
  proof cases
    case stop
    then have "leaves = q" "rs = []" using "2.prems"(1) by auto
    then show ?thesis using same by simp
  next
    case part
    then have r: "leaves = 0" "rs = fill_responses g n q 0" "q \<noteq> 0" using "2.prems"(1) by auto
    then show ?thesis using mine "2.prems"(5-7) by (simp add: fits_def moved_by_def)
  next
    case full
    obtain ns' q' rs' us' where m: "a_match g (q - me_qty n) xs = (ns', q', rs', us')" by (metis prod.collapse)
    then have r: "leaves = q'" "rs = fill_responses g n (me_qty n) (q - me_qty n) @ rs'" "q \<noteq> 0" using "2.prems"(1) full by auto
    have "me_qty n \<le> q" using full(2) by simp
    then have "uint (me_qty n) + uint (q - me_qty n) = uint q" by (simp add: uint_minus_simple_alt word_le_def)
    then have f: "fits z (?r (me_qty n) (q - me_qty n))" using "2.prems"(5-7) by (simp add: fits_def)
    show ?thesis
    proof (cases "q - me_qty n = 0")
      case True
      then have "leaves = 0" "rs' = []" using m r(1) by (cases xs; simp)+
      then show ?thesis using f r mine True by (simp add: moved_by_def)
    next
      case False
      let ?z = "moved_by z (?r (me_qty n) (q - me_qty n))"
      have z: "?z = z\<lparr>om_qty := q - me_qty n, order_state := LIVE\<rparr>" using False "2.prems"(5) by (simp add: moved_by_def)
      have "replay ?z (about cid t (ag_side g) rs') =
          Some (?z\<lparr>om_qty := leaves, order_state := if leaves = 0 \<and> q - me_qty n \<noteq> 0 then DEAD else LIVE\<rparr>)"
        by (rule "2.IH" [OF full m [folded r(1)]]) (use "2.prems"(2-4,7) z in simp_all)
      then show ?thesis using f r mine False z by simp
    qed
  qed
qed

lemma match_others:
  assumes "a_match g q xs = (ns, leaves, rs, us)" and "\<forall>x\<in>set xs. me_side x \<noteq> ag_side g" and "ag_client g \<noteq> cid"
  shows "about cid t (ag_side g) rs = []"
  using assms
proof (induction g q xs arbitrary: ns leaves rs us rule: a_match.induct)
  case (2 g q n xs)
  obtain ns' q' rs' us' where m: "a_match g (q - me_qty n) xs = (ns', q', rs', us')" by (metis prod.collapse)
  show ?case using 2 m by (auto simp: fill_responses_def concerns_def split: if_splits)
qed simp

section \<open>One request in a book\<close>

lemma side_of:
  assumes "abook_inv b" and "d \<in> {BUY, SELL}"
  shows "\<forall>x\<in>set (ab_side b d). me_side x = d"
  using assms by (auto simp: abook_inv_def side_inv_def resting_def ab_side_def)

lemma opp_sides: "s \<in> {BUY, SELL} \<Longrightarrow> opp s \<in> {BUY, SELL} \<and> opp s \<noteq> s"
  using opp_neq by (auto simp: opp_def)

text \<open>The requests of the client that fit the order \<open>y\<close> of the manager at the ticker and side of the book.\<close>

definition expects :: "ClientId \<Rightarrow> Side \<Rightarrow> OMOrder \<Rightarrow> MEClientRequest \<Rightarrow> bool" where
  "expects cid d y r \<longleftrightarrow> rq_client_id r = cid \<longrightarrow>
     (rq_type r = Request_NEW \<and> rq_side r = d \<longrightarrow> order_state y = PENDING_NEW \<and> om_order_id y = rq_order_id r \<and>
        om_price y = rq_price r \<and> om_qty y = rq_qty r) \<and>
     (rq_type r = Request_CANCEL \<and> om_order_id y = rq_order_id r \<and> is_open y \<longrightarrow> order_state y = PENDING_CANCEL)"

text \<open>The order \<open>y'\<close> that it becomes.\<close>

definition becomes :: "ClientId \<Rightarrow> Side \<Rightarrow> MEClientRequest \<Rightarrow> OMOrder \<Rightarrow> OMOrder \<Rightarrow> bool" where
  "becomes cid d r y y' \<longleftrightarrow>
     (if rq_client_id r = cid \<and> rq_type r = Request_NEW \<and> rq_side r = d then order_state y' \<in> {LIVE, DEAD}
      else y' = y \<or> om_view y \<noteq> [] \<and> order_state y' \<in> {order_state y, DEAD}) \<and>
     (rq_client_id r = cid \<and> rq_type r = Request_CANCEL \<and> rq_order_id r = om_order_id y \<longrightarrow> om_view y' = [])"

lemma new_effect:
  assumes inv: "abook_inv b" and s: "rq_side r \<in> {BUY, SELL}" and ty: "rq_type r = Request_NEW" and out: "a_request b r = (b', rs, us)"
    and d: "d \<in> {BUY, SELL}" and view: "own_view cid (ab_side b d) = om_view y" and fit: "expects cid d y r"
  shows "\<exists>y'. replay y (about cid (unat (rq_ticker_id r)) d rs) = Some y' \<and> own_view cid (ab_side b' d) = om_view y' \<and> becomes cid d r y y'"
proof -
  let ?s = "rq_side r" and ?t = "unat (rq_ticker_id r)"
  define g where "g = \<lparr>ag_ticker = rq_ticker_id r, ag_client = rq_client_id r, ag_order = rq_order_id r,
    ag_market = ucast (ucast (ab_next_id b) :: Qty), ag_side = ?s, ag_price = rq_price r\<rparr>"
  obtain ns leaves rs' us' where a: "a_match g (rq_qty r) (ab_side b (opp ?s)) = (ns, leaves, rs', us')" by (metis prod.collapse)
  define b1 where "b1 = (ab_set_side b (opp ?s) ns)\<lparr>ab_next_id := ab_next_id b + 1\<rparr>"
  define n where "n = \<lparr>me_ticker_id = rq_ticker_id r, me_client_id = rq_client_id r, me_client_order_id = rq_order_id r,
    me_market_order_id = ab_next_id b, me_side = ?s, me_price = rq_price r, me_qty = leaves,
    me_priority = a_priority (rq_price r) (ab_side b ?s), me_prev_order = None, me_next_order = None\<rparr>"
  define accepted where "accepted = \<lparr>cr_type = ACCEPTED, cr_client_id = rq_client_id r, cr_ticker_id = rq_ticker_id r,
    cr_client_order_id = rq_order_id r, cr_market_order_id = ab_next_id b, cr_side = ?s, cr_price = rq_price r,
    cr_exec_qty = 0, cr_leaves_qty = rq_qty r\<rparr>"
  note b1 = ab_after_match [OF s b1_def] and o = opp_sides [OF s]
  have b': "b' = (if leaves = 0 then b1 else ab_set_side b1 ?s (a_insert ?s n (ab_side b ?s)))" "rs = accepted # rs'"
    using out ty a by (auto simp: a_request_def a_add_def Let_def g_def b1_def n_def accepted_def split: if_splits)
  have sides: "ab_side b' (opp ?s) = ns" "ab_side b' ?s = (if leaves = 0 then ab_side b ?s else a_insert ?s n (ab_side b ?s))"
    using b'(1) b1 s o by auto
  have opps: "\<forall>x\<in>set (ab_side b (opp ?s)). me_side x = opp ?s" using side_of [OF inv] o by blast
  then have not_s: "\<forall>x\<in>set (ab_side b (opp ?s)). me_side x \<noteq> ag_side g" using o by (simp add: g_def)
  have g: "ag_side g = ?s" "ag_client g = rq_client_id r" "unat (ag_ticker g) = ?t" "ag_order g = rq_order_id r" by (simp_all add: g_def)
  show ?thesis
  proof (cases "d = ?s")
    case False
    then have op: "d = opp ?s" using d s by (auto simp: opp_def)
    from match_passive [OF a _ opps, of cid y ?t] view op g o obtain y' where
      "replay y (about cid ?t d rs') = Some y'" "own_view cid ns = om_view y'"
      "y' = y \<or> om_view y \<noteq> [] \<and> order_state y' \<in> {order_state y, DEAD}" by auto
    then show ?thesis using b'(2) sides(1) op o ty by (auto simp: accepted_def concerns_def becomes_def)
  next
    case own: True
    show ?thesis
    proof (cases "rq_client_id r = cid")
      case False
      then have "about cid ?t d rs = []" using match_others [OF a not_s] own g b'(2) by (simp add: accepted_def)
      moreover have "own_view cid (ab_side b' d) = own_view cid (ab_side b d)"
        using False own sides(2) own_view_insert [of n cid "ab_side b ?s" ?s] by (simp add: n_def)
      ultimately show ?thesis using view False by (simp add: becomes_def)
    next
      case True
      then have y: "order_state y = PENDING_NEW" "om_order_id y = rq_order_id r" "om_price y = rq_price r" "om_qty y = rq_qty r"
        using fit ty own by (simp_all add: expects_def)
      then have empty: "own_view cid (ab_side b d) = []" using view by (simp add: om_view_def)
      let ?z = "y\<lparr>order_state := LIVE\<rparr>"
      let ?y = "?z\<lparr>om_qty := leaves, order_state := if leaves = 0 \<and> rq_qty r \<noteq> 0 then DEAD else LIVE\<rparr>"
      have "replay ?z (about cid ?t (ag_side g) rs') = Some ?y"
        by (rule match_active [OF a not_s]) (use True g y in simp_all)
      then have "replay y (about cid ?t d rs) = Some ?y"
        using True own y g b'(2) by (simp add: accepted_def concerns_def fits_def moved_by_def)
      moreover have "own_view cid (ab_side b' d) = om_view ?y"
        using True own sides(2) own_view_insert [of n cid "ab_side b ?s" ?s] empty y by (simp add: n_def om_view_def)
      ultimately show ?thesis using True own ty by (simp add: becomes_def)
    qed
  qed
qed

lemma own_view_filter:
  assumes "\<forall>x\<in>set xs. me_client_id x = cid \<longrightarrow> P x"
  shows "own_view cid (filter P xs) = own_view cid xs"
  using assms by (induction xs) auto

lemma own_view_member: "x \<in> set xs \<Longrightarrow> me_client_id x = cid \<Longrightarrow> (me_client_order_id x, me_price x, me_qty x) \<in> set (own_view cid xs)"
  by (auto simp: own_view_def)

lemma own_view_drop:
  assumes "own_view cid xs = [(k, p, q)]"
  shows "own_view cid (filter (\<lambda>x. \<not> is_order cid k x) xs) = []"
proof -
  have "me_client_order_id x = k" if "x \<in> set xs" "me_client_id x = cid" for x
    using own_view_member [OF that] assms by simp
  then show ?thesis by (auto simp: own_view_def is_order_def filter_empty_conv)
qed

text \<open>Orders on different sides of a book differ, and on one side they are told apart by their keys.\<close>

lemma same_key_same:
  assumes "abook_inv b" and "x \<in> set (ab_orders b)" and "y \<in> set (ab_orders b)" and "order_key x = order_key y"
  shows "x = y"
  using assms by (auto simp: abook_inv_def ids_ok_def distinct_map inj_on_def)

lemma cancel_sides:
  "d \<in> {BUY, SELL} \<Longrightarrow> List.find (is_order c k) (ab_orders b) = Some n \<Longrightarrow>
     ab_side (fst (a_cancel b c k tid)) d = filter (\<lambda>x. \<not> is_order c k x) (ab_side b d)"
  by (auto simp: a_cancel_def ab_side_def)

lemma side_member:
  assumes "abook_inv b" and "d \<in> {BUY, SELL}"
  shows "x \<in> set (ab_side b d) \<longleftrightarrow> x \<in> set (ab_orders b) \<and> me_side x = d"
proof -
  have "\<forall>x\<in>set (ab_bids b). me_side x = BUY" "\<forall>x\<in>set (ab_asks b). me_side x = SELL"
    using side_of [OF assms(1), of BUY] side_of [OF assms(1), of SELL] by (simp_all add: ab_side_def)
  then show ?thesis using assms(2) by (auto simp: ab_side_def ab_orders_def)
qed

lemma view_member:
  assumes "own_view cid xs = om_view y" and "om_view y \<noteq> []"
  shows "\<exists>x\<in>set xs. is_order cid (om_order_id y) x"
proof -
  have "(om_order_id y, om_price y, om_qty y) \<in> set (own_view cid xs)"
    using assms(2) unfolding assms(1) by (auto simp: om_view_def split: if_splits)
  then show ?thesis by (auto simp: own_view_def is_order_def)
qed

lemma same_order_same:
  assumes "abook_inv b" and "x \<in> set (ab_orders b)" and "y \<in> set (ab_orders b)" and "is_order c k x" and "is_order c k y"
  shows "x = y"
  using same_key_same [OF assms(1-3)] assms(4,5) by (simp add: is_order_key)

lemma cancel_effect:
  assumes inv: "abook_inv b" and ty: "rq_type r = Request_CANCEL" and out: "a_request b r = (b', rs, us)"
    and d: "d \<in> {BUY, SELL}" and view: "own_view cid (ab_side b d) = om_view y" and fit: "expects cid d y r"
  shows "\<exists>y'. replay y (about cid (unat (rq_ticker_id r)) d rs) = Some y' \<and> own_view cid (ab_side b' d) = om_view y' \<and> becomes cid d r y y'"
proof -
  let ?c = "rq_client_id r" and ?k = "rq_order_id r" and ?t = "unat (rq_ticker_id r)"
  have c: "a_cancel b ?c ?k (rq_ticker_id r) = (b', rs, us)" using out ty by (simp add: a_request_def)
  note in_d = side_member [OF inv d] and mine = view_member [OF view]
  show ?thesis
  proof (cases "List.find (is_order ?c ?k) (ab_orders b)")
    case None
    then have "b' = b" "about cid ?t d rs = []" using c by (auto simp: a_cancel_def concerns_def)
    moreover have "om_view y = []" if "?c = cid" "?k = om_order_id y"
    proof (rule ccontr)
      assume "om_view y \<noteq> []"
      then obtain x where x: "x \<in> set (ab_side b d)" "is_order cid (om_order_id y) x" using mine by blast
      then have "x \<in> set (ab_orders b)" using in_d by blast
      then show False using None x(2) that unfolding find_None_iff by metis
    qed
    ultimately show ?thesis using view ty by (auto simp: becomes_def)
  next
    case (Some n)
    then have n: "n \<in> set (ab_orders b)" "is_order ?c ?k n" by (auto simp: find_Some_iff)
    have b': "ab_side b' d = filter (\<lambda>x. \<not> is_order ?c ?k x) (ab_side b d)" using cancel_sides [OF d Some] c by (metis fst_conv)
    have rs: "rs = [\<lparr>cr_type = CANCELED, cr_client_id = ?c, cr_ticker_id = rq_ticker_id r, cr_client_order_id = ?k,
      cr_market_order_id = me_market_order_id n, cr_side = me_side n, cr_price = me_price n,
      cr_exec_qty = Qty_INVALID, cr_leaves_qty = me_qty n\<rparr>]" using c Some by (simp add: a_cancel_def)
    show ?thesis
    proof (cases "?c = cid \<and> me_side n = d")
      case False
      then have "about cid ?t d rs = []" using rs by (auto simp: concerns_def)
      moreover have "me_client_id x = cid \<longrightarrow> \<not> is_order ?c ?k x" if "x \<in> set (ab_side b d)" for x
      proof (intro impI notI)
        assume x: "me_client_id x = cid" "is_order ?c ?k x"
        have "x \<in> set (ab_orders b)" "me_side x = d" using that in_d by blast+
        then have "n = x" using same_order_same [OF inv n(1) _ n(2) x(2)] by blast
        then show False using False x \<open>me_side x = d\<close> by (simp add: is_order_def)
      qed
      then have "own_view cid (ab_side b' d) = own_view cid (ab_side b d)" unfolding b' by (intro own_view_filter) blast
      moreover have "om_view y = []" if "?c = cid" "?k = om_order_id y"
      proof (rule ccontr)
        assume "om_view y \<noteq> []"
        then obtain x where "x \<in> set (ab_side b d)" "is_order cid (om_order_id y) x" using mine by blast
        then have x: "is_order ?c ?k x" "x \<in> set (ab_orders b)" "me_side x = d" using that in_d by simp_all
        then show False using False that(1) same_order_same [OF inv n(1) x(2) n(2) x(1)] x(3) by blast
      qed
      ultimately show ?thesis using view ty by (auto simp: becomes_def)
    next
      case True
      have "n \<in> set (ab_side b d)" "me_client_id n = cid" using True n in_d by (simp_all add: is_order_def)
      from own_view_member [OF this] have "(me_client_order_id n, me_price n, me_qty n) \<in> set (om_view y)" unfolding view .
      then have y: "om_view y = [(?k, me_price n, me_qty n)]" "om_order_id y = ?k" "order_state y \<in> {LIVE, PENDING_CANCEL}"
        using n(2) by (auto simp: om_view_def is_order_def split: if_splits)
      then have pend: "order_state y = PENDING_CANCEL" using fit True ty by (auto simp: expects_def is_open_def)
      let ?y = "y\<lparr>order_state := DEAD\<rparr>"
      have "replay y (about cid ?t d rs) = Some ?y"
        using True rs pend y(2) by (simp add: concerns_def fits_def moved_by_def)
      moreover have "own_view cid (ab_side b' d) = om_view ?y"
        using own_view_drop [of cid "ab_side b d"] view y(1) True by (simp add: b' om_view_def)
      ultimately show ?thesis using ty y by (simp add: becomes_def om_view_def)
    qed
  qed
qed

lemma request_effect:
  assumes "abook_inv b" and "request_ok b r" and "a_request b r = (b', rs, us)"
    and "d \<in> {BUY, SELL}" and "own_view cid (ab_side b d) = om_view y" and "expects cid d y r"
  shows "\<exists>y'. replay y (about cid (unat (rq_ticker_id r)) d rs) = Some y' \<and> own_view cid (ab_side b' d) = om_view y' \<and> becomes cid d r y y'"
proof (cases "rq_type r")
  case Request_NEW
  then have "rq_side r \<in> {BUY, SELL}" using assms(2) by (simp add: request_ok_def add_ok_def)
  from new_effect [OF assms(1) this Request_NEW assms(3-6)] show ?thesis .
next
  case Request_CANCEL
  from cancel_effect [OF assms(1) this assms(3-6)] show ?thesis .
qed (use assms(2) in \<open>simp add: request_ok_def\<close>)

end
