(* ===== verification/Closed_Market.thy ===== *)
theory Closed_Market
  imports Honest_Exchange
begin

text \<open>
  A client and the exchange as one system, closed except for what the strategy wants, what other
  clients request and which prices the client sees. Requests are on their way in any order (two
  sockets and the sequencer's sort may reorder them), responses in the order they were sent. In every
  reachable state the responses are honest, so that the client is a \<open>trader\<close> of Order\_Manager and
  its position limit holds without an assumption on the exchange.
\<close>

section \<open>The system\<close>

record 'f market =
  mk_trader :: "'f trader"
  mk_books :: aengine
  mk_requests :: "MEClientRequest list"
  mk_responses :: "MEClientResponse list"

definition market_init :: "'f PositionKeeper \<Rightarrow> 'f market" where
  "market_init pk = \<lparr>mk_trader = trader_init pk, mk_books = (\<lambda>_. empty_abook), mk_requests = [], mk_responses = []\<rparr>"

text \<open>The client after a move of its orders, whose requests are the new ones in its log.\<close>

definition after_moves :: "'f market \<Rightarrow> OrderManager \<Rightarrow> MEClientRequest list \<Rightarrow> 'f market" where
  "after_moves m om sent = m\<lparr>mk_trader := (mk_trader m)\<lparr>tr_om := om, tr_sent := sent\<rparr>,
     mk_requests := mk_requests m @ drop (length (tr_sent (mk_trader m))) sent\<rparr>"

definition after_response :: "'f market \<Rightarrow> OrderManager \<Rightarrow> 'f PositionKeeper \<Rightarrow> 'f market" where
  "after_response m om pk = m\<lparr>mk_trader := (mk_trader m)\<lparr>tr_om := om, tr_pk := pk,
     tr_rcvd := tr_rcvd (mk_trader m) @ [hd (mk_responses m)]\<rparr>, mk_responses := tl (mk_responses m)\<rparr>"

text \<open>The exchange takes a request, of the client or of another one.\<close>

definition after_request :: "ClientId \<Rightarrow> 'f market \<Rightarrow> MEClientRequest \<Rightarrow> 'f market" where
  "after_request cid m r = m\<lparr>mk_books := fst (ae_request (mk_books m) r), mk_requests := remove1 r (mk_requests m),
     mk_responses := mk_responses m @ responses_for cid (fst (snd (ae_request (mk_books m) r)))\<rparr>"

inductive market_step ::
    "'f double_ops \<Rightarrow> 'f RiskManager \<Rightarrow> ClientId \<Rightarrow> 'f market \<Rightarrow> 'f market \<Rightarrow> bool" for F rm cid where
  moves: "moveOrders F (tr_pk (mk_trader m)) rm (log_link cid) ticker_id bid ask qty (tr_om (mk_trader m), tr_sent (mk_trader m)) =
      Inr (om, sent) \<Longrightarrow> market_step F rm cid m (after_moves m om sent)"
| request: "r \<in> set (mk_requests m) \<or> rq_client_id r \<noteq> cid \<Longrightarrow> ae_ok (mk_books m) r \<Longrightarrow>
    market_step F rm cid m (after_request cid m r)"
| response: "mk_responses m \<noteq> [] \<Longrightarrow>
    take_response F (tr_om (mk_trader m)) (tr_pk (mk_trader m)) (hd (mk_responses m)) = Inr (om, pk) \<Longrightarrow>
    market_step F rm cid m (after_response m om pk)"
| prices: "updateBBO F (tr_pk (mk_trader m)) ticker_id bbo = Inr pk \<Longrightarrow>
    market_step F rm cid m (m\<lparr>mk_trader := (mk_trader m)\<lparr>tr_pk := pk\<rparr>\<rparr>)"

inductive market_reachable ::
    "'f double_ops \<Rightarrow> 'f RiskManager \<Rightarrow> ClientId \<Rightarrow> 'f PositionKeeper \<Rightarrow> 'f market \<Rightarrow> bool" for F rm cid pk where
  start: "market_reachable F rm cid pk (market_init pk)"
| step: "market_reachable F rm cid pk m \<Longrightarrow> market_step F rm cid m m' \<Longrightarrow> market_reachable F rm cid pk m'"

section \<open>The invariant\<close>

text \<open>
  The request that made the order, and the cancels of it that are on their way.
\<close>

definition new_of :: "ClientId \<Rightarrow> OMOrder \<Rightarrow> MEClientRequest" where
  "new_of cid x = \<lparr>rq_type = Request_NEW, rq_client_id = cid, rq_ticker_id = om_ticker_id x,
     rq_order_id = om_order_id x, rq_side = om_side x, rq_price = om_price x, rq_qty = om_qty x\<rparr>"

definition is_cancel :: "nat \<Rightarrow> OrderId \<Rightarrow> MEClientRequest \<Rightarrow> bool" where
  "is_cancel t k r \<longleftrightarrow> rq_type r = Request_CANCEL \<and> unat (rq_ticker_id r) = t \<and> rq_order_id r = k"

text \<open>
  The order \<open>y\<close> that the manager will hold when the responses on their way have arrived: the books
  hold what they should of it, the request for it is on its way if and only if it is pending, and
  cancels on their way are of an order that is being cancelled or has ended.
\<close>

definition settled :: "ClientId \<Rightarrow> MEClientRequest list \<Rightarrow> MEOrder list \<Rightarrow> nat \<Rightarrow> Side \<Rightarrow> OMOrder \<Rightarrow> bool" where
  "settled cid reqs xs t d y \<longleftrightarrow> own_view cid xs = om_view y \<and>
     filter (is_new t d) reqs = (if order_state y = PENDING_NEW then [new_of cid y] else []) \<and>
     (order_state y = PENDING_CANCEL \<and> om_qty y \<noteq> 0 \<longrightarrow> (\<exists>r\<in>set reqs. is_cancel t (om_order_id y) r)) \<and>
     (is_open y \<longrightarrow> (\<forall>r\<in>set reqs. is_cancel t (om_order_id y) r \<longrightarrow> order_state y = PENDING_CANCEL))"

definition slot_ok ::
    "ClientId \<Rightarrow> MEClientRequest list \<Rightarrow> MEClientResponse list \<Rightarrow> MEOrder list \<Rightarrow> nat \<Rightarrow> Side \<Rightarrow> OMOrder \<Rightarrow> bool" where
  "slot_ok cid reqs resps xs t d x \<longleftrightarrow>
     (\<exists>y. replay x (filter (concerns t d) resps) = Some y \<and> settled cid reqs xs t d y)"

definition slots_ok :: "ClientId \<Rightarrow> MEClientRequest list \<Rightarrow> MEClientResponse list \<Rightarrow> aengine \<Rightarrow> OrderManager \<Rightarrow> bool" where
  "slots_ok cid reqs resps e om \<longleftrightarrow>
     (\<forall>t<ME_MAX_TICKERS. \<forall>d\<in>{BUY, SELL}. slot_ok cid reqs resps (ab_side (e t) d) t d (slot om t d))"

text \<open>Every number in use was given out.\<close>

definition numbers_ok :: "ClientId \<Rightarrow> MEClientRequest list \<Rightarrow> OrderManager \<Rightarrow> bool" where
  "numbers_ok cid reqs om \<longleftrightarrow>
     (\<forall>r\<in>set reqs. rq_client_id r = cid \<and> unat (rq_order_id r) < unat (next_order_id om)) \<and>
     (\<forall>t d. is_open (slot om t d) \<longrightarrow> unat (om_ticker_id (slot om t d)) = t \<and> om_side (slot om t d) = d \<and>
        unat (om_order_id (slot om t d)) < unat (next_order_id om)) \<and>
     (\<forall>t d d'. d \<noteq> d' \<longrightarrow> is_open (slot om t d) \<longrightarrow> is_open (slot om t d') \<longrightarrow>
        om_order_id (slot om t d) \<noteq> om_order_id (slot om t d'))"

definition response_ok :: "ClientId \<Rightarrow> MEClientResponse \<Rightarrow> bool" where
  "response_ok cid r \<longleftrightarrow> cr_client_id r = cid \<and> unat (cr_ticker_id r) < ME_MAX_TICKERS \<and>
     (cr_type r \<in> {ACCEPTED, CANCELED, FILLED} \<longrightarrow> cr_side r \<in> {BUY, SELL})"

definition market_inv :: "ClientId \<Rightarrow> 'f market \<Rightarrow> bool" where
  "market_inv cid m \<longleftrightarrow>
     (\<forall>t<ME_MAX_TICKERS. abook_inv (mk_books m t)) \<and>
     numbers_ok cid (mk_requests m) (tr_om (mk_trader m)) \<and>
     (\<forall>r\<in>set (mk_responses m). response_ok cid r) \<and>
     slots_ok cid (mk_requests m) (mk_responses m) (mk_books m) (tr_om (mk_trader m))"

section \<open>The exchange's step\<close>

lemma settled_open: "replay x rs = Some y \<Longrightarrow> is_open y \<Longrightarrow> is_open x \<and> om_order_id x = om_order_id y"
  using replay_closed replay_same by (fastforce simp: same_order_def)

lemma settledD:
  assumes "settled cid reqs xs t d y"
  shows "own_view cid xs = om_view y"
    and "filter (is_new t d) reqs = (if order_state y = PENDING_NEW then [new_of cid y] else [])"
    and "order_state y = PENDING_CANCEL \<Longrightarrow> om_qty y \<noteq> 0 \<Longrightarrow> \<exists>r\<in>set reqs. is_cancel t (om_order_id y) r"
    and "is_open y \<Longrightarrow> r \<in> set reqs \<Longrightarrow> is_cancel t (om_order_id y) r \<Longrightarrow> order_state y = PENDING_CANCEL"
  using assms unfolding settled_def by blast+

lemma pending_filter:
  assumes "\<forall>x\<in>set xs. rq_client_id x = cid" and "\<not> (rq_client_id r = cid \<and> P r)"
  shows "filter P (remove1 r xs) = filter P xs"
proof -
  have "r \<notin> set (filter P xs)" using assms by auto
  then show ?thesis by (simp add: filter_remove1 remove1_idem)
qed

lemma settled_expects:
  assumes "settled cid reqs xs t d y" and "rq_client_id r = cid \<longrightarrow> r \<in> set reqs" and "unat (rq_ticker_id r) = t"
  shows "expects cid d y r"
proof -
  have new: "order_state y = PENDING_NEW \<and> r = new_of cid y" if "is_new t d r" "r \<in> set reqs"
  proof -
    have "r \<in> set (filter (is_new t d) reqs)" using that by simp
    moreover have "filter (is_new t d) reqs = (if order_state y = PENDING_NEW then [new_of cid y] else [])"
      by (rule settledD(2) [OF assms(1)])
    ultimately show ?thesis by (cases "order_state y = PENDING_NEW") simp_all
  qed
  have cancel: "order_state y = PENDING_CANCEL" if "is_cancel t (om_order_id y) r" "r \<in> set reqs" "is_open y"
    using settledD(4) [OF assms(1)] that by blast
  have "order_state y = PENDING_NEW \<and> om_order_id y = rq_order_id r \<and> om_price y = rq_price r \<and> om_qty y = rq_qty r"
    if "rq_client_id r = cid" "rq_type r = Request_NEW" "rq_side r = d"
    using new assms(2,3) that by (simp add: is_new_def new_of_def)
  moreover have "order_state y = PENDING_CANCEL"
    if "rq_client_id r = cid" "rq_type r = Request_CANCEL" "om_order_id y = rq_order_id r" "is_open y"
    using cancel assms(2,3) that by (simp add: is_cancel_def)
  ultimately show ?thesis by (simp add: expects_def)
qed

lemma settled_request:
  assumes s: "settled cid reqs xs t d y" and own: "\<forall>x\<in>set reqs. rq_client_id x = cid" and t: "unat (rq_ticker_id r) = t"
    and fit: "expects cid d y r" and ch: "becomes cid d r y y'" and same: "same_order y y'" and view: "own_view cid xs' = om_view y'"
    and sent: "rq_client_id r = cid \<longrightarrow> r \<in> set reqs"
  shows "settled cid (remove1 r reqs) xs' t d y'"
proof -
  note s1 = settledD(2) [OF s] and s2 = settledD(3) [OF s] and s4 = settledD(4) [OF s]
  have id: "om_order_id y' = om_order_id y" "om_ticker_id y' = om_ticker_id y" "om_side y' = om_side y" using same by (simp_all add: same_order_def)
  have news: "filter (is_new t d) (remove1 r reqs) = (if order_state y' = PENDING_NEW then [new_of cid y'] else [])"
  proof (cases "rq_client_id r = cid \<and> is_new t d r")
    case True
    then have "order_state y = PENDING_NEW" "order_state y' \<in> {LIVE, DEAD}"
      using fit ch t by (auto simp: expects_def becomes_def is_new_def)
    moreover have "r \<in> set (filter (is_new t d) reqs)" using True sent by simp
    ultimately show ?thesis using s1 by (auto simp: filter_remove1)
  next
    case False
    then have "filter (is_new t d) (remove1 r reqs) = filter (is_new t d) reqs" using pending_filter [OF own] by blast
    moreover have "y' = y \<or> om_view y \<noteq> [] \<and> order_state y' \<in> {order_state y, DEAD}"
      using ch False t by (auto simp: becomes_def is_new_def split: if_splits)
    ultimately show ?thesis using s1 by (auto simp: om_view_def split: if_splits)
  qed
  have was: "order_state y = PENDING_CANCEL \<and> om_qty y \<noteq> 0" if "order_state y' = PENDING_CANCEL" "om_qty y' \<noteq> 0"
    using ch that by (auto simp: becomes_def om_view_def split: if_splits)
  have cancel: "\<exists>r'\<in>set (remove1 r reqs). is_cancel t (om_order_id y') r'" if "order_state y' = PENDING_CANCEL" "om_qty y' \<noteq> 0"
  proof -
    from s2 was [OF that] obtain r' where r': "r' \<in> set reqs" "is_cancel t (om_order_id y) r'" by blast
    have "om_view y' \<noteq> []" using that by (simp add: om_view_def)
    then have "\<not> (rq_client_id r = cid \<and> rq_type r = Request_CANCEL \<and> rq_order_id r = om_order_id y)"
      using ch by (auto simp: becomes_def)
    then have "r' \<noteq> r" using r' own by (auto simp: is_cancel_def)
    then show ?thesis using r' id by auto
  qed
  have y: "is_open y" "order_state y = PENDING_CANCEL \<Longrightarrow> order_state y' = PENDING_CANCEL" if "is_open y'"
    using ch fit that by (auto simp: becomes_def expects_def is_open_def om_view_def split: if_splits)
  have kept: "order_state y' = PENDING_CANCEL" if "is_open y'" "r' \<in> set (remove1 r reqs)" "is_cancel t (om_order_id y') r'" for r'
    using s4 [OF y(1) [OF that(1)], of r'] y(2) [OF that(1)] that(2,3) id notin_set_remove1 by metis
  show ?thesis unfolding settled_def using view news cancel kept by auto
qed

text \<open>At another ticker a request leaves everything as it is.\<close>

lemma settled_elsewhere:
  assumes s: "settled cid reqs xs t d y" and t: "unat (rq_ticker_id r) \<noteq> t"
  shows "settled cid (remove1 r reqs) xs t d y"
proof -
  have "r \<notin> set (filter (is_new t d) reqs)" using t by (simp add: is_new_def)
  then have "filter (is_new t d) (remove1 r reqs) = filter (is_new t d) reqs" by (simp add: filter_remove1 remove1_idem)
  moreover have "r' \<in> set (remove1 r reqs) \<longleftrightarrow> r' \<in> set reqs" if "is_cancel t k r'" for r' k
    using that t by (cases "r' = r") (simp_all add: is_cancel_def)
  ultimately show ?thesis using s unfolding settled_def by metis
qed

text \<open>The responses of a request are about its ticker.\<close>

lemma match_same_ticker: "a_match g q xs = (ns, leaves, rs, us) \<Longrightarrow> \<forall>r\<in>set rs. cr_ticker_id r = ag_ticker g \<and>
    (cr_side r = ag_side g \<or> (\<exists>x\<in>set xs. cr_side r = me_side x))"
proof (induction g q xs arbitrary: ns leaves rs us rule: a_match.induct)
  case (2 g q n xs)
  obtain ns' q' rs' us' where m: "a_match g (q - me_qty n) xs = (ns', q', rs', us')" by (metis prod.collapse)
  show ?case using 2 m by (force simp: fill_responses_def split: if_splits)
qed auto

lemma request_tickers:
  assumes "abook_inv b" and "request_ok b r" and "a_request b r = (b', rs, us)"
  shows "\<forall>m\<in>set rs. cr_ticker_id m = rq_ticker_id r \<and> (cr_type m \<in> {ACCEPTED, CANCELED, FILLED} \<longrightarrow> cr_side m \<in> {BUY, SELL})"
proof (cases "rq_type r = Request_NEW")
  case True
  let ?s = "rq_side r"
  define g where "g = \<lparr>ag_ticker = rq_ticker_id r, ag_client = rq_client_id r, ag_order = rq_order_id r,
    ag_market = ucast (ucast (ab_next_id b) :: Qty), ag_side = ?s, ag_price = rq_price r\<rparr>"
  obtain ns leaves rs' us' where a: "a_match g (rq_qty r) (ab_side b (opp ?s)) = (ns, leaves, rs', us')" by (metis prod.collapse)
  have s: "?s \<in> {BUY, SELL}" using assms(2) True by (simp add: request_ok_def add_ok_def)
  have "\<forall>x\<in>set (ab_side b (opp ?s)). me_side x = opp ?s" using side_of [OF assms(1)] opp_sides [OF s] by blast
  with match_same_ticker [OF a] opp_sides [OF s] s have "\<forall>m\<in>set rs'. cr_ticker_id m = rq_ticker_id r \<and> cr_side m \<in> {BUY, SELL}"
    by (auto simp: g_def)
  moreover have "set rs \<subseteq> insert \<lparr>cr_type = ACCEPTED, cr_client_id = rq_client_id r, cr_ticker_id = rq_ticker_id r,
      cr_client_order_id = rq_order_id r, cr_market_order_id = ab_next_id b, cr_side = ?s, cr_price = rq_price r,
      cr_exec_qty = 0, cr_leaves_qty = rq_qty r\<rparr> (set rs')"
    using assms(3) True a by (auto simp: a_request_def a_add_def Let_def g_def split: if_splits)
  ultimately show ?thesis using s by auto
next
  case False
  have "me_side n \<in> {BUY, SELL}" if "List.find P (ab_orders b) = Some n" for P n
  proof -
    have "n \<in> set (ab_orders b)" using that by (auto simp: find_Some_iff)
    then show ?thesis using side_of [OF assms(1), of BUY] side_of [OF assms(1), of SELL] by (auto simp: ab_orders_def ab_side_def)
  qed
  then have "me_side n \<in> {BUY, SELL}" if "List.find (is_order (rq_client_id r) (rq_order_id r)) (ab_orders b) = Some n" for n
    using that by blast
  with False assms(3) show ?thesis by (fastforce simp: a_request_def a_cancel_def split: option.splits)
qed

lemma responses_for_mem: "m \<in> set (responses_for c rs) \<longleftrightarrow> m \<in> set rs \<and> cr_client_id m = c"
  by (auto simp: responses_for_def)

lemma request_inv:
  assumes m: "market_inv cid m" and r: "r \<in> set (mk_requests m) \<or> rq_client_id r \<noteq> cid" and ok: "ae_ok (mk_books m) r"
  shows "market_inv cid (after_request cid m r)"
proof -
  let ?e = "mk_books m" and ?t = "unat (rq_ticker_id r)" and ?reqs = "mk_requests m" and ?om = "tr_om (mk_trader m)"
  obtain b' rs us where out: "a_request (?e ?t) r = (b', rs, us)" by (metis prod.collapse)
  then have e': "ae_request ?e r = (?e(?t := b'), rs, us)" by (simp add: ae_request_def Let_def)
  have t: "?t < ME_MAX_TICKERS" and req: "request_ok (?e ?t) r" using ok by (simp_all add: ae_ok_def)
  have inv: "abook_inv (?e ?t)" using m t by (simp add: market_inv_def)
  have nums: "numbers_ok cid ?reqs ?om" and slots: "slots_ok cid ?reqs (mk_responses m) ?e ?om" using m by (simp_all add: market_inv_def)
  have own: "\<forall>x\<in>set ?reqs. rq_client_id x = cid" using nums by (simp add: numbers_ok_def)
  have "abook_inv b'" using a_request_inv [OF inv req] out by simp
  then have books: "\<forall>u<ME_MAX_TICKERS. abook_inv ((?e(?t := b')) u)" using m by (simp add: market_inv_def)
  have "numbers_ok cid (remove1 r ?reqs) ?om" using nums notin_set_remove1 unfolding numbers_ok_def by metis
  moreover have tick: "\<forall>x\<in>set rs. cr_ticker_id x = rq_ticker_id r \<and> (cr_type x \<in> {ACCEPTED, CANCELED, FILLED} \<longrightarrow> cr_side x \<in> {BUY, SELL})"
    by (rule request_tickers [OF inv req out])
  then have "\<forall>x\<in>set (mk_responses m @ responses_for cid rs). response_ok cid x"
    using m t by (auto simp: market_inv_def response_ok_def responses_for_mem)
  moreover have "slots_ok cid (remove1 r ?reqs) (mk_responses m @ responses_for cid rs) (?e(?t := b')) ?om"
    unfolding slots_ok_def
  proof (intro allI impI ballI)
    fix u d assume u: "u < ME_MAX_TICKERS" and d: "d \<in> {BUY, SELL}"
    obtain y where y: "replay (slot ?om u d) (filter (concerns u d) (mk_responses m)) = Some y" "settled cid ?reqs (ab_side (?e u) d) u d y"
      using slots u d unfolding slots_ok_def slot_ok_def by blast
    show "slot_ok cid (remove1 r ?reqs) (mk_responses m @ responses_for cid rs) (ab_side ((?e(?t := b')) u) d) u d (slot ?om u d)"
    proof (cases "u = ?t")
      case False
      then have "about cid u d rs = []" using tick by (auto simp: filter_empty_conv concerns_def responses_for_mem)
      then show ?thesis using y False settled_elsewhere [OF y(2), of r] by (auto simp: slot_ok_def)
    next
      case True
      have fit: "expects cid d y r" by (rule settled_expects [OF y(2)]) (use r own True in auto)
      have "own_view cid (ab_side (?e ?t) d) = om_view y" using settledD(1) [OF y(2)] True by simp
      from request_effect [OF inv req out d this fit] obtain y' where
        y': "replay y (about cid ?t d rs) = Some y'" "own_view cid (ab_side b' d) = om_view y'" "becomes cid d r y y'" by blast
      have "replay (slot ?om u d) (filter (concerns u d) (mk_responses m @ responses_for cid rs)) = Some y'"
        using replay_append [OF y(1)] y'(1) True by simp
      moreover have "settled cid (remove1 r ?reqs) (ab_side b' d) u d y'"
        by (rule settled_request [OF y(2) own _ fit y'(3) replay_same [OF y'(1)] y'(2)]) (use True r in auto)
      ultimately show ?thesis using True by (auto simp: slot_ok_def)
    qed
  qed
  ultimately show ?thesis using books e' by (simp add: market_inv_def after_request_def)
qed

section \<open>The responses arrive\<close>

text \<open>The first response on its way is honest, and it names the order that the manager holds.\<close>

lemma first_response:
  assumes m: "market_inv cid m" and r: "mk_responses m = r # rs"
  shows "honest (tr_om (mk_trader m)) r"
    and "cr_type r \<in> {ACCEPTED, CANCELED, FILLED} \<Longrightarrow> fits (slot (tr_om (mk_trader m)) (unat (cr_ticker_id r)) (cr_side r)) r"
proof -
  let ?t = "unat (cr_ticker_id r)" and ?d = "cr_side r" and ?om = "tr_om (mk_trader m)"
  have ok: "response_ok cid r" using m r by (simp add: market_inv_def)
  show f: "fits (slot ?om ?t ?d) r" if "cr_type r \<in> {ACCEPTED, CANCELED, FILLED}"
  proof -
    have "concerns ?t ?d r" using that by (simp add: concerns_def)
    moreover have "?t < ME_MAX_TICKERS" "?d \<in> {BUY, SELL}" using ok that by (auto simp: response_ok_def)
    then have "slot_ok cid (mk_requests m) (mk_responses m) (ab_side (mk_books m ?t) ?d) ?t ?d (slot ?om ?t ?d)"
      using m unfolding market_inv_def slots_ok_def by blast
    ultimately show ?thesis using r by (auto simp: slot_ok_def split: if_splits)
  qed
  show "honest ?om r"
    using f ok by (auto simp: honest_def response_ok_def fits_def Let_def split: ClientResponseType.splits)
qed

lemma slot_moved:
  assumes "onOrderUpdate om r = Inr om'"
  shows "slot om' t d = (if concerns t d r then moved_by (slot om t d) r else slot om t d)"
  by (auto simp: onOrderUpdate_slot [OF assms] concerns_def moved_by_def Let_def split: ClientResponseType.splits)

lemma response_inv:
  assumes m: "market_inv cid m" and r: "mk_responses m \<noteq> []"
    and t: "take_response F (tr_om (mk_trader m)) (tr_pk (mk_trader m)) (hd (mk_responses m)) = Inr (om, pk)"
  shows "market_inv cid (after_response m om pk)"
proof -
  obtain x rs where x: "mk_responses m = x # rs" using r by (cases "mk_responses m") auto
  let ?om = "tr_om (mk_trader m)"
  have om: "onOrderUpdate ?om x = Inr om" using t x by (auto simp: take_response_def result_simps)
  have fit: "fits (slot ?om u d) x" if "concerns u d x" for u d
    using first_response(2) [OF m x] that by (auto simp: concerns_def)
  have moved: "is_open (slot om u d) \<Longrightarrow> is_open (slot ?om u d)" and id: "om_order_id (slot om u d) = om_order_id (slot ?om u d)"
    "om_ticker_id (slot om u d) = om_ticker_id (slot ?om u d)" "om_side (slot om u d) = om_side (slot ?om u d)" for u d
    using slot_moved [OF om, of u d] fits_open [OF fit [of u d]] moved_same [of "slot ?om u d" x]
    by (cases "concerns u d x"; simp add: same_order_def)+
  have "slots_ok cid (mk_requests m) rs (mk_books m) om"
    unfolding slots_ok_def
  proof (intro allI impI ballI)
    fix u d assume "u < ME_MAX_TICKERS" "d \<in> {BUY, SELL}"
    then have "slot_ok cid (mk_requests m) (x # rs) (ab_side (mk_books m u) d) u d (slot ?om u d)"
      using m x unfolding market_inv_def slots_ok_def by auto
    then show "slot_ok cid (mk_requests m) rs (ab_side (mk_books m u) d) u d (slot om u d)"
      using slot_moved [OF om, of u d] by (auto simp: slot_ok_def split: if_splits)
  qed
  moreover have "numbers_ok cid (mk_requests m) om"
    using m moved id onOrderUpdate_next [OF om] unfolding market_inv_def numbers_ok_def by metis
  ultimately show ?thesis using m x by (simp add: market_inv_def after_response_def)
qed

section \<open>The client moves its orders\<close>

lemma slots_okD:
  assumes "slots_ok cid reqs resps e om" and "t < ME_MAX_TICKERS" and "d \<in> {BUY, SELL}"
  obtains y where "replay (slot om t d) (filter (concerns t d) resps) = Some y" "settled cid reqs (ab_side (e t) d) t d y"
  using assms unfolding slots_ok_def slot_ok_def by blast

text \<open>A slot that is not touched, with one more request on its way.\<close>

lemma settled_more:
  assumes "settled cid reqs xs t d y" and "\<not> is_new t d r" and "is_open y \<Longrightarrow> \<not> is_cancel t (om_order_id y) r"
  shows "settled cid (reqs @ [r]) xs t d y"
  using assms(1,2) assms(3) unfolding settled_def by auto

lemma cancel_inv:
  assumes m: "market_inv cid m" and t: "unat ticker_id < ME_MAX_TICKERS" and side: "side \<in> {BUY, SELL}"
    and live: "order_state (slot (tr_om (mk_trader m)) (unat ticker_id) side) = LIVE"
    and c: "(om, sent) = cancelOrder (log_link cid) ticker_id side (slot (tr_om (mk_trader m)) (unat ticker_id) side)
      (tr_om (mk_trader m), tr_sent (mk_trader m))"
  shows "market_inv cid (after_moves m om sent)"
proof -
  let ?om = "tr_om (mk_trader m)" and ?t = "unat ticker_id" and ?reqs = "mk_requests m"
  define x where "x = slot ?om ?t side"
  have om: "om = set_slot ?om ticker_id side (x\<lparr>order_state := PENDING_CANCEL\<rparr>)" and sent: "sent = tr_sent (mk_trader m) @ [cancel_of cid x]"
    using c by (simp_all add: cancelOrder_log x_def)
  have slots: "slot om u d = (if u = ?t \<and> d = side then x\<lparr>order_state := PENDING_CANCEL\<rparr> else slot ?om u d)" for u d by (simp add: om)
  have nxt: "next_order_id om = next_order_id ?om" by (simp add: om)
  have nums: "numbers_ok cid ?reqs ?om" and ok: "slots_ok cid ?reqs (mk_responses m) (mk_books m) ?om" using m by (simp_all add: market_inv_def)
  have open_x: "is_open x" using live by (simp add: x_def is_open_def)
  then have at_x: "unat (om_ticker_id x) = ?t" "unat (om_order_id x) < unat (next_order_id ?om)"
    using nums unfolding numbers_ok_def x_def by blast+
  have cx: "is_cancel u k (cancel_of cid x) \<longleftrightarrow> u = ?t \<and> k = om_order_id x" for u k
    using at_x(1) by (auto simp: is_cancel_def cancel_of_def)
  have not_new: "\<not> is_new u d (cancel_of cid x)" for u d by (simp add: is_new_def cancel_of_def)
  have opened: "is_open (slot om u d) \<longleftrightarrow> is_open (slot ?om u d)" "om_order_id (slot om u d) = om_order_id (slot ?om u d)"
    "om_ticker_id (slot om u d) = om_ticker_id (slot ?om u d)" "om_side (slot om u d) = om_side (slot ?om u d)" for u d
    using open_x by (auto simp: slots x_def is_open_def)
  have "numbers_ok cid (?reqs @ [cancel_of cid x]) om"
    using nums at_x(2) unfolding numbers_ok_def opened nxt by (simp add: cancel_of_def)
  moreover have "slots_ok cid (?reqs @ [cancel_of cid x]) (mk_responses m) (mk_books m) om"
    unfolding slots_ok_def
  proof (intro allI impI ballI)
    fix u d assume u: "u < ME_MAX_TICKERS" "d \<in> {BUY, SELL}"
    obtain y where y: "replay (slot ?om u d) (filter (concerns u d) (mk_responses m)) = Some y" "settled cid ?reqs (ab_side (mk_books m u) d) u d y"
      using slots_okD [OF ok u] .
    show "slot_ok cid (?reqs @ [cancel_of cid x]) (mk_responses m) (ab_side (mk_books m u) d) u d (slot om u d)"
    proof (cases "u = ?t \<and> d = side")
      case False
      have "\<not> is_cancel u (om_order_id y) (cancel_of cid x)" if "is_open y"
      proof
        assume "is_cancel u (om_order_id y) (cancel_of cid x)"
        then have "u = ?t" "om_order_id y = om_order_id x" using cx by simp_all
        moreover have "is_open (slot ?om u d) \<and> om_order_id (slot ?om u d) = om_order_id y" by (rule settled_open [OF y(1) that])
        ultimately show False using nums open_x False unfolding numbers_ok_def x_def by metis
      qed
      then have "settled cid (?reqs @ [cancel_of cid x]) (ab_side (mk_books m u) d) u d y"
        by (intro settled_more [OF y(2)]) (simp add: is_new_def cancel_of_def)
      then show ?thesis using y(1) False by (auto simp: slot_ok_def slots)
    next
      case True
      then have xy: "replay x (filter (concerns u d) (mk_responses m)) = Some y" using y(1) by (simp add: x_def)
      obtain y' where y': "replay (x\<lparr>order_state := PENDING_CANCEL\<rparr>) (filter (concerns u d) (mk_responses m)) = Some y'"
        "y' = y \<and> order_state y = DEAD \<or> y' = y\<lparr>order_state := PENDING_CANCEL\<rparr> \<and> order_state y = LIVE"
        using replay_cancel [OF xy] live by (auto simp: x_def)
      have id: "om_order_id y' = om_order_id x" using replay_same [OF xy] y'(2) by (auto simp: same_order_def)
      have "om_view y' = om_view y" "order_state y' \<noteq> PENDING_NEW" "order_state y \<noteq> PENDING_NEW"
        "is_open y' \<Longrightarrow> order_state y' = PENDING_CANCEL" using y'(2) by (auto simp: om_view_def is_open_def)
      then have "settled cid (?reqs @ [cancel_of cid x]) (ab_side (mk_books m u) d) u d y'"
        using settledD(1,2) [OF y(2)] True not_new unfolding settled_def by (simp add: cx id)
      then show ?thesis using y'(1) True by (auto simp: slot_ok_def slots)
    qed
  qed
  ultimately show ?thesis using m by (simp add: market_inv_def after_moves_def sent)
qed

lemma new_inv:
  assumes m: "market_inv cid m" and side: "side \<in> {BUY, SELL}" and t: "unat ticker_id < ME_MAX_TICKERS"
    and free: "\<not> is_open (slot (tr_om (mk_trader m)) (unat ticker_id) side)"
    and wrap: "unat (next_order_id (tr_om (mk_trader m)) + 1) = Suc (unat (next_order_id (tr_om (mk_trader m))))"
    and n: "(om, sent) = newOrder (log_link cid) ticker_id price side qty (tr_om (mk_trader m), tr_sent (mk_trader m))"
  shows "market_inv cid (after_moves m om sent)"
proof -
  let ?om = "tr_om (mk_trader m)" and ?t = "unat ticker_id" and ?reqs = "mk_requests m" and ?n = "next_order_id (tr_om (mk_trader m))"
  define x where "x = \<lparr>om_ticker_id = ticker_id, om_order_id = ?n, om_side = side, om_price = price, om_qty = qty, order_state = PENDING_NEW\<rparr>"
  have slots: "slot om u d = (if u = ?t \<and> d = side then x else slot ?om u d)" for u d using n by (simp add: newOrder_log x_def)
  have sent: "sent = tr_sent (mk_trader m) @ [new_of cid x]" using n by (simp add: newOrder_log x_def new_of_def)
  have nxt: "next_order_id om = ?n + 1" using n by (simp add: newOrder_log)
  have nums: "numbers_ok cid ?reqs ?om" and ok: "slots_ok cid ?reqs (mk_responses m) (mk_books m) ?om" using m by (simp_all add: market_inv_def)
  have old: "unat (rq_order_id r) < unat ?n" if "r \<in> set ?reqs" for r using nums that by (simp add: numbers_ok_def)
  have old_open: "unat (om_ticker_id (slot ?om u d)) = u \<and> om_side (slot ?om u d) = d \<and> unat (om_order_id (slot ?om u d)) < unat ?n"
    if "is_open (slot ?om u d)" for u d using nums that unfolding numbers_ok_def by blast
  have nx: "is_new u d (new_of cid x) \<longleftrightarrow> u = ?t \<and> d = side" "\<not> is_cancel u k (new_of cid x)" for u d k
    by (auto simp: is_new_def is_cancel_def new_of_def x_def)
  have "numbers_ok cid (?reqs @ [new_of cid x]) om"
  proof -
    have "\<forall>r\<in>set (?reqs @ [new_of cid x]). rq_client_id r = cid \<and> unat (rq_order_id r) < unat (next_order_id om)"
      using nums old wrap by (auto simp: numbers_ok_def new_of_def x_def nxt less_Suc_eq)
    moreover have "is_open (slot om u d) \<Longrightarrow> unat (om_ticker_id (slot om u d)) = u \<and> om_side (slot om u d) = d \<and>
        unat (om_order_id (slot om u d)) < unat (next_order_id om)" for u d
      using old_open [of u d] wrap by (auto simp: slots nxt x_def less_Suc_eq)
    moreover have "om_order_id (slot om u d) \<noteq> om_order_id (slot om u d')"
      if "d \<noteq> d'" "is_open (slot om u d)" "is_open (slot om u d')" for u d d'
    proof (cases "u = ?t \<and> (d = side \<or> d' = side)")
      case True
      then show ?thesis using that old_open [of u d] old_open [of u d'] by (auto simp: slots x_def)
    next
      case False
      then have "slot om u d = slot ?om u d" "slot om u d' = slot ?om u d'" by (auto simp: slots)
      then show ?thesis using that nums unfolding numbers_ok_def by metis
    qed
    ultimately show ?thesis unfolding numbers_ok_def by blast
  qed
  moreover have "slots_ok cid (?reqs @ [new_of cid x]) (mk_responses m) (mk_books m) om"
    unfolding slots_ok_def
  proof (intro allI impI ballI)
    fix u d assume u: "u < ME_MAX_TICKERS" "d \<in> {BUY, SELL}"
    obtain y where y: "replay (slot ?om u d) (filter (concerns u d) (mk_responses m)) = Some y" "settled cid ?reqs (ab_side (mk_books m u) d) u d y"
      using slots_okD [OF ok u] .
    show "slot_ok cid (?reqs @ [new_of cid x]) (mk_responses m) (ab_side (mk_books m u) d) u d (slot om u d)"
    proof (cases "u = ?t \<and> d = side")
      case False
      then have "settled cid (?reqs @ [new_of cid x]) (ab_side (mk_books m u) d) u d y"
        by (intro settled_more [OF y(2)]) (use nx in auto)
      then show ?thesis using y(1) False by (auto simp: slot_ok_def slots)
    next
      case True
      then have none: "filter (concerns u d) (mk_responses m) = []" "y = slot ?om ?t side" using replay_closed [OF y(1)] free by auto
      then have "om_view y = []" "order_state y \<noteq> PENDING_NEW" using free by (auto simp: om_view_def is_open_def)
      then have "own_view cid (ab_side (mk_books m u) d) = []" "filter (is_new u d) ?reqs = []" using settledD(1,2) [OF y(2)] by simp_all
      moreover have "\<not> is_cancel u ?n r" if "r \<in> set ?reqs" for r using old [OF that] by (auto simp: is_cancel_def)
      moreover have "om_view x = []" by (simp add: om_view_def x_def)
      ultimately have "settled cid (?reqs @ [new_of cid x]) (ab_side (mk_books m u) d) u d x"
        using True nx unfolding settled_def by (auto simp: x_def)
      then show ?thesis using none(1) True by (auto simp: slot_ok_def slots)
    qed
  qed
  ultimately show ?thesis using m by (simp add: market_inv_def after_moves_def sent)
qed

lemma moveOrder_log:
  assumes "moveOrder F pk rm (log_link cid) x ticker_id price side qty (om, l) = Inr (om', l')"
  shows "\<exists>k. l' = l @ k"
  using assms
proof (cases rule: moveOrder_cases)
  case cancelled
  then show ?thesis by (auto simp: cancelOrder_log)
next
  case sent
  then show ?thesis by (auto simp: newOrder_log)
qed simp

text \<open>The number of the next order, as long as fewer than \<open>2 ^ 64\<close> requests have been sent.\<close>

lemma next_number:
  assumes "log_inv cid s" and "length (tr_sent s) + 2 < 2 ^ 64"
  shows "unat (next_order_id (tr_om s) + 1) = Suc (unat (next_order_id (tr_om s)))"
proof -
  let ?k = "Suc (length (news (tr_sent s)))"
  have "length (news (tr_sent s)) \<le> length (tr_sent s)" by (simp add: news_def)
  then have k: "?k < 2 ^ 64" "Suc ?k < 2 ^ 64" using assms(2) by linarith+
  have "next_order_id (tr_om s) = of_nat ?k" using assms(1) by (simp add: log_inv_def ids_inv_def)
  moreover have "unat (of_nat j :: OrderId) = j" if "j < 2 ^ 64" for j
    by (rule of_nat_inverse [OF refl]) (use that in simp)
  then have "unat (of_nat ?k :: OrderId) = ?k" "unat (of_nat (Suc ?k) :: OrderId) = Suc ?k" using k by blast+
  moreover have "(of_nat ?k :: OrderId) + 1 = of_nat (Suc ?k)" by simp
  ultimately show ?thesis by metis
qed

lemma move_one_inv:
  assumes m: "market_inv cid m" and l: "log_inv cid (mk_trader m)" and t: "unat ticker_id < ME_MAX_TICKERS" and side: "side \<in> {BUY, SELL}"
    and move: "moveOrder F pk rm (log_link cid) (slot (tr_om (mk_trader m)) (unat ticker_id) side) ticker_id price side qty
      (tr_om (mk_trader m), tr_sent (mk_trader m)) = Inr (om, sent)"
    and few: "length sent + 1 < 2 ^ 64"
  shows "market_inv cid (after_moves m om sent)"
  using move
proof (cases rule: moveOrder_cases)
  case same
  then have "after_moves m om sent = m" by (simp add: after_moves_def)
  then show ?thesis using m by simp
next
  case cancelled
  from cancel_inv [OF m t side this] show ?thesis .
next
  case sent
  have "length sent = Suc (length (tr_sent (mk_trader m)))" using sent(4) by (simp add: newOrder_log)
  then have "unat (next_order_id (tr_om (mk_trader m)) + 1) = Suc (unat (next_order_id (tr_om (mk_trader m))))"
    using next_number [OF l] few by simp
  from new_inv [OF m side t sent(1) this sent(4)] show ?thesis .
qed

lemma moves_inv:
  assumes m: "market_inv cid m" and l: "log_inv cid (mk_trader m)"
    and moves: "moveOrders F (tr_pk (mk_trader m)) rm (log_link cid) ticker_id bid ask qty (tr_om (mk_trader m), tr_sent (mk_trader m)) = Inr (om, sent)"
    and few: "length sent + 1 < 2 ^ 64"
  shows "market_inv cid (after_moves m om sent)"
proof -
  let ?s = "mk_trader m"
  from moves obtain om1 sent1 where t: "unat ticker_id < ME_MAX_TICKERS"
    and one: "moveOrder F (tr_pk ?s) rm (log_link cid) (slot (tr_om ?s) (unat ticker_id) BUY) ticker_id bid BUY qty (tr_om ?s, tr_sent ?s) = Inr (om1, sent1)"
    and two: "moveOrder F (tr_pk ?s) rm (log_link cid) (slot om1 (unat ticker_id) SELL) ticker_id ask SELL qty (om1, sent1) = Inr (om, sent)"
    by (auto simp: moveOrders_def result_simps)
  obtain j k where s: "sent1 = tr_sent ?s @ j" "sent = sent1 @ k" using moveOrder_log [OF one] moveOrder_log [OF two] by blast
  have "market_inv cid (after_moves m om1 sent1)" by (rule move_one_inv [OF m l t _ one]) (use few s in simp_all)
  moreover have "log_inv cid (mk_trader (after_moves m om1 sent1))"
    using logs.move_one [OF l t _ one] by (simp add: after_moves_def)
  ultimately have "market_inv cid (after_moves (after_moves m om1 sent1) om sent)"
    by (rule move_one_inv [OF _ _ t _ _ few, where side = SELL]) (use two in \<open>simp_all add: after_moves_def\<close>)
  moreover have "after_moves (after_moves m om1 sent1) om sent = after_moves m om sent" using s by (simp add: after_moves_def)
  ultimately show ?thesis by simp
qed

section \<open>Reachable states\<close>

lemma market_start: "market_inv cid (market_init pk)"
proof -
  have "slot OrderManager_new t d = OMOrder_default" for t d by (simp add: slot_def OrderManager_new_def)
  then show ?thesis
    using empty_abook_inv
    by (simp add: market_inv_def market_init_def trader_init_def numbers_ok_def slots_ok_def slot_ok_def settled_def OMOrder_default_def
        is_open_def om_view_def empty_abook_def ab_side_def)
qed

lemma log_grows: "market_step F rm cid m m' \<Longrightarrow> length (tr_sent (mk_trader m)) \<le> length (tr_sent (mk_trader m'))"
proof (induction rule: market_step.induct)
  case (moves m ticker_id bid ask qty om sent)
  then obtain om1 sent1 where
    "moveOrder F (tr_pk (mk_trader m)) rm (log_link cid) (slot (tr_om (mk_trader m)) (unat ticker_id) BUY) ticker_id bid BUY qty
      (tr_om (mk_trader m), tr_sent (mk_trader m)) = Inr (om1, sent1)"
    "moveOrder F (tr_pk (mk_trader m)) rm (log_link cid) (slot om1 (unat ticker_id) SELL) ticker_id ask SELL qty (om1, sent1) = Inr (om, sent)"
    by (auto simp: moveOrders_def result_simps)
  from moveOrder_log [OF this(1)] moveOrder_log [OF this(2)] show ?case by (auto simp: after_moves_def)
qed (simp_all add: after_request_def after_response_def)

text \<open>The client, seen by itself, takes steps of \<open>trader\_step\<close> or none.\<close>

lemma market_trader_step:
  assumes "market_step F rm cid m m'" and "market_inv cid m"
  shows "mk_trader m' = mk_trader m \<or> trader_step F rm cid (mk_trader m) (mk_trader m')"
  using assms
proof (cases rule: market_step.cases)
  case (moves ticker_id bid ask qty om sent)
  then show ?thesis using trader_step.move [OF moves(2)] by (simp add: after_moves_def)
next
  case (request r)
  then show ?thesis by (simp add: after_request_def)
next
  case (response om pk)
  obtain x rs where x: "mk_responses m = x # rs" using response(2) by (cases "mk_responses m") auto
  have "honest (tr_om (mk_trader m)) x" by (rule first_response(1) [OF assms(2) x])
  then show ?thesis using trader_step.response [of "mk_trader m" x F om pk rm cid] response x by (simp add: after_response_def)
next
  case (prices ticker_id bbo pk)
  then show ?thesis using trader_step.prices [OF prices(2)] by simp
qed

lemma market_step_inv:
  assumes "market_step F rm cid m m'" and "market_inv cid m" and "log_inv cid (mk_trader m)"
    and "length (tr_sent (mk_trader m')) + 1 < 2 ^ 64"
  shows "market_inv cid m'"
  using assms(1)
proof (cases rule: market_step.cases)
  case (moves ticker_id bid ask qty om sent)
  have "length sent + 1 < 2 ^ 64" using assms(4) moves(1) by (simp add: after_moves_def)
  with moves_inv [OF assms(2,3) moves(2)] moves(1) show ?thesis by simp
next
  case (request r)
  then show ?thesis using request_inv [OF assms(2)] by simp
next
  case (response om pk)
  then show ?thesis using response_inv [OF assms(2)] by simp
next
  case (prices ticker_id bbo pk)
  then show ?thesis using assms(2) by (simp add: market_inv_def)
qed

lemma market_reachable_inv:
  assumes "market_reachable F rm cid pk m" and "length (tr_sent (mk_trader m)) + 1 < 2 ^ 64"
  shows "market_inv cid m \<and> trader_reachable F rm cid pk (mk_trader m)"
  using assms
proof (induction rule: market_reachable.induct)
  case start
  have "mk_trader (market_init pk) = trader_init pk" by (simp add: market_init_def)
  then show ?case using market_start trader_reachable.start by metis
next
  case (step m m')
  have "length (tr_sent (mk_trader m)) + 1 < 2 ^ 64" using log_grows [OF step.hyps(2)] step.prems by linarith
  then have i: "market_inv cid m" "trader_reachable F rm cid pk (mk_trader m)" using step.IH by blast+
  then have "log_inv cid (mk_trader m)" using logs.reachable_inv [OF _ log_inv_init] by blast
  then have "market_inv cid m'" using market_step_inv [OF step.hyps(2) i(1)] step.prems by blast
  moreover have "trader_reachable F rm cid pk (mk_trader m')"
    using market_trader_step [OF step.hyps(2) i(1)] trader_reachable.step [OF i(2)] i(2) by fastforce
  ultimately show ?case by blast
qed

section \<open>Properties\<close>

text \<open>One order on its way, taken by the exchange, and accepted.\<close>

definition demo_market :: "exact market" where
  "demo_market = after_request 1 (after_moves (market_init demo_keeper) (tr_om demo_sent) (tr_sent demo_sent)) (hd (tr_sent demo_sent))"

lemma demo_market_start:
  "market_reachable exact_ops (RiskManager_new (\<lambda>_. demo_cfg)) 1 demo_keeper
     (after_moves (market_init demo_keeper) (tr_om demo_sent) (tr_sent demo_sent))"
  using market_step.moves [of exact_ops "market_init demo_keeper" "RiskManager_new (\<lambda>_. demo_cfg)" 1] demo_sent_moves
  by (intro market_reachable.step [OF market_reachable.start]) (simp add: market_init_def trader_init_def)

lemma demo_market_eq:
  "mk_requests demo_market = []" "mk_responses demo_market = [\<lparr>cr_type = ACCEPTED, cr_client_id = 1, cr_ticker_id = 3,
     cr_client_order_id = 1, cr_market_order_id = 1, cr_side = BUY, cr_price = 100, cr_exec_qty = 0, cr_leaves_qty = 10\<rparr>]"
  "mk_trader demo_market = demo_sent" "length (tr_sent demo_sent) = 1"
  by (simp_all add: demo_market_def after_request_def after_moves_def market_init_def demo_sent_def newOrder_log trader_init_def
      OrderManager_new_def ae_request_def a_request_def a_add_def Let_def empty_abook_def ab_side_def)

lemma demo_market_reachable: "market_reachable exact_ops (RiskManager_new (\<lambda>_. demo_cfg)) 1 demo_keeper demo_market"
proof -
  let ?m = "after_moves (market_init demo_keeper) (tr_om demo_sent) (tr_sent demo_sent)"
  have "mk_requests ?m = tr_sent demo_sent" "mk_books ?m = (\<lambda>_. empty_abook)" "tr_sent demo_sent \<noteq> []"
    using demo_market_eq(4) by (auto simp: after_moves_def market_init_def trader_init_def)
  moreover have "ae_ok (\<lambda>_. empty_abook) (hd (tr_sent demo_sent))"
    using empty_add_ok [of BUY 1 1 100]
    by (simp add: demo_sent_def newOrder_log OrderManager_new_def ae_ok_def request_ok_def ME_MAX_TICKERS_def ME_MAX_NUM_CLIENTS_def
        ME_MAX_ORDER_IDS_def empty_abook_def)
  ultimately show ?thesis
    unfolding demo_market_def by (intro market_reachable.step [OF demo_market_start] market_step.request) simp_all
qed

text \<open>C7: The matching engine is an honest exchange. In every reachable state of a client and the exchange,
  with requests and responses on their way and other clients trading in between, the next response
  for the client is honest: it is addressed to the client, it accepts an order that is pending,
  cancels one that is being cancelled or fills one that is live by no more than its quantity, it
  names exactly the order that the manager holds for its ticker and side, and the manager and the
  position keeper have only been moved by such responses.\<close>

theorem exchange_is_honest:
  assumes "market_reachable F rm cid pk m" and "length (tr_sent (mk_trader m)) + 1 < 2 ^ 64"
  shows "trader_reachable F rm cid pk (mk_trader m) \<and>
    (\<forall>r rs. mk_responses m = r # rs \<longrightarrow> honest (tr_om (mk_trader m)) r \<and> cr_client_id r = cid \<and>
      (cr_type r \<in> {ACCEPTED, CANCELED, FILLED} \<longrightarrow>
        cr_client_order_id r = om_order_id (slot (tr_om (mk_trader m)) (unat (cr_ticker_id r)) (cr_side r))))"
proof -
  from market_reachable_inv [OF assms] have i: "market_inv cid m" "trader_reachable F rm cid pk (mk_trader m)" by blast+
  have "honest (tr_om (mk_trader m)) r \<and> cr_client_id r = cid \<and> (cr_type r \<in> {ACCEPTED, CANCELED, FILLED} \<longrightarrow>
      cr_client_order_id r = om_order_id (slot (tr_om (mk_trader m)) (unat (cr_ticker_id r)) (cr_side r)))"
    if r: "mk_responses m = r # rs" for r rs
  proof -
    have "cr_client_id r = cid" using i(1) r by (simp add: market_inv_def response_ok_def)
    with first_response [OF i(1) r] show ?thesis by (simp add: fits_def)
  qed
  with i(2) show ?thesis by blast
qed

theorem exchange_is_honest_witness:
  "mk_responses demo_market \<noteq> [] \<and> honest (tr_om demo_sent) (hd (mk_responses demo_market))"
proof -
  have "length (tr_sent (mk_trader demo_market)) + 1 < 2 ^ 64" by (simp add: demo_market_eq)
  from exchange_is_honest [OF demo_market_reachable this] show ?thesis by (simp add: demo_market_eq)
qed

text \<open>C8: The books and the order manager agree. On each side of each book at most one order of the client
  rests. When no request and no response is on its way, it is exactly the order that the manager
  holds there, with its number, its price and the quantity that is left, and there is none where
  the manager holds none; no order is then pending, and none is being cancelled unless it was sent
  with quantity 0.\<close>

theorem books_agree_when_quiet:
  assumes "market_reachable F rm cid pk m" and "length (tr_sent (mk_trader m)) + 1 < 2 ^ 64"
    and "t < ME_MAX_TICKERS" and "d \<in> {BUY, SELL}"
  shows "length (own_view cid (ab_side (mk_books m t) d)) \<le> 1 \<and>
    (mk_requests m = [] \<and> mk_responses m = [] \<longrightarrow>
      own_view cid (ab_side (mk_books m t) d) = om_view (slot (tr_om (mk_trader m)) t d) \<and>
      order_state (slot (tr_om (mk_trader m)) t d) \<noteq> PENDING_NEW \<and>
      (order_state (slot (tr_om (mk_trader m)) t d) = PENDING_CANCEL \<longrightarrow> om_qty (slot (tr_om (mk_trader m)) t d) = 0))"
proof -
  have "slots_ok cid (mk_requests m) (mk_responses m) (mk_books m) (tr_om (mk_trader m))"
    using market_reachable_inv [OF assms(1,2)] by (simp add: market_inv_def)
  from slots_okD [OF this assms(3,4)] obtain y where
    y: "replay (slot (tr_om (mk_trader m)) t d) (filter (concerns t d) (mk_responses m)) = Some y"
    "settled cid (mk_requests m) (ab_side (mk_books m t) d) t d y" .
  have "length (om_view y) \<le> 1" by (simp add: om_view_def)
  then have "length (own_view cid (ab_side (mk_books m t) d)) \<le> 1" using settledD(1) [OF y(2)] by simp
  moreover have "own_view cid (ab_side (mk_books m t) d) = om_view (slot (tr_om (mk_trader m)) t d) \<and>
      order_state (slot (tr_om (mk_trader m)) t d) \<noteq> PENDING_NEW \<and>
      (order_state (slot (tr_om (mk_trader m)) t d) = PENDING_CANCEL \<longrightarrow> om_qty (slot (tr_om (mk_trader m)) t d) = 0)"
    if "mk_requests m = []" "mk_responses m = []"
    using y that by (auto simp: settled_def split: if_splits)
  ultimately show ?thesis by blast
qed

definition demo_quiet :: "exact market" where
  "demo_quiet = (case take_response exact_ops (tr_om demo_sent) (tr_pk demo_sent) (hd (mk_responses demo_market)) of
     Inr (om, pk) \<Rightarrow> after_response demo_market om pk | Inl _ \<Rightarrow> demo_market)"

theorem books_agree_when_quiet_witness:
  "mk_requests demo_quiet = [] \<and> mk_responses demo_quiet = [] \<and> own_view 1 (ab_side (mk_books demo_quiet 3) BUY) = [(1, 100, 10)]"
proof -
  obtain om pk where t: "take_response exact_ops (tr_om demo_sent) (tr_pk demo_sent) (hd (mk_responses demo_market)) = Inr (om, pk)"
    "slot om 3 BUY = \<lparr>om_ticker_id = 3, om_order_id = 1, om_side = BUY, om_price = 100, om_qty = 10, order_state = LIVE\<rparr>"
    by (simp add: demo_market_eq demo_defs slot_def)
  then have q: "demo_quiet = after_response demo_market om pk" by (simp add: demo_quiet_def)
  have "market_step exact_ops (RiskManager_new (\<lambda>_. demo_cfg)) 1 demo_market demo_quiet"
    unfolding q by (rule market_step.response) (use t in \<open>simp_all add: demo_market_eq\<close>)
  then have r: "market_reachable exact_ops (RiskManager_new (\<lambda>_. demo_cfg)) 1 demo_keeper demo_quiet"
    by (rule market_reachable.step [OF demo_market_reachable])
  have e: "mk_requests demo_quiet = []" "mk_responses demo_quiet = []" "tr_om (mk_trader demo_quiet) = om"
    "length (tr_sent (mk_trader demo_quiet)) + 1 < 2 ^ 64"
    by (simp_all add: q after_response_def demo_market_eq)
  from books_agree_when_quiet [OF r e(4), of 3 BUY] e t(2) show ?thesis by (simp add: ME_MAX_TICKERS_def om_view_def)
qed

end
