(* ===== verification/Closed_Engine.thy ===== *)
theory Closed_Engine
  imports Closed_Market Trade_Engine
begin

text \<open>
  The running trade engine and the exchange, closed: the engine makes passes of its loop, the gateway
  hands it any number of the responses on their way and takes its requests, the exchange takes
  requests in any order, and other clients trade. Every pass is a sequence of steps of
  Closed\_Market, so the engine keeps its position limits without an assumption on the exchange.
\<close>

section \<open>Steps of the trader are steps of the market\<close>

text \<open>What a step adds to the logs of the trader.\<close>

lemma trader_step_logs:
  assumes "trader_step F rm cid s s'"
  shows "\<exists>j k. tr_sent s' = tr_sent s @ j \<and> tr_rcvd s' = tr_rcvd s @ k"
  using assms
proof (cases rule: trader_step.cases)
  case (move ticker_id bid ask qty om sent)
  from move(2) obtain om1 sent1 where
    "moveOrder F (tr_pk s) rm (log_link cid) (slot (tr_om s) (unat ticker_id) BUY) ticker_id bid BUY qty (tr_om s, tr_sent s) = Inr (om1, sent1)"
    "moveOrder F (tr_pk s) rm (log_link cid) (slot om1 (unat ticker_id) SELL) ticker_id ask SELL qty (om1, sent1) = Inr (om, sent)"
    by (auto simp: moveOrders_def result_simps)
  from moveOrder_log [OF this(1)] moveOrder_log [OF this(2)] show ?thesis using move(1) by auto
qed simp_all

lemma trader_steps_logs:
  assumes "(trader_step F rm cid)\<^sup>*\<^sup>* s s'"
  shows "\<exists>j k. tr_sent s' = tr_sent s @ j \<and> tr_rcvd s' = tr_rcvd s @ k"
  using assms
proof (induction rule: rtranclp_induct)
  case (step y z)
  then show ?case using trader_step_logs [OF step.hyps(2)] by auto
qed simp

text \<open>The market after its client went from \<open>s\<close> to \<open>s'\<close>, with the responses \<open>rest\<close> still on their way.\<close>

definition client_moved :: "'f market \<Rightarrow> 'f trader \<Rightarrow> MEClientResponse list \<Rightarrow> 'f market" where
  "client_moved m s' rest = m\<lparr>mk_trader := s', mk_requests := mk_requests m @ drop (length (tr_sent (mk_trader m))) (tr_sent s'),
     mk_responses := rest\<rparr>"

lemma step_lifts:
  assumes "trader_step F rm cid (mk_trader m) s'" and "tr_rcvd s' = tr_rcvd (mk_trader m) @ k" and "mk_responses m = k @ rest"
  shows "market_step F rm cid m (client_moved m s' rest)"
  using assms(1)
proof (cases rule: trader_step.cases)
  case (move ticker_id bid ask qty om sent)
  then have "client_moved m s' rest = after_moves m om sent" using assms(2,3) by (simp add: client_moved_def after_moves_def)
  then show ?thesis using market_step.moves [OF move(2)] by simp
next
  case (response r om pk)
  then have "mk_responses m = r # rest" using assms(2,3) by simp
  moreover from this have "client_moved m s' rest = after_response m om pk" using response(1) by (simp add: client_moved_def after_response_def)
  ultimately show ?thesis using market_step.response [of m F om pk rm cid] response(3) by simp
next
  case (prices ticker_id bbo pk)
  then have "client_moved m s' rest = m\<lparr>mk_trader := (mk_trader m)\<lparr>tr_pk := pk\<rparr>\<rparr>" using assms(2,3) by (simp add: client_moved_def)
  then show ?thesis using market_step.prices [OF prices(2)] by simp
qed

lemma steps_lift:
  assumes "(trader_step F rm cid)\<^sup>*\<^sup>* s s'" and "mk_trader m = s" and "tr_rcvd s' = tr_rcvd s @ rs" and "mk_responses m = rs @ rest"
  shows "(market_step F rm cid)\<^sup>*\<^sup>* m (client_moved m s' rest)"
  using assms
proof (induction arbitrary: m rs rule: converse_rtranclp_induct)
  case base
  then have "client_moved m s' rest = m" by (simp add: client_moved_def)
  then show ?case by simp
next
  case (step s s1)
  obtain j k where l: "tr_sent s1 = tr_sent s @ j" "tr_rcvd s1 = tr_rcvd s @ k" using trader_step_logs [OF step.hyps(1)] by blast
  obtain j' k' where l': "tr_sent s' = tr_sent s1 @ j'" "tr_rcvd s' = tr_rcvd s1 @ k'" using trader_steps_logs [OF step.hyps(2)] by blast
  have rs: "rs = k @ k'" using step.prems(2) l(2) l'(2) by simp
  let ?m1 = "client_moved m s1 (k' @ rest)"
  have "market_step F rm cid m ?m1" by (rule step_lifts) (use step.hyps(1) step.prems l rs in simp_all)
  moreover have "(market_step F rm cid)\<^sup>*\<^sup>* ?m1 (client_moved ?m1 s' rest)"
    by (rule step.IH [of _ k']) (simp_all add: client_moved_def l'(2))
  moreover have "client_moved ?m1 s' rest = client_moved m s' rest" using l(1) l'(1) step.prems(1) by (simp add: client_moved_def)
  ultimately show ?case by (simp add: converse_rtranclp_into_rtranclp)
qed

lemma market_steps:
  assumes "(market_step F rm cid)\<^sup>*\<^sup>* m m'" and "market_reachable F rm cid pk m"
  shows "market_reachable F rm cid pk m'"
  using assms by (induction rule: rtranclp_induct) (auto intro: market_reachable.step)

text \<open>A queue of responses that the exchange has sent is honest throughout.\<close>

lemma queue_honest:
  assumes "market_inv cid m" and "mk_responses m = rs @ rest"
  shows "all_honest F (tr_om (mk_trader m)) (tr_pk (mk_trader m)) rs"
  using assms
proof (induction rs arbitrary: m)
  case (Cons r rs)
  have h: "honest (tr_om (mk_trader m)) r" using first_response(1) [OF Cons.prems(1)] Cons.prems(2) by simp
  show ?case
  proof (cases "take_response F (tr_om (mk_trader m)) (tr_pk (mk_trader m)) r")
    case (Inr v)
    obtain om pk where v: "v = (om, pk)" by (cases v)
    have "market_inv cid (after_response m om pk)" using response_inv [OF Cons.prems(1), of F om pk] Cons.prems(2) Inr v by simp
    from Cons.IH [OF this] Cons.prems(2) h Inr v show ?thesis by (simp add: after_response_def)
  qed (use h in simp)
qed simp

section \<open>The engine and the exchange\<close>

text \<open>
  \<open>ce\_sent\<close> counts the requests that the engine has sent since its start.
\<close>

record 'f closed_engine =
  ce_engine :: "'f TradeEngine"
  ce_books :: aengine
  ce_requests :: "MEClientRequest list"
  ce_responses :: "MEClientResponse list"
  ce_sent :: nat

text \<open>
  Before a pass the gateway has put the first \<open>n\<close> responses on their way into the engine's queue, the
  market data consumer has put any updates there, and the queue of requests has been emptied; it
  does not overflow in the pass. The requests in it are then on their way.
\<close>

definition pass_from :: "'f closed_engine \<Rightarrow> nat \<Rightarrow> ClientRequestLFQueue \<Rightarrow> ClientResponseLFQueue \<Rightarrow> MEMarketUpdateLFQueue \<Rightarrow> bool" where
  "pass_from c n q1 q2 q3 \<longleftrightarrow> q_inv q1 \<and> q_contents q1 = [] \<and> q_inv q2 \<and> q_contents q2 = take n (ce_responses c) \<and> q_inv q3"

definition after_pass :: "'f closed_engine \<Rightarrow> nat \<Rightarrow> 'f TradeEngine \<Rightarrow> 'f closed_engine" where
  "after_pass c n te = c\<lparr>ce_engine := te, ce_requests := ce_requests c @ q_contents (outgoing_ogw_requests te),
     ce_responses := drop n (ce_responses c), ce_sent := ce_sent c + q_length (outgoing_ogw_requests te)\<rparr>"

inductive closed_system ::
    "'f double_ops \<Rightarrow> ClientId \<Rightarrow> AlgoType \<Rightarrow> (nat \<Rightarrow> 'f TradeEngineCfg) \<Rightarrow> 'f closed_engine \<Rightarrow> bool"
  for F client_id algo_type ticker_cfg where
  start: "closed_system F client_id algo_type ticker_cfg
    \<lparr>ce_engine = initLastEventTime now (te_start (TradeEngine_new F oid_mem price_mem vwap_mem client_id algo_type ticker_cfg q1 q2 q3)),
     ce_books = (\<lambda>_. empty_abook), ce_requests = [], ce_responses = [], ce_sent = 0\<rparr>"
| request: "closed_system F client_id algo_type ticker_cfg c \<Longrightarrow>
    r \<in> set (ce_requests c) \<or> rq_client_id r \<noteq> client_id \<Longrightarrow> ae_ok (ce_books c) r \<Longrightarrow>
    closed_system F client_id algo_type ticker_cfg (c\<lparr>ce_books := fst (ae_request (ce_books c) r),
      ce_requests := remove1 r (ce_requests c),
      ce_responses := ce_responses c @ responses_for client_id (fst (snd (ae_request (ce_books c) r)))\<rparr>)"
| pass: "closed_system F client_id algo_type ticker_cfg c \<Longrightarrow> pass_from c n q1 q2 q3 \<Longrightarrow>
    te_run_step F now ((ce_engine c)\<lparr>outgoing_ogw_requests := q1, incoming_ogw_responses := q2, incoming_md_updates := q3\<rparr>) = Inr (te', now') \<Longrightarrow>
    q_length (outgoing_ogw_requests te') \<le> q_capacity q1 \<Longrightarrow>
    closed_system F client_id algo_type ticker_cfg (after_pass c n te')"

text \<open>The market that a state of the system is.\<close>

definition seen_as :: "'f closed_engine \<Rightarrow> 'f market \<Rightarrow> bool" where
  "seen_as c m \<longleftrightarrow> trades_as (ce_engine c) (mk_trader m) \<and> mk_books m = ce_books c \<and> mk_requests m = ce_requests c \<and>
     mk_responses m = ce_responses c \<and> length (tr_sent (mk_trader m)) = ce_sent c"

lemma q_length_pushes: "q_length (q_pushes q vs) = q_length q + length vs"
  by (induction vs arbitrary: q) (simp_all add: q_pushes_Cons)

lemma closed_market:
  assumes "closed_system F client_id algo_type ticker_cfg c" and "algo_type \<in> {MAKER, TAKER}" and "ce_sent c + 1 < 2 ^ 64"
  shows "te_client_id (ce_engine c) = client_id \<and> te_algo (ce_engine c) = algo_type \<and>
    risk_manager (ce_engine c) = RiskManager_new ticker_cfg \<and> te_ticker_cfg (ce_engine c) = ticker_cfg \<and>
    (\<exists>pk m. market_reachable F (RiskManager_new ticker_cfg) client_id pk m \<and> flat pk \<and> seen_as c m)"
  using assms(1,3)
proof induction
  case (start now oid_mem price_mem vwap_mem q1 q2 q3)
  let ?pk = "\<lambda>i. PositionInfo_default F (vwap_mem i)"
  have "flat ?pk" by (simp add: flat_def PositionInfo_default_def)
  with market_reachable.start [of F "RiskManager_new ticker_cfg" client_id ?pk] show ?case
    by (intro conjI exI [of _ ?pk] exI [of _ "market_init ?pk"])
       (simp_all add: initLastEventTime_def te_start_def TradeEngine_new_def trades_as_def trader_init_def market_init_def seen_as_def)
next
  case (request c r)
  then obtain pk m where m: "market_reachable F (RiskManager_new ticker_cfg) client_id pk m" "flat pk" "seen_as c m" by auto
  have "market_step F (RiskManager_new ticker_cfg) client_id m (after_request client_id m r)"
    by (rule market_step.request) (use request.hyps m(3) in \<open>simp_all add: seen_as_def\<close>)
  from market_reachable.step [OF m(1) this] m(2,3) request show ?case
    by (auto simp: seen_as_def after_request_def intro!: exI [of _ pk] exI [of _ "after_request client_id m r"])
next
  case (pass c n q1 q2 q3 now te' now')
  let ?te = "(ce_engine c)\<lparr>outgoing_ogw_requests := q1, incoming_ogw_responses := q2, incoming_md_updates := q3\<rparr>"
  have few: "ce_sent c + 1 < 2 ^ 64" using pass.prems by (simp add: after_pass_def)
  with pass.IH obtain pk m where m: "market_reachable F (RiskManager_new ticker_cfg) client_id pk m" "flat pk" "seen_as c m"
    and te: "te_client_id (ce_engine c) = client_id" "te_algo (ce_engine c) = algo_type"
      "risk_manager (ce_engine c) = RiskManager_new ticker_cfg" "te_ticker_cfg (ce_engine c) = ticker_cfg" by blast
  note q = pass.hyps(2) [unfolded pass_from_def] and v = m(3) [unfolded seen_as_def trades_as_def]
  have inv: "market_inv client_id m" using market_reachable_inv [OF m(1)] few v by simp
  have "all_honest F (order_manager ?te) (position_keeper ?te) (q_contents (incoming_ogw_responses ?te))"
    using queue_honest [OF inv, of "take n (ce_responses c)" "drop n (ce_responses c)" F] v q by simp
  from simulated_pass [OF pass.hyps(3) _ _ _ this] q te assms(2)
  have sim: "simulated F ?te (take n (ce_responses c)) te'" and fx: "fixed_parts ?te te'" by simp_all
  have "trades_as ?te (mk_trader m)" using v by (simp add: trades_as_def)
  with sim obtain tr' more where tr: "(trader_step F (RiskManager_new ticker_cfg) client_id)\<^sup>*\<^sup>* (mk_trader m) tr'" "trades_as te' tr'"
    "outgoing_ogw_requests te' = q_pushes q1 more" "tr_sent tr' = tr_sent (mk_trader m) @ more" "tr_rcvd tr' = tr_rcvd (mk_trader m) @ take n (ce_responses c)"
    using te unfolding simulated_def by auto
  let ?m = "client_moved m tr' (drop n (ce_responses c))"
  have "(market_step F (RiskManager_new ticker_cfg) client_id)\<^sup>*\<^sup>* m ?m"
    by (rule steps_lift [OF tr(1) refl tr(5)]) (use v in simp)
  from market_steps [OF this m(1)] have reach: "market_reachable F (RiskManager_new ticker_cfg) client_id pk ?m" .
  have none: "q_length q1 = 0" using q length_q_contents [of q1] by simp
  then have "length more \<le> q_capacity q1" using pass.hyps(4) tr(3) by (simp add: q_length_pushes)
  then have "q_contents (outgoing_ogw_requests te') = more" "q_length (outgoing_ogw_requests te') = length more"
    using q_pushes_contents [of q1 more] q tr(3) none by (simp_all add: q_length_pushes)
  then have "seen_as (after_pass c n te') ?m" using v tr(2,4) by (simp add: seen_as_def after_pass_def client_moved_def)
  then show ?case using reach m(2) te fx by (auto simp: fixed_parts_def after_pass_def)
qed

section \<open>Properties\<close>

text \<open>What rests at the exchange is no more than what the manager counts as open.\<close>

lemma replay_exposure: "replay x rs = Some y \<Longrightarrow> is_open y \<Longrightarrow> uint (om_qty y) \<le> exposure x"
proof (induction rs arbitrary: x)
  case Nil
  then show ?case by (simp add: exposure_def)
next
  case (Cons r rs)
  then have r: "fits x r" "replay (moved_by x r) rs = Some y" by (simp_all split: if_splits)
  have "uint (cr_exec_qty r) + uint (cr_leaves_qty r) = uint (om_qty x)" if "cr_type r = FILLED"
    using r(1) that by (simp add: fits_def)
  then have "uint (cr_leaves_qty r) \<le> uint (om_qty x)" if "cr_type r = FILLED"
    using that uint_ge_0 [of "cr_exec_qty r"] by linarith
  then have "exposure (moved_by x r) \<le> exposure x"
    using r(1) by (auto simp: fits_def moved_by_def exposure_def is_open_def split: ClientResponseType.splits)
  then show ?case using Cons.IH [OF r(2) Cons.prems(2)] by simp
qed

definition resting_qty :: "ClientId \<Rightarrow> MEOrder list \<Rightarrow> int" where
  "resting_qty cid xs = (\<Sum>(k, p, q)\<leftarrow>own_view cid xs. uint q)"

lemma slot_resting:
  assumes "slot_ok cid reqs resps xs t d x"
  shows "resting_qty cid xs \<le> exposure x"
proof -
  obtain y where y: "replay x (filter (concerns t d) resps) = Some y" "settled cid reqs xs t d y"
    using assms unfolding slot_ok_def by blast
  have "resting_qty cid xs = (if om_view y = [] then 0 else uint (om_qty y))"
    using settledD(1) [OF y(2)] by (auto simp: resting_qty_def om_view_def)
  moreover have "uint (om_qty y) \<le> exposure x" if "om_view y \<noteq> []"
    by (rule replay_exposure [OF y(1)]) (use that in \<open>auto simp: om_view_def is_open_def split: if_splits\<close>)
  ultimately show ?thesis by simp
qed

lemma closed_limits:
  assumes "closed_system F client_id algo_type ticker_cfg c" and "algo_type \<in> {MAKER, TAKER}" and "cfg_ok ticker_cfg"
    and "ce_sent c + 1 < 2 ^ 64" and "t < ME_MAX_TICKERS"
  shows "limits_at (limit_of ticker_cfg t) (sint (position (position_keeper (ce_engine c) t)))
      (slot (order_manager (ce_engine c)) t BUY) (slot (order_manager (ce_engine c)) t SELL)"
    and "\<forall>d\<in>{BUY, SELL}. resting_qty client_id (ab_side (ce_books c t) d) \<le> exposure (slot (order_manager (ce_engine c)) t d)"
proof -
  from closed_market [OF assms(1,2,4)] obtain pk m where
    m: "market_reachable F (RiskManager_new ticker_cfg) client_id pk m" "flat pk" "seen_as c m" by blast
  note v = m(3) [unfolded seen_as_def trades_as_def]
  from market_reachable_inv [OF m(1)] v assms(4) have
    i: "market_inv client_id m" "trader_reachable F (RiskManager_new ticker_cfg) client_id pk (mk_trader m)" by simp_all
  have "limits_inv ticker_cfg (trader_init pk)" by (rule limits_inv_init [OF assms(3)]) (use m(2) in \<open>simp add: flat_def\<close>)
  then have "limits_inv ticker_cfg (mk_trader m)" using limits.reachable_inv [OF i(2)] assms(3) by blast
  then show "limits_at (limit_of ticker_cfg t) (sint (position (position_keeper (ce_engine c) t)))
      (slot (order_manager (ce_engine c)) t BUY) (slot (order_manager (ce_engine c)) t SELL)"
    using v assms(5) by (simp add: limits_inv_def)
  have "slots_ok client_id (ce_requests c) (ce_responses c) (ce_books c) (order_manager (ce_engine c))"
    using i(1) v by (simp add: market_inv_def)
  then show "\<forall>d\<in>{BUY, SELL}. resting_qty client_id (ab_side (ce_books c t) d) \<le> exposure (slot (order_manager (ce_engine c)) t d)"
    using assms(5) slot_resting unfolding slots_ok_def by blast
qed

text \<open>C4: The running engine keeps its position limits at the modelled exchange. In every state that the
  engine, the exchange and other clients can reach, whatever market updates come in, whatever the
  others trade and however long requests and responses are on their way (fewer than \<open>2 ^ 64 - 1\<close>
  requests in all), the position of every ticker, together with what the engine's open orders may
  still add, is within the configured limit on either side; and what rests of the client in the
  books of the exchange is no more than that, so that the limit would hold even if all of it were
  filled.\<close>

theorem engine_within_limits:
  assumes "closed_system F client_id algo_type ticker_cfg c" and "algo_type \<in> {MAKER, TAKER}" and "cfg_ok ticker_cfg"
    and "ce_sent c + 1 < 2 ^ 64" and "t < ME_MAX_TICKERS"
  shows "sint (position (position_keeper (ce_engine c) t)) + exposure (slot (order_manager (ce_engine c)) t BUY)
      \<le> sint (max_position (risk_cfg (ticker_cfg t))) \<and>
    - sint (max_position (risk_cfg (ticker_cfg t)))
      \<le> sint (position (position_keeper (ce_engine c) t)) - exposure (slot (order_manager (ce_engine c)) t SELL) \<and>
    resting_qty client_id (ab_side (ce_books c t) BUY) \<le> exposure (slot (order_manager (ce_engine c)) t BUY) \<and>
    resting_qty client_id (ab_side (ce_books c t) SELL) \<le> exposure (slot (order_manager (ce_engine c)) t SELL)"
  using closed_limits [OF assms] by (simp add: limits_at_def)

text \<open>The market maker's first pass, in a market that others have made.\<close>

lemma demo_start:
  "closed_system exact_ops 1 MAKER (\<lambda>_. demo_cfg)
     \<lparr>ce_engine = demo_maker_engine, ce_books = (\<lambda>_. empty_abook), ce_requests = [], ce_responses = [], ce_sent = 0\<rparr>"
proof -
  have "demo_maker_engine = initLastEventTime 0 demo_maker_engine" by (simp add: initLastEventTime_def demo_engine_defs)
  then show ?thesis unfolding demo_maker_engine_def using closed_system.start by metis
qed

lemma demo_closed:
  obtains te' now' where "te_run_step exact_ops (\<lambda>_. 0) demo_maker_engine = Inr (te', now')"
    "closed_system exact_ops 1 MAKER (\<lambda>_. demo_cfg) \<lparr>ce_engine = te', ce_books = (\<lambda>_. empty_abook),
       ce_requests = q_contents (outgoing_ogw_requests te'), ce_responses = [], ce_sent = 2\<rparr>"
    "order_state (slot (order_manager te') 1 BUY) = PENDING_NEW" "om_qty (slot (order_manager te') 1 BUY) = 10"
proof -
  from demo_pass obtain te' now' where p: "te_run_step exact_ops (\<lambda>_. 0) demo_maker_engine = Inr (te', now')"
    and e: "order_state (slot (order_manager te') 1 BUY) = PENDING_NEW" "om_qty (slot (order_manager te') 1 BUY) = 10"
      "q_length (outgoing_ogw_requests te') = 2" by blast
  let ?c = "\<lparr>ce_engine = demo_maker_engine, ce_books = (\<lambda>_. empty_abook), ce_requests = [], ce_responses = [], ce_sent = 0\<rparr>"
  have start: "closed_system exact_ops 1 MAKER (\<lambda>_. demo_cfg) ?c" by (rule demo_start)
  have from_here: "pass_from ?c 0 (outgoing_ogw_requests demo_maker_engine) (incoming_ogw_responses demo_maker_engine) (incoming_md_updates demo_maker_engine)"
    using demo_maker_queues by (simp add: pass_from_def) (simp add: demo_engine_defs q_inv_new)
  have "closed_system exact_ops 1 MAKER (\<lambda>_. demo_cfg) (after_pass ?c 0 te')"
    by (rule closed_system.pass [OF start from_here, of "\<lambda>_. 0" te' now']) (use p e(3) in \<open>simp_all add: demo_engine_defs\<close>)
  then show ?thesis by (intro that [OF p _ e(1,2)]) (use e(3) in \<open>simp add: after_pass_def numeral_2_eq_2\<close>)
qed

theorem engine_within_limits_witness:
  "\<exists>c. closed_system exact_ops 1 MAKER (\<lambda>_. demo_cfg) c \<and> exposure (slot (order_manager (ce_engine c)) 1 BUY) = 10 \<and>
    sint (position (position_keeper (ce_engine c) 1)) + exposure (slot (order_manager (ce_engine c)) 1 BUY) \<le> 50"
proof -
  obtain te' now' where "closed_system exact_ops 1 MAKER (\<lambda>_. demo_cfg) \<lparr>ce_engine = te', ce_books = (\<lambda>_. empty_abook),
       ce_requests = q_contents (outgoing_ogw_requests te'), ce_responses = [], ce_sent = 2\<rparr>" (is "closed_system _ _ _ _ ?c")
    "order_state (slot (order_manager te') 1 BUY) = PENDING_NEW" "om_qty (slot (order_manager te') 1 BUY) = 10" using demo_closed by blast
  moreover have "sint (50 :: 32 word) = 50" by (simp add: sint_small)
  ultimately show ?thesis using engine_within_limits [of exact_ops 1 MAKER "\<lambda>_. demo_cfg" ?c 1]
    by (intro exI [of _ ?c]) (simp add: exposure_def is_open_def cfg_ok_def demo_cfg_def ME_MAX_TICKERS_def)
qed

end
