(* ===== verification/Closed_Progress.thy ===== *)
theory Closed_Progress
  imports Closed_Engine Ecosystem
begin

text \<open>
  A pass of the trade engine in the closed system returns. The responses are honest there, so that the
  position stays within its limit at every fill; a limit of at most 46340 keeps the products of two
  positions, which the position keeper computes with 32 bits, from overflowing.
\<close>

section \<open>A fill returns\<close>

lemma pnl_returns:
  assumes "\<bar>sint (position pos)\<bar> \<le> 46340"
  shows "\<exists>pos'. addFill_pnl F pos r = Inr pos'"
proof -
  have "abs32 (position pos) = Inr \<bar>sint (position pos)\<bar>" by (rule abs32_ok) (use assms in simp)
  then show ?thesis by (simp add: addFill_pnl_def open_pnl_def)
qed

lemma increase_returns:
  assumes "int (unat (cr_exec_qty r)) \<le> 92680" and "\<bar>cr_price r\<bar> \<le> 2 ^ 40"
  shows "\<exists>pos'. addFill_increase F pos r = Inr pos'"
proof -
  have "\<bar>cr_price r * int (unat (cr_exec_qty r))\<bar> \<le> 2 ^ 40 * 92680"
    unfolding abs_mult by (rule mult_mono) (use assms in simp_all)
  then have "signed_value 64 (cr_price r * int (unat (cr_exec_qty r))) = Inr (cr_price r * int (unat (cr_exec_qty r)))"
    by (simp add: signed_value_def abs_le_iff)
  then show ?thesis by (simp add: addFill_increase_def Let_def)
qed

lemma decrease_returns:
  assumes "\<bar>sint p\<bar> \<le> 46340" and "\<bar>sint (position pos)\<bar> \<le> 46340" and "\<bar>cr_price r\<bar> \<le> 2 ^ 40"
  shows "\<exists>pos'. addFill_decrease F pos p r = Inr pos'"
proof -
  let ?n = "sint (position pos)"
  have a: "abs32 p = Inr \<bar>sint p\<bar>" "abs32 (position pos) = Inr \<bar>?n\<bar>" using assms by (simp_all add: abs32_ok)
  have "\<bar>?n * sint p\<bar> \<le> 46340 * 46340" unfolding abs_mult by (rule mult_mono) (use assms in simp_all)
  then have m: "signed_value 32 (?n * sint p) = Inr (?n * sint p)" by (simp add: signed_value_def abs_le_iff)
  have "\<bar>cr_price r * \<bar>?n\<bar>\<bar> \<le> 2 ^ 40 * 46340" unfolding abs_mult by (rule mult_mono) (use assms in simp_all)
  then have "signed_value 64 (cr_price r * \<bar>?n\<bar>) = Inr (cr_price r * \<bar>?n\<bar>)" by (simp add: signed_value_def abs_le_iff)
  with a m show ?thesis by (simp add: addFill_decrease_def Let_def)
qed

lemma fill_returns:
  assumes "fill_ok (sint (position pos)) r"
  shows "\<exists>pos'. PositionInfo_addFill F pos r = Inr pos'"
proof -
  let ?p = "sint (position pos)"
  let ?pos1 = "pos\<lparr>position := position pos + cr_exec_qty r * word_of_int (sideToValue (cr_side r)), volume := volume pos + cr_exec_qty r\<rparr>"
  note f = fill_ok_facts [OF assms] and ok = assms [unfolded fill_ok_def]
  have dir: "signed_value 32 (?p * sideToValue (cr_side r)) = Inr (?p * sideToValue (cr_side r))"
    using ok by (auto simp: signed_value_def abs_le_iff)
  have new: "\<bar>sint (position ?pos1)\<bar> \<le> 46340" using f(1) ok by simp
  have "\<exists>pos2. (if ?p * sideToValue (cr_side r) \<ge> 0 then addFill_increase F ?pos1 r else addFill_decrease F ?pos1 (position pos) r) = Inr pos2"
    using increase_returns [of r F ?pos1] decrease_returns [of "position pos" ?pos1 r F] f(3) ok new by auto
  then obtain pos2 where p2: "(if ?p * sideToValue (cr_side r) \<ge> 0 then addFill_increase F ?pos1 r else addFill_decrease F ?pos1 (position pos) r) = Inr pos2"
    by blast
  then have "position pos2 = position ?pos1" by (auto split: if_splits dest: increase_frame decrease_frame)
  with pnl_returns [of pos2 F r] new obtain pos3 where "addFill_pnl F pos2 r = Inr pos3" by auto
  with dir p2 show ?thesis by (simp add: PositionInfo_addFill_def Let_def)
qed

section \<open>A response returns\<close>

text \<open>Limits small enough that the products of positions fit.\<close>

definition modest :: "(nat \<Rightarrow> 'f TradeEngineCfg) \<Rightarrow> bool" where
  "modest ticker_cfg \<longleftrightarrow> (\<forall>t<ME_MAX_TICKERS. 0 \<le> limit_of ticker_cfg t \<and> limit_of ticker_cfg t \<le> 46340 \<and>
     uint (max_order_size (risk_cfg (ticker_cfg t))) \<le> 2 ^ 29)"

lemma modest_ok: "modest ticker_cfg \<Longrightarrow> cfg_ok ticker_cfg"
  by (auto simp: modest_def cfg_ok_def)

lemma limits_position:
  assumes "limits_inv ticker_cfg s" and "modest ticker_cfg" and "t < ME_MAX_TICKERS"
  shows "\<bar>sint (position (tr_pk s t))\<bar> \<le> 46340"
proof -
  have "sint (position (tr_pk s t)) + exposure (slot (tr_om s) t BUY) \<le> 46340"
    "- 46340 \<le> sint (position (tr_pk s t)) - exposure (slot (tr_om s) t SELL)"
    using assms by (fastforce simp: limits_inv_def limits_at_def modest_def)+
  then show ?thesis using exposure_nonneg [of "slot (tr_om s) t BUY"] exposure_nonneg [of "slot (tr_om s) t SELL"] by linarith
qed

lemma fill_is_ok:
  assumes "limits_inv ticker_cfg s" and "modest ticker_cfg" and h: "honest (tr_om s) r" and f: "cr_type r = FILLED"
    and "\<bar>cr_price r\<bar> \<le> 2 ^ 40"
  shows "fill_ok (sint (position (tr_pk s (unat (cr_ticker_id r))))) r"
proof -
  let ?t = "unat (cr_ticker_id r)" and ?p = "sint (position (tr_pk s (unat (cr_ticker_id r))))"
  have t: "?t < ME_MAX_TICKERS" and s: "cr_side r \<in> {BUY, SELL}"
    and x: "order_state (slot (tr_om s) ?t (cr_side r)) \<in> {LIVE, PENDING_CANCEL}"
      "uint (cr_exec_qty r) + uint (cr_leaves_qty r) = uint (om_qty (slot (tr_om s) ?t (cr_side r)))"
    using h f by (simp_all add: honest_def Let_def)
  define q where "q = uint (cr_exec_qty r)"
  have q: "0 \<le> q" "q \<le> uint (om_qty (slot (tr_om s) ?t (cr_side r)))"
    using x(2) uint_ge_0 [of "cr_leaves_qty r"] uint_ge_0 [of "cr_exec_qty r"] unfolding q_def by linarith+
  then have "q \<le> exposure (slot (tr_om s) ?t (cr_side r))" using x(1) by (simp add: exposure_def is_open_def)
  moreover have "?p + exposure (slot (tr_om s) ?t BUY) \<le> 46340" "- 46340 \<le> ?p - exposure (slot (tr_om s) ?t SELL)"
    using assms(1,2) t by (fastforce simp: limits_inv_def limits_at_def modest_def)+
  moreover have p: "\<bar>?p\<bar> \<le> 46340" by (rule limits_position [OF assms(1,2) t])
  moreover have "signed_qty r = sideToValue (cr_side r) * q" by (simp add: signed_qty_def q_def)
  ultimately have "\<bar>?p + signed_qty r\<bar> \<le> 46340" using s q(1) by auto
  with p s assms(5) show ?thesis by (simp add: fill_ok_def)
qed

text \<open>Fills come at moderate prices; a rejected cancel carries no price.\<close>

definition plain_fill :: "MEClientResponse \<Rightarrow> bool" where
  "plain_fill r \<longleftrightarrow> (cr_type r = FILLED \<longrightarrow> \<bar>cr_price r\<bar> \<le> 2 ^ 40)"

lemma response_returns:
  assumes "limits_inv ticker_cfg s" and "modest ticker_cfg" and h: "honest (tr_om s) r" and "plain_fill r"
  shows "\<exists>om pk. take_response F (tr_om s) (tr_pk s) r = Inr (om, pk)"
proof -
  have t: "unat (cr_ticker_id r) < ME_MAX_TICKERS" using h by (simp add: honest_def)
  have "om_slot (tr_om s) (cr_ticker_id r) (cr_side r) = Inr (slot (tr_om s) (unat (cr_ticker_id r)) (cr_side r))"
    using t by (simp add: om_slot_eq)
  then have "\<exists>om. onOrderUpdate (tr_om s) r = Inr om" unfolding onOrderUpdate_def by simp
  moreover have "\<exists>pk. addFill F (tr_pk s) r = Inr pk" if "cr_type r = FILLED"
    using fill_returns [OF fill_is_ok [OF assms(1-3) that], of F] assms(4) that t by (auto simp: addFill_def plain_fill_def)
  ultimately show ?thesis by (auto simp: take_response_def)
qed

text \<open>The engine's loop over its responses, along the trader that it is.\<close>

lemma engine_response:
  assumes "take_response F (order_manager te) (position_keeper te) r = Inr (om, pk)" and "te_algo te \<in> {MAKER, TAKER}"
  shows "te_onOrderUpdate F r te = Inr (te\<lparr>position_keeper := pk, order_manager := om\<rparr>)"
  using assms
  by (auto simp: te_onOrderUpdate_def algoOnOrderUpdate_def take_response_def mm_onOrderUpdate_def lt_onOrderUpdate_def
      result_simps split: if_splits)

lemma responses_return:
  assumes "limits_inv ticker_cfg s" and "trades_as te s" and m: "modest ticker_cfg"
    and "all_honest F (order_manager te) (position_keeper te) rs" and "\<forall>r\<in>set rs. plain_fill r"
    and "te_algo te \<in> {MAKER, TAKER}" and "q_inv (incoming_ogw_responses te)" and "q_contents (incoming_ogw_responses te) = rs"
  shows "\<exists>te' now' s'. te_responses F now te rs = Inr (te', now') \<and> limits_inv ticker_cfg s' \<and> trades_as te' s' \<and>
    outgoing_ogw_requests te' = outgoing_ogw_requests te"
  using assms(1,2,4-8)
proof (induction rs arbitrary: s te now)
  case (Cons r rs)
  note v = Cons.prems(2) [unfolded trades_as_def]
  have h: "honest (tr_om s) r" using Cons.prems(3) v by simp
  from response_returns [OF Cons.prems(1) m h, of F] Cons.prems(4) obtain om pk where
    t: "take_response F (tr_om s) (tr_pk s) r = Inr (om, pk)" by auto
  from updateReadIndex_contents [OF Cons.prems(6,7)] obtain q where
    q: "updateReadIndex (incoming_ogw_responses te) = Inr q" "q_inv q" "q_contents q = rs" by blast
  let ?te1 = "te\<lparr>position_keeper := pk, order_manager := om\<rparr>"
  let ?te2 = "?te1\<lparr>incoming_ogw_responses := q, last_event_time := now 0\<rparr>"
  have e: "te_onOrderUpdate F r te = Inr ?te1" by (rule engine_response) (use t v Cons.prems(5) in simp_all)
  let ?s = "s\<lparr>tr_om := om, tr_pk := pk, tr_rcvd := tr_rcvd s @ [r]\<rparr>"
  have "\<exists>te' now' s'. te_responses F (now \<circ> Suc) ?te2 rs = Inr (te', now') \<and> limits_inv ticker_cfg s' \<and> trades_as te' s' \<and>
    outgoing_ogw_requests te' = outgoing_ogw_requests ?te2"
    by (rule Cons.IH [OF limits_response [OF Cons.prems(1) h t]])
       (use Cons.prems(3-5) t v q in \<open>simp_all add: trades_as_def\<close>)
  then show ?case using e q(1) by simp
qed auto

section \<open>How much a pass sends\<close>

text \<open>At most one request per side for a market update, and none for a response.\<close>

lemma moveOrder_few:
  assumes "moveOrder F pk rm (log_link cid) x ticker_id price side qty (om, l) = Inr (om', l')"
  shows "length l' \<le> length l + 1"
  using assms by (cases rule: moveOrder_cases) (auto simp: cancelOrder_log newOrder_log)

lemma moveOrders_few:
  assumes "moveOrders F pk rm (te_link cid) ticker_id bid ask qty (om, q) = Inr (om', q')"
  shows "\<exists>more. q' = q_pushes q more \<and> length more \<le> 2"
proof -
  from moveOrders_link [OF assms] obtain more where more: "q' = q_pushes q more"
    "moveOrders F pk rm (log_link cid) ticker_id bid ask qty (om, []) = Inr (om', more)" by force
  then obtain om1 l1 where "moveOrder F pk rm (log_link cid) (slot om (unat ticker_id) BUY) ticker_id bid BUY qty (om, []) = Inr (om1, l1)"
    "moveOrder F pk rm (log_link cid) (slot om1 (unat ticker_id) SELL) ticker_id ask SELL qty (om1, l1) = Inr (om', more)"
    by (auto simp: moveOrders_def result_simps)
  from moveOrder_few [OF this(1)] moveOrder_few [OF this(2)] more(1) show ?thesis by auto
qed

definition sends_few :: "'f TradeEngine \<Rightarrow> nat \<Rightarrow> 'f TradeEngine \<Rightarrow> bool" where
  "sends_few te n te' \<longleftrightarrow> (\<exists>more. outgoing_ogw_requests te' = q_pushes (outgoing_ogw_requests te) more \<and> length more \<le> n)"

lemma sends_none: "outgoing_ogw_requests te' = outgoing_ogw_requests te \<Longrightarrow> sends_few te n te'"
  unfolding sends_few_def by (intro exI [of _ "[]"]) simp

lemma sends_trans: "sends_few te n te1 \<Longrightarrow> sends_few te1 n' te2 \<Longrightarrow> sends_few te (n + n') te2"
  unfolding sends_few_def by (metis add_mono length_append q_pushes_append)

lemma sends_moves:
  assumes "moveOrders F pk rm (te_link cid) ticker_id bid ask qty (om, outgoing_ogw_requests te) = Inr st"
  shows "sends_few te 2 (set_orders te' st)"
  using moveOrders_few [of F pk rm cid ticker_id bid ask qty om "outgoing_ogw_requests te" "fst st" "snd st"] assms
  by (cases st) (simp add: sends_few_def set_orders_def)

lemma sends_same: "sends_few te n (set_orders te' (om, outgoing_ogw_requests te))"
  by (rule sends_none) (simp add: set_orders_def)

lemma book_update_few:
  assumes "te_onOrderBookUpdate F ticker_id price side book te = Inr te'"
  shows "sends_few te 2 te'"
  using assms
  by (auto simp: te_onOrderBookUpdate_def algoOnOrderBookUpdate_def mm_onOrderBookUpdate_def lt_onOrderBookUpdate_def
      Let_def result_simps sends_same split: if_splits
      intro: sends_none sends_moves)

lemma trade_update_few:
  assumes "te_onTradeUpdate F u book te = Inr te'"
  shows "sends_few te 2 te'"
  using assms
  by (auto simp: te_onTradeUpdate_def algoOnTradeUpdate_def lt_onTradeUpdate_def mm_onTradeUpdate_def
      Let_def result_simps sends_same split: if_splits
      intro: sends_none sends_moves)

lemma market_update_few:
  assumes "te_market_update F u te = Inr te'"
  shows "sends_few te 2 te'"
  using assms
  by (auto simp: te_market_update_def onMarketUpdate_def te_listener_def Let_def result_simps sends_few_def
      split: if_splits dest!: book_update_few trade_update_few)

lemma updates_few:
  assumes "te_updates F now te us = Inr (te', now')"
  shows "sends_few te (2 * length us) te'"
  using assms
proof (induction us arbitrary: te now)
  case (Cons u us)
  then obtain te1 q where te1: "te_market_update F u te = Inr te1"
    "te_updates F (now \<circ> Suc) (te1\<lparr>TradeEngine.incoming_md_updates := q, last_event_time := now 0\<rparr>) us = Inr (te', now')"
    by (auto simp: result_simps)
  have "sends_few te1 (2 * length us) te'" using Cons.IH [OF te1(2)] by (simp add: sends_few_def)
  from sends_trans [OF market_update_few [OF te1(1)] this] show ?case by simp
qed (simp add: sends_none)

section \<open>A pass returns\<close>

text \<open>After a pass nothing waits for the engine, and its requests are in their queue.\<close>

definition drained :: "'f TradeEngine \<Rightarrow> bool" where
  "drained te \<longleftrightarrow> q_inv (outgoing_ogw_requests te) \<and> q_inv (incoming_ogw_responses te) \<and> q_contents (incoming_ogw_responses te) = [] \<and>
     q_inv (TradeEngine.incoming_md_updates te) \<and> q_contents (TradeEngine.incoming_md_updates te) = []"

text \<open>The engine's loops, when its books can take the waiting updates.\<close>

lemma pass_with_books:
  assumes c: "closed_system F client_id algo_type ticker_cfg c" and algo: "algo_type \<in> {MAKER, TAKER}" and m: "modest ticker_cfg"
    and few: "ce_sent c + 1 < 2 ^ 64" and pf: "pass_from c n q1 q2 q3"
    and rs: "\<forall>r\<in>set (ce_responses c). plain_fill r"
    and calm: "\<forall>t<ME_MAX_TICKERS. calm_book (te_order_book (ce_engine c) t)"
    and us: "\<forall>u\<in>set (q_contents q3). unat (mu_ticker_id u) < ME_MAX_TICKERS \<and> small_price (mu_price u)"
    and books: "client_updates (te_order_book (ce_engine c)) (q_contents q3) = Inr books"
    and room: "2 * length (q_contents q3) \<le> q_capacity q1"
  shows "\<exists>te' now'. te_run_step F now ((ce_engine c)\<lparr>outgoing_ogw_requests := q1, incoming_ogw_responses := q2,
      TradeEngine.incoming_md_updates := q3\<rparr>) = Inr (te', now') \<and> q_length (outgoing_ogw_requests te') \<le> 2 * length (q_contents q3) \<and>
    te_order_book te' = books \<and> (\<forall>t<ME_MAX_TICKERS. calm_book (te_order_book te' t)) \<and> drained te'"
proof -
  let ?te = "(ce_engine c)\<lparr>outgoing_ogw_requests := q1, incoming_ogw_responses := q2, TradeEngine.incoming_md_updates := q3\<rparr>"
  let ?rs = "take n (ce_responses c)"
  from closed_market [OF c algo few] obtain pk mk where
    mk: "market_reachable F (RiskManager_new ticker_cfg) client_id pk mk" "flat pk" "seen_as c mk"
    and te: "te_algo (ce_engine c) = algo_type" "risk_manager (ce_engine c) = RiskManager_new ticker_cfg"
      "te_ticker_cfg (ce_engine c) = ticker_cfg" by blast
  note v = mk(3) [unfolded seen_as_def] and q = pf [unfolded pass_from_def]
  from market_reachable_inv [OF mk(1)] v few have
    i: "market_inv client_id mk" "trader_reachable F (RiskManager_new ticker_cfg) client_id pk (mk_trader mk)" by simp_all
  have "limits_inv ticker_cfg (trader_init pk)"
    by (rule limits_inv_init [OF modest_ok [OF m]]) (use mk(2) in \<open>simp add: flat_def\<close>)
  then have l: "limits_inv ticker_cfg (mk_trader mk)" using limits.reachable_inv [OF i(2)] modest_ok [OF m] by blast
  have tr: "trades_as ?te (mk_trader mk)" using v by (simp add: trades_as_def)
  have "all_honest F (tr_om (mk_trader mk)) (tr_pk (mk_trader mk)) ?rs"
    by (rule queue_honest [OF i(1), of _ "drop n (ce_responses c)"]) (use v in simp)
  then have h: "all_honest F (order_manager ?te) (position_keeper ?te) ?rs" using v by (simp add: trades_as_def)
  have small: "\<forall>r\<in>set ?rs. plain_fill r" using rs in_set_takeD by fastforce
  from responses_return [OF l tr m h small, of now] te algo q obtain te1 now1 s1 where
    1: "te_responses F now ?te ?rs = Inr (te1, now1)" "limits_inv ticker_cfg s1" "trades_as te1 s1"
      "outgoing_ogw_requests te1 = q1" by auto
  have f: "fixed_parts ?te te1" "te_order_book te1 = te_order_book (ce_engine c)" "TradeEngine.incoming_md_updates te1 = q3"
    using responses_frame [OF 1(1)] q by simp_all
  have pos: "position_keeper te1 = tr_pk s1" using 1(3) by (simp add: trades_as_def)
  have "calm_at (position_keeper te1) ticker_cfg t" if "t < ME_MAX_TICKERS" for t
    using limits_position [OF 1(2) m that] m that unfolding pos by (simp add: calm_at_def modest_def)
  then have "Trade_Pass.calm te1" using f te calm by (simp add: calm_def fixed_parts_def)
  from updates_return [OF this us _ _, of books F now1] books f(2,3) q obtain te' now' where
    2: "te_updates F now1 te1 (q_contents q3) = Inr (te', now')" "Trade_Pass.calm te'" by auto
  have "te_run_step F now ?te = Inr (te', now')" using run_step_eq [of ?te F now] q 1(1) 2(1) by simp
  moreover have "client_updates (te_order_book (ce_engine c)) (q_contents q3) = Inr (te_order_book te')"
    using updates_frame [OF 2(1)] f(2,3) q by simp
  moreover obtain more where more: "outgoing_ogw_requests te' = q_pushes q1 more" "length more \<le> 2 * length (q_contents q3)"
    using updates_few [OF 2(1)] 1(4) unfolding sends_few_def by auto
  moreover have "drained te'"
    using q_pushes_contents [of q1 more] more room q responses_frame [OF 1(1)] updates_frame [OF 2(1)] f(3) by (simp add: drained_def)
  moreover have "q_length q1 = 0" using q length_q_contents [of q1] by simp
  ultimately show ?thesis using books 2(2) room by (auto simp: q_length_pushes calm_def)
qed

text \<open>C9: The engine never stops in the closed system. Take any state that the engine, the exchange and
  other clients can reach, with limits of at most 46340 and moderate prices; let the engine's books
  mirror the exchange's as they were at some time, and let the updates that wait for it be those that the
  matching engine sends for the next requests. Then a pass over any number of the responses on their way
  and over these updates returns, whatever the strategy does; its requests fit a queue with two entries
  for each update, so that the pass is a step of the system; and the engine's books then mirror the exchange's after
  those requests.\<close>

theorem engine_never_stops:
  assumes "closed_system F client_id algo_type ticker_cfg c" and "algo_type \<in> {MAKER, TAKER}" and "modest ticker_cfg"
    and "ce_sent c + 1 < 2 ^ 64" and "pass_from c n q1 q2 q3" and "2 * length (q_contents q3) \<le> q_capacity q1"
    and "\<forall>r\<in>set (ce_responses c). plain_fill r"
    and "\<forall>t<ME_MAX_TICKERS. calm_book (te_order_book (ce_engine c) t)" and "prices_in small_price e"
    and "eng_listed e" and "ae_oks e rs" and "ae_room e rs" and "ae_requests e rs = (e', resps, q_contents q3)"
    and "\<forall>r\<in>set rs. small_price (rq_price r)" and "client_mirrors (te_order_book (ce_engine c)) e"
  shows "\<exists>te' now'. te_run_step F now ((ce_engine c)\<lparr>outgoing_ogw_requests := q1, incoming_ogw_responses := q2,
      TradeEngine.incoming_md_updates := q3\<rparr>) = Inr (te', now') \<and>
    closed_system F client_id algo_type ticker_cfg (after_pass c n te') \<and>
    client_mirrors (te_order_book te') e' \<and> (\<forall>t<ME_MAX_TICKERS. calm_book (te_order_book te' t))"
proof -
  from requests_mirror [OF assms(10-13,15)] obtain books where
    b: "client_updates (te_order_book (ce_engine c)) (q_contents q3) = Inr books" "client_mirrors books e'" by blast
  have "\<forall>u\<in>set (q_contents q3). unat (mu_ticker_id u) < ME_MAX_TICKERS \<and> small_price (mu_price u)"
    using requests_prices [OF assms(13,11,9,14)] requests_tickers [OF assms(13,11)] by blast
  from pass_with_books [OF assms(1-5,7,8) this b(1) assms(6), of now] closed_system.pass [OF assms(1,5), of now] b(2) assms(6)
  show ?thesis using order_trans by blast
qed

theorem engine_never_stops_witness:
  "\<exists>te' now' e' resps. te_run_step exact_ops (\<lambda>_. 0) demo_maker_engine = Inr (te', now') \<and>
     ae_requests (\<lambda>_. empty_abook) demo_orders = (e', resps, demo_quotes) \<and> client_mirrors (te_order_book te') e'"
proof -
  let ?c = "\<lparr>ce_engine = demo_maker_engine, ce_books = (\<lambda>_. empty_abook), ce_requests = [], ce_responses = [], ce_sent = 0\<rparr>"
  let ?te = "demo_maker_engine"
  have start: "closed_system exact_ops 1 MAKER (\<lambda>_. demo_cfg) ?c" by (rule demo_start)
  have from_here: "pass_from ?c 0 (outgoing_ogw_requests ?te) (incoming_ogw_responses ?te) (TradeEngine.incoming_md_updates ?te)"
    using demo_maker_queues by (simp add: pass_from_def) (simp add: demo_engine_defs q_inv_new)
  from demo_orders_ok(1) obtain e' resps where r: "ae_requests (\<lambda>_. empty_abook) demo_orders = (e', resps, demo_quotes)" by blast
  have b: "te_order_book ?te = empty_books" by (simp add: demo_engine_defs empty_books_def fun_eq_iff)
  have "modest (\<lambda>_. demo_cfg)" "prices_in small_price (\<lambda>_. empty_abook)" "\<forall>r\<in>set demo_orders. small_price (rq_price r)"
    "2 * length demo_quotes \<le> q_capacity (outgoing_ogw_requests ?te)"
    "\<forall>t<ME_MAX_TICKERS. calm_book (te_order_book ?te t)"
    unfolding calm_book_def b quoted_new
    by (simp_all add: modest_def demo_cfg_def prices_in_def ab_orders_def empty_abook_def demo_orders_def demo_request_def small_price_def
        demo_quotes_def demo_engine_defs sint_small)
  then show ?thesis
    using engine_never_stops [OF start _ _ _ from_here, where now = "\<lambda>_. 0" and e = "\<lambda>_. empty_abook" and rs = demo_orders and e' = e']
      demo_orders_ok(2,3) eng_listed_new r client_mirrors_new b demo_maker_queues(4)
    by auto
qed

end
