(* ===== verification/Whole_Round.thy ===== *)
theory Whole_Round
  imports Closed_Progress
begin

text \<open>
  The whole ecosystem with one client in step: a round of turns of all components of
  \<^verbatim>\<open>src/exchange/exchange_main.cpp\<close> and \<^verbatim>\<open>src/trading/trading_main.cpp\<close>. The requests that the
  trade engine has sent go through gateway, server and sequencer to the matching engine; its responses
  go back the same way, its updates through publisher and consumer, and the trade engine makes a pass
  over both and sends new requests. The snapshot synthesizer follows the stream.
\<close>

section \<open>The components and a round\<close>

record 'f world =
  w_flow :: order_flow
  w_publisher :: MarketDataPublisher
  w_synthesizer :: SnapshotSynthesizer
  w_consumer :: MarketDataConsumer
  w_trader :: "'f TradeEngine"

text \<open>
  Queues are shared: the gateway holds those between itself and the trade engine, which works on them in
  its turn; the matching engine holds the one of its updates.
\<close>

definition hand_back :: "order_flow \<Rightarrow> MEMarketUpdateLFQueue \<Rightarrow> 'f TradeEngine \<Rightarrow> order_flow" where
  "hand_back fl q te = fl
     \<lparr>of_gateway := (of_gateway fl)\<lparr>outgoing_requests := outgoing_ogw_requests te, incoming_responses := incoming_ogw_responses te\<rparr>,
      of_engine := (of_engine fl)\<lparr>eng_queues := (eng_queues (of_engine fl))\<lparr>mq_md_updates := q\<rparr>\<rparr>\<rparr>"

definition whole_round ::
    "'f double_ops \<Rightarrow> (RecvTimeClientRequest list \<Rightarrow> RecvTimeClientRequest list) \<Rightarrow> nat \<Rightarrow> Nanos \<Rightarrow> Nanos \<Rightarrow> nat \<Rightarrow>
     (nat \<Rightarrow> Nanos) \<Rightarrow> 'f world \<Rightarrow> ('f world \<times> (nat \<Rightarrow> Nanos)) result" where
  "whole_round F srt s request_time response_time taken now w =
     andThen (order_round srt s request_time response_time (w_flow w)) (\<lambda>fl.
     andThen (mdp_run_step taken ((w_publisher w)\<lparr>outgoing_md_updates := mq_md_updates (eng_queues (of_engine fl))\<rparr>)) (\<lambda>(mdp, sent).
     andThen (ss_updates (q_length (snapshot_md_updates mdp)) ((w_synthesizer w)\<lparr>ss_md_updates := snapshot_md_updates mdp\<rparr>)) (\<lambda>ss.
     andThen (mdc_run_step True sent []
       ((w_consumer w)\<lparr>MarketDataConsumer.incoming_md_updates := TradeEngine.incoming_md_updates (w_trader w)\<rparr>)) (\<lambda>mdc.
     andThen (te_run_step F now ((w_trader w)\<lparr>outgoing_ogw_requests := outgoing_requests (of_gateway fl),
         incoming_ogw_responses := incoming_responses (of_gateway fl),
         TradeEngine.incoming_md_updates := MarketDataConsumer.incoming_md_updates mdc\<rparr>)) (\<lambda>(te, now').
     Inr (\<lparr>w_flow = hand_back fl (outgoing_md_updates mdp) te, w_publisher = mdp\<lparr>snapshot_md_updates := ss_md_updates ss\<rparr>,
           w_synthesizer = ss, w_consumer = mdc, w_trader = te\<rparr>, now'))))))"

section \<open>The requests of a round\<close>

lemma closed_own:
  assumes "closed_system F client_id algo_type ticker_cfg c" and "algo_type \<in> {MAKER, TAKER}" and "ce_sent c + 1 < 2 ^ 64"
  shows "\<forall>r\<in>set (ce_requests c). rq_client_id r = client_id"
proof -
  from closed_market [OF assms] obtain pk m where
    m: "market_reachable F (RiskManager_new ticker_cfg) client_id pk m" "seen_as c m" by blast
  then have "market_inv client_id m" using market_reachable_inv [OF m(1)] assms(3) by (simp add: seen_as_def)
  with m(2) show ?thesis by (simp add: market_inv_def numbers_ok_def seen_as_def)
qed

lemma requests_taken:
  assumes "closed_system F client_id algo_type ticker_cfg c" and "mset rs \<subseteq># mset (ce_requests c)"
    and "ae_oks (ce_books c) rs" and "ae_requests (ce_books c) rs = (e', resps, us)"
  shows "\<exists>c'. closed_system F client_id algo_type ticker_cfg c' \<and> ce_engine c' = ce_engine c \<and> ce_books c' = e' \<and>
    mset (ce_requests c') = mset (ce_requests c) - mset rs \<and> ce_responses c' = ce_responses c @ responses_for client_id resps \<and>
    ce_sent c' = ce_sent c"
  using assms
proof (induction rs arbitrary: c resps us)
  case Nil
  then show ?case by (intro exI [of _ c]) simp
next
  case (Cons r rs)
  obtain e1 o1 u1 where 1: "ae_request (ce_books c) r = (e1, o1, u1)" by (metis prod.collapse)
  obtain e2 o2 u2 where 2: "ae_requests e1 rs = (e2, o2, u2)" by (metis prod.collapse)
  have out: "e' = e2" "resps = o1 @ o2" using Cons.prems(4) 1 2 by auto
  let ?c = "c\<lparr>ce_books := e1, ce_requests := remove1 r (ce_requests c), ce_responses := ce_responses c @ responses_for client_id o1\<rparr>"
  have r: "r \<in> set (ce_requests c)" using Cons.prems(2) by (auto dest: mset_subset_eqD)
  have "closed_system F client_id algo_type ticker_cfg ?c"
    using closed_system.request [OF Cons.prems(1), of r] r Cons.prems(3) 1 by simp
  moreover have "mset rs \<subseteq># mset (ce_requests ?c)" using Cons.prems(2) by (simp add: insert_subset_eq_iff)
  ultimately obtain c' where "closed_system F client_id algo_type ticker_cfg c'" "ce_engine c' = ce_engine ?c" "ce_books c' = e2"
    "mset (ce_requests c') = mset (ce_requests ?c) - mset rs" "ce_responses c' = ce_responses ?c @ responses_for client_id o2" "ce_sent c' = ce_sent ?c"
    using Cons.IH [of ?c o2 u2] Cons.prems(3) 1 2 out(1) by auto
  then show ?case using out by (intro exI [of _ c']) simp
qed

text \<open>Requests of others, while the client has sent none.\<close>

lemma others_taken:
  assumes "closed_system F client_id algo_type ticker_cfg c" and "\<forall>r\<in>set rs. rq_client_id r \<noteq> client_id" and "ce_requests c = []"
    and "ae_oks (ce_books c) rs" and "ae_requests (ce_books c) rs = (e', resps, us)"
  shows "closed_system F client_id algo_type ticker_cfg (c\<lparr>ce_books := e', ce_responses := ce_responses c @ responses_for client_id resps\<rparr>)"
  using assms
proof (induction rs arbitrary: c resps us)
  case Nil
  then show ?case by (cases c) auto
next
  case (Cons r rs)
  obtain e1 o1 u1 where 1: "ae_request (ce_books c) r = (e1, o1, u1)" by (metis prod.collapse)
  obtain e2 o2 u2 where 2: "ae_requests e1 rs = (e2, o2, u2)" by (metis prod.collapse)
  have out: "e' = e2" "resps = o1 @ o2" using Cons.prems(5) 1 2 by auto
  let ?c = "c\<lparr>ce_books := e1, ce_requests := [], ce_responses := ce_responses c @ responses_for client_id o1\<rparr>"
  have "closed_system F client_id algo_type ticker_cfg ?c"
    using closed_system.request [OF Cons.prems(1), of r] Cons.prems(2-4) 1 by simp
  moreover have "?c\<lparr>ce_books := e', ce_responses := ce_responses ?c @ responses_for client_id o2\<rparr> =
      c\<lparr>ce_books := e', ce_responses := ce_responses c @ responses_for client_id resps\<rparr>"
    using Cons.prems(3) out by (cases c) simp
  ultimately show ?case using Cons.IH [of ?c o2 u2] Cons.prems(2,4) 1 2 out(1) by (simp del: closed_engine.update_convs)
qed

text \<open>Moderate prices.\<close>

definition plain_price :: "Price \<Rightarrow> bool" where
  "plain_price p \<longleftrightarrow> \<bar>p\<bar> \<le> 2 ^ 29"

lemma plain_small: "plain_price p \<Longrightarrow> small_price p"
  by (simp add: plain_price_def small_price_def)

lemma plain_fills:
  assumes "ae_requests e rs = (e', resps, us)" and "ae_oks e rs" and "prices_in plain_price e" and "\<forall>r\<in>set rs. plain_price (rq_price r)"
  shows "\<forall>m\<in>set (responses_for c resps). plain_fill m"
proof -
  have "orders_of (\<lambda>_. True) plain_price e" using assms(3) by (simp add: orders_of_def prices_in_def)
  from requests_responses [OF assms(1,2) this] assms(4) have "\<forall>m\<in>set resps. response_price plain_price m" by simp
  then show ?thesis by (auto simp: responses_for_def response_price_def plain_price_def plain_fill_def split: if_splits)
qed

section \<open>The turn of the trade engine\<close>

text \<open>
  What the trade engine is between two rounds: a state of the closed system in which the requests \<open>rs\<close>, the last of \<open>k\<close>
  sent so far, are on their way and no responses are, with books that mirror the exchange's.
\<close>

definition trader_ready ::
    "'f double_ops \<Rightarrow> ClientId \<Rightarrow> AlgoType \<Rightarrow> (nat \<Rightarrow> 'f TradeEngineCfg) \<Rightarrow> nat \<Rightarrow> 'f TradeEngine \<Rightarrow>
     MEClientRequest list \<Rightarrow> aengine \<Rightarrow> bool" where
  "trader_ready F client_id algo_type ticker_cfg k te rs e \<longleftrightarrow>
     (\<exists>c. closed_system F client_id algo_type ticker_cfg c \<and> ce_engine c = te \<and> ce_books c = e \<and> ce_requests c = rs \<and>
        ce_responses c = [] \<and> ce_sent c = k) \<and>
     (\<forall>t<ME_MAX_TICKERS. calm_book (te_order_book te t)) \<and> client_mirrors (te_order_book te) e \<and>
     q_inv (TradeEngine.incoming_md_updates te) \<and> q_contents (TradeEngine.incoming_md_updates te) = []"

lemma turn_after:
  assumes c: "closed_system F client_id algo_type ticker_cfg c" "ce_engine c = te" "ce_books c = e'" "ce_requests c = []" "ce_sent c = k"
    and algo: "algo_type \<in> {MAKER, TAKER}" and m: "modest ticker_cfg" and few: "k + 1 < 2 ^ 64"
    and books: "\<forall>t<ME_MAX_TICKERS. calm_book (te_order_book te t)" "client_mirrors (te_order_book te) e"
    and ok: "eng_listed e" "ae_oks e rs" "ae_room e rs" "ae_requests e rs = (e', resps, us)"
    and plain: "prices_in plain_price e" "\<forall>r\<in>set rs. plain_price (rq_price r)" "\<forall>r\<in>set (ce_responses c). plain_fill r"
    and q: "q_inv q1" "q_contents q1 = []" "q_inv q2" "q_contents q2 = ce_responses c" "q_inv q3" "q_contents q3 = us"
    and room: "2 * length us \<le> q_capacity q1"
  shows "\<exists>te' now'. te_run_step F now (te\<lparr>outgoing_ogw_requests := q1, incoming_ogw_responses := q2,
      TradeEngine.incoming_md_updates := q3\<rparr>) = Inr (te', now') \<and> drained te' \<and> q_length (outgoing_ogw_requests te') \<le> 2 * length us \<and>
    trader_ready F client_id algo_type ticker_cfg (k + q_length (outgoing_ogw_requests te')) te' (q_contents (outgoing_ogw_requests te')) e'"
proof -
  let ?n = "length (ce_responses c)"
  have from_here: "pass_from c ?n q1 q2 q3" using q by (simp add: pass_from_def)
  obtain books where b: "client_updates (te_order_book te) us = Inr books" "client_mirrors books e'"
    using requests_mirror [OF ok books(2)] by blast
  have "prices_in small_price e" "\<forall>r\<in>set rs. small_price (rq_price r)"
    using plain plain_small by (auto simp: prices_in_def)
  then have us: "\<forall>u\<in>set us. unat (mu_ticker_id u) < ME_MAX_TICKERS \<and> small_price (mu_price u)"
    using requests_prices [OF ok(4,2)] requests_tickers [OF ok(4,2)] by blast
  from pass_with_books [OF c(1) algo m _ from_here plain(3), of books now] us c(2,5) few books(1) b(1) q(6) room
  obtain te' now' where te': "te_run_step F now (te\<lparr>outgoing_ogw_requests := q1, incoming_ogw_responses := q2,
      TradeEngine.incoming_md_updates := q3\<rparr>) = Inr (te', now')" "q_length (outgoing_ogw_requests te') \<le> 2 * length us"
    "te_order_book te' = books" "\<forall>t<ME_MAX_TICKERS. calm_book (te_order_book te' t)" "drained te'" by auto
  have "closed_system F client_id algo_type ticker_cfg (after_pass c ?n te')"
    by (rule closed_system.pass [OF c(1) from_here]) (use te'(1,2) c(2) room in simp_all)
  then have "trader_ready F client_id algo_type ticker_cfg (k + q_length (outgoing_ogw_requests te')) te' (q_contents (outgoing_ogw_requests te')) e'"
    unfolding trader_ready_def using te'(3-5) b(2) c(3-5)
    by (intro conjI exI [of _ "after_pass c ?n te'"]) (simp_all add: after_pass_def drained_def)
  with te' show ?thesis by blast
qed

lemma trader_turn:
  assumes ready: "trader_ready F client_id algo_type ticker_cfg k te rs e" and algo: "algo_type \<in> {MAKER, TAKER}" and m: "modest ticker_cfg"
    and few: "k + 1 < 2 ^ 64" and perm: "mset rs' = mset rs"
    and ok: "eng_listed e" "ae_oks e rs'" "ae_room e rs'" "ae_requests e rs' = (e', resps, us)"
    and plain: "prices_in plain_price e" "\<forall>r\<in>set rs'. plain_price (rq_price r)"
    and q: "q_inv q1" "q_contents q1 = []" "q_inv q2" "q_contents q2 = responses_for client_id resps" "q_inv q3" "q_contents q3 = us"
    and room: "2 * length us \<le> q_capacity q1"
  shows "\<exists>te' now'. te_run_step F now (te\<lparr>outgoing_ogw_requests := q1, incoming_ogw_responses := q2,
      TradeEngine.incoming_md_updates := q3\<rparr>) = Inr (te', now') \<and> drained te' \<and> q_length (outgoing_ogw_requests te') \<le> 2 * length us \<and>
    trader_ready F client_id algo_type ticker_cfg (k + q_length (outgoing_ogw_requests te')) te' (q_contents (outgoing_ogw_requests te')) e'"
proof -
  note r = ready [unfolded trader_ready_def]
  from r obtain c where c: "closed_system F client_id algo_type ticker_cfg c" "ce_engine c = te" "ce_books c = e" "ce_requests c = rs"
    "ce_responses c = []" "ce_sent c = k" by blast
  obtain c1 where c1: "closed_system F client_id algo_type ticker_cfg c1" "ce_engine c1 = te" "ce_books c1 = e'" "ce_requests c1 = []"
    "ce_sent c1 = k" "ce_responses c1 = responses_for client_id resps"
    using requests_taken [OF c(1), of rs' e' resps us] c perm ok by auto
  have "\<forall>m\<in>set (ce_responses c1). plain_fill m" using plain_fills [OF ok(4,2) plain] c1(6) by simp
  from turn_after [OF c1(1-5) algo m few _ _ ok plain this q(1-3) _ q(5,6) room] r q(4) c1(6) show ?thesis by simp
qed

section \<open>The components in step\<close>

definition consumer_ready :: "MarketDataConsumer \<Rightarrow> 64 word \<Rightarrow> bool" where
  "consumer_ready mdc n \<longleftrightarrow> \<not> in_recovery mdc \<and> mc_inbound (incremental_mcast_socket mdc) = [] \<and> next_exp_inc_seq_num mdc = n"

text \<open>
  The books of the exchange are \<open>e\<close>; nothing is on its way but the requests that the trade engine has
  put into the gateway's queue in its last turn, of \<open>k\<close> in all.
\<close>

definition world_in_step ::
    "'f double_ops \<Rightarrow> ClientId \<Rightarrow> AlgoType \<Rightarrow> (nat \<Rightarrow> 'f TradeEngineCfg) \<Rightarrow> nat \<Rightarrow> nat \<Rightarrow> 'f world \<Rightarrow> aengine \<Rightarrow> bool" where
  "world_in_step F client_id algo_type ticker_cfg s k w e \<longleftrightarrow>
     (let og = of_gateway (w_flow w); eng = of_engine (w_flow w) in
      linked s (w_flow w) e \<and> og_client_id og = client_id \<and> q_contents (incoming_responses og) = [] \<and>
      eng_listed e \<and> prices_in plain_price e \<and>
      q_inv (mq_md_updates (eng_queues eng)) \<and> q_contents (mq_md_updates (eng_queues eng)) = [] \<and>
      publishing (w_publisher w) (w_synthesizer w) \<and> ss_view (w_synthesizer w) = eng_view e \<and>
      consumer_ready (w_consumer w) (last_inc_seq_num (w_synthesizer w) + 1) \<and>
      trader_ready F client_id algo_type ticker_cfg k (w_trader w) (q_contents (outgoing_requests og)) e)"

text \<open>The queues and buffers of a round: \<open>n\<close> requests, \<open>m\<close> responses, \<open>k\<close> updates.\<close>

definition whole_fits :: "'f world \<Rightarrow> nat \<Rightarrow> nat \<Rightarrow> nat \<Rightarrow> nat \<Rightarrow> bool" where
  "whole_fits w taken n m k \<longleftrightarrow>
     n \<le> ME_MAX_PENDING_REQUESTS \<and> n \<le> q_capacity (os_incoming_requests (of_server (w_flow w))) \<and>
     m \<le> q_capacity (os_outgoing_responses (of_server (w_flow w))) \<and> 50 * m \<le> TCPBufferSize \<and>
     m \<le> q_capacity (incoming_responses (of_gateway (w_flow w))) \<and>
     k \<le> q_capacity (mq_md_updates (eng_queues (of_engine (w_flow w)))) \<and> publish_fits (w_publisher w) (w_synthesizer w) taken k \<and>
     k \<le> q_capacity (TradeEngine.incoming_md_updates (w_trader w)) \<and> 2 * k \<le> q_capacity (outgoing_requests (of_gateway (w_flow w)))"

lemma linked_hand_back: "linked s fl e \<Longrightarrow> drained te \<Longrightarrow> linked s (hand_back fl q te) e"
  by (simp add: linked_def hand_back_def drained_def eng_rep_def Let_def)

text \<open>The way of the market data, from the matching engine's queue to the trade engine's.\<close>

lemma updates_delivered:
  assumes "publishing mdp ss" and "ss_view ss = eng_view e" and "consumer_ready mdc (last_inc_seq_num ss + 1)"
    and "q_inv q" and "q_contents q = []" and "q_inv v" and "q_contents v = []" and "length us \<le> q_capacity q" and "length us \<le> q_capacity v"
    and "publish_fits mdp ss taken (length us)" and "view_oks (eng_view e) us" and "foldl view_apply (eng_view e) us = eng_view e'"
    and "\<forall>u\<in>set us. price_ok (mu_price u)"
  shows "\<exists>mdp' sent ss' mdc'. mdp_run_step taken (mdp\<lparr>outgoing_md_updates := q_pushes q us\<rparr>) = Inr (mdp', sent) \<and>
    ss_updates (q_length (snapshot_md_updates mdp')) (ss\<lparr>ss_md_updates := snapshot_md_updates mdp'\<rparr>) = Inr ss' \<and>
    mdc_run_step True sent [] (mdc\<lparr>MarketDataConsumer.incoming_md_updates := v\<rparr>) = Inr mdc' \<and>
    q_inv (outgoing_md_updates mdp') \<and> q_contents (outgoing_md_updates mdp') = [] \<and>
    publishing (mdp'\<lparr>snapshot_md_updates := ss_md_updates ss'\<rparr>) ss' \<and> ss_view ss' = eng_view e' \<and>
    consumer_ready mdc' (last_inc_seq_num ss' + 1) \<and>
    q_inv (MarketDataConsumer.incoming_md_updates mdc') \<and> q_contents (MarketDataConsumer.incoming_md_updates mdc') = us"
proof -
  let ?mdp = "mdp\<lparr>outgoing_md_updates := q_pushes q us\<rparr>" and ?mdc = "mdc\<lparr>MarketDataConsumer.incoming_md_updates := v\<rparr>"
  have p: "publishing ?mdp ss" "publish_fits ?mdp ss taken (length us)"
    using assms(1,10) by (simp_all add: publishing_def publish_fits_def)
  have q: "q_inv (outgoing_md_updates ?mdp)" "q_contents (outgoing_md_updates ?mdp) = us"
    using q_pushes_contents [OF assms(4), of us] assms(5,8) by simp_all
  have v: "q_inv (q_pushes v us)" "q_contents (q_pushes v us) = us"
    using q_pushes_contents [OF assms(6), of us] assms(7,9) by simp_all
  have oks: "view_oks (ss_view ss) us" "foldl view_apply (ss_view ss) us = eng_view e'" using assms(2,11,12) by simp_all
  from publish_step [OF p(1) q oks(1) p(2)] obtain mdp' ss' where
    1: "mdp_run_step taken ?mdp = Inr (mdp', concat (map enc_MDPMarketUpdate (mdp_number (last_inc_seq_num ss + 1) us)))" and
    2: "q_length (snapshot_md_updates mdp') = length us" and 3: "ss_updates (length us) (ss\<lparr>ss_md_updates := snapshot_md_updates mdp'\<rparr>) = Inr ss'" and
    4: "last_inc_seq_num ss' = last_inc_seq_num ss + of_nat (length us)" and 5: "ss_view ss' = foldl view_apply (ss_view ss) us" and
    6: "q_inv (outgoing_md_updates mdp')" "q_contents (outgoing_md_updates mdp') = []"
      "publishing (mdp'\<lparr>snapshot_md_updates := ss_md_updates ss'\<rparr>) ss'" .
  have "\<not> in_recovery ?mdc" "mc_inbound (incremental_mcast_socket ?mdc) = []" "next_exp_inc_seq_num ?mdc = last_inc_seq_num ss + 1"
    "42 * length us < McastBufferSize"
    using assms(3,10) by (simp_all add: consumer_ready_def publish_fits_def)
  from consumer_step [OF this(1-3) assms(13) this(4)] obtain mdc' where
    7: "mdc_run_step True (concat (map enc_MDPMarketUpdate (mdp_number (last_inc_seq_num ss + 1) us))) [] ?mdc = Inr mdc'" and
    8: "\<not> in_recovery mdc'" "mc_inbound (incremental_mcast_socket mdc') = []"
      "next_exp_inc_seq_num mdc' = last_inc_seq_num ss + 1 + of_nat (length us)" and
    9: "MarketDataConsumer.incoming_md_updates mdc' = q_pushes v us" by auto
  have "consumer_ready mdc' (last_inc_seq_num ss' + 1)" unfolding consumer_ready_def 4 8(3) using 8(1,2) by (simp add: add_ac)
  with 1 3 [folded 2] 6 7 v oks(2) show ?thesis unfolding 5 [symmetric] 9 [symmetric] by blast
qed

section \<open>Properties\<close>

lemma whole_round_ok:
  assumes w: "world_in_step F client_id algo_type ticker_cfg s k w e" and algo: "algo_type \<in> {MAKER, TAKER}" and m: "modest ticker_cfg"
    and rs: "q_contents (outgoing_requests (of_gateway (w_flow w))) = rs" and plain: "\<forall>r\<in>set rs. plain_price (rq_price r)"
    and srt: "\<forall>xs. mset (srt xs) = mset xs" and rs': "rs' = map rt_request (srt (map (\<lambda>r. \<lparr>recv_time = t, rt_request = r\<rparr>) rs))"
    and ok: "ae_oks e rs'" "ae_room e rs'" "ae_requests e rs' = (e', resps, us)"
    and fits: "whole_fits w taken (length rs) (length resps) (length us)" and few: "k + 1 < 2 ^ 64"
  shows "\<exists>w' now' n. whole_round F srt s t t' taken now w = Inr (w', now') \<and> mset rs' = mset rs \<and> n \<le> 2 * length us \<and>
    world_in_step F client_id algo_type ticker_cfg s (k + n) w' e'"
proof -
  let ?fl = "w_flow w" and ?te = "w_trader w"
  let ?og = "of_gateway (w_flow w)" and ?md = "mq_md_updates (eng_queues (of_engine (w_flow w)))"
  note i = w [unfolded world_in_step_def Let_def] and f = fits [unfolded whole_fits_def]
  have l: "linked s ?fl e" "og_client_id ?og = client_id" "q_contents (incoming_responses ?og) = []"
    and ready: "trader_ready F client_id algo_type ticker_cfg k ?te rs e" "eng_listed e" "prices_in plain_price e"
    and md: "q_inv ?md" "q_contents ?md = []"
    and pub: "publishing (w_publisher w) (w_synthesizer w)" "ss_view (w_synthesizer w) = eng_view e"
      "consumer_ready (w_consumer w) (last_inc_seq_num (w_synthesizer w) + 1)"
    using i rs by simp_all
  from ready(1) have v: "q_inv (TradeEngine.incoming_md_updates ?te)" "q_contents (TradeEngine.incoming_md_updates ?te) = []"
    by (simp_all add: trader_ready_def)
  from ready(1) obtain c where "closed_system F client_id algo_type ticker_cfg c" "ce_requests c = rs" "ce_sent c = k"
    unfolding trader_ready_def by blast
  with closed_own [OF _ algo] few plain plain_small small_price_ok
  have own: "\<forall>r\<in>set rs. rq_client_id r = og_client_id ?og \<and> price_ok (rq_price r)" unfolding l(2) by blast
  have "length (responses_for (og_client_id ?og) resps) \<le> length resps" by (simp add: responses_for_def)
  then have room: "length (q_contents (incoming_responses ?og)) + length (responses_for (og_client_id ?og) resps) \<le> q_capacity (incoming_responses ?og)"
    using f l(3) by simp
  from round_trip [OF l(1) rs own srt rs' ok(1,3) _ _ _ _ room, of t'] f l(2,3) obtain fl where
    fl: "order_round srt s t t' ?fl = Inr fl" "linked s fl e'" "mset rs' = mset rs"
    "q_contents (outgoing_requests (of_gateway fl)) = []" "q_contents (incoming_responses (of_gateway fl)) = responses_for client_id resps"
    "mq_md_updates (eng_queues (of_engine fl)) = q_pushes ?md us" "og_client_id (of_gateway fl) = client_id"
    "q_capacity (outgoing_requests (of_gateway fl)) = q_capacity (outgoing_requests ?og)" by auto
  have plain': "\<forall>r\<in>set rs'. plain_price (rq_price r)" using plain by (simp add: mset_eq_setD [OF fl(3)])
  from requests_prices [OF ok(3,1) ready(3) plain'] have pr: "prices_in plain_price e'" "\<forall>u\<in>set us. plain_price (mu_price u)" by simp_all
  then have px: "\<forall>u\<in>set us. price_ok (mu_price u)" using plain_small small_price_ok by blast
  have rep: "view_oks (eng_view e) us" "foldl view_apply (eng_view e) us = eng_view e'" "eng_listed e'"
    using ae_requests_replay [OF ready(2) ok] by simp_all
  from f have "length us \<le> q_capacity ?md" "length us \<le> q_capacity (TradeEngine.incoming_md_updates ?te)"
    "publish_fits (w_publisher w) (w_synthesizer w) taken (length us)" by simp_all
  from updates_delivered [OF pub md v this rep(1,2) px]
  obtain mdp sent ss mdc where d: "mdp_run_step taken ((w_publisher w)\<lparr>outgoing_md_updates := q_pushes ?md us\<rparr>) = Inr (mdp, sent)"
    "ss_updates (q_length (snapshot_md_updates mdp)) ((w_synthesizer w)\<lparr>ss_md_updates := snapshot_md_updates mdp\<rparr>) = Inr ss"
    "mdc_run_step True sent [] ((w_consumer w)\<lparr>MarketDataConsumer.incoming_md_updates := TradeEngine.incoming_md_updates ?te\<rparr>) = Inr mdc"
    "q_inv (outgoing_md_updates mdp)" "q_contents (outgoing_md_updates mdp) = []"
    "publishing (mdp\<lparr>snapshot_md_updates := ss_md_updates ss\<rparr>) ss" "ss_view ss = eng_view e'" "consumer_ready mdc (last_inc_seq_num ss + 1)"
    "q_inv (MarketDataConsumer.incoming_md_updates mdc)" "q_contents (MarketDataConsumer.incoming_md_updates mdc) = us" by blast
  have q: "q_inv (outgoing_requests (of_gateway fl))" "q_inv (incoming_responses (of_gateway fl))"
    "2 * length us \<le> q_capacity (outgoing_requests (of_gateway fl))"
    using fl(2) f unfolding fl(8) by (simp_all add: linked_def Let_def)
  from trader_turn [OF ready(1) algo m few fl(3) ready(2) ok ready(3) plain' q(1) fl(4) q(2) fl(5) d(9,10) q(3), of now]
  obtain te now' where te: "te_run_step F now (?te\<lparr>outgoing_ogw_requests := outgoing_requests (of_gateway fl),
      incoming_ogw_responses := incoming_responses (of_gateway fl), TradeEngine.incoming_md_updates := MarketDataConsumer.incoming_md_updates mdc\<rparr>) =
      Inr (te, now')" "drained te" "q_length (outgoing_ogw_requests te) \<le> 2 * length us"
    "trader_ready F client_id algo_type ticker_cfg (k + q_length (outgoing_ogw_requests te)) te (q_contents (outgoing_ogw_requests te)) e'" by blast
  let ?w = "\<lparr>w_flow = hand_back fl (outgoing_md_updates mdp) te, w_publisher = mdp\<lparr>snapshot_md_updates := ss_md_updates ss\<rparr>,
     w_synthesizer = ss, w_consumer = mdc, w_trader = te\<rparr>"
  have "whole_round F srt s t t' taken now w = Inr (?w, now')" using fl(1,6) d(1-3) te(1) by (simp add: whole_round_def)
  moreover have "world_in_step F client_id algo_type ticker_cfg s (k + q_length (outgoing_ogw_requests te)) ?w e'"
    unfolding world_in_step_def Let_def using linked_hand_back [OF fl(2) te(2)] fl(7) te(2,4) d(4-8) pr(1) rep(3)
    by (simp add: hand_back_def drained_def)
  ultimately show ?thesis using fl(3) te(3) by blast
qed

text \<open>
  A market maker in a market that client 2 has made: the exchange has taken the four orders, the engine has
  seen the updates and asked for its two quotes.
\<close>

lemma demo_asked_ok:
  obtains e resps e' resps' us where "ae_requests (\<lambda>_. empty_abook) demo_orders = (e, resps, demo_quotes)"
    "ae_oks e demo_asked" "ae_room e demo_asked" "ae_requests e demo_asked = (e', resps', us)" "length resps' = 2" "length us = 2"
    "own_view 1 (ab_side (e' 1) BUY) = [(1, 100, 10)]"
  by (simp add: abook_eval demo_quotes_def demo_quote_def demo_asked_def ae_ok_def request_ok_def add_ok_def ab_orders_def is_order_def
      price_apart_def priceToIndex_def levels_def ME_MAX_TICKERS_def ME_MAX_NUM_CLIENTS_def ME_MAX_ORDER_IDS_def
      ME_MAX_PRICE_LEVELS_def own_view_def)

lemma demo_made_engine:
  assumes "ae_requests (\<lambda>_. empty_abook) demo_orders = (e, resps, us)"
  obtains eng where "eng_rep eng e" "eng_run eng" "eng_queues eng = empty_queues"
proof -
  let ?eng = "start (MatchingEngine_new (\<lambda>_ _ _. None) (\<lambda>_ _. None) (q_pushes (LFQueue_new 8 MEClientRequest_default) demo_orders) empty_queues)"
  have "eng_rep ?eng (\<lambda>_. empty_abook)" using eng_rep_new by (simp add: start_def eng_rep_def)
  with run_refines [of ?eng "\<lambda>_. empty_abook" demo_orders] q_pushes_contents [OF q_inv_new, of 8 MEClientRequest_default demo_orders]
    demo_orders_ok(2) assms obtain eng where "eng_rep eng e" "eng_run eng"
    by (auto simp: start_def MatchingEngine_new_def demo_orders_def)
  then show thesis using that [of "eng\<lparr>eng_queues := empty_queues\<rparr>"] by (simp add: eng_rep_def)
qed

lemma card_entries_updates:
  "view_wf v \<Longrightarrow> view_oks v us \<Longrightarrow> card (entries (foldl view_apply v us)) \<le> card (entries v) + length us"
proof (induction us arbitrary: v)
  case (Cons u us)
  then show ?case using Cons.IH [OF view_wf_apply [of v u]] card_entries_apply [of v u] by fastforce
qed simp

lemma demo_made_table:
  assumes "ae_requests (\<lambda>_. empty_abook) demo_orders = (e, resps, demo_quotes)"
  obtains ss where "ss_inv ss" "ss_view ss = eng_view e" "card (entries (ss_view ss)) \<le> 4"
proof -
  let ?ss = "SnapshotSynthesizer_new (q_pushes (LFQueue_new 8 \<lparr>mdp_seq_num = 0, mdp_me_market_update = MEMarketUpdate_default\<rparr>) (mdp_number 1 demo_quotes))"
  have rep: "view_oks (ss_view ?ss) demo_quotes" "foldl view_apply (ss_view ?ss) demo_quotes = eng_view e"
    using ae_requests_replay [OF eng_listed_new demo_orders_ok(2,3) assms] by (simp_all add: ss_view_new eng_view_new)
  have q: "q_inv (ss_md_updates ?ss)" "q_contents (ss_md_updates ?ss) = mdp_number (last_inc_seq_num ?ss + 1) demo_quotes"
    using q_pushes_contents [OF q_inv_new, of 8 "\<lparr>mdp_seq_num = 0, mdp_me_market_update = MEMarketUpdate_default\<rparr>" "mdp_number 1 demo_quotes"]
    by (simp_all add: SnapshotSynthesizer_new_def demo_quotes_def)
  have none: "entries (ss_view ?ss) = {}" by (simp add: ss_view_new entries_def)
  then have small: "card (entries (ss_view ?ss)) + length demo_quotes < ME_MAX_ORDER_IDS" by (simp add: demo_quotes_def ME_MAX_ORDER_IDS_def)
  from ss_updates_ok [OF ss_inv_new q _ rep(1) small, of 4] obtain ss where
    "ss_inv ss" "ss_view ss = foldl view_apply (ss_view ?ss) demo_quotes" by (auto simp: demo_quotes_def)
  moreover have "card (entries (foldl view_apply (ss_view ?ss) demo_quotes)) \<le> 4"
    using card_entries_updates [OF _ rep(1)] none by (simp add: view_wf_def ss_view_new demo_quotes_def)
  ultimately show thesis using that [of ss] rep(2) by simp
qed

text \<open>C1: The whole ecosystem works. When the components are in step and the requests that the trade
  engine has sent are ones the books can take, at moderate prices, in the order in which the sequencer's
  sort leaves them, and everything fits the queues and buffers, then a round (the requests go to the
  matching engine, its responses and its market updates come back, and the trade engine handles both and
  sends new requests) ends without a fault in any component, and the components are in step again:
  the books of the client are those of the exchange after the requests, the sequence numbers of both
  directions and of the market data agree, the trade engine is in a state of the closed system, its
  positions are within their limits, and no more of its orders rests at the exchange than it counts as open.\<close>

theorem ecosystem_works:
  assumes "world_in_step F client_id algo_type ticker_cfg s k w e" and "algo_type \<in> {MAKER, TAKER}" and "modest ticker_cfg"
    and "q_contents (outgoing_requests (of_gateway (w_flow w))) = rs" and "\<forall>r\<in>set rs. plain_price (rq_price r)"
    and "\<forall>xs. mset (srt xs) = mset xs" and "rs' = map rt_request (srt (map (\<lambda>r. \<lparr>recv_time = t, rt_request = r\<rparr>) rs))"
    and "ae_oks e rs'" and "ae_room e rs'" and "ae_requests e rs' = (e', resps, us)"
    and "whole_fits w taken (length rs) (length resps) (length us)" and "k + 2 * length us + 1 < 2 ^ 64"
  shows "\<exists>w' now' k'. whole_round F srt s t t' taken now w = Inr (w', now') \<and> mset rs' = mset rs \<and>
    world_in_step F client_id algo_type ticker_cfg s k' w' e' \<and> k' \<le> k + 2 * length us \<and>
    client_mirrors (te_order_book (w_trader w')) e' \<and>
    (\<forall>i<ME_MAX_TICKERS. \<bar>sint (position (position_keeper (w_trader w') i))\<bar> \<le> sint (max_position (risk_cfg (ticker_cfg i))) \<and>
       (\<forall>d\<in>{BUY, SELL}. resting_qty client_id (ab_side (e' i) d) \<le> exposure (slot (order_manager (w_trader w')) i d)))"
proof -
  from whole_round_ok [OF assms(1-11), of t' now] assms(12) obtain w' now' n where
    w': "whole_round F srt s t t' taken now w = Inr (w', now')" "mset rs' = mset rs" "n \<le> 2 * length us"
    "world_in_step F client_id algo_type ticker_cfg s (k + n) w' e'" by auto
  then obtain c where c: "closed_system F client_id algo_type ticker_cfg c" "ce_engine c = w_trader w'" "ce_books c = e'" "ce_sent c = k + n"
    and "client_mirrors (te_order_book (w_trader w')) e'"
    by (auto simp: world_in_step_def trader_ready_def Let_def)
  moreover have few: "ce_sent c + 1 < 2 ^ 64" using c(4) w'(3) assms(12) by simp
  moreover have "\<bar>sint (position (position_keeper (w_trader w') i))\<bar> \<le> sint (max_position (risk_cfg (ticker_cfg i)))"
    if "i < ME_MAX_TICKERS" for i
    using closed_limits(1) [OF c(1) assms(2) modest_ok [OF assms(3)] few that] exposure_nonneg [of "slot (order_manager (w_trader w')) i BUY"]
      exposure_nonneg [of "slot (order_manager (w_trader w')) i SELL"] unfolding c(2) limits_at_def by linarith
  ultimately show ?thesis using w' closed_limits(2) [OF c(1) assms(2) modest_ok [OF assms(3)] few] unfolding c(2,3) by (metis add_le_cancel_left)
qed

definition demo_world :: "SnapshotSynthesizer \<Rightarrow> MatchingEngine \<Rightarrow> exact TradeEngine \<Rightarrow> exact world" where
  "demo_world ss eng te =
     \<lparr>w_flow = \<lparr>of_gateway = OrderGateway_new 1 (q_pushes (LFQueue_new 8 MEClientRequest_default) demo_asked) (LFQueue_new 8 MEClientResponse_default),
        of_server = (OrderServer_new 0 (LFQueue_new 8 MEClientRequest_default) (LFQueue_new 8 MEClientResponse_default))
          \<lparr>receive_sockets := [5, 6], cid_tcp_socket := (\<lambda>_. None)(2 := Some 6)\<rparr>,
        of_engine = eng\<rparr>,
      w_publisher = (MarketDataPublisher_new (LFQueue_new 8 MEMarketUpdate_default))\<lparr>next_inc_seq_num := last_inc_seq_num ss + 1\<rparr>,
      w_synthesizer = ss,
      w_consumer = (MarketDataConsumer_new (LFQueue_new 8 MEMarketUpdate_default))\<lparr>next_exp_inc_seq_num := last_inc_seq_num ss + 1\<rparr>,
      w_trader = te\<rparr>"


lemma demo_world_ready:
  assumes "ae_requests (\<lambda>_. empty_abook) demo_orders = (e, resps, demo_quotes)"
  obtains te where "trader_ready exact_ops 1 MAKER (\<lambda>_. demo_cfg) 2 te demo_asked e" "q_capacity (TradeEngine.incoming_md_updates te) = 8"
proof -
  let ?te = "demo_maker_engine"
  let ?c = "\<lparr>ce_engine = ?te, ce_books = (\<lambda>_. empty_abook), ce_requests = [], ce_responses = [], ce_sent = 0\<rparr>"
  have "\<forall>m\<in>set resps. cr_client_id m = 2"
    using requests_responses [OF assms demo_orders_ok(2), of "\<lambda>d. d = 2" "\<lambda>_. True"]
    by (simp add: orders_of_def ab_orders_def empty_abook_def demo_orders_def demo_request_def)
  then have none: "responses_for 1 resps = []" by (simp add: responses_for_def filter_empty_conv)
  have start: "closed_system exact_ops 1 MAKER (\<lambda>_. demo_cfg) ?c" by (rule demo_start)
  from others_taken [OF start, of demo_orders e resps demo_quotes] demo_orders_ok(2) assms none
  have c: "closed_system exact_ops 1 MAKER (\<lambda>_. demo_cfg) (?c\<lparr>ce_books := e\<rparr>)" by (simp add: demo_orders_def demo_request_def)
  have b: "te_order_book ?te = empty_books" by (simp add: demo_engine_defs empty_books_def fun_eq_iff)
  have "\<forall>t<ME_MAX_TICKERS. calm_book (te_order_book ?te t)" unfolding calm_book_def b quoted_new by (simp add: small_price_def)
  moreover have "modest (\<lambda>_. demo_cfg)" by (simp add: modest_def demo_cfg_def sint_small)
  moreover have "prices_in plain_price (\<lambda>_. empty_abook)" "\<forall>r\<in>set demo_orders. plain_price (rq_price r)"
    by (simp_all add: prices_in_def ab_orders_def empty_abook_def demo_orders_def demo_request_def plain_price_def)
  moreover have "q_inv (outgoing_ogw_requests ?te)" "q_contents (outgoing_ogw_requests ?te) = []" "2 * length demo_quotes \<le> q_capacity (outgoing_ogw_requests ?te)"
    by (simp_all add: demo_engine_defs q_inv_new demo_quotes_def)
  ultimately obtain te' now' where t: "te_run_step exact_ops (\<lambda>_. 0) ?te = Inr (te', now')"
    "trader_ready exact_ops 1 MAKER (\<lambda>_. demo_cfg) (q_length (outgoing_ogw_requests te')) te' (q_contents (outgoing_ogw_requests te')) e"
    using turn_after [OF c, of ?te e 0 "\<lambda>_. empty_abook" demo_orders resps demo_quotes "outgoing_ogw_requests ?te"
        "incoming_ogw_responses ?te" "TradeEngine.incoming_md_updates ?te" "\<lambda>_. 0"]
      demo_orders_ok(2,3) assms demo_maker_queues eng_listed_new client_mirrors_new b by auto
  moreover from demo_pass t(1) have "q_length (outgoing_ogw_requests te') = 2" "q_contents (outgoing_ogw_requests te') = demo_asked"
    "q_capacity (TradeEngine.incoming_md_updates te') = 8" by auto
  ultimately show thesis using that by simp
qed

lemma demo_world_in_step:
  assumes "ae_requests (\<lambda>_. empty_abook) demo_orders = (e, resps, demo_quotes)" and "ss_inv ss" and "ss_view ss = eng_view e"
    and "eng_rep eng e" and "eng_run eng" and "eng_queues eng = empty_queues"
    and "trader_ready exact_ops 1 MAKER (\<lambda>_. demo_cfg) 2 te demo_asked e"
  shows "world_in_step exact_ops 1 MAKER (\<lambda>_. demo_cfg) 5 2 (demo_world ss eng te) e"
proof -
  let ?os = "of_server (w_flow (demo_world ss eng te))"
  have "orders_of (can_answer ?os 5 1) price_ok e"
    using requests_responses [OF assms(1) demo_orders_ok(2), of "can_answer ?os 5 1" price_ok]
    by (simp add: orders_of_def ab_orders_def empty_abook_def demo_orders_def demo_request_def can_answer_def demo_world_def
        ME_MAX_NUM_CLIENTS_def price_ok_def)
  then have "linked 5 (w_flow (demo_world ss eng te)) e"
    using assms(4,5) q_pushes_contents [OF q_inv_new, of 8 MEClientRequest_default demo_asked]
    by (simp add: linked_def demo_world_def OrderGateway_new_def OrderServer_new_def flushed_def FIFOSequencer_new_def TCPSocket_new_def
        ME_MAX_NUM_CLIENTS_def q_inv_new demo_asked_def)
  moreover have "prices_in plain_price e"
    using requests_prices [OF assms(1) demo_orders_ok(2), of plain_price]
    by (simp add: prices_in_def ab_orders_def empty_abook_def demo_orders_def demo_request_def plain_price_def)
  moreover have "eng_listed e" using ae_requests_replay [OF eng_listed_new demo_orders_ok(2,3) assms(1)] by simp
  ultimately show ?thesis
    using assms(2,3,6,7) q_pushes_contents [OF q_inv_new, of 8 MEClientRequest_default demo_asked]
    by (simp add: world_in_step_def demo_world_def OrderGateway_new_def publishing_def MarketDataPublisher_new_def McastSocket_new_def
        consumer_ready_def MarketDataConsumer_new_def empty_queues_def q_inv_new demo_asked_def ME_MAX_MARKET_UPDATES_def)
qed

theorem ecosystem_works_witness:
  "\<exists>w e w' now' e' resps us k'. ae_requests e demo_asked = (e', resps, us) \<and>
    whole_round exact_ops (sort_key recv_time) 5 7 8 100 (\<lambda>_. 0) w = Inr (w', now') \<and>
    world_in_step exact_ops 1 MAKER (\<lambda>_. demo_cfg) 5 k' w' e' \<and> own_view 1 (ab_side (e' 1) BUY) = [(1, 100, 10)]"
proof -
  obtain e resps e' resps' us where r: "ae_requests (\<lambda>_. empty_abook) demo_orders = (e, resps, demo_quotes)"
    and ok: "ae_oks e demo_asked" "ae_room e demo_asked" "ae_requests e demo_asked = (e', resps', us)" "length resps' = 2" "length us = 2"
    and quoted: "own_view 1 (ab_side (e' 1) BUY) = [(1, 100, 10)]" by (rule demo_asked_ok)
  obtain eng where eng: "eng_rep eng e" "eng_run eng" "eng_queues eng = empty_queues" by (rule demo_made_engine [OF r])
  obtain ss where ss: "ss_inv ss" "ss_view ss = eng_view e" "card (entries (ss_view ss)) \<le> 4" by (rule demo_made_table [OF r])
  obtain te where te: "trader_ready exact_ops 1 MAKER (\<lambda>_. demo_cfg) 2 te demo_asked e" "q_capacity (TradeEngine.incoming_md_updates te) = 8"
    by (rule demo_world_ready [OF r])
  let ?w = "demo_world ss eng te"
  have w: "world_in_step exact_ops 1 MAKER (\<lambda>_. demo_cfg) 5 2 ?w e" by (rule demo_world_in_step [OF r ss(1,2) eng te(1)])
  have q: "q_contents (outgoing_requests (of_gateway (w_flow ?w))) = demo_asked"
    using q_pushes_contents [OF q_inv_new, of 8 MEClientRequest_default demo_asked]
    by (simp add: demo_world_def OrderGateway_new_def demo_asked_def)
  have fits: "whole_fits ?w 100 (length demo_asked) (length resps') (length us)"
    using ok(4,5) ss(3) te(2) eng(3) q_pushes_contents [OF q_inv_new, of 8 MEClientRequest_default demo_asked]
    by (simp add: whole_fits_def publish_fits_def demo_world_def OrderGateway_new_def OrderServer_new_def MarketDataPublisher_new_def
        empty_queues_def demo_asked_def ME_MAX_PENDING_REQUESTS_def TCPBufferSize_def ME_MAX_MARKET_UPDATES_def McastBufferSize_def
        ME_MAX_ORDER_IDS_def)
  have "modest (\<lambda>_. demo_cfg)" "\<forall>r\<in>set demo_asked. plain_price (rq_price r)"
    "demo_asked = map rt_request (sort_key recv_time (map (\<lambda>r. \<lparr>recv_time = 7, rt_request = r\<rparr>) demo_asked))"
    by (simp_all add: modest_def demo_cfg_def sint_small demo_asked_def demo_request_def plain_price_def)
  with ecosystem_works [OF w _ _ q _ _ _ ok(1-3) fits, of "sort_key recv_time" 7 8 "\<lambda>_. 0"] ok(3,5) quoted show ?thesis by fastforce
qed

end
