(* ===== verification/Start_Up.thy ===== *)
theory Start_Up
  imports Programs Whole_Round
begin

text \<open>
  From the start of both programs to the first round: what \<^verbatim>\<open>src/exchange/exchange_main.cpp\<close> and
  \<^verbatim>\<open>src/trading/trading_main.cpp\<close> set up is the whole ecosystem in step, once the order server
  has accepted the connection of the order gateway.
\<close>

text \<open>The listener has a connection waiting, which gets the socket \<open>s\<close>.\<close>

definition connection :: "OrderServer \<Rightarrow> epoll_event" where
  "connection os = \<lparr>ev_socket = listener_socket os, ev_in = True, ev_out = False, ev_err = False\<rparr>"

definition started_world :: "nat \<Rightarrow> exchange \<Rightarrow> 'f trading \<Rightarrow> 'f world" where
  "started_world s ex tr =
     \<lparr>w_flow = \<lparr>of_gateway = tr_gateway tr, of_server = poll (ex_server ex) [connection (ex_server ex)] [s], of_engine = ex_engine ex\<rparr>,
      w_publisher = ex_publisher ex, w_synthesizer = ex_synthesizer ex, w_consumer = tr_consumer tr, w_trader = tr_engine tr\<rparr>"

text \<open>The components that come up.\<close>

lemma exchange_comes_up:
  assumes "exchange_main K lib cid_oid_mem price_mem listener h = Inr (ex, h1)"
  shows "ex_server ex = (OrderServer_new listener (LFQueue_new ME_MAX_CLIENT_UPDATES MEClientRequest_default)
      (LFQueue_new ME_MAX_CLIENT_UPDATES MEClientResponse_default))\<lparr>os_run := True\<rparr>"
  using assms by (auto simp: exchange_main_def publisher_create_def server_start_def Let_def result_simps mdp_start_def
      os_start_def listen_def)

lemma client_comes_up:
  assumes "trading_main_start F atof K lib oid_mem price_mem vwap_mem now argv g = Inr (tr, g1)" and "trading_arguments F atof argv = Inr args"
  shows "tr_gateway tr = (OrderGateway_new (arg_client_id args) (LFQueue_new ME_MAX_CLIENT_UPDATES MEClientRequest_default)
      (LFQueue_new ME_MAX_CLIENT_UPDATES MEClientResponse_default))\<lparr>og_run := True\<rparr>"
    and "tr_engine tr = initLastEventTime now (te_start (TradeEngine_new F oid_mem price_mem vwap_mem (arg_client_id args) (arg_algo_type args)
      (arg_ticker_cfg args) (LFQueue_new ME_MAX_CLIENT_UPDATES MEClientRequest_default)
      (LFQueue_new ME_MAX_CLIENT_UPDATES MEClientResponse_default) (LFQueue_new ME_MAX_MARKET_UPDATES MEMarketUpdate_default)))"
  using assms by (auto simp: trading_main_start_def consumer_create_def gateway_start_def og_start_def Let_def result_simps)

lemma started_linked:
  assumes "exchange_main K lib (\<lambda>_ _ _. None) (\<lambda>_ _. None) listener h = Inr (ex, h1)"
    and "trading_main_start F atof K' lib' (\<lambda>_ _. None) (\<lambda>_ _. None) vwap_mem now argv g = Inr (tr, g1)"
    and "trading_arguments F atof argv = Inr args" and "unat (arg_client_id args) < ME_MAX_NUM_CLIENTS"
    and "eng_rep (ex_engine ex) (\<lambda>_. empty_abook)" and "eng_run (ex_engine ex)"
  shows "linked s (w_flow (started_world s ex tr)) (\<lambda>_. empty_abook)"
proof -
  have "q_inv (LFQueue_new ME_MAX_CLIENT_UPDATES MEClientRequest_default)" "q_inv (LFQueue_new ME_MAX_CLIENT_UPDATES MEClientResponse_default)"
    by (rule q_inv_new, simp add: ME_MAX_CLIENT_UPDATES_def)+
  then show ?thesis using assms(4-6)
    by (simp add: linked_def started_world_def exchange_comes_up [OF assms(1)] client_comes_up(1) [OF assms(2,3)] OrderServer_new_def
        OrderGateway_new_def flushed_def FIFOSequencer_new_def TCPSocket_new_def orders_of_def empty_abook_def ab_orders_def
        poll_def poll_event_def accept_socket_def connection_def push_once_def Let_def)
qed

text \<open>C11: The two programs fit together. Whenever both programs come up, whatever the operating system
  answered on the way, on memory that is zero, with a client id within the tables and the limits of the
  command line modest, and the order server accepts the connection of the client's gateway, the whole
  ecosystem is in step with empty books and no request on its way: the first round can begin.\<close>

theorem programs_start_in_step:
  assumes "exchange_main K lib (\<lambda>_ _ _. None) (\<lambda>_ _. None) listener h = Inr (ex, h1)"
    and "trading_main_start F atof K' lib' (\<lambda>_ _. None) (\<lambda>_ _. None) vwap_mem now argv g = Inr (tr, g1)"
    and "trading_arguments F atof argv = Inr args" and "unat (arg_client_id args) < ME_MAX_NUM_CLIENTS"
    and "modest (arg_ticker_cfg args)"
  shows "world_in_step F (arg_client_id args) (arg_algo_type args) (arg_ticker_cfg args) s 0 (started_world s ex tr) (\<lambda>_. empty_abook) \<and>
    q_contents (outgoing_requests (of_gateway (w_flow (started_world s ex tr)))) = []"
proof -
  note up = exchange_comes_up [OF assms(1)] client_comes_up [OF assms(2,3)]
  have cfg: "\<forall>t<ME_MAX_TICKERS. uint (max_order_size (risk_cfg (te_ticker_cfg (tr_engine tr) t))) \<le> 2 ^ 29"
    using assms(5) by (simp add: up(3) modest_def initLastEventTime_def te_start_def TradeEngine_new_def)
  let ?eco = "\<lparr>eco_engine = ex_engine ex, eco_publisher = ex_publisher ex, eco_synthesizer = ex_synthesizer ex,
       eco_consumer = tr_consumer tr, eco_trader = tr_engine tr\<rparr>"
  from in_sync_at_start [OF assms(1,2) cfg] have i: "in_sync ?eco (\<lambda>_. empty_abook)" by blast
  have "closed_system F (arg_client_id args) (arg_algo_type args) (arg_ticker_cfg args)
      \<lparr>ce_engine = tr_engine tr, ce_books = (\<lambda>_. empty_abook), ce_requests = [], ce_responses = [], ce_sent = 0\<rparr>"
    unfolding up(3) by (rule closed_system.start)
  then have "trader_ready F (arg_client_id args) (arg_algo_type args) (arg_ticker_cfg args) 0 (tr_engine tr) [] (\<lambda>_. empty_abook)"
    using i unfolding trader_ready_def in_sync_def calm_def
    by (intro conjI exI [of _ "\<lparr>ce_engine = tr_engine tr, ce_books = (\<lambda>_. empty_abook), ce_requests = [], ce_responses = [], ce_sent = 0\<rparr>"])
       simp_all
  moreover have "linked s (w_flow (started_world s ex tr)) (\<lambda>_. empty_abook)"
    by (rule started_linked [OF assms(1-4)]) (use i in \<open>simp_all add: in_sync_def in_step_def\<close>)
  ultimately show ?thesis using i
    by (simp add: world_in_step_def in_sync_def in_step_def started_world_def consumer_ready_def up(2) OrderGateway_new_def
        prices_in_def ab_orders_def empty_abook_def Let_def)
qed

theorem programs_start_in_step_witness:
  "\<exists>ex tr h1 g1. exchange_main demo_kernel demo_net (\<lambda>_ _ _. None) (\<lambda>_ _. None) 9 [] = Inr (ex, h1) \<and>
    trading_main_start exact_ops (\<lambda>_. Num 0) demo_kernel demo_net (\<lambda>_ _. None) (\<lambda>_ _. None) (\<lambda>_ _. Num 0) 5 demo_argv [] = Inr (tr, g1) \<and>
    (\<exists>algo. world_in_step exact_ops 1 algo (\<lambda>_. TradeEngineCfg_default exact_ops) 4 0 (started_world 4 ex tr) (\<lambda>_. empty_abook))"
proof -
  obtain ex h1 where e: "exchange_main demo_kernel demo_net (\<lambda>_ _ _. None) (\<lambda>_ _. None) 9 [] = Inr (ex, h1)"
    using demo_exchange by blast
  obtain tr g1 where t: "trading_main_start exact_ops (\<lambda>_. Num 0) demo_kernel demo_net (\<lambda>_ _. None) (\<lambda>_ _. None) (\<lambda>_ _. Num 0) 5 demo_argv [] = Inr (tr, g1)"
    using demo_client by blast
  obtain args where a: "trading_arguments exact_ops (\<lambda>_. Num 0) demo_argv = Inr args" "arg_client_id args = 1"
    "arg_ticker_cfg args = (\<lambda>_. TradeEngineCfg_default exact_ops)" using demo_arguments by blast
  have "modest (arg_ticker_cfg args)" by (simp add: a(3) modest_def TradeEngineCfg_default_def)
  from programs_start_in_step [OF e t a(1) _ this, of 4] e t a(2,3) show ?thesis by (auto simp: ME_MAX_NUM_CLIENTS_def)
qed

end
