(* ===== verification/Book_Printing.thy ===== *)
theory Book_Printing
  imports Client_BBO
begin

text \<open>
  The printing of the books: \<^verbatim>\<open>toString\<close> of \<^verbatim>\<open>src/exchange/matcher/me_order_book.cpp\<close>,
  \<^verbatim>\<open>me_order.cpp\<close> and \<^verbatim>\<open>me_order.h\<close>, and of their counterparts for the client's book,
  \<^verbatim>\<open>src/trading/strategy/market_order_book.cpp\<close>, \<^verbatim>\<open>market_order.cpp\<close> and
  \<^verbatim>\<open>market_order.h\<close>. The functions walk the rings of levels and orders, format every line in a
  buffer of 4096 characters and, on request, check that the levels are sorted.
\<close>

section \<open>Formatting\<close>

text \<open>The conversions \<^verbatim>\<open>%Ns\<close> and \<^verbatim>\<open>%-Ns\<close> of \<^verbatim>\<open>sprintf\<close>, and its buffer with the terminator.\<close>

definition pad_left :: "nat \<Rightarrow> string \<Rightarrow> string" where
  "pad_left n s = replicate (n - length s) CHR '' '' @ s"

definition pad_right :: "nat \<Rightarrow> string \<Rightarrow> string" where
  "pad_right n s = s @ replicate (n - length s) CHR '' ''"

definition into_buffer :: "string \<Rightarrow> string result" where
  "into_buffer s = (if length s < 4096 then Inr s else Inl Bad_index)"

definition endl :: string where "endl = [CHR 0x0A]"

definition Price_MIN :: Price where "Price_MIN = - (2 ^ 63)"

section \<open>Orders and levels of the exchange\<close>

definition id_of :: "MEOrder MemPool \<Rightarrow> pointer \<Rightarrow> OrderId" where
  "id_of op p = (case p of None \<Rightarrow> OrderId_INVALID | Some q \<Rightarrow> me_market_order_id (mp_obj op q))"

definition MEOrder_toString :: "MEOrder MemPool \<Rightarrow> MEOrder \<Rightarrow> string" where
  "MEOrder_toString op x =
     ''MEOrder'' @ ''['' @ ''ticker:'' @ tickerIdToString (me_ticker_id x) @ '' '' @
     ''cid:'' @ clientIdToString (me_client_id x) @ '' '' @ ''oid:'' @ orderIdToString (me_client_order_id x) @ '' '' @
     ''moid:'' @ orderIdToString (me_market_order_id x) @ '' '' @ ''side:'' @ sideToString (me_side x) @ '' '' @
     ''price:'' @ priceToString (me_price x) @ '' '' @ ''qty:'' @ qtyToString (me_qty x) @ '' '' @
     ''prio:'' @ priorityToString (me_priority x) @ '' '' @
     ''prev:'' @ orderIdToString (id_of op (me_prev_order x)) @ '' '' @
     ''next:'' @ orderIdToString (id_of op (me_next_order x)) @ '']''"

definition price_of :: "MEOrdersAtPrice MemPool \<Rightarrow> pointer \<Rightarrow> Price" where
  "price_of lp p = (case p of None \<Rightarrow> Price_INVALID | Some q \<Rightarrow> oap_price (mp_obj lp q))"

definition MEOrdersAtPrice_toString :: "MEOrder MemPool \<Rightarrow> MEOrdersAtPrice MemPool \<Rightarrow> MEOrdersAtPrice \<Rightarrow> string" where
  "MEOrdersAtPrice_toString op lp l =
     ''MEOrdersAtPrice['' @ ''side:'' @ sideToString (oap_side l) @ '' '' @ ''price:'' @ priceToString (oap_price l) @ '' '' @
     ''first_me_order:'' @ (case oap_first_me_order l of None \<Rightarrow> ''null'' | Some p \<Rightarrow> MEOrder_toString op (mp_obj op p)) @ '' '' @
     ''prev:'' @ priceToString (price_of lp (oap_prev_entry l)) @ '' '' @
     ''next:'' @ priceToString (price_of lp (oap_next_entry l)) @ '']''"

section \<open>The exchange's book\<close>

text \<open>The two loops of \<^verbatim>\<open>printer\<close> over the orders of a level; both end at the one before the first.\<close>

fun print_sum :: "nat \<Rightarrow> MEOrder MemPool \<Rightarrow> pointer \<Rightarrow> pointer \<Rightarrow> Qty \<Rightarrow> nat \<Rightarrow> (Qty \<times> nat) result" where
  "print_sum fuel op first itr qty num_orders =
     andThen (not_null itr) (\<lambda>p.
     let qty1 = qty + me_qty (mp_obj op p); num1 = num_orders + 1 in
     if me_next_order (mp_obj op p) = first then Inr (qty1, num1)
     else if fuel = 0 then Inl Diverges
     else print_sum (fuel - 1) op first (me_next_order (mp_obj op p)) qty1 num1)"

declare print_sum.simps [simp del]

definition order_text :: "OrderId \<Rightarrow> Qty \<Rightarrow> OrderId \<Rightarrow> OrderId \<Rightarrow> string" where
  "order_text oid qty prev_id next_id =
     ''[oid:'' @ orderIdToString oid @ '' q:'' @ qtyToString qty @ '' p:'' @ orderIdToString prev_id @
     '' n:'' @ orderIdToString next_id @ ''] ''"

fun print_details :: "nat \<Rightarrow> MEOrder MemPool \<Rightarrow> bool \<Rightarrow> pointer \<Rightarrow> pointer \<Rightarrow> string \<Rightarrow> string result" where
  "print_details fuel op detailed first itr ss =
     andThen (not_null itr) (\<lambda>p.
     let x = mp_obj op p in
     andThen (if detailed
              then andThen (into_buffer (order_text (me_market_order_id x) (me_qty x)
                (id_of op (me_prev_order x)) (id_of op (me_next_order x)))) (\<lambda>buf. Inr (ss @ buf))
              else Inr ss) (\<lambda>ss1.
     if me_next_order x = first then Inr ss1
     else if fuel = 0 then Inl Diverges
     else print_details (fuel - 1) op detailed first (me_next_order x) ss1))"

declare print_details.simps [simp del]

definition level_text :: "Price \<Rightarrow> Price \<Rightarrow> Price \<Rightarrow> Qty \<Rightarrow> nat \<Rightarrow> string" where
  "level_text price prev_price next_price qty num_orders =
     '' <px:'' @ pad_left 3 (priceToString price) @ '' p:'' @ pad_left 3 (priceToString prev_price) @
     '' n:'' @ pad_left 3 (priceToString next_price) @ ''> '' @ pad_right 3 (priceToString price) @ '' @ '' @
     pad_right 5 (qtyToString qty) @ ''('' @ pad_right 4 (nat_to_string num_orders) @ '')''"

definition unsorted :: "Side \<Rightarrow> Price \<Rightarrow> Price \<Rightarrow> bool" where
  "unsorted side last_price price \<longleftrightarrow> (side = SELL \<and> last_price \<ge> price) \<or> (side = BUY \<and> last_price \<le> price)"

text \<open>The lambda \<^verbatim>\<open>printer\<close>: what it writes, and the new value of \<^verbatim>\<open>last_price\<close>.\<close>

definition printer :: "MEOrderBook \<Rightarrow> bool \<Rightarrow> nat \<Rightarrow> Side \<Rightarrow> Price \<Rightarrow> bool \<Rightarrow> (string \<times> Price) result" where
  "printer bk detailed l side last_price sanity_check =
     (let lp = ob_orders_at_price_pool bk; op = ob_order_pool bk; itr = mp_obj lp l; first = oap_first_me_order itr in
      andThen (print_sum (mp_size op) op first first 0 0) (\<lambda>(qty, num_orders).
      andThen (not_null (oap_prev_entry itr)) (\<lambda>p.
      andThen (not_null (oap_next_entry itr)) (\<lambda>n.
      andThen (into_buffer (level_text (oap_price itr) (oap_price (mp_obj lp p)) (oap_price (mp_obj lp n)) qty num_orders)) (\<lambda>buf.
      andThen (print_details (mp_size op) op detailed first first buf) (\<lambda>ss.
      if sanity_check then
        if unsorted side last_price (oap_price itr)
        then FATAL (''Bids/Asks not sorted by ascending/descending prices last:'' @ priceToString last_price @
          '' itr:'' @ MEOrdersAtPrice_toString op lp itr)
        else Inr (ss @ endl, oap_price itr)
      else Inr (ss @ endl, last_price)))))))"

fun print_side :: "nat \<Rightarrow> MEOrderBook \<Rightarrow> bool \<Rightarrow> bool \<Rightarrow> Side \<Rightarrow> string \<Rightarrow> pointer \<Rightarrow> nat \<Rightarrow> Price \<Rightarrow> string \<Rightarrow> string result" where
  "print_side fuel bk detailed validity_check side name itr count last_price ss =
     (case itr of
        None \<Rightarrow> Inr ss
      | Some l \<Rightarrow>
          if fuel = 0 then Inl Diverges
          else
            let entry_after = oap_next_entry (mp_obj (ob_orders_at_price_pool bk) l);
                next_itr = (if entry_after = side_head bk side then None else entry_after) in
            andThen (printer bk detailed l side last_price validity_check) (\<lambda>(line, last_price1).
            print_side (fuel - 1) bk detailed validity_check side name next_itr (count + 1) last_price1
              (ss @ name @ '' L:'' @ nat_to_string count @ '' => '' @ line)))"

declare print_side.simps [simp del]

definition MEOrderBook_toString :: "MEOrderBook \<Rightarrow> bool \<Rightarrow> bool \<Rightarrow> string result" where
  "MEOrderBook_toString bk detailed validity_check =
     (let fuel = mp_size (ob_orders_at_price_pool bk) in
      andThen (print_side fuel bk detailed validity_check SELL ''ASKS'' (ob_asks_by_price bk) 0 Price_MIN
        (''Ticker:'' @ tickerIdToString (ob_ticker_id bk) @ endl)) (\<lambda>ss.
      print_side fuel bk detailed validity_check BUY ''BIDS'' (ob_bids_by_price bk) 0 Price_INVALID
        (ss @ endl @ ''                          X'' @ endl @ endl)))"

section \<open>The text of a book\<close>

text \<open>The levels of a side, from its orders in their order.\<close>

function by_price :: "MEOrder list \<Rightarrow> (Price \<times> MEOrder list) list" where
  "by_price [] = []"
| "by_price (x # xs) =
     (me_price x, x # takeWhile (\<lambda>y. me_price y = me_price x) xs) # by_price (dropWhile (\<lambda>y. me_price y = me_price x) xs)"
  by pat_completeness auto
termination
  by (relation "measure length") (simp_all add: le_imp_less_Suc length_dropWhile_le)

text \<open>The neighbours in a ring: the list turned by one, either way.\<close>

definition befores :: "'a list \<Rightarrow> 'a list" where
  "befores xs = (if xs = [] then [] else last xs # butlast xs)"

definition afters :: "'a list \<Rightarrow> 'a list" where
  "afters xs = (if xs = [] then [] else tl xs @ [hd xs])"

definition orders_text :: "MEOrder list \<Rightarrow> string" where
  "orders_text xs = concat (map (\<lambda>(x, y, z). order_text (me_market_order_id x) (me_qty x) (me_market_order_id y) (me_market_order_id z))
     (zip xs (zip (befores xs) (afters xs))))"

definition line_body :: "bool \<Rightarrow> Price \<times> MEOrder list \<Rightarrow> Price \<Rightarrow> Price \<Rightarrow> string" where
  "line_body detailed lv prev_price next_price =
     level_text (fst lv) prev_price next_price (sum_list (map me_qty (snd lv))) (length (snd lv)) @
     (if detailed then orders_text (snd lv) else []) @ endl"

definition line_text :: "bool \<Rightarrow> string \<Rightarrow> nat \<Rightarrow> Price \<times> MEOrder list \<Rightarrow> Price \<Rightarrow> Price \<Rightarrow> string" where
  "line_text detailed name k lv prev_price next_price =
     name @ '' L:'' @ nat_to_string k @ '' => '' @ line_body detailed lv prev_price next_price"

definition side_text :: "bool \<Rightarrow> string \<Rightarrow> (Price \<times> MEOrder list) list \<Rightarrow> string" where
  "side_text detailed name ls =
     concat (map (\<lambda>(k, lv, p, n). line_text detailed name k lv (fst p) (fst n)) (zip [0..<length ls] (zip ls (zip (befores ls) (afters ls)))))"

definition book_text :: "bool \<Rightarrow> TickerId \<Rightarrow> abook \<Rightarrow> string" where
  "book_text detailed tid b =
     ''Ticker:'' @ tickerIdToString tid @ endl @ side_text detailed ''ASKS'' (by_price (ab_asks b)) @
     endl @ ''                          X'' @ endl @ endl @ side_text detailed ''BIDS'' (by_price (ab_bids b))"

section \<open>Lengths\<close>

lemma length_nat_to_string: "0 < k \<Longrightarrow> n < 10 ^ k \<Longrightarrow> length (nat_to_string n) \<le> k"
proof (induction k arbitrary: n)
  case (Suc k)
  show ?case
  proof (cases "n < 10")
    case True
    then show ?thesis by (simp add: nat_to_string.simps)
  next
    case False
    then have "0 < k" using Suc.prems by (cases k) auto
    moreover have "n div 10 < 10 ^ k" using Suc.prems by (simp add: less_mult_imp_div_less mult.commute)
    ultimately show ?thesis using Suc.IH [of "n div 10"] False by (subst nat_to_string.simps) simp
  qed
qed simp

lemma length_strings:
  "length (orderIdToString i) \<le> 20" "length (qtyToString q) \<le> 20" "length (tickerIdToString t) \<le> 20"
proof -
  have "unat i < 10 ^ 20" "unat q < 10 ^ 20" "unat t < 10 ^ 20"
    using unsigned_less [of i, where 'a = nat] unsigned_less [of q, where 'a = nat] unsigned_less [of t, where 'a = nat] by simp_all
  then have "length (nat_to_string (unat i)) \<le> 20" "length (nat_to_string (unat q)) \<le> 20" "length (nat_to_string (unat t)) \<le> 20"
    by (simp_all add: length_nat_to_string)
  then show "length (orderIdToString i) \<le> 20" "length (qtyToString q) \<le> 20" "length (tickerIdToString t) \<le> 20"
    by (simp_all add: orderIdToString_def qtyToString_def tickerIdToString_def)
qed

lemma length_price: "price_ok p \<Longrightarrow> length (priceToString p) \<le> 21"
proof -
  assume p: "price_ok p"
  then have "nat (- p) < 10 ^ 20" "nat p < 10 ^ 20" by (auto simp: price_ok_def nat_less_iff)
  then have "length (nat_to_string (nat (- p))) \<le> 20" "length (nat_to_string (nat p)) \<le> 20"
    by (simp_all add: length_nat_to_string)
  then show ?thesis by (simp add: priceToString_def int_to_string_def)
qed

lemma order_text_fits: "into_buffer (order_text i q j k) = Inr (order_text i q j k)"
  using length_strings(1) [of i] length_strings(1) [of j] length_strings(1) [of k] length_strings(2) [of q]
  by (simp add: into_buffer_def order_text_def)

lemma level_text_fits:
  assumes "price_ok p" and "price_ok p'" and "price_ok p''" and "n < 10 ^ 20"
  shows "into_buffer (level_text p p' p'' q n) = Inr (level_text p p' p'' q n)"
  using assms(1-3) [THEN length_price] length_strings(2) [of q] length_nat_to_string [OF _ assms(4)]
  by (simp add: into_buffer_def level_text_def pad_left_def pad_right_def)

section \<open>Rings\<close>

lemma linked_maps:
  "linked nx pv xs \<Longrightarrow> map nx (butlast xs) = map Some (tl xs) \<and> map pv (tl xs) = map Some (butlast xs)"
  by (induction nx pv xs rule: linked.induct) auto

lemma ring_maps:
  assumes "ring nx pv xs"
  shows "map nx xs = map Some (afters xs)" "map pv xs = map Some (befores xs)"
proof -
  have ne: "xs \<noteq> []" and l: "linked nx pv (xs @ [hd xs])" using assms by (simp_all add: ring_def)
  from linked_maps [OF l] ne show "map nx xs = map Some (afters xs)" by (simp add: afters_def)
  from linked_maps [OF l] ne have m: "map pv (tl xs @ [hd xs]) = map Some xs" by simp
  then have "map pv (tl xs) = map Some (butlast xs)" "pv (hd xs) = Some (last xs)"
    using ne by (metis append_butlast_last_id butlast_snoc map_butlast, metis last_map last_snoc snoc_eq_iff_butlast)
  then show "map pv xs = map Some (befores xs)" using ne by (cases xs) (simp_all add: befores_def)
qed

lemma length_turned [simp]: "length (befores xs) = length xs" "length (afters xs) = length xs"
  by (simp_all add: befores_def afters_def)

lemma map_turned [simp]: "befores (map f xs) = map f (befores xs)" "afters (map f xs) = map f (afters xs)"
  by (simp_all add: befores_def afters_def last_map map_butlast hd_map map_tl)

lemma afters_nth: "k < length xs \<Longrightarrow> afters xs ! k = (if Suc k < length xs then xs ! Suc k else xs ! 0)"
  by (cases xs) (auto simp: afters_def nth_append less_Suc_eq)

lemma ring_nth:
  assumes "ring nx pv xs" and "k < length xs"
  shows "nx (xs ! k) = Some (afters xs ! k)" "pv (xs ! k) = Some (befores xs ! k)"
  using ring_maps [OF assms(1)] assms(2) by (metis length_map length_turned(2) nth_map, metis length_map length_turned(1) nth_map)

lemma ring_zip:
  assumes "ring nx pv ps"
  shows "map (\<lambda>p. g p (pv p) (nx p)) ps = map (\<lambda>(p, b, a). g p (Some b) (Some a)) (zip ps (zip (befores ps) (afters ps)))"
  by (rule nth_equalityI) (simp_all add: ring_nth [OF assms])

section \<open>The loops over a level\<close>

lemma print_sum_ok:
  assumes "linked (me_next_order \<circ> mp_obj op) pv (p # ys @ [f])" and "f \<notin> set ys" and "length ys \<le> fuel"
  shows "print_sum fuel op (Some f) (Some p) q n =
    Inr (q + sum_list (map (me_qty \<circ> mp_obj op) (p # ys)), n + Suc (length ys))"
  using assms
proof (induction ys arbitrary: p q n fuel)
  case Nil
  then show ?case by (subst print_sum.simps) simp
next
  case (Cons y ys)
  then obtain k where k: "fuel = Suc k" "length ys \<le> k" by (cases fuel) auto
  have "print_sum k op (Some f) (Some y) (q + me_qty (mp_obj op p)) (Suc n) =
      Inr (q + me_qty (mp_obj op p) + sum_list (map (me_qty \<circ> mp_obj op) (y # ys)), Suc n + Suc (length ys))"
    by (rule Cons.IH) (use Cons.prems k in auto)
  then show ?case using Cons.prems k by (subst print_sum.simps) (auto simp: Let_def add.assoc)
qed

definition node_text :: "MEOrder MemPool \<Rightarrow> nat \<Rightarrow> pointer \<Rightarrow> pointer \<Rightarrow> string" where
  "node_text op p b a = order_text (me_market_order_id (mp_obj op p)) (me_qty (mp_obj op p)) (id_of op b) (id_of op a)"

lemma print_details_ok:
  assumes "linked (me_next_order \<circ> mp_obj op) pv (p # ys @ [f])" and "f \<notin> set ys" and "length ys \<le> fuel"
  shows "print_details fuel op detailed (Some f) (Some p) ss = Inr (ss @ (if detailed
    then concat (map (\<lambda>p. node_text op p (me_prev_order (mp_obj op p)) (me_next_order (mp_obj op p))) (p # ys)) else []))"
  using assms
proof (induction ys arbitrary: p ss fuel)
  case Nil
  then show ?case by (subst print_details.simps) (simp add: order_text_fits node_text_def Let_def)
next
  case (Cons y ys)
  then obtain k where k: "fuel = Suc k" "length ys \<le> k" by (cases fuel) auto
  have IH: "print_details k op detailed (Some f) (Some y) ss' = Inr (ss' @ (if detailed
      then concat (map (\<lambda>p. node_text op p (me_prev_order (mp_obj op p)) (me_next_order (mp_obj op p))) (y # ys)) else []))" for ss'
    by (rule Cons.IH) (use Cons.prems k in auto)
  show ?case using Cons.prems k IH by (subst print_details.simps) (auto simp: Let_def order_text_fits node_text_def)
qed

lemma node_texts:
  assumes "ring (me_next_order \<circ> mp_obj op) (me_prev_order \<circ> mp_obj op) ps"
  shows "concat (map (\<lambda>p. node_text op p (me_prev_order (mp_obj op p)) (me_next_order (mp_obj op p))) ps) =
    orders_text (map (me_strip \<circ> mp_obj op) ps)"
  using ring_zip [OF assms, of "node_text op"]
  by (simp add: orders_text_def comp_def zip_map_map map_zip_map map_zip_map2 split_def node_text_def id_of_def me_strip_def)

section \<open>The levels\<close>

lemma by_price_levels:
  assumes "\<forall>lv\<in>set ls. snd lv \<noteq> [] \<and> (\<forall>x\<in>set (snd lv). me_price x = fst lv)" and "distinct (map fst ls)"
  shows "by_price (concat (map snd ls)) = ls"
  using assms
proof (induction ls)
  case (Cons lv ls)
  obtain p x xs where lv: "lv = (p, x # xs)" using Cons.prems(1) by (cases lv; cases "snd lv") auto
  have p: "me_price x = p" "\<forall>y\<in>set xs. me_price y = p" using Cons.prems(1) lv by auto
  define xs' where "xs' = concat (map snd ls)"
  have no: "me_price y \<noteq> p" if "y \<in> set xs'" for y
  proof -
    from that obtain lw where "lw \<in> set ls" "y \<in> set (snd lw)" unfolding xs'_def by auto
    then have "me_price y = fst lw" "fst lw \<in> fst ` set ls" using Cons.prems(1) by auto
    then show ?thesis using Cons.prems(2) lv by auto
  qed
  have "takeWhile (\<lambda>y. me_price y = p) xs' = []" "dropWhile (\<lambda>y. me_price y = p) xs' = xs'"
    using no by (cases xs'; simp)+
  then have rest: "takeWhile (\<lambda>y. me_price y = p) (xs @ xs') = xs" "dropWhile (\<lambda>y. me_price y = p) (xs @ xs') = xs'"
    using p(2) by (simp_all add: takeWhile_append2 dropWhile_append2)
  have "by_price xs' = ls" unfolding xs'_def by (rule Cons.IH) (use Cons.prems in auto)
  then show ?case using p(1) rest lv by (simp flip: xs'_def)
qed simp

definition line_at :: "bool \<Rightarrow> string \<Rightarrow> (Price \<times> MEOrder list) list \<Rightarrow> nat \<Rightarrow> string" where
  "line_at detailed name ls k = line_text detailed name k (ls ! k) (fst (befores ls ! k)) (fst (afters ls ! k))"

lemma side_text_upt: "side_text detailed name ls = concat (map (line_at detailed name ls) [0..<length ls])"
proof -
  have "zip [0..<length ls] (zip ls (zip (befores ls) (afters ls))) =
      map (\<lambda>k. (k, ls ! k, befores ls ! k, afters ls ! k)) [0..<length ls]"
    by (rule nth_equalityI) simp_all
  then show ?thesis by (simp add: side_text_def line_at_def [abs_def] comp_def)
qed

text \<open>What a level of the shape stands for.\<close>

definition level_abs :: "MEOrderBook \<Rightarrow> level \<Rightarrow> Price \<times> MEOrder list" where
  "level_abs bk lv = (oap_price (mp_obj (ob_orders_at_price_pool bk) (fst lv)), map (me_strip \<circ> mp_obj (ob_order_pool bk)) (snd lv))"

lemma levels_by_price:
  assumes inv: "book_inv {} bk sh" and s: "s \<in> {BUY, SELL}"
  shows "by_price (abs_orders bk sh s) = map (level_abs bk) (sh s)"
proof -
  let ?lo = "mp_obj (ob_orders_at_price_pool bk)" and ?oo = "mp_obj (ob_order_pool bk)"
  have so: "side_ok ?lo ?oo (side_head bk s) s (sh s)" by (rule book_invD(2) [OF inv s])
  have "sorted_wrt (\<lambda>a b. a \<noteq> b) (map (oap_price \<circ> ?lo \<circ> fst) (sh s))"
    using so unfolding side_ok_def levels_sorted_def sorted_wrt_map by (auto intro: sorted_wrt_mono_rel [rotated])
  then have "distinct (map fst (map (level_abs bk) (sh s)))"
    using sorted_wrt_neq_distinct by (simp add: level_abs_def comp_def)
  moreover have "\<forall>lv\<in>set (map (level_abs bk) (sh s)). snd lv \<noteq> [] \<and> (\<forall>x\<in>set (snd lv). me_price x = fst lv)"
    using so by (auto simp: side_ok_def level_ok_def ring_def level_abs_def me_strip_def)
  moreover have "abs_orders bk sh s = concat (map snd (map (level_abs bk) (sh s)))"
    by (simp add: abs_orders_def side_ptrs_def level_abs_def map_concat comp_def)
  ultimately show ?thesis using by_price_levels by metis
qed

lemma printer_ok:
  assumes inv: "book_inv {} bk sh" and s: "s \<in> {BUY, SELL}" and k: "k < length (sh s)"
    and px: "\<forall>lv\<in>set (sh s). price_ok (oap_price (mp_obj (ob_orders_at_price_pool bk) (fst lv)))"
    and sz: "mp_size (ob_order_pool bk) < 10 ^ 20" and ok: "\<not> (check \<and> unsorted s lastp (fst (level_abs bk (sh s ! k))))"
  shows "printer bk detailed (fst (sh s ! k)) s lastp check =
    Inr (line_body detailed (level_abs bk (sh s ! k)) (fst (level_abs bk (befores (sh s) ! k))) (fst (level_abs bk (afters (sh s) ! k))),
      if check then fst (level_abs bk (sh s ! k)) else lastp)"
proof -
  let ?lp = "ob_orders_at_price_pool bk" and ?op = "ob_order_pool bk"
  let ?lo = "mp_obj ?lp" and ?oo = "mp_obj ?op" and ?lv = "sh s ! k"
  have so: "side_ok ?lo ?oo (side_head bk s) s (sh s)" by (rule book_invD(2) [OF inv s])
  have lv: "?lv \<in> set (sh s)" using k by simp
  obtain f ys where ps: "snd ?lv = f # ys" and first: "oap_first_me_order (?lo (fst ?lv)) = Some f"
    and ring: "ring (me_next_order \<circ> ?oo) (me_prev_order \<circ> ?oo) (f # ys)"
    using so lv by (cases "snd ?lv") (auto simp: side_ok_def level_ok_def ring_def)
  have "set (f # ys) \<subseteq> set (side_ptrs (sh s))" using lv ps by (force simp: side_ptrs_def)
  then have "set (f # ys) \<subseteq> mp_live ?op"
    using book_invD(1) [OF inv] s by (auto simp: pools_ok_def order_ptrs_def)
  then have len: "length (f # ys) \<le> mp_size ?op" using live_length [OF ring_distinct [OF ring]] by blast
  have l: "linked (me_next_order \<circ> ?oo) (me_prev_order \<circ> ?oo) (f # ys @ [f])" "f \<notin> set ys" "length ys \<le> mp_size ?op"
    using ring_linked [OF ring] ring_distinct [OF ring] len by simp_all
  have sum: "print_sum (mp_size ?op) ?op (Some f) (Some f) 0 0 = Inr (sum_list (map (me_qty \<circ> ?oo) (f # ys)), length (f # ys))"
    using print_sum_ok [OF l, of 0 0] by simp
  have levels: "ring (oap_next_entry \<circ> ?lo) (oap_prev_entry \<circ> ?lo) (map fst (sh s))"
    using so lv by (auto simp: side_ok_def levels_linked_def split: if_splits)
  let ?b = "befores (sh s) ! k" and ?a = "afters (sh s) ! k"
  have links: "oap_prev_entry (?lo (fst ?lv)) = Some (fst ?b)" "oap_next_entry (?lo (fst ?lv)) = Some (fst ?a)"
    using ring_nth [OF levels, of k] k by simp_all
  have nb: "?b \<in> set (sh s)" "?a \<in> set (sh s)"
  proof -
    have "set (befores (sh s)) \<subseteq> set (sh s)" "set (afters (sh s)) \<subseteq> set (sh s)"
      using k by (auto simp: befores_def afters_def dest: in_set_butlastD list.set_sel(2))
    then show "?b \<in> set (sh s)" "?a \<in> set (sh s)" using k nth_mem [of k "befores (sh s)"] nth_mem [of k "afters (sh s)"] by auto
  qed
  have buf: "into_buffer (level_text (oap_price (?lo (fst ?lv))) (oap_price (?lo (fst ?b))) (oap_price (?lo (fst ?a)))
      (sum_list (map (me_qty \<circ> ?oo) (f # ys))) (length (f # ys))) = Inr (level_text (oap_price (?lo (fst ?lv))) (oap_price (?lo (fst ?b)))
      (oap_price (?lo (fst ?a))) (sum_list (map (me_qty \<circ> ?oo) (f # ys))) (length (f # ys)))"
    using px lv nb len sz by (intro level_text_fits) auto
  note det = print_details_ok [OF l, of detailed] node_texts [OF ring]
  have "map (me_qty \<circ> (me_strip \<circ> ?oo)) (f # ys) = map (me_qty \<circ> ?oo) (f # ys)" by (simp add: me_strip_def)
  then show ?thesis using first sum links buf det ok k ps
    by (simp add: printer_def Let_def line_body_def level_abs_def me_strip_def comp_def)
qed

lemma print_side_ok:
  assumes inv: "book_inv {} bk sh" and s: "s \<in> {BUY, SELL}"
    and px: "\<forall>lv\<in>set (sh s). price_ok (oap_price (mp_obj (ob_orders_at_price_pool bk) (fst lv)))"
    and sz: "mp_size (ob_order_pool bk) < 10 ^ 20" and k: "k \<le> length (sh s)" and fuel: "length (sh s) - k \<le> fuel"
    and lastp: "k < length (sh s) \<Longrightarrow> \<not> unsorted s lastp (fst (level_abs bk (sh s ! k)))"
  shows "print_side fuel bk detailed check s name (if k < length (sh s) then Some (fst (sh s ! k)) else None) k lastp ss =
    Inr (ss @ concat (map (line_at detailed name (map (level_abs bk) (sh s))) [k..<length (sh s)]))"
  using k fuel lastp
proof (induction "length (sh s) - k" arbitrary: k fuel lastp ss)
  case 0
  then show ?case by (subst print_side.simps) simp
next
  case (Suc m)
  let ?lo = "mp_obj (ob_orders_at_price_pool bk)" and ?oo = "mp_obj (ob_order_pool bk)"
  let ?L = "sh s" and ?n = "length (sh s)"
  have kn: "k < ?n" and m: "m = ?n - Suc k" using Suc.hyps(2) by simp_all
  obtain fuel' where fuel': "fuel = Suc fuel'" "?n - Suc k \<le> fuel'" using Suc.prems(2) kn by (cases fuel) auto
  have so: "side_ok ?lo ?oo (side_head bk s) s ?L" by (rule book_invD(2) [OF inv s])
  have ring: "ring (oap_next_entry \<circ> ?lo) (oap_prev_entry \<circ> ?lo) (map fst ?L)" and hd: "side_head bk s = Some (fst (?L ! 0))"
    using so kn by (auto simp: side_ok_def levels_linked_def hd_conv_nth split: if_splits)
  have after: "oap_next_entry (?lo (fst (?L ! k))) = Some (fst (if Suc k < ?n then ?L ! Suc k else ?L ! 0))"
    using ring_nth(1) [OF ring, of k] kn by (simp add: afters_nth)
  have "fst (?L ! Suc k) \<noteq> fst (?L ! 0)" if "Suc k < ?n"
    using ring_distinct [OF ring] that kn nth_eq_iff_index_eq [of "map fst ?L" "Suc k" 0] by (cases ?L) auto
  then have nxt: "(if oap_next_entry (?lo (fst (?L ! k))) = side_head bk s then None else oap_next_entry (?lo (fst (?L ! k)))) =
      (if Suc k < ?n then Some (fst (?L ! Suc k)) else None)"
    using after hd by auto
  let ?lastp = "if check then fst (level_abs bk (?L ! k)) else lastp"
  have pr: "printer bk detailed (fst (?L ! k)) s lastp check =
      Inr (line_body detailed (level_abs bk (?L ! k)) (fst (level_abs bk (befores ?L ! k))) (fst (level_abs bk (afters ?L ! k))), ?lastp)"
    by (rule printer_ok [OF inv s kn px sz]) (use Suc.prems(3) kn in simp)
  have sorted: "\<not> unsorted s ?lastp (fst (level_abs bk (?L ! Suc k)))" if "Suc k < ?n"
  proof -
    have "better s (fst (level_abs bk (?L ! k))) (fst (level_abs bk (?L ! Suc k)))"
      using so that by (auto simp: side_ok_def levels_sorted_def sorted_wrt_iff_nth_less level_abs_def)
    then show ?thesis using Suc.prems(3) kn s by (auto simp: unsorted_def better_def split: if_splits)
  qed
  have "print_side fuel' bk detailed check s name (if Suc k < ?n then Some (fst (?L ! Suc k)) else None) (Suc k) ?lastp ss' =
      Inr (ss' @ concat (map (line_at detailed name (map (level_abs bk) ?L)) [Suc k..<?n]))" for ss'
    by (rule Suc.hyps(1)) (use m kn fuel'(2) sorted in auto)
  moreover have "line_at detailed name (map (level_abs bk) ?L) k = name @ '' L:'' @ nat_to_string k @ '' => '' @
      line_body detailed (level_abs bk (?L ! k)) (fst (level_abs bk (befores ?L ! k))) (fst (level_abs bk (afters ?L ! k)))"
    using kn by (simp add: line_at_def line_text_def)
  ultimately show ?case using kn fuel'(1) pr nxt by (subst print_side.simps) (simp add: Let_def upt_conv_Cons)
qed

section \<open>The whole book\<close>

definition inner_price :: "Price \<Rightarrow> bool" where
  "inner_price p \<longleftrightarrow> Price_MIN < p \<and> p < Price_INVALID"

lemma inner_price_ok: "inner_price p \<Longrightarrow> price_ok p"
  by (simp add: inner_price_def price_ok_def Price_MIN_def Price_INVALID_def)

lemma book_printed:
  assumes rep: "book_rep bk b" and px: "\<forall>x\<in>set (ab_orders b). inner_price (me_price x)"
  shows "MEOrderBook_toString bk detailed check = Inr (book_text detailed (ob_ticker_id bk) b)"
proof -
  from rep obtain sh where inv: "book_inv {} bk sh" and b: "b = book_abs bk sh"
    and sizes: "mp_size (ob_order_pool bk) = ME_MAX_ORDER_IDS" "mp_size (ob_orders_at_price_pool bk) = ME_MAX_PRICE_LEVELS"
    unfolding book_rep_def by blast
  let ?lo = "mp_obj (ob_orders_at_price_pool bk)"
  have side: "print_side (mp_size (ob_orders_at_price_pool bk)) bk detailed check s name (side_head bk s) 0
      (if s = SELL then Price_MIN else Price_INVALID) ss = Inr (ss @ side_text detailed name (by_price (ab_side b s)))"
    if s: "s \<in> {BUY, SELL}" for s name ss
  proof -
    have so: "side_ok ?lo (mp_obj (ob_order_pool bk)) (side_head bk s) s (sh s)" by (rule book_invD(2) [OF inv s])
    have lvl: "inner_price (oap_price (?lo (fst lv)))" if "lv \<in> set (sh s)" for lv
    proof -
      have "oap_price (?lo (fst lv)) \<in> me_price ` set (abs_orders bk sh s)"
        using level_prices(1) [OF inv s] that by auto
      moreover have "set (abs_orders bk sh s) \<subseteq> set (ab_orders b)" using s by (auto simp: b ab_orders_def book_abs_def)
      ultimately show ?thesis using px by auto
    qed
    have hd: "side_head bk s = (if 0 < length (sh s) then Some (fst (sh s ! 0)) else None)"
      using so by (auto simp: side_ok_def levels_linked_def hd_conv_nth split: if_splits)
    have len: "length (sh s) \<le> mp_size (ob_orders_at_price_pool bk)"
    proof -
      have "distinct (map fst (sh s))" "set (map fst (sh s)) \<subseteq> mp_live (ob_orders_at_price_pool bk)"
        using book_invD(1) [OF inv] s by (auto simp: pools_ok_def level_ptrs_def)
      from live_length [OF this] show ?thesis by simp
    qed
    have "\<not> unsorted s (if s = SELL then Price_MIN else Price_INVALID) (fst (level_abs bk (sh s ! 0)))" if "0 < length (sh s)"
      using lvl [of "sh s ! 0"] that s by (auto simp: unsorted_def inner_price_def level_abs_def)
    from print_side_ok [OF inv s _ _ _ _ this, of "mp_size (ob_orders_at_price_pool bk)" detailed check name ss] hd len lvl inner_price_ok sizes
    show ?thesis
      using levels_by_price [OF inv s] ab_side_abs [OF s, of bk sh] b
      by (simp add: side_text_upt ME_MAX_ORDER_IDS_def)
  qed
  from side [of SELL "''ASKS''"] side [of BUY "''BIDS''"] show ?thesis
    by (simp add: MEOrderBook_toString_def book_text_def Let_def ab_side_def side_head_def)
qed

section \<open>The client's book\<close>

definition mo_id_of :: "MarketOrder MemPool \<Rightarrow> pointer \<Rightarrow> OrderId" where
  "mo_id_of op p = (case p of None \<Rightarrow> OrderId_INVALID | Some q \<Rightarrow> mo_order_id (mp_obj op q))"

definition MarketOrder_toString :: "MarketOrder MemPool \<Rightarrow> MarketOrder \<Rightarrow> string" where
  "MarketOrder_toString op x =
     ''MarketOrder'' @ ''['' @ ''oid:'' @ orderIdToString (mo_order_id x) @ '' '' @ ''side:'' @ sideToString (mo_side x) @ '' '' @
     ''price:'' @ priceToString (mo_price x) @ '' '' @ ''qty:'' @ qtyToString (mo_qty x) @ '' '' @
     ''prio:'' @ priorityToString (mo_priority x) @ '' '' @
     ''prev:'' @ orderIdToString (mo_id_of op (mo_prev_order x)) @ '' '' @
     ''next:'' @ orderIdToString (mo_id_of op (mo_next_order x)) @ '']''"

definition mop_price_of :: "MarketOrdersAtPrice MemPool \<Rightarrow> pointer \<Rightarrow> Price" where
  "mop_price_of lp p = (case p of None \<Rightarrow> Price_INVALID | Some q \<Rightarrow> mop_price (mp_obj lp q))"

definition MarketOrdersAtPrice_toString ::
    "MarketOrder MemPool \<Rightarrow> MarketOrdersAtPrice MemPool \<Rightarrow> MarketOrdersAtPrice \<Rightarrow> string" where
  "MarketOrdersAtPrice_toString op lp l =
     ''MarketOrdersAtPrice['' @ ''side:'' @ sideToString (mop_side l) @ '' '' @ ''price:'' @ priceToString (mop_price l) @ '' '' @
     ''first_mkt_order:'' @ (case mop_first_mkt_order l of None \<Rightarrow> ''null'' | Some p \<Rightarrow> MarketOrder_toString op (mp_obj op p)) @ '' '' @
     ''prev:'' @ priceToString (mop_price_of lp (mop_prev_entry l)) @ '' '' @
     ''next:'' @ priceToString (mop_price_of lp (mop_next_entry l)) @ '']''"

fun mb_print_sum :: "nat \<Rightarrow> MarketOrder MemPool \<Rightarrow> pointer \<Rightarrow> pointer \<Rightarrow> Qty \<Rightarrow> nat \<Rightarrow> (Qty \<times> nat) result" where
  "mb_print_sum fuel op first itr qty num_orders =
     andThen (not_null itr) (\<lambda>p.
     let qty1 = qty + mo_qty (mp_obj op p); num1 = num_orders + 1 in
     if mo_next_order (mp_obj op p) = first then Inr (qty1, num1)
     else if fuel = 0 then Inl Diverges
     else mb_print_sum (fuel - 1) op first (mo_next_order (mp_obj op p)) qty1 num1)"

declare mb_print_sum.simps [simp del]

fun mb_print_details :: "nat \<Rightarrow> MarketOrder MemPool \<Rightarrow> bool \<Rightarrow> pointer \<Rightarrow> pointer \<Rightarrow> string \<Rightarrow> string result" where
  "mb_print_details fuel op detailed first itr ss =
     andThen (not_null itr) (\<lambda>p.
     let x = mp_obj op p in
     andThen (if detailed
              then andThen (into_buffer (order_text (mo_order_id x) (mo_qty x)
                (mo_id_of op (mo_prev_order x)) (mo_id_of op (mo_next_order x)))) (\<lambda>buf. Inr (ss @ buf))
              else Inr ss) (\<lambda>ss1.
     if mo_next_order x = first then Inr ss1
     else if fuel = 0 then Inl Diverges
     else mb_print_details (fuel - 1) op detailed first (mo_next_order x) ss1))"

declare mb_print_details.simps [simp del]

definition mb_printer :: "MarketOrderBook \<Rightarrow> bool \<Rightarrow> nat \<Rightarrow> Side \<Rightarrow> Price \<Rightarrow> bool \<Rightarrow> (string \<times> Price) result" where
  "mb_printer b detailed l side last_price sanity_check =
     (let lp = mb_orders_at_price_pool b; op = mb_order_pool b; itr = mp_obj lp l; first = mop_first_mkt_order itr in
      andThen (mb_print_sum (mp_size op) op first first 0 0) (\<lambda>(qty, num_orders).
      andThen (not_null (mop_prev_entry itr)) (\<lambda>p.
      andThen (not_null (mop_next_entry itr)) (\<lambda>n.
      andThen (into_buffer (level_text (mop_price itr) (mop_price (mp_obj lp p)) (mop_price (mp_obj lp n)) qty num_orders)) (\<lambda>buf.
      andThen (mb_print_details (mp_size op) op detailed first first buf) (\<lambda>ss.
      if sanity_check then
        if unsorted side last_price (mop_price itr)
        then FATAL (''Bids/Asks not sorted by ascending/descending prices last:'' @ priceToString last_price @
          '' itr:'' @ MarketOrdersAtPrice_toString op lp itr)
        else Inr (ss @ endl, mop_price itr)
      else Inr (ss @ endl, last_price)))))))"

fun mb_print_side ::
    "nat \<Rightarrow> MarketOrderBook \<Rightarrow> bool \<Rightarrow> bool \<Rightarrow> Side \<Rightarrow> string \<Rightarrow> pointer \<Rightarrow> nat \<Rightarrow> Price \<Rightarrow> string \<Rightarrow> string result" where
  "mb_print_side fuel b detailed validity_check side name itr count last_price ss =
     (case itr of
        None \<Rightarrow> Inr ss
      | Some l \<Rightarrow>
          if fuel = 0 then Inl Diverges
          else
            let entry_after = mop_next_entry (mp_obj (mb_orders_at_price_pool b) l);
                next_itr = (if entry_after = mb_side_head b side then None else entry_after) in
            andThen (mb_printer b detailed l side last_price validity_check) (\<lambda>(line, last_price1).
            mb_print_side (fuel - 1) b detailed validity_check side name next_itr (count + 1) last_price1
              (ss @ name @ '' L:'' @ nat_to_string count @ '' => '' @ line)))"

declare mb_print_side.simps [simp del]

definition MarketOrderBook_toString :: "MarketOrderBook \<Rightarrow> bool \<Rightarrow> bool \<Rightarrow> string result" where
  "MarketOrderBook_toString b detailed validity_check =
     (let fuel = mp_size (mb_orders_at_price_pool b) in
      andThen (mb_print_side fuel b detailed validity_check SELL ''ASKS'' (mb_asks_by_price b) 0 Price_MIN
        (''Ticker:'' @ tickerIdToString (mb_ticker_id b) @ endl)) (\<lambda>ss.
      mb_print_side fuel b detailed validity_check BUY ''BIDS'' (mb_bids_by_price b) 0 Price_INVALID
        (ss @ endl @ ''                          X'' @ endl @ endl)))"

text \<open>What the exchange's functions print for the embedded book is what these print.\<close>

lemma mb_print_sum_emb:
  "print_sum fuel (map_pool (emb_order t) op) first itr q n = mb_print_sum fuel op first itr q n"
proof (induction fuel arbitrary: itr q n)
  case 0
  show ?case by (subst print_sum.simps, subst mb_print_sum.simps) (simp add: Let_def cong: if_cong)
next
  case (Suc fuel)
  show ?case by (subst print_sum.simps, subst mb_print_sum.simps) (simp add: Let_def Suc cong: if_cong)
qed

lemma mo_id_emb [simp]: "id_of (map_pool (emb_order t) op) p = mo_id_of op p"
  by (cases p) (simp_all add: id_of_def mo_id_of_def)

lemma mb_print_details_emb:
  "print_details fuel (map_pool (emb_order t) op) d first itr ss = mb_print_details fuel op d first itr ss"
proof (induction fuel arbitrary: itr ss)
  case 0
  show ?case by (subst print_details.simps, subst mb_print_details.simps) (simp add: Let_def cong: if_cong)
next
  case (Suc fuel)
  show ?case by (subst print_details.simps, subst mb_print_details.simps) (simp add: Let_def Suc cong: if_cong)
qed

lemma mb_printer_emb: "printer (emb b) d l s lastp check = Inr v \<Longrightarrow> mb_printer b d l s lastp check = Inr v"
  by (auto simp: printer_def mb_printer_def Let_def mb_print_sum_emb mb_print_details_emb FATAL_def result_simps split: if_splits)

lemma mb_print_side_emb:
  "print_side fuel (emb b) d check s name itr k lastp ss = Inr v \<Longrightarrow> mb_print_side fuel b d check s name itr k lastp ss = Inr v"
proof (induction fuel arbitrary: itr k lastp ss)
  case 0
  then show ?case by (subst (asm) print_side.simps, subst mb_print_side.simps) (auto split: option.splits)
next
  case (Suc fuel)
  have hd: "side_head (emb b) s = mb_side_head b s" by (simp add: side_head_def mb_side_head_def)
  show ?case
  proof (cases itr)
    case None
    then show ?thesis using Suc.prems by (subst (asm) print_side.simps, subst mb_print_side.simps) simp
  next
    case (Some l)
    from Suc.prems obtain line lastp1 where p: "printer (emb b) d l s lastp check = Inr (line, lastp1)"
      and r: "print_side fuel (emb b) d check s name (if mop_next_entry (mp_obj (mb_orders_at_price_pool b) l) = mb_side_head b s then None
        else mop_next_entry (mp_obj (mb_orders_at_price_pool b) l)) (k + 1) lastp1 (ss @ name @ '' L:'' @ nat_to_string k @ '' => '' @ line) = Inr v"
      by (subst (asm) print_side.simps) (auto simp: Some Let_def hd result_simps)
    from Suc.IH [OF r] mb_printer_emb [OF p] Some show ?thesis by (subst mb_print_side.simps) (simp add: Let_def)
  qed
qed

lemma mb_toString_emb:
  assumes "MEOrderBook_toString (emb b) d check = Inr v"
  shows "MarketOrderBook_toString b d check = Inr v"
proof -
  have t: "ob_ticker_id (emb b) = mb_ticker_id b" by (simp add: emb_def)
  from assms show ?thesis unfolding MEOrderBook_toString_def MarketOrderBook_toString_def Let_def andThen_eq_Inr
    by (auto simp: t dest!: mb_print_side_emb)
qed

section \<open>Properties\<close>

text \<open>C22: Printing the exchange's book. On every book that represents an abstract one whose prices are
  not the two extreme values, \<^verbatim>\<open>toString\<close> ends, follows no null pointer, overruns its buffer
  nowhere and finds the levels sorted, so that its check does not end the process; the text it returns is
  that of the abstract book: one line per price, best first, with the sum and the number of the orders,
  and on request the orders in their order of time, each with its neighbours.\<close>

theorem exchange_book_printed:
  assumes "book_rep bk b" and "\<forall>x\<in>set (ab_orders b). inner_price (me_price x)"
  shows "MEOrderBook_toString bk detailed check = Inr (book_text detailed (ob_ticker_id bk) b)"
  by (rule book_printed [OF assms])

definition demo_text :: string where
  "demo_text = ''Ticker:0'' @ endl @ endl @ ''                          X'' @ endl @ endl @
     ''BIDS L:0 =>  <px:100 p:100 n:100> 100 @ 5    (1   )[oid:1 q:5 p:1 n:1] '' @ endl"

lemma demo_text_eq: "book_text True 0 demo_abook = demo_text"
  by code_simp

lemma demo_inner: "\<forall>x\<in>set (ab_orders demo_abook). inner_price (me_price x)"
  by (simp add: demo_updates ab_orders_def inner_price_def Price_MIN_def Price_INVALID_def)

theorem exchange_book_printed_witness: "\<exists>bk. book_rep bk demo_abook \<and> MEOrderBook_toString bk True True = Inr demo_text"
proof -
  obtain b where b: "book_rep (emb b) demo_abook" "mb_ticker_id b = 0" using demo_rep by blast
  have "ob_ticker_id (emb b) = 0" using b(2) by (simp add: emb_def)
  with exchange_book_printed [OF b(1) demo_inner, of True True] b(1) demo_text_eq show ?thesis by auto
qed

text \<open>Printing the client's book. The same holds of the client's book, whose text is that of the abstract
  book it represents.\<close>

theorem client_book_printed:
  assumes "book_rep (emb b) ab" and "\<forall>x\<in>set (ab_orders ab). inner_price (me_price x)"
  shows "MarketOrderBook_toString b detailed check = Inr (book_text detailed (mb_ticker_id b) ab)"
proof -
  have "ob_ticker_id (emb b) = mb_ticker_id b" by (simp add: emb_def)
  with book_printed [OF assms] show ?thesis using mb_toString_emb by metis
qed

theorem client_book_printed_witness: "\<exists>b. book_rep (emb b) demo_abook \<and> MarketOrderBook_toString b True True = Inr demo_text"
proof -
  obtain b where b: "book_rep (emb b) demo_abook" "mb_ticker_id b = 0" using demo_rep by blast
  with client_book_printed [OF b(1) demo_inner, of True True] demo_text_eq show ?thesis by auto
qed

end
