(* ===== verification/Trading_Printing.thy ===== *)
theory Trading_Printing
  imports Risk_Manager Command_Line
begin

text \<open>
  The printing of positions and limits: \<^verbatim>\<open>toString\<close> of \<^verbatim>\<open>PositionInfo\<close> and
  \<^verbatim>\<open>PositionKeeper\<close> in \<^verbatim>\<open>src/trading/strategy/position_keeper.h\<close> and of \<^verbatim>\<open>RiskInfo\<close> in
  \<^verbatim>\<open>risk_manager.h\<close>. The text that the stream makes of a floating point number is a parameter.
  What the pointer \<^verbatim>\<open>bbo_\<close> of a position points at is an argument: \<open>None\<close> before the first
  \<^verbatim>\<open>updateBBO\<close>, afterwards the summary that the ticker's book holds.
\<close>

section \<open>The operations\<close>

definition vwap_of :: "'f double_ops \<Rightarrow> 'f PositionInfo \<Rightarrow> Side \<Rightarrow> 'f result" where
  "vwap_of F p side =
     (if position p \<noteq> 0
      then andThen (abs32 (position p)) (\<lambda>n. Inr (d_div F (open_vwap p (sideToIndex side)) (d_of_int F n)))
      else Inr (d_of_int F 0))"

definition PositionInfo_toString ::
    "'f double_ops \<Rightarrow> ('f \<Rightarrow> string) \<Rightarrow> BBO option \<Rightarrow> 'f PositionInfo \<Rightarrow> string result" where
  "PositionInfo_toString F pd bbo p =
     andThen (vwap_of F p BUY) (\<lambda>bought.
     andThen (vwap_of F p SELL) (\<lambda>sold.
     Inr (''Position{pos:'' @ int_to_string (sint (position p)) @ '' u-pnl:'' @ pd (unreal_pnl p) @
          '' r-pnl:'' @ pd (real_pnl p) @ '' t-pnl:'' @ pd (total_pnl p) @ '' vol:'' @ qtyToString (volume p) @
          '' vwaps:['' @ pd bought @ ''X'' @ pd sold @ ''] '' @
          (case bbo of None \<Rightarrow> [] | Some b \<Rightarrow> BBO_toString b) @ ''}'')))"

text \<open>The loop over the tickers, with the totals.\<close>

fun positions_loop ::
    "'f double_ops \<Rightarrow> ('f \<Rightarrow> string) \<Rightarrow> (nat \<Rightarrow> BBO option) \<Rightarrow> 'f PositionKeeper \<Rightarrow> nat list \<Rightarrow>
     string \<times> 'f \<times> Qty \<Rightarrow> (string \<times> 'f \<times> Qty) result" where
  "positions_loop F pd bbos pk [] st = Inr st"
| "positions_loop F pd bbos pk (i # ids) (ss, pnl_sum, total_vol) =
     andThen (array_at ME_MAX_TICKERS pk i) (\<lambda>p.
     andThen (PositionInfo_toString F pd (bbos i) p) (\<lambda>s.
     positions_loop F pd bbos pk ids
       (ss @ ''TickerId:'' @ tickerIdToString (of_nat i) @ '' '' @ s @ [CHR 10],
        d_add F pnl_sum (PositionInfo.total_pnl p), total_vol + volume p)))"

definition PositionKeeper_toString ::
    "'f double_ops \<Rightarrow> ('f \<Rightarrow> string) \<Rightarrow> (nat \<Rightarrow> BBO option) \<Rightarrow> 'f PositionKeeper \<Rightarrow> string result" where
  "PositionKeeper_toString F pd bbos pk =
     andThen (positions_loop F pd bbos pk [0..<ME_MAX_TICKERS] ([], d_of_int F 0, 0)) (\<lambda>(ss, pnl_sum, total_vol).
     Inr (ss @ ''Total PnL:'' @ pd pnl_sum @ '' Vol:'' @ nat_to_string (unat total_vol) @ [CHR 10]))"

definition RiskInfo_toString ::
    "'f double_ops \<Rightarrow> ('f \<Rightarrow> string) \<Rightarrow> (nat \<Rightarrow> BBO option) \<Rightarrow> 'f PositionKeeper \<Rightarrow> 'f RiskInfo \<Rightarrow> string result" where
  "RiskInfo_toString F pd bbos pk ri =
     andThen (not_null (position_info ri)) (\<lambda>i.
     andThen (PositionInfo_toString F pd (bbos i) (pk i)) (\<lambda>s.
     Inr (''RiskInfo[pos:'' @ s @ '' '' @ RiskCfg_toString pd (ri_risk_cfg ri) @ '']'')))"

section \<open>When a keeper is printed\<close>

text \<open>
  The average price of a position divides by its magnitude, which the smallest 32 bit integer does
  not have; every other position is printed, and the last line has the totals.
\<close>

definition printable :: "'f PositionInfo \<Rightarrow> bool" where
  "printable p \<longleftrightarrow> sint (position p) \<noteq> - (2 ^ 31)"

lemma vwap_returns: "printable p \<longleftrightarrow> (\<exists>v. vwap_of F p side = Inr v)"
proof -
  have "- (2 ^ 31) \<le> sint (position p)" "sint (position p) < 2 ^ 31"
    using sint_ge [of "position p"] sint_lt [of "position p"] by simp_all
  then show ?thesis by (auto simp: printable_def vwap_of_def abs32_def signed_value_def)
qed

lemma position_printed: "printable p \<longleftrightarrow> (\<exists>s. PositionInfo_toString F pd bbo p = Inr s)"
  using vwap_returns [of p F BUY] vwap_returns [of p F SELL]
  by (auto simp: PositionInfo_toString_def result_simps)

lemma positions_loop_totals:
  assumes "\<forall>i\<in>set ids. i < ME_MAX_TICKERS \<and> printable (pk i)"
  shows "\<exists>out. positions_loop F pd bbos pk ids (ss, pnl, vol) =
    Inr (ss @ out, foldl (d_add F) pnl (map (\<lambda>i. PositionInfo.total_pnl (pk i)) ids), vol + sum_list (map (\<lambda>i. volume (pk i)) ids))"
  using assms
proof (induction ids arbitrary: ss pnl vol)
  case (Cons i ids)
  then obtain s where s: "PositionInfo_toString F pd (bbos i) (pk i) = Inr s" using position_printed [of "pk i"] by fastforce
  let ?l = "''TickerId:'' @ tickerIdToString (of_nat i) @ '' '' @ s @ [CHR 10]"
  from Cons.IH [of "ss @ ?l" "d_add F pnl (PositionInfo.total_pnl (pk i))" "vol + volume (pk i)"] Cons.prems
  obtain out where "positions_loop F pd bbos pk ids (ss @ ?l, d_add F pnl (PositionInfo.total_pnl (pk i)), vol + volume (pk i)) =
    Inr ((ss @ ?l) @ out, foldl (d_add F) (d_add F pnl (PositionInfo.total_pnl (pk i))) (map (\<lambda>i. PositionInfo.total_pnl (pk i)) ids),
      vol + volume (pk i) + sum_list (map (\<lambda>i. volume (pk i)) ids))" by auto
  with s Cons.prems show ?case by (auto simp: add.assoc)
qed simp

lemma keeper_printed:
  assumes "\<forall>i<ME_MAX_TICKERS. printable (pk i)"
  shows "\<exists>out. PositionKeeper_toString F pd bbos pk = Inr (out @ ''Total PnL:'' @
    pd (foldl (d_add F) (d_of_int F 0) (map (\<lambda>i. PositionInfo.total_pnl (pk i)) [0..<ME_MAX_TICKERS])) @
    '' Vol:'' @ nat_to_string (unat (\<Sum>i\<leftarrow>[0..<ME_MAX_TICKERS]. volume (pk i))) @ [CHR 10])"
proof -
  have "\<forall>i\<in>set [0..<ME_MAX_TICKERS]. i < ME_MAX_TICKERS \<and> printable (pk i)" using assms by simp
  from positions_loop_totals [OF this, of F pd bbos "[]" "d_of_int F 0" 0]
  show ?thesis by (auto simp: PositionKeeper_toString_def)
qed

end
