(* ===== verification/Client_Clear.thy ===== *)
theory Client_Clear
  imports Client_Book Client_BBO
begin

text \<open>
  The CLEAR branch of \<^verbatim>\<open>MarketOrderBook::onMarketUpdate\<close>: on every book that orders have
  been built into it ends, frees every order and level once, and empties both sides; but the table of
  prices keeps pointing to the freed levels, and orders that come in at those prices are lost.
  \<open>mb_update\<close> is what \<^verbatim>\<open>onMarketUpdate\<close> makes of the book.
\<close>

section \<open>The loops\<close>

text \<open>The two loops of the CLEAR branch free what they visit and leave every object as it was.\<close>

lemma clear_orders_ok:
  assumes "mp_inv op" and "distinct (filter (\<lambda>p. p \<noteq> None) ps)" and "\<And>p. Some p \<in> set ps \<Longrightarrow> p \<in> mp_live op"
  shows "\<exists>op'. mb_clear_orders op ps = Inr op' \<and> mp_inv op' \<and> mp_obj op' = mp_obj op \<and> mp_size op' = mp_size op \<and>
    mp_next_free_index op' = mp_next_free_index op \<and> mp_live op' = mp_live op - {p. Some p \<in> set ps}"
  using assms
proof (induction ps arbitrary: op)
  case (Cons q ps)
  show ?case
  proof (cases q)
    case None
    then show ?thesis using Cons by simp
  next
    case (Some p)
    have p: "p \<in> mp_live op" using Cons.prems(3) [of p] Some by simp
    from pool.dealloc_ok [OF Cons.prems(1) p] obtain op1 where op1: "deallocate op p = Inr op1" "mp_inv op1"
      "mp_live op1 = mp_live op - {p}" "mp_obj op1 = mp_obj op" by blast
    have frame: "mp_size op1 = mp_size op" "mp_next_free_index op1 = mp_next_free_index op"
      using op1(1) deallocate_live [OF p] by auto
    have "Some p \<notin> set ps" using Cons.prems(2) Some by auto
    then have "\<And>r. Some r \<in> set ps \<Longrightarrow> r \<in> mp_live op1" using Cons.prems(3) op1(3) by auto
    moreover have "distinct (filter (\<lambda>p. p \<noteq> None) ps)" using Cons.prems(2) by (simp split: if_splits)
    ultimately obtain op' where "mb_clear_orders op1 ps = Inr op'" "mp_inv op'" "mp_obj op' = mp_obj op1"
      "mp_size op' = mp_size op1" "mp_next_free_index op' = mp_next_free_index op1"
      "mp_live op' = mp_live op1 - {p. Some p \<in> set ps}" using Cons.IH [OF op1(2)] by blast
    then show ?thesis using op1 frame Some by auto
  qed
qed simp

lemma linked_hd: "linked nx pv (a # xs) \<Longrightarrow> xs \<noteq> [] \<Longrightarrow> nx a = Some (hd xs) \<and> linked nx pv xs"
  by (cases xs) simp_all

lemma clear_levels_ok:
  assumes "mp_inv lp" and "linked (mop_next_entry \<circ> mp_obj lp) pv (ls @ [h])" and "distinct (ls @ [h])"
    and "set (ls @ [h]) \<subseteq> mp_live lp" and "length ls \<le> fuel"
  shows "\<exists>lp'. mb_clear_levels fuel lp h (Some (hd (ls @ [h]))) = Inr lp' \<and> mp_inv lp' \<and> mp_obj lp' = mp_obj lp \<and>
    mp_size lp' = mp_size lp \<and> mp_live lp' = mp_live lp - set (ls @ [h])"
  using assms
proof (induction ls arbitrary: lp fuel)
  case Nil
  then have h: "h \<in> mp_live lp" by simp
  from pool.dealloc_ok [OF Nil.prems(1) h] obtain lp1 where lp1: "deallocate lp h = Inr lp1" "mp_inv lp1"
    "mp_live lp1 = mp_live lp - {h}" "mp_obj lp1 = mp_obj lp" by blast
  moreover have "mp_size lp1 = mp_size lp" using lp1(1) deallocate_live [OF h] by auto
  ultimately show ?case by (subst mb_clear_levels.simps) simp
next
  case (Cons l ls)
  obtain k where k: "fuel = Suc k" "length ls \<le> k" using Cons.prems(5) by (cases fuel) auto
  have l: "l \<in> mp_live lp" "l \<noteq> h" using Cons.prems(3,4) by auto
  from pool.dealloc_ok [OF Cons.prems(1) l(1)] obtain lp1 where lp1: "deallocate lp l = Inr lp1" "mp_inv lp1"
    "mp_live lp1 = mp_live lp - {l}" "mp_obj lp1 = mp_obj lp" by blast
  have size: "mp_size lp1 = mp_size lp" using lp1(1) deallocate_live [OF l(1)] by auto
  have nx: "(mop_next_entry \<circ> mp_obj lp) l = Some (hd (ls @ [h]))" "linked (mop_next_entry \<circ> mp_obj lp) pv (ls @ [h])"
    using linked_hd [of _ pv l "ls @ [h]"] Cons.prems(2) by (simp_all del: comp_apply)
  have chain: "linked (mop_next_entry \<circ> mp_obj lp1) pv (ls @ [h])" using nx(2) by (simp only: lp1(4))
  have live: "distinct (ls @ [h])" "set (ls @ [h]) \<subseteq> mp_live lp1"
    using Cons.prems(3,4) unfolding lp1(3) by auto
  obtain lp' where lp': "mb_clear_levels k lp1 h (Some (hd (ls @ [h]))) = Inr lp'" "mp_inv lp'" "mp_obj lp' = mp_obj lp1"
    "mp_size lp' = mp_size lp1" "mp_live lp' = mp_live lp1 - set (ls @ [h])"
    using Cons.IH [OF lp1(2) chain live k(2)] by blast
  have "mb_clear_levels fuel lp h (Some l) = mb_clear_levels k lp1 h (Some (hd (ls @ [h])))"
    using l(2) k(1) nx(1) lp1(1,4) by (subst mb_clear_levels.simps) simp
  moreover have "mp_live lp' = mp_live lp - set ((l # ls) @ [h])" unfolding lp'(5) lp1(3) by auto
  ultimately show ?case using lp'(1-4) lp1(4) size by (intro exI [of _ lp']) simp
qed

lemma clear_side_ok:
  assumes "mp_inv lp" and "levels_linked (emb_level \<circ> mp_obj lp) head ls" and "distinct ls" and "set ls \<subseteq> mp_live lp"
  shows "\<exists>lp'. mb_clear_side lp head = Inr lp' \<and> mp_inv lp' \<and> mp_obj lp' = mp_obj lp \<and>
    mp_size lp' = mp_size lp \<and> mp_live lp' = mp_live lp - set ls"
proof (cases ls)
  case Nil
  then show ?thesis using assms by (simp add: levels_linked_def mb_clear_side_def)
next
  case (Cons h rest)
  then have head: "head = Some h" and ring: "ring (mop_next_entry \<circ> mp_obj lp) (mop_prev_entry \<circ> mp_obj lp) (h # rest)"
    using assms(2) by (simp_all add: levels_linked_def comp_def)
  have l: "linked (mop_next_entry \<circ> mp_obj lp) (mop_prev_entry \<circ> mp_obj lp) (h # rest @ [h])"
    using ring_linked [OF ring] by simp
  have nx: "(mop_next_entry \<circ> mp_obj lp) h = Some (hd (rest @ [h]))"
    "linked (mop_next_entry \<circ> mp_obj lp) (mop_prev_entry \<circ> mp_obj lp) (rest @ [h])"
    using linked_hd [OF l] by (simp_all del: comp_apply)
  have "length rest \<le> mp_size lp" using live_length [OF assms(3,4)] Cons by simp
  with clear_levels_ok [OF assms(1) nx(2), of "mp_size lp"] assms(3,4) Cons nx(1) head
  show ?thesis by (auto simp: mb_clear_side_def)
qed

lemma order_table_entry:
  assumes "order_table_ok oo tbl ps" and "c < ME_MAX_NUM_CLIENTS" and "i < ME_MAX_ORDER_IDS"
  shows "tbl c i = Some p \<longleftrightarrow> p \<in> ps \<and> unat (me_client_id (oo p)) = c \<and> unat (me_client_order_id (oo p)) = i"
  using assms unfolding order_table_ok_def by blast

section \<open>CLEAR and the updates after it\<close>

text \<open>CLEAR empties pools, table of orders and sides, and leaves the table of prices and every level as they were.\<close>

definition cleared :: "MarketOrderBook \<Rightarrow> MarketOrderBook \<Rightarrow> bool" where
  "cleared b b1 \<longleftrightarrow> mb_bids_by_price b1 = None \<and> mb_asks_by_price b1 = None \<and>
     mb_price_orders_at_price b1 = mb_price_orders_at_price b \<and>
     mp_obj (mb_orders_at_price_pool b1) = mp_obj (mb_orders_at_price_pool b) \<and>
     mp_obj (mb_order_pool b1) = mp_obj (mb_order_pool b) \<and>
     mp_next_free_index (mb_order_pool b1) = mp_next_free_index (mb_order_pool b) \<and>
     mp_inv (mb_order_pool b1) \<and> mp_size (mb_order_pool b1) = ME_MAX_ORDER_IDS \<and>
     mp_live (mb_order_pool b1) = {} \<and> mp_live (mb_orders_at_price_pool b1) = {} \<and>
     mb_oid_to_order b1 = (\<lambda>_. None)"

lemma mp_inv_map [simp]: "mp_inv (map_pool f mp) = mp_inv mp"
  by (simp add: mp_inv_def map_pool_def)

lemma mb_clear_ok:
  assumes inv: "book_inv {} (emb b) sh" and size: "mp_size (mb_order_pool b) = ME_MAX_ORDER_IDS"
  shows "\<exists>b1. mb_clear b = Inr b1 \<and> cleared b b1"
proof -
  let ?op = "mb_order_pool b" and ?lp = "mb_orders_at_price_pool b"
  have p: "mp_inv ?lp" "mp_inv ?op" "distinct (level_ptrs sh)" "mp_live ?lp = set (level_ptrs sh)"
    "mp_live ?op = set (order_ptrs sh)" using book_invD(1) [OF inv] by (simp_all add: pools_ok_def)
  have t: "mb_oid_to_order b i = Some q \<longleftrightarrow> q \<in> set (order_ptrs sh) \<and> unat (mo_order_id (mp_obj ?op q)) = i"
    if "i < ME_MAX_ORDER_IDS" for i q
    using order_table_entry [OF book_invD(4) [OF inv], of 0 i q] that by (simp add: emb_table_def ME_MAX_NUM_CLIENTS_def)
  have ids: "unat (mo_order_id (mp_obj ?op q)) < ME_MAX_ORDER_IDS" if "q \<in> set (order_ptrs sh)" for q
    using book_invD(4) [OF inv] that by (simp add: order_table_ok_def)
  let ?tab = "map (mb_oid_to_order b) [0..<ME_MAX_ORDER_IDS]"
  have mem: "{q. Some q \<in> set ?tab} = set (order_ptrs sh)" using t ids by (force simp: image_iff)
  have "inj_on (mb_oid_to_order b) {i. i < ME_MAX_ORDER_IDS \<and> mb_oid_to_order b i \<noteq> None}"
    using t by (auto simp: inj_on_def) (metis option.exhaust)
  then have "distinct (filter (\<lambda>p. p \<noteq> None) ?tab)"
    by (auto simp: filter_map distinct_map comp_def elim!: inj_on_subset)
  then obtain op' where op': "mb_clear_orders ?op ?tab = Inr op'" "mp_inv op'" "mp_obj op' = mp_obj ?op"
    "mp_size op' = mp_size ?op" "mp_next_free_index op' = mp_next_free_index ?op" "mp_live op' = {}"
    using clear_orders_ok [OF p(2), of ?tab] mem p(5) by auto
  have side: "levels_linked (emb_level \<circ> mp_obj ?lp) (mb_side_head b s) (map fst (sh s))" if "s \<in> {BUY, SELL}" for s
  proof -
    have "mp_obj (map_pool emb_level ?lp) = emb_level \<circ> mp_obj ?lp" by (simp add: fun_eq_iff)
    then show ?thesis using book_invD(2) [OF inv that] by (simp add: side_ok_def)
  qed
  have ptrs: "set (level_ptrs sh) = set (map fst (sh BUY)) \<union> set (map fst (sh SELL))"
    "distinct (map fst (sh BUY))" "distinct (map fst (sh SELL))" "set (map fst (sh BUY)) \<inter> set (map fst (sh SELL)) = {}"
    using p(3) by (auto simp: level_ptrs_def)
  from clear_side_ok [OF p(1) side [of BUY]] ptrs p(4) obtain lp1 where lp1: "mb_clear_side ?lp (mb_bids_by_price b) = Inr lp1"
    "mp_inv lp1" "mp_obj lp1 = mp_obj ?lp" "mp_live lp1 = mp_live ?lp - set (map fst (sh BUY))"
    by (auto simp: mb_side_head_def)
  have asks: "levels_linked (emb_level \<circ> mp_obj lp1) (mb_asks_by_price b) (map fst (sh SELL))"
    using side [of SELL] lp1(3) by (simp add: mb_side_head_def)
  have "set (map fst (sh SELL)) \<subseteq> mp_live lp1" using lp1(4) ptrs p(4) by auto
  from clear_side_ok [OF lp1(2) asks ptrs(3) this] obtain lp2 where lp2: "mb_clear_side lp1 (mb_asks_by_price b) = Inr lp2"
    "mp_obj lp2 = mp_obj lp1" "mp_live lp2 = mp_live lp1 - set (map fst (sh SELL))" by blast
  moreover note lp1
  ultimately show ?thesis using op' size ptrs(1) p(4) by (auto simp: mb_clear_def cleared_def)
qed

text \<open>An order at a price whose entry in the table of prices is taken: no side and no summary changes.\<close>

definition stale_add :: "(nat \<Rightarrow> pointer) \<Rightarrow> MEMarketUpdate \<Rightarrow> bool" where
  "stale_add tab u \<longleftrightarrow> mu_type u = ADD \<and> tab (priceToIndex (mu_price u)) \<noteq> None"

definition sides_empty :: "MarketOrderBook \<Rightarrow> bool" where
  "sides_empty b \<longleftrightarrow> mb_bids_by_price b = None \<and> mb_asks_by_price b = None"

lemma allocate_gives:
  assumes "allocate mp x = Inr (p, mp1)"
  shows "mp_obj mp1 p = x"
  using assms by (auto simp: allocate_def updateNextFreeIndex_def Let_def result_simps mp_obj_def)

lemma stale_add_lost:
  assumes "stale_add (mb_price_orders_at_price b) u" and "sides_empty b" and "mb_update b u = Inr b'"
  shows "sides_empty b' \<and> mb_price_orders_at_price b' = mb_price_orders_at_price b \<and> getBBO b' = getBBO b"
proof -
  obtain l where l: "mb_price_orders_at_price b (priceToIndex (mu_price u)) = Some l" and add: "mu_type u = ADD"
    using assms(1) by (auto simp: stale_add_def)
  have "\<not> bid_updated b u" "\<not> ask_updated b u" using assms(2) by (simp_all add: sides_empty_def bid_updated_def ask_updated_def)
  then have "mb_apply b u = Inr b'" using assms(3) add by (auto simp: mb_update_def mb_updateBBO_def result_simps)
  then obtain p op where al: "allocate (mb_order_pool b) \<lparr>mo_order_id = mu_order_id u, mo_side = mu_side u, mo_price = mu_price u,
      mo_qty = mu_qty u, mo_priority = mu_priority u, mo_prev_order = None, mo_next_order = None\<rparr> = Inr (p, op)"
    and r: "mb_addOrder (b\<lparr>mb_order_pool := op\<rparr>) p = Inr b'"
    using add by (auto simp: mb_apply_def result_simps)
  have "mo_price (mp_obj op p) = mu_price u" using allocate_gives [OF al] by simp
  then show ?thesis using r l assms(2)
    by (auto simp: mb_addOrder_def Let_def mb_getOrdersAtPrice_def mb_addOrder_link_def mb_set_oid_def result_simps
        sides_empty_def getBBO_def)
qed

lemma stale_adds_lost:
  assumes "\<forall>u\<in>set us. stale_add (mb_price_orders_at_price b) u" and "sides_empty b" and "mb_updates b us = Inr b'"
  shows "sides_empty b' \<and> getBBO b' = getBBO b"
  using assms
proof (induction us arbitrary: b)
  case (Cons u us)
  then obtain b1 where b1: "mb_update b u = Inr b1" "mb_updates b1 us = Inr b'" by (auto simp: result_simps)
  have "stale_add (mb_price_orders_at_price b) u" using Cons.prems(1) by simp
  from stale_add_lost [OF this Cons.prems(2) b1(1)] Cons.IH [OF _ _ b1(2)] Cons.prems(1) show ?case by simp
qed simp


lemma updateBBO_empty:
  assumes "sides_empty b"
  shows "\<exists>y. mb_updateBBO b ub ua = Inr (b\<lparr>mb_bbo := y\<rparr>)"
proof -
  define y1 where "y1 = (if ub then (mb_bbo b)\<lparr>bid_price := Price_INVALID, bid_qty := Qty_INVALID\<rparr> else mb_bbo b)"
  define y2 where "y2 = (if ua then y1\<lparr>ask_price := Price_INVALID, ask_qty := Qty_INVALID\<rparr> else y1)"
  have "mb_updateBBO b ub ua = Inr (b\<lparr>mb_bbo := y2\<rparr>)"
    using assms unfolding y2_def y1_def
    by (cases ub; cases ua) (simp_all add: mb_updateBBO_def mb_best_def sides_empty_def)
  then show ?thesis by blast
qed

lemma clear_update_ok:
  assumes "book_inv {} (emb b) sh" and "mp_size (mb_order_pool b) = ME_MAX_ORDER_IDS" and "mu_type c = CLEAR"
  shows "\<exists>b1. mb_update b c = Inr b1 \<and> cleared b b1"
proof -
  obtain b1 where b1: "mb_clear b = Inr b1" "cleared b b1" using mb_clear_ok [OF assms(1,2)] by blast
  then have "sides_empty b1" by (simp add: cleared_def sides_empty_def)
  then obtain y where "mb_updateBBO b1 (bid_updated b c) (ask_updated b c) = Inr (b1\<lparr>mb_bbo := y\<rparr>)"
    using updateBBO_empty by blast
  then have "mb_update b c = Inr (b1\<lparr>mb_bbo := y\<rparr>)" using b1(1) assms(3) by (simp add: mb_update_def mb_apply_def)
  moreover have "cleared b (b1\<lparr>mb_bbo := y\<rparr>)" using b1(2) by (simp add: cleared_def)
  ultimately show ?thesis by blast
qed

text \<open>The level behind a taken entry has a first order, which has an order before it.\<close>

lemma taken_entry:
  assumes inv: "book_inv {} (emb b) sh" and l: "mb_price_orders_at_price b i = Some l" and i: "i < ME_MAX_PRICE_LEVELS"
  obtains f z where "mop_first_mkt_order (mp_obj (mb_orders_at_price_pool b) l) = Some f"
    "mo_prev_order (mp_obj (mb_order_pool b) f) = Some z" "f \<in> mp_live (mb_order_pool b)"
proof -
  let ?lp = "mb_orders_at_price_pool b" and ?op = "mb_order_pool b"
  have "l \<in> set (level_ptrs sh)" using book_invD(3) [OF inv] l i by (simp add: price_table_ok_def)
  then obtain s lv0 where s: "s \<in> {BUY, SELL}" and lv0: "lv0 \<in> set (sh s)" "l = fst lv0"
    unfolding level_ptrs_iff by blast
  obtain ps where lv: "(l, ps) \<in> set (sh s)" using lv0 by (metis prod.collapse)
  have ok: "level_ok (mp_obj (map_pool emb_level ?lp)) (mp_obj (map_pool (emb_order (mb_ticker_id b)) ?op)) s (l, ps)"
    using book_invD(2) [OF inv s] lv by (simp add: side_ok_def)
  then obtain f ys where ps: "ps = f # ys" by (cases ps) (auto simp: level_ok_def ring_def)
  have "mop_first_mkt_order (mp_obj ?lp l) = Some f" using ok ps by (simp add: level_ok_def)
  moreover have "ring (mo_next_order \<circ> mp_obj ?op) (mo_prev_order \<circ> mp_obj ?op) (f # ys)"
    using ok ps by (simp add: level_ok_def comp_def)
  then have "(mo_prev_order \<circ> mp_obj ?op) f = Some (last (f # ys))" by (rule ring_hd_prev)
  then have "mo_prev_order (mp_obj ?op f) = Some (last (f # ys))" by simp
  moreover have "f \<in> set (order_ptrs sh)" using lv s ps by (force simp: order_ptrs_iff side_ptrs_def)
  then have "f \<in> mp_live ?op" using book_invD(1) [OF inv] by (simp add: pools_ok_def)
  ultimately show thesis using that by blast
qed

lemma stale_add_returns:
  assumes inv: "book_inv {} (emb b) sh" and c: "cleared b b1" and u: "stale_add (mb_price_orders_at_price b) u"
    and oid: "unat (mu_order_id u) < ME_MAX_ORDER_IDS"
  shows "\<exists>b2. mb_update b1 u = Inr b2 \<and> mb_oid_to_order b2 (unat (mu_order_id u)) \<noteq> None"
proof -
  let ?n = "\<lparr>mo_order_id = mu_order_id u, mo_side = mu_side u, mo_price = mu_price u, mo_qty = mu_qty u,
    mo_priority = mu_priority u, mo_prev_order = None, mo_next_order = None\<rparr>"
  let ?p = "mp_next_free_index (mb_order_pool b)"
  obtain l where add: "mu_type u = ADD" and l: "mb_price_orders_at_price b (priceToIndex (mu_price u)) = Some l"
    using u by (auto simp: stale_add_def)
  obtain f z where f: "mop_first_mkt_order (mp_obj (mb_orders_at_price_pool b) l) = Some f"
    "mo_prev_order (mp_obj (mb_order_pool b) f) = Some z" "f \<in> mp_live (mb_order_pool b)"
    by (rule taken_entry [OF inv l priceToIndex_less])
  have "mp_inv (mb_order_pool b)" using book_invD(1) [OF inv] by (simp add: pools_ok_def)
  then have far: "f \<noteq> ?p" using f(3) by (auto simp: mp_inv_def mp_live_def)
  have "mp_inv (mb_order_pool b1)" "mp_room (mb_order_pool b1)"
    using c by (simp_all add: cleared_def mp_room_def ME_MAX_ORDER_IDS_def)
  from allocate_room [OF this, of ?n] obtain op where op: "allocate (mb_order_pool b1) ?n = Inr (?p, op)"
    "mp_store op = (mp_store (mb_order_pool b1))(?p := \<lparr>object = ?n, is_free = False\<rparr>)"
    using c by (auto simp: cleared_def)
  have obj: "mp_obj op ?p = ?n" "mp_obj op f = mp_obj (mb_order_pool b) f"
    using op(2) far c by (auto simp: mp_obj_def cleared_def fun_eq_iff)
  have "\<exists>b2. mb_addOrder (b1\<lparr>mb_order_pool := op\<rparr>) ?p = Inr b2 \<and> mb_oid_to_order b2 (unat (mu_order_id u)) \<noteq> None"
    using c l f(1,2) obj oid
    by (simp add: mb_addOrder_def Let_def mb_getOrdersAtPrice_def mb_addOrder_link_def mb_set_oid_def cleared_def
        mo_set_next_def)
  moreover have "\<not> bid_updated b1 u" "\<not> ask_updated b1 u" using c by (simp_all add: cleared_def bid_updated_def ask_updated_def)
  ultimately show ?thesis using add op(1) by (auto simp: mb_update_def mb_apply_def mb_updateBBO_def)
qed

text \<open>The prices of a book, up to the size of the table of prices.\<close>

definition at_old_price :: "abook \<Rightarrow> MEMarketUpdate \<Rightarrow> bool" where
  "at_old_price ab u \<longleftrightarrow> mu_type u = ADD \<and> (\<exists>x\<in>set (ab_orders ab). priceToIndex (me_price x) = priceToIndex (mu_price u))"

lemma at_old_price_stale:
  assumes inv: "book_inv {} (emb b) sh" and u: "at_old_price (book_abs (emb b) sh) u"
  shows "stale_add (mb_price_orders_at_price b) u"
proof -
  let ?oo = "mp_obj (map_pool (emb_order (mb_ticker_id b)) (mb_order_pool b))"
  let ?lo = "mp_obj (map_pool emb_level (mb_orders_at_price_pool b))"
  obtain x where x: "x \<in> set (ab_orders (book_abs (emb b) sh))" "priceToIndex (me_price x) = priceToIndex (mu_price u)"
    using u by (auto simp: at_old_price_def)
  have "x \<in> (me_strip \<circ> ?oo) ` set (order_ptrs sh)"
    using x(1) by (auto simp: ab_orders_def book_abs_def abs_orders_def order_ptrs_def)
  then obtain p where p: "p \<in> set (order_ptrs sh)" "me_price x = me_price (?oo p)" by auto
  then obtain s lv where s: "s \<in> {BUY, SELL}" and lv: "lv \<in> set (sh s)" "p \<in> set (snd lv)"
    by (auto simp: order_ptrs_iff side_ptrs_def)
  have "level_ok ?lo ?oo s lv" using book_invD(2) [OF inv s] lv by (simp add: side_ok_def)
  then have "me_price x = oap_price (?lo (fst lv))" using lv p(2) by (simp add: level_ok_def)
  moreover have "fst lv \<in> set (level_ptrs sh)" using s lv by (auto simp: level_ptrs_def)
  ultimately have "mb_price_orders_at_price b (priceToIndex (mu_price u)) = Some (fst lv)"
    using book_invD(3) [OF inv] x(2) by (auto simp: price_table_ok_def)
  then show ?thesis using u by (simp add: stale_add_def at_old_price_def)
qed

section \<open>Properties\<close>

text \<open>C40: Orders that arrive after a CLEAR update are lost. Take any book of a client, in which any orders
  rest, and the CLEAR with which a recovery from a snapshot begins. The book handles it, but it leaves the freed
  levels in its table of prices. The next order at a price at which an order rested before (or one
  that shares its entry of the table) is taken without a fault and is known by its identifier, but it is
  linked to a freed level: both sides stay empty and the summary of the best prices does not change.
  No number of such orders changes that.\<close>

theorem clear_loses_orders:
  assumes "book_rep (emb b) ab" and "mu_type c = CLEAR"
  shows "\<exists>b1. mb_update b c = Inr b1 \<and>
    (\<forall>u. at_old_price ab u \<and> unat (mu_order_id u) < ME_MAX_ORDER_IDS \<longrightarrow>
       (\<exists>b2. mb_update b1 u = Inr b2 \<and> mb_oid_to_order b2 (unat (mu_order_id u)) \<noteq> None)) \<and>
    (\<forall>us b2. (\<forall>u\<in>set us. at_old_price ab u) \<and> mb_updates b1 us = Inr b2 \<longrightarrow>
       mb_bids_by_price b2 = None \<and> mb_asks_by_price b2 = None \<and> getBBO b2 = getBBO b1)"
proof -
  from assms(1) obtain sh where inv: "book_inv {} (emb b) sh" and ab: "ab = book_abs (emb b) sh"
    and size: "mp_size (mb_order_pool b) = ME_MAX_ORDER_IDS" by (auto simp: book_rep_def)
  from clear_update_ok [OF inv size assms(2)] obtain b1 where b1: "mb_update b c = Inr b1" "cleared b b1" by blast
  have empty: "sides_empty b1" and tab: "mb_price_orders_at_price b1 = mb_price_orders_at_price b"
    using b1(2) by (simp_all add: cleared_def sides_empty_def)
  have stale: "stale_add (mb_price_orders_at_price b) u" if "at_old_price ab u" for u
    using at_old_price_stale [OF inv, of u] that ab by simp
  have "mb_bids_by_price b2 = None \<and> mb_asks_by_price b2 = None \<and> getBBO b2 = getBBO b1"
    if "\<forall>u\<in>set us. at_old_price ab u" "mb_updates b1 us = Inr b2" for us b2
    using stale_adds_lost [OF _ empty that(2)] that(1) stale tab by (simp add: sides_empty_def)
  then show ?thesis using b1(1) stale_add_returns [OF inv b1(2) stale] by blast
qed

theorem clear_loses_orders_witness:
  "\<exists>b b1 b2. book_rep (emb b) demo_abook \<and> mb_bids_by_price b \<noteq> None \<and> mb_update b demo_clear = Inr b1 \<and>
    mb_update b1 demo_first = Inr b2 \<and> mb_oid_to_order b2 1 \<noteq> None \<and>
    mb_bids_by_price b2 = None \<and> getBBO b2 = getBBO b1"
proof -
  from demo_rep obtain b where b: "book_rep (emb b) demo_abook" by blast
  have c: "mu_type demo_clear = CLEAR" by (simp add: demo_clear_def)
  have u: "at_old_price demo_abook demo_first" "unat (mu_order_id demo_first) = 1"
    by (simp_all add: at_old_price_def demo_updates ab_orders_def)
  from clear_loses_orders [OF b c] obtain b1 where b1: "mb_update b demo_clear = Inr b1"
    "\<And>u. at_old_price demo_abook u \<Longrightarrow> unat (mu_order_id u) < ME_MAX_ORDER_IDS \<Longrightarrow>
      \<exists>b2. mb_update b1 u = Inr b2 \<and> mb_oid_to_order b2 (unat (mu_order_id u)) \<noteq> None"
    "\<And>us b2. \<forall>u\<in>set us. at_old_price demo_abook u \<Longrightarrow> mb_updates b1 us = Inr b2 \<Longrightarrow>
      mb_bids_by_price b2 = None \<and> mb_asks_by_price b2 = None \<and> getBBO b2 = getBBO b1" by blast
  from b1(2) [OF u(1)] u(2) obtain b2 where b2: "mb_update b1 demo_first = Inr b2" "mb_oid_to_order b2 1 \<noteq> None"
    by (auto simp: ME_MAX_ORDER_IDS_def)
  moreover from b1(3) [of "[demo_first]" b2] u(1) b2(1) have "mb_bids_by_price b2 = None \<and> getBBO b2 = getBBO b1" by simp
  moreover have "mb_bids_by_price b \<noteq> None"
    using best_price(1) [OF b, of BUY] by (simp add: mb_side_head_def demo_updates)
  ultimately show ?thesis using b b1(1) by blast
qed

end
