(* ===== verification/Spec2Isabelle.thy ===== *)
theory Spec2Isabelle
  imports Start_Up Book_Printing Trading_Printing Client_Clear
begin

text \<open>
  \<^bold>\<open>A verification development of a trading ecosystem\<close>

  The program is a low latency exchange and a trading client in C++. On the exchange's side
  (\<^verbatim>\<open>src/exchange\<close>) an order server reads client requests from TCP connections and sequences them
  by their time of arrival, a matching engine keeps a limit order book per ticker and answers with
  client responses and market updates, a market data publisher numbers the updates and sends them
  over multicast, and a snapshot synthesizer follows the numbered updates and publishes snapshots of
  the books from time to time. On the client's side (\<^verbatim>\<open>src/trading\<close>) an order gateway talks to
  the order server, a market data consumer receives the updates and recovers from lost ones with the
  help of the snapshots, and a trade engine rebuilds the books, computes features, keeps positions,
  checks risk, manages the client's orders and runs one of two algorithms. Each of these components
  is one thread; the threads are connected by lock free queues (\<^verbatim>\<open>src/common/lf_queue.h\<close>), and
  the books take their objects from memory pools (\<^verbatim>\<open>src/common/mem_pool.h\<close>).

  \<^bold>\<open>How the code is modelled.\<close> A struct or class is a record with the members of the source, an
  enumeration a datatype, an operation a function that returns the changed state. Whatever can end
  the process is a value of the type \<open>fault\<close> of theory \<open>Prelude\<close>: a failed \<^verbatim>\<open>ASSERT\<close> or
  \<^verbatim>\<open>FATAL\<close>, an access out of range, a null pointer, a signed overflow. Where the language leaves the outcome
  undefined (an unchecked \<^verbatim>\<open>operator[]\<close> out of range, a null pointer, a signed overflow) the fault stands for
  any behaviour: a theorem that it is reached says nothing of what the process does then. Identifiers and quantities
  are words of their width, prices are integers with the range of 64 bits checked where the code
  computes with them, pointers into a pool are indices. A loop of the code that follows pointers has
  the size of the pool as fuel, a loop over a queue the number of waiting elements; running out is the
  fault \<open>Diverges\<close>, and the theorems on the operations show that it does not happen. The thread of a
  component is an iteration of one pass of its main loop. Memory that a constructor does not
  initialise, the bytes that the network delivers, the readings of the clock, the numbers of
  \<^verbatim>\<open>rand\<close>, the order that the standard library's sort gives to equal keys, and the arithmetic, reading and
  printing of \<^verbatim>\<open>double\<close> are parameters; the arithmetic is a record of operations with one exact
  instance on rational numbers with a NaN. The operating system, where sockets are opened, is a
  function from the calls made so far and a new call to its answer.

  \<^bold>\<open>The theories, in the order of the parts.\<close>
    \<^item> \<open>Prelude\<close>: faults, results, array accesses, the macros of \<^verbatim>\<open>common/macros.h\<close>.
    \<^item> \<open>Types\<close>, \<open>Messages\<close>: \<^verbatim>\<open>common/types.h\<close>; the requests, responses and updates with their
      printing.
    \<^item> \<open>Mem_Pool\<close>: \<^verbatim>\<open>common/mem_pool.h\<close>. What allocation and deallocation do, when they fail, and
      the interface \<open>object_pool\<close> that the books use.
    \<^item> \<open>LF_Queue\<close>: \<^verbatim>\<open>common/lf_queue.h\<close>. The queue as a list for one thread, and the
      interleaving of a producer with a consumer as a step relation: as long as the producer does not
      write to a full queue, for which the class has no test, the received elements are a prefix of the sent ones.
    \<^item> \<open>Ring\<close>, \<open>ME_Order_Book\<close>, \<open>ME_Book_Inv\<close>, \<open>ME_Book_Ops\<close>, \<open>ME_Book_Spec\<close>, \<open>ME_Book_Refine\<close>,
      \<open>ME_Book_Props\<close>: the exchange's book, \<^verbatim>\<open>exchange/matcher/me_order.h\<close> and
      \<^verbatim>\<open>me_order_book.h\<close>. The doubly linked circular lists, the invariant that relates pointers
      and tables to lists of levels and orders, its preservation by every operation, the
      specification of price-time priority on plain lists, and the refinement of it by \<open>add\<close> and
      \<open>cancel\<close>, with conservation and priority of the fills.
    \<^item> \<open>Matching_Engine\<close>: \<^verbatim>\<open>exchange/matcher/matching_engine.h\<close>. The loop implements the
      specification on all books; the interface \<open>book_provider\<close> is what it needs of a book.
    \<^item> \<open>Wire\<close>, \<open>Sockets\<close>: the packed layout of the messages with its round trips, and the buffers of
      \<^verbatim>\<open>common/tcp_socket.cpp\<close> and \<^verbatim>\<open>mcast_socket.cpp\<close>.
    \<^item> \<open>FIFO_Sequencer\<close>, \<open>Order_Server\<close>: \<^verbatim>\<open>exchange/order_server\<close> and \<^verbatim>\<open>common/tcp_server.cpp\<close>.
      Requests are forwarded in sequence and by time, responses numbered without a gap.
    \<^item> \<open>Market_Data_Publisher\<close>, \<open>Snapshot_Synthesizer\<close>: \<^verbatim>\<open>exchange/market_data\<close>. The numbering of
      the stream, and that the snapshots are what the stream says.
    \<^item> \<open>Exchange\<close>: engine, publisher and synthesizer together: the market updates rebuild the books,
      and the snapshot table is in step with them.
    \<^item> \<open>Request_Streams\<close>, \<open>Random_Trader\<close>: conditions on a stream of requests alone under which the books
      can take all of it, and the random trading of \<^verbatim>\<open>trading/trading_main.cpp\<close>, whose requests
      satisfy them for any number of clients in any order.
    \<^item> \<open>Market_Data_Consumer\<close>, \<open>Order_Gateway\<close>: \<^verbatim>\<open>trading/market_data\<close>, \<^verbatim>\<open>trading/order_gw\<close>.
      The consumer forwards a stream without gaps and its recovery completes; the way of a request from
      the client's queue to the matching engine's.
    \<^item> \<open>Order_Round\<close>: a round trip of a client's orders, through the gateway, the order server and its
      sequencer to the matching engine and back.
    \<^item> \<open>Trading_Types\<close>, \<open>Position_Keeper\<close>, \<open>Risk_Manager\<close>, \<open>Order_Manager\<close>, \<open>Strategies\<close>: the parts of
      \<^verbatim>\<open>trading/strategy\<close>. Positions and profit follow the fills, the risk check is exact, the order
      manager with the exchange as a transition system keeps the position limit and one open order per
      side, the algorithms quote and take where they should.
    \<^item> \<open>Market_Order_Book\<close>, \<open>Market_Book_Refine\<close>, \<open>Client_Book\<close>, \<open>Client_BBO\<close>, \<open>Client_Clear\<close>: the client's book,
      \<^verbatim>\<open>trading/strategy/market_order_book.h\<close>. It is embedded into the exchange's book, so that the
      lemmas on the latter apply; a client that processes the exchange's updates holds the exchange's
      books; the summary of the best prices is right except for the first order of a side; and CLEAR
      frees everything once but leaves freed levels in the table of prices, so that orders after it at the
      old prices are lost.
    \<^item> \<open>Trade_Engine\<close>: \<^verbatim>\<open>trading/strategy/trade_engine.h\<close>. A pass of the engine's loop is a sequence
      of steps of the order manager's transition system, and its books are the exchange's.
    \<^item> \<open>Honest_Exchange\<close>, \<open>Closed_Market\<close>, \<open>Closed_Engine\<close>, \<open>Closed_Progress\<close>: a client and the exchange as a
      closed system, with requests and responses on their way and other clients trading. That the responses
      are honest, which the properties of \<open>Order_Manager\<close> and \<open>Trade_Engine\<close> suppose, is an invariant of it: the
      responses on their way bring the order manager from what it holds to what the books hold. So the
      running engine keeps its position limits, the books and the order manager agree, and a pass returns.
    \<^item> \<open>Trade_Pass\<close>, \<open>Late_Joiner\<close>, \<open>Ecosystem\<close>: a pass over market updates cannot fault while prices and
      limits are far from the ends of their types; a client that starts late rebuilds the books from a
      snapshot and the increments after it; and a round of turns of all components on the way of the
      market data, from the matching engine to the books of the client, keeps everything in step.
    \<^item> \<open>Whole_Round\<close>: the composition of all this for one client: a round of turns of every component, with
      the orders going one way and responses and market data the other, works and can be repeated.
    \<^item> \<open>Logging\<close>: \<^verbatim>\<open>common/logging.h\<close>, \<^verbatim>\<open>thread_utils.h\<close> and \<^verbatim>\<open>time_utils.h\<close>. The
      formatting of a message against the tokens of its format, and the safe use of the tagged union
      under every interleaving of the two threads.
    \<^item> \<open>Book_Printing\<close>, \<open>Trading_Printing\<close>: the printing of both books, with its sanity check, and of
      positions and limits.
    \<^item> \<open>Socket_Utils\<close>: \<^verbatim>\<open>common/socket_utils.h\<close> and the callers of it. The state of the socket
      that \<^verbatim>\<open>createSocket\<close> returns, as the answers of the system to its calls determine it: as configured, but
      not always connected.
    \<^item> \<open>Command_Line\<close>, \<open>Programs\<close>: the arguments of the client program and the two main programs: how
      they construct and start the components, that these fit together from the start, how they end.
    \<^item> \<open>Start_Up\<close>: what the two programs have set up, after the first connection, is the state in which the rounds of
      \<open>Whole_Round\<close> begin.

  \<^bold>\<open>Bounds and fuel.\<close> The loops of the books get the size of the pool of orders or of levels, which no
  list exceeds; those over a queue the number of waiting elements; the acceptance of connections the
  number the system can give. An order can be added when its identifiers are within the tables, no
  live order of its client has its number, no other price shares its index among the 256 levels, and
  an order and a level are free; orders at its own price may rest on either side. A stream of requests
  is tame when its prices lie within 127 values, its numbers are new and there are fewer requests than
  entries in the table of orders. The order manager numbers its orders with 64 bits, so the closed system is followed for
  fewer than \<open>2 ^ 64 - 1\<close> requests; the position keeper multiplies positions with 32 bits, so a pass over fills is
  shown to return for limits of at most 46340, and a larger position does overflow; prices are at most
  \<open>2 ^ 29\<close> where the strategies compute with them. A round has room for what it sends, in queues and buffers.

  \<^bold>\<open>What is not modelled.\<close> The names of the log files, the sleeping of the threads, the tails of the
  messages of assertions that are built from \<^verbatim>\<open>errno\<close>, the example programs under
  \<^verbatim>\<open>common\<close>, and the destruction of objects beyond the stopping of their threads. The queues
  between two threads are modelled at the granularity of their atomic accesses in \<open>LF_Queue\<close> and
  \<open>Logging\<close>; the other components use them as lists. The rounds of \<open>Order_Round\<close> and \<open>Whole_Round\<close> are those of one client
  whose packets arrive whole and in the order of the turns; packets in parts, other orders of the turns and other clients
  are in the properties of the single components and in the closed system, whose requests and responses
  may be on their way for any time.
\<close>

end
